(* ===== verification/Prelude.thy ===== *)
theory Prelude imports Main "HOL-Library.Word" begin

text \<open>
  Shared vocabulary of the development: the machine integers of the firmware as words, byte
  strings, Rust's \<open>Result\<close> as a sum with its \<open>?\<close> operator, the little- and big-endian
  byte conversions of the Rust core library, the bounded vectors of the firmware (an append that
  does not fit is refused as a whole), hexadecimal and decimal rendering, and the collections of
  simplification rules the component theories share.
\<close>

unbundle bit_operations_syntax

subsection \<open>Types\<close>

type_synonym u8 = "8 word"
type_synonym u16 = "16 word"
type_synonym u32 = "32 word"
type_synonym u64 = "64 word"
type_synonym i8 = "8 word"   \<comment> \<open>read with \<open>sint\<close>\<close>
type_synonym i16 = "16 word" \<comment> \<open>read with \<open>sint\<close>\<close>
type_synonym bytes = "8 word list"

text \<open>
  \<open>codec_simps\<close> collects the byte-level rewrite rules of the encoders and decoders,
  \<open>result_iff\<close> the inversion rules of the error monad.
\<close>

named_theorems codec_simps
named_theorems result_iff

subsection \<open>Results: the question-mark operator\<close>

fun rbind :: "'e + 'a \<Rightarrow> ('a \<Rightarrow> 'e + 'b) \<Rightarrow> 'e + 'b" where
  "rbind (Inl e) f = Inl e"
| "rbind (Inr x) f = f x"

fun map_err :: "('e \<Rightarrow> 'f) \<Rightarrow> 'e + 'a \<Rightarrow> 'f + 'a" where
  "map_err f (Inl e) = Inl (f e)"
| "map_err f (Inr x) = Inr x"

fun ok_or :: "'a option \<Rightarrow> 'e \<Rightarrow> 'e + 'a" where
  "ok_or None e = Inl e"
| "ok_or (Some x) e = Inr x"

fun is_ok :: "'e + 'a \<Rightarrow> bool" where
  "is_ok (Inl e) = False"
| "is_ok (Inr x) = True"

lemma rbind_Inr_iff [result_iff]: "rbind m f = Inr y \<longleftrightarrow> (\<exists>x. m = Inr x \<and> f x = Inr y)"
  by (cases m) auto

lemma rbind_Inl_iff [result_iff]:
  "rbind m f = Inl e \<longleftrightarrow> m = Inl e \<or> (\<exists>x. m = Inr x \<and> f x = Inl e)"
  by (cases m) auto

lemma map_err_Inr_iff [result_iff]: "map_err f m = Inr y \<longleftrightarrow> m = Inr y"
  by (cases m) auto

lemma map_err_Inl_iff [result_iff]: "map_err f m = Inl e \<longleftrightarrow> (\<exists>e'. m = Inl e' \<and> f e' = e)"
  by (cases m) auto

lemma ok_or_Inr_iff [result_iff]: "ok_or m e = Inr x \<longleftrightarrow> m = Some x"
  by (cases m) auto

lemma ok_or_Inl_iff [result_iff]: "ok_or m e = Inl e' \<longleftrightarrow> m = None \<and> e' = e"
  by (cases m) auto

lemma is_ok_iff [result_iff]: "is_ok m \<longleftrightarrow> (\<exists>x. m = Inr x)"
  by (cases m) auto

subsection \<open>Endianness\<close>

definition to_le16 :: "u16 \<Rightarrow> bytes" where
  "to_le16 w = [ucast w, ucast (drop_bit 8 w)]"

definition from_le16 :: "u8 \<Rightarrow> u8 \<Rightarrow> u16" where
  "from_le16 a b = ucast a OR push_bit 8 (ucast b)"

definition to_be16 :: "u16 \<Rightarrow> bytes" where
  "to_be16 w = [ucast (drop_bit 8 w), ucast w]"

definition from_be16 :: "u8 \<Rightarrow> u8 \<Rightarrow> u16" where
  "from_be16 a b = push_bit 8 (ucast a) OR ucast b"

definition to_le32 :: "u32 \<Rightarrow> bytes" where
  "to_le32 w = [ucast w, ucast (drop_bit 8 w), ucast (drop_bit 16 w), ucast (drop_bit 24 w)]"

definition from_le32 :: "u8 \<Rightarrow> u8 \<Rightarrow> u8 \<Rightarrow> u8 \<Rightarrow> u32" where
  "from_le32 a b c d =
     ucast a OR push_bit 8 (ucast b) OR push_bit 16 (ucast c) OR push_bit 24 (ucast d)"

definition to_be32 :: "u32 \<Rightarrow> bytes" where
  "to_be32 w = [ucast (drop_bit 24 w), ucast (drop_bit 16 w), ucast (drop_bit 8 w), ucast w]"

definition from_be32 :: "u8 \<Rightarrow> u8 \<Rightarrow> u8 \<Rightarrow> u8 \<Rightarrow> u32" where
  "from_be32 a b c d = from_le32 d c b a"

lemma length_to_le16 [simp]: "length (to_le16 w) = 2"
  by (simp add: to_le16_def)

lemma length_to_be16 [simp]: "length (to_be16 w) = 2"
  by (simp add: to_be16_def)

lemma length_to_le32 [simp]: "length (to_le32 w) = 4"
  by (simp add: to_le32_def)

lemma length_to_be32 [simp]: "length (to_be32 w) = 4"
  by (simp add: to_be32_def)

lemma from_le16_to_le16 [codec_simps]: "from_le16 (ucast w) (ucast (drop_bit 8 w)) = w"
  by (rule bit_word_eqI) (auto simp: from_le16_def bit_simps)

lemma from_be16_to_be16 [codec_simps]: "from_be16 (ucast (drop_bit 8 w)) (ucast w) = w"
  by (rule bit_word_eqI) (auto simp: from_be16_def bit_simps)

lemma from_le32_to_le32 [codec_simps]:
  "from_le32 (ucast w) (ucast (drop_bit 8 w)) (ucast (drop_bit 16 w)) (ucast (drop_bit 24 w)) = w"
proof (rule bit_word_eqI)
  fix n :: nat assume n: "n < LENGTH(32)"
  consider "n < 8" | "8 \<le> n" "n < 16" | "16 \<le> n" "n < 24" | "24 \<le> n" "n < 32" using n by fastforce
  then show "bit (from_le32 (ucast w) (ucast (drop_bit 8 w)) (ucast (drop_bit 16 w))
      (ucast (drop_bit 24 w))) n = bit w n"
    by cases (auto simp: from_le32_def bit_simps)
qed

lemma from_be32_to_be32 [codec_simps]:
  "from_be32 (ucast (drop_bit 24 w)) (ucast (drop_bit 16 w)) (ucast (drop_bit 8 w)) (ucast w) = w"
  unfolding from_be32_def by (rule from_le32_to_le32)

lemma to_be16_from_be16: "to_be16 (from_be16 a b) = [a, b]"
proof -
  have "ucast (drop_bit 8 (from_be16 a b)) = a" "ucast (from_be16 a b) = b"
    by (rule bit_word_eqI; auto simp: from_be16_def bit_simps dest: bit_imp_le_length)+
  then show ?thesis by (simp add: to_be16_def)
qed

subsection \<open>Rust integer operations on words\<close>

definition saturating_sub :: "'a::len word \<Rightarrow> 'a word \<Rightarrow> 'a word" where
  "saturating_sub a b = (if a < b then 0 else a - b)"

lemma unat_saturating_sub: "unat (saturating_sub a b) = unat a - unat b"
  by (auto simp: saturating_sub_def unat_sub word_less_nat_alt not_less word_le_nat_alt)

text \<open>\<open>div_ceil\<close> of the unsigned integers: the quotient plus one when there is a remainder.\<close>

definition div_ceil :: "'a::len word \<Rightarrow> 'a word \<Rightarrow> 'a word" where
  "div_ceil a b = (if a mod b = 0 then a div b else a div b + 1)"

definition u32_MAX :: u32 where "u32_MAX = 0xFFFFFFFF"

text \<open>Widening casts keep the value.\<close>

lemma unat_ucast_up:
  fixes w :: "'a::len word"
  assumes "LENGTH('a) \<le> LENGTH('b::len)"
  shows "unat (ucast w :: 'b word) = unat w"
proof -
  have "unat w < 2 ^ LENGTH('a)" by (rule unsigned_less)
  also have "(2 :: nat) ^ LENGTH('a) \<le> 2 ^ LENGTH('b)" using assms by simp
  finally show ?thesis by (simp add: unsigned_ucast_eq take_bit_nat_eq_self)
qed

lemma unat_ucast_8_16 [simp]: "unat (ucast (w :: u8) :: u16) = unat w"
  by (rule unat_ucast_up) simp

lemma unat_ucast_8_32 [simp]: "unat (ucast (w :: u8) :: u32) = unat w"
  by (rule unat_ucast_up) simp

lemma unat_ucast_16_32 [simp]: "unat (ucast (w :: u16) :: u32) = unat w"
  by (rule unat_ucast_up) simp

lemma unat_ucast_32_64 [simp]: "unat (ucast (w :: u32) :: u64) = unat w"
  by (rule unat_ucast_up) simp

lemma ucast_ucast_8_32 [simp]: "(ucast (ucast (w :: u8) :: u32) :: u8) = w"
  by (rule bit_word_eqI) (auto simp: bit_simps)

text \<open>Masking with \<open>0xFF\<close> before a cast to a byte changes nothing.\<close>

lemma ucast_and_ff [simp]: "(ucast ((w :: 'a::len word) AND 255) :: u8) = ucast w"
proof -
  have m: "(255 :: 'a word) = mask 8" by (simp add: mask_eq_exp_minus_1)
  show ?thesis unfolding m by (rule bit_word_eqI) (auto simp: bit_simps dest: bit_imp_le_length)
qed

text \<open>
  Sums, products and quotients of words that stay in range are the ones of the natural numbers.
\<close>

lemma unat_add_fits:
  "unat (a :: 'a::len word) + unat b < 2 ^ LENGTH('a) \<Longrightarrow> unat (a + b) = unat a + unat b"
  by (simp add: unat_word_ariths)

lemma unat_mult_fits:
  "unat (a :: 'a::len word) * unat b < 2 ^ LENGTH('a) \<Longrightarrow> unat (a * b) = unat a * unat b"
  by (simp add: unat_word_ariths)

lemma unat_div_ceil:
  assumes "unat (a :: 'a::len word) < 2 ^ LENGTH('a) - 1" and "0 < unat b"
  shows "unat (div_ceil a b) = (unat a + (unat b - 1)) div unat b"
proof (cases "unat a mod unat b = 0")
  case True
  then obtain k where k: "unat a = unat b * k" by auto
  moreover have "(unat b - 1 + unat b * k) div unat b = k"
  proof -
    have "(unat b - 1 + unat b * k) div unat b = k + (unat b - 1) div unat b"
      using assms(2) by (intro div_mult_self2) simp
    then show ?thesis using assms(2) by simp
  qed
  moreover have "a mod b = 0" using True by (simp add: word_unat_eq_iff unat_mod)
  ultimately show ?thesis using assms(2)
    by (simp add: div_ceil_def unat_div add.commute)
next
  case False
  let ?q = "unat a div unat b" and ?r = "unat a mod unat b"
  have ar: "unat a = unat b * ?q + ?r" by simp
  have "unat a + (unat b - 1) = (?r - 1) + unat b * (?q + 1)"
    using ar False assms(2) by (simp only: distrib_left mult_1_right)
  moreover have "?r - 1 < unat b"
    using mod_less_divisor [OF assms(2), of "unat a"] by linarith
  ultimately have d: "(unat a + (unat b - 1)) div unat b = ?q + 1"
    using assms(2) div_mult_self2 [of "unat b" "?r - 1" "?q + 1"] by simp
  have "?q \<le> unat a" by (rule div_le_dividend)
  then have "?q + 1 < 2 ^ LENGTH('a)" using assms(1) by linarith
  then have "unat (a div b + 1) = ?q + 1"
    by (simp add: unat_word_ariths unat_div)
  moreover have "a mod b \<noteq> 0" using False by (metis unat_mod unat_0)
  ultimately show ?thesis using d by (simp add: div_ceil_def)
qed

subsection \<open>Bounded vectors\<close>

text \<open>
  The firmware's vectors and strings have a fixed capacity. Appending a slice that does not fit
  fails and leaves the vector as it was; the code either propagates that failure or drops it.
  \<open>push_cap\<close> is the dropped form.
\<close>

definition extend_cap :: "nat \<Rightarrow> 'a list \<Rightarrow> 'a list \<Rightarrow> 'a list option" where
  "extend_cap cap xs ys = (if length xs + length ys \<le> cap then Some (xs @ ys) else None)"

definition push_cap :: "nat \<Rightarrow> 'a list \<Rightarrow> 'a list \<Rightarrow> 'a list" where
  "push_cap cap xs ys = (case extend_cap cap xs ys of None \<Rightarrow> xs | Some zs \<Rightarrow> zs)"

lemma push_cap_fits [simp]: "length xs + length ys \<le> cap \<Longrightarrow> push_cap cap xs ys = xs @ ys"
  by (simp add: push_cap_def extend_cap_def)

lemma length_push_cap: "length xs \<le> cap \<Longrightarrow> length (push_cap cap xs ys) \<le> cap"
  by (simp add: push_cap_def extend_cap_def)

subsection \<open>Bounded channels\<close>

text \<open>Sending to a full channel fails and leaves it alone; a channel holds its messages oldest first.\<close>

definition try_send :: "nat \<Rightarrow> 'a \<Rightarrow> 'a list \<Rightarrow> ('a list) option" where
  "try_send cap x q = (if length q < cap then Some (q @ [x]) else None)"

lemma try_send_Some_iff: "try_send cap x q = Some q' \<longleftrightarrow> length q < cap \<and> q' = q @ [x]"
  by (auto simp: try_send_def)

end
