(* ===== verification/Rust_Text.thy ===== *)
theory Rust_Text imports Prelude begin

text \<open>
  Rust strings as the list of their UTF-8 bytes (\<open>rtext\<close>), literals (\<open>lit\<close>), and the UTF-8
  check of \<open>core::str::from_utf8\<close>. A bounded string of capacity \<open>n\<close> is a valid text of at most
  \<open>n\<close> bytes.
\<close>

type_synonym rtext = bytes

definition lit :: "string \<Rightarrow> rtext" where
  "lit s = map (\<lambda>c. of_char c) s"

lemma lit_Nil [simp]: "lit [] = []"
  by (simp add: lit_def)

lemma lit_Cons [simp]: "lit (c # s) = of_char c # lit s"
  by (simp add: lit_def)

lemma length_lit [simp]: "length (lit s) = length s"
  by (simp add: lit_def)

subsection \<open>UTF-8\<close>

definition byte_in :: "u8 \<Rightarrow> u8 \<Rightarrow> u8 \<Rightarrow> bool" where
  "byte_in lo hi b \<longleftrightarrow> lo \<le> b \<and> b \<le> hi"

definition continuation :: "u8 \<Rightarrow> bool" where
  "continuation b \<longleftrightarrow> byte_in 0x80 0xBF b"

text \<open>
  The well-formed sequences: one byte, or a lead byte followed by continuation bytes, without
  overlong forms, surrogates or values above the last code point.
\<close>

definition lead2 :: "u8 \<Rightarrow> u8 \<Rightarrow> bool" where
  "lead2 a b \<longleftrightarrow> byte_in 0xC2 0xDF a \<and> continuation b"

definition lead3 :: "u8 \<Rightarrow> u8 \<Rightarrow> bool" where
  "lead3 a b \<longleftrightarrow> a = 0xE0 \<and> byte_in 0xA0 0xBF b \<or> byte_in 0xE1 0xEC a \<and> continuation b
     \<or> a = 0xED \<and> byte_in 0x80 0x9F b \<or> byte_in 0xEE 0xEF a \<and> continuation b"

definition lead4 :: "u8 \<Rightarrow> u8 \<Rightarrow> bool" where
  "lead4 a b \<longleftrightarrow> a = 0xF0 \<and> byte_in 0x90 0xBF b \<or> byte_in 0xF1 0xF3 a \<and> continuation b
     \<or> a = 0xF4 \<and> byte_in 0x80 0x8F b"

fun utf8_ok :: "bytes \<Rightarrow> bool" where
  "utf8_ok [] = True"
| "utf8_ok (a # bs) =
     (if a < 0x80 then utf8_ok bs
      else case bs of
          [] \<Rightarrow> False
        | b # cs \<Rightarrow>
            if lead2 a b then utf8_ok cs
            else case cs of
                [] \<Rightarrow> False
              | c # ds \<Rightarrow>
                  if lead3 a b \<and> continuation c then utf8_ok ds
                  else case ds of
                      [] \<Rightarrow> False
                    | d # es \<Rightarrow> lead4 a b \<and> continuation c \<and> continuation d \<and> utf8_ok es)"

definition text_ok :: "nat \<Rightarrow> rtext \<Rightarrow> bool" where
  "text_ok cap s \<longleftrightarrow> utf8_ok s \<and> length s \<le> cap"

lemma utf8_ascii: "\<forall>b \<in> set s. b < 0x80 \<Longrightarrow> utf8_ok s"
  by (induction s) auto

lemma text_ok_Nil [simp]: "text_ok n []"
  by (simp add: text_ok_def)

end
