(* ===== verification/Hub_Types.thy ===== *)
theory Hub_Types imports Rust_Text begin

text \<open>
  The hub command and response types and their wire identifiers
  (\<open>hub-protocol/src/types.rs\<close>, the limits of \<open>hub-protocol/src/lib.rs\<close>). The bounded strings are
  texts; \<open>*_ok\<close> states the bounds that their types carry in the code.
\<close>

definition MAX_SSID_LEN :: nat where "MAX_SSID_LEN = 32"
definition MAX_PASSWORD_LEN :: nat where "MAX_PASSWORD_LEN = 64"
definition MAX_HOST_LEN :: nat where "MAX_HOST_LEN = 64"
definition MAX_CLIENT_ID_LEN :: nat where "MAX_CLIENT_ID_LEN = 32"

lemmas text_limits = MAX_SSID_LEN_def MAX_PASSWORD_LEN_def MAX_HOST_LEN_def MAX_CLIENT_ID_LEN_def

subsection \<open>Identifiers and enumerations\<close>

datatype hub_command_id =
    CmdSetWifiConfig | CmdSetMqttConfig | CmdGetNetworkConfig | CmdGetHubStatus | CmdSetMode
  | CmdClearNetworkConfig | CmdSetGatewayConfig

fun hub_command_byte :: "hub_command_id \<Rightarrow> u8" where
  "hub_command_byte CmdSetWifiConfig = 0x20"
| "hub_command_byte CmdSetMqttConfig = 0x21"
| "hub_command_byte CmdGetNetworkConfig = 0x22"
| "hub_command_byte CmdGetHubStatus = 0x23"
| "hub_command_byte CmdSetMode = 0x24"
| "hub_command_byte CmdClearNetworkConfig = 0x25"
| "hub_command_byte CmdSetGatewayConfig = 0x26"

definition hub_command_from_byte :: "u8 \<Rightarrow> hub_command_id option" where
  "hub_command_from_byte b =
     (if b = 0x20 then Some CmdSetWifiConfig
      else if b = 0x21 then Some CmdSetMqttConfig
      else if b = 0x22 then Some CmdGetNetworkConfig
      else if b = 0x23 then Some CmdGetHubStatus
      else if b = 0x24 then Some CmdSetMode
      else if b = 0x25 then Some CmdClearNetworkConfig
      else if b = 0x26 then Some CmdSetGatewayConfig
      else None)"

datatype hub_response_id = RespNetworkConfig | RespHubStatus | RespConfigAck

fun hub_response_byte :: "hub_response_id \<Rightarrow> u8" where
  "hub_response_byte RespNetworkConfig = 0x20"
| "hub_response_byte RespHubStatus = 0x21"
| "hub_response_byte RespConfigAck = 0x22"

definition hub_response_from_byte :: "u8 \<Rightarrow> hub_response_id option" where
  "hub_response_from_byte b =
     (if b = 0x20 then Some RespNetworkConfig
      else if b = 0x21 then Some RespHubStatus
      else if b = 0x22 then Some RespConfigAck
      else None)"

datatype hub_mode = Bridge | LorawanGateway

fun hub_mode_byte :: "hub_mode \<Rightarrow> u8" where
  "hub_mode_byte Bridge = 0"
| "hub_mode_byte LorawanGateway = 1"

definition hub_mode_from_byte :: "u8 \<Rightarrow> hub_mode option" where
  "hub_mode_from_byte b = (if b = 0 then Some Bridge else if b = 1 then Some LorawanGateway else None)"

datatype link_state = Unprovisioned | Connecting | Connected | Disconnected

fun link_state_byte :: "link_state \<Rightarrow> u8" where
  "link_state_byte Unprovisioned = 0"
| "link_state_byte Connecting = 1"
| "link_state_byte Connected = 2"
| "link_state_byte Disconnected = 3"

definition link_state_from_byte :: "u8 \<Rightarrow> link_state option" where
  "link_state_from_byte b =
     (if b = 0 then Some Unprovisioned else if b = 1 then Some Connecting
      else if b = 2 then Some Connected else if b = 3 then Some Disconnected else None)"

datatype ack_status = AckOk | InvalidValue | StorageError

fun ack_status_byte :: "ack_status \<Rightarrow> u8" where
  "ack_status_byte AckOk = 0"
| "ack_status_byte InvalidValue = 1"
| "ack_status_byte StorageError = 2"

definition ack_status_from_byte :: "u8 \<Rightarrow> ack_status option" where
  "ack_status_from_byte b =
     (if b = 0 then Some AckOk else if b = 1 then Some InvalidValue
      else if b = 2 then Some StorageError else None)"

subsection \<open>Settings\<close>

record wifi_settings =
  ssid :: rtext
  password :: rtext

record mqtt_settings =
  mqtt_host :: rtext
  mqtt_port :: u16
  client_id :: rtext

record gateway_settings =
  gw_frequency_hz :: u32
  gw_spreading_factor :: u8
  gw_bandwidth_khz :: u32
  gw_coding_rate :: u8
  gw_host :: rtext
  gw_port :: u16

definition default_gateway :: gateway_settings where
  "default_gateway =
     \<lparr>gw_frequency_hz = 868100000, gw_spreading_factor = 7, gw_bandwidth_khz = 125,
      gw_coding_rate = 5, gw_host = [], gw_port = 1700\<rparr>"

definition wifi_ok :: "wifi_settings \<Rightarrow> bool" where
  "wifi_ok w \<longleftrightarrow> text_ok MAX_SSID_LEN (ssid w) \<and> text_ok MAX_PASSWORD_LEN (password w)"

definition mqtt_ok :: "mqtt_settings \<Rightarrow> bool" where
  "mqtt_ok m \<longleftrightarrow> text_ok MAX_HOST_LEN (mqtt_host m) \<and> text_ok MAX_CLIENT_ID_LEN (client_id m)"

definition gateway_ok :: "gateway_settings \<Rightarrow> bool" where
  "gateway_ok g \<longleftrightarrow> text_ok MAX_HOST_LEN (gw_host g)"

record hub_status =
  wifi_state :: link_state
  ip :: "u8 \<times> u8 \<times> u8 \<times> u8"
  mqtt_state :: link_state
  uplink_count :: u32
  downlink_count :: u32
  dropped_count :: u32
  uptime_secs :: u32

subsection \<open>Commands and responses\<close>

datatype hub_command =
    SetWifiConfig wifi_settings
  | SetMqttConfig mqtt_settings
  | GetNetworkConfig
  | GetHubStatus
  | SetMode hub_mode
  | ClearNetworkConfig
  | SetGatewayConfig gateway_settings

fun hub_command_id_of :: "hub_command \<Rightarrow> hub_command_id" where
  "hub_command_id_of (SetWifiConfig _) = CmdSetWifiConfig"
| "hub_command_id_of (SetMqttConfig _) = CmdSetMqttConfig"
| "hub_command_id_of GetNetworkConfig = CmdGetNetworkConfig"
| "hub_command_id_of GetHubStatus = CmdGetHubStatus"
| "hub_command_id_of (SetMode _) = CmdSetMode"
| "hub_command_id_of ClearNetworkConfig = CmdClearNetworkConfig"
| "hub_command_id_of (SetGatewayConfig _) = CmdSetGatewayConfig"

datatype hub_response =
    NetworkConfig hub_mode rtext mqtt_settings gateway_settings
  | HubStatus hub_status
  | ConfigAck ack_status

fun hub_command_ok :: "hub_command \<Rightarrow> bool" where
  "hub_command_ok (SetWifiConfig w) = wifi_ok w"
| "hub_command_ok (SetMqttConfig m) = mqtt_ok m"
| "hub_command_ok (SetGatewayConfig g) = gateway_ok g"
| "hub_command_ok _ = True"

fun hub_response_ok :: "hub_response \<Rightarrow> bool" where
  "hub_response_ok (NetworkConfig m s q g) = (text_ok MAX_SSID_LEN s \<and> mqtt_ok q \<and> gateway_ok g)"
| "hub_response_ok _ = True"

subsection \<open>Every identifier survives the wire\<close>

lemma hub_command_byte_iff: "hub_command_from_byte b = Some i \<longleftrightarrow> b = hub_command_byte i"
  by (cases i) (auto simp: hub_command_from_byte_def)

lemma hub_response_byte_iff: "hub_response_from_byte b = Some i \<longleftrightarrow> b = hub_response_byte i"
  by (cases i) (auto simp: hub_response_from_byte_def)

lemma hub_mode_byte_iff: "hub_mode_from_byte b = Some m \<longleftrightarrow> b = hub_mode_byte m"
  by (cases m) (auto simp: hub_mode_from_byte_def)

lemma link_state_byte_iff: "link_state_from_byte b = Some l \<longleftrightarrow> b = link_state_byte l"
  by (cases l) (auto simp: link_state_from_byte_def)

lemma ack_status_byte_iff: "ack_status_from_byte b = Some a \<longleftrightarrow> b = ack_status_byte a"
  by (cases a) (auto simp: ack_status_from_byte_def)

lemma from_byte_byte [simp]:
  "hub_command_from_byte (hub_command_byte i) = Some i"
  "hub_response_from_byte (hub_response_byte j) = Some j"
  "hub_mode_from_byte (hub_mode_byte m) = Some m"
  "link_state_from_byte (link_state_byte l) = Some l"
  "ack_status_from_byte (ack_status_byte a) = Some a"
  by (simp_all only: hub_command_byte_iff hub_response_byte_iff hub_mode_byte_iff
      link_state_byte_iff ack_status_byte_iff)

lemmas byte_iffs [result_iff] = hub_command_byte_iff hub_response_byte_iff hub_mode_byte_iff
  link_state_byte_iff ack_status_byte_iff

end
