(* ===== verification/Messages.thy ===== *)
theory Messages imports Hub_Types begin

text \<open>
  The messages that travel between the tasks. The command and response types belong to the shared
  protocol crate; they appear here with the constructors the firmware names, without its codec. The
  envelopes and the broadcast response messages are the ones of \<open>src/dispatcher/handler.rs\<close>.
\<close>

subsection \<open>The types of the protocol crate\<close>

datatype command =
    GetVersion
  | Reboot
  | LoraTx bytes
  | SetSpreadingFactor u8
  | GetRadioConfig

datatype command_id = IdGetVersion | IdReboot | IdLoraTx | IdSetSpreadingFactor | IdGetRadioConfig

fun command_id_of :: "command \<Rightarrow> command_id" where
  "command_id_of GetVersion = IdGetVersion"
| "command_id_of Reboot = IdReboot"
| "command_id_of (LoraTx _) = IdLoraTx"
| "command_id_of (SetSpreadingFactor _) = IdSetSpreadingFactor"
| "command_id_of GetRadioConfig = IdGetRadioConfig"

datatype response_status =
    StSuccess | StInvalidCommand | StInvalidLength | StCrcError | StInvalidVersion
  | StInvalidParameter | StLoraError | StTimeout

datatype response =
    Version u8 u8 u8
  | TxComplete
  | TxRefused (retry_after_secs: u32)
  | RxPacket bytes i16 i8
  | RadioConfig u32 u8 u32 u8 i8
  | ErrorResponse response_status command_id

subsection \<open>Envelopes and responses\<close>

datatype command_source = Serial | WiFi

record hub_command_envelope =
  henv_command :: hub_command
  henv_source :: command_source
  henv_sequence_id :: u16

record command_envelope =
  env_command :: command
  env_source :: command_source
  env_sequence_id :: u16

datatype response_message =
    CommandResponse command_source u16 response
  | Unsolicited response
  | HubRaw command_source bytes

text \<open>The capacity of the command queue to the radio task, and of the hub command queue.\<close>

definition COMMAND_CHANNEL_SIZE :: nat where "COMMAND_CHANNEL_SIZE = 8"
definition HUB_CHANNEL_SIZE :: nat where "HUB_CHANNEL_SIZE = 4"

end
