(* ===== verification/Duty_Cycle.thy ===== *)
theory Duty_Cycle imports Prelude begin

text \<open>
  The EU 868 MHz duty-cycle limiter (\<open>src/lora/duty_cycle.rs\<close>): a ring of sixty one-minute
  buckets of spent airtime. The ring is related to an abstract sliding list of sixty minutes,
  oldest first (\<open>window\<close>), on which rotating the ring drops the oldest minutes and a claim adds to
  the last one. On that view the lemmas show that the budget is never overdrawn, that a refusal
  charges nothing, that the retry hint is exact, and how much airtime any stretch of time can
  carry.
\<close>

subsection \<open>The sub-band table\<close>

definition in_band :: "u32 \<Rightarrow> u32 \<Rightarrow> u32 \<Rightarrow> bool" where
  "in_band lo hi f \<longleftrightarrow> lo \<le> f \<and> f \<le> hi"

definition eu_duty_cycle_permille :: "u32 \<Rightarrow> u16 option" where
  "eu_duty_cycle_permille freq_hz =
     (if in_band 433050000 434790000 freq_hz then Some 100
      else if in_band 868000000 868600000 freq_hz then Some 10
      else if in_band 868700000 869200000 freq_hz then Some 1
      else if in_band 869400000 869650000 freq_hz then Some 100
      else if in_band 869700000 870000000 freq_hz then Some 10
      else if 863000000 \<le> freq_hz \<and> freq_hz < 870000000 then Some 1
      else None)"

definition eu_band_key :: "u32 \<Rightarrow> u8" where
  "eu_band_key freq_hz =
     (if in_band 433050000 434790000 freq_hz then 1
      else if in_band 868000000 868600000 freq_hz then 2
      else if in_band 868700000 869200000 freq_hz then 3
      else if in_band 869400000 869650000 freq_hz then 4
      else if in_band 869700000 870000000 freq_hz then 5
      else if 863000000 \<le> freq_hz \<and> freq_hz < 870000000 then 6
      else 0)"

subsection \<open>The limiter\<close>

definition BUCKET_COUNT :: nat where "BUCKET_COUNT = 60"
definition BUCKET_MS :: u64 where "BUCKET_MS = 60000"

datatype duty_cycle_exceeded = DutyCycleExceeded (retry_after_ms: "u64 option")

record duty_limiter =
  buckets :: "u32 list"
  head :: nat
  head_start_ms :: u64
  allowance_ms :: "u32 option"

definition for_frequency :: "u32 \<Rightarrow> duty_limiter" where
  "for_frequency freq_hz =
     \<lparr>buckets = replicate BUCKET_COUNT 0, head = 0, head_start_ms = 0,
      allowance_ms = map_option (\<lambda>permille. ucast permille * 3600) (eu_duty_cycle_permille freq_hz)\<rparr>"

definition spent_ms :: "duty_limiter \<Rightarrow> u32" where
  "spent_ms d = sum_list (buckets d)"

definition advance_bucket :: "duty_limiter \<Rightarrow> duty_limiter" where
  "advance_bucket d =
     (let h = (head d + 1) mod BUCKET_COUNT
      in d\<lparr>buckets := (buckets d)[h := 0], head := h, head_start_ms := head_start_ms d + BUCKET_MS\<rparr>)"

definition advance :: "duty_limiter \<Rightarrow> u64 \<Rightarrow> duty_limiter" where
  "advance d now_ms =
     (let elapsed_buckets = saturating_sub now_ms (head_start_ms d) div BUCKET_MS
      in if of_nat BUCKET_COUNT \<le> elapsed_buckets
         then d\<lparr>buckets := replicate BUCKET_COUNT 0, head := 0, head_start_ms := now_ms\<rparr>
         else (advance_bucket ^^ unat elapsed_buckets) d)"

text \<open>The oldest-first walk over the buckets that computes when enough budget frees up.\<close>

fun find_retry :: "duty_limiter \<Rightarrow> u64 \<Rightarrow> u32 \<Rightarrow> u32 \<Rightarrow> u32 \<Rightarrow> u32 \<Rightarrow> nat list \<Rightarrow> duty_cycle_exceeded" where
  "find_retry d now_ms allowance airtime spent freed [] = DutyCycleExceeded None"
| "find_retry d now_ms allowance airtime spent freed (expired # rest) =
     (let freed' = freed + buckets d ! ((head d + expired) mod BUCKET_COUNT)
      in if spent - freed' + airtime \<le> allowance
         then DutyCycleExceeded
           (Some (saturating_sub (head_start_ms d + of_nat expired * BUCKET_MS) now_ms))
         else find_retry d now_ms allowance airtime spent freed' rest)"

definition try_claim ::
  "duty_limiter \<Rightarrow> u64 \<Rightarrow> u32 \<Rightarrow> (duty_cycle_exceeded + unit) \<times> duty_limiter" where
  "try_claim d now_ms airtime =
     (case allowance_ms d of
        None \<Rightarrow> (Inr (), d)
      | Some allowance \<Rightarrow>
          if allowance < airtime then (Inl (DutyCycleExceeded None), d)
          else
            let d' = advance d now_ms; spent = spent_ms d'
            in if spent + airtime \<le> allowance
               then (Inr (), d'\<lparr>buckets := (buckets d')[head d' := buckets d' ! head d' + airtime]\<rparr>)
               else (Inl (find_retry d' now_ms allowance airtime spent 0 [1..<BUCKET_COUNT + 1]), d'))"

subsection \<open>The abstract window\<close>

text \<open>
  \<open>window d\<close> lists the sixty buckets oldest minute first, as natural numbers; its last entry is
  the minute that starts at \<open>head_start_ms\<close>.
\<close>

definition window :: "duty_limiter \<Rightarrow> nat list" where
  "window d = map (\<lambda>i. unat (buckets d ! ((head d + 1 + i) mod 60))) [0..<60]"

definition limiter_ok :: "duty_limiter \<Rightarrow> bool" where
  "limiter_ok d \<longleftrightarrow> length (buckets d) = 60 \<and> head d < 60 \<and>
     (\<forall>a. allowance_ms d = Some a \<longrightarrow> unat a \<le> 360000 \<and> sum_list (window d) \<le> unat a)"

lemma length_window [simp]: "length (window d) = 60"
  by (simp add: window_def)

lemma nth_window: "i < 60 \<Longrightarrow> window d ! i = unat (buckets d ! ((head d + 1 + i) mod 60))"
  by (simp add: window_def)

lemma sum_list_rotate: "sum_list (rotate n (xs :: nat list)) = sum_list xs"
proof -
  let ?k = "n mod length xs"
  have "sum_list (rotate n xs) = sum_list (drop ?k xs) + sum_list (take ?k xs)"
    by (simp add: rotate_drop_take)
  also have "\<dots> = sum_list (take ?k xs @ drop ?k xs)" by (simp only: sum_list_append add.commute)
  finally show ?thesis by simp
qed

lemma window_rotate:
  "length (buckets d) = 60 \<Longrightarrow> window d = rotate (head d + 1) (map unat (buckets d))"
  by (rule nth_equalityI) (simp_all add: nth_window nth_rotate del: rotate_Suc)

lemma sum_window: "length (buckets d) = 60 \<Longrightarrow> sum_list (window d) = sum_list (map unat (buckets d))"
  by (simp only: window_rotate sum_list_rotate)

lemma unat_sum_list_fits:
  "sum_list (map unat (xs :: 'a::len word list)) < 2 ^ LENGTH('a) \<Longrightarrow>
   unat (sum_list xs) = sum_list (map unat xs)"
  by (induction xs) (auto simp: unat_add_fits)

subsection \<open>Rotating the ring drops the oldest minutes\<close>

lemma ring_index_ne: "h < 60 \<Longrightarrow> i < 59 \<Longrightarrow> (h + 1 + i) mod (60 :: nat) \<noteq> h"
  by (cases "h + 1 + i < 60") (auto simp: mod_if)

lemma window_advance_bucket:
  assumes "length (buckets d) = 60" "head d < 60"
  shows "window (advance_bucket d) = tl (window d) @ [0]"
proof (rule nth_equalityI)
  fix i assume "i < length (window (advance_bucket d))"
  then have i: "i < 60" by simp
  let ?h = "(head d + 1) mod 60"
  have idx: "(?h + 1 + i) mod 60 = (head d + 1 + (i + 1)) mod 60"
    using mod_add_left_eq [of "head d + 1" 60 "i + 1"] by (simp add: ac_simps)
  have lhs: "window (advance_bucket d) ! i = unat ((buckets d)[?h := 0] ! ((?h + 1 + i) mod 60))"
    using i by (simp add: nth_window advance_bucket_def BUCKET_COUNT_def Let_def)
  show "window (advance_bucket d) ! i = (tl (window d) @ [0]) ! i"
  proof (cases "i = 59")
    case True
    have "(?h + 1 + 59) mod 60 = ?h" by simp
    then show ?thesis using True lhs assms by (simp add: nth_append)
  next
    case False
    then have "i < 59" using i by simp
    then have "(?h + 1 + i) mod 60 \<noteq> ?h" by (intro ring_index_ne) simp_all
    then have "window (advance_bucket d) ! i = unat (buckets d ! ((?h + 1 + i) mod 60))"
      using lhs by (simp only: nth_list_update_neq not_sym)
    also have "\<dots> = window d ! (i + 1)" using \<open>i < 59\<close> by (simp only: idx) (simp add: nth_window)
    also have "\<dots> = (tl (window d) @ [0]) ! i" using \<open>i < 59\<close> by (simp add: nth_append nth_tl)
    finally show ?thesis .
  qed
qed simp

lemma advance_bucket_frame [simp]:
  "length (buckets (advance_bucket d)) = length (buckets d)"
  "head (advance_bucket d) < 60"
  "allowance_ms (advance_bucket d) = allowance_ms d"
  "head_start_ms (advance_bucket d) = head_start_ms d + BUCKET_MS"
  by (simp_all add: advance_bucket_def Let_def BUCKET_COUNT_def)

lemma advance_buckets_frame:
  assumes "length (buckets d) = 60" "head d < 60"
  shows "length (buckets ((advance_bucket ^^ n) d)) = 60 \<and> head ((advance_bucket ^^ n) d) < 60
    \<and> allowance_ms ((advance_bucket ^^ n) d) = allowance_ms d
    \<and> head_start_ms ((advance_bucket ^^ n) d) = head_start_ms d + of_nat n * BUCKET_MS"
  using assms by (induction n) (simp_all add: algebra_simps)

lemma window_advance_buckets:
  assumes "length (buckets d) = 60" "head d < 60" "n \<le> 60"
  shows "window ((advance_bucket ^^ n) d) = drop n (window d) @ replicate n 0"
  using assms(3)
proof (induction n)
  case (Suc n)
  have "window ((advance_bucket ^^ Suc n) d) = tl (drop n (window d) @ replicate n 0) @ [0]"
    using Suc advance_buckets_frame [OF assms(1,2), of n] by (simp add: window_advance_bucket)
  also have "\<dots> = drop (Suc n) (window d) @ replicate n 0 @ [0]"
    using Suc.prems by (simp add: drop_Suc tl_drop tl_append split: list.split)
      (metis drop_eq_Nil length_drop length_window list.sel(3) not_less_eq_eq tl_drop)
  finally show ?case by (simp add: replicate_append_same)
qed simp

text \<open>The number of whole minutes \<open>advance\<close> rotates by.\<close>

definition minutes_since :: "duty_limiter \<Rightarrow> u64 \<Rightarrow> nat" where
  "minutes_since d now_ms = (unat now_ms - unat (head_start_ms d)) div 60000"

lemma elapsed_minutes:
  "unat (saturating_sub now_ms (head_start_ms d) div BUCKET_MS) = minutes_since d now_ms"
  by (simp add: minutes_since_def unat_div unat_saturating_sub BUCKET_MS_def)

lemma advance_cases:
  "advance d now_ms =
     (if 60 \<le> minutes_since d now_ms
      then d\<lparr>buckets := replicate 60 0, head := 0, head_start_ms := now_ms\<rparr>
      else (advance_bucket ^^ minutes_since d now_ms) d)"
  by (simp add: advance_def Let_def elapsed_minutes word_le_nat_alt BUCKET_COUNT_def)

lemma window_advance:
  assumes "length (buckets d) = 60" "head d < 60"
  shows "window (advance d now_ms) =
    drop (min 60 (minutes_since d now_ms)) (window d) @ replicate (min 60 (minutes_since d now_ms)) 0"
proof (cases "60 \<le> minutes_since d now_ms")
  case True
  have "window (d\<lparr>buckets := replicate 60 0, head := 0, head_start_ms := now_ms\<rparr>) = replicate 60 0"
    by (rule nth_equalityI) (simp_all add: nth_window)
  with True show ?thesis by (simp add: advance_cases min_absorb1)
next
  case False
  with assms show ?thesis by (simp add: advance_cases window_advance_buckets)
qed

lemma advance_frame:
  assumes "length (buckets d) = 60" "head d < 60"
  shows "length (buckets (advance d now_ms)) = 60" "head (advance d now_ms) < 60"
    "allowance_ms (advance d now_ms) = allowance_ms d"
  using advance_buckets_frame [OF assms, of "minutes_since d now_ms"]
  by (auto simp: advance_cases)

lemma advance_head_start:
  assumes "length (buckets d) = 60" "head d < 60" "head_start_ms d \<le> now_ms"
  shows "unat (head_start_ms (advance d now_ms)) =
    (if 60 \<le> minutes_since d now_ms then unat now_ms
     else unat (head_start_ms d) + minutes_since d now_ms * 60000)"
proof (cases "60 \<le> minutes_since d now_ms")
  case False
  let ?m = "minutes_since d now_ms"
  have "?m * 60000 \<le> unat now_ms - unat (head_start_ms d)"
    by (simp add: minutes_since_def)
  moreover have "unat (head_start_ms d) \<le> unat now_ms" using assms(3) by (simp add: word_le_nat_alt)
  ultimately have le: "unat (head_start_ms d) + ?m * 60000 \<le> unat now_ms" by linarith
  have "unat now_ms < 2 ^ 64" using unsigned_less [of now_ms] by simp
  with le False have "unat (head_start_ms d + of_nat ?m * BUCKET_MS) = unat (head_start_ms d) + ?m * 60000"
    by (simp add: unat_word_ariths unat_of_nat BUCKET_MS_def)
  with False advance_buckets_frame [OF assms(1,2), of ?m] show ?thesis by (simp add: advance_cases)
qed (simp add: advance_cases)

subsection \<open>The budget invariant\<close>

lemma sum_list_drop_le: "sum_list (drop n xs) \<le> sum_list (xs :: nat list)"
  by (metis append_take_drop_id le_add2 sum_list_append)

lemma limiter_ok_dims: "limiter_ok d \<Longrightarrow> length (buckets d) = 60" "limiter_ok d \<Longrightarrow> head d < 60"
  by (simp_all add: limiter_ok_def)

lemma limiter_ok_allowance:
  "limiter_ok d \<Longrightarrow> allowance_ms d = Some a \<Longrightarrow> unat a \<le> 360000 \<and> sum_list (window d) \<le> unat a"
  by (simp add: limiter_ok_def)

lemma limiter_ok_advance: "limiter_ok d \<Longrightarrow> limiter_ok (advance d now_ms)"
  using advance_frame [of d now_ms] sum_list_drop_le [of _ "window d"]
  by (fastforce simp: limiter_ok_def window_advance sum_list_replicate intro: order_trans)

lemma unat_spent:
  assumes "limiter_ok d" "allowance_ms d = Some a"
  shows "unat (spent_ms d) = sum_list (window d)"
proof -
  have "sum_list (window d) < 2 ^ 32"
    using limiter_ok_allowance [OF assms] by simp
  then show ?thesis
    using unat_sum_list_fits [of "buckets d"] sum_window [of d] limiter_ok_dims [OF assms(1)]
    by (simp add: spent_ms_def)
qed

lemma window_charge:
  assumes "length (buckets d) = 60" "head d < 60" "window d ! 59 + unat a < 2 ^ 32"
  shows "window (d\<lparr>buckets := (buckets d)[head d := buckets d ! head d + a]\<rparr>)
       = (window d)[59 := window d ! 59 + unat a]"
proof (rule nth_equalityI)
  fix i assume "i < length (window (d\<lparr>buckets := (buckets d)[head d := buckets d ! head d + a]\<rparr>))"
  then have i: "i < 60" by simp
  have last: "window d ! 59 = unat (buckets d ! head d)"
    using assms(2) by (simp add: nth_window)
  show "window (d\<lparr>buckets := (buckets d)[head d := buckets d ! head d + a]\<rparr>) ! i
      = (window d)[59 := window d ! 59 + unat a] ! i"
  proof (cases "i = 59")
    case True
    then show ?thesis using assms last by (simp add: nth_window unat_add_fits)
  next
    case False
    then have "(head d + 1 + i) mod 60 \<noteq> head d" using i assms(2) by (intro ring_index_ne) auto
    then show ?thesis using False i by (simp add: nth_window)
  qed
qed simp

lemma sum_list_charge: "length w = 60 \<Longrightarrow> sum_list (w[59 := w ! 59 + a]) = sum_list w + (a :: nat)"
  by (simp add: sum_list_update member_le_sum_list trans_le_add1)

text \<open>
  The abstract limiter: a claim slides the window by the whole minutes that passed, then is
  granted exactly when the window has room.
\<close>

definition slide :: "nat \<Rightarrow> nat list \<Rightarrow> nat list" where
  "slide m w = drop (min 60 m) w @ replicate (min 60 m) 0"

definition spec_claim :: "nat \<Rightarrow> nat list \<Rightarrow> nat \<Rightarrow> nat \<Rightarrow> bool \<times> nat list" where
  "spec_claim allowance w minutes airtime =
     (if allowance < airtime then (False, w)
      else let w' = slide minutes w
           in if sum_list w' + airtime \<le> allowance then (True, w'[59 := w' ! 59 + airtime])
              else (False, w'))"

lemma length_slide: "length w = 60 \<Longrightarrow> length (slide m w) = 60"
  by (simp add: slide_def)

lemma sum_slide: "sum_list (slide m w) \<le> sum_list w"
  using sum_list_drop_le [of "min 60 m" w] by (simp add: slide_def sum_list_replicate)

text \<open>One lemma describes every branch of \<open>try_claim\<close> on a limited band.\<close>

lemma try_claim_branches:
  assumes ok: "limiter_ok d" and al: "allowance_ms d = Some A"
  shows "A < a \<Longrightarrow> try_claim d now_ms a = (Inl (DutyCycleExceeded None), d)"
    and "\<lbrakk>a \<le> A; sum_list (window (advance d now_ms)) + unat a \<le> unat A\<rbrakk> \<Longrightarrow>
      fst (try_claim d now_ms a) = Inr () \<and>
      window (snd (try_claim d now_ms a))
        = (window (advance d now_ms))[59 := window (advance d now_ms) ! 59 + unat a]"
    and "\<lbrakk>a \<le> A; unat A < sum_list (window (advance d now_ms)) + unat a\<rbrakk> \<Longrightarrow>
      try_claim d now_ms a = (Inl (find_retry (advance d now_ms) now_ms A a
        (spent_ms (advance d now_ms)) 0 [1..<61]), advance d now_ms)"
proof -
  let ?d = "advance d now_ms"
  have ok': "limiter_ok ?d" using ok by (rule limiter_ok_advance)
  have al': "allowance_ms ?d = Some A" using al limiter_ok_dims [OF ok] by (simp add: advance_frame)
  have A: "unat A \<le> 360000" "sum_list (window ?d) \<le> unat A"
    using limiter_ok_allowance [OF ok' al'] by auto
  have sp: "unat (spent_ms ?d) = sum_list (window ?d)" using ok' al' by (rule unat_spent)
  have add: "unat (spent_ms ?d + a) = sum_list (window ?d) + unat a" if "a \<le> A"
    using that A sp by (subst unat_add_fits) (auto simp: word_le_nat_alt)
  have l59: "window ?d ! 59 \<le> sum_list (window ?d)" by (rule member_le_sum_list) simp_all
  have test: "spent_ms ?d + a \<le> A \<longleftrightarrow> sum_list (window ?d) + unat a \<le> unat A" if "a \<le> A"
    by (simp add: word_le_nat_alt add [OF that])
  show "A < a \<Longrightarrow> try_claim d now_ms a = (Inl (DutyCycleExceeded None), d)"
    using al by (simp add: try_claim_def)
  show "\<lbrakk>a \<le> A; sum_list (window ?d) + unat a \<le> unat A\<rbrakk> \<Longrightarrow>
      fst (try_claim d now_ms a) = Inr () \<and>
      window (snd (try_claim d now_ms a)) = (window ?d)[59 := window ?d ! 59 + unat a]"
    using al test A l59 limiter_ok_dims [OF ok']
    by (simp add: try_claim_def Let_def not_less [symmetric] window_charge)
  show "\<lbrakk>a \<le> A; unat A < sum_list (window ?d) + unat a\<rbrakk> \<Longrightarrow>
      try_claim d now_ms a = (Inl (find_retry ?d now_ms A a (spent_ms ?d) 0 [1..<61]), ?d)"
    using al test by (simp add: try_claim_def Let_def BUCKET_COUNT_def not_less [symmetric])
qed

lemma try_claim_frame:
  assumes "limiter_ok d"
  shows "length (buckets (snd (try_claim d now_ms a))) = 60"
    "head (snd (try_claim d now_ms a)) < 60"
    "allowance_ms (snd (try_claim d now_ms a)) = allowance_ms d"
    "head_start_ms (snd (try_claim d now_ms a)) =
       (case allowance_ms d of None \<Rightarrow> head_start_ms d
        | Some A \<Rightarrow> if A < a then head_start_ms d else head_start_ms (advance d now_ms))"
  using advance_frame [of d now_ms] limiter_ok_dims [OF assms]
  by (auto simp: try_claim_def Let_def split: option.splits)

lemma try_claim_spec:
  assumes "limiter_ok d" "allowance_ms d = Some A"
  shows "(is_ok (fst (try_claim d now_ms a)), window (snd (try_claim d now_ms a)))
       = spec_claim (unat A) (window d) (minutes_since d now_ms) (unat a)"
proof -
  have w: "window (advance d now_ms) = slide (minutes_since d now_ms) (window d)"
    using limiter_ok_dims [OF assms(1)] by (simp add: window_advance slide_def)
  consider "A < a" | "a \<le> A" "sum_list (window (advance d now_ms)) + unat a \<le> unat A"
    | "a \<le> A" "unat A < sum_list (window (advance d now_ms)) + unat a"
    by fastforce
  then show ?thesis
  proof cases
    case 1
    then show ?thesis using try_claim_branches(1) [OF assms, of a now_ms]
      by (simp add: spec_claim_def word_less_nat_alt)
  next
    case 2
    then show ?thesis using try_claim_branches(2) [OF assms 2]
      by (simp add: spec_claim_def word_le_nat_alt not_less [symmetric] Let_def w)
  next
    case 3
    then show ?thesis using try_claim_branches(3) [OF assms 3]
      by (simp add: spec_claim_def word_le_nat_alt not_less [symmetric] Let_def w)
  qed
qed

lemma sum_spec_claim:
  "\<lbrakk>length w = 60; sum_list w \<le> A\<rbrakk> \<Longrightarrow> sum_list (snd (spec_claim A w m a)) \<le> A"
  using sum_slide [of m w]
  by (auto simp: spec_claim_def Let_def sum_list_charge length_slide)

lemma limiter_ok_for_frequency: "limiter_ok (for_frequency f)"
proof -
  have "window (for_frequency f) = replicate 60 0"
    by (rule nth_equalityI) (simp_all add: nth_window for_frequency_def BUCKET_COUNT_def)
  moreover have "unat (ucast p * 3600 :: u32) \<le> 360000" if "eu_duty_cycle_permille f = Some p" for p
    using that by (auto simp: eu_duty_cycle_permille_def split: if_splits)
  ultimately show ?thesis
    by (auto simp: limiter_ok_def for_frequency_def BUCKET_COUNT_def sum_list_replicate)
qed

lemma limiter_ok_try_claim:
  assumes "limiter_ok d" shows "limiter_ok (snd (try_claim d now_ms a))"
proof (cases "allowance_ms d")
  case None
  then show ?thesis using assms by (simp add: try_claim_def)
next
  case (Some A)
  have "window (snd (try_claim d now_ms a)) = snd (spec_claim (unat A) (window d) (minutes_since d now_ms) (unat a))"
    using try_claim_spec [OF assms Some, of now_ms a] by (metis snd_conv)
  with sum_spec_claim [of "window d" "unat A"] limiter_ok_allowance [OF assms Some]
  show ?thesis using Some try_claim_frame [OF assms] by (simp add: limiter_ok_def)
qed

subsection \<open>The retry hint\<close>

lemma sum_take_le: "sum_list (take n xs) \<le> sum_list (xs :: nat list)"
  by (metis append_take_drop_id le_add1 sum_list_append)

lemma sum_drop_eq: "sum_list (drop n xs) = sum_list xs - sum_list (take n (xs :: nat list))"
  by (metis add_diff_cancel_left' append_take_drop_id sum_list_append)

lemma find_retry_eq:
  assumes ok: "limiter_ok d" and al: "allowance_ms d = Some A" and a: "a \<le> A" and k: "k \<le> 60"
  shows "find_retry d now_ms A a (spent_ms d) (of_nat (sum_list (take k (window d)))) [Suc k..<61]
    = DutyCycleExceeded (map_option (\<lambda>e. saturating_sub (head_start_ms d + of_nat e * BUCKET_MS) now_ms)
        (find (\<lambda>e. sum_list (drop e (window d)) + unat a \<le> unat A) [Suc k..<61]))"
  using k
proof (induction "60 - k" arbitrary: k)
  case 0
  then show ?case by simp
next
  case (Suc n)
  let ?w = "window d"
  have k: "k < 60" using Suc.hyps(2) by linarith
  have A: "unat A \<le> 360000" "sum_list ?w \<le> unat A" using limiter_ok_allowance [OF ok al] by auto
  have sp: "unat (spent_ms d) = sum_list ?w" using ok al by (rule unat_spent)
  have bk: "buckets d ! ((head d + Suc k) mod 60) = of_nat (?w ! k)"
    using k by (simp add: nth_window)
  have tk: "sum_list (take (Suc k) ?w) = sum_list (take k ?w) + ?w ! k"
    using k by (simp add: take_Suc_conv_app_nth)
  have fr: "of_nat (sum_list (take k ?w)) + buckets d ! ((head d + Suc k) mod 60)
      = (of_nat (sum_list (take (Suc k) ?w)) :: u32)"
    by (simp only: tk bk of_nat_add)
  have fu: "unat (of_nat (sum_list (take (Suc k) ?w)) :: u32) = sum_list (take (Suc k) ?w)"
    using A sum_take_le [of "Suc k" ?w] by (simp add: unsigned_of_nat take_bit_nat_eq_self)
  have df: "unat (spent_ms d - of_nat (sum_list (take (Suc k) ?w))) = sum_list (drop (Suc k) ?w)"
    using sum_take_le [of "Suc k" ?w]
    by (subst unat_sub) (simp_all add: word_le_nat_alt fu sp sum_drop_eq)
  have "sum_list (drop (Suc k) ?w) + unat a < 2 ^ 32"
    using A sum_list_drop_le [of "Suc k" ?w] a by (simp add: word_le_nat_alt)
  then have test: "spent_ms d - of_nat (sum_list (take (Suc k) ?w)) + a \<le> A
      \<longleftrightarrow> sum_list (drop (Suc k) ?w) + unat a \<le> unat A"
    by (simp add: word_le_nat_alt [of _ A] unat_add_fits df)
  have up: "[Suc k..<61] = Suc k # [Suc (Suc k)..<61]" using k by (simp add: upt_conv_Cons)
  have IH: "find_retry d now_ms A a (spent_ms d) (of_nat (sum_list (take (Suc k) ?w))) [Suc (Suc k)..<61]
    = DutyCycleExceeded (map_option (\<lambda>e. saturating_sub (head_start_ms d + of_nat e * BUCKET_MS) now_ms)
        (find (\<lambda>e. sum_list (drop e ?w) + unat a \<le> unat A) [Suc (Suc k)..<61]))"
    using Suc.hyps(2) k by (intro Suc.hyps(1)) auto
  show ?case
    unfolding up find_retry.simps Let_def BUCKET_COUNT_def fr test IH by simp
qed

text \<open>
  After a refusal the first minute count whose expiry makes room is the one the hint names; it
  exists because expiring the whole window frees everything.
\<close>

lemma find_first:
  "find P [1..<61] = Some e \<Longrightarrow> 1 \<le> e \<and> e \<le> 60 \<and> P e \<and> (\<forall>m. 1 \<le> m \<and> m < e \<longrightarrow> \<not> P m)"
  by (auto simp: find_Some_iff nth_upt) (metis Suc_diff_1 diff_less_mono less_Suc_eq_le
      less_numeral_extra(1) not_less_eq_eq One_nat_def Suc_leI diff_Suc_1 le_less_trans less_imp_diff_less)

lemma advance_start_bounds:
  assumes "limiter_ok d" "head_start_ms d \<le> now_ms"
  shows "unat (head_start_ms (advance d now_ms)) \<le> unat now_ms"
    and "unat now_ms < unat (head_start_ms (advance d now_ms)) + 60000"
proof -
  note dims = limiter_ok_dims [OF assms(1)]
  have le: "unat (head_start_ms d) \<le> unat now_ms" using assms(2) by (simp add: word_le_nat_alt)
  have "minutes_since d now_ms * 60000 \<le> unat now_ms - unat (head_start_ms d)"
    by (simp add: minutes_since_def)
  moreover have "unat now_ms - unat (head_start_ms d) < minutes_since d now_ms * 60000 + 60000"
    unfolding minutes_since_def by (simp add: div_mult_mod_eq [symmetric] dividend_less_div_times)
  ultimately show "unat (head_start_ms (advance d now_ms)) \<le> unat now_ms"
    "unat now_ms < unat (head_start_ms (advance d now_ms)) + 60000"
    using le advance_head_start [OF dims assms(2)] by auto
qed

lemma granted_iff:
  assumes "limiter_ok d" "allowance_ms d = Some A" "a \<le> A"
  shows "is_ok (fst (try_claim d now_ms a)) \<longleftrightarrow>
    sum_list (drop (min 60 (minutes_since d now_ms)) (window d)) + unat a \<le> unat A"
proof -
  have "is_ok (fst (try_claim d now_ms a)) = fst (spec_claim (unat A) (window d) (minutes_since d now_ms) (unat a))"
    using try_claim_spec [OF assms(1,2), of now_ms a] by (metis fst_conv)
  then show ?thesis using assms(3)
    by (simp add: spec_claim_def Let_def slide_def sum_list_replicate word_le_nat_alt)
qed

lemma try_claim_retry:
  assumes ok: "limiter_ok d" and al: "allowance_ms d = Some A" and mono: "head_start_ms d \<le> now_ms"
    and far: "now_ms < 2 ^ 63" and r: "try_claim d now_ms a = (Inl (DutyCycleExceeded r), d')"
  shows "if A < a then r = None \<and> d' = d
    else \<exists>w. r = Some w \<and> 0 < w \<and> w \<le> 3600000 \<and> is_ok (fst (try_claim d' (now_ms + w) a))
      \<and> (\<forall>t < w. \<not> is_ok (fst (try_claim d' (now_ms + t) a)))"
proof (cases "A < a")
  case True
  then show ?thesis using try_claim_branches(1) [OF ok al True, of now_ms] r by simp
next
  case False
  then have aA: "a \<le> A" by simp
  let ?d = "advance d now_ms"
  let ?P = "\<lambda>e. sum_list (drop e (window ?d)) + unat a \<le> unat A"
  have full: "unat A < sum_list (window ?d) + unat a"
    using try_claim_branches(2) [OF ok al aA, of now_ms] r by (cases "unat A < sum_list (window ?d) + unat a") auto
  note ok' = limiter_ok_advance [OF ok, of now_ms]
  have al': "allowance_ms ?d = Some A" using al limiter_ok_dims [OF ok] by (simp add: advance_frame)
  have d': "d' = ?d" and hint: "DutyCycleExceeded r = find_retry ?d now_ms A a (spent_ms ?d) 0 [1..<61]"
    using try_claim_branches(3) [OF ok al aA full] r by auto
  have "?P 60" using aA by (simp add: word_le_nat_alt)
  moreover have "60 \<in> set [1..<61]" by simp
  ultimately have "find ?P [1..<61] \<noteq> None" by (metis find_None_iff)
  then obtain e where e: "find ?P [1..<61] = Some e" by blast
  note first = find_first [OF e]
  have rs: "r = Some (saturating_sub (head_start_ms ?d + of_nat e * BUCKET_MS) now_ms)"
    using hint find_retry_eq [OF ok' al' aA, of 0 now_ms] e by simp
  define h where "h = unat (head_start_ms ?d)"
  define n where "n = unat now_ms"
  have hn: "h \<le> n" "n < h + 60000" using advance_start_bounds [OF ok mono] by (simp_all add: h_def n_def)
  have n63: "n < 2 ^ 63" using far by (simp add: n_def word_less_nat_alt)
  have ready: "unat (head_start_ms ?d + of_nat e * BUCKET_MS) = h + e * 60000"
    using first hn n63 by (simp add: unat_word_ariths unat_of_nat BUCKET_MS_def h_def)
  define w where "w = saturating_sub (head_start_ms ?d + of_nat e * BUCKET_MS) now_ms"
  have w: "unat w = h + e * 60000 - n" by (simp add: w_def unat_saturating_sub ready n_def)
  have sum: "unat (now_ms + t) = n + unat t" if "t \<le> w" for t
  proof -
    have "unat t \<le> unat w" using that by (simp add: word_le_nat_alt)
    then show ?thesis using w n63 first hn by (subst unat_add_fits) (auto simp: n_def)
  qed
  have mins: "minutes_since ?d (now_ms + t) = (n + unat t - h) div 60000" if "t \<le> w" for t
    by (simp add: minutes_since_def sum [OF that] h_def)
  have granted: "is_ok (fst (try_claim ?d (now_ms + w) a))"
  proof -
    have "n + unat w - h = e * 60000" using w first hn by linarith
    then show ?thesis using first by (simp add: granted_iff [OF ok' al' aA] mins)
  qed
  have refused: "\<not> is_ok (fst (try_claim ?d (now_ms + t) a))" if "t < w" for t
  proof -
    have "unat t < unat w" using that by (simp add: word_less_nat_alt)
    then have "n + unat t - h < e * 60000" using w hn by linarith
    then have "(n + unat t - h) div 60000 < e" by (simp add: less_mult_imp_div_less)
    then show ?thesis using first full that
      by (cases "(n + unat t - h) div 60000 = 0") (auto simp: granted_iff [OF ok' al' aA] mins)
  qed
  have "0 < unat w" "unat w \<le> 3600000" using w first hn by linarith+
  then have "0 < w" "w \<le> 3600000" by (simp_all add: word_le_nat_alt word_less_nat_alt)
  then show ?thesis using False granted refused rs d' by (auto simp: w_def [symmetric])
qed

subsection \<open>Airtime over stretches of time\<close>

text \<open>
  A run of claims and the log of the granted ones. \<open>granted_within\<close> sums the airtime granted at
  times between two bounds.
\<close>

fun run_claims ::
  "duty_limiter \<Rightarrow> (nat \<times> nat) list \<Rightarrow> (u64 \<times> u32) list \<Rightarrow> (nat \<times> nat) list \<times> duty_limiter" where
  "run_claims d log [] = (log, d)"
| "run_claims d log ((now_ms, a) # cs) =
     (case try_claim d now_ms a of
        (Inr _, d') \<Rightarrow> run_claims d' (log @ [(unat now_ms, unat a)]) cs
      | (Inl _, d') \<Rightarrow> run_claims d' log cs)"

definition granted_within :: "nat \<Rightarrow> nat \<Rightarrow> (nat \<times> nat) list \<Rightarrow> nat" where
  "granted_within lo hi log = sum_list (map snd (filter (\<lambda>(t, a). lo \<le> t \<and> t \<le> hi) log))"

definition granted_since :: "nat \<Rightarrow> (nat \<times> nat) list \<Rightarrow> nat" where
  "granted_since lo log = sum_list (map snd (filter (\<lambda>(t, a). lo \<le> t) log))"

lemma granted_since_append [simp]:
  "granted_since lo (log @ [(t, a)]) = granted_since lo log + (if lo \<le> t then a else 0)"
  by (simp add: granted_since_def)

lemma granted_within_append [simp]:
  "granted_within lo hi (log @ [(t, a)]) = granted_within lo hi log + (if lo \<le> t \<and> t \<le> hi then a else 0)"
  by (simp add: granted_within_def)

lemma granted_within_since: "granted_within lo hi log \<le> granted_since lo log"
  unfolding granted_within_def granted_since_def by (induction log) auto

lemma granted_since_mono: "lo \<le> lo' \<Longrightarrow> granted_since lo' log \<le> granted_since lo log"
  unfolding granted_since_def by (induction log) auto

lemma granted_since_none: "\<forall>(t, a) \<in> set log. t < lo \<Longrightarrow> granted_since lo log = 0"
  unfolding granted_since_def by (induction log) auto

lemma granted_within_mono: "hi \<le> hi' \<Longrightarrow> granted_within lo hi log \<le> granted_within lo hi' log"
  unfolding granted_within_def by (induction log) auto

lemma granted_within_split:
  "lo \<le> mid \<Longrightarrow> mid < hi \<Longrightarrow>
   granted_within lo hi log = granted_within lo mid log + granted_within (Suc mid) hi log"
  unfolding granted_within_def by (induction log) auto

text \<open>
  \<open>cover hs w log\<close>: the granted claims of the last minutes before the current one (which starts
  at \<open>hs\<close>) are covered by the buckets of those minutes. Sliding, resetting and charging keep it.
\<close>

definition cover :: "nat \<Rightarrow> nat list \<Rightarrow> (nat \<times> nat) list \<Rightarrow> bool" where
  "cover hs w log \<longleftrightarrow> (\<forall>(t, a) \<in> set log. t < hs + 60000) \<and>
     (\<forall>k \<le> 59. granted_since (hs - k * 60000) log \<le> sum_list (drop (59 - k) w))"

lemma cover_slide:
  assumes "cover hs w log" "length w = 60" "m < 60"
  shows "cover (hs + m * 60000) (slide m w) log"
  unfolding cover_def
proof (intro conjI allI impI)
  show "\<forall>(t, a) \<in> set log. t < hs + m * 60000 + 60000"
    using assms(1) by (force simp: cover_def)
next
  fix k :: nat assume k: "k \<le> 59"
  show "granted_since (hs + m * 60000 - k * 60000) log \<le> sum_list (drop (59 - k) (slide m w))"
  proof (cases "m \<le> k")
    case True
    then have "hs + m * 60000 - k * 60000 = hs - (k - m) * 60000"
      by (simp add: diff_mult_distrib)
    moreover have "drop (59 - k) (slide m w) = drop (59 - (k - m)) w @ replicate m 0"
      using True k assms(2,3) by (simp add: slide_def ac_simps)
    moreover have "granted_since (hs - (k - m) * 60000) log \<le> sum_list (drop (59 - (k - m)) w)"
      using assms(1) k True unfolding cover_def by (meson diff_le_self order_trans)
    ultimately show ?thesis by (simp add: sum_list_replicate)
  next
    case False
    then have "k * 60000 + 60000 \<le> m * 60000" by linarith
    then have "granted_since (hs + m * 60000 - k * 60000) log = 0"
      using assms(1) by (intro granted_since_none) (force simp: cover_def)
    then show ?thesis by simp
  qed
qed

lemma cover_reset:
  assumes "cover hs w log" "hs + 3600000 \<le> now"
  shows "cover now (replicate 60 0) log"
proof -
  have *: "\<forall>(t, a) \<in> set log. t < hs + 60000" using assms(1) by (simp add: cover_def)
  have "granted_since (now - k * 60000) log = 0" if "k \<le> 59" for k
  proof -
    have "k * 60000 \<le> 3540000" using that by simp
    then have "hs + 60000 \<le> now - k * 60000" using assms(2) by linarith
    then show ?thesis using * by (intro granted_since_none) force
  qed
  then show ?thesis using * assms(2) by (force simp: cover_def)
qed

lemma cover_charge:
  assumes "cover hs w log" "length w = 60" "hs \<le> now" "now < hs + 60000"
  shows "cover hs (w[59 := w ! 59 + a]) (log @ [(now, a)])"
proof -
  have "sum_list (drop (59 - k) (w[59 := w ! 59 + a])) = sum_list (drop (59 - k) w) + a" if "k \<le> 59" for k
  proof -
    have d: "drop (59 - k) (w[59 := w ! 59 + a]) = (drop (59 - k) w)[k := drop (59 - k) w ! k + a]"
      using that assms(2) by (simp add: drop_update_swap)
    have k: "k < length (drop (59 - k) w)" using that assms(2) by simp
    then have "drop (59 - k) w ! k \<le> sum_list (drop (59 - k) w)"
      by (intro member_le_sum_list nth_mem) simp_all
    then show ?thesis unfolding d using k by (simp add: sum_list_update)
  qed
  then show ?thesis using assms by (auto simp: cover_def)
qed

lemma cover_try_claim:
  assumes ok: "limiter_ok d" and al: "allowance_ms d = Some A" and mono: "head_start_ms d \<le> now_ms"
    and cov: "cover (unat (head_start_ms d)) (window d) log"
    and r: "try_claim d now_ms a = (r, d')"
  shows "cover (unat (head_start_ms d')) (window d') (if is_ok r then log @ [(unat now_ms, unat a)] else log)"
    and "is_ok r \<Longrightarrow> unat (head_start_ms d') \<le> unat now_ms"
proof -
  let ?d = "advance d now_ms"
  note dims = limiter_ok_dims [OF ok]
  have cov': "cover (unat (head_start_ms ?d)) (window ?d) log"
  proof (cases "60 \<le> minutes_since d now_ms")
    case True
    then have "unat (head_start_ms d) + 3600000 \<le> unat now_ms"
      unfolding minutes_since_def by linarith
    moreover have "window ?d = replicate 60 0"
      using True dims by (simp add: window_advance)
    ultimately show ?thesis using cover_reset [OF cov] True dims mono by (simp add: advance_head_start)
  next
    case False
    then show ?thesis using cover_slide [OF cov, of "minutes_since d now_ms"] dims mono
      by (simp add: window_advance advance_head_start slide_def)
  qed
  have start: "unat (head_start_ms ?d) \<le> unat now_ms" "unat now_ms < unat (head_start_ms ?d) + 60000"
    using advance_start_bounds [OF ok mono] .
  note frame = try_claim_frame(4) [OF ok, of now_ms a]
  consider "A < a" | "a \<le> A" "sum_list (window ?d) + unat a \<le> unat A"
    | "a \<le> A" "unat A < sum_list (window ?d) + unat a" by fastforce
  then have "cover (unat (head_start_ms d')) (window d') (if is_ok r then log @ [(unat now_ms, unat a)] else log)
     \<and> (is_ok r \<longrightarrow> unat (head_start_ms d') \<le> unat now_ms)"
  proof cases
    case 1
    then show ?thesis using try_claim_branches(1) [OF ok al 1, of now_ms] r cov by simp
  next
    case 2
    then show ?thesis using try_claim_branches(2) [OF ok al 2] r frame al start cover_charge [OF cov' _ start]
      by (simp add: not_less [symmetric])
  next
    case 3
    then show ?thesis using try_claim_branches(3) [OF ok al 3] r cov' by simp
  qed
  then show "cover (unat (head_start_ms d')) (window d') (if is_ok r then log @ [(unat now_ms, unat a)] else log)"
    and "is_ok r \<Longrightarrow> unat (head_start_ms d') \<le> unat now_ms" by auto
qed

lemma cover_stretch:
  assumes "cover hs w log" "length w = 60" "hs \<le> x + 3540000"
  shows "granted_since x log \<le> sum_list w"
proof -
  have "granted_since x log \<le> granted_since (hs - 59 * 60000) log"
    using assms(3) by (intro granted_since_mono) simp
  also have "\<dots> \<le> sum_list (drop (59 - 59) w)" using assms(1) unfolding cover_def by blast
  finally show ?thesis by simp
qed

lemma try_claim_start:
  assumes "limiter_ok d" "head_start_ms d \<le> now_ms"
  shows "head_start_ms (snd (try_claim d now_ms a)) \<le> now_ms"
  using assms advance_start_bounds(1) [OF assms] try_claim_frame(4) [OF assms(1), of now_ms a]
  by (auto simp: word_le_nat_alt split: option.splits)

text \<open>
  The invariant of a limiter together with the log of what it granted, and the one step that
  keeps it.
\<close>

definition log_inv :: "duty_limiter \<Rightarrow> u32 \<Rightarrow> (nat \<times> nat) list \<Rightarrow> bool" where
  "log_inv d A log \<longleftrightarrow> limiter_ok d \<and> allowance_ms d = Some A
     \<and> cover (unat (head_start_ms d)) (window d) log
     \<and> (\<forall>x. granted_within x (x + 3540000) log \<le> unat A)"

lemma log_inv_fresh: "allowance_ms (for_frequency f) = Some A \<Longrightarrow> log_inv (for_frequency f) A []"
  using limiter_ok_for_frequency [of f]
  by (simp add: log_inv_def cover_def granted_since_def granted_within_def)

lemma log_inv_bound: "log_inv d A log \<Longrightarrow> granted_within x (x + 3540000) log \<le> unat A"
  by (simp add: log_inv_def)

lemma log_inv_claim:
  assumes inv: "log_inv d A log" and mono: "head_start_ms d \<le> now" and r: "try_claim d now a = (r, d')"
  shows "log_inv d' A (if is_ok r then log @ [(unat now, unat a)] else log) \<and> head_start_ms d' \<le> now"
proof -
  let ?log = "if is_ok r then log @ [(unat now, unat a)] else log"
  have ok: "limiter_ok d" and al: "allowance_ms d = Some A"
    and cov: "cover (unat (head_start_ms d)) (window d) log"
    using inv by (simp_all add: log_inv_def)
  have ok': "limiter_ok d'" using limiter_ok_try_claim [OF ok, of now a] r by simp
  have al': "allowance_ms d' = Some A" using try_claim_frame(3) [OF ok] r al by (metis snd_conv)
  have cov': "cover (unat (head_start_ms d')) (window d') ?log"
    by (rule cover_try_claim(1) [OF ok al mono cov r])
  have start: "head_start_ms d' \<le> now" using try_claim_start [OF ok mono, of a] r by simp
  have bound: "granted_within y (y + 3540000) ?log \<le> unat A" for y
  proof (cases "is_ok r \<and> unat now \<le> y + 3540000")
    case True
    then have "granted_since y ?log \<le> sum_list (window d')"
      using start by (intro cover_stretch [OF cov']) (simp_all add: word_le_nat_alt)
    also have "\<dots> \<le> unat A" using limiter_ok_allowance [OF ok' al'] by simp
    finally show ?thesis using granted_within_since order_trans by blast
  next
    case False
    then show ?thesis using log_inv_bound [OF inv] by auto
  qed
  show ?thesis using ok' al' cov' bound start by (simp add: log_inv_def)
qed

lemma run_claims_stretch:
  assumes "log_inv d A log" "sorted (map fst cs)" "\<forall>c \<in> set cs. head_start_ms d \<le> fst c"
  shows "granted_within x (x + 3540000) (fst (run_claims d log cs)) \<le> unat A"
  using assms
proof (induction cs arbitrary: d log)
  case (Cons c cs)
  obtain now a where c: "c = (now, a)" by force
  obtain r d' where r: "try_claim d now a = (r, d')" by force
  let ?log = "if is_ok r then log @ [(unat now, unat a)] else log"
  have "head_start_ms d \<le> now" using Cons.prems(3) c by simp
  note step = log_inv_claim [OF Cons.prems(1) this r]
  have "run_claims d log (c # cs) = run_claims d' ?log cs"
    by (cases r) (simp_all add: c r)
  moreover have "granted_within x (x + 3540000) (fst (run_claims d' ?log cs)) \<le> unat A"
    using step Cons.prems(2) c by (intro Cons.IH) (auto intro: order_trans)
  ultimately show ?case by simp
qed (simp add: log_inv_bound)

text \<open>A claim that would be granted now would be granted at any later time.\<close>

lemma sum_list_drop_antimono: "k \<le> l \<Longrightarrow> sum_list (drop l xs) \<le> sum_list (drop k (xs :: nat list))"
  using sum_list_drop_le [of "l - k" "drop k xs"] by simp

lemma granted_later:
  assumes "limiter_ok d" "allowance_ms d = Some A" "a \<le> A" "n \<le> n'" "is_ok (fst (try_claim d n a))"
  shows "is_ok (fst (try_claim d n' a))"
proof -
  have "minutes_since d n \<le> minutes_since d n'"
    using assms(4) by (auto simp: minutes_since_def word_le_nat_alt intro!: div_le_mono)
  then have "sum_list (drop (min 60 (minutes_since d n')) (window d))
      \<le> sum_list (drop (min 60 (minutes_since d n)) (window d))"
    by (intro sum_list_drop_antimono) simp
  then show ?thesis using assms(5) by (simp add: granted_iff [OF assms(1-3)])
qed

subsection \<open>The interface the transmitting components rely on\<close>

text \<open>
  The dispatcher and the UDP forwarder each hold limiters and gate every transmission by a claim.
  They rely on three laws only: a claim keeps the budget's invariant and its allowance, an
  unlimited band always grants, and a packet longer than the whole allowance is never granted and
  costs nothing.
\<close>

locale airtime_budget =
  fixes claim :: "'b \<Rightarrow> u64 \<Rightarrow> u32 \<Rightarrow> ('e + unit) \<times> 'b"
    and inv :: "'b \<Rightarrow> bool"
    and allowance :: "'b \<Rightarrow> u32 option"
  assumes claim_inv: "inv b \<Longrightarrow> inv (snd (claim b t a))"
    and claim_allowance: "inv b \<Longrightarrow> allowance (snd (claim b t a)) = allowance b"
    and claim_unlimited: "allowance b = None \<Longrightarrow> is_ok (fst (claim b t a)) \<and> snd (claim b t a) = b"
    and claim_oversize: "allowance b = Some A \<Longrightarrow> A < a \<Longrightarrow> \<not> is_ok (fst (claim b t a)) \<and> snd (claim b t a) = b"
begin

definition after :: "'b \<Rightarrow> (u64 \<times> u32) list \<Rightarrow> 'b" where
  "after b cs = fold (\<lambda>(t, a) b. snd (claim b t a)) cs b"

lemma after_inv: "inv b \<Longrightarrow> inv (after b cs) \<and> allowance (after b cs) = allowance b"
  unfolding after_def by (induction cs arbitrary: b) (auto simp: claim_inv claim_allowance)

lemma oversize_never:
  "\<lbrakk>inv b; allowance b = Some A; A < a\<rbrakk> \<Longrightarrow> \<not> is_ok (fst (claim (after b cs) t a))"
  using after_inv [of b cs] claim_oversize [of "after b cs" A a t] by simp

lemma unlimited_forever: "allowance b = None \<Longrightarrow> after b cs = b"
  unfolding after_def by (induction cs) (auto simp: claim_unlimited)

end

interpretation duty: airtime_budget try_claim limiter_ok allowance_ms
proof unfold_locales
  fix d t a show "limiter_ok d \<Longrightarrow> limiter_ok (snd (try_claim d t a))" by (rule limiter_ok_try_claim)
next
  fix d t a show "limiter_ok d \<Longrightarrow> allowance_ms (snd (try_claim d t a)) = allowance_ms d"
    by (rule try_claim_frame)
qed (simp_all add: try_claim_def)

subsection \<open>The properties\<close>

text \<open>
  C1. The ring of word buckets refines the sliding list: on every limiter the code can reach, a
  claim is granted exactly when the abstract window, slid by the whole minutes that passed, has
  room for it; the ring afterwards represents the abstract result, and the invariant (the window
  never sums to more than the allowance) is kept.
\<close>

theorem try_claim_refines:
  assumes "limiter_ok d" and "allowance_ms d = Some A"
  shows "(is_ok (fst (try_claim d now_ms a)), window (snd (try_claim d now_ms a)))
       = spec_claim (unat A) (window d) (minutes_since d now_ms) (unat a)
    \<and> limiter_ok (snd (try_claim d now_ms a))"
  using try_claim_spec [OF assms] duty.claim_inv [OF assms(1)] by simp

theorem try_claim_refines_witness:
  "(is_ok (fst (try_claim (for_frequency 869525000) 61000 500)),
    window (snd (try_claim (for_frequency 869525000) 61000 500)))
   = spec_claim 360000 (window (for_frequency 869525000)) (minutes_since (for_frequency 869525000) 61000) 500"
proof -
  have "allowance_ms (for_frequency 869525000) = Some 360000"
    by (simp add: for_frequency_def eu_duty_cycle_permille_def in_band_def)
  from try_claim_refines [OF limiter_ok_for_frequency this, of 61000 500] show ?thesis by simp
qed

text \<open>
  C2. The retry hint is exact. A refused claim without a hint is one whose airtime exceeds the
  whole allowance, and it leaves the limiter untouched; a refused claim with a hint is granted
  when repeated after exactly the hinted wait, is refused at every earlier time, and the wait is
  at most one hour.
\<close>

theorem try_claim_retry_exact:
  assumes "limiter_ok d" and "allowance_ms d = Some A" and "head_start_ms d \<le> now_ms"
    and "now_ms < 2 ^ 63" and "try_claim d now_ms a = (Inl (DutyCycleExceeded r), d')"
  shows "if A < a then r = None \<and> d' = d
    else \<exists>w. r = Some w \<and> 0 < w \<and> w \<le> 3600000 \<and> is_ok (fst (try_claim d' (now_ms + w) a))
      \<and> (\<forall>t < w. \<not> is_ok (fst (try_claim d' (now_ms + t) a)))"
  using assms by (rule try_claim_retry)

definition busy_limiter :: duty_limiter where
  "busy_limiter = snd (try_claim (for_frequency 869525000) 0 350000)"

theorem try_claim_retry_exact_witness:
  "\<exists>w. retry_after_ms (projl (fst (try_claim busy_limiter 1000 20000))) = Some w
    \<and> is_ok (fst (try_claim (snd (try_claim busy_limiter 1000 20000)) (1000 + w) 20000))"
proof -
  have ok: "limiter_ok busy_limiter"
    unfolding busy_limiter_def by (intro limiter_ok_try_claim limiter_ok_for_frequency)
  have r: "try_claim busy_limiter 1000 20000
      = (Inl (DutyCycleExceeded (Some 3599000)), busy_limiter)" "allowance_ms busy_limiter = Some 360000"
      "head_start_ms busy_limiter = 0"
    by code_simp+
  show ?thesis using try_claim_retry_exact [OF ok r(2) _ _ r(1)] r by simp
qed

text \<open>
  C3. Over every run of claims whose clock does not go backwards, from a fresh limiter, the
  airtime granted inside any 59 minutes is at most the allowance of the band; inside any full hour
  it is at most twice the allowance.
\<close>

theorem granted_airtime_bounded:
  assumes "sorted (map fst cs)" and "allowance_ms (for_frequency f) = Some A"
  shows "granted_within x (x + 3540000) (fst (run_claims (for_frequency f) [] cs)) \<le> unat A
    \<and> granted_within x (x + 3599999) (fst (run_claims (for_frequency f) [] cs)) \<le> 2 * unat A"
proof -
  let ?log = "fst (run_claims (for_frequency f) [] cs)"
  have bound: "granted_within y (y + 3540000) ?log \<le> unat A" for y
    by (rule run_claims_stretch [OF log_inv_fresh [OF assms(2)] assms(1)]) (simp add: for_frequency_def)
  have "granted_within x (x + 3599999) ?log =
      granted_within x (x + 3540000) ?log + granted_within (Suc (x + 3540000)) (x + 3599999) ?log"
    by (rule granted_within_split) simp_all
  also have "granted_within (Suc (x + 3540000)) (x + 3599999) ?log
      \<le> granted_within (Suc (x + 3540000)) (Suc (x + 3540000) + 3540000) ?log"
    by (rule granted_within_mono) simp
  finally show ?thesis using bound [of x] bound [of "Suc (x + 3540000)"] by simp
qed

theorem granted_airtime_bounded_witness:
  "granted_within 0 3599999 (fst (run_claims (for_frequency 869525000) [] [(0, 360000), (1000, 1)])) \<le> 720000"
  using granted_airtime_bounded [of "[(0, 360000), (1000, 1)]" 869525000 360000 0]
  by (simp add: for_frequency_def eu_duty_cycle_permille_def in_band_def)

text \<open>
  The factor two of the preceding bound is reached: two claims of the full allowance of the default 10\% band,
  one at the end of the first minute and one an hour after boot, are both granted although they
  start 59 minutes and one millisecond apart. The bucket of the current minute is dropped when
  its \<^emph>\<open>start\<close> leaves the hour, so the window is one minute shorter than the hour the limit is
  defined on.
\<close>

theorem hour_can_carry_twice_the_allowance:
  "granted_within 59999 (59999 + 3599999)
     (fst (run_claims (for_frequency 869525000) [] [(59999, 360000), (3600000, 360000)])) = 2 * 360000"
proof -
  let ?d = "for_frequency 869525000"
  have al: "allowance_ms ?d = Some 360000"
    by (simp add: for_frequency_def eu_duty_cycle_permille_def in_band_def)
  have m0: "minutes_since ?d 59999 = 0" "head_start_ms ?d = 0"
    by (simp_all add: minutes_since_def for_frequency_def)
  define d1 where "d1 = snd (try_claim ?d 59999 360000)"
  have ok1: "limiter_ok d1" unfolding d1_def by (intro limiter_ok_try_claim limiter_ok_for_frequency)
  have al1: "allowance_ms d1 = Some 360000"
    using al limiter_ok_for_frequency by (simp add: d1_def try_claim_frame)
  have "sum_list (window ?d) = 0"
    by (simp add: sum_list_eq_0_iff window_def for_frequency_def BUCKET_COUNT_def)
  then have g0: "is_ok (fst (try_claim ?d 59999 360000))"
    using granted_iff [OF limiter_ok_for_frequency al] by (simp add: m0)
  have "head_start_ms d1 = 0"
    using al limiter_ok_for_frequency try_claim_frame(4) [OF limiter_ok_for_frequency, of 869525000 59999 360000]
    by (simp add: d1_def advance_cases m0)
  then have "minutes_since d1 3600000 = 60" by (simp add: minutes_since_def)
  then have g1: "is_ok (fst (try_claim d1 3600000 360000))"
    using granted_iff [OF ok1 al1] by simp
  show ?thesis using g0 g1
    by (auto simp: result_iff d1_def granted_within_def split: prod.split sum.split)
qed

text \<open>
  The two tables of the file cannot drift apart: the limit of a frequency is a function of its
  band key, and key 0 is exactly the unlimited case.
\<close>

theorem band_tables_agree:
  "eu_duty_cycle_permille f =
     (if eu_band_key f = 0 then None
      else Some ([100, 10, 1, 100, 10, 1] ! (unat (eu_band_key f) - 1)))"
  by (simp add: eu_band_key_def eu_duty_cycle_permille_def)

end
