(* ===== verification/Lora_Traits.thy ===== *)
theory Lora_Traits imports Prelude begin

text \<open>
  The radio interface (\<open>src/lora/traits.rs\<close>, with the constants of \<open>src/config.rs\<close>): the
  error type, the modulation configuration, received packets, the trait \<open>LoraRadio\<close> as a record of
  its operations on an explicit radio state, the stand-in radio of gateway mode and the mock radio.
  An operation returns a result and the radio's next state. The locales state what the users of
  a radio rely on.
\<close>

subsection \<open>Constants\<close>

definition VOLTAGE_CODE :: u8 where "VOLTAGE_CODE = 0x02"
definition FREQUENCY_HZ :: u32 where "FREQUENCY_HZ = 869525000"
definition SPREADING_FACTOR :: u8 where "SPREADING_FACTOR = 11"
definition BANDWIDTH_KHZ :: u32 where "BANDWIDTH_KHZ = 250"
definition CODING_RATE :: u8 where "CODING_RATE = 8"
definition TX_POWER_DBM :: i8 where "TX_POWER_DBM = 22"
definition VERSION_MAJOR :: u8 where "VERSION_MAJOR = 0"
definition VERSION_MINOR :: u8 where "VERSION_MINOR = 1"
definition VERSION_PATCH :: u8 where "VERSION_PATCH = 0"

subsection \<open>Data\<close>

datatype lora_error =
    Timeout | CrcError | TransmitFailed | ReceiveFailed | InvalidConfig | BusyTimeout
  | SpiError | NotInitialised

datatype sync_word = Private | Public

fun register_bytes :: "sync_word \<Rightarrow> u8 \<times> u8" where
  "register_bytes Private = (0x14, 0x24)"
| "register_bytes Public = (0x34, 0x44)"

record lora_config =
  frequency_hz :: u32
  spreading_factor :: u8
  bandwidth_khz :: u32
  coding_rate :: u8
  tx_power_dbm :: i8
  config_sync_word :: sync_word
  iq_inverted :: bool
  crc_on :: bool
  preamble_len :: u16

definition default_lora_config :: lora_config where
  "default_lora_config =
     \<lparr>frequency_hz = FREQUENCY_HZ, spreading_factor = SPREADING_FACTOR,
      bandwidth_khz = BANDWIDTH_KHZ, coding_rate = CODING_RATE, tx_power_dbm = TX_POWER_DBM,
      config_sync_word = Private, iq_inverted = False, crc_on = True, preamble_len = 8\<rparr>"

record rx_packet =
  rx_data :: bytes
  rx_rssi :: i16
  rx_snr :: i8

subsection \<open>The radio trait\<close>

type_synonym ('r, 'a) radio_op = "'r \<Rightarrow> (lora_error + 'a) \<times> 'r"

record 'r lora_radio =
  radio_init :: "('r, unit) radio_op"
  transmit :: "bytes \<Rightarrow> ('r, unit) radio_op"
  arm_receive :: "('r, unit) radio_op"
  wait_rx_event :: "u32 \<Rightarrow> ('r, u64) radio_op"
  read_packet :: "('r, rx_packet) radio_op"
  configure :: "lora_config \<Rightarrow> ('r, unit) radio_op"
  set_standby :: "('r, unit) radio_op"

subsection \<open>The stand-in radio\<close>

text \<open>Its only effect is to wait out the timeout of \<open>wait_rx_event\<close>; the state is the clock.\<close>

definition NullRadio :: "(nat \<Rightarrow> 'r \<Rightarrow> 'r) \<Rightarrow> 'r lora_radio" where
  "NullRadio delay_ms =
     \<lparr>radio_init = (\<lambda>r. (Inr (), r)),
      transmit = (\<lambda>_ r. (Inl NotInitialised, r)),
      arm_receive = (\<lambda>r. (Inr (), r)),
      wait_rx_event = (\<lambda>timeout_ms r. (Inl Timeout, delay_ms (unat timeout_ms) r)),
      read_packet = (\<lambda>r. (Inl ReceiveFailed, r)),
      configure = (\<lambda>_ r. (Inl NotInitialised, r)),
      set_standby = (\<lambda>r. (Inr (), r))\<rparr>"

subsection \<open>The mock radio\<close>

text \<open>
  \<open>max_payload\<close> is the wire limit \<open>MAX_LORA_PAYLOAD\<close> of the protocol crate, \<open>now\<close> the clock the
  mock reads.
\<close>

record mock_radio =
  rx_queue :: "rx_packet list"
  tx_history :: "bytes list"
  mock_config :: "lora_config option"
  next_tx_error :: "lora_error option"
  next_rx_error :: "lora_error option"
  next_configure_error :: "lora_error option"
  mock_initialised :: bool

definition new_mock :: mock_radio where
  "new_mock = \<lparr>rx_queue = [], tx_history = [], mock_config = None, next_tx_error = None,
     next_rx_error = None, next_configure_error = None, mock_initialised = False\<rparr>"

definition queue_rx_packet :: "rx_packet \<Rightarrow> mock_radio \<Rightarrow> mock_radio" where
  "queue_rx_packet packet m = m\<lparr>rx_queue := push_cap 8 (rx_queue m) [packet]\<rparr>"

definition set_next_tx_error :: "lora_error \<Rightarrow> mock_radio \<Rightarrow> mock_radio" where
  "set_next_tx_error e m = m\<lparr>next_tx_error := Some e\<rparr>"

definition set_next_rx_error :: "lora_error \<Rightarrow> mock_radio \<Rightarrow> mock_radio" where
  "set_next_rx_error e m = m\<lparr>next_rx_error := Some e\<rparr>"

definition set_next_configure_error :: "lora_error \<Rightarrow> mock_radio \<Rightarrow> mock_radio" where
  "set_next_configure_error e m = m\<lparr>next_configure_error := Some e\<rparr>"

definition mock_transmit :: "nat \<Rightarrow> bytes \<Rightarrow> (mock_radio, unit) radio_op" where
  "mock_transmit max_payload bs m =
     (case next_tx_error m of
        Some e \<Rightarrow> (Inl e, m\<lparr>next_tx_error := None\<rparr>)
      | None \<Rightarrow>
          (case extend_cap max_payload [] bs of
             None \<Rightarrow> (Inl TransmitFailed, m)
           | Some packet \<Rightarrow> (Inr (), m\<lparr>tx_history := push_cap 8 (tx_history m) [packet]\<rparr>)))"

definition mock_wait_rx_event :: "u64 \<Rightarrow> u32 \<Rightarrow> (mock_radio, u64) radio_op" where
  "mock_wait_rx_event now timeout_ms m =
     (if next_rx_error m \<noteq> None \<or> rx_queue m \<noteq> [] then (Inr now, m) else (Inl Timeout, m))"

definition mock_read_packet :: "(mock_radio, rx_packet) radio_op" where
  "mock_read_packet m =
     (case next_rx_error m of
        Some e \<Rightarrow> (Inl e, m\<lparr>next_rx_error := None\<rparr>)
      | None \<Rightarrow>
          (case rx_queue m of
             [] \<Rightarrow> (Inl ReceiveFailed, m)
           | p # ps \<Rightarrow> (Inr p, m\<lparr>rx_queue := ps\<rparr>)))"

definition mock_configure :: "lora_config \<Rightarrow> (mock_radio, unit) radio_op" where
  "mock_configure c m =
     (case next_configure_error m of
        Some e \<Rightarrow> (Inl e, m\<lparr>next_configure_error := None\<rparr>)
      | None \<Rightarrow> (Inr (), m\<lparr>mock_config := Some c\<rparr>))"

definition MockLoraRadio :: "nat \<Rightarrow> u64 \<Rightarrow> mock_radio lora_radio" where
  "MockLoraRadio max_payload now =
     \<lparr>radio_init = (\<lambda>m. (Inr (), m\<lparr>mock_initialised := True\<rparr>)),
      transmit = mock_transmit max_payload,
      arm_receive = (\<lambda>m. (Inr (), m)),
      wait_rx_event = mock_wait_rx_event now,
      read_packet = mock_read_packet,
      configure = mock_configure,
      set_standby = (\<lambda>m. (Inr (), m))\<rparr>"

subsection \<open>What users of a radio rely on\<close>

text \<open>
  \<open>aired r\<close> lists the packets the radio has put on the air. A transmission adds at most the one
  packet it was given; no other operation adds any. \<open>ok\<close> is the radio's own invariant.
\<close>

locale radio_contract =
  fixes R :: "'r lora_radio"
    and aired :: "'r \<Rightarrow> bytes list"
    and ok :: "'r \<Rightarrow> bool"
  assumes transmit_airs:
      "ok r \<Longrightarrow> aired (snd (transmit R bs r)) = aired r \<or> aired (snd (transmit R bs r)) = aired r @ [bs]"
    and transmit_ok: "ok r \<Longrightarrow> ok (snd (transmit R bs r))"
    and configure_silent: "ok r \<Longrightarrow> aired (snd (configure R c r)) = aired r"
    and configure_ok: "ok r \<Longrightarrow> ok (snd (configure R c r))"
    and arm_silent: "ok r \<Longrightarrow> aired (snd (arm_receive R r)) = aired r"
    and arm_ok: "ok r \<Longrightarrow> ok (snd (arm_receive R r))"
    and read_silent: "ok r \<Longrightarrow> aired (snd (read_packet R r)) = aired r"
    and read_ok: "ok r \<Longrightarrow> ok (snd (read_packet R r))"
    and wait_silent: "ok r \<Longrightarrow> aired (snd (wait_rx_event R t r)) = aired r"
    and wait_ok: "ok r \<Longrightarrow> ok (snd (wait_rx_event R t r))"

text \<open>
  An atomic radio also promises that \<open>configure\<close> applies its argument or leaves the modulation
  alone, and that nothing else touches it. \<open>modulation\<close> reads the active configuration.
\<close>

locale atomic_radio = radio_contract R aired ok
  for R :: "'r lora_radio" and aired :: "'r \<Rightarrow> bytes list" and ok :: "'r \<Rightarrow> bool" +
  fixes modulation :: "'r \<Rightarrow> lora_config option"
  assumes configure_applies: "ok r \<Longrightarrow> configure R c r = (Inr u, r') \<Longrightarrow> modulation r' = Some c"
    and configure_fails: "ok r \<Longrightarrow> configure R c r = (Inl e, r') \<Longrightarrow> modulation r' = modulation r"
    and transmit_modulation: "ok r \<Longrightarrow> modulation (snd (transmit R bs r)) = modulation r"

lemma push_cap_single: "push_cap n xs [x] = xs \<or> push_cap n xs [x] = xs @ [x]"
  by (simp add: push_cap_def extend_cap_def)

interpretation null: radio_contract "NullRadio delay_ms" "\<lambda>_. []" "\<lambda>_. True"
  by unfold_locales (simp_all add: NullRadio_def)

interpretation mock: atomic_radio "MockLoraRadio max_payload now" tx_history "\<lambda>_. True" mock_config
  by unfold_locales
    (auto simp: MockLoraRadio_def mock_transmit_def mock_wait_rx_event_def mock_read_packet_def
      mock_configure_def extend_cap_def push_cap_def split: option.splits list.splits)

end
