(* ===== verification/Airtime.thy ===== *)
theory Airtime imports Prelude begin

text \<open>
  LoRa calibration tables and time-on-air (\<open>src/lora/calibration.rs\<close>,
  \<open>src/lora/airtime.rs\<close>): the image-calibration bands, the low-data-rate rule, and the packet
  airtime that the duty-cycle budget is charged with. The code computes in \<open>u32\<close>/\<open>i64\<close>/\<open>u64\<close>
  and truncates the symbol time to microseconds. The lemmas show that no intermediate wraps for
  any packet the radio can carry (\<open>toa_exact\<close>) and that airtime grows with the payload;
  \<open>Data_Sheet\<close> compares the result with the formula of the data sheet.
\<close>

subsection \<open>Calibration tables\<close>

definition CALIBRATE_ALL :: u8 where "CALIBRATE_ALL = 0x7F"

definition image_cal_params :: "u32 \<Rightarrow> u8 \<times> u8" where
  "image_cal_params freq_hz =
     (if 430000000 \<le> freq_hz \<and> freq_hz \<le> 440000000 then (0x6B, 0x6F)
      else if 470000000 \<le> freq_hz \<and> freq_hz \<le> 510000000 then (0x75, 0x81)
      else if 779000000 \<le> freq_hz \<and> freq_hz \<le> 787000000 then (0xC1, 0xC5)
      else if 863000000 \<le> freq_hz \<and> freq_hz \<le> 870000000 then (0xD7, 0xDB)
      else if 902000000 \<le> freq_hz \<and> freq_hz \<le> 928000000 then (0xE1, 0xE9)
      else (0xD7, 0xDB))"

definition ldro_enabled :: "u8 \<Rightarrow> u32 \<Rightarrow> bool" where
  "ldro_enabled spreading_factor bandwidth_khz =
     (if bandwidth_khz = 0 \<or> 32 \<le> spreading_factor then True
      else let symbol_time_us =
             (push_bit (unat spreading_factor) (1 :: u64)) * 1000 div ucast bandwidth_khz
           in 16384 \<le> symbol_time_us)"

subsection \<open>Time on air\<close>

definition PREAMBLE_SYMBOLS :: u32 where "PREAMBLE_SYMBOLS = 8"

definition bandwidth_hz :: "u32 \<Rightarrow> u32" where
  "bandwidth_hz bandwidth_khz =
     (if bandwidth_khz = 7 \<or> bandwidth_khz = 8 then 7800
      else if bandwidth_khz = 10 then 10400
      else if bandwidth_khz = 15 \<or> bandwidth_khz = 16 then 15600
      else if bandwidth_khz = 20 \<or> bandwidth_khz = 21 then 20800
      else if bandwidth_khz = 31 then 31250
      else if bandwidth_khz = 41 \<or> bandwidth_khz = 42 then 41700
      else if bandwidth_khz = 62 \<or> bandwidth_khz = 63 then 62500
      else if bandwidth_khz = 125 then 125000
      else if bandwidth_khz = 250 then 250000
      else if bandwidth_khz = 500 then 500000
      else 125000)"

text \<open>The clamped spreading factor and the coding-rate index the formula uses.\<close>

definition clamp_sf :: "u8 \<Rightarrow> u8" where
  "clamp_sf sf = min (max sf 7) 12"

definition cr_index :: "u8 \<Rightarrow> u32" where
  "cr_index coding_rate = (if 5 \<le> coding_rate \<and> coding_rate \<le> 8 then ucast (coding_rate - 4) else 1)"

definition time_on_air_ms_ext :: "u8 \<Rightarrow> u32 \<Rightarrow> u8 \<Rightarrow> nat \<Rightarrow> u16 \<Rightarrow> bool \<Rightarrow> u32" where
  "time_on_air_ms_ext spreading_factor bandwidth_khz coding_rate payload_len preamble_symbols crc_on =
    (let sf = (ucast (clamp_sf spreading_factor) :: u32);
         cr = cr_index coding_rate;
         de = (if ldro_enabled (ucast sf) bandwidth_khz then 1 else 0 :: u32);
         crc_bits = (if crc_on then 16 else 0 :: int);
         numerator = 8 * int payload_len - 4 * uint sf + 28 + crc_bits;
         denominator = uint (4 * (sf - 2 * de));
         blocks = (if numerator > 0 then (numerator + denominator - 1) div denominator else 0);
         payload_symbols = 8 + word_of_int blocks * (cr + 4);
         quarter_symbols = (ucast (ucast preamble_symbols + payload_symbols) :: u64) * 4 + 17;
         symbol_time_us = (push_bit (unat sf) (1 :: u64) * 1000000) div ucast (bandwidth_hz bandwidth_khz);
         total_us = quarter_symbols * symbol_time_us div 4
     in ucast (div_ceil total_us 1000))"

definition time_on_air_ms :: "u8 \<Rightarrow> u32 \<Rightarrow> u8 \<Rightarrow> nat \<Rightarrow> u32" where
  "time_on_air_ms spreading_factor bandwidth_khz coding_rate payload_len =
     time_on_air_ms_ext spreading_factor bandwidth_khz coding_rate payload_len
       (ucast PREAMBLE_SYMBOLS) True"

subsection \<open>The computation over the natural numbers\<close>

definition ceil_div :: "nat \<Rightarrow> nat \<Rightarrow> nat" where
  "ceil_div a b = (a + (b - 1)) div b"

text \<open>
  \<open>toa_blocks\<close> is the number of coded blocks (the header and the CRC included) and
  \<open>toa_spec\<close> the steps of the code without words: preamble plus \<open>4.25\<close> sync symbols plus payload
  symbols, counted in quarter symbols, times the symbol time truncated to microseconds, rounded
  up to milliseconds. It serves to evaluate the airtime; what the airtime should be is
  \<open>data_sheet_ms\<close> of the theory \<open>Data_Sheet\<close>.
\<close>

definition toa_blocks :: "nat \<Rightarrow> bool \<Rightarrow> nat \<Rightarrow> bool \<Rightarrow> nat" where
  "toa_blocks sf ldro len crc =
     ceil_div (8 * len + 28 + (if crc then 16 else 0) - 4 * sf) (4 * (sf - (if ldro then 2 else 0)))"

definition toa_spec :: "nat \<Rightarrow> bool \<Rightarrow> nat \<Rightarrow> nat \<Rightarrow> nat \<Rightarrow> nat \<Rightarrow> bool \<Rightarrow> nat" where
  "toa_spec sf ldro bw_hz cr len preamble crc =
     ceil_div ((4 * (preamble + 8 + toa_blocks sf ldro len crc * (cr + 4)) + 17)
                 * (2 ^ sf * 1000000 div bw_hz) div 4) 1000"

lemma ceil_div_mono: "a \<le> a' \<Longrightarrow> ceil_div a b \<le> ceil_div a' b"
  by (simp add: ceil_div_def div_le_mono)

lemma toa_blocks_mono:
  "len \<le> len' \<Longrightarrow> (crc \<Longrightarrow> crc') \<Longrightarrow> toa_blocks sf ldro len crc \<le> toa_blocks sf ldro len' crc'"
  unfolding toa_blocks_def by (rule ceil_div_mono) auto

lemma toa_spec_mono:
  assumes "len \<le> len'" "pre \<le> pre'" "crc \<Longrightarrow> crc'"
  shows "toa_spec sf ldro bw cr len pre crc \<le> toa_spec sf ldro bw cr len' pre' crc'"
proof -
  have "toa_blocks sf ldro len crc * (cr + 4) \<le> toa_blocks sf ldro len' crc' * (cr + 4)"
    using assms by (intro mult_le_mono1 toa_blocks_mono) auto
  then have "4 * (pre + 8 + toa_blocks sf ldro len crc * (cr + 4)) + 17
      \<le> 4 * (pre' + 8 + toa_blocks sf ldro len' crc' * (cr + 4)) + 17"
    using assms(2) by (intro add_mono mult_le_mono2) auto
  then show ?thesis
    unfolding toa_spec_def by (intro ceil_div_mono div_le_mono mult_le_mono1)
qed

subsection \<open>Ranges of the inputs\<close>

lemma clamp_sf_range: "7 \<le> unat (clamp_sf sf) \<and> unat (clamp_sf sf) \<le> 12"
  by (auto simp: clamp_sf_def min_def max_def word_le_nat_alt)

lemma clamp_sf_id: "7 \<le> sf \<Longrightarrow> sf \<le> 12 \<Longrightarrow> clamp_sf sf = sf"
  by (simp add: clamp_sf_def)

lemma cr_index_range: "1 \<le> unat (cr_index cr) \<and> unat (cr_index cr) \<le> 4"
proof (cases "5 \<le> cr \<and> cr \<le> 8")
  case True
  then have "unat (cr - 4) = unat cr - 4" by (simp add: unat_sub word_le_nat_alt)
  then show ?thesis using True
    by (auto simp: cr_index_def word_le_nat_alt)
qed (auto simp: cr_index_def)

lemma bandwidth_hz_range: "7800 \<le> unat (bandwidth_hz bw) \<and> unat (bandwidth_hz bw) \<le> 500000"
  by (simp add: bandwidth_hz_def)

subsection \<open>The word computation is the formula\<close>

lemma ceil_div_le: "0 < b \<Longrightarrow> ceil_div a b \<le> a"
proof (cases "a = 0")
  case False
  assume b: "0 < b"
  have "a + (b - 1) \<le> a * b" using False b by (cases a; cases b) (auto simp: algebra_simps)
  then have "(a + (b - 1)) div b \<le> a * b div b" by (rule div_le_mono)
  then show ?thesis using b by (simp add: ceil_div_def)
qed (simp add: ceil_div_def)

lemma toa_blocks_bound:
  "7 \<le> sf \<Longrightarrow> toa_blocks sf ldro len crc \<le> 8 * len + 44"
  unfolding toa_blocks_def by (rule order_trans [OF ceil_div_le]) auto

lemma unat_two_power: "n \<le> 12 \<Longrightarrow> unat (2 ^ n :: u64) = 2 ^ n"
proof -
  assume n: "n \<le> 12"
  have "(2 :: nat) ^ n \<le> 2 ^ 12" using n by (intro power_increasing) auto
  then have "take_bit 64 ((2 :: nat) ^ n) = 2 ^ n" by (intro take_bit_nat_eq_self) auto
  then show ?thesis
    using unat_of_nat [where 'a = 64, of "2 ^ n"] by (simp add: take_bit_eq_mod)
qed

text \<open>The block count, computed in \<open>i64\<close> with a sign test, is the rounded-up quotient.\<close>

lemma toa_blocks_int:
  fixes s len c d :: nat
  assumes "0 < d"
  shows "(if 8 * int len - 4 * int s + 28 + int c > 0
            then (8 * int len - 4 * int s + 28 + int c + int d - 1) div int d else 0)
         = int (ceil_div (8 * len + 28 + c - 4 * s) d)"
proof (cases "4 * s < 8 * len + 28 + c")
  case True
  then have eq: "8 * int len - 4 * int s + 28 + int c + int d - 1
      = int (8 * len + 28 + c - 4 * s + (d - 1))"
    and pos: "0 < 8 * int len - 4 * int s + 28 + int c"
    using assms by (simp_all add: of_nat_diff)
  show ?thesis by (simp only: pos if_True eq ceil_div_def zdiv_int)
next
  case False
  then have neg: "\<not> 0 < 8 * int len - 4 * int s + 28 + int c" and z: "8 * len + 28 + c - 4 * s = 0"
    by linarith+
  have "(0 + (d - 1)) div d = 0" using assms by simp
  then show ?thesis by (simp only: neg if_False ceil_div_def z)
qed

lemma symbol_time_bound:
  assumes "s \<le> 12" "7800 \<le> b" shows "2 ^ s * 1000000 div b \<le> (525128 :: nat)"
proof -
  have "(2 :: nat) ^ s * 1000000 \<le> 2 ^ 12 * 1000000"
    using assms(1) by (intro mult_le_mono1 power_increasing) auto
  then have "2 ^ s * 1000000 div b \<le> (4096000000 :: nat) div b" by (intro div_le_mono) simp
  also have "\<dots> \<le> 4096000000 div 7800" using assms(2) by (intro div_le_mono2) auto
  finally show ?thesis by simp
qed

lemma toa_exact:
  assumes len: "payload_len \<le> 65535"
  shows "unat (time_on_air_ms_ext sf bw cr payload_len pre crc)
       = toa_spec (unat (clamp_sf sf)) (ldro_enabled (clamp_sf sf) bw) (unat (bandwidth_hz bw))
           (unat (cr_index cr)) payload_len (unat pre) crc"
proof -
  define s where "s = unat (clamp_sf sf)"
  define l where "l = ldro_enabled (clamp_sf sf) bw"
  define B where "B = toa_blocks s l payload_len crc"
  define c where "c = unat (cr_index cr)"
  define b where "b = unat (bandwidth_hz bw)"
  define T where "T = 2 ^ s * 1000000 div b"
  define Q where "Q = 4 * (unat pre + 8 + B * (c + 4)) + 17"
  have s: "7 \<le> s" "s \<le> 12" using clamp_sf_range s_def by auto
  have c: "1 \<le> c" "c \<le> 4" using cr_index_range c_def by auto
  have b: "7800 \<le> b" "b \<le> 500000" using bandwidth_hz_range b_def by auto
  have B: "B \<le> 524324" using toa_blocks_bound [OF s(1), of l payload_len crc] len by (simp add: B_def)
  have Bc: "B * (c + 4) \<le> 524324 * 8" using B c by (intro mult_le_mono) auto
  have pre: "unat pre < 65536" using unsigned_less [of pre] by simp
  have T: "T \<le> 525128" unfolding T_def using s b by (intro symbol_time_bound) auto
  have Q: "Q \<le> 17100000" using Bc pre by (simp add: Q_def)
  have QT: "Q * T \<le> 17100000 * 525128" using Q T by (intro mult_le_mono)
  have u32: "unat (ucast (clamp_sf sf) :: u32) = s" by (simp add: s_def)
  have sub: "unat ((ucast (clamp_sf sf) :: u32) - 2 * (if l then 1 else 0)) = s - (if l then 2 else 0)"
    using s u32 by (auto simp: unat_sub word_le_nat_alt)
  have den: "unat (4 * ((ucast (clamp_sf sf) :: u32) - 2 * (if l then 1 else 0))) = 4 * (s - (if l then 2 else 0))"
    using s by (subst unat_mult_fits) (auto simp: sub )
  have ui: "uint (ucast (clamp_sf sf) :: u32) = int s" by (simp only: uint_nat u32)
  have ud: "uint (4 * ((ucast (clamp_sf sf) :: u32) - 2 * (if l then 1 else 0)))
      = int (4 * (s - (if l then 2 else 0)))" by (simp only: uint_nat den)
  have uc: "(if crc then 16 else 0 :: int) = int (if crc then 16 else 0)" by simp
  have dpos: "0 < 4 * (s - (if l then 2 else 0))" using s by simp
  note blocks = toa_blocks_int [OF dpos, of payload_len s "if crc then 16 else 0",
      folded toa_blocks_def B_def]
  have pB: "unat (word_of_nat B :: u32) = B"
    using B by (simp add: unsigned_of_nat take_bit_nat_eq_self)
  define P where "P = (8 + word_of_int (int B) * (cr_index cr + 4) :: u32)"
  have c4: "unat (cr_index cr + 4) = c + 4"
    using c by (subst unat_add_fits) (auto simp: c_def)
  have pBc: "unat (word_of_nat B * (cr_index cr + 4)) = B * (c + 4)"
    using Bc by (subst unat_mult_fits) (auto simp: pB c4)
  have P: "unat P = 8 + B * (c + 4)"
    unfolding P_def using Bc by (subst unat_add_fits) (auto simp: pBc)
  have pP: "unat (ucast pre + P) = unat pre + 8 + B * (c + 4)"
    using Bc pre by (subst unat_add_fits) (auto simp: P)
  have Q4: "unat ((ucast (ucast pre + P) :: u64) * 4) = 4 * (unat pre + 8 + B * (c + 4))"
    using Bc pre by (subst unat_mult_fits) (auto simp: pP)
  have Qw: "unat ((ucast (ucast pre + P) :: u64) * 4 + 17) = Q"
    using Bc pre by (subst unat_add_fits) (auto simp: Q4 Q_def)
  have sy: "unat (push_bit s (1 :: u64) * 1000000) = 2 ^ s * 1000000"
  proof -
    have "(2 :: nat) ^ s \<le> 2 ^ 12" using s by (intro power_increasing) auto
    then show ?thesis using s by (subst unat_mult_fits) (auto simp: push_bit_of_1 unat_two_power)
  qed
  define X where "X = (ucast (ucast pre + P) :: u64) * 4 + 17"
  define Y where "Y = (push_bit s (1 :: u64) * 1000000 div ucast (bandwidth_hz bw))"
  have X: "unat X = Q" by (simp only: X_def Qw)
  have Y: "unat Y = T" by (simp only: Y_def unat_div sy unat_ucast_32_64 T_def b_def)
  have tot: "unat (X * Y div 4) = Q * T div 4"
    using QT by (simp add: unat_div unat_mult_fits X Y)
  have small: "Q * T div 4 \<le> 17100000 * 525128 div 4" using QT by (rule div_le_mono)
  have "unat (div_ceil (X * Y div 4) 1000) = ceil_div (Q * T div 4) 1000"
    using small by (subst unat_div_ceil) (simp_all add: tot ceil_div_def)
  moreover have "ceil_div (Q * T div 4) 1000 < 2 ^ 32"
    using small by (simp add: ceil_div_def)
  ultimately have fin: "unat (ucast (div_ceil (X * Y div 4) 1000) :: u32)
      = ceil_div (Q * T div 4) 1000"
    by (simp add: unsigned_ucast_eq take_bit_nat_eq_self)
  show ?thesis
    unfolding time_on_air_ms_ext_def Let_def ucast_ucast_8_32 l_def [symmetric] ui ud uc blocks
      P_def [symmetric] u32 X_def [symmetric] Y_def [symmetric] fin
    by (simp add: toa_spec_def Q_def T_def B_def s_def l_def b_def c_def)
qed

text \<open>The data-sheet boundaries of the low-data-rate rule at the bandwidths the firmware accepts.\<close>

lemma word_sf_cases: "7 \<le> (sf :: u8) \<Longrightarrow> sf \<le> 12 \<Longrightarrow> sf \<in> {7, 8, 9, 10, 11, 12}"
proof -
  assume "7 \<le> sf" "sf \<le> 12"
  then have "unat sf \<in> {7, 8, 9, 10, 11, 12}" by (auto simp: word_le_nat_alt)
  then show ?thesis by (auto simp: word_unat_eq_iff)
qed

lemma ldro_250: "7 \<le> sf \<Longrightarrow> sf \<le> 12 \<Longrightarrow> ldro_enabled sf 250 \<longleftrightarrow> sf = 12"
  by (drule (1) word_sf_cases) (elim insertE, simp_all add: ldro_enabled_def)

text \<open>
  Airtime is monotone: a longer payload, a longer preamble or an added CRC never makes a
  packet cheaper, so charging the larger packet is always on the compliant side.
\<close>

theorem time_on_air_mono:
  assumes "len \<le> len'" and "len' \<le> 65535" and "pre \<le> pre'" and "crc \<longrightarrow> crc'"
  shows "time_on_air_ms_ext sf bw cr len pre crc \<le> time_on_air_ms_ext sf bw cr len' pre' crc'"
  using assms by (auto simp: word_le_nat_alt toa_exact intro!: toa_spec_mono)

theorem time_on_air_mono_witness:
  "time_on_air_ms_ext 9 125 5 12 8 False \<le> time_on_air_ms_ext 9 125 5 51 16 True"
  by (rule time_on_air_mono) simp_all

text \<open>
  The longest packet of the radio at the default bandwidth and coding rate stays near seven
  seconds at every spreading factor the host may select.
\<close>

lemma time_on_air_default_bound:
  assumes "7 \<le> sf" "sf \<le> 12" "len \<le> 255"
  shows "unat (time_on_air_ms sf 250 8 len) \<le> 7100"
proof -
  have "time_on_air_ms sf 250 8 len \<le> time_on_air_ms sf 250 8 255"
    unfolding time_on_air_ms_def using assms(3)
    by (simp add: word_le_nat_alt toa_exact toa_spec_mono)
  moreover have "unat (time_on_air_ms sf 250 8 255) \<le> 7100"
    using word_sf_cases [OF assms(1,2)]
    by (elim insertE) (simp_all add: time_on_air_ms_def toa_exact toa_spec_def toa_blocks_def
        ceil_div_def clamp_sf_def ldro_enabled_def bandwidth_hz_def cr_index_def PREAMBLE_SYMBOLS_def)
  ultimately show ?thesis by (simp add: word_le_nat_alt)
qed

end
