(* ===== verification/Sx1262_Driver.thy ===== *)
theory Sx1262_Driver imports Lora_Traits Airtime "HOL-Library.Sublist" begin

text \<open>
  The SX1262 driver (\<open>src/lora/driver.rs\<close>). The SPI bus, the pins and the timers are the record
  \<open>hal\<close>, a parameter of every operation: they belong to other crates, and the lemmas hold for
  every behaviour they may have, failures included. An operation of the driver is a function from
  the driver state to a result and the next state (\<open>bindE\<close>, \<open>seqE\<close> stop at the first error, as
  the question mark does). Running the driver over \<open>recording h\<close> logs every pin change, SPI frame
  and delay next to what \<open>h\<close> does, so that the lemmas can state what reached the radio.
\<close>

subsection \<open>Constants\<close>

definition SET_STANDBY :: u8 where "SET_STANDBY = 0x80"
definition SET_TX :: u8 where "SET_TX = 0x83"
definition SET_RX :: u8 where "SET_RX = 0x82"
definition SET_REGULATOR_MODE :: u8 where "SET_REGULATOR_MODE = 0x96"
definition CLEAR_DEVICE_ERRORS :: u8 where "CLEAR_DEVICE_ERRORS = 0x07"
definition READ_REGISTER :: u8 where "READ_REGISTER = 0x1D"
definition SET_RF_FREQUENCY :: u8 where "SET_RF_FREQUENCY = 0x86"
definition SET_PACKET_TYPE :: u8 where "SET_PACKET_TYPE = 0x8A"
definition SET_MODULATION_PARAMS :: u8 where "SET_MODULATION_PARAMS = 0x8B"
definition SET_PACKET_PARAMS :: u8 where "SET_PACKET_PARAMS = 0x8C"
definition SET_BUFFER_BASE_ADDRESS :: u8 where "SET_BUFFER_BASE_ADDRESS = 0x8F"
definition SET_PA_CONFIG :: u8 where "SET_PA_CONFIG = 0x95"
definition SET_DIO3_AS_TCXO_CTRL :: u8 where "SET_DIO3_AS_TCXO_CTRL = 0x97"
definition SET_DIO2_AS_RF_SWITCH_CTRL :: u8 where "SET_DIO2_AS_RF_SWITCH_CTRL = 0x9D"
definition CALIBRATE :: u8 where "CALIBRATE = 0x89"
definition CALIBRATE_IMAGE :: u8 where "CALIBRATE_IMAGE = 0x98"
definition SET_TX_PARAMS :: u8 where "SET_TX_PARAMS = 0x8E"
definition WRITE_BUFFER :: u8 where "WRITE_BUFFER = 0x0E"
definition READ_BUFFER :: u8 where "READ_BUFFER = 0x1E"
definition WRITE_REGISTER :: u8 where "WRITE_REGISTER = 0x0D"
definition GET_RX_BUFFER_STATUS :: u8 where "GET_RX_BUFFER_STATUS = 0x13"
definition GET_PACKET_STATUS :: u8 where "GET_PACKET_STATUS = 0x14"
definition GET_IRQ_STATUS :: u8 where "GET_IRQ_STATUS = 0x12"
definition CLEAR_IRQ_STATUS :: u8 where "CLEAR_IRQ_STATUS = 0x02"
definition SET_DIO_IRQ_PARAMS :: u8 where "SET_DIO_IRQ_PARAMS = 0x08"

definition OCP_CONFIGURATION :: u16 where "OCP_CONFIGURATION = 0x08E7"
definition TX_CLAMP_CONFIG :: u16 where "TX_CLAMP_CONFIG = 0x08D8"
definition LORA_SYNC_WORD_MSB :: u16 where "LORA_SYNC_WORD_MSB = 0x0740"
definition LORA_SYNC_WORD_LSB :: u16 where "LORA_SYNC_WORD_LSB = 0x0741"
definition IQ_POLARITY :: u16 where "IQ_POLARITY = 0x0736"

definition STDBY_RC :: u8 where "STDBY_RC = 0x00"
definition LORA :: u8 where "LORA = 0x01"
definition IRQ_TX_DONE :: u16 where "IRQ_TX_DONE = 0x0001"
definition IRQ_RX_DONE :: u16 where "IRQ_RX_DONE = 0x0002"
definition IRQ_TIMEOUT :: u16 where "IRQ_TIMEOUT = 0x0200"
definition IRQ_CRC_ERR :: u16 where "IRQ_CRC_ERR = 0x0040"

subsection \<open>The hardware interface\<close>

text \<open>
  What \<open>with_timeout(dio1.wait_for_high())\<close> can report, and the operations of the bus, the pins
  and the timers. \<open>spi_transfer\<close> returns the bytes it clocked in (fewer than requested leave the
  rest of the caller's zeroed buffer as it was); the results of the output pins are ignored by the
  driver, so they have none here. \<open>max_lora_payload\<close> is the wire limit of the protocol crate.
\<close>

datatype pin_wait = PinHigh | PinError | PinTimeout

record 'w hal =
  spi_write :: "bytes \<Rightarrow> 'w \<Rightarrow> bool \<times> 'w"
  spi_transfer :: "bytes \<Rightarrow> 'w \<Rightarrow> bytes option \<times> 'w"
  set_nss :: "bool \<Rightarrow> 'w \<Rightarrow> 'w"
  set_nrst :: "bool \<Rightarrow> 'w \<Rightarrow> 'w"
  busy_is_low :: "'w \<Rightarrow> bool \<times> 'w"
  dio1_wait_high :: "u32 \<Rightarrow> 'w \<Rightarrow> pin_wait \<times> 'w"
  delay_us :: "nat \<Rightarrow> 'w \<Rightarrow> 'w"
  instant_now :: "'w \<Rightarrow> u64"
  max_lora_payload :: nat

definition HW_MAX_PAYLOAD_LEN :: "'w hal \<Rightarrow> u8" where
  "HW_MAX_PAYLOAD_LEN h = (if 255 < max_lora_payload h then 255 else of_nat (max_lora_payload h))"

record 'w driver =
  world :: 'w
  initialised :: bool
  in_continuous_rx :: bool
  config :: "lora_config option"

definition new_driver :: "'w \<Rightarrow> 'w driver" where
  "new_driver w = \<lparr>world = w, initialised = False, in_continuous_rx = False, config = None\<rparr>"

subsection \<open>Operations in sequence\<close>

type_synonym ('w, 'a) io = "'w driver \<Rightarrow> (lora_error + 'a) \<times> 'w driver"

definition returnE :: "'a \<Rightarrow> ('w, 'a) io" where
  "returnE x d = (Inr x, d)"

definition throwE :: "lora_error \<Rightarrow> ('w, 'a) io" where
  "throwE e d = (Inl e, d)"

definition bindE :: "('w, 'a) io \<Rightarrow> ('a \<Rightarrow> ('w, 'b) io) \<Rightarrow> ('w, 'b) io" where
  "bindE m f d = (case m d of (Inl e, d') \<Rightarrow> (Inl e, d') | (Inr x, d') \<Rightarrow> f x d')"

definition seqE :: "('w, 'a) io \<Rightarrow> ('w, 'b) io \<Rightarrow> ('w, 'b) io" where
  "seqE m k = bindE m (\<lambda>_. k)"

definition getE :: "('w driver \<Rightarrow> 'a) \<Rightarrow> ('w, 'a) io" where
  "getE f d = (Inr (f d), d)"

definition modifyE :: "('w driver \<Rightarrow> 'w driver) \<Rightarrow> ('w, unit) io" where
  "modifyE f d = (Inr (), f d)"

definition worldE :: "('w \<Rightarrow> 'w) \<Rightarrow> ('w, unit) io" where
  "worldE f = modifyE (\<lambda>d. d\<lparr>world := f (world d)\<rparr>)"

definition nssE :: "'w hal \<Rightarrow> bool \<Rightarrow> ('w, unit) io" where
  "nssE h level = worldE (set_nss h level)"

definition delayE :: "'w hal \<Rightarrow> nat \<Rightarrow> ('w, unit) io" where
  "delayE h us = worldE (delay_us h us)"

definition spi_writeE :: "'w hal \<Rightarrow> bytes \<Rightarrow> ('w, unit) io" where
  "spi_writeE h bs d =
     (let (good, w) = spi_write h bs (world d)
      in (if good then Inr () else Inl SpiError, d\<lparr>world := w\<rparr>))"

text \<open>A transfer into a zeroed buffer as long as the bytes sent; the bus fills a prefix of it.\<close>

definition spi_transferE :: "'w hal \<Rightarrow> bytes \<Rightarrow> ('w, bytes) io" where
  "spi_transferE h bs d =
     (case spi_transfer h bs (world d) of
        (None, w) \<Rightarrow> (Inl SpiError, d\<lparr>world := w\<rparr>)
      | (Some rx, w) \<Rightarrow> (Inr (take (length bs) (rx @ replicate (length bs) 0)), d\<lparr>world := w\<rparr>))"

subsection \<open>Commands and registers\<close>

fun poll_busy :: "'w hal \<Rightarrow> nat \<Rightarrow> ('w, unit) io" where
  "poll_busy h 0 d = (Inl BusyTimeout, d)"
| "poll_busy h (Suc n) d =
     (case busy_is_low h (world d) of
        (True, w) \<Rightarrow> (Inr (), d\<lparr>world := w\<rparr>)
      | (False, w) \<Rightarrow> poll_busy h n (d\<lparr>world := delay_us h 100 w\<rparr>))"

definition wait_not_busy :: "'w hal \<Rightarrow> ('w, unit) io" where
  "wait_not_busy h = poll_busy h 1000"

definition reset :: "'w hal \<Rightarrow> ('w, unit) io" where
  "reset h = seqE (worldE (set_nrst h False)) (seqE (delayE h 10000)
     (seqE (worldE (set_nrst h True)) (delayE h 20000)))"

definition write_command :: "'w hal \<Rightarrow> u8 \<Rightarrow> bytes \<Rightarrow> ('w, unit) io" where
  "write_command h c bs =
     (if 15 < length bs then throwE InvalidConfig
      else seqE (wait_not_busy h) (seqE (nssE h False) (seqE (spi_writeE h (c # bs)) (nssE h True))))"

text \<open>The response is the bytes after the status byte, in a zeroed buffer of sixteen.\<close>

definition read_command :: "'w hal \<Rightarrow> u8 \<Rightarrow> nat \<Rightarrow> ('w, bytes) io" where
  "read_command h c n =
     seqE (wait_not_busy h) (seqE (nssE h False)
       (bindE (spi_transferE h (c # 0x00 # replicate n 0)) (\<lambda>rx_buf.
          seqE (nssE h True) (returnE (drop 2 rx_buf @ replicate (16 - n) 0)))))"

definition read_register :: "'w hal \<Rightarrow> u16 \<Rightarrow> ('w, u8) io" where
  "read_register h addr =
     seqE (wait_not_busy h) (seqE (nssE h False) (\<lambda>d.
       case spi_transferE h [READ_REGISTER, ucast (drop_bit 8 addr), ucast addr, 0x00, 0x00] d of
         (result, d') \<Rightarrow> seqE (nssE h True) (\<lambda>d''. (rbind result (\<lambda>rx_buf. Inr (rx_buf ! 4)), d'')) d'))"

definition write_register :: "'w hal \<Rightarrow> u16 \<Rightarrow> u8 \<Rightarrow> ('w, unit) io" where
  "write_register h addr v =
     write_command h WRITE_REGISTER [ucast (drop_bit 8 addr AND 0xFF), ucast (addr AND 0xFF), v]"

definition configure_tcxo :: "'w hal \<Rightarrow> ('w, unit) io" where
  "configure_tcxo h =
     (let timeout = (0x000140 :: u32)
      in write_command h SET_DIO3_AS_TCXO_CTRL
           [VOLTAGE_CODE, ucast (drop_bit 16 timeout AND 0xFF), ucast (drop_bit 8 timeout AND 0xFF),
            ucast (timeout AND 0xFF)])"

definition configure_dio2_rf_switch :: "'w hal \<Rightarrow> ('w, unit) io" where
  "configure_dio2_rf_switch h = write_command h SET_DIO2_AS_RF_SWITCH_CTRL [0x01]"

definition set_regulator_mode_dcdc :: "'w hal \<Rightarrow> ('w, unit) io" where
  "set_regulator_mode_dcdc h = write_command h SET_REGULATOR_MODE [0x01]"

definition clear_device_errors :: "'w hal \<Rightarrow> ('w, unit) io" where
  "clear_device_errors h = write_command h CLEAR_DEVICE_ERRORS [0x00, 0x00]"

definition apply_tx_clamp_workaround :: "'w hal \<Rightarrow> ('w, unit) io" where
  "apply_tx_clamp_workaround h =
     bindE (read_register h TX_CLAMP_CONFIG) (\<lambda>v. write_register h TX_CLAMP_CONFIG (v OR 0x1E))"

definition calibrate_all :: "'w hal \<Rightarrow> ('w, unit) io" where
  "calibrate_all h =
     seqE (write_command h CALIBRATE [CALIBRATE_ALL]) (seqE (delayE h 5000) (wait_not_busy h))"

definition calibrate_image :: "'w hal \<Rightarrow> u32 \<Rightarrow> ('w, unit) io" where
  "calibrate_image h freq_hz =
     (let (f1, f2) = image_cal_params freq_hz in write_command h CALIBRATE_IMAGE [f1, f2])"

definition ocp_value :: "u16 \<Rightarrow> u8" where
  "ocp_value current_ma = ucast (min (ucast current_ma * 10 div 25 :: u32) 63)"

definition set_current_limit :: "'w hal \<Rightarrow> u16 \<Rightarrow> ('w, unit) io" where
  "set_current_limit h current_ma = write_register h OCP_CONFIGURATION (ocp_value current_ma)"

definition set_sync_word :: "'w hal \<Rightarrow> sync_word \<Rightarrow> ('w, unit) io" where
  "set_sync_word h sw =
     (let (msb, lsb) = register_bytes sw
      in seqE (write_register h LORA_SYNC_WORD_MSB msb) (write_register h LORA_SYNC_WORD_LSB lsb))"

definition iq_fixed :: "bool \<Rightarrow> u8 \<Rightarrow> u8" where
  "iq_fixed inverted v = (if inverted then v AND NOT 0x04 else v OR 0x04)"

definition apply_iq_polarity_workaround :: "'w hal \<Rightarrow> bool \<Rightarrow> ('w, unit) io" where
  "apply_iq_polarity_workaround h inverted =
     bindE (read_register h IQ_POLARITY) (\<lambda>v. write_register h IQ_POLARITY (iq_fixed inverted v))"

subsection \<open>Modulation and packet parameters\<close>

definition set_standby_internal :: "'w hal \<Rightarrow> ('w, unit) io" where
  "set_standby_internal h =
     seqE (modifyE (\<lambda>d. d\<lparr>in_continuous_rx := False\<rparr>)) (write_command h SET_STANDBY [STDBY_RC])"

definition set_packet_type_lora :: "'w hal \<Rightarrow> ('w, unit) io" where
  "set_packet_type_lora h = write_command h SET_PACKET_TYPE [LORA]"

definition freq_reg :: "u32 \<Rightarrow> u32" where
  "freq_reg freq_hz = ucast (ucast freq_hz * push_bit 25 1 div 32000000 :: u64)"

definition freq_bytes :: "u32 \<Rightarrow> bytes" where
  "freq_bytes freq_hz =
     [ucast (drop_bit 24 (freq_reg freq_hz) AND 0xFF), ucast (drop_bit 16 (freq_reg freq_hz) AND 0xFF),
      ucast (drop_bit 8 (freq_reg freq_hz) AND 0xFF), ucast (freq_reg freq_hz AND 0xFF)]"

definition set_frequency :: "'w hal \<Rightarrow> u32 \<Rightarrow> ('w, unit) io" where
  "set_frequency h freq_hz = write_command h SET_RF_FREQUENCY (freq_bytes freq_hz)"

definition bw_code :: "u32 \<Rightarrow> u8" where
  "bw_code khz =
     (if khz = 7 \<or> khz = 8 then 0x00
      else if khz = 10 then 0x08
      else if khz = 15 \<or> khz = 16 then 0x01
      else if khz = 20 \<or> khz = 21 then 0x09
      else if khz = 31 then 0x02
      else if khz = 41 \<or> khz = 42 then 0x0A
      else if khz = 62 \<or> khz = 63 then 0x03
      else if khz = 125 then 0x04
      else if khz = 250 then 0x05
      else if khz = 500 then 0x06
      else 0x04)"

definition cr_code :: "u8 \<Rightarrow> u8" where
  "cr_code cr =
     (if cr = 5 then 0x01 else if cr = 6 then 0x02 else if cr = 7 then 0x03
      else if cr = 8 then 0x04 else 0x01)"

definition modulation_bytes :: "lora_config \<Rightarrow> bytes" where
  "modulation_bytes c =
     [spreading_factor c, bw_code (bandwidth_khz c), cr_code (coding_rate c),
      if ldro_enabled (spreading_factor c) (bandwidth_khz c) then 0x01 else 0x00]"

definition set_modulation_params :: "'w hal \<Rightarrow> lora_config \<Rightarrow> ('w, unit) io" where
  "set_modulation_params h c = write_command h SET_MODULATION_PARAMS (modulation_bytes c)"

definition packet_params :: "lora_config option \<Rightarrow> u8 \<Rightarrow> bytes" where
  "packet_params co payload_len =
     (let (preamble, crc, inverted) = (case co of
            Some c \<Rightarrow> (preamble_len c, crc_on c, iq_inverted c)
          | None \<Rightarrow> (8, True, False))
      in [ucast (drop_bit 8 preamble), ucast preamble, 0x00, payload_len,
          of_bool crc, of_bool inverted])"

definition set_packet_params :: "'w hal \<Rightarrow> u8 \<Rightarrow> ('w, unit) io" where
  "set_packet_params h payload_len =
     bindE (getE config) (\<lambda>co. write_command h SET_PACKET_PARAMS (packet_params co payload_len))"

definition configure_pa :: "'w hal \<Rightarrow> ('w, unit) io" where
  "configure_pa h = write_command h SET_PA_CONFIG [0x04, 0x07, 0x00, 0x01]"

definition tx_power_byte :: "i8 \<Rightarrow> u8" where
  "tx_power_byte power_dbm =
     (if sint power_dbm < 0 then ucast (256 + scast power_dbm :: u16) else ucast power_dbm)"

definition set_tx_power :: "'w hal \<Rightarrow> i8 \<Rightarrow> ('w, unit) io" where
  "set_tx_power h power_dbm = write_command h SET_TX_PARAMS [tx_power_byte power_dbm, 0x04]"

definition set_buffer_base_address :: "'w hal \<Rightarrow> u8 \<Rightarrow> u8 \<Rightarrow> ('w, unit) io" where
  "set_buffer_base_address h tx_base rx_base = write_command h SET_BUFFER_BASE_ADDRESS [tx_base, rx_base]"

subsection \<open>Interrupts and buffers\<close>

definition irq_bytes :: "u16 \<Rightarrow> bytes" where
  "irq_bytes m =
     [ucast (drop_bit 8 m AND 0xFF), ucast (m AND 0xFF), ucast (drop_bit 8 m AND 0xFF),
      ucast (m AND 0xFF), 0x00, 0x00, 0x00, 0x00]"

definition configure_irq :: "'w hal \<Rightarrow> u16 \<Rightarrow> ('w, unit) io" where
  "configure_irq h irq_mask = write_command h SET_DIO_IRQ_PARAMS (irq_bytes irq_mask)"

definition clear_irq :: "'w hal \<Rightarrow> u16 \<Rightarrow> ('w, unit) io" where
  "clear_irq h irq_mask =
     write_command h CLEAR_IRQ_STATUS [ucast (drop_bit 8 irq_mask AND 0xFF), ucast (irq_mask AND 0xFF)]"

definition get_irq_status :: "'w hal \<Rightarrow> ('w, u16) io" where
  "get_irq_status h =
     bindE (read_command h GET_IRQ_STATUS 2) (\<lambda>r. returnE (push_bit 8 (ucast (r ! 0)) OR ucast (r ! 1)))"

definition write_buffer :: "'w hal \<Rightarrow> u8 \<Rightarrow> bytes \<Rightarrow> ('w, unit) io" where
  "write_buffer h offset bs =
     seqE (wait_not_busy h) (seqE (nssE h False)
       (seqE (spi_writeE h (WRITE_BUFFER # offset # take (min (length bs) 256) bs)) (nssE h True)))"

definition read_buffer :: "'w hal \<Rightarrow> u8 \<Rightarrow> nat \<Rightarrow> ('w, bytes) io" where
  "read_buffer h offset n =
     seqE (wait_not_busy h) (seqE (nssE h False)
       (bindE (spi_transferE h (READ_BUFFER # offset # 0x00 # replicate n 0)) (\<lambda>rx_buf.
          seqE (nssE h True) (\<lambda>d. (ok_or (extend_cap (max_lora_payload h) [] (drop 3 rx_buf)) ReceiveFailed, d)))))"

definition get_rx_buffer_status :: "'w hal \<Rightarrow> ('w, u8 \<times> u8) io" where
  "get_rx_buffer_status h = bindE (read_command h GET_RX_BUFFER_STATUS 2) (\<lambda>r. returnE (r ! 0, r ! 1))"

text \<open>Rust's division truncates towards zero; both divisors are positive powers of two.\<close>

definition rssi_of :: "u8 \<Rightarrow> i16" where
  "rssi_of b = - (ucast b div 2)"

definition snr_of :: "u8 \<Rightarrow> i8" where
  "snr_of b = word_of_int (if sint b < 0 then - (- sint b div 4) else sint b div 4)"

definition get_packet_status :: "'w hal \<Rightarrow> ('w, i16 \<times> i8) io" where
  "get_packet_status h =
     bindE (read_command h GET_PACKET_STATUS 3) (\<lambda>r. returnE (rssi_of (r ! 0), snr_of (r ! 1)))"

definition wait_dio1 :: "'w hal \<Rightarrow> u32 \<Rightarrow> ('w, unit) io" where
  "wait_dio1 h timeout_ms d =
     (case dio1_wait_high h timeout_ms (world d) of
        (PinHigh, w) \<Rightarrow> (Inr (), d\<lparr>world := w\<rparr>)
      | (PinError, w) \<Rightarrow> (Inl SpiError, d\<lparr>world := w\<rparr>)
      | (PinTimeout, w) \<Rightarrow> (Inl Timeout, d\<lparr>world := w\<rparr>))"

definition wait_for_irq :: "'w hal \<Rightarrow> u32 \<Rightarrow> ('w, u16) io" where
  "wait_for_irq h timeout_ms = seqE (wait_dio1 h timeout_ms) (get_irq_status h)"

subsection \<open>Transmission and reception\<close>

definition prepare_tx :: "'w hal \<Rightarrow> bytes \<Rightarrow> ('w, unit) io" where
  "prepare_tx h bs = bindE (getE initialised) (\<lambda>i.
     if \<not> i then throwE NotInitialised
     else if bs = [] \<or> unat (HW_MAX_PAYLOAD_LEN h) < length bs then throwE InvalidConfig
     else seqE (set_standby_internal h) (seqE (set_packet_params h (of_nat (length bs)))
       (seqE (write_buffer h 0x00 bs) (seqE (configure_irq h IRQ_TX_DONE) (clear_irq h 0xFFFF)))))"

definition fire_tx :: "'w hal \<Rightarrow> ('w, unit) io" where
  "fire_tx h = write_command h SET_TX [0x00, 0x00, 0x00]"

definition wait_tx_done :: "'w hal \<Rightarrow> ('w, unit) io" where
  "wait_tx_done h = bindE (wait_for_irq h 10000) (\<lambda>irq_status. seqE (clear_irq h irq_status)
     (if irq_status AND IRQ_TX_DONE \<noteq> 0 then returnE () else throwE TransmitFailed))"

definition start_receive_mode :: "'w hal \<Rightarrow> ('w, unit) io" where
  "start_receive_mode h =
     seqE (set_standby_internal h) (seqE (set_packet_params h (HW_MAX_PAYLOAD_LEN h))
       (seqE (configure_irq h (IRQ_RX_DONE OR IRQ_TIMEOUT OR IRQ_CRC_ERR)) (seqE (clear_irq h 0xFFFF)
         (seqE (write_command h SET_RX [0xFF, 0xFF, 0xFF])
           (modifyE (\<lambda>d. d\<lparr>in_continuous_rx := True\<rparr>))))))"

subsection \<open>The trait operations\<close>

definition driver_configure :: "'w hal \<Rightarrow> lora_config \<Rightarrow> ('w, unit) io" where
  "driver_configure h c =
     seqE (set_standby_internal h) (seqE (set_frequency h (frequency_hz c))
       (seqE (calibrate_image h (frequency_hz c)) (seqE (set_modulation_params h c)
         (seqE (set_sync_word h (config_sync_word c)) (seqE (apply_iq_polarity_workaround h (iq_inverted c))
           (seqE (configure_pa h) (seqE (set_current_limit h 140)
             (seqE (set_tx_power h (tx_power_dbm c))
               (modifyE (\<lambda>d. d\<lparr>config := Some c\<rparr>))))))))))"

definition driver_init :: "'w hal \<Rightarrow> ('w, unit) io" where
  "driver_init h =
     seqE (reset h) (seqE (wait_not_busy h) (seqE (set_standby_internal h)
       (seqE (set_regulator_mode_dcdc h) (seqE (configure_tcxo h) (seqE (delayE h 10000)
         (seqE (calibrate_all h) (seqE (clear_device_errors h) (seqE (apply_tx_clamp_workaround h)
           (seqE (configure_dio2_rf_switch h) (seqE (set_packet_type_lora h)
             (seqE (set_buffer_base_address h 0x00 0x00) (seqE (driver_configure h default_lora_config)
               (seqE (start_receive_mode h)
                 (modifyE (\<lambda>d. d\<lparr>initialised := True\<rparr>)))))))))))))))"

definition driver_transmit :: "'w hal \<Rightarrow> bytes \<Rightarrow> ('w, unit) io" where
  "driver_transmit h bs = seqE (prepare_tx h bs) (seqE (fire_tx h) (wait_tx_done h))"

definition driver_arm_receive :: "'w hal \<Rightarrow> ('w, unit) io" where
  "driver_arm_receive h = bindE (getE initialised) (\<lambda>i.
     if \<not> i then throwE NotInitialised
     else bindE (getE in_continuous_rx) (\<lambda>rx. if rx then returnE () else start_receive_mode h))"

definition driver_wait_rx_event :: "'w hal \<Rightarrow> u32 \<Rightarrow> ('w, u64) io" where
  "driver_wait_rx_event h timeout_ms =
     seqE (wait_dio1 h timeout_ms) (getE (\<lambda>d. instant_now h (world d)))"

definition driver_read_packet :: "'w hal \<Rightarrow> ('w, rx_packet) io" where
  "driver_read_packet h =
     bindE (get_irq_status h) (\<lambda>irq_status. seqE (clear_irq h irq_status)
       (if irq_status AND IRQ_CRC_ERR \<noteq> 0 then throwE CrcError
        else if irq_status AND IRQ_RX_DONE = 0 then throwE ReceiveFailed
        else bindE (get_rx_buffer_status h) (\<lambda>(payload_len, buffer_offset).
          bindE (read_buffer h buffer_offset (unat payload_len)) (\<lambda>bs.
            bindE (get_packet_status h) (\<lambda>(rssi, snr).
              returnE \<lparr>rx_data = bs, rx_rssi = rssi, rx_snr = snr\<rparr>)))))"

definition driver_set_standby :: "'w hal \<Rightarrow> ('w, unit) io" where
  "driver_set_standby h = set_standby_internal h"

definition Sx1262 :: "'w hal \<Rightarrow> 'w driver lora_radio" where
  "Sx1262 h =
     \<lparr>radio_init = driver_init h, transmit = driver_transmit h, arm_receive = driver_arm_receive h,
      wait_rx_event = driver_wait_rx_event h, read_packet = driver_read_packet h,
      configure = driver_configure h, set_standby = driver_set_standby h\<rparr>"

subsection \<open>The recording bus\<close>

text \<open>
  \<open>recording h\<close> behaves as \<open>h\<close> and logs what the driver does to it, oldest first; a frame carries
  whether the bus acknowledged it. \<open>host_test_hal\<close> is the bus and the pins of the host tests:
  nothing fails, every read is zero, BUSY is low and DIO1 never rises.
\<close>

datatype bus_event = Nss bool | Nrst bool | Frame bytes bool | Delay nat

record 'w recorded =
  events :: "bus_event list"
  device :: 'w

definition log_event :: "bus_event \<Rightarrow> 'w recorded \<Rightarrow> 'w recorded" where
  "log_event e w = w\<lparr>events := events w @ [e]\<rparr>"

definition recording :: "'w hal \<Rightarrow> 'w recorded hal" where
  "recording h =
     \<lparr>spi_write = (\<lambda>bs w. let (good, v) = spi_write h bs (device w)
        in (good, log_event (Frame bs good) (w\<lparr>device := v\<rparr>))),
      spi_transfer = (\<lambda>bs w. let (rx, v) = spi_transfer h bs (device w)
        in (rx, log_event (Frame bs (rx \<noteq> None)) (w\<lparr>device := v\<rparr>))),
      set_nss = (\<lambda>level w. log_event (Nss level) (w\<lparr>device := set_nss h level (device w)\<rparr>)),
      set_nrst = (\<lambda>level w. log_event (Nrst level) (w\<lparr>device := set_nrst h level (device w)\<rparr>)),
      busy_is_low = (\<lambda>w. let (low, v) = busy_is_low h (device w) in (low, w\<lparr>device := v\<rparr>)),
      dio1_wait_high = (\<lambda>t w. let (r, v) = dio1_wait_high h t (device w) in (r, w\<lparr>device := v\<rparr>)),
      delay_us = (\<lambda>us w. log_event (Delay us) (w\<lparr>device := delay_us h us (device w)\<rparr>)),
      instant_now = (\<lambda>w. instant_now h (device w)),
      max_lora_payload = max_lora_payload h\<rparr>"

definition host_test_hal :: "nat \<Rightarrow> unit hal" where
  "host_test_hal max_payload =
     \<lparr>spi_write = (\<lambda>_ w. (True, w)),
      spi_transfer = (\<lambda>bs w. (Some (replicate (length bs) 0), w)),
      set_nss = (\<lambda>_ w. w), set_nrst = (\<lambda>_ w. w), busy_is_low = (\<lambda>w. (True, w)),
      dio1_wait_high = (\<lambda>_ w. (PinTimeout, w)), delay_us = (\<lambda>_ w. w), instant_now = (\<lambda>_. 0),
      max_lora_payload = max_payload\<rparr>"

definition build_driver :: "'w \<Rightarrow> 'w recorded driver" where
  "build_driver w = new_driver \<lparr>events = [], device = w\<rparr>"

text \<open>The acknowledged frames of a log, and the level the driver left chip select at.\<close>

fun acked :: "bus_event list \<Rightarrow> bytes list" where
  "acked [] = []"
| "acked (Frame bs True # es) = bs # acked es"
| "acked (_ # es) = acked es"

fun nss_level :: "bool \<Rightarrow> bus_event list \<Rightarrow> bool" where
  "nss_level b [] = b"
| "nss_level b (Nss l # es) = nss_level l es"
| "nss_level b (_ # es) = nss_level b es"

lemma acked_append [simp]: "acked (es @ fs) = acked es @ acked fs"
  by (induction es rule: acked.induct) auto

lemma nss_level_append [simp]: "nss_level b (es @ fs) = nss_level (nss_level b es) fs"
  by (induction b es rule: nss_level.induct) auto

subsection \<open>Reasoning about operations\<close>

text \<open>
  The view of a driver on a recording bus: the frames sent, the chip-select level and the driver's
  own fields. \<open>wpv m Q E v\<close> says that from every state with view \<open>v\<close>, whatever the hardware does,
  \<open>m\<close> ends with a result in \<open>Q\<close> or an error in \<open>E\<close>. Each operation gets one rule.
\<close>

record view =
  v_sent :: "bytes list"
  v_nss :: bool
  v_init :: bool
  v_rx :: bool
  v_config :: "lora_config option"

definition view :: "'w recorded driver \<Rightarrow> view" where
  "view d = \<lparr>v_sent = acked (events (world d)), v_nss = nss_level True (events (world d)),
     v_init = initialised d, v_rx = in_continuous_rx d, v_config = config d\<rparr>"

definition sent_frame :: "bytes \<Rightarrow> view \<Rightarrow> view" where
  "sent_frame bs v = v\<lparr>v_sent := v_sent v @ [bs]\<rparr>"

lemma v_nss_frame [simp]:
  "v_nss (sent_frame bs v) = v_nss v" "v_init (sent_frame bs v) = v_init v"
  "v_rx (sent_frame bs v) = v_rx v" "v_config (sent_frame bs v) = v_config v"
  "v_sent (sent_frame bs v) = v_sent v @ [bs]"
  by (simp_all add: sent_frame_def)

lemma sent_frame_update [simp]: "(sent_frame bs v)\<lparr>v_nss := b\<rparr> = sent_frame bs (v\<lparr>v_nss := b\<rparr>)"
  "(sent_frame bs v)\<lparr>v_rx := b\<rparr> = sent_frame bs (v\<lparr>v_rx := b\<rparr>)"
  "(sent_frame bs v)\<lparr>v_init := b\<rparr> = sent_frame bs (v\<lparr>v_init := b\<rparr>)"
  "(sent_frame bs v)\<lparr>v_config := c\<rparr> = sent_frame bs (v\<lparr>v_config := c\<rparr>)"
  by (simp_all add: sent_frame_def)

definition wpv ::
  "('w recorded, 'a) io \<Rightarrow> ('a \<Rightarrow> view \<Rightarrow> bool) \<Rightarrow> (lora_error \<Rightarrow> view \<Rightarrow> bool) \<Rightarrow> view \<Rightarrow> bool" where
  "wpv m Q E v \<longleftrightarrow> (\<forall>d. view d = v \<longrightarrow>
     (case m d of (Inr x, d') \<Rightarrow> Q x (view d') | (Inl e, d') \<Rightarrow> E e (view d')))"

named_theorems wp_rules

lemma wpv_I:
  "(\<And>d r d'. view d = v \<Longrightarrow> m d = (r, d') \<Longrightarrow> case r of Inr x \<Rightarrow> Q x (view d') | Inl e \<Rightarrow> E e (view d'))
   \<Longrightarrow> wpv m Q E v"
  unfolding wpv_def by (simp split: prod.split)

lemma wpv_run:
  "wpv m Q E (view d) \<Longrightarrow> m d = (r, d') \<Longrightarrow> case r of Inr x \<Rightarrow> Q x (view d') | Inl e \<Rightarrow> E e (view d')"
  unfolding wpv_def by (auto split: prod.splits)

lemma wpv_mono:
  "\<lbrakk>wpv m Q E v; \<And>x v'. Q x v' \<Longrightarrow> Q' x v'; \<And>e v'. E e v' \<Longrightarrow> E' e v'\<rbrakk> \<Longrightarrow> wpv m Q' E' v"
  unfolding wpv_def by (fastforce split: sum.splits prod.splits)

lemma wpv_bind [wp_rules]:
  assumes "wpv m (\<lambda>x. wpv (f x) Q E) E v" shows "wpv (bindE m f) Q E v"
proof (rule wpv_I)
  fix d r d' assume v: "view d = v" and b: "bindE m f d = (r, d')"
  obtain q e where q: "m d = (q, e)" by force
  then have m: "case q of Inr x \<Rightarrow> wpv (f x) Q E (view e) | Inl err \<Rightarrow> E err (view e)"
    using wpv_run [of m "\<lambda>x. wpv (f x) Q E" E d q e] assms v by simp
  show "case r of Inr x \<Rightarrow> Q x (view d') | Inl err \<Rightarrow> E err (view d')"
  proof (cases q)
    case (Inr x)
    then show ?thesis using wpv_run [of "f x" Q E e r d'] m b q by (simp add: bindE_def)
  qed (use m b q in \<open>auto simp: bindE_def\<close>)
qed

lemma wpv_seq [wp_rules]: "wpv m (\<lambda>_. wpv k Q E) E v \<Longrightarrow> wpv (seqE m k) Q E v"
  unfolding seqE_def by (rule wpv_bind)

lemma wpv_return [wp_rules]: "Q x v \<Longrightarrow> wpv (returnE x) Q E v"
  by (simp add: wpv_def returnE_def)

lemma wpv_throw [wp_rules]: "E e v \<Longrightarrow> wpv (throwE e) Q E v"
  by (simp add: wpv_def throwE_def)

lemma wpv_if [wp_rules]:
  "\<lbrakk>b \<Longrightarrow> wpv m Q E v; \<not> b \<Longrightarrow> wpv k Q E v\<rbrakk> \<Longrightarrow> wpv (if b then m else k) Q E v"
  by simp

lemma wpv_get_initialised [wp_rules]: "Q (v_init v) v \<Longrightarrow> wpv (getE initialised) Q E v"
  by (auto simp: wpv_def getE_def view_def)

lemma wpv_get_rx [wp_rules]: "Q (v_rx v) v \<Longrightarrow> wpv (getE in_continuous_rx) Q E v"
  by (auto simp: wpv_def getE_def view_def)

lemma wpv_get_config [wp_rules]: "Q (v_config v) v \<Longrightarrow> wpv (getE config) Q E v"
  by (auto simp: wpv_def getE_def view_def)

lemma wpv_get_now [wp_rules]: "(\<And>t. Q t v) \<Longrightarrow> wpv (getE (\<lambda>d. instant_now h (world d))) Q E v"
  by (auto simp: wpv_def getE_def)

lemma wpv_set_rx [wp_rules]:
  "Q () (v\<lparr>v_rx := b\<rparr>) \<Longrightarrow> wpv (modifyE (\<lambda>d. d\<lparr>in_continuous_rx := b\<rparr>)) Q E v"
  by (auto simp: wpv_def modifyE_def view_def)

lemma wpv_set_initialised [wp_rules]:
  "Q () (v\<lparr>v_init := b\<rparr>) \<Longrightarrow> wpv (modifyE (\<lambda>d. d\<lparr>initialised := b\<rparr>)) Q E v"
  by (auto simp: wpv_def modifyE_def view_def)

lemma wpv_set_config [wp_rules]:
  "Q () (v\<lparr>v_config := c\<rparr>) \<Longrightarrow> wpv (modifyE (\<lambda>d. d\<lparr>config := c\<rparr>)) Q E v"
  by (auto simp: wpv_def modifyE_def view_def)

lemma wpv_nss [wp_rules]: "Q () (v\<lparr>v_nss := b\<rparr>) \<Longrightarrow> wpv (nssE (recording h) b) Q E v"
  by (auto simp: wpv_def nssE_def worldE_def modifyE_def view_def recording_def log_event_def)

lemma wpv_nrst [wp_rules]: "Q () v \<Longrightarrow> wpv (worldE (set_nrst (recording h) b)) Q E v"
  by (auto simp: wpv_def worldE_def modifyE_def view_def recording_def log_event_def)

lemma wpv_delay [wp_rules]: "Q () v \<Longrightarrow> wpv (delayE (recording h) us) Q E v"
  by (auto simp: wpv_def delayE_def worldE_def modifyE_def view_def recording_def log_event_def)

lemma wpv_spi_write [wp_rules]:
  "\<lbrakk>Q () (sent_frame bs v); E SpiError v\<rbrakk> \<Longrightarrow> wpv (spi_writeE (recording h) bs) Q E v"
  by (auto simp: wpv_def spi_writeE_def view_def recording_def log_event_def sent_frame_def
      split: prod.splits sum.splits if_splits)

lemma wpv_spi_transfer [wp_rules]:
  "\<lbrakk>\<And>rx. length rx = length bs \<Longrightarrow> Q rx (sent_frame bs v); E SpiError v\<rbrakk>
   \<Longrightarrow> wpv (spi_transferE (recording h) bs) Q E v"
  by (auto simp: wpv_def spi_transferE_def view_def recording_def log_event_def sent_frame_def
      split: prod.splits option.splits)

lemma wpv_poll [wp_rules]:
  fixes h :: "'w hal"
  shows "\<lbrakk>Q () v; E BusyTimeout v\<rbrakk> \<Longrightarrow> wpv (poll_busy (recording h) n) Q E v"
proof (induction n)
  case (Suc n)
  have rec: "view (d\<lparr>world := delay_us (recording h) 100 ((world d)\<lparr>device := w\<rparr>)\<rparr>) = view d"
    for d :: "'w recorded driver" and w
    by (simp add: view_def recording_def log_event_def)
  have same: "view (d\<lparr>world := (world d)\<lparr>device := w\<rparr>\<rparr>) = view d" for d :: "'w recorded driver" and w
    by (simp add: view_def)
  show ?case unfolding wpv_def
  proof (intro allI impI)
    fix d :: "'w recorded driver" assume v: "view d = v"
    obtain low w where b: "busy_is_low h (device (world d)) = (low, w)" by force
    then have bl: "busy_is_low (recording h) (world d) = (low, (world d)\<lparr>device := w\<rparr>)"
      by (simp add: recording_def)
    show "case poll_busy (recording h) (Suc n) d of (Inr x, d') \<Rightarrow> Q x (view d') | (Inl e, d') \<Rightarrow> E e (view d')"
    proof (cases low)
      case True
      then show ?thesis using Suc.prems v by (simp add: bl same)
    next
      case False
      then show ?thesis using Suc.IH [OF Suc.prems] v rec
        by (simp add: bl wpv_def)
    qed
  qed
qed (simp add: wpv_def)

lemma wpv_wait_not_busy [wp_rules]:
  "\<lbrakk>Q () v; E BusyTimeout v\<rbrakk> \<Longrightarrow> wpv (wait_not_busy (recording h)) Q E v"
  unfolding wait_not_busy_def by (rule wpv_poll)

lemma wpv_dio1 [wp_rules]:
  "\<lbrakk>Q () v; E SpiError v; E Timeout v\<rbrakk> \<Longrightarrow> wpv (wait_dio1 (recording h) t) Q E v"
  by (auto simp: wpv_def wait_dio1_def view_def recording_def split: prod.splits pin_wait.splits)

text \<open>
  The rules of the bus operations: a command either sends its frame and releases chip select, or
  stops before it. After an SPI failure the commands leave chip select asserted; only
  \<open>read_register\<close> releases it on that path.
\<close>

lemma wpv_write_command [wp_rules]:
  "\<lbrakk>length bs \<le> 15; Q () (sent_frame (c # bs) (v\<lparr>v_nss := True\<rparr>)); E BusyTimeout v;
    E SpiError (v\<lparr>v_nss := False\<rparr>)\<rbrakk> \<Longrightarrow> wpv (write_command (recording h) c bs) Q E v"
  unfolding write_command_def
  by (simp, intro wp_rules) simp_all

lemma wpv_read_command [wp_rules]:
  "\<lbrakk>\<And>r. length r = max n 16 \<Longrightarrow> Q r (sent_frame (c # 0 # replicate n 0) (v\<lparr>v_nss := True\<rparr>));
    E BusyTimeout v; E SpiError (v\<lparr>v_nss := False\<rparr>)\<rbrakk> \<Longrightarrow> wpv (read_command (recording h) c n) Q E v"
  unfolding read_command_def by (intro wp_rules) simp_all

lemma wpv_read_register [wp_rules]:
  fixes h :: "'w hal"
  assumes "\<And>x. Q x (sent_frame [READ_REGISTER, ucast (drop_bit 8 addr), ucast addr, 0, 0] (v\<lparr>v_nss := True\<rparr>))"
    and "E BusyTimeout v" and "E SpiError (v\<lparr>v_nss := True\<rparr>)"
  shows "wpv (read_register (recording h) addr) Q E v"
proof -
  let ?bs = "[READ_REGISTER, ucast (drop_bit 8 addr), ucast addr, 0, 0]"
  let ?m = "\<lambda>d. case spi_transferE (recording h) ?bs d of
      (result, d') \<Rightarrow> seqE (nssE (recording h) True) (\<lambda>d''. (rbind result (\<lambda>rx_buf. Inr (rx_buf ! 4)), d'')) d'"
  have "wpv ?m Q E (v\<lparr>v_nss := False\<rparr>)"
  proof (rule wpv_I)
    fix d :: "'w recorded driver" and r d' assume v: "view d = v\<lparr>v_nss := False\<rparr>" and m: "?m d = (r, d')"
    obtain rx w where t: "spi_transfer h ?bs (device (world d)) = (rx, w)" by force
    have "view d' = (if rx = None then v\<lparr>v_nss := True\<rparr> else sent_frame ?bs (v\<lparr>v_nss := True\<rparr>))"
      using m t v by (cases v; cases rx) (auto simp: spi_transferE_def seqE_def bindE_def nssE_def worldE_def
        modifyE_def view_def recording_def log_event_def sent_frame_def)
    moreover have "if rx = None then r = Inl SpiError else is_ok r"
      using m t by (cases rx) (auto simp: spi_transferE_def seqE_def bindE_def nssE_def worldE_def
        modifyE_def recording_def log_event_def)
    ultimately show "case r of Inr x \<Rightarrow> Q x (view d') | Inl e \<Rightarrow> E e (view d')"
      using assms by (cases r; cases rx) auto
  qed
  then show ?thesis unfolding read_register_def using assms(2) by (intro wp_rules) simp_all
qed

lemma take_min_self: "take (min (length xs) n) xs = take n xs"
  by (simp add: min_def)

lemma wpv_write_buffer [wp_rules]:
  "\<lbrakk>Q () (sent_frame (WRITE_BUFFER # off # take 256 bs) (v\<lparr>v_nss := True\<rparr>));
    E BusyTimeout v; E SpiError (v\<lparr>v_nss := False\<rparr>)\<rbrakk> \<Longrightarrow> wpv (write_buffer (recording h) off bs) Q E v"
  unfolding write_buffer_def take_min_self
  by (intro wp_rules) simp_all

lemma wpv_read_buffer [wp_rules]:
  assumes "\<And>bs. length bs = n \<Longrightarrow> n \<le> max_lora_payload h \<Longrightarrow>
      Q bs (sent_frame (READ_BUFFER # off # 0 # replicate n 0) (v\<lparr>v_nss := True\<rparr>))"
    and "max_lora_payload h < n \<Longrightarrow>
      E ReceiveFailed (sent_frame (READ_BUFFER # off # 0 # replicate n 0) (v\<lparr>v_nss := True\<rparr>))"
    and "E BusyTimeout v" and "E SpiError (v\<lparr>v_nss := False\<rparr>)"
  shows "wpv (read_buffer (recording h) off n) Q E v"
proof -
  have mp: "max_lora_payload (recording h) = max_lora_payload h" by (simp add: recording_def)
  have last: "wpv (\<lambda>d. (ok_or (extend_cap (max_lora_payload (recording h)) [] (drop 3 rx)) ReceiveFailed, d)) Q E
      (sent_frame (READ_BUFFER # off # 0 # replicate n 0) (v\<lparr>v_nss := True\<rparr>))"
    if "length rx = Suc (Suc (Suc n))" for rx
    using assms(1,2) that by (intro wpv_I) (auto simp: extend_cap_def mp)
  show ?thesis unfolding read_buffer_def
    using assms(3,4) last by (intro wp_rules) simp_all
qed

lemma recording_max [simp]:
  "HW_MAX_PAYLOAD_LEN (recording h) = HW_MAX_PAYLOAD_LEN h"
  "max_lora_payload (recording h) = max_lora_payload h"
  by (simp_all add: HW_MAX_PAYLOAD_LEN_def recording_def)

lemma HW_MAX_le: "unat (HW_MAX_PAYLOAD_LEN h) \<le> 255"
proof -
  have "unat (HW_MAX_PAYLOAD_LEN h) < 2 ^ LENGTH(8)" by (rule unsigned_less)
  then show ?thesis by simp
qed

lemmas register_ops = write_register_def apply_tx_clamp_workaround_def set_current_limit_def
  set_sync_word_def apply_iq_polarity_workaround_def Let_def case_prod_beta

lemmas command_ops = configure_tcxo_def configure_dio2_rf_switch_def set_regulator_mode_dcdc_def
  clear_device_errors_def calibrate_all_def calibrate_image_def set_standby_internal_def
  set_packet_type_lora_def set_frequency_def set_modulation_params_def set_packet_params_def
  configure_pa_def set_tx_power_def set_buffer_base_address_def configure_irq_def clear_irq_def
  get_rx_buffer_status_def get_packet_status_def wait_for_irq_def

lemma param_lengths [simp]:
  "length (freq_bytes f) = 4" "length (modulation_bytes c) = 4" "length (packet_params co n) = 6"
  "length (irq_bytes m) = 8"
  by (simp_all add: freq_bytes_def modulation_bytes_def packet_params_def irq_bytes_def Let_def
      split: prod.split option.split)

lemma wpv_get_irq_status [wp_rules]:
  "\<lbrakk>\<And>irq. Q irq (sent_frame [GET_IRQ_STATUS, 0, 0, 0] (v\<lparr>v_nss := True\<rparr>));
    E BusyTimeout v; E SpiError (v\<lparr>v_nss := False\<rparr>)\<rbrakk> \<Longrightarrow> wpv (get_irq_status (recording h)) Q E v"
  unfolding get_irq_status_def by (intro wp_rules) (simp_all add: numeral_2_eq_2)

text \<open>The frames of a staged transmission, and the one that fires it.\<close>

definition tx_frames :: "lora_config option \<Rightarrow> bytes \<Rightarrow> bytes list" where
  "tx_frames co bs =
     [[SET_STANDBY, STDBY_RC], SET_PACKET_PARAMS # packet_params co (of_nat (length bs)),
      WRITE_BUFFER # 0x00 # bs, SET_DIO_IRQ_PARAMS # irq_bytes IRQ_TX_DONE,
      [CLEAR_IRQ_STATUS, 0xFF, 0xFF]]"

definition fire_frame :: bytes where
  "fire_frame = [SET_TX, 0x00, 0x00, 0x00]"

lemma wpv_prepare_tx [wp_rules]:
  fixes h :: "'w hal"
  assumes "\<And>v'. \<lbrakk>v_init v; bs \<noteq> []; length bs \<le> unat (HW_MAX_PAYLOAD_LEN h);
        v_sent v' = v_sent v @ tx_frames (v_config v) bs; v_init v'; v_config v' = v_config v;
        \<not> v_rx v'; v_nss v'\<rbrakk> \<Longrightarrow> Q () v'"
    and "\<not> v_init v \<Longrightarrow> E NotInitialised v"
    and "\<lbrakk>v_init v; bs = [] \<or> unat (HW_MAX_PAYLOAD_LEN h) < length bs\<rbrakk> \<Longrightarrow> E InvalidConfig v"
    and "\<And>e v'. \<lbrakk>v_init v; bs \<noteq> []; length bs \<le> unat (HW_MAX_PAYLOAD_LEN h);
        prefix (v_sent v) (v_sent v'); prefix (v_sent v') (v_sent v @ tx_frames (v_config v) bs);
        v_init v'; v_config v' = v_config v; \<not> v_rx v';
        e = BusyTimeout \<and> (v_nss v \<longrightarrow> v_nss v') \<or> e = SpiError\<rbrakk> \<Longrightarrow> E e v'"
  shows "wpv (prepare_tx (recording h) bs) Q E v"
proof -
  have [simp]: "take 256 bs = bs" if "length bs \<le> unat (HW_MAX_PAYLOAD_LEN h)"
    using that HW_MAX_le [of h] by simp
  show ?thesis
    unfolding prepare_tx_def command_ops
    by (intro wp_rules; (rule assms)?) (simp_all add: tx_frames_def not_less)
qed

lemmas trait_ops = fire_tx_def wait_tx_done_def start_receive_mode_def driver_configure_def
  driver_init_def driver_transmit_def driver_arm_receive_def driver_wait_rx_event_def
  driver_read_packet_def driver_set_standby_def reset_def

lemmas opcodes = SET_STANDBY_def SET_TX_def SET_RX_def SET_REGULATOR_MODE_def
  CLEAR_DEVICE_ERRORS_def READ_REGISTER_def SET_RF_FREQUENCY_def SET_PACKET_TYPE_def
  SET_MODULATION_PARAMS_def SET_PACKET_PARAMS_def SET_BUFFER_BASE_ADDRESS_def SET_PA_CONFIG_def
  SET_DIO3_AS_TCXO_CTRL_def SET_DIO2_AS_RF_SWITCH_CTRL_def CALIBRATE_def CALIBRATE_IMAGE_def
  SET_TX_PARAMS_def WRITE_BUFFER_def READ_BUFFER_def WRITE_REGISTER_def GET_RX_BUFFER_STATUS_def
  GET_PACKET_STATUS_def GET_IRQ_STATUS_def CLEAR_IRQ_STATUS_def SET_DIO_IRQ_PARAMS_def

subsection \<open>The receive flag is truthful\<close>

text \<open>
  The mode the radio was last put in by an acknowledged frame. \<open>rx_true\<close>: the driver believes it
  is listening only when that mode is continuous receive and the radio has been initialised.
\<close>

definition is_mode_frame :: "bytes \<Rightarrow> bool" where
  "is_mode_frame bs \<longleftrightarrow> bs \<noteq> [] \<and> hd bs \<in> {SET_STANDBY, SET_RX, SET_TX}"

fun last_mode :: "bytes list \<Rightarrow> bytes option" where
  "last_mode [] = None"
| "last_mode (bs # fs) =
     (case last_mode fs of Some m \<Rightarrow> Some m | None \<Rightarrow> if is_mode_frame bs then Some bs else None)"

definition rx_frame :: bytes where
  "rx_frame = [SET_RX, 0xFF, 0xFF, 0xFF]"

definition rx_true :: "view \<Rightarrow> bool" where
  "rx_true v \<longleftrightarrow> (v_rx v \<longrightarrow> last_mode (v_sent v) = Some rx_frame \<and> v_init v)"

lemma last_mode_append [simp]:
  "last_mode (fs @ gs) = (case last_mode gs of Some m \<Rightarrow> Some m | None \<Rightarrow> last_mode fs)"
  by (induction fs) (auto split: option.split)

lemma rx_true_simps [simp]:
  "\<not> v_rx v \<Longrightarrow> rx_true v"
  "rx_true (v\<lparr>v_nss := b\<rparr>) = rx_true v"
  "rx_true (v\<lparr>v_config := c\<rparr>) = rx_true v"
  by (simp_all add: rx_true_def)

lemma rx_true_frame [simp]:
  "\<not> is_mode_frame bs \<Longrightarrow> rx_true (sent_frame bs v) = rx_true v"
  by (simp add: rx_true_def)

lemma mode_frame_Cons [simp]: "is_mode_frame (c # bs) \<longleftrightarrow> c \<in> {SET_STANDBY, SET_RX, SET_TX}"
  by (simp add: is_mode_frame_def)

lemma rx_true_init: "rx_true v \<Longrightarrow> wpv (driver_init (recording h)) (\<lambda>_. rx_true) (\<lambda>_. rx_true) v"
  unfolding trait_ops command_ops register_ops
  by (intro wp_rules) (simp_all add: opcodes, simp_all add: rx_true_def rx_frame_def opcodes)

lemma rx_true_configure:
  "rx_true v \<Longrightarrow> wpv (driver_configure (recording h) c) (\<lambda>_. rx_true) (\<lambda>_. rx_true) v"
  unfolding trait_ops command_ops register_ops
  by (intro wp_rules) (simp_all add: opcodes)

lemma rx_true_arm:
  "rx_true v \<Longrightarrow> wpv (driver_arm_receive (recording h)) (\<lambda>_. rx_true) (\<lambda>_. rx_true) v"
  unfolding trait_ops command_ops
  by (intro wp_rules) (simp_all add: opcodes, simp_all add: rx_true_def rx_frame_def opcodes)

lemma rx_true_read:
  "rx_true v \<Longrightarrow> wpv (driver_read_packet (recording h)) (\<lambda>_. rx_true) (\<lambda>_. rx_true) v"
  unfolding trait_ops command_ops case_prod_beta
  by (intro wp_rules) (simp_all add: opcodes)

lemma rx_true_wait:
  "rx_true v \<Longrightarrow> wpv (driver_wait_rx_event (recording h) t) (\<lambda>_. rx_true) (\<lambda>_. rx_true) v"
  unfolding trait_ops by (intro wp_rules) simp_all

lemma rx_true_standby:
  "rx_true v \<Longrightarrow> wpv (driver_set_standby (recording h)) (\<lambda>_. rx_true) (\<lambda>_. rx_true) v"
  unfolding trait_ops command_ops by (intro wp_rules) (simp_all add: opcodes)

lemma rx_true_transmit:
  "rx_true v \<Longrightarrow> wpv (driver_transmit (recording h) bs) (\<lambda>_. rx_true) (\<lambda>_. rx_true) v"
  unfolding driver_transmit_def fire_tx_def wait_tx_done_def wait_for_irq_def clear_irq_def
  by (intro wp_rules) simp_all

text \<open>Every sequence of calls through the trait, from a new driver.\<close>

datatype radio_call =
    CallInit | CallTransmit bytes | CallArm | CallWait u32 | CallRead | CallConfigure lora_config
  | CallStandby

fun call :: "'w hal \<Rightarrow> radio_call \<Rightarrow> 'w driver \<Rightarrow> 'w driver" where
  "call h CallInit d = snd (radio_init (Sx1262 h) d)"
| "call h (CallTransmit bs) d = snd (transmit (Sx1262 h) bs d)"
| "call h CallArm d = snd (arm_receive (Sx1262 h) d)"
| "call h (CallWait t) d = snd (wait_rx_event (Sx1262 h) t d)"
| "call h CallRead d = snd (read_packet (Sx1262 h) d)"
| "call h (CallConfigure c) d = snd (configure (Sx1262 h) c d)"
| "call h CallStandby d = snd (set_standby (Sx1262 h) d)"

lemma wpv_snd: "wpv m (\<lambda>_. P) (\<lambda>_. P) (view d) \<Longrightarrow> P (view (snd (m d)))"
  using wpv_run [of m "\<lambda>_. P" "\<lambda>_. P" d "fst (m d)" "snd (m d)"] by (auto split: sum.splits)

lemma rx_true_call: "rx_true (view d) \<Longrightarrow> rx_true (view (call (recording h) c d))"
  by (cases c) (simp_all add: Sx1262_def wpv_snd rx_true_init rx_true_transmit rx_true_arm
      rx_true_wait rx_true_read rx_true_configure rx_true_standby)

definition calls :: "'w hal \<Rightarrow> radio_call list \<Rightarrow> 'w driver \<Rightarrow> 'w driver" where
  "calls h cs d = fold (call h) cs d"

lemma rx_true_calls: "rx_true (view d) \<Longrightarrow> rx_true (view (calls (recording h) cs d))"
  unfolding calls_def by (induction cs arbitrary: d) (auto intro: rx_true_call)

subsection \<open>Chip select\<close>

text \<open>
  Every operation that starts with chip select released leaves it released, unless it reports an
  SPI failure.
\<close>

definition released :: "lora_error \<Rightarrow> view \<Rightarrow> bool" where
  "released e v \<longleftrightarrow> (e \<noteq> SpiError \<longrightarrow> v_nss v)"

lemma released_simps [simp]:
  "released SpiError v" "e \<noteq> SpiError \<Longrightarrow> released e v = v_nss v"
  by (simp_all add: released_def)

lemma nss_init: "v_nss v \<Longrightarrow> wpv (driver_init (recording h)) (\<lambda>_. v_nss) released v"
  unfolding trait_ops command_ops register_ops by (intro wp_rules) simp_all

lemma nss_configure: "v_nss v \<Longrightarrow> wpv (driver_configure (recording h) c) (\<lambda>_. v_nss) released v"
  unfolding trait_ops command_ops register_ops by (intro wp_rules) simp_all

lemma nss_arm: "v_nss v \<Longrightarrow> wpv (driver_arm_receive (recording h)) (\<lambda>_. v_nss) released v"
  unfolding trait_ops command_ops by (intro wp_rules) simp_all

lemma nss_read: "v_nss v \<Longrightarrow> wpv (driver_read_packet (recording h)) (\<lambda>_. v_nss) released v"
  unfolding trait_ops command_ops case_prod_beta by (intro wp_rules) simp_all

lemma nss_transmit: "v_nss v \<Longrightarrow> wpv (driver_transmit (recording h) bs) (\<lambda>_. v_nss) released v"
  unfolding driver_transmit_def fire_tx_def wait_tx_done_def wait_for_irq_def clear_irq_def
  by (intro wp_rules) (auto simp: released_def)

subsection \<open>What goes on the air\<close>

text \<open>
  Reading the frames as the radio's documentation does: \<open>SetPacketParams\<close> sets the payload length,
  \<open>WriteBuffer\<close> the payload, and \<open>SetTx\<close> sends as many bytes of the buffer as the length says.
\<close>

record air =
  air_buffer :: bytes
  air_len :: nat
  air_out :: "bytes list"

definition air_step :: "bytes \<Rightarrow> air \<Rightarrow> air" where
  "air_step bs a =
     (if bs = [] then a
      else if hd bs = SET_PACKET_PARAMS then a\<lparr>air_len := unat (bs ! 4)\<rparr>
      else if hd bs = WRITE_BUFFER then a\<lparr>air_buffer := drop 2 bs\<rparr>
      else if hd bs = SET_TX then a\<lparr>air_out := air_out a @ [take (air_len a) (air_buffer a)]\<rparr>
      else a)"

definition air_of :: "bytes list \<Rightarrow> air" where
  "air_of fs = fold air_step fs \<lparr>air_buffer = [], air_len = 0, air_out = []\<rparr>"

definition aired :: "view \<Rightarrow> bytes list" where
  "aired v = air_out (air_of (v_sent v))"

lemma air_of_append [simp]: "air_of (fs @ gs) = fold air_step gs (air_of fs)"
  by (simp add: air_of_def)

lemma aired_simps [simp]:
  "aired (v\<lparr>v_nss := b\<rparr>) = aired v" "aired (v\<lparr>v_rx := b\<rparr>) = aired v"
  "aired (v\<lparr>v_init := b\<rparr>) = aired v" "aired (v\<lparr>v_config := c\<rparr>) = aired v"
  by (simp_all add: aired_def)

lemma aired_frame [simp]: "c \<noteq> SET_TX \<Longrightarrow> aired (sent_frame (c # bs) v) = aired v"
  by (simp add: aired_def air_step_def)

lemma silent_init: "aired v = A \<Longrightarrow> wpv (driver_init (recording h)) (\<lambda>_ v'. aired v' = A) (\<lambda>_ v'. aired v' = A) v"
  unfolding trait_ops command_ops register_ops by (intro wp_rules) (simp_all add: opcodes)

lemma silent_configure:
  "aired v = A \<Longrightarrow> wpv (driver_configure (recording h) c) (\<lambda>_ v'. aired v' = A) (\<lambda>_ v'. aired v' = A) v"
  unfolding trait_ops command_ops register_ops by (intro wp_rules) (simp_all add: opcodes)

lemma silent_arm:
  "aired v = A \<Longrightarrow> wpv (driver_arm_receive (recording h)) (\<lambda>_ v'. aired v' = A) (\<lambda>_ v'. aired v' = A) v"
  unfolding trait_ops command_ops by (intro wp_rules) (simp_all add: opcodes)

lemma silent_read:
  "aired v = A \<Longrightarrow> wpv (driver_read_packet (recording h)) (\<lambda>_ v'. aired v' = A) (\<lambda>_ v'. aired v' = A) v"
  unfolding trait_ops command_ops case_prod_beta by (intro wp_rules) (simp_all add: opcodes)

lemma silent_wait:
  "aired v = A \<Longrightarrow> wpv (driver_wait_rx_event (recording h) t) (\<lambda>_ v'. aired v' = A) (\<lambda>_ v'. aired v' = A) v"
  unfolding trait_ops by (intro wp_rules) simp_all

text \<open>The staged frames hold the whole payload, so firing them sends it and nothing else.\<close>

lemma air_staged:
  assumes "length bs \<le> 255"
  shows "air_len (fold air_step (tx_frames co bs) a) = length bs"
    and "air_buffer (fold air_step (tx_frames co bs) a) = bs"
    and "air_out (fold air_step (tx_frames co bs) a) = air_out a"
proof -
  have n: "unat (packet_params co (of_nat (length bs)) ! 3) = length bs"
    using assms by (simp add: packet_params_def Let_def unsigned_of_nat take_bit_nat_eq_self
        split: prod.split option.split)
  show "air_len (fold air_step (tx_frames co bs) a) = length bs"
    "air_buffer (fold air_step (tx_frames co bs) a) = bs"
    "air_out (fold air_step (tx_frames co bs) a) = air_out a"
    using n by (simp_all add: tx_frames_def air_step_def opcodes)
qed

lemma air_prefix:
  assumes "prefix fs (tx_frames co bs)"
  shows "air_out (fold air_step fs a) = air_out a"
  using assms by (auto simp: tx_frames_def prefix_Cons air_step_def opcodes)

definition done_frames :: "u16 \<Rightarrow> bytes list" where
  "done_frames irq =
     [[GET_IRQ_STATUS, 0, 0, 0],
      [CLEAR_IRQ_STATUS, ucast (drop_bit 8 irq AND 0xFF), ucast (irq AND 0xFF)]]"

lemma wpv_transmit:
  fixes h :: "'w hal"
  assumes "\<And>v' irq. \<lbrakk>v_init v; bs \<noteq> []; length bs \<le> unat (HW_MAX_PAYLOAD_LEN h);
        v_sent v' = v_sent v @ tx_frames (v_config v) bs @ fire_frame # done_frames irq;
        irq AND IRQ_TX_DONE \<noteq> 0\<rbrakk> \<Longrightarrow> Q () v'"
    and "\<And>e v' fs irq. \<lbrakk>v_sent v' = v_sent v @ fs;
        prefix fs (tx_frames (v_config v) bs)
        \<or> v_init v \<and> bs \<noteq> [] \<and> length bs \<le> unat (HW_MAX_PAYLOAD_LEN h) \<and>
          (\<exists>n. fs = tx_frames (v_config v) bs @ fire_frame # take n (done_frames irq))\<rbrakk> \<Longrightarrow> E e v'"
  shows "wpv (driver_transmit (recording h) bs) Q E v"
proof -
  have staged: "E e v'" if "v_init v" "bs \<noteq> []" "length bs \<le> unat (HW_MAX_PAYLOAD_LEN h)"
    "v_sent v' = v_sent v @ tx_frames (v_config v) bs @ fire_frame # take n (done_frames irq)" for e v' n irq
    using assms(2) [of v' "tx_frames (v_config v) bs @ fire_frame # take n (done_frames irq)" irq e] that by blast
  have stopped: "E e v'" if "prefix (v_sent v) (v_sent v')" "prefix (v_sent v') (v_sent v @ tx_frames (v_config v) bs)" for e v'
    using that by (auto elim!: prefixE intro!: assms(2) simp: append_assoc)
  note E0 = staged [where n = 0, simplified]
  have E1: "E e v'" if "v_init v" "bs \<noteq> []" "length bs \<le> unat (HW_MAX_PAYLOAD_LEN h)"
    "v_sent v' = v_sent v @ tx_frames (v_config v) bs @ [fire_frame, [GET_IRQ_STATUS, 0, 0, 0]]" for e v'
    using staged [of v' 1 0 e] that by (simp add: done_frames_def)
  note E2 = staged [where n = 2]
  show ?thesis
    unfolding driver_transmit_def fire_tx_def wait_tx_done_def wait_for_irq_def clear_irq_def
    apply (intro wp_rules)
    apply (simp_all add: stopped E0 E1 fire_frame_def [symmetric])
    apply (rule assms(1), simp_all add: done_frames_def fire_frame_def)
    apply (rule E2, simp_all add: done_frames_def fire_frame_def)
    done
qed

definition air_log :: "'w recorded driver \<Rightarrow> bytes list" where
  "air_log d = aired (view d)"

lemma transmit_refused:
  "\<not> initialised d \<Longrightarrow> driver_transmit h bs d = (Inl NotInitialised, d)"
  "\<lbrakk>initialised d; bs = [] \<or> unat (HW_MAX_PAYLOAD_LEN h) < length bs\<rbrakk>
   \<Longrightarrow> driver_transmit h bs d = (Inl InvalidConfig, d)"
  by (auto simp: driver_transmit_def prepare_tx_def seqE_def bindE_def getE_def throwE_def)

lemma air_fired:
  assumes "length bs \<le> 255"
  shows "air_out (fold air_step (tx_frames co bs @ fire_frame # take n (done_frames irq)) a) = air_out a @ [bs]"
proof -
  have tail: "air_out (fold air_step (take n (done_frames irq)) b) = air_out b" for b
    by (cases n; cases "n - 1") (simp_all add: done_frames_def air_step_def opcodes take_Cons')
  show ?thesis
    using air_staged [OF assms, of co a] tail
    by (simp add: air_step_def fire_frame_def opcodes)
qed

lemma transmit_log:
  "wpv (driver_transmit (recording h) bs)
     (\<lambda>_ v'. aired v' = aired v @ [bs])
     (\<lambda>_ v'. aired v' = aired v \<or> aired v' = aired v @ [bs]) v"
proof (rule wpv_transmit)
  fix v' :: view and irq
  assume "length bs \<le> unat (HW_MAX_PAYLOAD_LEN h)"
    and "v_sent v' = v_sent v @ tx_frames (v_config v) bs @ fire_frame # done_frames irq"
  then show "aired v' = aired v @ [bs]"
    using air_fired [of bs "v_config v" 2 irq "air_of (v_sent v)"] HW_MAX_le [of h]
    by (simp add: aired_def done_frames_def)
next
  fix e :: lora_error and v' :: view and fs irq
  assume fs: "v_sent v' = v_sent v @ fs"
    and "prefix fs (tx_frames (v_config v) bs)
      \<or> v_init v \<and> bs \<noteq> [] \<and> length bs \<le> unat (HW_MAX_PAYLOAD_LEN h) \<and>
        (\<exists>n. fs = tx_frames (v_config v) bs @ fire_frame # take n (done_frames irq))"
  then consider "prefix fs (tx_frames (v_config v) bs)"
    | n where "length bs \<le> 255" "fs = tx_frames (v_config v) bs @ fire_frame # take n (done_frames irq)"
    using HW_MAX_le [of h] order_trans by blast
  then show "aired v' = aired v \<or> aired v' = aired v @ [bs]"
  proof cases
    case 1
    then show ?thesis by (simp add: aired_def fs air_prefix)
  next
    case 2
    then show ?thesis unfolding aired_def fs air_of_append using air_fired by blast
  qed
qed

lemma air_log_transmit:
  "air_log (snd (driver_transmit (recording h) bs d)) = air_log d
   \<or> air_log (snd (driver_transmit (recording h) bs d)) = air_log d @ [bs]"
proof -
  let ?P = "\<lambda>v'. aired v' = aired (view d) \<or> aired v' = aired (view d) @ [bs]"
  have "wpv (driver_transmit (recording h) bs) (\<lambda>_. ?P) (\<lambda>_. ?P) (view d)"
    by (rule wpv_mono [OF transmit_log]) simp_all
  then have "?P (view (snd (driver_transmit (recording h) bs d)))" by (rule wpv_snd)
  then show ?thesis by (simp add: air_log_def)
qed

lemma air_log_silent:
  "air_log (snd (driver_configure (recording h) c d)) = air_log d"
  "air_log (snd (driver_arm_receive (recording h) d)) = air_log d"
  "air_log (snd (driver_read_packet (recording h) d)) = air_log d"
  "air_log (snd (driver_wait_rx_event (recording h) t d)) = air_log d"
  "air_log (snd (driver_init (recording h) d)) = air_log d"
  unfolding air_log_def
  by (rule wpv_snd, rule silent_configure silent_arm silent_read silent_wait silent_init, rule refl)+

text \<open>
  The driver over any hardware satisfies the radio contract: it airs at most the packet it was
  given, and only from \<open>transmit\<close>.
\<close>

interpretation sx1262: radio_contract "Sx1262 (recording h)" air_log "\<lambda>_. True"
  by unfold_locales (simp_all add: Sx1262_def air_log_silent air_log_transmit)

subsection \<open>Configuration and initialisation, frame by frame\<close>

definition reg_read_frame :: "u16 \<Rightarrow> bytes" where
  "reg_read_frame addr = [READ_REGISTER, ucast (drop_bit 8 addr), ucast addr, 0, 0]"

definition reg_write_frame :: "u16 \<Rightarrow> u8 \<Rightarrow> bytes" where
  "reg_write_frame addr v = [WRITE_REGISTER, ucast (drop_bit 8 addr AND 0xFF), ucast (addr AND 0xFF), v]"

text \<open>\<open>iq\<close> is what the bus answered when the polarity register was read.\<close>

definition configure_frames :: "lora_config \<Rightarrow> u8 \<Rightarrow> bytes list" where
  "configure_frames c iq =
     [[SET_STANDBY, STDBY_RC],
      SET_RF_FREQUENCY # freq_bytes (frequency_hz c),
      [CALIBRATE_IMAGE, fst (image_cal_params (frequency_hz c)), snd (image_cal_params (frequency_hz c))],
      SET_MODULATION_PARAMS # modulation_bytes c,
      reg_write_frame LORA_SYNC_WORD_MSB (fst (register_bytes (config_sync_word c))),
      reg_write_frame LORA_SYNC_WORD_LSB (snd (register_bytes (config_sync_word c))),
      reg_read_frame IQ_POLARITY,
      reg_write_frame IQ_POLARITY (iq_fixed (iq_inverted c) iq),
      [SET_PA_CONFIG, 0x04, 0x07, 0x00, 0x01],
      reg_write_frame OCP_CONFIGURATION 56,
      [SET_TX_PARAMS, tx_power_byte (tx_power_dbm c), 0x04]]"

lemma ocp_140: "ocp_value 140 = 56"
  by (simp add: ocp_value_def)

lemma wpv_configure [wp_rules]:
  assumes "\<And>iq v'. \<lbrakk>v_sent v' = v_sent v @ configure_frames c iq; v_config v' = Some c; \<not> v_rx v';
      v_init v' = v_init v; v_nss v'\<rbrakk> \<Longrightarrow> Q () v'"
    and "\<And>e n iq v'. \<lbrakk>v_sent v' = v_sent v @ take n (configure_frames c iq); v_config v' = v_config v; \<not> v_rx v';
      v_init v' = v_init v\<rbrakk> \<Longrightarrow> E e v'"
  shows "wpv (driver_configure (recording h) c) Q E v"
proof -
  note err = assms(2) [unfolded configure_frames_def reg_read_frame_def reg_write_frame_def]
  note E = err [where n = 0, simplified] err [where n = 1, simplified] err [where n = 2, simplified]
    err [where n = 3, simplified] err [where n = 4, simplified] err [where n = 5, simplified]
    err [where n = 6, simplified] err [where n = 7, simplified]
  show ?thesis
    unfolding driver_configure_def command_ops register_ops
    apply (intro wp_rules)
    apply (simp_all add: E ocp_140)
    apply (rule assms(1); simp add: configure_frames_def reg_read_frame_def reg_write_frame_def; fail)
    apply (rule err [where n = 10]; simp; fail | rule err [where n = 9]; simp; fail
      | rule err [where n = 8]; simp; fail)+
    done
qed

text \<open>The frames of a successful initialisation; \<open>clamp\<close> is the clamp register as it was read.\<close>

definition init_frames :: "'w hal \<Rightarrow> u8 \<Rightarrow> u8 \<Rightarrow> bytes list" where
  "init_frames h clamp iq =
     [[SET_STANDBY, STDBY_RC], [SET_REGULATOR_MODE, 0x01],
      [SET_DIO3_AS_TCXO_CTRL, VOLTAGE_CODE, 0x00, 0x01, 0x40], [CALIBRATE, CALIBRATE_ALL],
      [CLEAR_DEVICE_ERRORS, 0x00, 0x00],
      reg_read_frame TX_CLAMP_CONFIG, reg_write_frame TX_CLAMP_CONFIG (clamp OR 0x1E),
      [SET_DIO2_AS_RF_SWITCH_CTRL, 0x01], [SET_PACKET_TYPE, LORA], [SET_BUFFER_BASE_ADDRESS, 0x00, 0x00]]
     @ configure_frames default_lora_config iq @
     [[SET_STANDBY, STDBY_RC],
      SET_PACKET_PARAMS # packet_params (Some default_lora_config) (HW_MAX_PAYLOAD_LEN h),
      SET_DIO_IRQ_PARAMS # irq_bytes (IRQ_RX_DONE OR IRQ_TIMEOUT OR IRQ_CRC_ERR),
      [CLEAR_IRQ_STATUS, 0xFF, 0xFF], rx_frame]"

lemma wpv_init:
  assumes "\<And>clamp iq v'. \<lbrakk>v_sent v' = v_sent v @ init_frames h clamp iq;
      v_config v' = Some default_lora_config; v_rx v'; v_init v'; v_nss v'\<rbrakk> \<Longrightarrow> Q () v'"
    and "\<And>e v'. \<lbrakk>v_init v' = v_init v; \<not> v_rx v'\<rbrakk> \<Longrightarrow> E e v'" and "\<And>e. E e v"
  shows "wpv (driver_init (recording h)) Q E v"
  unfolding driver_init_def reset_def start_receive_mode_def calibrate_all_def clear_device_errors_def
    configure_tcxo_def configure_dio2_rf_switch_def set_regulator_mode_dcdc_def set_standby_internal_def
    set_packet_type_lora_def set_buffer_base_address_def set_packet_params_def configure_irq_def
    clear_irq_def apply_tx_clamp_workaround_def write_register_def Let_def
  by (intro wp_rules) (simp_all add: assms(2,3), rule assms(1),
    simp_all add: init_frames_def reg_read_frame_def reg_write_frame_def rx_frame_def)

subsection \<open>The host-test bus\<close>

definition logged :: "bus_event list \<Rightarrow> 'w recorded driver \<Rightarrow> 'w recorded driver" where
  "logged es d = d\<lparr>world := (world d)\<lparr>events := events (world d) @ es\<rparr>\<rparr>"

lemma logged_simps [simp]:
  "logged es (logged fs d) = logged (fs @ es) d"
  "initialised (logged es d) = initialised d" "in_continuous_rx (logged es d) = in_continuous_rx d"
  "config (logged es d) = config d" "events (world (logged es d)) = events (world d) @ es"
  "device (world (logged es d)) = device (world d)"
  "(logged es d)\<lparr>in_continuous_rx := b\<rparr> = logged es (d\<lparr>in_continuous_rx := b\<rparr>)"
  "(logged es d)\<lparr>config := c\<rparr> = logged es (d\<lparr>config := c\<rparr>)"
  "(logged es d)\<lparr>initialised := b\<rparr> = logged es (d\<lparr>initialised := b\<rparr>)"
  by (simp_all add: logged_def)

lemmas io_defs = returnE_def throwE_def bindE_def seqE_def getE_def modifyE_def

lemma idle_wait_not_busy:
  assumes "busy_is_low h = (\<lambda>w. (True, w))"
  shows "wait_not_busy (recording h) d = (Inr (), d)"
proof -
  have "poll_busy (recording h) (Suc m) d = (Inr (), d)" for m
    by (simp add: recording_def assms)
  from this [of 999] show ?thesis by (simp add: wait_not_busy_def)
qed

lemma host_wait_not_busy: "wait_not_busy (recording (host_test_hal n)) d = (Inr (), d)"
  by (rule idle_wait_not_busy) (simp add: host_test_hal_def)

lemma host_delay: "delayE (recording (host_test_hal n)) us d = (Inr (), logged [Delay us] d)"
  by (simp add: delayE_def worldE_def modifyE_def logged_def recording_def log_event_def host_test_hal_def)

lemma host_nss: "nssE (recording (host_test_hal n)) b d = (Inr (), logged [Nss b] d)"
  by (simp add: nssE_def worldE_def modifyE_def logged_def recording_def log_event_def host_test_hal_def)

lemma host_nrst: "worldE (set_nrst (recording (host_test_hal n)) b) d = (Inr (), logged [Nrst b] d)"
  by (simp add: worldE_def modifyE_def logged_def recording_def log_event_def host_test_hal_def)

lemma host_spi_write: "spi_writeE (recording (host_test_hal n)) bs d = (Inr (), logged [Frame bs True] d)"
  by (simp add: spi_writeE_def logged_def recording_def log_event_def host_test_hal_def)

lemma host_spi_transfer:
  "spi_transferE (recording (host_test_hal n)) bs d = (Inr (replicate (length bs) 0), logged [Frame bs True] d)"
  by (simp add: spi_transferE_def logged_def recording_def log_event_def host_test_hal_def)

lemma host_dio1: "wait_dio1 (recording (host_test_hal n)) t d = (Inl Timeout, d)"
  by (simp add: wait_dio1_def recording_def host_test_hal_def)

lemma host_write_command:
  "length bs \<le> 15 \<Longrightarrow> write_command (recording (host_test_hal n)) c bs d
   = (Inr (), logged [Nss False, Frame (c # bs) True, Nss True] d)"
  by (simp add: write_command_def io_defs host_wait_not_busy host_nss host_spi_write)

lemma host_read_register:
  "read_register (recording (host_test_hal n)) addr d
   = (Inr 0, logged [Nss False, Frame (reg_read_frame addr) True, Nss True] d)"
  by (simp add: read_register_def reg_read_frame_def io_defs host_wait_not_busy host_nss host_spi_transfer)

lemma host_write_buffer:
  "write_buffer (recording (host_test_hal n)) off bs d
   = (Inr (), logged [Nss False, Frame (WRITE_BUFFER # off # take 256 bs) True, Nss True] d)"
  by (simp add: write_buffer_def take_min_self io_defs host_wait_not_busy host_nss host_spi_write)

lemmas host_simps = host_wait_not_busy host_delay host_nss host_nrst host_spi_write host_spi_transfer
  host_dio1 host_write_command host_read_register host_write_buffer

subsection \<open>Numbers\<close>

lemma freq_reg_unat:
  assumes "unat f < 4096000000"
  shows "unat (freq_reg f) = unat f * 2 ^ 25 div 32000000"
proof -
  have p: "unat (ucast f * 33554432 :: u64) = unat f * 33554432"
    using assms by (subst unat_mult_fits) simp_all
  have q: "unat f * 33554432 div 32000000 < 2 ^ 32"
    using assms by (simp add: less_mult_imp_div_less)
  have "unat (freq_reg f) = take_bit 32 (unat f * 33554432 div 32000000)"
    unfolding freq_reg_def by (simp only: push_bit_of_1 unsigned_ucast_eq unat_div) (simp add: p)
  then show ?thesis using q by (simp only: take_bit_nat_eq_self) simp
qed

lemma sint_rssi: "sint (rssi_of b) = - int (unat b div 2)"
proof -
  have b: "unat b div 2 < 128" using unsigned_less [where 'a = nat, of b] by simp
  then have "(ucast b div 2 :: i16) = of_nat (unat b div 2)"
    by (simp add: word_unat_eq_iff unat_div unsigned_of_nat take_bit_nat_eq_self)
  moreover define z where "z = - int (unat b div 2)"
  ultimately have "rssi_of b = word_of_int z" "- 128 < z" "z \<le> 0"
    using b by (simp_all add: rssi_of_def)
  then have "sint (rssi_of b) = z" by (simp add: signed_of_int signed_take_bit_int_eq_self)
  then show ?thesis by (simp add: z_def)
qed

lemma sint_snr: "-32 \<le> sint (snr_of b) \<and> sint (snr_of b) \<le> 31"
proof -
  have b: "-128 \<le> sint b" "sint b < 128" using sint_ge [of b] sint_lt [of b] by simp_all
  let ?q = "if sint b < 0 then - (- sint b div 4) else sint b div 4"
  have q: "-32 \<le> ?q \<and> ?q \<le> 31" using b by auto
  then have "sint (snr_of b) = ?q"
    unfolding snr_of_def by (simp add: signed_of_int signed_take_bit_int_eq_self)
  then show ?thesis using q by simp
qed

subsection \<open>The properties\<close>

text \<open>
  C11. A transmission puts the packet on the air exactly as given, at most once, and only after
  validation: an uninitialised driver, an empty packet or one longer than the modem's one-byte
  length field (255) is refused before any bus traffic; otherwise the radio has sent nothing new
  or exactly this packet once, and it has sent it if the driver reports success. This holds for
  every behaviour of the bus, the pins and the timers.
\<close>

theorem transmit_airs_once:
  "case driver_transmit (recording h) bs d of (r, d') \<Rightarrow>
     if \<not> initialised d then r = Inl NotInitialised \<and> d' = d
     else if bs = [] \<or> unat (HW_MAX_PAYLOAD_LEN h) < length bs then r = Inl InvalidConfig \<and> d' = d
     else if is_ok r then air_log d' = air_log d @ [bs]
     else air_log d' = air_log d \<or> air_log d' = air_log d @ [bs]"
proof -
  obtain r d' where r: "driver_transmit (recording h) bs d = (r, d')" by force
  have "case r of Inr x \<Rightarrow> aired (view d') = aired (view d) @ [bs]
     | Inl e \<Rightarrow> aired (view d') = aired (view d) \<or> aired (view d') = aired (view d) @ [bs]"
    by (rule wpv_run [OF transmit_log r])
  then show ?thesis
    using transmit_refused [where h = "recording h" and bs = bs and d = d] r
    by (cases r) (auto simp: air_log_def)
qed

text \<open>
  C12. The receive flag never lies: after any sequence of calls through the trait on a new driver,
  over any hardware and through every error path, a driver that believes it is in continuous
  receive is initialised and the last mode the radio acknowledged is continuous receive. So
  \<open>arm_receive\<close> never skips re-arming a radio that has left it.
\<close>

theorem receive_flag_truthful:
  assumes "in_continuous_rx (calls (recording h) cs (build_driver w))"
  shows "last_mode (acked (events (world (calls (recording h) cs (build_driver w))))) = Some rx_frame
    \<and> initialised (calls (recording h) cs (build_driver w))"
proof -
  have "rx_true (view (build_driver w))" by (simp add: view_def build_driver_def new_driver_def)
  then have "rx_true (view (calls (recording h) cs (build_driver w)))" by (rule rx_true_calls)
  then show ?thesis using assms by (simp add: rx_true_def view_def)
qed

theorem receive_flag_truthful_witness:
  "in_continuous_rx (calls (recording (host_test_hal 256)) [CallInit, CallTransmit [1, 2], CallArm] (build_driver ()))
   \<and> last_mode (acked (events (world (calls (recording (host_test_hal 256))
       [CallInit, CallTransmit [1, 2], CallArm] (build_driver ()))))) = Some rx_frame"
proof -
  have "in_continuous_rx (calls (recording (host_test_hal 256)) [CallInit, CallTransmit [1, 2], CallArm] (build_driver ()))"
    by (simp add: calls_def Sx1262_def trait_ops prepare_tx_def command_ops register_ops host_simps io_defs)
  with receive_flag_truthful [OF this] show ?thesis by simp
qed

text \<open>
  C13. Initialisation sends exactly the documented sequence: standby, the DC-DC regulator, the TCXO
  before the recalibration that needs it, the cleared start-up error, the clamp erratum as a
  read-modify-write of what was read, the default configuration (image calibration after the
  frequency, the over-current limit after the power-amplifier command that resets it) and
  continuous receive; and it ends with the driver initialised, listening and configured.
\<close>

theorem init_sends_documented_sequence:
  assumes "driver_init (recording h) d = (Inr (), d')"
  shows "(\<exists>clamp iq. acked (events (world d')) = acked (events (world d)) @ init_frames h clamp iq)
    \<and> initialised d' \<and> in_continuous_rx d' \<and> config d' = Some default_lora_config"
proof -
  let ?Q = "\<lambda>v'. (\<exists>clamp iq. v_sent v' = v_sent (view d) @ init_frames h clamp iq)
    \<and> v_init v' \<and> v_rx v' \<and> v_config v' = Some default_lora_config"
  have "wpv (driver_init (recording h)) (\<lambda>_. ?Q) (\<lambda>_ _. True) (view d)"
    by (rule wpv_init) auto
  from wpv_run [OF this assms] show ?thesis by (simp add: view_def)
qed

theorem init_sends_documented_sequence_witness:
  "\<exists>clamp iq. acked (events (world (snd (driver_init (recording (host_test_hal 256)) (build_driver ())))))
     = init_frames (host_test_hal 256) clamp iq"
proof -
  have "fst (driver_init (recording (host_test_hal 256)) (build_driver ())) = Inr ()"
    by (simp add: trait_ops command_ops register_ops host_simps io_defs)
  then obtain d' where "driver_init (recording (host_test_hal 256)) (build_driver ()) = (Inr (), d')"
    by (metis prod.collapse)
  from init_sends_documented_sequence [OF this] this show ?thesis
    by (simp add: build_driver_def new_driver_def)
qed

text \<open>
  \<open>configure\<close> either sends the whole documented sequence for its argument and records it as
  the active configuration, or stops after a prefix of that sequence and keeps the configuration
  it had; on every path the radio is no longer considered listening.
\<close>

theorem configure_all_or_prefix:
  "case driver_configure (recording h) c d of (r, d') \<Rightarrow>
     \<not> in_continuous_rx d' \<and> initialised d' = initialised d \<and>
     (\<exists>n iq. acked (events (world d')) = acked (events (world d)) @ take n (configure_frames c iq)
       \<and> (if is_ok r then n = 11 \<and> config d' = Some c else config d' = config d))"
proof -
  obtain r d' where r: "driver_configure (recording h) c d = (r, d')" by force
  let ?P = "\<lambda>good v'. \<not> v_rx v' \<and> v_init v' = initialised d \<and>
     (\<exists>n iq. v_sent v' = v_sent (view d) @ take n (configure_frames c iq)
       \<and> (if good then n = 11 \<and> v_config v' = Some c else v_config v' = config d))"
  have eleven: "take 11 (configure_frames c iq) = configure_frames c iq" for iq
    by (simp add: configure_frames_def)
  have "wpv (driver_configure (recording h) c) (\<lambda>_. ?P True) (\<lambda>_. ?P False) (view d)"
  proof (rule wpv_configure)
    fix iq v'
    assume "v_sent v' = v_sent (view d) @ configure_frames c iq" "v_config v' = Some c" "\<not> v_rx v'"
      "v_init v' = v_init (view d)"
    then show "?P True v'" using eleven [of iq]
      by (intro conjI exI [of _ 11] exI [of _ iq]) (simp_all add: view_def)
  next
    fix e :: lora_error and n iq and v' :: view
    assume "v_sent v' = v_sent (view d) @ take n (configure_frames c iq)" "v_config v' = v_config (view d)"
      "\<not> v_rx v'" "v_init v' = v_init (view d)"
    then show "?P False v'" by (intro conjI exI [of _ n] exI [of _ iq]) (simp_all add: view_def)
  qed
  from wpv_run [OF this r] show ?thesis by (cases r) (auto simp: r view_def)
qed

text \<open>
  Chip select after a command: it is released in every case but one, an SPI failure of the
  write, which leaves it asserted; the register read releases it in that case too.
\<close>

theorem spi_failure_leaves_chip_selected:
  assumes "nss_level True (events (world d))"
  shows "(nss_level True (events (world (snd (write_command (recording h) c bs d))))
            \<longleftrightarrow> fst (write_command (recording h) c bs d) \<noteq> Inl SpiError)
    \<and> nss_level True (events (world (snd (read_register (recording h) addr d))))"
proof -
  have v: "v_nss (view d)" using assms by (simp add: view_def)
  have "wpv (write_command (recording h) c bs) (\<lambda>_. v_nss) (\<lambda>e v'. v_nss v' \<longleftrightarrow> e \<noteq> SpiError) (view d)"
  proof (cases "15 < length bs")
    case True
    then show ?thesis using v by (simp add: write_command_def wpv_throw)
  qed (use v in \<open>intro wp_rules; simp\<close>)
  note w = wpv_run [OF this prod.collapse [symmetric]]
  have "wpv (read_register (recording h) addr) (\<lambda>_. v_nss) (\<lambda>_. v_nss) (view d)"
    using v by (intro wp_rules) simp_all
  from w wpv_snd [OF this] show ?thesis
    by (cases "fst (write_command (recording h) c bs d)") (auto simp: view_def)
qed

text \<open>A bus whose writes fail, for the witness.\<close>

definition broken_hal :: "unit hal" where
  "broken_hal = (host_test_hal 256)\<lparr>spi_write := (\<lambda>_ w. (False, w)), spi_transfer := (\<lambda>_ w. (None, w))\<rparr>"

lemma broken_write:
  "fst (write_command (recording broken_hal) SET_STANDBY [0] (build_driver ())) = Inl SpiError"
proof -
  have "wait_not_busy (recording broken_hal) d = (Inr (), d)" for d
    by (rule idle_wait_not_busy) (simp add: broken_hal_def host_test_hal_def)
  then show ?thesis
    by (simp add: write_command_def io_defs nssE_def worldE_def spi_writeE_def)
      (simp add: recording_def broken_hal_def host_test_hal_def)
qed

theorem spi_failure_leaves_chip_selected_witness:
  "\<not> nss_level True (events (world (snd (write_command (recording broken_hal) SET_STANDBY [0] (build_driver ())))))"
  using spi_failure_leaves_chip_selected [of "build_driver ()" broken_hal SET_STANDBY "[0]"] broken_write
  by (simp add: build_driver_def new_driver_def)

text \<open>
  The frequency register holds the largest step not above the requested frequency (steps of
  32 MHz / 2^25, under one hertz) for every frequency below 4.096 GHz, and the four command bytes
  carry it most significant first.
\<close>

theorem frequency_register_exact:
  assumes "unat f < 4096000000"
  shows "unat (freq_reg f) * 32000000 \<le> unat f * 2 ^ 25
    \<and> unat f * 2 ^ 25 < (unat (freq_reg f) + 1) * 32000000
    \<and> (\<exists>a b c e. freq_bytes f = [a, b, c, e] \<and> from_be32 a b c e = freq_reg f)"
proof -
  have r: "unat (freq_reg f) = unat f * 2 ^ 25 div 32000000" using assms by (rule freq_reg_unat)
  have low: "unat (freq_reg f) * 32000000 \<le> unat f * 2 ^ 25"
    unfolding r by (rule div_times_less_eq_dividend)
  have high: "unat f * 2 ^ 25 < (unat (freq_reg f) + 1) * 32000000"
    unfolding r using dividend_less_div_times [of 32000000 "unat f * 2 ^ 25"] by simp
  have "freq_bytes f = to_be32 (freq_reg f)" by (simp add: freq_bytes_def to_be32_def)
  then show ?thesis using low high by (simp add: to_be32_def from_be32_to_be32)
qed

theorem frequency_register_exact_witness:
  "unat (freq_reg 869525000) * 32000000 \<le> 869525000 * 2 ^ 25"
  using frequency_register_exact [of 869525000] by simp

text \<open>
  A packet that is read is at most 255 bytes and within the wire limit, its signal strength is
  between -127 and 0 dBm and its signal-to-noise ratio between -32 and 31 dB; it is returned only
  when the interrupt status that was read, and then cleared with the same bits, has receive-done
  set and no CRC error; reading leaves the receive flag as it was.
\<close>

theorem read_packet_bounds:
  assumes "driver_read_packet (recording h) d = (Inr p, d')"
  shows "length (rx_data p) \<le> min 255 (max_lora_payload h)
    \<and> -127 \<le> sint (rx_rssi p) \<and> sint (rx_rssi p) \<le> 0
    \<and> -32 \<le> sint (rx_snr p) \<and> sint (rx_snr p) \<le> 31
    \<and> in_continuous_rx d' = in_continuous_rx d
    \<and> (\<exists>irq rest. irq AND IRQ_CRC_ERR = 0 \<and> irq AND IRQ_RX_DONE \<noteq> 0
         \<and> acked (events (world d')) = acked (events (world d)) @ done_frames irq @ rest)"
proof -
  have len: "unat n \<le> 255" for n :: u8 using unsigned_less [where 'a = nat, of n] by simp
  have rssi: "-127 \<le> sint (rssi_of b) \<and> sint (rssi_of b) \<le> 0" for b
    using len [of b] by (simp add: sint_rssi)
  let ?P = "\<lambda>p v'. length (rx_data p) \<le> min 255 (max_lora_payload h)
    \<and> -127 \<le> sint (rx_rssi p) \<and> sint (rx_rssi p) \<le> 0
    \<and> -32 \<le> sint (rx_snr p) \<and> sint (rx_snr p) \<le> 31 \<and> v_rx v' = v_rx (view d)
    \<and> (\<exists>irq rest. irq AND IRQ_CRC_ERR = 0 \<and> irq AND IRQ_RX_DONE \<noteq> 0
         \<and> v_sent v' = v_sent (view d) @ done_frames irq @ rest)"
  have "wpv (driver_read_packet (recording h)) ?P (\<lambda>_ _. True) (view d)"
    unfolding driver_read_packet_def get_rx_buffer_status_def get_packet_status_def clear_irq_def case_prod_beta
    by (intro wp_rules) (auto simp: done_frames_def len rssi sint_snr)
  from wpv_run [OF this assms] show ?thesis by (simp add: view_def)
qed

text \<open>A bus that answers reads as a radio holding the packet 1, 2, 3 would, for the witness.\<close>

definition packet_hal :: "unit hal" where
  "packet_hal = (host_test_hal 256)\<lparr>spi_transfer := (\<lambda>bs w.
     (Some (if hd bs = GET_IRQ_STATUS then [0, 0, 0, 2]
       else if hd bs = GET_RX_BUFFER_STATUS then [0, 0, 3, 0]
       else if hd bs = READ_BUFFER then [0, 0, 0, 1, 2, 3]
       else [0, 0, 100, 0xF0, 0]), w))\<rparr>"

theorem read_packet_bounds_witness:
  "\<exists>p. fst (driver_read_packet (recording packet_hal) (build_driver ())) = Inr p
     \<and> rx_data p = [1, 2, 3] \<and> sint (rx_rssi p) = -50 \<and> sint (rx_snr p) = -4 \<and> sint (rx_rssi p) \<le> 0"
proof -
  have idle: "wait_not_busy (recording packet_hal) d = (Inr (), d)" for d
    by (rule idle_wait_not_busy) (simp add: packet_hal_def host_test_hal_def)
  have max: "max_lora_payload packet_hal = 256"
    by (simp add: packet_hal_def host_test_hal_def)
  have nss: "nssE (recording packet_hal) b d = (Inr (), logged [Nss b] d)" for b d
    by (simp add: nssE_def worldE_def modifyE_def logged_def recording_def log_event_def packet_hal_def
        host_test_hal_def)
  have wr: "spi_writeE (recording packet_hal) bs d = (Inr (), logged [Frame bs True] d)" for bs d
    by (simp add: spi_writeE_def logged_def recording_def log_event_def packet_hal_def host_test_hal_def)
  have rd: "spi_transferE (recording packet_hal) bs d = (Inr (take (length bs)
      ((if hd bs = GET_IRQ_STATUS then [0, 0, 0, 2] else if hd bs = GET_RX_BUFFER_STATUS then [0, 0, 3, 0]
        else if hd bs = READ_BUFFER then [0, 0, 0, 1, 2, 3] else [0, 0, 100, 0xF0, 0])
        @ replicate (length bs) 0)), logged [Frame bs True] d)" for bs d
    by (simp add: spi_transferE_def logged_def recording_def log_event_def packet_hal_def host_test_hal_def)
  have rep: "replicate 2 (0 :: u8) = [0, 0]" "replicate 3 (0 :: u8) = [0, 0, 0]"
    by (simp_all add: numeral_2_eq_2 numeral_3_eq_3)
  have "\<exists>d'. driver_read_packet (recording packet_hal) (build_driver ())
      = (Inr \<lparr>rx_data = [1, 2, 3], rx_rssi = rssi_of 100, rx_snr = snr_of 0xF0\<rparr>, d')"
    by (simp add: driver_read_packet_def get_irq_status_def get_rx_buffer_status_def get_packet_status_def
        clear_irq_def read_command_def read_buffer_def write_command_def io_defs idle nss wr rd max
        opcodes extend_cap_def IRQ_CRC_ERR_def IRQ_RX_DONE_def rep)
  then obtain d' where r: "driver_read_packet (recording packet_hal) (build_driver ())
      = (Inr \<lparr>rx_data = [1, 2, 3], rx_rssi = rssi_of 100, rx_snr = snr_of 0xF0\<rparr>, d')" by blast
  from read_packet_bounds [OF this] r show ?thesis by (simp add: sint_rssi snr_of_def)
qed

text \<open>
  Waiting for a receive event is cancel-safe by construction: over any hardware it causes no bus
  traffic, no pin change and no delay, and it changes nothing of the driver but the time that
  passes.
\<close>

theorem wait_rx_event_is_silent:
  "events (world (snd (driver_wait_rx_event (recording h) t d))) = events (world d)
   \<and> (snd (driver_wait_rx_event (recording h) t d))\<lparr>world := world d\<rparr> = d"
  by (simp add: driver_wait_rx_event_def wait_dio1_def io_defs recording_def split: prod.split pin_wait.split)

end
