(* ===== verification/Dispatcher.thy ===== *)
theory Dispatcher imports Messages Duty_Cycle Sx1262_Driver begin

text \<open>
  The command dispatcher (\<open>src/dispatcher/handler.rs\<close>): host commands in, responses out, with the
  active radio configuration and the duty-cycle budget as its state. The dispatcher works on any radio \<open>R\<close>; what it needs of one is the contract of
  \<open>Lora_Traits\<close>. Debug output is left out.
\<close>

subsection \<open>The dispatcher\<close>

record dispatcher =
  disp_config :: lora_config
  disp_duty :: duty_limiter

definition new_dispatcher :: dispatcher where
  "new_dispatcher =
     \<lparr>disp_config = default_lora_config, disp_duty = for_frequency (frequency_hz default_lora_config)\<rparr>"

definition handle_get_version :: response where
  "handle_get_version = Version VERSION_MAJOR VERSION_MINOR VERSION_PATCH"

definition lora_error_to_response :: "lora_error \<Rightarrow> command_id \<Rightarrow> response" where
  "lora_error_to_response e cid =
     ErrorResponse (case e of Timeout \<Rightarrow> StTimeout | InvalidConfig \<Rightarrow> StInvalidLength | _ \<Rightarrow> StLoraError) cid"

definition radio_config_response :: "dispatcher \<Rightarrow> response" where
  "radio_config_response d =
     (let c = disp_config d
      in RadioConfig (frequency_hz c) (spreading_factor c) (bandwidth_khz c) (coding_rate c) (tx_power_dbm c))"

definition packet_airtime :: "lora_config \<Rightarrow> bytes \<Rightarrow> u32" where
  "packet_airtime c bs = time_on_air_ms (spreading_factor c) (bandwidth_khz c) (coding_rate c) (length bs)"

definition retry_secs :: "u64 option \<Rightarrow> u32" where
  "retry_secs r = (case r of
       Some ms \<Rightarrow> ucast (min (div_ceil ms 1000) (ucast u32_MAX - 1))
     | None \<Rightarrow> u32_MAX)"

definition handle_lora_tx ::
  "'r lora_radio \<Rightarrow> bytes \<Rightarrow> u64 \<Rightarrow> dispatcher \<times> 'r \<Rightarrow> response \<times> dispatcher \<times> 'r" where
  "handle_lora_tx R bs now_ms = (\<lambda>(d, r).
     let airtime_ms = packet_airtime (disp_config d) bs
     in case try_claim (disp_duty d) now_ms airtime_ms of
          (Inl exceeded, duty) \<Rightarrow>
            (TxRefused (retry_secs (retry_after_ms exceeded)), d\<lparr>disp_duty := duty\<rparr>, r)
        | (Inr _, duty) \<Rightarrow>
            (case transmit R bs r of
               (Inr _, r') \<Rightarrow> (TxComplete, d\<lparr>disp_duty := duty\<rparr>, r')
             | (Inl e, r') \<Rightarrow> (lora_error_to_response e IdLoraTx, d\<lparr>disp_duty := duty\<rparr>, r')))"

definition handle_set_spreading_factor ::
  "'r lora_radio \<Rightarrow> u8 \<Rightarrow> dispatcher \<times> 'r \<Rightarrow> response \<times> dispatcher \<times> 'r" where
  "handle_set_spreading_factor R sf = (\<lambda>(d, r).
     if \<not> (7 \<le> sf \<and> sf \<le> 12) then (ErrorResponse StInvalidParameter IdSetSpreadingFactor, d, r)
     else let c = (disp_config d)\<lparr>spreading_factor := sf\<rparr>
          in case configure R c r of
               (Inl e, r') \<Rightarrow> (lora_error_to_response e IdSetSpreadingFactor, d, r')
             | (Inr _, r') \<Rightarrow>
                 let d' = d\<lparr>disp_config := c\<rparr> in (radio_config_response d', d', r'))"

fun dispatch ::
  "'r lora_radio \<Rightarrow> command \<Rightarrow> u64 \<Rightarrow> dispatcher \<times> 'r \<Rightarrow> response \<times> dispatcher \<times> 'r" where
  "dispatch R GetVersion now_ms (d, r) = (handle_get_version, d, r)"
| "dispatch R Reboot now_ms (d, r) = (ErrorResponse StInvalidCommand (command_id_of Reboot), d, r)"
| "dispatch R (LoraTx bs) now_ms (d, r) = handle_lora_tx R bs now_ms (d, r)"
| "dispatch R (SetSpreadingFactor sf) now_ms (d, r) = handle_set_spreading_factor R sf (d, r)"
| "dispatch R GetRadioConfig now_ms (d, r) = (radio_config_response d, d, r)"

subsection \<open>The invariant\<close>

text \<open>
  Only the spreading factor ever changes: the frequency, and with it the ten percent budget, the
  bandwidth and the coding rate stay the defaults.
\<close>

definition dispatcher_ok :: "dispatcher \<Rightarrow> bool" where
  "dispatcher_ok d \<longleftrightarrow> limiter_ok (disp_duty d) \<and> allowance_ms (disp_duty d) = Some 360000
     \<and> (\<exists>sf. 7 \<le> sf \<and> sf \<le> 12 \<and> disp_config d = default_lora_config\<lparr>spreading_factor := sf\<rparr>)"

lemma default_allowance: "allowance_ms (for_frequency (frequency_hz default_lora_config)) = Some 360000"
  by (simp add: for_frequency_def eu_duty_cycle_permille_def in_band_def default_lora_config_def FREQUENCY_HZ_def)

lemma dispatcher_ok_new: "dispatcher_ok new_dispatcher"
  unfolding dispatcher_ok_def new_dispatcher_def
  by (simp add: limiter_ok_for_frequency default_allowance, rule exI [of _ SPREADING_FACTOR])
    (simp add: default_lora_config_def SPREADING_FACTOR_def)

lemma dispatcher_ok_charge:
  "dispatcher_ok d \<Longrightarrow> dispatcher_ok (d\<lparr>disp_duty := snd (try_claim (disp_duty d) now_ms a)\<rparr>)"
  by (simp add: dispatcher_ok_def duty.claim_inv duty.claim_allowance)

lemma dispatcher_ok_sf:
  "\<lbrakk>dispatcher_ok d; 7 \<le> sf; sf \<le> 12\<rbrakk>
   \<Longrightarrow> dispatcher_ok (d\<lparr>disp_config := (disp_config d)\<lparr>spreading_factor := sf\<rparr>\<rparr>)"
  by (auto simp: dispatcher_ok_def)

lemma handle_lora_tx_duty:
  "fst (snd (handle_lora_tx R bs now_ms (d, r)))
   = d\<lparr>disp_duty := snd (try_claim (disp_duty d) now_ms (packet_airtime (disp_config d) bs))\<rparr>"
  by (simp add: handle_lora_tx_def Let_def split: prod.split sum.split)

lemma dispatch_ok:
  "dispatcher_ok d \<Longrightarrow> dispatcher_ok (fst (snd (dispatch R c now_ms (d, r))))"
  by (cases c) (simp_all add: handle_lora_tx_duty dispatcher_ok_charge handle_set_spreading_factor_def
      Let_def dispatcher_ok_sf split: prod.split sum.split)

subsection \<open>Serving a sequence of commands\<close>

text \<open>
  \<open>serve\<close> dispatches timestamped commands one after the other and logs, for every packet whose
  claim was granted, the time, the configuration it was charged for and the payload.
\<close>

type_synonym charge = "nat \<times> lora_config \<times> bytes"

definition charged_airtime :: "charge \<Rightarrow> nat \<times> nat" where
  "charged_airtime = (\<lambda>(t, c, bs). (t, unat (packet_airtime c bs)))"

definition payload :: "charge \<Rightarrow> bytes" where
  "payload = (\<lambda>(t, c, bs). bs)"

definition charge_of :: "dispatcher \<Rightarrow> command \<Rightarrow> u64 \<Rightarrow> charge list" where
  "charge_of d c now_ms = (case c of
       LoraTx bs \<Rightarrow> if is_ok (fst (try_claim (disp_duty d) now_ms (packet_airtime (disp_config d) bs)))
                   then [(unat now_ms, disp_config d, bs)] else []
     | _ \<Rightarrow> [])"

fun serve ::
  "'r lora_radio \<Rightarrow> (u64 \<times> command) list \<Rightarrow> dispatcher \<times> 'r \<Rightarrow> charge list
   \<Rightarrow> (dispatcher \<times> 'r) \<times> charge list" where
  "serve R [] st log = (st, log)"
| "serve R ((now_ms, c) # cs) st log =
     serve R cs (snd (dispatch R c now_ms st)) (log @ charge_of (fst st) c now_ms)"

text \<open>The budget: the charges of a run obey the bound of the limiter.\<close>

lemma dispatch_log_inv:
  assumes inv: "log_inv (disp_duty d) A (map charged_airtime log)" and mono: "head_start_ms (disp_duty d) \<le> now_ms"
    and r: "dispatch R c now_ms (d, r) = (resp, d', r')"
  shows "log_inv (disp_duty d') A (map charged_airtime (log @ charge_of d c now_ms))
    \<and> head_start_ms (disp_duty d') \<le> now_ms"
proof (cases c)
  case (LoraTx bs)
  let ?a = "packet_airtime (disp_config d) bs"
  have d': "disp_duty d' = snd (try_claim (disp_duty d) now_ms ?a)"
    using r LoraTx handle_lora_tx_duty [of R bs now_ms d r] by simp
  have "map charged_airtime (log @ charge_of d c now_ms)
      = (if is_ok (fst (try_claim (disp_duty d) now_ms ?a))
         then map charged_airtime log @ [(unat now_ms, unat ?a)] else map charged_airtime log)"
    by (simp add: LoraTx charge_of_def charged_airtime_def)
  then show ?thesis using log_inv_claim [OF inv mono prod.collapse [symmetric]] d' by simp
next
  case (SetSpreadingFactor sf)
  then have "disp_duty d' = disp_duty d"
    using r by (auto simp: handle_set_spreading_factor_def Let_def split: if_splits prod.splits sum.splits)
  then show ?thesis using inv mono SetSpreadingFactor by (simp add: charge_of_def)
qed (use inv mono r in \<open>simp_all add: charge_of_def\<close>)

lemma serve_bounded:
  assumes "log_inv (disp_duty d) A (map charged_airtime log)" "sorted (map fst cs)"
    and "\<forall>c \<in> set cs. head_start_ms (disp_duty d) \<le> fst c"
  shows "granted_within x (x + 3540000) (map charged_airtime (snd (serve R cs (d, r) log))) \<le> unat A"
  using assms
proof (induction cs arbitrary: d r log)
  case (Cons e cs)
  obtain now c where e: "e = (now, c)" by force
  obtain resp d' r' where r: "dispatch R c now (d, r) = (resp, d', r')" by (metis prod_cases3)
  have "head_start_ms (disp_duty d) \<le> now" using Cons.prems(3) e by simp
  note step = dispatch_log_inv [OF Cons.prems(1) this r]
  then have "granted_within x (x + 3540000)
      (map charged_airtime (snd (serve R cs (d', r') (log @ charge_of d c now)))) \<le> unat A"
    using Cons.prems(2) e by (intro Cons.IH) (auto intro: order_trans)
  then show ?case by (simp add: e r)
qed (simp add: log_inv_bound)

text \<open>
  On a radio that keeps the contract, what goes on the air is a subsequence of what was charged;
  on an atomic radio each packet is charged at the modulation the radio has.
\<close>

context radio_contract
begin

lemma dispatch_airs:
  assumes "ok r" and "dispatch R c now_ms (d, r) = (resp, d', r')"
  shows "ok r' \<and> (\<exists>ps. aired r' = aired r @ ps \<and> subseq ps (map payload (charge_of d c now_ms)))"
proof (cases c)
  case (LoraTx bs)
  let ?cl = "try_claim (disp_duty d) now_ms (packet_airtime (disp_config d) bs)"
  show ?thesis
  proof (cases "fst ?cl")
    case (Inl e)
    then have "r' = r" using assms(2) LoraTx
      by (auto simp: handle_lora_tx_def Let_def split: prod.splits)
    then show ?thesis using assms(1) by auto
  next
    case (Inr u)
    then have r': "r' = snd (transmit R bs r)" using assms(2) LoraTx
      by (auto simp: handle_lora_tx_def Let_def split: prod.splits sum.splits)
    have ch: "map payload (charge_of d c now_ms) = [bs]" using Inr
      by (simp add: LoraTx charge_of_def payload_def)
    from transmit_airs [OF assms(1), of bs] show ?thesis
    proof
      assume "aired (snd (transmit R bs r)) = aired r"
      then show ?thesis using r' transmit_ok [OF assms(1)] by simp
    next
      assume "aired (snd (transmit R bs r)) = aired r @ [bs]"
      then show ?thesis using r' transmit_ok [OF assms(1)] ch by simp
    qed
  qed
next
  case (SetSpreadingFactor sf)
  then have "r' = r \<or> r' = snd (configure R ((disp_config d)\<lparr>spreading_factor := sf\<rparr>) r)"
    using assms(2) by (auto simp: handle_set_spreading_factor_def Let_def split: if_splits prod.splits sum.splits)
  then show ?thesis using configure_ok configure_silent assms(1) by auto
qed (use assms in auto)

lemma serve_airs:
  "ok r \<Longrightarrow> ok (snd (fst (serve R cs (d, r) log))) \<and>
   (\<exists>ps qs. aired (snd (fst (serve R cs (d, r) log))) = aired r @ ps
      \<and> snd (serve R cs (d, r) log) = log @ qs \<and> subseq ps (map payload qs))"
proof (induction cs arbitrary: d r log)
  case (Cons e cs)
  obtain now c where e: "e = (now, c)" by force
  obtain resp d' r' where r: "dispatch R c now (d, r) = (resp, d', r')" by (metis prod_cases3)
  obtain ps where ps: "ok r'" "aired r' = aired r @ ps" "subseq ps (map payload (charge_of d c now))"
    using dispatch_airs [OF Cons.prems r] by auto
  obtain ps' qs' where "ok (snd (fst (serve R cs (d', r') (log @ charge_of d c now))))"
    "aired (snd (fst (serve R cs (d', r') (log @ charge_of d c now)))) = aired r' @ ps'"
    "snd (serve R cs (d', r') (log @ charge_of d c now)) = (log @ charge_of d c now) @ qs'"
    "subseq ps' (map payload qs')"
    using Cons.IH [OF ps(1), of d' "log @ charge_of d c now"] by blast
  note tail = this
  have "subseq (ps @ ps') (map payload (charge_of d c now @ qs'))"
    using ps(3) tail(4) by (simp add: list_emb_append_mono)
  moreover have "serve R (e # cs) (d, r) log = serve R cs (d', r') (log @ charge_of d c now)"
    by (simp add: e r)
  ultimately show ?case using ps(2) tail(1-3) by (metis append.assoc)
qed auto

end

context atomic_radio
begin

lemma dispatch_modulation:
  assumes "ok r" "modulation r = Some (disp_config d)" and "dispatch R c now_ms (d, r) = (resp, d', r')"
  shows "modulation r' = Some (disp_config d')"
proof (cases c)
  case (LoraTx bs)
  then have "disp_config d' = disp_config d" "r' = r \<or> r' = snd (transmit R bs r)"
    using assms(3) by (auto simp: handle_lora_tx_def Let_def split: prod.splits sum.splits)
  then show ?thesis using assms(1,2) transmit_modulation by auto
next
  case (SetSpreadingFactor sf)
  let ?c = "(disp_config d)\<lparr>spreading_factor := sf\<rparr>"
  show ?thesis
  proof (cases "7 \<le> sf \<and> sf \<le> 12")
    case True
    obtain q r'' where q: "configure R ?c r = (q, r'')" by force
    show ?thesis
    proof (cases q)
      case (Inl e)
      then have "r' = r''" "d' = d"
        using assms(3) SetSpreadingFactor True q by (simp_all add: handle_set_spreading_factor_def)
      then show ?thesis using assms(1,2) configure_fails q Inl by simp
    next
      case (Inr u)
      then have "r' = r''" "disp_config d' = ?c"
        using assms(3) SetSpreadingFactor True q by (auto simp: handle_set_spreading_factor_def Let_def)
      then show ?thesis using assms(1) configure_applies q Inr by simp
    qed
  next
    case False
    then have "r' = r" "d' = d"
      using assms(3) SetSpreadingFactor by (simp_all add: handle_set_spreading_factor_def)
    then show ?thesis using assms(2) by simp
  qed
qed (use assms in auto)

end

subsection \<open>The refusal hint\<close>

lemma airtime_small:
  assumes "dispatcher_ok d" "length bs \<le> 255"
  shows "packet_airtime (disp_config d) bs \<le> 360000"
proof -
  obtain sf where sf: "7 \<le> sf" "sf \<le> 12" "disp_config d = default_lora_config\<lparr>spreading_factor := sf\<rparr>"
    using assms(1) by (auto simp: dispatcher_ok_def)
  then have "packet_airtime (disp_config d) bs = time_on_air_ms sf 250 8 (length bs)"
    by (simp add: packet_airtime_def default_lora_config_def BANDWIDTH_KHZ_def CODING_RATE_def)
  then show ?thesis using time_on_air_default_bound [OF sf(1,2) assms(2)] by (simp add: word_le_nat_alt)
qed

lemma retry_secs_bounds:
  assumes "0 < w" "w \<le> 3600000"
  shows "1 \<le> unat (retry_secs (Some w)) \<and> unat (retry_secs (Some w)) \<le> 3600
    \<and> unat w \<le> unat (retry_secs (Some w)) * 1000"
proof -
  have w: "0 < unat w" "unat w \<le> 3600000" using assms by (simp_all add: word_le_nat_alt word_less_nat_alt)
  have dc: "unat (div_ceil w 1000) = (unat w + 999) div 1000" using w by (subst unat_div_ceil) simp_all
  also have "\<dots> \<le> 3600" using w by simp
  finally have le: "unat (div_ceil w 1000) \<le> 3600" .
  then have "min (div_ceil w 1000) (ucast u32_MAX - 1) = div_ceil w 1000"
    by (intro min_absorb1) (simp add: u32_MAX_def word_le_nat_alt)
  then have "unat (retry_secs (Some w)) = (unat w + 999) div 1000"
    using le dc by (simp add: retry_secs_def unsigned_ucast_eq take_bit_nat_eq_self)
  moreover have "1 \<le> (n + 999) div 1000 \<and> n \<le> (n + 999) div 1000 * 1000" if "0 < n" for n :: nat
    using that by linarith
  moreover have "(unat w + 999) div 1000 \<le> 3600" using w by simp
  ultimately show ?thesis using w(1) by metis
qed

lemma refused_retry:
  assumes ok: "dispatcher_ok d" and len: "length bs \<le> 255"
    and mono: "head_start_ms (disp_duty d) \<le> now_ms" and far: "now_ms < 2 ^ 62"
    and r: "handle_lora_tx R bs now_ms (d, r) = (TxRefused secs, d', r')"
  shows "r' = r \<and> 1 \<le> unat secs \<and> unat secs \<le> 3600
    \<and> (\<forall>s. fst (handle_lora_tx R bs (now_ms + ucast secs * 1000) (d', r)) \<noteq> TxRefused s)"
proof -
  let ?a = "packet_airtime (disp_config d) bs"
  have aA: "?a \<le> 360000" by (rule airtime_small [OF ok len])
  have lim: "limiter_ok (disp_duty d)" "allowance_ms (disp_duty d) = Some 360000"
    using ok by (simp_all add: dispatcher_ok_def)
  have "now_ms < 2 ^ 63" using far by (simp add: word_less_nat_alt)
  obtain e duty where cl: "try_claim (disp_duty d) now_ms ?a = (Inl e, duty)" "secs = retry_secs (retry_after_ms e)"
    "d' = d\<lparr>disp_duty := duty\<rparr>" "r' = r"
    using r by (auto simp: handle_lora_tx_def Let_def lora_error_to_response_def split: prod.splits sum.splits)
  obtain w where w: "retry_after_ms e = Some w" "0 < w" "w \<le> 3600000" "is_ok (fst (try_claim duty (now_ms + w) ?a))"
    using try_claim_retry [OF lim mono \<open>now_ms < 2 ^ 63\<close>, of ?a "retry_after_ms e" duty] cl aA
    by (cases e) (auto simp: not_less [symmetric])
  note b = retry_secs_bounds [OF w(2,3), folded w(1), folded cl(2)]
  have s: "unat (ucast secs * 1000 :: u64) = unat secs * 1000" using b by (subst unat_mult_fits) simp_all
  have n: "unat now_ms < 2 ^ 62" using far by (simp add: word_less_nat_alt)
  have "now_ms + w \<le> now_ms + ucast secs * 1000"
    using b n s w(3) by (simp add: word_le_nat_alt unat_add_fits)
  moreover have "limiter_ok duty" "allowance_ms duty = Some 360000"
    using duty.claim_inv [OF lim(1), of now_ms ?a] duty.claim_allowance [OF lim(1), of now_ms ?a] cl(1) lim(2)
    by simp_all
  ultimately have "is_ok (fst (try_claim duty (now_ms + ucast secs * 1000) ?a))"
    using granted_later aA w(4) by blast
  then show ?thesis using b cl(3,4)
    by (auto simp: handle_lora_tx_def Let_def lora_error_to_response_def split: prod.splits sum.splits)
qed

subsection \<open>The properties\<close>

text \<open>
  Regulatory safety of the host path, end to end: whatever commands the host sends, in whatever
  order, and whatever the hardware does, the packets the SX1262 puts on the air are a subsequence
  of the packets that were charged, and the airtime charged within any 59 minutes is at most the
  360 seconds of the ten percent band.
\<close>

theorem aired_packets_are_charged_and_bounded:
  assumes "sorted (map fst cs)"
    and "serve (Sx1262 (recording h)) cs (new_dispatcher, r) [] = ((d', r'), log)"
  shows "(\<exists>ps. air_log r' = air_log r @ ps \<and> subseq ps (map payload log))
    \<and> granted_within x (x + 3540000) (map charged_airtime log) \<le> 360000"
proof -
  have start: "log_inv (disp_duty new_dispatcher) 360000 (map charged_airtime [])"
    using log_inv_fresh [OF default_allowance] by (simp add: new_dispatcher_def)
  have "head_start_ms (disp_duty new_dispatcher) = 0"
    by (simp add: new_dispatcher_def for_frequency_def)
  then have "granted_within x (x + 3540000) (map charged_airtime log) \<le> 360000"
    using serve_bounded [OF start assms(1), of x "Sx1262 (recording h)" r] assms(2) by simp
  moreover have "\<exists>ps. air_log r' = air_log r @ ps \<and> subseq ps (map payload log)"
    using sx1262.serve_airs [where r = r and h = h and cs = cs and d = new_dispatcher and log = "[]"] assms(2) by auto
  ultimately show ?thesis by blast
qed

theorem aired_packets_are_charged_and_bounded_witness:
  "granted_within 0 3540000 (map charged_airtime (snd (serve (Sx1262 (recording (host_test_hal 256)))
     [(0, SetSpreadingFactor 12), (5, LoraTx [1, 2, 3])] (new_dispatcher, build_driver ()) []))) \<le> 360000"
proof -
  let ?s = "serve (Sx1262 (recording (host_test_hal 256))) [(0, SetSpreadingFactor 12), (5, LoraTx [1, 2, 3])]
    (new_dispatcher, build_driver ()) []"
  obtain d' r' log where s: "?s = ((d', r'), log)" by (metis prod.collapse)
  show ?thesis using aired_packets_are_charged_and_bounded [OF _ s, of 0] s by simp
qed

text \<open>
  A refused transmission is told when to come back, and the hint is sufficient: nothing
  reaches the radio, the hint is between one second and one hour, and the same packet sent that
  many seconds later is not refused. The value that means "never" cannot occur for a packet the
  modem can carry.
\<close>

theorem refused_packet_goes_through_later:
  assumes "dispatcher_ok d" and "length bs \<le> 255"
    and "head_start_ms (disp_duty d) \<le> now_ms" and "now_ms < 2 ^ 62"
    and "dispatch R (LoraTx bs) now_ms (d, r) = (TxRefused secs, d', r')"
  shows "r' = r \<and> 1 \<le> unat secs \<and> unat secs \<le> 3600
    \<and> (\<forall>s. fst (dispatch R (LoraTx bs) (now_ms + ucast secs * 1000) (d', r)) \<noteq> TxRefused s)"
  using refused_retry [OF assms(1-4)] assms(5) by simp

definition spent_dispatcher :: dispatcher where
  "spent_dispatcher = new_dispatcher\<lparr>disp_duty := snd (try_claim (disp_duty new_dispatcher) 0 360000)\<rparr>"

theorem refused_packet_goes_through_later_witness:
  "let (resp, d', r') = dispatch (NullRadio (\<lambda>_ r. r)) (LoraTx [1, 2, 3]) 1000 (spent_dispatcher, ())
   in resp = TxRefused 3599
      \<and> fst (dispatch (NullRadio (\<lambda>_ r. r)) (LoraTx [1, 2, 3]) (1000 + 3599 * 1000) (d', ())) \<noteq> resp"
proof -
  have ok: "dispatcher_ok spent_dispatcher"
    unfolding spent_dispatcher_def by (intro dispatcher_ok_charge dispatcher_ok_new)
  have hs: "head_start_ms (disp_duty spent_dispatcher) \<le> 1000" by code_simp
  have air: "packet_airtime (disp_config spent_dispatcher) [1, 2, 3] = 232"
    by (simp add: spent_dispatcher_def new_dispatcher_def packet_airtime_def default_lora_config_def
        SPREADING_FACTOR_def BANDWIDTH_KHZ_def CODING_RATE_def time_on_air_ms_def time_on_air_ms_ext_def
        Let_def clamp_sf_def cr_index_def ldro_enabled_def bandwidth_hz_def PREAMBLE_SYMBOLS_def div_ceil_def)
  have "fst (try_claim (disp_duty spent_dispatcher) 1000 232) = Inl (DutyCycleExceeded (Some 3599000))"
    by code_simp
  then obtain duty where cl: "try_claim (disp_duty spent_dispatcher) 1000 232
      = (Inl (DutyCycleExceeded (Some 3599000)), duty)" by (metis prod.collapse)
  have "retry_secs (Some 3599000) = 3599"
    by (simp add: retry_secs_def div_ceil_def u32_MAX_def)
  then have f: "fst (dispatch (NullRadio (\<lambda>_ r. r)) (LoraTx [1, 2, 3]) 1000 (spent_dispatcher, ())) = TxRefused 3599"
    by (simp add: handle_lora_tx_def air cl)
  obtain x d' u where x: "dispatch (NullRadio (\<lambda>_ r. r)) (LoraTx [1, 2, 3]) 1000 (spent_dispatcher, ())
      = (x, d', u)" by (rule prod_cases3)
  have r: "dispatch (NullRadio (\<lambda>_ r. r)) (LoraTx [1, 2, 3]) 1000 (spent_dispatcher, ())
      = (TxRefused 3599, d', ())" using f unfolding x by simp
  have "fst (dispatch (NullRadio (\<lambda>_ r. r)) (LoraTx [1, 2, 3]) (1000 + ucast (3599 :: u32) * 1000) (d', ()))
      \<noteq> TxRefused 3599"
    using refused_packet_goes_through_later [OF ok _ hs _ r] by simp
  then show ?thesis unfolding r by simp
qed

text \<open>
  Changing the spreading factor, on every branch: outside 7 to 12 the radio is not touched and
  nothing changes; if the radio refuses, the dispatcher keeps the configuration it had; otherwise
  exactly the spreading factor changes and the new configuration is reported. The duty-cycle
  budget is never reset by it, and the dispatcher invariant is kept by every command.
\<close>

theorem set_spreading_factor_branches:
  assumes "dispatcher_ok d"
  shows "case dispatch R (SetSpreadingFactor sf) now_ms (d, r) of (resp, d', r') \<Rightarrow>
    dispatcher_ok d' \<and> disp_duty d' = disp_duty d \<and>
    (if sf < 7 \<or> 12 < sf
     then resp = ErrorResponse StInvalidParameter IdSetSpreadingFactor \<and> d' = d \<and> r' = r
     else case configure R ((disp_config d)\<lparr>spreading_factor := sf\<rparr>) r of
         (Inl e, r'') \<Rightarrow> resp = lora_error_to_response e IdSetSpreadingFactor \<and> d' = d \<and> r' = r''
       | (Inr _, r'') \<Rightarrow> r' = r'' \<and> disp_config d' = (disp_config d)\<lparr>spreading_factor := sf\<rparr>
           \<and> resp = radio_config_response d')"
  using assms
  by (auto simp: handle_set_spreading_factor_def Let_def not_le dispatcher_ok_sf split: prod.split sum.split)

theorem set_spreading_factor_branches_witness:
  "spreading_factor (disp_config (fst (snd (dispatch (MockLoraRadio 256 0) (SetSpreadingFactor 7) 0
     (new_dispatcher, new_mock))))) = 7"
  using set_spreading_factor_branches [OF dispatcher_ok_new, where R = "MockLoraRadio 256 0" and sf = 7 and now_ms = 0 and r = new_mock]
  by (simp add: handle_set_spreading_factor_def Let_def MockLoraRadio_def mock_configure_def new_mock_def)

text \<open>
  The last modulation command the radio acknowledged, and hardware whose power-amplifier command
  fails from the moment its state turns bad.
\<close>

definition last_modulation :: "bytes list \<Rightarrow> bytes option" where
  "last_modulation fs = find (\<lambda>bs. bs \<noteq> [] \<and> hd bs = SET_MODULATION_PARAMS) (rev fs)"

definition flaky_hal :: "bool hal" where
  "flaky_hal =
     \<lparr>spi_write = (\<lambda>bs healthy. (healthy \<or> hd bs \<noteq> SET_PA_CONFIG, healthy)),
      spi_transfer = (\<lambda>bs w. (Some (replicate (length bs) 0), w)),
      set_nss = (\<lambda>_ w. w), set_nrst = (\<lambda>_ w. w), busy_is_low = (\<lambda>w. (True, w)),
      dio1_wait_high = (\<lambda>_ w. (PinTimeout, w)), delay_us = (\<lambda>_ w. w), instant_now = (\<lambda>_. 0),
      max_lora_payload = 256\<rparr>"

definition bus_fault :: "bool recorded driver \<Rightarrow> bool recorded driver" where
  "bus_fault d = d\<lparr>world := (world d)\<lparr>device := False\<rparr>\<rparr>"

lemma flaky_pins:
  "wait_not_busy (recording flaky_hal) d = (Inr (), d)"
  "nssE (recording flaky_hal) b d = (Inr (), logged [Nss b] d)"
  "delayE (recording flaky_hal) us d = (Inr (), logged [Delay us] d)"
  "worldE (set_nrst (recording flaky_hal) b) d = (Inr (), logged [Nrst b] d)"
  by (rule idle_wait_not_busy, simp add: flaky_hal_def)
    (simp_all add: nssE_def delayE_def worldE_def modifyE_def logged_def recording_def log_event_def flaky_hal_def)

lemma flaky_spi:
  "spi_writeE (recording flaky_hal) bs d =
     (if device (world d) \<or> hd bs \<noteq> SET_PA_CONFIG then (Inr (), logged [Frame bs True] d)
      else (Inl SpiError, logged [Frame bs False] d))"
  "spi_transferE (recording flaky_hal) bs d = (Inr (replicate (length bs) 0), logged [Frame bs True] d)"
  by (simp_all add: spi_writeE_def spi_transferE_def logged_def recording_def log_event_def flaky_hal_def)

lemma flaky_simps:
  "length bs \<le> 15 \<Longrightarrow> device (world d) \<or> c \<noteq> SET_PA_CONFIG \<Longrightarrow> write_command (recording flaky_hal) c bs d
     = (Inr (), logged [Nss False, Frame (c # bs) True, Nss True] d)"
  "length bs \<le> 15 \<Longrightarrow> \<not> device (world d) \<Longrightarrow> write_command (recording flaky_hal) SET_PA_CONFIG bs d
     = (Inl SpiError, logged [Nss False, Frame (SET_PA_CONFIG # bs) False] d)"
  "read_register (recording flaky_hal) addr d
     = (Inr 0, logged [Nss False, Frame (reg_read_frame addr) True, Nss True] d)"
  by (simp_all add: write_command_def read_register_def reg_read_frame_def io_defs flaky_pins flaky_spi)

lemma pa_distinct:
  "SET_STANDBY \<noteq> SET_PA_CONFIG" "SET_RX \<noteq> SET_PA_CONFIG" "SET_REGULATOR_MODE \<noteq> SET_PA_CONFIG"
  "CLEAR_DEVICE_ERRORS \<noteq> SET_PA_CONFIG" "SET_RF_FREQUENCY \<noteq> SET_PA_CONFIG"
  "SET_PACKET_TYPE \<noteq> SET_PA_CONFIG" "SET_MODULATION_PARAMS \<noteq> SET_PA_CONFIG"
  "SET_PACKET_PARAMS \<noteq> SET_PA_CONFIG" "SET_BUFFER_BASE_ADDRESS \<noteq> SET_PA_CONFIG"
  "SET_DIO3_AS_TCXO_CTRL \<noteq> SET_PA_CONFIG" "SET_DIO2_AS_RF_SWITCH_CTRL \<noteq> SET_PA_CONFIG"
  "CALIBRATE \<noteq> SET_PA_CONFIG" "CALIBRATE_IMAGE \<noteq> SET_PA_CONFIG" "SET_TX_PARAMS \<noteq> SET_PA_CONFIG"
  "WRITE_REGISTER \<noteq> SET_PA_CONFIG" "CLEAR_IRQ_STATUS \<noteq> SET_PA_CONFIG" "SET_DIO_IRQ_PARAMS \<noteq> SET_PA_CONFIG"
  by (simp_all add: opcodes)

lemma flaky_init: "fst (driver_init (recording flaky_hal) (build_driver True)) = Inr ()"
proof -
  have healthy: "device (world (build_driver True))" by (simp add: build_driver_def new_driver_def)
  show ?thesis
    by (simp add: trait_ops command_ops register_ops flaky_simps flaky_pins io_defs healthy)
qed

definition flaky_events :: "lora_config \<Rightarrow> bus_event list" where
  "flaky_events c = concat (map (\<lambda>bs. [Nss False, Frame bs True, Nss True]) (take 8 (configure_frames c 0)))
     @ [Nss False, Frame [SET_PA_CONFIG, 0x04, 0x07, 0x00, 0x01] False]"

lemma flaky_configure:
  assumes "\<not> device (world d)"
  shows "driver_configure (recording flaky_hal) c d
      = (Inl SpiError, logged (flaky_events c) (d\<lparr>in_continuous_rx := False\<rparr>))"
  using assms
  by (simp add: driver_configure_def command_ops register_ops io_defs flaky_simps pa_distinct
      flaky_events_def configure_frames_def reg_write_frame_def)

lemma flaky_modulation:
  "last_modulation (acked es @ acked (flaky_events c)) = Some (SET_MODULATION_PARAMS # modulation_bytes c)"
  by (simp add: last_modulation_def flaky_events_def configure_frames_def reg_read_frame_def
      reg_write_frame_def opcodes)

text \<open>
  A failed reconfiguration can leave the radio on the new modulation while the dispatcher goes
  on charging the old one: when the bus starts failing after the initialisation, a host command for
  SF12 whose power-amplifier write fails is answered with an error and the dispatcher still computes with SF11,
  but the last modulation the radio acknowledged is SF12, at which a full packet stays on the air
  for nearly twice the time it is charged for.
\<close>

theorem failed_reconfiguration_undercharges:
  "case dispatch (Sx1262 (recording flaky_hal)) (SetSpreadingFactor 12) 0
      (new_dispatcher, bus_fault (snd (driver_init (recording flaky_hal) (build_driver True)))) of
     (resp, d', r') \<Rightarrow>
       resp = ErrorResponse StLoraError IdSetSpreadingFactor \<and> initialised r' \<and>
       disp_config d' = default_lora_config \<and> config r' = Some default_lora_config \<and>
       last_modulation (acked (events (world r')))
         = Some (SET_MODULATION_PARAMS # modulation_bytes (default_lora_config\<lparr>spreading_factor := 12\<rparr>)) \<and>
       unat (time_on_air_ms 11 250 8 255) = 3247 \<and> unat (time_on_air_ms 12 250 8 255) = 7017"
proof -
  obtain d where d: "driver_init (recording flaky_hal) (build_driver True) = (Inr (), d)"
    using flaky_init by (metis prod.collapse)
  have st: "initialised (bus_fault d)" "config (bus_fault d) = Some default_lora_config"
    using init_sends_documented_sequence [OF d] by (simp_all add: bus_fault_def)
  have fault: "\<not> device (world (bus_fault d))" by (simp add: bus_fault_def)
  have air: "unat (time_on_air_ms 11 250 8 255) = 3247" "unat (time_on_air_ms 12 250 8 255) = 7017"
    by (simp_all add: time_on_air_ms_def toa_exact toa_spec_def toa_blocks_def ceil_div_def clamp_sf_def
        ldro_enabled_def bandwidth_hz_def cr_index_def PREAMBLE_SYMBOLS_def)
  show ?thesis
    by (simp add: d flaky_configure [OF fault] flaky_modulation st air handle_set_spreading_factor_def Sx1262_def
        new_dispatcher_def lora_error_to_response_def)
qed

end
