(* ===== verification/Board_Tasks.thy ===== *)
theory Board_Tasks imports Prelude begin

text \<open>
  The tasks that only serve others: the LED (\<open>src/tasks/led.rs\<close>) and the administrator
  (\<open>src/tasks/admin.rs\<close>). Each takes messages from a bounded channel; what it does to the board is a
  list of actions, the timers among them.
\<close>

subsection \<open>The LED\<close>

definition LED_FLASH_MS :: u64 where "LED_FLASH_MS = 50"
definition LED_CHANNEL_SIZE :: nat where "LED_CHANNEL_SIZE = 4"

datatype led_flash = DefaultFlash | FlashMs u64

datatype board_action = PinLevel bool | WaitMs u64 | SoftwareReset

definition flash_led :: "led_flash list \<Rightarrow> led_flash list" where
  "flash_led q = (case try_send LED_CHANNEL_SIZE DefaultFlash q of Some q' \<Rightarrow> q' | None \<Rightarrow> q)"

fun flash_ms :: "led_flash \<Rightarrow> u64" where
  "flash_ms DefaultFlash = LED_FLASH_MS"
| "flash_ms (FlashMs ms) = ms"

text \<open>One turn of the task: a flash is off for its time and then on again (the pin is active low).\<close>

fun led_turn :: "led_flash list \<Rightarrow> board_action list \<times> led_flash list" where
  "led_turn [] = ([], [])"
| "led_turn (f # q) = ([PinLevel True, WaitMs (flash_ms f), PinLevel False], q)"

lemma flash_led_bound: "length q \<le> LED_CHANNEL_SIZE \<Longrightarrow> length (flash_led q) \<le> LED_CHANNEL_SIZE"
  by (simp add: flash_led_def try_send_def)

subsection \<open>The administrator\<close>

datatype admin_command = AdminReboot

definition ADMIN_CHANNEL_SIZE :: nat where "ADMIN_CHANNEL_SIZE = 4"

definition reboot :: "board_action list" where
  "reboot = [SoftwareReset]"

fun admin_turn :: "admin_command list \<Rightarrow> board_action list" where
  "admin_turn [] = []"
| "admin_turn (AdminReboot # q) = WaitMs 500 # reboot"

end
