(* ===== verification/Lora_Task.thy ===== *)
theory Lora_Task imports Dispatcher Board_Tasks begin

text \<open>
  The radio task of bridge mode (\<open>src/tasks/lora.rs\<close>): it keeps the radio listening, publishes what
  it receives and serves the command queue through the dispatcher. The task works on any radio that
  keeps the contract of \<open>Lora_Traits\<close>. Published messages are a list, oldest first; every subscriber
  sees its own suffix of it. Debug output is left out.
\<close>

subsection \<open>The task\<close>

definition RX_POLL_INTERVAL_MS :: u32 where "RX_POLL_INTERVAL_MS = 500"

record 'r lora_task =
  lt_disp :: dispatcher
  lt_radio :: 'r
  lt_arm_failure_logged :: bool
  lt_commands :: "command_envelope list"
  lt_leds :: "led_flash list"
  lt_admin :: "admin_command list"
  lt_published :: "response_message list"

text \<open>The radio is initialised; the task goes on even when that fails.\<close>

definition lora_start :: "'r lora_radio \<Rightarrow> 'r \<Rightarrow> 'r lora_task" where
  "lora_start R r =
     \<lparr>lt_disp = new_dispatcher, lt_radio = snd (radio_init R r), lt_arm_failure_logged = False,
      lt_commands = [], lt_leds = [], lt_admin = [], lt_published = []\<rparr>"

definition queue_reboot :: "admin_command list \<Rightarrow> admin_command list" where
  "queue_reboot q = (case try_send ADMIN_CHANNEL_SIZE AdminReboot q of Some q' \<Rightarrow> q' | None \<Rightarrow> q)"

definition handle_command :: "'r lora_radio \<Rightarrow> u64 \<Rightarrow> command_envelope \<Rightarrow> 'r lora_task \<Rightarrow> 'r lora_task" where
  "handle_command R now_ms envelope t =
     (let t = t\<lparr>lt_leds := flash_led (lt_leds t)\<rparr>
      in if env_command envelope = Reboot then t\<lparr>lt_admin := queue_reboot (lt_admin t)\<rparr>
         else
           let (response, d, r) = dispatch R (env_command envelope) now_ms (lt_disp t, lt_radio t)
           in t\<lparr>lt_disp := d, lt_radio := r,
                lt_published := lt_published t @
                  [CommandResponse (env_source envelope) (env_sequence_id envelope) response]\<rparr>)"

definition publish_packet :: "rx_packet \<Rightarrow> 'r lora_task \<Rightarrow> 'r lora_task" where
  "publish_packet p t =
     t\<lparr>lt_leds := flash_led (lt_leds t),
       lt_published := lt_published t @ [Unsolicited (RxPacket (rx_data p) (rx_rssi p) (rx_snr p))]\<rparr>"

text \<open>
  What the task waits for: the radio, or a queued command, dispatched at the given time. When a
  command wins, the wait on the radio is abandoned after it may have taken time.
\<close>

datatype lora_event = LoraRadioWakes | LoraCommand u64

definition lora_turn :: "'r lora_radio \<Rightarrow> lora_event \<Rightarrow> 'r lora_task \<Rightarrow> 'r lora_task" where
  "lora_turn R e t =
     (let (armed, r) = arm_receive R (lt_radio t);
          t = t\<lparr>lt_radio := r, lt_arm_failure_logged := \<not> is_ok armed\<rparr>
      in case e of
           LoraRadioWakes \<Rightarrow>
             (case wait_rx_event R RX_POLL_INTERVAL_MS r of
                (Inl _, r) \<Rightarrow> t\<lparr>lt_radio := r\<rparr>
              | (Inr _, r) \<Rightarrow>
                  (case read_packet R r of
                     (Inl _, r) \<Rightarrow> t\<lparr>lt_radio := r\<rparr>
                   | (Inr p, r) \<Rightarrow> publish_packet p (t\<lparr>lt_radio := r\<rparr>)))
         | LoraCommand now_ms \<Rightarrow>
             (case lt_commands t of
                [] \<Rightarrow> t
              | envelope # q \<Rightarrow>
                  handle_command R now_ms envelope
                    (t\<lparr>lt_radio := snd (wait_rx_event R RX_POLL_INTERVAL_MS r), lt_commands := q\<rparr>)))"

text \<open>Other tasks queue commands between the turns; a full queue refuses them.\<close>

datatype lora_step = LoraTurn lora_event | LoraEnqueue command_envelope

fun lora_do :: "'r lora_radio \<Rightarrow> lora_step \<Rightarrow> 'r lora_task \<Rightarrow> 'r lora_task" where
  "lora_do R (LoraTurn e) t = lora_turn R e t"
| "lora_do R (LoraEnqueue envelope) t =
     (case try_send COMMAND_CHANNEL_SIZE envelope (lt_commands t) of
        Some q \<Rightarrow> t\<lparr>lt_commands := q\<rparr> | None \<Rightarrow> t)"

subsection \<open>Charges\<close>

text \<open>The packets a step charges: those of the command it serves.\<close>

fun charges_of :: "lora_step \<Rightarrow> 'r lora_task \<Rightarrow> charge list" where
  "charges_of (LoraTurn (LoraCommand now_ms)) t =
     (case lt_commands t of [] \<Rightarrow> [] | envelope # q \<Rightarrow> charge_of (lt_disp t) (env_command envelope) now_ms)"
| "charges_of s t = []"

fun lora_run :: "'r lora_radio \<Rightarrow> lora_step list \<Rightarrow> 'r lora_task \<Rightarrow> charge list \<Rightarrow> 'r lora_task \<times> charge list" where
  "lora_run R [] t log = (t, log)"
| "lora_run R (s # ss) t log = lora_run R ss (lora_do R s t) (log @ charges_of s t)"

fun lora_clock :: "u64 \<Rightarrow> lora_step list \<Rightarrow> bool" where
  "lora_clock now [] = True"
| "lora_clock now (LoraTurn (LoraCommand t) # ss) = (now \<le> t \<and> lora_clock t ss)"
| "lora_clock now (s # ss) = lora_clock now ss"

lemma handle_command_cases:
  obtains (reboot) "env_command e = Reboot" "lt_disp (handle_command R now e t) = lt_disp t"
      "lt_radio (handle_command R now e t) = lt_radio t"
      "lt_published (handle_command R now e t) = lt_published t"
  | (served) response d r where "env_command e \<noteq> Reboot"
      "dispatch R (env_command e) now (lt_disp t, lt_radio t) = (response, d, r)"
      "lt_disp (handle_command R now e t) = d" "lt_radio (handle_command R now e t) = r"
      "lt_published (handle_command R now e t)
         = lt_published t @ [CommandResponse (env_source e) (env_sequence_id e) response]"
proof (cases "env_command e = Reboot")
  case True
  then show ?thesis by (intro reboot) (simp_all add: handle_command_def)
next
  case False
  obtain response d r where d: "dispatch R (env_command e) now (lt_disp t, lt_radio t) = (response, d, r)"
    by (metis prod_cases3)
  with False show ?thesis by (intro served [OF False d]) (simp_all add: handle_command_def)
qed

lemma handle_command_commands [simp]: "lt_commands (handle_command R now e t) = lt_commands t"
  by (simp add: handle_command_def Let_def split: prod.split)

lemma publish_packet_frame [simp]:
  "lt_disp (publish_packet p t) = lt_disp t" "lt_radio (publish_packet p t) = lt_radio t"
  "lt_commands (publish_packet p t) = lt_commands t"
  "lt_published (publish_packet p t)
     = lt_published t @ [Unsolicited (RxPacket (rx_data p) (rx_rssi p) (rx_snr p))]"
  by (simp_all add: publish_packet_def)

text \<open>A turn without a command to serve leaves the dispatcher and the queue alone.\<close>

lemma idle_turn:
  "e = LoraRadioWakes \<or> lt_commands t = [] \<Longrightarrow>
   lt_disp (lora_turn R e t) = lt_disp t \<and> lt_commands (lora_turn R e t) = lt_commands t
   \<and> (\<exists>ms. lt_published (lora_turn R e t) = lt_published t @ map Unsolicited ms)"
  by (cases e) (auto simp: lora_turn_def Let_def intro: exI [of _ "[]"] exI [of _ "[RxPacket _ _ _]"]
      split: prod.split sum.split)

lemma command_turn:
  assumes "lt_commands t = e # q"
  shows "\<exists>u. lora_turn R (LoraCommand now) t = handle_command R now e
      (t\<lparr>lt_arm_failure_logged := u,
         lt_radio := snd (wait_rx_event R RX_POLL_INTERVAL_MS (snd (arm_receive R (lt_radio t)))), lt_commands := q\<rparr>)"
  by (cases "arm_receive R (lt_radio t)") (auto simp: lora_turn_def assms)

lemma enqueue_step:
  "lt_disp (lora_do R (LoraEnqueue e) t) = lt_disp t" "lt_radio (lora_do R (LoraEnqueue e) t) = lt_radio t"
  "lt_published (lora_do R (LoraEnqueue e) t) = lt_published t"
  "lt_commands (lora_do R (LoraEnqueue e) t)
     = lt_commands t @ (if length (lt_commands t) < COMMAND_CHANNEL_SIZE then [e] else [])"
  by (simp_all add: try_send_def)

subsection \<open>What goes on the air\<close>

context radio_contract
begin

lemma listen_airs:
  assumes "ok (lt_radio t)" "e = LoraRadioWakes \<or> lt_commands t = []"
  shows "ok (lt_radio (lora_turn R e t)) \<and> aired (lt_radio (lora_turn R e t)) = aired (lt_radio t)"
proof -
  obtain a r where a: "arm_receive R (lt_radio t) = (a, r)" by force
  have r: "ok r" "aired r = aired (lt_radio t)" using arm_ok [OF assms(1)] arm_silent [OF assms(1)] a by simp_all
  obtain w r1 where w: "wait_rx_event R RX_POLL_INTERVAL_MS r = (w, r1)" by force
  have r1: "ok r1" "aired r1 = aired r"
    using wait_ok [OF r(1), of RX_POLL_INTERVAL_MS] wait_silent [OF r(1), of RX_POLL_INTERVAL_MS] w by simp_all
  obtain p r2 where p: "read_packet R r1 = (p, r2)" by force
  have r2: "ok r2" "aired r2 = aired r1" using read_ok [OF r1(1)] read_silent [OF r1(1)] p by simp_all
  show ?thesis using assms r r1 r2
    by (cases e; cases w; cases p) (auto simp: lora_turn_def a w p)
qed

lemma command_airs:
  assumes "ok (lt_radio t)" "lt_commands t = e # q"
  shows "ok (lt_radio (lora_turn R (LoraCommand now) t)) \<and>
    (\<exists>ps. aired (lt_radio (lora_turn R (LoraCommand now) t)) = aired (lt_radio t) @ ps
      \<and> subseq ps (map payload (charge_of (lt_disp t) (env_command e) now)))"
proof -
  let ?r = "snd (arm_receive R (lt_radio t))"
  let ?r' = "snd (wait_rx_event R RX_POLL_INTERVAL_MS ?r)"
  have r: "ok ?r" "aired ?r = aired (lt_radio t)" using arm_ok [OF assms(1)] arm_silent [OF assms(1)] by simp_all
  have r': "ok ?r'" "aired ?r' = aired (lt_radio t)" using wait_ok [OF r(1)] wait_silent [OF r(1)] r(2) by simp_all
  obtain t1 where turn: "lora_turn R (LoraCommand now) t = handle_command R now e t1"
    and t1: "lt_radio t1 = ?r'" "lt_disp t1 = lt_disp t"
    using command_turn [OF assms(2), of R now] by force
  show ?thesis
  proof (cases rule: handle_command_cases [where e = e and R = R and now = now and t = t1])
    case reboot
    then show ?thesis using r' t1 by (simp add: turn exI [of _ "[]"])
  next
    case (served response d rr)
    have "dispatch R (env_command e) now (lt_disp t, ?r') = (response, d, rr)" using served(2) t1 by simp
    from dispatch_airs [OF r'(1) this] show ?thesis by (simp add: turn served(4) r'(2))
  qed
qed

lemma step_airs:
  assumes "ok (lt_radio t)"
  shows "ok (lt_radio (lora_do R s t)) \<and>
    (\<exists>ps. aired (lt_radio (lora_do R s t)) = aired (lt_radio t) @ ps \<and> subseq ps (map payload (charges_of s t)))"
proof (cases s)
  case (LoraEnqueue e)
  then show ?thesis using assms enqueue_step(2) [of R e t] by simp
next
  case (LoraTurn e)
  show ?thesis
  proof (cases "\<exists>now env q. e = LoraCommand now \<and> lt_commands t = env # q")
    case True
    then show ?thesis using command_airs [OF assms] LoraTurn by auto
  next
    case False
    then have "e = LoraRadioWakes \<or> lt_commands t = []" by (cases e; cases "lt_commands t") auto
    from listen_airs [OF assms this] show ?thesis by (simp add: LoraTurn exI [of _ "[]"])
  qed
qed

lemma lora_run_airs:
  "ok (lt_radio t) \<Longrightarrow> \<exists>ps cs. aired (lt_radio (fst (lora_run R ss t log))) = aired (lt_radio t) @ ps
     \<and> snd (lora_run R ss t log) = log @ cs \<and> subseq ps (map payload cs)"
proof (induction ss arbitrary: t log)
  case (Cons s ss)
  from step_airs [OF Cons.prems, of s] obtain ps where
    s: "ok (lt_radio (lora_do R s t))" "aired (lt_radio (lora_do R s t)) = aired (lt_radio t) @ ps"
      "subseq ps (map payload (charges_of s t))" by blast
  from Cons.IH [OF s(1), of "log @ charges_of s t"] obtain qs cs where
    r: "aired (lt_radio (fst (lora_run R ss (lora_do R s t) (log @ charges_of s t)))) = aired (lt_radio (lora_do R s t)) @ qs"
      "snd (lora_run R ss (lora_do R s t) (log @ charges_of s t)) = (log @ charges_of s t) @ cs" "subseq qs (map payload cs)"
    by blast
  show ?case using r s(2) list_emb_append_mono [OF s(3) r(3)]
    by (intro exI [of _ "ps @ qs"] exI [of _ "charges_of s t @ cs"]) simp
qed simp

end

lemma other_step:
  assumes "\<not> (\<exists>ms env q. s = LoraTurn (LoraCommand ms) \<and> lt_commands t = env # q)"
  shows "lt_disp (lora_do R s t) = lt_disp t \<and> charges_of s t = []"
proof (cases s)
  case (LoraEnqueue e)
  then show ?thesis using enqueue_step(1) [of R e t] by simp
next
  case (LoraTurn e)
  then have "e = LoraRadioWakes \<or> lt_commands t = []" using assms by (cases e; cases "lt_commands t") auto
  then show ?thesis using idle_turn [of e t R] by (cases e) (auto simp: LoraTurn)
qed

lemma lora_run_bounded:
  assumes "log_inv (disp_duty (lt_disp t)) A (map charged_airtime log)" "lora_clock now ss"
    and "head_start_ms (disp_duty (lt_disp t)) \<le> now"
  shows "granted_within x (x + 3540000) (map charged_airtime (snd (lora_run R ss t log))) \<le> unat A"
  using assms
proof (induction ss arbitrary: t log now)
  case (Cons s ss)
  let ?now = "case s of LoraTurn (LoraCommand ms) \<Rightarrow> ms | _ \<Rightarrow> now"
  have clock: "lora_clock ?now ss" "now \<le> ?now"
    using Cons.prems(2) by (auto split: lora_step.splits lora_event.splits)
  have "log_inv (disp_duty (lt_disp (lora_do R s t))) A (map charged_airtime (log @ charges_of s t))
    \<and> head_start_ms (disp_duty (lt_disp (lora_do R s t))) \<le> ?now"
  proof (cases "\<exists>ms env q. s = LoraTurn (LoraCommand ms) \<and> lt_commands t = env # q")
    case True
    then obtain ms env q where s: "s = LoraTurn (LoraCommand ms)" "lt_commands t = env # q" by blast
    obtain t1 where t1: "lora_turn R (LoraCommand ms) t = handle_command R ms env t1" "lt_disp t1 = lt_disp t"
      using command_turn [OF s(2), of R ms] by force
    have le: "head_start_ms (disp_duty (lt_disp t)) \<le> ms" using Cons.prems(3) clock(2) s(1) by auto
    show ?thesis
    proof (cases rule: handle_command_cases [where e = env and R = R and now = ms and t = t1])
      case reboot
      then show ?thesis using Cons.prems(1) le s t1 by (simp add: charge_of_def)
    next
      case (served response d r)
      have "dispatch R (env_command env) ms (lt_disp t, lt_radio t1) = (response, d, r)" using served(2) t1(2) by simp
      from dispatch_log_inv [OF Cons.prems(1) le this] show ?thesis using served(3) s t1(1) by simp
    qed
  next
    case False
    then have "lt_disp (lora_do R s t) = lt_disp t \<and> charges_of s t = []" by (intro other_step) blast
    then show ?thesis using Cons.prems(1,3) clock(2) by auto
  qed
  then show ?case using Cons.IH [OF _ clock(1)] by simp
qed (simp add: log_inv_bound)

subsection \<open>Answers\<close>

text \<open>
  Who asked and with which sequence number: the requests still queued, the answers published, and
  the commands the queue took in a run. A reboot is not answered.
\<close>

definition request_key :: "command_envelope \<Rightarrow> (command_source \<times> u16) list" where
  "request_key e = (if env_command e = Reboot then [] else [(env_source e, env_sequence_id e)])"

fun answer_key :: "response_message \<Rightarrow> (command_source \<times> u16) list" where
  "answer_key (CommandResponse src i r) = [(src, i)]"
| "answer_key _ = []"

definition requested :: "'r lora_task \<Rightarrow> (command_source \<times> u16) list" where
  "requested t = concat (map request_key (lt_commands t))"

definition answered :: "'r lora_task \<Rightarrow> (command_source \<times> u16) list" where
  "answered t = concat (map answer_key (lt_published t))"

fun taken :: "'r lora_radio \<Rightarrow> lora_step list \<Rightarrow> 'r lora_task \<Rightarrow> command_envelope list" where
  "taken R [] t = []"
| "taken R (s # ss) t =
     (case s of LoraEnqueue e \<Rightarrow> if length (lt_commands t) < COMMAND_CHANNEL_SIZE then [e] else [] | LoraTurn _ \<Rightarrow> [])
     @ taken R ss (lora_do R s t)"

lemma answered_unsolicited: "concat (map answer_key (map Unsolicited ms)) = []"
  by (induction ms) simp_all

lemma turn_answers: "answered (lora_turn R e t) @ requested (lora_turn R e t) = answered t @ requested t"
proof (cases "\<exists>ms env q. e = LoraCommand ms \<and> lt_commands t = env # q")
  case True
  then obtain ms env q where e: "e = LoraCommand ms" "lt_commands t = env # q" by blast
  obtain t1 where t1: "lora_turn R (LoraCommand ms) t = handle_command R ms env t1" "lt_commands t1 = q"
    "lt_published t1 = lt_published t"
    using command_turn [OF e(2), of R ms] by force
  show ?thesis
    by (cases rule: handle_command_cases [where e = env and R = R and now = ms and t = t1])
      (simp_all add: e t1 answered_def requested_def request_key_def)
next
  case False
  then have "e = LoraRadioWakes \<or> lt_commands t = []" by (cases e; cases "lt_commands t") auto
  from idle_turn [OF this, of R] answered_unsolicited show ?thesis
    by (auto simp: answered_def requested_def)
qed

lemma do_answers:
  "answered (lora_do R s t) @ requested (lora_do R s t) = answered t @ requested t
     @ concat (map request_key (case s of
         LoraEnqueue e \<Rightarrow> if length (lt_commands t) < COMMAND_CHANNEL_SIZE then [e] else [] | LoraTurn _ \<Rightarrow> []))"
proof (cases s)
  case (LoraTurn e)
  then show ?thesis using turn_answers [of R e t] by simp
next
  case (LoraEnqueue e)
  show ?thesis using enqueue_step(3,4) [of R e t] by (simp add: LoraEnqueue answered_def requested_def)
qed

text \<open>At boot nothing has been sent or charged.\<close>

lemma started_silent: "air_log (lt_radio (lora_start (Sx1262 (recording h)) (build_driver w))) = []"
  by (simp add: lora_start_def Sx1262_def air_log_silent)
    (simp add: air_log_def build_driver_def new_driver_def view_def aired_def air_of_def)

lemma lora_start_duty:
  "log_inv (disp_duty (lt_disp (lora_start R r))) 360000 (map charged_airtime [])"
  "head_start_ms (disp_duty (lt_disp (lora_start R r))) \<le> 0"
  using log_inv_fresh [OF default_allowance] by (simp_all add: lora_start_def new_dispatcher_def for_frequency_def)

subsection \<open>The properties\<close>

text \<open>
  C5. The radio of bridge mode keeps the duty cycle, task and all: from boot, whatever commands are
  queued, whatever the radio receives and whatever the hardware does, the packets the SX1262 puts
  on the air are a subsequence of the packets the dispatcher charged, and the airtime charged
  within any 59 minutes is at most the 360 seconds of the ten percent band.
\<close>

theorem lora_task_keeps_the_duty_cycle:
  assumes "lora_clock 0 ss"
    and "lora_run (Sx1262 (recording h)) ss (lora_start (Sx1262 (recording h)) (build_driver w)) [] = (t, log)"
  shows "subseq (air_log (lt_radio t)) (map payload log)
    \<and> granted_within x (x + 3540000) (map charged_airtime log) \<le> 360000"
proof -
  let ?t = "lora_start (Sx1262 (recording h)) (build_driver w)"
  have start: "air_log (lt_radio ?t) = []" by (rule started_silent)
  note duty = lora_start_duty [of "Sx1262 (recording h)" "build_driver w"]
  have "subseq (air_log (lt_radio t)) (map payload log)"
    using sx1262.lora_run_airs [where t = ?t and h = h and ss = ss and log = "[]"] assms(2) start by auto
  moreover have "granted_within x (x + 3540000) (map charged_airtime log) \<le> 360000"
    using lora_run_bounded [OF duty(1) assms(1) duty(2), of x "Sx1262 (recording h)"] assms(2) by simp
  ultimately show ?thesis ..
qed

theorem lora_task_keeps_the_duty_cycle_witness:
  "granted_within 0 3540000 (map charged_airtime (snd (lora_run (Sx1262 (recording (host_test_hal 256)))
     [LoraEnqueue \<lparr>env_command = LoraTx [1, 2, 3], env_source = Serial, env_sequence_id = 7\<rparr>,
      LoraTurn (LoraCommand 5), LoraTurn LoraRadioWakes]
     (lora_start (Sx1262 (recording (host_test_hal 256))) (build_driver ())) []))) \<le> 360000"
proof -
  let ?R = "Sx1262 (recording (host_test_hal 256))"
  let ?ss = "[LoraEnqueue \<lparr>env_command = LoraTx [1, 2, 3], env_source = Serial, env_sequence_id = 7\<rparr>,
      LoraTurn (LoraCommand 5), LoraTurn LoraRadioWakes]"
  obtain t log where r: "lora_run ?R ?ss (lora_start ?R (build_driver ())) [] = (t, log)" by force
  have "lora_clock 0 ?ss" by simp
  from lora_task_keeps_the_duty_cycle [OF this r, of 0] show ?thesis by (simp only: r) simp
qed

text \<open>
  C9. Every command is answered once and in order: over any radio and any run, the answers published
  followed by the requests still queued are the answers and requests there were, followed by the
  commands the queue took, each with its source and sequence number; only reboots are not answered.
\<close>

theorem commands_are_answered_in_order:
  "answered (fst (lora_run R ss t log)) @ requested (fst (lora_run R ss t log))
   = answered t @ requested t @ concat (map request_key (taken R ss t))"
proof (induction ss arbitrary: t log)
  case (Cons s ss)
  have "answered (fst (lora_run R (s # ss) t log)) @ requested (fst (lora_run R (s # ss) t log))
      = answered (lora_do R s t) @ requested (lora_do R s t) @ concat (map request_key (taken R ss (lora_do R s t)))"
    using Cons.IH [of "lora_do R s t" "log @ charges_of s t"] by simp
  also have "\<dots> = (answered (lora_do R s t) @ requested (lora_do R s t))
      @ concat (map request_key (taken R ss (lora_do R s t)))" by simp
  finally show ?case unfolding do_answers by simp
qed simp

end
