(* ===== verification/Rust_Format.thy ===== *)
theory Rust_Format imports Rust_Text begin

text \<open>
  Numbers as text, the way the Rust core library prints and parses them: decimal without leading
  zeros, zero-padded decimal, signed decimal, hexadecimal digits, and the checked parse of an
  unsigned integer. The lemmas show that parsing inverts printing and bound the printed length.
\<close>

subsection \<open>Decimal\<close>

fun dec :: "nat \<Rightarrow> rtext" where
  "dec n = (if n < 10 then [0x30 + of_nat n] else dec (n div 10) @ [0x30 + of_nat (n mod 10)])"

declare dec.simps [simp del]

definition dec_padded :: "nat \<Rightarrow> nat \<Rightarrow> rtext" where
  "dec_padded width n = replicate (width - length (dec n)) 0x30 @ dec n"

definition dec_int :: "int \<Rightarrow> rtext" where
  "dec_int z = (if z < 0 then 0x2D # dec (nat (- z)) else dec (nat z))"

definition is_digit :: "u8 \<Rightarrow> bool" where
  "is_digit b \<longleftrightarrow> 0x30 \<le> b \<and> b \<le> 0x39"

fun decimal_value :: "nat \<Rightarrow> rtext \<Rightarrow> nat option" where
  "decimal_value acc [] = Some acc"
| "decimal_value acc (b # bs) =
     (if is_digit b then decimal_value (acc * 10 + (unat b - 0x30)) bs else None)"

text \<open>
  \<open>str::parse\<close> for an unsigned integer with the given maximum: an optional plus sign and at least
  one digit, the value within the range of the type.
\<close>

definition strip_plus :: "rtext \<Rightarrow> rtext" where
  "strip_plus s = (case s of [] \<Rightarrow> [] | b # bs \<Rightarrow> if b = 0x2B then bs else s)"

definition parse_uint :: "nat \<Rightarrow> rtext \<Rightarrow> nat option" where
  "parse_uint max_value s =
     (if strip_plus s = [] then None
      else case decimal_value 0 (strip_plus s) of
          None \<Rightarrow> None
        | Some n \<Rightarrow> if n \<le> max_value then Some n else None)"

lemma digit_value:
  assumes "d < 10"
  shows "is_digit (0x30 + of_nat d)" and "unat (0x30 + of_nat d :: u8) = 0x30 + d"
proof -
  show v: "unat (0x30 + of_nat d :: u8) = 0x30 + d"
    using assms by (subst unat_add_fits) (simp_all add: unat_of_nat)
  show "is_digit (0x30 + of_nat d)"
    using assms by (simp add: is_digit_def word_le_nat_alt v)
qed

lemma dec_nonempty [simp]: "dec n \<noteq> []"
  by (subst dec.simps) simp

lemma dec_digits: "b \<in> set (dec n) \<Longrightarrow> is_digit b"
proof (induction n rule: dec.induct)
  case (1 n)
  then show ?case
    using digit_value(1) [of n] digit_value(1) [of "n mod 10"]
    by (subst (asm) (2) dec.simps) (auto split: if_splits)
qed

lemma decimal_value_append:
  "decimal_value acc (xs @ ys) = Option.bind (decimal_value acc xs) (\<lambda>v. decimal_value v ys)"
  by (induction xs arbitrary: acc) auto

lemma decimal_value_dec: "decimal_value 0 (dec n) = Some n"
proof (induction n rule: dec.induct)
  case (1 n)
  show ?case
  proof (cases "n < 10")
    case True
    then show ?thesis by (subst dec.simps) (simp add: digit_value)
  next
    case False
    then show ?thesis using 1
      by (subst dec.simps) (simp add: decimal_value_append digit_value)
  qed
qed

lemma strip_plus_digits: "\<forall>b \<in> set s. is_digit b \<Longrightarrow> strip_plus s = s"
  by (cases s) (auto simp: strip_plus_def is_digit_def)

lemma parse_uint_dec: "n \<le> m \<Longrightarrow> parse_uint m (dec n) = Some n"
  using dec_digits [of _ n] by (simp add: parse_uint_def strip_plus_digits decimal_value_dec)

lemma parse_uint_range: "parse_uint m s = Some n \<Longrightarrow> n \<le> m"
  by (auto simp: parse_uint_def split: if_splits option.splits)

lemma length_dec: "n < 10 ^ k \<Longrightarrow> 0 < k \<Longrightarrow> length (dec n) \<le> k"
proof (induction k arbitrary: n)
  case (Suc k)
  show ?case
  proof (cases "n < 10")
    case True
    then show ?thesis by (subst dec.simps) simp
  next
    case False
    then have "0 < k" using Suc.prems by (cases k) simp_all
    moreover have "n div 10 < 10 ^ k" using Suc.prems(1) by (simp add: less_mult_imp_div_less)
    ultimately show ?thesis using False Suc.IH [of "n div 10"] by (subst dec.simps) simp
  qed
qed simp

lemma length_dec_padded: "n < 10 ^ k \<Longrightarrow> 0 < k \<Longrightarrow> length (dec_padded k n) = k"
  using length_dec [of n k] by (simp add: dec_padded_def)

lemma unat_lt2p: "unat (w :: 'a::len word) < 2 ^ LENGTH('a)"
  by (rule unsigned_less)

lemma length_dec_u32: "length (dec (unat (w :: u32))) \<le> 10"
  by (rule length_dec) (use unat_lt2p [of w] in simp_all)

lemma length_dec_u64: "length (dec (unat (w :: u64))) \<le> 20"
  by (rule length_dec) (use unat_lt2p [of w] in simp_all)

lemma length_dec_u8: "length (dec (unat (w :: u8))) \<le> 3"
  by (rule length_dec) (use unat_lt2p [of w] in simp_all)

lemma length_dec_int: "\<bar>z\<bar> < 10 ^ k \<Longrightarrow> 0 < k \<Longrightarrow> length (dec_int z) \<le> Suc k"
  using length_dec [of "nat (- z)" k] length_dec [of "nat z" k]
  by (auto simp: dec_int_def nat_less_iff)

lemma length_dec_i16: "length (dec_int (sint (w :: 16 word))) \<le> 6"
  using length_dec_int [of "sint w" 5] sint_greater_eq [of w] sint_less [of w] by auto

lemma length_dec_i8: "length (dec_int (sint (w :: 8 word))) \<le> 4"
  using length_dec_int [of "sint w" 3] sint_greater_eq [of w] sint_less [of w] by auto

lemmas number_lengths = length_dec_u8 length_dec_u32 length_dec_u64 length_dec_i16 length_dec_i8

subsection \<open>Hexadecimal\<close>

definition hex_lower :: "u8 \<Rightarrow> u8" where
  "hex_lower n = (if n < 10 then 0x30 + n else 0x61 + (n - 10))"

definition hex_upper :: "u8 \<Rightarrow> u8" where
  "hex_upper n = (if n < 10 then 0x30 + n else 0x41 + (n - 10))"

definition high_nibble :: "u8 \<Rightarrow> u8" where
  "high_nibble b = drop_bit 4 b"

definition low_nibble :: "u8 \<Rightarrow> u8" where
  "low_nibble b = b AND 0x0F"

lemma nibbles: "push_bit 4 (high_nibble b) OR low_nibble b = b"
  unfolding high_nibble_def low_nibble_def
proof (rule bit_word_eqI)
  fix n :: nat assume n: "n < LENGTH(8)"
  have m: "(0x0F :: u8) = mask 4" by (simp add: mask_eq_exp_minus_1)
  show "bit (push_bit 4 (drop_bit 4 b) OR b AND 0x0F) n = bit b n"
    unfolding m using n by (auto simp: bit_simps)
qed

lemma nibble_range: "high_nibble b < 16" "low_nibble b < 16"
proof -
  have "unat (drop_bit 4 b) = unat b div 16" by (simp add: drop_bit_eq_div unat_div)
  then show "high_nibble b < 16"
    using unat_lt2p [of b] by (simp add: high_nibble_def word_less_nat_alt less_mult_imp_div_less)
  have "low_nibble b \<le> 0x0F" unfolding low_nibble_def by (rule word_and_le1)
  then show "low_nibble b < 16" by (simp add: word_le_nat_alt word_less_nat_alt)
qed

text \<open>Two digits per byte, high nibble first.\<close>

definition hex_byte_lower :: "u8 \<Rightarrow> rtext" where
  "hex_byte_lower b = [hex_lower (high_nibble b), hex_lower (low_nibble b)]"

definition hex_byte_upper :: "u8 \<Rightarrow> rtext" where
  "hex_byte_upper b = [hex_upper (high_nibble b), hex_upper (low_nibble b)]"

lemma nibble_cases:
  assumes "n < (16 :: u8)"
  shows "n \<in> {0, 1, 2, 3, 4, 5, 6, 7, 8, 9, 10, 11, 12, 13, 14, 15}"
proof -
  have u: "[0..<16] = [0, 1, 2, 3, 4, 5, 6, 7, 8, 9, 10, 11, 12, 13, 14, 15 :: nat]" by code_simp
  have "unat n \<in> set [0..<16]" using assms by (simp add: word_less_nat_alt)
  then have "unat n \<in> {0, 1, 2, 3, 4, 5, 6, 7, 8, 9, 10, 11, 12, 13, 14, 15}" by (simp only: u set_simps)
  then show ?thesis by (auto simp: word_unat_eq_iff)
qed

end
