(* ===== verification/Bridge_Codec.thy ===== *)
theory Bridge_Codec imports Rust_Format begin

text \<open>
  The JSON and hexadecimal codecs of the MQTT payloads (\<open>src/bridge/codec.rs\<close>). The JSON library is
  a parameter: \<open>to_slice\<close> serialises a message into a buffer of the given size or fails,
  \<open>downlink_from_slice\<close> reads the fields of a downlink request. What is relied on of the serialiser
  is its documented output, \<open>json_text\<close>, whenever it fits.
\<close>

subsection \<open>Messages\<close>

definition MAX_JSON :: nat where "MAX_JSON = 640"

datatype codec_error = BadJson | BadHex

record uplink_msg =
  up_payload_hex :: rtext
  up_rssi :: i16
  up_snr :: i8
  up_seq :: u32
  up_uptime_ms :: u64

record downlink_msg =
  down_payload_hex :: rtext
  down_id :: "u32 option"

record tx_result_msg =
  res_result :: rtext
  res_id :: "u32 option"
  res_retry_after_secs :: "u32 option"

record status_msg =
  status_online :: bool
  status_fw :: "rtext option"

datatype json_msg = UplinkMsg uplink_msg | TxResultMsg tx_result_msg | StatusMsg status_msg

record downlink =
  dl_payload :: bytes
  dl_id :: "u32 option"

text \<open>\<open>max_payload\<close> is the wire limit \<open>MAX_LORA_PAYLOAD\<close> of the protocol crate.\<close>

record json_lib =
  to_slice :: "nat \<Rightarrow> json_msg \<Rightarrow> bytes option"
  downlink_from_slice :: "bytes \<Rightarrow> downlink_msg option"
  max_payload :: nat

subsection \<open>Hexadecimal\<close>

text \<open>Each digit is pushed on its own; a full string drops it.\<close>

fun hex_push :: "nat \<Rightarrow> rtext \<Rightarrow> bytes \<Rightarrow> rtext" where
  "hex_push cap out [] = out"
| "hex_push cap out (b # bs) =
     hex_push cap (push_cap cap (push_cap cap out [hex_lower (high_nibble b)]) [hex_lower (low_nibble b)]) bs"

definition hex_encode :: "nat \<Rightarrow> bytes \<Rightarrow> rtext" where
  "hex_encode maxp data = hex_push (maxp * 2) [] (take maxp data)"

definition hex_digit :: "u8 \<Rightarrow> u8 option" where
  "hex_digit b =
     (if 0x30 \<le> b \<and> b \<le> 0x39 then Some (b - 0x30)
      else if 0x61 \<le> b \<and> b \<le> 0x66 then Some (b - 0x61 + 10)
      else if 0x41 \<le> b \<and> b \<le> 0x46 then Some (b - 0x41 + 10)
      else None)"

fun hex_pairs :: "nat \<Rightarrow> bytes \<Rightarrow> rtext \<Rightarrow> codec_error + bytes" where
  "hex_pairs cap out (a # b # s) =
     rbind (ok_or (hex_digit a) BadHex) (\<lambda>high.
       rbind (ok_or (hex_digit b) BadHex) (\<lambda>low.
         rbind (ok_or (extend_cap cap out [push_bit 4 high OR low]) BadHex) (\<lambda>out. hex_pairs cap out s)))"
| "hex_pairs cap out s = Inr out"

definition hex_decode :: "nat \<Rightarrow> rtext \<Rightarrow> codec_error + bytes" where
  "hex_decode maxp hex =
     (if hex = [] \<or> odd (length hex) \<or> maxp * 2 < length hex then Inl BadHex
      else hex_pairs maxp [] hex)"

subsection \<open>JSON\<close>

definition to_json :: "json_lib \<Rightarrow> json_msg \<Rightarrow> bytes" where
  "to_json J m = push_cap MAX_JSON [] (case to_slice J MAX_JSON m of None \<Rightarrow> [] | Some b \<Rightarrow> b)"

definition uplink_json :: "json_lib \<Rightarrow> bytes \<Rightarrow> i16 \<Rightarrow> i8 \<Rightarrow> u32 \<Rightarrow> u64 \<Rightarrow> bytes" where
  "uplink_json J data rssi snr seq uptime =
     to_json J (UplinkMsg \<lparr>up_payload_hex = hex_encode (max_payload J) data, up_rssi = rssi, up_snr = snr,
       up_seq = seq, up_uptime_ms = uptime\<rparr>)"

definition parse_downlink :: "json_lib \<Rightarrow> bytes \<Rightarrow> codec_error + downlink" where
  "parse_downlink J json =
     rbind (ok_or (downlink_from_slice J json) BadJson) (\<lambda>m.
       rbind (hex_decode (max_payload J) (down_payload_hex m)) (\<lambda>p. Inr \<lparr>dl_payload = p, dl_id = down_id m\<rparr>))"

definition tx_result_json :: "json_lib \<Rightarrow> rtext \<Rightarrow> u32 option \<Rightarrow> u32 option \<Rightarrow> bytes" where
  "tx_result_json J r i retry =
     to_json J (TxResultMsg \<lparr>res_result = r, res_id = i, res_retry_after_secs = retry\<rparr>)"

definition status_json :: "json_lib \<Rightarrow> bool \<Rightarrow> rtext option \<Rightarrow> bytes" where
  "status_json J online fw = to_json J (StatusMsg \<lparr>status_online = online, status_fw = fw\<rparr>)"

subsection \<open>The documented output\<close>

text \<open>
  Fields in order, absent options skipped, and texts between quotes. The texts of the bridge need
  no escaping: they are hexadecimal digits, fixed words and version numbers.
\<close>

definition json_field :: "rtext \<Rightarrow> rtext \<Rightarrow> rtext" where
  "json_field name v = lit ''\"'' @ name @ lit ''\":'' @ v"

definition quoted :: "rtext \<Rightarrow> rtext" where
  "quoted s = lit ''\"'' @ s @ lit ''\"''"

definition json_object :: "rtext list \<Rightarrow> rtext" where
  "json_object fs = lit ''{'' @ concat (case fs of [] \<Rightarrow> [] | f # fs \<Rightarrow> f # map (\<lambda>g. lit '','' @ g) fs) @ lit ''}''"

definition opt_field :: "rtext \<Rightarrow> u32 option \<Rightarrow> rtext list" where
  "opt_field name v = (case v of None \<Rightarrow> [] | Some w \<Rightarrow> [json_field name (dec (unat w))])"

fun json_text :: "json_msg \<Rightarrow> rtext" where
  "json_text (UplinkMsg m) = json_object
     [json_field (lit ''payload_hex'') (quoted (up_payload_hex m)),
      json_field (lit ''rssi'') (dec_int (sint (up_rssi m))), json_field (lit ''snr'') (dec_int (sint (up_snr m))),
      json_field (lit ''seq'') (dec (unat (up_seq m))), json_field (lit ''uptime_ms'') (dec (unat (up_uptime_ms m)))]"
| "json_text (TxResultMsg m) = json_object
     ([json_field (lit ''result'') (quoted (res_result m))] @ opt_field (lit ''id'') (res_id m)
      @ opt_field (lit ''retry_after_secs'') (res_retry_after_secs m))"
| "json_text (StatusMsg m) = json_object
     ([json_field (lit ''online'') (if status_online m then lit ''true'' else lit ''false'')]
      @ (case status_fw m of None \<Rightarrow> [] | Some v \<Rightarrow> [json_field (lit ''fw'') (quoted v)]))"

definition plain_char :: "u8 \<Rightarrow> bool" where
  "plain_char b \<longleftrightarrow> 0x20 \<le> b \<and> b < 0x7F \<and> b \<noteq> 0x22 \<and> b \<noteq> 0x5C"

fun plain_msg :: "json_msg \<Rightarrow> bool" where
  "plain_msg (UplinkMsg m) = (\<forall>b \<in> set (up_payload_hex m). plain_char b)"
| "plain_msg (TxResultMsg m) = (\<forall>b \<in> set (res_result m). plain_char b)"
| "plain_msg (StatusMsg m) = (case status_fw m of None \<Rightarrow> True | Some v \<Rightarrow> \<forall>b \<in> set v. plain_char b)"

definition json_ok :: "json_lib \<Rightarrow> bool" where
  "json_ok J \<longleftrightarrow> max_payload J \<le> 256 \<and> (\<forall>n m. plain_msg m \<longrightarrow>
     to_slice J n m = (if length (json_text m) \<le> n then Some (json_text m) else None))"

subsection \<open>Hexadecimal round trip\<close>

lemma hex_push_fits: "length out + 2 * length bs \<le> cap \<Longrightarrow> hex_push cap out bs = out @ concat (map hex_byte_lower bs)"
  by (induction bs arbitrary: out) (simp_all add: hex_byte_lower_def)

lemma hex_encode_eq: "hex_encode maxp data = concat (map hex_byte_lower (take maxp data))"
  by (simp add: hex_encode_def hex_push_fits)

lemma hex_digit_lower: "n < 16 \<Longrightarrow> hex_digit (hex_lower n) = Some n"
  by (drule nibble_cases) (elim insertE emptyE; simp add: hex_digit_def hex_lower_def)

lemma plain_hex_lower: "n < 16 \<Longrightarrow> plain_char (hex_lower n)"
  by (drule nibble_cases) (elim insertE emptyE; simp add: plain_char_def hex_lower_def)

lemma length_hex: "length (concat (map hex_byte_lower bs)) = 2 * length bs"
  by (induction bs) (simp_all add: hex_byte_lower_def)

lemma hex_bound: "n \<le> 256 \<Longrightarrow> length (concat (map hex_byte_lower (take n bs))) \<le> 512"
  unfolding length_hex by simp

lemma hex_pairs_encode:
  "length out + length bs \<le> cap \<Longrightarrow> hex_pairs cap out (concat (map hex_byte_lower bs)) = Inr (out @ bs)"
  by (induction bs arbitrary: out)
    (simp_all add: hex_byte_lower_def hex_digit_lower nibble_range nibbles extend_cap_def)

lemma hex_pairs_length: "hex_pairs cap out s = Inr p \<Longrightarrow> length p = length out + length s div 2"
  by (induction cap out s rule: hex_pairs.induct) (auto simp: result_iff extend_cap_def split: if_splits)

lemma plain_hex: "b \<in> set (hex_encode maxp data) \<Longrightarrow> plain_char b"
  by (auto simp: hex_encode_eq hex_byte_lower_def plain_hex_lower nibble_range)

subsection \<open>The messages fit\<close>

lemma to_json_fits:
  assumes "json_ok J" "plain_msg m" "length (json_text m) \<le> 640"
  shows "to_json J m = json_text m"
  using assms by (simp add: to_json_def json_ok_def MAX_JSON_def)

lemma length_opt_field: "length (concat (opt_field name v)) \<le> length name + 13"
  using length_dec_u32 by (auto simp: opt_field_def json_field_def split: option.split)

lemma uplink_length:
  assumes "length (up_payload_hex m) \<le> 512"
  shows "length (json_text (UplinkMsg m)) \<le> 640"
  using assms length_dec_u32 [of "up_seq m"] length_dec_u64 [of "up_uptime_ms m"] length_dec_i16 [of "up_rssi m"]
    length_dec_i8 [of "up_snr m"]
  by (simp add: json_object_def json_field_def quoted_def)

lemma result_length:
  assumes "length (res_result m) \<le> 32"
  shows "length (json_text (TxResultMsg m)) \<le> 640"
  using assms length_dec_u32 [of "the (res_id m)"] length_dec_u32 [of "the (res_retry_after_secs m)"]
  by (cases "res_id m"; cases "res_retry_after_secs m")
    (simp_all add: json_object_def json_field_def quoted_def opt_field_def)

lemma uplink_json_text:
  assumes "json_ok J"
  shows "uplink_json J data rssi snr seq uptime =
    json_text (UplinkMsg \<lparr>up_payload_hex = concat (map hex_byte_lower (take (max_payload J) data)),
      up_rssi = rssi, up_snr = snr, up_seq = seq, up_uptime_ms = uptime\<rparr>)"
  unfolding uplink_json_def hex_encode_eq
proof (rule to_json_fits [OF assms])
  have "max_payload J \<le> 256" using assms by (simp add: json_ok_def)
  then show "length (json_text (UplinkMsg \<lparr>up_payload_hex = concat (map hex_byte_lower (take (max_payload J) data)),
      up_rssi = rssi, up_snr = snr, up_seq = seq, up_uptime_ms = uptime\<rparr>)) \<le> 640"
    by (intro uplink_length) (simp only: uplink_msg.select_convs hex_bound)
qed (use plain_hex in \<open>auto simp: hex_encode_eq\<close>)

lemma hex_round:
  assumes "bs \<noteq> []" "length bs \<le> maxp"
  shows "hex_decode maxp (hex_encode maxp bs) = Inr bs"
proof -
  have l: "length (concat (map hex_byte_lower bs)) = 2 * length bs" by (rule length_hex)
  then have "concat (map hex_byte_lower bs) \<noteq> []" using assms(1) by (metis length_0_conv mult_eq_0_iff zero_neq_numeral)
  then show ?thesis using assms l
    by (simp add: hex_decode_def hex_encode_eq hex_pairs_encode)
qed

text \<open>The JSON library of the documentation, with the limit of the radio; requests are not modelled by it.\<close>

definition sample_json :: json_lib where
  "sample_json = \<lparr>to_slice = (\<lambda>n m. if length (json_text m) \<le> n then Some (json_text m) else None),
     downlink_from_slice = (\<lambda>b. if b = [] then None else Some \<lparr>down_payload_hex = lit ''4869'', down_id = Some 42\<rparr>),
     max_payload = 255\<rparr>"

lemma sample_json_ok: "json_ok sample_json"
  by (simp add: json_ok_def sample_json_def)

subsection \<open>The properties\<close>

text \<open>
  Payloads survive the hexadecimal form: every payload of 1 byte up to the radio's limit decodes
  from its encoding to itself, and whatever text decodes gives exactly half as many bytes, within
  the limit.
\<close>

theorem hex_round_trip:
  assumes "bs \<noteq> []" and "length bs \<le> maxp" and "hex_decode maxp s = Inr p"
  shows "hex_decode maxp (hex_encode maxp bs) = Inr bs
    \<and> length s = 2 * length p \<and> p \<noteq> [] \<and> length p \<le> maxp"
proof -
  have "hex_pairs maxp [] s = Inr p" and s: "s \<noteq> []" "even (length s)" "length s \<le> maxp * 2"
    using assms(3) by (auto simp: hex_decode_def split: if_splits)
  from hex_pairs_length [OF this(1)] s have "length s = 2 * length p" by simp
  then show ?thesis using hex_round [OF assms(1,2)] s by auto
qed

theorem hex_round_trip_witness:
  "hex_decode 4 (hex_encode 4 [0x00, 0x01, 0xAB, 0xFF]) = Inr [0x00, 0x01, 0xAB, 0xFF]"
proof -
  have "hex_decode 4 (lit ''fF'') = Inr [0xFF]" by (simp add: hex_decode_def hex_digit_def extend_cap_def)
  from hex_round_trip [of "[0x00, 0x01, 0xAB, 0xFF]" 4, OF _ _ this] show ?thesis by simp
qed

text \<open>
  An uplink is never lost to its JSON: for every packet, signal figures, sequence number and
  uptime the publication is the complete documented JSON text, within the 640-byte buffer, and its
  payload field decodes back to the packet.
\<close>

theorem uplink_json_complete:
  assumes "json_ok J"
  shows "uplink_json J data rssi snr seq uptime =
      json_text (UplinkMsg \<lparr>up_payload_hex = concat (map hex_byte_lower (take (max_payload J) data)),
        up_rssi = rssi, up_snr = snr, up_seq = seq, up_uptime_ms = uptime\<rparr>)
    \<and> length (uplink_json J data rssi snr seq uptime) \<le> MAX_JSON
    \<and> (data \<noteq> [] \<longrightarrow> length data \<le> max_payload J \<longrightarrow>
        hex_decode (max_payload J) (concat (map hex_byte_lower (take (max_payload J) data))) = Inr data)"
proof -
  have "max_payload J \<le> 256" using assms by (simp add: json_ok_def)
  then have "length (concat (map hex_byte_lower (take (max_payload J) data))) \<le> 512"
    by (rule hex_bound)
  from uplink_length [of "\<lparr>up_payload_hex = concat (map hex_byte_lower (take (max_payload J) data)), up_rssi = rssi,
      up_snr = snr, up_seq = seq, up_uptime_ms = uptime\<rparr>"] this
  show ?thesis
    using hex_round [of data "max_payload J"] uplink_json_text [OF assms, of data rssi snr seq uptime]
    by (simp only: uplink_msg.select_convs MAX_JSON_def hex_encode_eq) blast
qed

theorem uplink_json_complete_witness:
  "uplink_json sample_json (lit ''Hi'') (- 87) 5 12 123456
     = lit ''{\"payload_hex\":\"4869\",\"rssi\":-87,\"snr\":5,\"seq\":12,\"uptime_ms\":123456}''"
proof -
  have h: "concat (map hex_byte_lower (take (max_payload sample_json) (lit ''Hi''))) = lit ''4869''"
    by (simp add: sample_json_def hex_byte_lower_def hex_lower_def high_nibble_def low_nibble_def drop_bit_eq_div)
  from uplink_json_complete [OF sample_json_ok, of "lit ''Hi''" "- 87" 5 12 123456]
  have "uplink_json sample_json (lit ''Hi'') (- 87) 5 12 123456 =
    json_text (UplinkMsg \<lparr>up_payload_hex = lit ''4869'', up_rssi = - 87, up_snr = 5, up_seq = 12, up_uptime_ms = 123456\<rparr>)"
    unfolding h by blast
  then show ?thesis
    by (simp add: json_object_def json_field_def quoted_def dec_int_def dec.simps)
qed

end
