(* ===== verification/Linear_Map.thy ===== *)
theory Linear_Map imports Prelude begin

text \<open>
  The bounded linear map of the firmware (\<open>heapless::LinearMap\<close>) as its list of entries, in an
  order that no user of it depends on, and the
  interface its users rely on: what a lookup returns after an insert or removal, and that an
  insert of a new key into a full map is refused and changes nothing.
\<close>

type_synonym ('k, 'v) linear_map = "('k \<times> 'v) list"

fun lm_get :: "('k, 'v) linear_map \<Rightarrow> 'k \<Rightarrow> 'v option" where
  "lm_get [] k = None"
| "lm_get ((k', v) # m) k = (if k' = k then Some v else lm_get m k)"

fun lm_replace :: "'k \<Rightarrow> 'v \<Rightarrow> ('k, 'v) linear_map \<Rightarrow> ('k, 'v) linear_map" where
  "lm_replace k v [] = []"
| "lm_replace k v ((k', v') # m) = (if k' = k then (k, v) # m else (k', v') # lm_replace k v m)"

text \<open>Inserting overwrites an existing key; a new key needs room, else the map is unchanged.\<close>

definition lm_insert :: "nat \<Rightarrow> 'k \<Rightarrow> 'v \<Rightarrow> ('k, 'v) linear_map \<Rightarrow> ('k, 'v) linear_map" where
  "lm_insert cap k v m =
     (if lm_get m k \<noteq> None then lm_replace k v m
      else if length m < cap then m @ [(k, v)] else m)"

definition lm_remove :: "'k \<Rightarrow> ('k, 'v) linear_map \<Rightarrow> ('k, 'v) linear_map" where
  "lm_remove k m = filter (\<lambda>(k', v). k' \<noteq> k) m"

definition lm_ok :: "nat \<Rightarrow> ('k, 'v) linear_map \<Rightarrow> bool" where
  "lm_ok cap m \<longleftrightarrow> distinct (map fst m) \<and> length m \<le> cap"

subsection \<open>Laws\<close>

lemma lm_get_None: "lm_get m k = None \<longleftrightarrow> k \<notin> fst ` set m"
  by (induction m k rule: lm_get.induct) auto

lemma lm_get_append: "lm_get (m @ m') k = (case lm_get m k of None \<Rightarrow> lm_get m' k | Some v \<Rightarrow> Some v)"
  by (induction m k rule: lm_get.induct) auto

lemma lm_replace_keys [simp]: "map fst (lm_replace k v m) = map fst m"
  by (induction k v m rule: lm_replace.induct) auto

lemma lm_replace_length [simp]: "length (lm_replace k v m) = length m"
  by (induction k v m rule: lm_replace.induct) auto

lemma lm_get_replace:
  "lm_get (lm_replace k v m) k' = (if k' = k \<and> lm_get m k \<noteq> None then Some v else lm_get m k')"
  by (induction k v m rule: lm_replace.induct) auto

lemma lm_get_remove: "lm_get (lm_remove k m) k' = (if k' = k then None else lm_get m k')"
  by (induction m) (auto simp: lm_remove_def)

lemma lm_insert_full:
  "lm_get m k = None \<Longrightarrow> cap \<le> length m \<Longrightarrow> lm_insert cap k v m = m"
  by (simp add: lm_insert_def)

lemma lm_ok_insert: "lm_ok cap m \<Longrightarrow> lm_ok cap (lm_insert cap k v m)"
  by (auto simp: lm_ok_def lm_insert_def lm_get_None rev_image_eqI)

lemma lm_ok_remove: "lm_ok cap m \<Longrightarrow> lm_ok cap (lm_remove k m)"
  by (auto simp: lm_ok_def lm_remove_def distinct_map_filter intro: le_trans [OF length_filter_le])

lemma lm_remove_absent: "k \<notin> fst ` set m \<Longrightarrow> lm_remove k m = m"
  unfolding lm_remove_def by (rule filter_True) (auto simp: rev_image_eqI)

lemma length_remove_key:
  "distinct (map fst m) \<Longrightarrow> length m = length (lm_remove k m) + (if lm_get m k = None then 0 else 1)"
proof (induction m)
  case (Cons a m)
  obtain k' v where a: "a = (k', v)" by force
  show ?case
  proof (cases "k' = k")
    case True
    then have "lm_remove k m = m" using Cons.prems a by (intro lm_remove_absent) simp
    then show ?thesis using True a by (simp add: lm_remove_def)
  next
    case False
    then show ?thesis using Cons a by (simp add: lm_remove_def)
  qed
qed (simp add: lm_remove_def)

subsection \<open>The interface\<close>

locale bounded_map =
  fixes ok :: "'m \<Rightarrow> bool"
    and get :: "'m \<Rightarrow> 'k \<Rightarrow> 'v option"
    and put :: "'k \<Rightarrow> 'v \<Rightarrow> 'm \<Rightarrow> 'm"
    and del :: "'k \<Rightarrow> 'm \<Rightarrow> 'm"
    and size_of :: "'m \<Rightarrow> nat"
    and cap :: nat
  assumes ok_put: "ok m \<Longrightarrow> ok (put k v m)"
    and ok_del: "ok m \<Longrightarrow> ok (del k m)"
    and bounded: "ok m \<Longrightarrow> size_of m \<le> cap"
    and get_put: "get m k \<noteq> None \<or> size_of m < cap \<Longrightarrow> get (put k v m) k' = (if k' = k then Some v else get m k')"
    and put_full: "get m k = None \<Longrightarrow> cap \<le> size_of m \<Longrightarrow> put k v m = m"
    and get_del: "get (del k m) k' = (if k' = k then None else get m k')"
    and size_put: "size_of (put k v m) = (if get m k = None \<and> size_of m < cap then Suc (size_of m) else size_of m)"
    and size_del: "ok m \<Longrightarrow> size_of m = size_of (del k m) + (if get m k = None then 0 else 1)"
begin

lemma other_key: "k' \<noteq> k \<Longrightarrow> get (put k v m) k' = get m k'"
  by (cases "get m k \<noteq> None \<or> size_of m < cap") (auto simp: get_put put_full not_less)

lemma put_then_del: "get m k = None \<Longrightarrow> get (del k (put k v m)) k' = get m k'"
  by (cases "k' = k") (auto simp: get_del other_key)

lemma room_for_one: "ok m \<Longrightarrow> size_of m \<noteq> cap \<Longrightarrow> get (put k v m) k = Some v"
  using bounded [of m] by (simp add: get_put)

end

interpretation lm: bounded_map "lm_ok cap" lm_get "lm_insert cap" lm_remove length cap
proof
  fix m :: "('a, 'b) linear_map" and k k' v
  show "get_put": "lm_get m k \<noteq> None \<or> length m < cap \<Longrightarrow>
      lm_get (lm_insert cap k v m) k' = (if k' = k then Some v else lm_get m k')"
    by (auto simp: lm_insert_def lm_get_replace lm_get_append split: option.split)
  show "lm_ok cap m \<Longrightarrow> length m = length (lm_remove k m) + (if lm_get m k = None then 0 else 1)"
    by (rule length_remove_key) (simp add: lm_ok_def)
  show "lm_ok cap m \<Longrightarrow> length m \<le> cap" by (simp add: lm_ok_def)
  show "length (lm_insert cap k v m) = (if lm_get m k = None \<and> length m < cap then Suc (length m) else length m)"
    by (simp add: lm_insert_def)
qed (simp_all add: lm_ok_insert lm_ok_remove lm_insert_full lm_get_remove)

end
