(* ===== verification/Net_State.thy ===== *)
theory Net_State imports Hub_Types begin

text \<open>
  The network bookkeeping shared by the tasks: live statistics (\<open>src/net/stats.rs\<close>), reconnect
  backoff (\<open>src/net/backoff.rs\<close>), the decisions of the WiFi station supervisor
  (\<open>src/net/station.rs\<close>) and the gateway identifier (\<open>src/gateway/eui.rs\<close>). The counters are the
  atomics of the code: each update is one step on the record.
\<close>

subsection \<open>Statistics\<close>

record hub_stats =
  st_wifi_state :: u8
  st_mqtt_state :: u8
  st_ip :: u32
  st_uplink :: u32
  st_downlink :: u32
  st_dropped :: u32

definition new_stats :: hub_stats where
  "new_stats = \<lparr>st_wifi_state = link_state_byte Unprovisioned, st_mqtt_state = link_state_byte Unprovisioned,
     st_ip = 0, st_uplink = 0, st_downlink = 0, st_dropped = 0\<rparr>"

definition set_wifi_state :: "link_state \<Rightarrow> hub_stats \<Rightarrow> hub_stats" where
  "set_wifi_state l s = s\<lparr>st_wifi_state := link_state_byte l\<rparr>"

definition set_mqtt_state :: "link_state \<Rightarrow> hub_stats \<Rightarrow> hub_stats" where
  "set_mqtt_state l s = s\<lparr>st_mqtt_state := link_state_byte l\<rparr>"

definition set_ip :: "u8 \<times> u8 \<times> u8 \<times> u8 \<Rightarrow> hub_stats \<Rightarrow> hub_stats" where
  "set_ip octets s = (let (a, b, c, d) = octets in s\<lparr>st_ip := from_be32 a b c d\<rparr>)"

definition clear_ip :: "hub_stats \<Rightarrow> hub_stats" where
  "clear_ip s = s\<lparr>st_ip := 0\<rparr>"

definition count_uplink :: "hub_stats \<Rightarrow> hub_stats" where
  "count_uplink s = s\<lparr>st_uplink := st_uplink s + 1\<rparr>"

definition count_downlink :: "hub_stats \<Rightarrow> hub_stats" where
  "count_downlink s = s\<lparr>st_downlink := st_downlink s + 1\<rparr>"

definition count_dropped :: "u32 \<Rightarrow> hub_stats \<Rightarrow> hub_stats" where
  "count_dropped n s = s\<lparr>st_dropped := st_dropped s + n\<rparr>"

definition link_or_default :: "u8 \<Rightarrow> link_state" where
  "link_or_default b = (case link_state_from_byte b of Some l \<Rightarrow> l | None \<Rightarrow> Unprovisioned)"

definition be_octets :: "u32 \<Rightarrow> u8 \<times> u8 \<times> u8 \<times> u8" where
  "be_octets w = (ucast (drop_bit 24 w), ucast (drop_bit 16 w), ucast (drop_bit 8 w), ucast w)"

definition snapshot :: "u32 \<Rightarrow> hub_stats \<Rightarrow> hub_status" where
  "snapshot uptime s =
     \<lparr>wifi_state = link_or_default (st_wifi_state s), ip = be_octets (st_ip s),
      mqtt_state = link_or_default (st_mqtt_state s), uplink_count = st_uplink s,
      downlink_count = st_downlink s, dropped_count = st_dropped s, uptime_secs = uptime\<rparr>"

lemma link_or_default_byte [simp]: "link_or_default (link_state_byte l) = l"
  by (simp add: link_or_default_def)

lemma be_octets_from_be32 [simp]: "be_octets (from_be32 a b c d) = (a, b, c, d)"
proof -
  have "ucast (from_be32 a b c d) = d" "ucast (drop_bit 8 (from_be32 a b c d)) = c"
    "ucast (drop_bit 16 (from_be32 a b c d)) = b" "ucast (drop_bit 24 (from_be32 a b c d)) = a"
    by (rule bit_word_eqI; auto simp: from_be32_def from_le32_def bit_simps dest: bit_imp_le_length)+
  then show ?thesis by (simp add: be_octets_def)
qed

subsection \<open>Backoff\<close>

definition INITIAL_SECS :: u32 where "INITIAL_SECS = 1"
definition MAX_SECS :: u32 where "MAX_SECS = 60"

record backoff =
  bo_next_secs :: u32

definition new_backoff :: backoff where
  "new_backoff = \<lparr>bo_next_secs = INITIAL_SECS\<rparr>"

definition backoff_next :: "backoff \<Rightarrow> u32 \<times> backoff" where
  "backoff_next b = (bo_next_secs b, b\<lparr>bo_next_secs := min (bo_next_secs b * 2) MAX_SECS\<rparr>)"

definition backoff_reset :: "backoff \<Rightarrow> backoff" where
  "backoff_reset b = b\<lparr>bo_next_secs := INITIAL_SECS\<rparr>"

text \<open>The delay of the \<open>n\<close>th failure in a row: doubling from one second, capped at a minute.\<close>

definition backoff_ok :: "backoff \<Rightarrow> nat \<Rightarrow> bool" where
  "backoff_ok b n \<longleftrightarrow> unat (bo_next_secs b) = min (2 ^ n) 60"

lemma backoff_ok_new: "backoff_ok new_backoff 0" "backoff_ok (backoff_reset b) 0"
  by (simp_all add: backoff_ok_def new_backoff_def backoff_reset_def INITIAL_SECS_def)

lemma backoff_next_ok:
  assumes "backoff_ok b n"
  shows "unat (fst (backoff_next b)) = min (2 ^ n) 60 \<and> backoff_ok (snd (backoff_next b)) (Suc n)"
proof -
  have u: "unat (bo_next_secs b) = min (2 ^ n) 60" using assms by (simp add: backoff_ok_def)
  then have "unat (bo_next_secs b * 2) = min (2 ^ n) 60 * 2" by (subst unat_mult_fits) simp_all
  then have "unat (min (bo_next_secs b * 2) MAX_SECS) = min (min (2 ^ n) 60 * 2) 60"
    by (simp add: min_def word_le_nat_alt MAX_SECS_def)
  then show ?thesis using u by (simp add: backoff_next_def backoff_ok_def)
qed

subsection \<open>The station supervisor\<close>

definition MAX_STA_FAILURES :: u32 where "MAX_STA_FAILURES = 10"

datatype station_action = Start | Connect | FallbackToAccessPoint

record station =
  sta_backoff :: backoff
  sta_failures :: u32
  sta_started :: bool

definition new_station :: station where
  "new_station = \<lparr>sta_backoff = new_backoff, sta_failures = 0, sta_started = False\<rparr>"

definition next_action :: "station \<Rightarrow> station_action" where
  "next_action s =
     (if MAX_STA_FAILURES \<le> sta_failures s then FallbackToAccessPoint
      else if \<not> sta_started s then Start
      else Connect)"

definition station_started :: "station \<Rightarrow> station" where
  "station_started s = s\<lparr>sta_started := True\<rparr>"

definition station_failed :: "station \<Rightarrow> u32 \<times> station" where
  "station_failed s =
     (let (delay, b) = backoff_next (sta_backoff s)
      in (delay, s\<lparr>sta_failures := sta_failures s + 1, sta_backoff := b\<rparr>))"

definition station_connected :: "station \<Rightarrow> station" where
  "station_connected s = s\<lparr>sta_failures := 0, sta_backoff := backoff_reset (sta_backoff s)\<rparr>"

text \<open>
  The state after \<open>n\<close> failures since the last success (or since boot), and a run of failures with
  the delays it asks for.
\<close>

definition station_ok :: "station \<Rightarrow> nat \<Rightarrow> bool" where
  "station_ok s n \<longleftrightarrow> unat (sta_failures s) = n \<and> backoff_ok (sta_backoff s) n"

lemma station_ok_new: "station_ok new_station 0"
  by (simp add: station_ok_def new_station_def backoff_ok_new)

lemma station_ok_connected: "station_ok (station_connected s) 0"
  by (simp add: station_ok_def station_connected_def backoff_ok_new)

lemma station_failed_ok:
  assumes "station_ok s n" "n < 1000"
  shows "unat (fst (station_failed s)) = min (2 ^ n) 60 \<and> station_ok (snd (station_failed s)) (Suc n)
    \<and> sta_started (snd (station_failed s)) = sta_started s"
proof -
  have "unat (sta_failures s + 1) = Suc n"
    using assms by (subst unat_add_fits) (simp_all add: station_ok_def)
  then show ?thesis using backoff_next_ok [of "sta_backoff s" n] assms(1)
    by (auto simp: station_failed_def station_ok_def split: prod.split)
qed

fun fail_times :: "nat \<Rightarrow> station \<Rightarrow> u32 list \<times> station" where
  "fail_times 0 s = ([], s)"
| "fail_times (Suc k) s =
     (let (delay, s') = station_failed s; (ds, s'') = fail_times k s' in (delay # ds, s''))"

lemma fail_times_ok:
  "\<lbrakk>station_ok s n; n + k \<le> 1000\<rbrakk> \<Longrightarrow>
   map unat (fst (fail_times k s)) = map (\<lambda>i. min (2 ^ i) 60) [n..<n + k]
   \<and> station_ok (snd (fail_times k s)) (n + k) \<and> sta_started (snd (fail_times k s)) = sta_started s"
proof (induction k arbitrary: s n)
  case (Suc k)
  obtain delay s' where f: "station_failed s = (delay, s')" by force
  have n: "n < 1000" and k: "Suc n + k \<le> 1000" using Suc.prems(2) by simp_all
  note step = station_failed_ok [OF Suc.prems(1) n, unfolded f fst_conv snd_conv]
  note rest = Suc.IH [OF conjunct1 [OF conjunct2 [OF step]] k]
  obtain ds s'' where g: "fail_times k s' = (ds, s'')" by force
  have u: "[n..<n + Suc k] = n # [Suc n..<Suc n + k]" by (simp add: upt_conv_Cons del: upt_Suc)
  show ?case using step rest unfolding u by (simp add: f g del: upt_Suc)
qed simp

subsection \<open>The gateway identifier\<close>

definition gateway_eui :: "bytes \<Rightarrow> bytes" where
  "gateway_eui mac = [mac ! 0, mac ! 1, mac ! 2, 0xFF, 0xFE, mac ! 3, mac ! 4, mac ! 5]"

subsection \<open>The properties\<close>

text \<open>
  The station supervisor keeps trying and then gives up: from the state after a success (or
  boot) with the driver running, the \<open>k\<close>th failure in a row waits \<open>min (2^(k-1)) 60\<close> seconds, the
  supervisor asks for another connection after each of the first nine, falls back to the access
  point after the tenth, and a success in between restores the full budget.
\<close>

theorem station_backs_off_then_falls_back:
  assumes "k \<le> 1000"
  shows "map unat (fst (fail_times k (station_connected (station_started s)))) = map (\<lambda>i. min (2 ^ i) 60) [0..<k]
    \<and> next_action (snd (fail_times k (station_connected (station_started s))))
        = (if k < 10 then Connect else FallbackToAccessPoint)
    \<and> next_action (station_connected (snd (fail_times k (station_connected (station_started s))))) = Connect"
proof -
  let ?s = "station_connected (station_started s)"
  have st: "sta_started ?s" by (simp add: station_connected_def station_started_def)
  note f = fail_times_ok [OF station_ok_connected [of "station_started s"], of k]
  have "unat (sta_failures (snd (fail_times k ?s))) = k" using f assms by (simp add: station_ok_def)
  then show ?thesis using f assms st
    by (auto simp: next_action_def MAX_STA_FAILURES_def word_le_nat_alt station_connected_def)
qed

theorem station_backs_off_then_falls_back_witness:
  "map unat (fst (fail_times 10 (station_connected (station_started new_station))))
     = [1, 2, 4, 8, 16, 32, 60, 60, 60, 60]
   \<and> next_action (snd (fail_times 10 (station_connected (station_started new_station)))) = FallbackToAccessPoint"
  using station_backs_off_then_falls_back [of 10 new_station] by (simp add: upt_rec)

end
