(* ===== verification/Bridge.thy ===== *)
theory Bridge imports Bridge_Codec Linear_Map Messages Net_State begin

text \<open>
  The LoRa to MQTT bridge (\<open>src/bridge/mod.rs\<close>, \<open>src/tasks/bridge.rs\<close>): radio responses become
  publications, downlink requests become radio commands, and the identifier of a request is kept
  in a bounded map until the radio answers. The task adds the queues to the command dispatcher and
  to the MQTT task, which refuse what does not fit. The JSON library \<open>J\<close> and the command
  constructor \<open>lora_tx\<close> of the protocol crate are parameters.
\<close>

subsection \<open>The bridge state\<close>

datatype topic = Rx | TxResult

record mqtt_outbound =
  out_topic :: topic
  out_payload :: bytes
  out_retain :: bool

definition MAX_IN_FLIGHT :: nat where "MAX_IN_FLIGHT = 4"

datatype downlink_outcome = Send u16 command | Reject mqtt_outbound

record bridge_state =
  in_flight :: "(u16, u32 option) linear_map"
  next_sequence :: u16
  rx_seq :: u32

definition new_bridge :: bridge_state where
  "new_bridge = \<lparr>in_flight = [], next_sequence = 0, rx_seq = 0\<rparr>"

definition tx_result :: "json_lib \<Rightarrow> rtext \<Rightarrow> u32 option \<Rightarrow> u32 option \<Rightarrow> mqtt_outbound" where
  "tx_result J r i retry = \<lparr>out_topic = TxResult, out_payload = tx_result_json J r i retry, out_retain = False\<rparr>"

definition on_rx_packet ::
  "json_lib \<Rightarrow> bytes \<Rightarrow> i16 \<Rightarrow> i8 \<Rightarrow> u64 \<Rightarrow> bridge_state \<Rightarrow> mqtt_outbound \<times> bridge_state" where
  "on_rx_packet J data rssi snr uptime s =
     (let seq = rx_seq s
      in (\<lparr>out_topic = Rx, out_payload = uplink_json J data rssi snr seq uptime, out_retain = False\<rparr>,
          s\<lparr>rx_seq := rx_seq s + 1\<rparr>))"

type_synonym lora_tx = "bytes \<Rightarrow> unit + command"

definition on_downlink :: "json_lib \<Rightarrow> lora_tx \<Rightarrow> bytes \<Rightarrow> bridge_state \<Rightarrow> downlink_outcome \<times> bridge_state" where
  "on_downlink J lora_tx json s =
     (case parse_downlink J json of
        Inl e \<Rightarrow>
          (Reject (tx_result J (case e of BadJson \<Rightarrow> lit ''bad_json'' | BadHex \<Rightarrow> lit ''bad_payload'') None None), s)
      | Inr d \<Rightarrow>
          if length (in_flight s) = MAX_IN_FLIGHT then (Reject (tx_result J (lit ''busy'') (dl_id d) None), s)
          else
            let i = next_sequence s;
                s = s\<lparr>next_sequence := next_sequence s + 1\<rparr>;
                s = s\<lparr>in_flight := lm_insert MAX_IN_FLIGHT i (dl_id d) (in_flight s)\<rparr>
            in case lora_tx (dl_payload d) of
                 Inr c \<Rightarrow> (Send i c, s)
               | Inl _ \<Rightarrow>
                   (Reject (tx_result J (lit ''bad_payload'') (dl_id d) None),
                    s\<lparr>in_flight := lm_remove i (in_flight s)\<rparr>))"

definition abandon :: "json_lib \<Rightarrow> u16 \<Rightarrow> rtext \<Rightarrow> bridge_state \<Rightarrow> mqtt_outbound \<times> bridge_state" where
  "abandon J i reason s =
     (let ident = (case lm_get (in_flight s) i of None \<Rightarrow> None | Some x \<Rightarrow> x)
      in (tx_result J reason ident None, s\<lparr>in_flight := lm_remove i (in_flight s)\<rparr>))"

fun result_of :: "json_lib \<Rightarrow> u32 option \<Rightarrow> response \<Rightarrow> mqtt_outbound" where
  "result_of J i TxComplete = tx_result J (lit ''sent'') i None"
| "result_of J i (TxRefused retry) = tx_result J (lit ''refused'') i (Some retry)"
| "result_of J i _ = tx_result J (lit ''error'') i None"

definition on_command_response ::
  "json_lib \<Rightarrow> u16 \<Rightarrow> response \<Rightarrow> bridge_state \<Rightarrow> mqtt_outbound option \<times> bridge_state" where
  "on_command_response J i r s =
     (case lm_get (in_flight s) i of
        None \<Rightarrow> (None, s)
      | Some ident \<Rightarrow> (Some (result_of J ident r), s\<lparr>in_flight := lm_remove i (in_flight s)\<rparr>))"

subsection \<open>The bridge task\<close>

text \<open>The capacity of the queue of publications to the MQTT task.\<close>

definition MQTT_OUT_SIZE :: nat where "MQTT_OUT_SIZE = 8"

record bridge_task =
  bt_state :: bridge_state
  bt_commands :: "command_envelope list"
  bt_out :: "mqtt_outbound list"
  bt_stats :: hub_stats

definition enqueue :: "mqtt_outbound \<Rightarrow> bridge_task \<Rightarrow> bool \<times> bridge_task" where
  "enqueue m t =
     (case try_send MQTT_OUT_SIZE m (bt_out t) of
        None \<Rightarrow> (False, t\<lparr>bt_stats := count_dropped 1 (bt_stats t)\<rparr>)
      | Some q \<Rightarrow> (True, t\<lparr>bt_out := q\<rparr>))"

text \<open>
  What the task can be woken by, and what the consumers of its queues do in between.
\<close>

datatype bridge_event =
    Lagged u64
  | BusMessage response_message u64
  | DownlinkJson bytes
  | CommandTaken
  | OutTaken

fun bridge_message :: "json_lib \<Rightarrow> response_message \<Rightarrow> u64 \<Rightarrow> bridge_task \<Rightarrow> bridge_task" where
  "bridge_message J (Unsolicited (RxPacket data rssi snr)) uptime t =
     (let (m, s) = on_rx_packet J data rssi snr uptime (bt_state t);
          (ok, t) = enqueue m (t\<lparr>bt_state := s\<rparr>)
      in if ok then t\<lparr>bt_stats := count_uplink (bt_stats t)\<rparr> else t)"
| "bridge_message J (CommandResponse WiFi i r) uptime t =
     (let (m, s) = on_command_response J i r (bt_state t); t = t\<lparr>bt_state := s\<rparr>
      in case m of
           None \<Rightarrow> t
         | Some out \<Rightarrow>
             let t = (if r = TxComplete then t\<lparr>bt_stats := count_downlink (bt_stats t)\<rparr> else t)
             in snd (enqueue out t))"
| "bridge_message J _ uptime t = t"

definition bridge_downlink :: "json_lib \<Rightarrow> lora_tx \<Rightarrow> bytes \<Rightarrow> bridge_task \<Rightarrow> bridge_task" where
  "bridge_downlink J lora_tx json t =
     (let (r, s) = on_downlink J lora_tx json (bt_state t); t = t\<lparr>bt_state := s\<rparr>
      in case r of
           Send i c \<Rightarrow>
             (case try_send COMMAND_CHANNEL_SIZE
                 \<lparr>env_command = c, env_source = WiFi, env_sequence_id = i\<rparr> (bt_commands t) of
                Some q \<Rightarrow> t\<lparr>bt_commands := q\<rparr>
              | None \<Rightarrow>
                  let (m, s) = abandon J i (lit ''queue_full'') (bt_state t)
                  in snd (enqueue m (t\<lparr>bt_state := s\<rparr>)))
         | Reject m \<Rightarrow> snd (enqueue m t))"

fun bridge_turn :: "json_lib \<Rightarrow> lora_tx \<Rightarrow> bridge_event \<Rightarrow> bridge_task \<Rightarrow> bridge_task" where
  "bridge_turn J lora_tx (Lagged n) t = t\<lparr>bt_stats := count_dropped (ucast n) (bt_stats t)\<rparr>"
| "bridge_turn J lora_tx (BusMessage m uptime) t = bridge_message J m uptime t"
| "bridge_turn J lora_tx (DownlinkJson json) t = bridge_downlink J lora_tx json t"
| "bridge_turn J lora_tx CommandTaken t = t\<lparr>bt_commands := drop 1 (bt_commands t)\<rparr>"
| "bridge_turn J lora_tx OutTaken t = t\<lparr>bt_out := drop 1 (bt_out t)\<rparr>"

definition bridge_run :: "json_lib \<Rightarrow> lora_tx \<Rightarrow> bridge_event list \<Rightarrow> bridge_task \<Rightarrow> bridge_task" where
  "bridge_run J lora_tx es t = foldl (\<lambda>t e. bridge_turn J lora_tx e t) t es"

subsection \<open>Laws of the state\<close>

definition bridge_ok :: "bridge_state \<Rightarrow> bool" where
  "bridge_ok s \<longleftrightarrow> lm_ok MAX_IN_FLIGHT (in_flight s)"

lemma bridge_ok_new: "bridge_ok new_bridge"
  by (simp add: bridge_ok_def new_bridge_def lm_ok_def)

lemma on_downlink_cases:
  assumes "on_downlink J tx json s = (r, s')" "bridge_ok s"
  obtains (bad) e where "parse_downlink J json = Inl e" "s' = s"
      "r = Reject (tx_result J (case e of BadJson \<Rightarrow> lit ''bad_json'' | BadHex \<Rightarrow> lit ''bad_payload'') None None)"
  | (busy) d where "parse_downlink J json = Inr d" "length (in_flight s) = MAX_IN_FLIGHT" "s' = s"
      "r = Reject (tx_result J (lit ''busy'') (dl_id d) None)"
  | (oversize) d where "parse_downlink J json = Inr d" "length (in_flight s) < MAX_IN_FLIGHT"
      "r = Reject (tx_result J (lit ''bad_payload'') (dl_id d) None)"
      "s' = s\<lparr>next_sequence := next_sequence s + 1, in_flight := lm_remove (next_sequence s)
        (lm_insert MAX_IN_FLIGHT (next_sequence s) (dl_id d) (in_flight s))\<rparr>" "tx (dl_payload d) = Inl ()"
  | (sent) d c where "parse_downlink J json = Inr d" "length (in_flight s) < MAX_IN_FLIGHT"
      "tx (dl_payload d) = Inr c" "r = Send (next_sequence s) c"
      "s' = s\<lparr>next_sequence := next_sequence s + 1,
        in_flight := lm_insert MAX_IN_FLIGHT (next_sequence s) (dl_id d) (in_flight s)\<rparr>"
proof (cases "parse_downlink J json")
  case (Inl e)
  then show ?thesis using assms(1) by (intro bad [of e]) (auto simp: on_downlink_def)
next
  case (Inr d)
  have le: "length (in_flight s) \<le> MAX_IN_FLIGHT" using assms(2) lm.bounded by (simp add: bridge_ok_def)
  show ?thesis
  proof (cases "length (in_flight s) = MAX_IN_FLIGHT")
    case True
    then show ?thesis using assms(1) Inr by (intro busy [of d]) (auto simp: on_downlink_def)
  next
    case False
    with le have room: "length (in_flight s) < MAX_IN_FLIGHT" by simp
    show ?thesis
    proof (cases "tx (dl_payload d)")
      case l: (Inl u)
      then show ?thesis using assms(1) Inr room False by (intro oversize [of d]) (auto simp: on_downlink_def Let_def)
    next
      case r: (Inr c)
      then show ?thesis using assms(1) Inr room False by (intro sent [of d c]) (auto simp: on_downlink_def Let_def)
    qed
  qed
qed

lemma on_downlink_ok: "on_downlink J tx json s = (r, s') \<Longrightarrow> bridge_ok s \<Longrightarrow> bridge_ok s'"
  by (erule on_downlink_cases) (auto simp: bridge_ok_def lm.ok_put lm.ok_del)

lemma on_command_response_ok: "bridge_ok s \<Longrightarrow> bridge_ok (snd (on_command_response J i r s))"
  by (auto simp: on_command_response_def bridge_ok_def lm.ok_del split: option.split)

text \<open>A request that is sent is in flight with its identifier; the other requests are not touched.\<close>

lemma sent_is_in_flight:
  assumes "on_downlink J tx json s = (Send i c, s')" "bridge_ok s"
  shows "\<exists>d. parse_downlink J json = Inr d \<and> tx (dl_payload d) = Inr c \<and> i = next_sequence s
    \<and> next_sequence s' = i + 1 \<and> lm_get (in_flight s') i = Some (dl_id d)"
  using assms
  by (cases rule: on_downlink_cases [OF assms]) (auto simp: lm.get_put)

lemma on_downlink_other:
  assumes "on_downlink J tx json s = (r, s')" "bridge_ok s" "i \<noteq> next_sequence s"
  shows "lm_get (in_flight s') i = lm_get (in_flight s) i"
  using assms(3)
  by (cases rule: on_downlink_cases [OF assms(1,2)])
    (auto simp: lm.other_key [where cap = MAX_IN_FLIGHT] lm.get_del)

lemma on_downlink_sequence:
  assumes "on_downlink J tx json s = (r, s')" "bridge_ok s"
  shows "next_sequence s' \<in> {next_sequence s, next_sequence s + 1}"
  by (cases rule: on_downlink_cases [OF assms]) auto

subsection \<open>Sequences of operations\<close>

datatype bridge_op = OpDownlink bytes | OpResponse u16 response | OpAbandon u16 | OpPacket bytes i16 i8 u64

fun do_op :: "json_lib \<Rightarrow> lora_tx \<Rightarrow> bridge_op \<Rightarrow> bridge_state \<Rightarrow> bridge_state" where
  "do_op J tx (OpDownlink json) s = snd (on_downlink J tx json s)"
| "do_op J tx (OpResponse i r) s = snd (on_command_response J i r s)"
| "do_op J tx (OpAbandon i) s = snd (abandon J i (lit ''queue_full'') s)"
| "do_op J tx (OpPacket data rssi snr uptime) s = snd (on_rx_packet J data rssi snr uptime s)"

fun addresses :: "u16 \<Rightarrow> bridge_op \<Rightarrow> bool" where
  "addresses i (OpResponse j r) = (j = i)"
| "addresses i (OpAbandon j) = (j = i)"
| "addresses i _ = False"

lemma bridge_op_ok:
  assumes "bridge_ok s" shows "bridge_ok (do_op J tx op s)"
proof (cases op)
  case (OpDownlink json)
  obtain r s' where e: "on_downlink J tx json s = (r, s')" by force
  from on_downlink_ok [OF e assms] show ?thesis by (simp add: OpDownlink e)
next
  case (OpResponse i r)
  then show ?thesis using on_command_response_ok [OF assms] by simp
qed (use assms in \<open>auto simp: abandon_def on_rx_packet_def Let_def bridge_ok_def lm.ok_del\<close>)

lemma bridge_op_keeps:
  assumes "bridge_ok s" "\<not> addresses i op" "next_sequence s \<noteq> i"
  shows "lm_get (in_flight (do_op J tx op s)) i = lm_get (in_flight s) i"
proof (cases op)
  case (OpDownlink json)
  obtain r s' where e: "on_downlink J tx json s = (r, s')" by force
  have "i \<noteq> next_sequence s" using assms(3) by simp
  from on_downlink_other [OF e assms(1) this] show ?thesis by (simp add: OpDownlink e)
qed (use assms in \<open>auto simp: on_command_response_def abandon_def on_rx_packet_def Let_def lm.get_del split: option.split\<close>)

lemma bridge_op_sequence:
  assumes "bridge_ok s"
  shows "next_sequence (do_op J tx op s) \<in> {next_sequence s, next_sequence s + 1}"
proof (cases op)
  case (OpDownlink json)
  obtain r s' where e: "on_downlink J tx json s = (r, s')" by force
  from on_downlink_sequence [OF e assms] show ?thesis by (simp add: OpDownlink e)
qed (auto simp: on_command_response_def abandon_def on_rx_packet_def Let_def split: option.split)

definition do_ops :: "json_lib \<Rightarrow> lora_tx \<Rightarrow> bridge_op list \<Rightarrow> bridge_state \<Rightarrow> bridge_state" where
  "do_ops J tx ops s = foldl (\<lambda>s op. do_op J tx op s) s ops"

lemma do_ops_Nil [simp]: "do_ops J tx [] s = s"
  by (simp add: do_ops_def)

lemma do_ops_Cons [simp]: "do_ops J tx (op # ops) s = do_ops J tx ops (do_op J tx op s)"
  by (simp add: do_ops_def)

lemma sequence_distance: "0 < k \<Longrightarrow> k < 65536 \<Longrightarrow> i + of_nat k \<noteq> (i :: u16)"
proof (rule notI)
  assume k: "0 < k" "k < 65536" and "i + of_nat k = i"
  then have "of_nat k = (0 :: u16)" by simp
  then have "unat (of_nat k :: u16) = 0" by simp
  moreover have "unat (of_nat k :: u16) = k" using k by (simp add: unat_of_nat take_bit_nat_eq_self)
  ultimately show False using k by simp
qed

lemma do_ops_keep:
  "\<lbrakk>bridge_ok s; next_sequence s = i + of_nat k; 0 < k; k + length ops < 65536; \<forall>op \<in> set ops. \<not> addresses i op\<rbrakk>
   \<Longrightarrow> bridge_ok (do_ops J tx ops s) \<and> lm_get (in_flight (do_ops J tx ops s)) i = lm_get (in_flight s) i"
proof (induction ops arbitrary: s k)
  case (Cons op ops)
  let ?s = "do_op J tx op s"
  have "next_sequence s \<noteq> i" using Cons.prems sequence_distance [of k i] by simp
  then have get: "lm_get (in_flight ?s) i = lm_get (in_flight s) i"
    using Cons.prems by (intro bridge_op_keeps) simp_all
  have ok: "bridge_ok ?s" using Cons.prems(1) by (rule bridge_op_ok)
  obtain k' where k': "k' \<in> {k, Suc k}" "next_sequence ?s = i + of_nat k'"
  proof -
    have "next_sequence ?s = i + of_nat k \<or> next_sequence ?s = i + of_nat (Suc k)"
      using bridge_op_sequence [OF Cons.prems(1), of J tx op] Cons.prems(2) by (auto simp: algebra_simps)
    then show ?thesis using that by blast
  qed
  then have "0 < k'" "k' + length ops < 65536" using Cons.prems(3,4) by auto
  with Cons.IH [OF ok k'(2)] Cons.prems(5) get show ?case by simp
qed simp

subsection \<open>The task\<close>

definition is_answer :: "bridge_state \<Rightarrow> bridge_event \<Rightarrow> bool" where
  "is_answer s e \<longleftrightarrow> (case e of
     BusMessage (CommandResponse WiFi i r) uptime \<Rightarrow> lm_get (in_flight s) i \<noteq> None | _ \<Rightarrow> False)"

lemma enqueue_frame [simp]:
  "bt_state (snd (enqueue m t)) = bt_state t" "bt_commands (snd (enqueue m t)) = bt_commands t"
  by (auto simp: enqueue_def split: option.split)

lemma enqueue_cases:
  "length (bt_out t) < MQTT_OUT_SIZE \<and> enqueue m t = (True, t\<lparr>bt_out := bt_out t @ [m]\<rparr>)
   \<or> MQTT_OUT_SIZE \<le> length (bt_out t) \<and> enqueue m t = (False, t\<lparr>bt_stats := count_dropped 1 (bt_stats t)\<rparr>)"
  by (auto simp: enqueue_def try_send_def)

text \<open>A message touches the requests in flight only when it answers one, and never the commands.\<close>

lemma bridge_message_frame:
  "bt_commands (bridge_message J m uptime t) = bt_commands t
   \<and> in_flight (bt_state (bridge_message J m uptime t)) =
       (case m of CommandResponse WiFi i r \<Rightarrow>
          if lm_get (in_flight (bt_state t)) i = None then in_flight (bt_state t) else lm_remove i (in_flight (bt_state t))
        | _ \<Rightarrow> in_flight (bt_state t))"
proof (cases "(J, m, uptime, t)" rule: bridge_message.cases)
  case (1 J data rssi snr uptime t)
  then show ?thesis by (simp add: on_rx_packet_def Let_def case_prod_beta)
next
  case (2 J i r uptime t)
  then show ?thesis by (auto simp: on_command_response_def Let_def split: option.split)
qed simp_all

text \<open>With four requests in flight and no answer to any of them, nothing gets through.\<close>

lemma blocked_turn:
  assumes "length (in_flight (bt_state t)) = MAX_IN_FLIGHT" "\<not> is_answer (bt_state t) e"
  shows "in_flight (bt_state (bridge_turn J tx e t)) = in_flight (bt_state t)
    \<and> (\<exists>n. bt_commands (bridge_turn J tx e t) = drop n (bt_commands t))"
proof -
  have same: "\<exists>n. bt_commands t = drop n (bt_commands t)" by (rule exI [of _ 0]) simp
  show ?thesis
  proof (cases e)
    case (BusMessage m uptime)
    have "in_flight (bt_state (bridge_message J m uptime t)) = in_flight (bt_state t)"
      using assms(2) bridge_message_frame [of J m uptime t]
      by (auto simp: BusMessage is_answer_def split: response_message.splits command_source.splits)
    then show ?thesis using same bridge_message_frame [of J m uptime t] by (simp add: BusMessage)
  next
    case (DownlinkJson json)
    then show ?thesis using assms(1) same
      by (auto simp: bridge_downlink_def on_downlink_def split: sum.splits)
  qed (use same in \<open>auto intro: exI [of _ 1]\<close>)
qed

lemma blocked_run:
  assumes "length (in_flight (bt_state t)) = MAX_IN_FLIGHT" "\<forall>e \<in> set es. \<not> is_answer (bt_state t) e"
  shows "in_flight (bt_state (bridge_run J tx es t)) = in_flight (bt_state t)
    \<and> (\<exists>n. bt_commands (bridge_run J tx es t) = drop n (bt_commands t))"
  using assms
proof (induction es arbitrary: t)
  case Nil
  then show ?case by (auto simp: bridge_run_def intro: exI [of _ 0])
next
  case (Cons e es)
  let ?t = "bridge_turn J tx e t"
  obtain n where t: "in_flight (bt_state ?t) = in_flight (bt_state t)" "bt_commands ?t = drop n (bt_commands t)"
    using blocked_turn [of t e J tx] Cons.prems by auto
  have "is_answer (bt_state ?t) = is_answer (bt_state t)"
    by (rule ext) (simp only: is_answer_def t(1))
  with Cons.IH [of ?t] Cons.prems t show ?case
    by (auto simp: bridge_run_def)
qed

subsection \<open>The properties\<close>

definition queued_or_dropped :: "mqtt_outbound \<Rightarrow> bridge_task \<Rightarrow> bridge_task \<Rightarrow> bool" where
  "queued_or_dropped m t t' \<longleftrightarrow>
     bt_out t' = bt_out t @ [m] \<and> bt_stats t' = bt_stats t
     \<or> length (bt_out t) \<ge> MQTT_OUT_SIZE \<and> bt_out t' = bt_out t \<and> bt_stats t' = count_dropped 1 (bt_stats t)"

lemma enqueue_accounted: "queued_or_dropped m t (snd (enqueue m (t\<lparr>bt_state := s\<rparr>)))"
  using enqueue_cases [of "t\<lparr>bt_state := s\<rparr>" m] by (auto simp: queued_or_dropped_def)

lemma downlink_accounted:
  assumes ok: "bridge_ok (bt_state t)" and t': "t' = bridge_downlink J tx json t"
    and "i = next_sequence (bt_state t)" "pend = (\<lambda>t. lm_get (in_flight (bt_state t)))"
  shows "(\<exists>d c. parse_downlink J json = Inr d \<and> tx (dl_payload d) = Inr c
        \<and> t' = t\<lparr>bt_state := bt_state t',
            bt_commands := bt_commands t @ [\<lparr>env_command = c, env_source = WiFi, env_sequence_id = i\<rparr>]\<rparr>
        \<and> pend t' = (pend t)(i \<mapsto> dl_id d))
      \<or> (bt_commands t' = bt_commands t \<and> (pend t' = pend t \<or> pend t' = (pend t)(i := None))
        \<and> (\<exists>m. out_topic m = TxResult \<and> queued_or_dropped m t t'))"
proof -
  let ?s = "bt_state t"
  obtain r s' where d: "on_downlink J tx json ?s = (r, s')" by force
  have put: "lm_get (lm_insert MAX_IN_FLIGHT i x (in_flight ?s)) = (pend t)(i \<mapsto> x)" if "length (in_flight ?s) < MAX_IN_FLIGHT" for x
    using that by (intro ext) (simp add: lm.get_put assms(4))
  then have del: "lm_get (lm_remove i (lm_insert MAX_IN_FLIGHT i x (in_flight ?s))) = (pend t)(i := None)"
    if "length (in_flight ?s) < MAX_IN_FLIGHT" for x
    using that by (intro ext) (simp add: lm_get_remove)
  have reject: ?thesis if "r = Reject m" "out_topic m = TxResult" "lm_get (in_flight s') \<in> {pend t, (pend t)(i := None)}" for m
    using that enqueue_accounted [of m t s'] by (intro disjI2) (auto simp: t' bridge_downlink_def d assms(4))
  from d ok show ?thesis
  proof (cases rule: on_downlink_cases)
    case (oversize q)
    then show ?thesis using del by (intro reject) (auto simp: tx_result_def assms(3))
  next
    case (sent q c)
    show ?thesis
    proof (cases "length (bt_commands t) < COMMAND_CHANNEL_SIZE")
      case True
      then show ?thesis using sent put [of "dl_id q"]
        by (intro disjI1 exI [of _ q] exI [of _ c]) (simp add: t' bridge_downlink_def d try_send_def assms(3,4))
    next
      case False
      let ?m = "fst (abandon J (next_sequence ?s) (lit ''queue_full'') s')"
      have s2: "snd (abandon J (next_sequence ?s) why s')
          = s'\<lparr>in_flight := lm_remove (next_sequence ?s) (in_flight s')\<rparr>" for why
        by (simp add: abandon_def Let_def)
      have e: "t' = snd (enqueue ?m (t\<lparr>bt_state := s'\<lparr>in_flight := lm_remove (next_sequence ?s) (in_flight s')\<rparr>\<rparr>))"
        using False sent(4) by (simp add: t' bridge_downlink_def d try_send_def case_prod_beta s2)
      have "out_topic ?m = TxResult" by (simp add: abandon_def tx_result_def Let_def)
      moreover have "pend t' = (pend t)(i := None)"
        using del [OF sent(2), of "dl_id q"] by (simp add: e assms(3,4) sent(5))
      ultimately show ?thesis using enqueue_accounted [of ?m t] by (intro disjI2) (auto simp: e)
    qed
  qed (use reject in \<open>auto simp: tx_result_def assms(4)\<close>)
qed

definition packet_done :: "json_lib \<Rightarrow> bytes \<Rightarrow> i16 \<Rightarrow> i8 \<Rightarrow> u64 \<Rightarrow> bridge_task \<Rightarrow> bridge_task \<Rightarrow> bool" where
  "packet_done J data rssi snr uptime t t' \<longleftrightarrow>
     (let m = \<lparr>out_topic = Rx, out_payload = uplink_json J data rssi snr (rx_seq (bt_state t)) uptime,
                out_retain = False\<rparr>;
          t1 = t\<lparr>bt_state := (bt_state t)\<lparr>rx_seq := rx_seq (bt_state t) + 1\<rparr>\<rparr>
      in if length (bt_out t) < MQTT_OUT_SIZE
         then t' = t1\<lparr>bt_out := bt_out t @ [m], bt_stats := count_uplink (bt_stats t)\<rparr>
         else t' = t1\<lparr>bt_stats := count_dropped 1 (bt_stats t)\<rparr>)"

lemma packet_accounted:
  "packet_done J data rssi snr uptime t (bridge_message J (Unsolicited (RxPacket data rssi snr)) uptime t)"
  by (simp add: packet_done_def on_rx_packet_def enqueue_def try_send_def Let_def)

definition sample_tx :: lora_tx where
  "sample_tx p = Inr (LoraTx p)"

lemma sample_request: "parse_downlink sample_json (lit ''x'') = Inr \<lparr>dl_payload = [0x48, 0x69], dl_id = Some 42\<rparr>"
  by (simp add: parse_downlink_def sample_json_def hex_decode_def hex_digit_def extend_cap_def push_bit_eq_mult)

text \<open>
  C23. Every answer reaches the request it belongs to: after a downlink request has been sent with
  sequence number \<open>i\<close>, the radio's answer to \<open>i\<close> is published with the identifier of that request,
  whatever packets, further requests, answers to others and abandoned requests come in between (up
  to the wrap of the 16-bit sequence counter), and a second answer is ignored.
\<close>

theorem answers_reach_their_request:
  assumes "bridge_ok s" and "on_downlink J tx json s = (Send i c, s1)" and "length ops < 65535"
    and "\<forall>op \<in> set ops. \<not> addresses i op"
  shows "\<exists>d s3. parse_downlink J json = Inr d \<and> tx (dl_payload d) = Inr c
    \<and> on_command_response J i r (do_ops J tx ops s1) = (Some (result_of J (dl_id d) r), s3)
    \<and> on_command_response J i r' s3 = (None, s3)"
proof -
  obtain d where d: "parse_downlink J json = Inr d" "tx (dl_payload d) = Inr c" "next_sequence s1 = i + of_nat 1"
    "lm_get (in_flight s1) i = Some (dl_id d)"
    using sent_is_in_flight [OF assms(2,1)] by auto
  have "lm_get (in_flight (do_ops J tx ops s1)) i = Some (dl_id d)"
    using do_ops_keep [OF on_downlink_ok [OF assms(2,1)] d(3)] assms(3,4) d(4) by simp
  then show ?thesis using d(1,2)
    by (simp add: on_command_response_def lm.get_del)
qed

theorem answers_reach_their_request_witness:
  "\<exists>s3. on_command_response sample_json 0 (TxRefused 30)
     (do_ops sample_json sample_tx [OpDownlink (lit ''x''), OpResponse 1 TxComplete]
       (snd (on_downlink sample_json sample_tx (lit ''x'') new_bridge)))
     = (Some (result_of sample_json (Some 42) (TxRefused 30)), s3)"
proof -
  obtain s1 where s1: "on_downlink sample_json sample_tx (lit ''x'') new_bridge = (Send 0 (LoraTx [0x48, 0x69]), s1)"
    by (simp only: on_downlink_def sample_request)
      (simp add: new_bridge_def MAX_IN_FLIGHT_def sample_tx_def Let_def)
  have "\<exists>d s3. parse_downlink sample_json (lit ''x'') = Inr d \<and> sample_tx (dl_payload d) = Inr (LoraTx [0x48, 0x69])
    \<and> on_command_response sample_json 0 (TxRefused 30)
        (do_ops sample_json sample_tx [OpDownlink (lit ''x''), OpResponse 1 TxComplete] s1)
      = (Some (result_of sample_json (dl_id d) (TxRefused 30)), s3)
    \<and> on_command_response sample_json 0 TxComplete s3 = (None, s3)"
    by (rule answers_reach_their_request [OF bridge_ok_new s1]) simp_all
  then show ?thesis unfolding s1 snd_conv sample_request by auto
qed

text \<open>
  C24. Every downlink request and every received packet is accounted for. A request ends in exactly
  one of: its command in the dispatcher's queue under the next number, with the request in flight
  under that number, a result in the queue to the MQTT task, or, when that queue is full, the dropped
  counter. No request in flight under another number is added, lost or changed. The entry under the
  next number itself, which only exists when its answer was lost 65536 requests ago, is replaced by an
  accepted request and may be removed by a rejected one. A packet takes the next sequence number and is
  either queued and counted as an uplink or counted as dropped.
\<close>

theorem requests_and_packets_are_accounted:
  assumes "bridge_ok (bt_state t)"
    and "t' = bridge_turn J tx (DownlinkJson json) t" and "i = next_sequence (bt_state t)"
    and "pend = (\<lambda>t. lm_get (in_flight (bt_state t)))"
    and "t'' = bridge_turn J tx (BusMessage (Unsolicited (RxPacket data rssi snr)) uptime) t"
  shows "((\<exists>d c. parse_downlink J json = Inr d \<and> tx (dl_payload d) = Inr c
        \<and> t' = t\<lparr>bt_state := bt_state t',
            bt_commands := bt_commands t @ [\<lparr>env_command = c, env_source = WiFi, env_sequence_id = i\<rparr>]\<rparr>
        \<and> pend t' = (pend t)(i \<mapsto> dl_id d))
      \<or> (bt_commands t' = bt_commands t \<and> (pend t' = pend t \<or> pend t' = (pend t)(i := None))
        \<and> (\<exists>m. out_topic m = TxResult \<and> queued_or_dropped m t t')))
    \<and> packet_done J data rssi snr uptime t t''"
proof -
  have "t' = bridge_downlink J tx json t" using assms(2) by simp
  moreover have "packet_done J data rssi snr uptime t t''" using assms(5) packet_accounted by (simp only: bridge_turn.simps)
  ultimately show ?thesis using downlink_accounted [OF assms(1) _ assms(3,4)] by blast
qed

theorem requests_and_packets_are_accounted_witness:
  "packet_done sample_json [1, 2] (- 90) 7 1000
     \<lparr>bt_state = new_bridge, bt_commands = [], bt_out = [], bt_stats = new_stats\<rparr>
     (bridge_turn sample_json sample_tx (BusMessage (Unsolicited (RxPacket [1, 2] (- 90) 7)) 1000)
       \<lparr>bt_state = new_bridge, bt_commands = [], bt_out = [], bt_stats = new_stats\<rparr>)"
proof -
  have "bridge_ok (bt_state \<lparr>bt_state = new_bridge, bt_commands = [], bt_out = [], bt_stats = new_stats\<rparr>)"
    by (simp add: bridge_ok_new)
  then show ?thesis by (rule requests_and_packets_are_accounted [THEN conjunct2, OF _ refl refl refl refl])
qed

text \<open>
  C25. Lost answers block the bridge for good: once four requests are in flight and their answers do
  not arrive (the bridge counts messages it missed on the response channel but keeps their
  requests), no later downlink request is ever passed to the radio, whatever else happens: the
  requests in flight stay and the command queue only drains.
\<close>

theorem lost_answers_block_the_bridge:
  assumes "length (in_flight (bt_state t)) = 4" and "\<forall>e \<in> set es. \<not> is_answer (bt_state t) e"
  shows "(\<exists>n. bt_commands (bridge_run J tx es t) = drop n (bt_commands t))
    \<and> (\<forall>json d. parse_downlink J json = Inr d \<longrightarrow>
        fst (on_downlink J tx json (bt_state (bridge_run J tx es t))) = Reject (tx_result J (lit ''busy'') (dl_id d) None))"
  using blocked_run [of t es J tx] assms by (simp add: MAX_IN_FLIGHT_def on_downlink_def)

theorem lost_answers_block_the_bridge_witness:
  "\<exists>n. bt_commands (bridge_run sample_json sample_tx [Lagged 4, DownlinkJson (lit ''x''), CommandTaken]
       \<lparr>bt_state = \<lparr>in_flight = [(0, None), (1, None), (2, None), (3, Some 9)], next_sequence = 4, rx_seq = 0\<rparr>,
        bt_commands = [], bt_out = [], bt_stats = new_stats\<rparr>) = drop n []"
proof -
  let ?t = "\<lparr>bt_state = \<lparr>in_flight = [(0, None), (1, None), (2, None), (3, Some 9)], next_sequence = 4, rx_seq = 0\<rparr>,
        bt_commands = [], bt_out = [], bt_stats = new_stats\<rparr>"
  have "\<forall>e \<in> set [Lagged 4, DownlinkJson (lit ''x''), CommandTaken]. \<not> is_answer (bt_state ?t) e"
    by (simp add: is_answer_def)
  from lost_answers_block_the_bridge [of ?t, OF _ this] show ?thesis by simp
qed

end
