(* ===== verification/Net_Topics.thy ===== *)
theory Net_Topics imports Bridge begin

text \<open>
  The publishing seam of the MQTT side (\<open>src/net/traits.rs\<close>): the topic names of a hub, the delivery
  of a queued publication through an arbitrary sink, and the recording mock sink. What a sink
  promises is the locale \<open>mqtt_sink\<close>.
\<close>

subsection \<open>Topic names\<close>

text \<open>The device identifier as upper case digits; each digit is pushed on its own, a full string drops it.\<close>

fun push_id :: "nat \<Rightarrow> rtext \<Rightarrow> bytes \<Rightarrow> rtext" where
  "push_id cap s [] = s"
| "push_id cap s (b # bs) =
     push_id cap (push_cap cap (push_cap cap s [hex_upper (high_nibble b)]) [hex_upper (low_nibble b)]) bs"

record topic_set =
  ts_rx :: rtext
  ts_tx :: rtext
  ts_tx_result :: rtext
  ts_status :: rtext

definition with_suffix :: "rtext \<Rightarrow> rtext \<Rightarrow> rtext" where
  "with_suffix base suffix = push_cap 32 (push_cap 32 [] base) suffix"

definition new_topics :: "bytes \<Rightarrow> topic_set" where
  "new_topics device_id =
     (let base = push_id 16 (push_cap 16 [] (lit ''wt/hub/'')) device_id
      in \<lparr>ts_rx = with_suffix base (lit ''/rx''), ts_tx = with_suffix base (lit ''/tx''),
          ts_tx_result = with_suffix base (lit ''/tx/result''), ts_status = with_suffix base (lit ''/status'')\<rparr>)"

fun resolve :: "topic_set \<Rightarrow> topic \<Rightarrow> rtext" where
  "resolve topics Rx = ts_rx topics"
| "resolve topics TxResult = ts_tx_result topics"

lemma push_id_fits:
  "length s + 2 * length device_id \<le> cap \<Longrightarrow>
   push_id cap s device_id = s @ concat (map hex_byte_upper device_id)"
  by (induction cap s device_id rule: push_id.induct) (simp_all add: hex_byte_upper_def)

lemma length_hex_upper: "length (concat (map hex_byte_upper bs)) = 2 * length bs"
  by (induction bs) (simp_all add: hex_byte_upper_def)

text \<open>For the three bytes of a device identifier nothing is cut off.\<close>

lemma topics_complete:
  assumes "length device_id = 3"
  shows "new_topics device_id =
    (let base = lit ''wt/hub/'' @ concat (map hex_byte_upper device_id)
     in \<lparr>ts_rx = base @ lit ''/rx'', ts_tx = base @ lit ''/tx'',
         ts_tx_result = base @ lit ''/tx/result'', ts_status = base @ lit ''/status''\<rparr>)"
  using assms length_hex_upper [of device_id]
  by (simp add: new_topics_def with_suffix_def push_id_fits Let_def)

lemma topics_distinct:
  assumes "length device_id = 3"
  shows "distinct [ts_rx (new_topics device_id), ts_tx (new_topics device_id),
    ts_tx_result (new_topics device_id), ts_status (new_topics device_id)]"
  unfolding topics_complete [OF assms] by (simp add: Let_def)

lemma topics_of_hubs_differ:
  assumes "length i = 3" "length j = 3" "ts_tx (new_topics i) = ts_tx (new_topics j)"
  shows "concat (map hex_byte_upper i) = concat (map hex_byte_upper j)"
  using assms unfolding topics_complete [OF assms(1)] topics_complete [OF assms(2)] by (simp add: Let_def)

subsection \<open>Sinks\<close>

datatype sink_error = SinkError

type_synonym publication = "rtext \<times> bytes \<times> bool"
type_synonym 's publish = "rtext \<Rightarrow> bytes \<Rightarrow> bool \<Rightarrow> 's \<Rightarrow> (sink_error + unit) \<times> 's"

definition deliver :: "'s publish \<Rightarrow> topic_set \<Rightarrow> mqtt_outbound \<Rightarrow> 's \<Rightarrow> (sink_error + unit) \<times> 's" where
  "deliver pub topics m s = pub (resolve topics (out_topic m)) (out_payload m) (out_retain m) s"

text \<open>What the sink is handed for a queued publication.\<close>

definition publication_of :: "topic_set \<Rightarrow> mqtt_outbound \<Rightarrow> publication" where
  "publication_of topics m = (resolve topics (out_topic m), out_payload m, out_retain m)"

record mock_sink =
  published :: "publication list"
  fail_next :: bool

definition mock_publish :: "mock_sink publish" where
  "mock_publish topic payload retain s =
     (if fail_next s then (Inl SinkError, s\<lparr>fail_next := False\<rparr>)
      else (Inr (), s\<lparr>published := published s @ [(topic, payload, retain)]\<rparr>))"

text \<open>
  The contract of a sink: a publication that succeeds has been passed on last, one that fails may
  or may not have been, and nothing else changes what was passed on.
\<close>

locale mqtt_sink =
  fixes pub :: "'s publish" and sent :: "'s \<Rightarrow> publication list"
  assumes success_sends: "pub t p r s = (Inr (), s') \<Longrightarrow> sent s' = sent s @ [(t, p, r)]"
    and failure_adds_nothing_else: "pub t p r s = (Inl e, s') \<Longrightarrow> sent s' = sent s \<or> sent s' = sent s @ [(t, p, r)]"
begin

lemma deliver_success:
  "deliver pub topics m s = (Inr (), s') \<Longrightarrow> sent s' = sent s @ [publication_of topics m]"
  by (simp add: deliver_def publication_of_def success_sends)

lemma deliver_any:
  assumes "deliver pub topics m s = (r, s')"
  shows "sent s' \<in> {sent s, sent s @ [publication_of topics m]}"
  using assms failure_adds_nothing_else success_sends
  by (cases r) (auto simp: deliver_def publication_of_def)

end

interpretation mock_sink: mqtt_sink mock_publish published
  by unfold_locales (auto simp: mock_publish_def split: if_splits)

text \<open>Upper case hexadecimal digits are neither wildcards nor separators.\<close>

lemma hex_upper_range: "n < 16 \<Longrightarrow> 0x2F \<le> hex_upper n \<and> hex_upper n < 0x7F"
  using nibble_cases [of n] by (auto simp: hex_upper_def)

lemma hex_id_range: "b \<in> set (concat (map hex_byte_upper bs)) \<Longrightarrow> 0x2F \<le> b \<and> b < 0x7F"
  using hex_upper_range nibble_range by (auto simp: hex_byte_upper_def)

text \<open>A reported link state other than the default is the stored one.\<close>

lemma link_or_default_Connected: "link_or_default b = Connected \<longleftrightarrow> b = link_state_byte Connected"
proof -
  have "link_or_default b = Connected \<longleftrightarrow> link_state_from_byte b = Some Connected"
    by (auto simp: link_or_default_def split: option.split)
  then show ?thesis by (simp only: link_state_byte_iff)
qed

end
