(* ===== verification/Hub_Config.thy ===== *)
theory Hub_Config imports Hub_Types Rust_Format begin

text \<open>
  The hub configuration (\<open>src/hub_config/mod.rs\<close>): the defaults baked in at build time, the choice
  between them and the stored value at boot, the effect of every command on the pending
  configuration, and the flash store (\<open>src/hub_config/store.rs\<close>). The build environment is the
  record \<open>build_env\<close>; the partition table reader and the flash map come from other crates and are
  the fields of \<open>flash\<close>.
\<close>

subsection \<open>The configuration and its defaults\<close>

definition CONFIG_SCHEMA_VERSION :: u8 where "CONFIG_SCHEMA_VERSION = 1"

record hub_config =
  cfg_version :: u8
  cfg_mode :: hub_mode
  cfg_wifi :: wifi_settings
  cfg_mqtt :: mqtt_settings
  cfg_gateway :: gateway_settings

text \<open>The variables \<open>HUB_*\<close> of the build, each set or not.\<close>

record build_env =
  HUB_WIFI_SSID :: "rtext option"
  HUB_WIFI_PASSWORD :: "rtext option"
  HUB_MQTT_HOST :: "rtext option"
  HUB_MQTT_PORT :: "rtext option"
  HUB_MQTT_CLIENT_ID :: "rtext option"
  HUB_MODE :: "rtext option"
  HUB_GW_HOST :: "rtext option"
  HUB_GW_PORT :: "rtext option"

definition baked_str :: "nat \<Rightarrow> rtext option \<Rightarrow> rtext" where
  "baked_str cap v = (case v of None \<Rightarrow> [] | Some s \<Rightarrow> if length s \<le> cap then s else [])"

definition parse_port :: "rtext option \<Rightarrow> u16 option" where
  "parse_port v = Option.bind v (\<lambda>s. map_option of_nat (parse_uint 65535 s))"

definition parse_mode :: "rtext option \<Rightarrow> hub_mode" where
  "parse_mode v = (if v = Some (lit ''gateway'') then LorawanGateway else Bridge)"

definition default_config :: "build_env \<Rightarrow> hub_config" where
  "default_config E =
     (let gateway = default_gateway\<lparr>gw_host := baked_str MAX_HOST_LEN (HUB_GW_HOST E)\<rparr>;
          gateway = (case parse_port (HUB_GW_PORT E) of None \<Rightarrow> gateway | Some p \<Rightarrow> gateway\<lparr>gw_port := p\<rparr>)
      in \<lparr>cfg_version = CONFIG_SCHEMA_VERSION,
          cfg_mode = parse_mode (HUB_MODE E),
          cfg_wifi = \<lparr>ssid = baked_str MAX_SSID_LEN (HUB_WIFI_SSID E),
                      password = baked_str MAX_PASSWORD_LEN (HUB_WIFI_PASSWORD E)\<rparr>,
          cfg_mqtt = \<lparr>mqtt_host = baked_str MAX_HOST_LEN (HUB_MQTT_HOST E),
                      mqtt_port = (case parse_port (HUB_MQTT_PORT E) of None \<Rightarrow> 1883 | Some p \<Rightarrow> p),
                      client_id = baked_str MAX_CLIENT_ID_LEN (HUB_MQTT_CLIENT_ID E)\<rparr>,
          cfg_gateway = gateway\<rparr>)"

definition wifi_provisioned :: "hub_config \<Rightarrow> bool" where
  "wifi_provisioned c \<longleftrightarrow> ssid (cfg_wifi c) \<noteq> []"

definition select_config :: "build_env \<Rightarrow> hub_config option \<Rightarrow> hub_config" where
  "select_config E stored =
     (case stored of
        Some c \<Rightarrow> if cfg_version c = CONFIG_SCHEMA_VERSION then c else default_config E
      | None \<Rightarrow> default_config E)"

subsection \<open>Commands on the pending configuration\<close>

datatype config_action = NoAction | SaveConfig | ClearConfig

definition gateway_settings_valid :: "gateway_settings \<Rightarrow> bool" where
  "gateway_settings_valid g \<longleftrightarrow>
     (150000000 \<le> gw_frequency_hz g \<and> gw_frequency_hz g \<le> 960000000)
     \<and> (7 \<le> gw_spreading_factor g \<and> gw_spreading_factor g \<le> 12)
     \<and> gw_bandwidth_khz g \<in> {125, 250, 500}
     \<and> (5 \<le> gw_coding_rate g \<and> gw_coding_rate g \<le> 8)
     \<and> gw_port g \<noteq> 0"

fun apply_command :: "build_env \<Rightarrow> hub_config \<Rightarrow> hub_command \<Rightarrow> (ack_status + config_action) \<times> hub_config" where
  "apply_command E p (SetWifiConfig w) = (Inr SaveConfig, p\<lparr>cfg_wifi := w\<rparr>)"
| "apply_command E p (SetMqttConfig m) =
     (if mqtt_port m = 0 then (Inl InvalidValue, p) else (Inr SaveConfig, p\<lparr>cfg_mqtt := m\<rparr>))"
| "apply_command E p (SetGatewayConfig g) =
     (if \<not> gateway_settings_valid g then (Inl InvalidValue, p)
      else (Inr SaveConfig, p\<lparr>cfg_gateway := g\<rparr>))"
| "apply_command E p (SetMode m) = (Inr SaveConfig, p\<lparr>cfg_mode := m\<rparr>)"
| "apply_command E p ClearNetworkConfig = (Inr ClearConfig, default_config E)"
| "apply_command E p GetNetworkConfig = (Inr NoAction, p)"
| "apply_command E p GetHubStatus = (Inr NoAction, p)"

definition network_config_response :: "hub_config \<Rightarrow> hub_response" where
  "network_config_response c =
     NetworkConfig (cfg_mode c) (ssid (cfg_wifi c)) (cfg_mqtt c) (cfg_gateway c)"

subsection \<open>The invariant of every configuration in use\<close>

text \<open>The string bounds of the types, and the limits the commands enforce.\<close>

definition config_typed :: "hub_config \<Rightarrow> bool" where
  "config_typed c \<longleftrightarrow> wifi_ok (cfg_wifi c) \<and> mqtt_ok (cfg_mqtt c) \<and> gateway_ok (cfg_gateway c)"

definition config_valid :: "hub_config \<Rightarrow> bool" where
  "config_valid c \<longleftrightarrow> config_typed c \<and> cfg_version c = CONFIG_SCHEMA_VERSION
     \<and> mqtt_port (cfg_mqtt c) \<noteq> 0 \<and> gateway_settings_valid (cfg_gateway c)"

text \<open>
  The build variables are texts. A port may be written as zero: \<open>parse_port\<close> takes it and no check
  follows, so a hub built that way has it in its defaults. \<open>usable\<close> is what holds of every
  configuration on any build; with ports that are not written as zero it is \<open>config_valid\<close>.
\<close>

definition env_texts :: "build_env \<Rightarrow> bool" where
  "env_texts E \<longleftrightarrow>
     (\<forall>v \<in> {HUB_WIFI_SSID E, HUB_WIFI_PASSWORD E, HUB_MQTT_HOST E, HUB_MQTT_CLIENT_ID E, HUB_GW_HOST E}.
        case v of None \<Rightarrow> True | Some s \<Rightarrow> utf8_ok s)"

definition env_ok :: "build_env \<Rightarrow> bool" where
  "env_ok E \<longleftrightarrow> env_texts E \<and> parse_port (HUB_MQTT_PORT E) \<noteq> Some 0 \<and> parse_port (HUB_GW_PORT E) \<noteq> Some 0"

definition usable :: "build_env \<Rightarrow> hub_config \<Rightarrow> bool" where
  "usable E c \<longleftrightarrow> config_typed c \<and> cfg_version c = CONFIG_SCHEMA_VERSION
     \<and> gateway_settings_valid ((cfg_gateway c)\<lparr>gw_port := 1\<rparr>)
     \<and> (mqtt_port (cfg_mqtt c) = 0 \<longrightarrow> parse_port (HUB_MQTT_PORT E) = Some 0)
     \<and> (gw_port (cfg_gateway c) = 0 \<longrightarrow> parse_port (HUB_GW_PORT E) = Some 0)"

lemma valid_usable: "config_valid c \<Longrightarrow> usable E c"
  by (simp add: config_valid_def usable_def gateway_settings_valid_def)

lemma usable_valid: "env_ok E \<Longrightarrow> usable E c \<Longrightarrow> config_valid c"
  by (auto simp: config_valid_def usable_def gateway_settings_valid_def env_ok_def)

lemma baked_str_ok: "(\<And>s. v = Some s \<Longrightarrow> utf8_ok s) \<Longrightarrow> text_ok cap (baked_str cap v)"
  by (auto simp: baked_str_def text_ok_def split: option.split)

lemma default_config_usable:
  assumes "env_texts E" shows "usable E (default_config E)"
proof -
  have e: "\<forall>v \<in> {HUB_WIFI_SSID E, HUB_WIFI_PASSWORD E, HUB_MQTT_HOST E, HUB_MQTT_CLIENT_ID E, HUB_GW_HOST E}.
      case v of None \<Rightarrow> True | Some s \<Rightarrow> utf8_ok s"
    using assms unfolding env_texts_def by blast
  have s: "text_ok cap (baked_str cap v)"
    if "v \<in> {HUB_WIFI_SSID E, HUB_WIFI_PASSWORD E, HUB_MQTT_HOST E, HUB_MQTT_CLIENT_ID E, HUB_GW_HOST E}" for v cap
    using bspec [OF e that] by (intro baked_str_ok) simp
  have typed: "config_typed (default_config E)"
    by (simp add: config_typed_def default_config_def wifi_ok_def mqtt_ok_def gateway_ok_def s Let_def
        split: option.split)
  have "mqtt_port (cfg_mqtt (default_config E)) = 0 \<longrightarrow> parse_port (HUB_MQTT_PORT E) = Some 0"
    by (cases "parse_port (HUB_MQTT_PORT E)") (simp_all add: default_config_def Let_def)
  moreover have "gw_port (cfg_gateway (default_config E)) = 0 \<longrightarrow> parse_port (HUB_GW_PORT E) = Some 0"
    by (cases "parse_port (HUB_GW_PORT E)") (simp_all add: default_config_def default_gateway_def Let_def)
  moreover have "gateway_settings_valid ((cfg_gateway (default_config E))\<lparr>gw_port := 1\<rparr>)"
    by (cases "parse_port (HUB_GW_PORT E)")
      (simp_all add: default_config_def gateway_settings_valid_def default_gateway_def Let_def)
  moreover have "cfg_version (default_config E) = CONFIG_SCHEMA_VERSION"
    by (simp add: default_config_def Let_def)
  ultimately show ?thesis using typed unfolding usable_def by blast
qed

lemma default_config_valid: "env_ok E \<Longrightarrow> config_valid (default_config E)"
  using default_config_usable usable_valid by (simp add: env_ok_def)

lemma apply_command_usable:
  assumes "env_texts E" "usable E p" "hub_command_ok c"
  shows "usable E (snd (apply_command E p c))"
  using assms default_config_usable [OF assms(1)]
  by (cases c) (auto simp: usable_def config_typed_def gateway_settings_valid_def)

lemma select_config_usable:
  assumes "env_texts E" "\<And>c. stored = Some c \<Longrightarrow> cfg_version c = CONFIG_SCHEMA_VERSION \<Longrightarrow> usable E c"
  shows "usable E (select_config E stored)"
  using assms default_config_usable by (auto simp: select_config_def split: option.split)

lemma apply_command_rejects_iff:
  "fst (apply_command E p c) = Inl a \<longleftrightarrow> a = InvalidValue
     \<and> (case c of SetMqttConfig m \<Rightarrow> mqtt_port m = 0 | SetGatewayConfig g \<Rightarrow> \<not> gateway_settings_valid g | _ \<Rightarrow> False)"
  by (cases c) auto

lemma apply_command_unchanged:
  "fst (apply_command E p c) = Inl a \<or> fst (apply_command E p c) = Inr NoAction \<Longrightarrow> snd (apply_command E p c) = p"
  by (cases c) (auto split: if_splits)

subsection \<open>The flash store\<close>

datatype store_error = NoNvsPartition | BadPartition | FlashFailed

text \<open>
  The other crates: the partition table of a flash (or that it cannot be read), finding the nvs
  partition in it (its offset and length), the validity of a range for the map, and the fetch,
  store and remove operations of the map by key.
\<close>

record ('f, 't) flash =
  read_partition_table :: "'f \<Rightarrow> 't option"
  find_nvs :: "'t \<Rightarrow> (unit + (u32 \<times> u32) option)"
  range_valid :: "u32 \<times> u32 \<Rightarrow> bool"
  fetch_item :: "'f \<Rightarrow> u32 \<times> u32 \<Rightarrow> u8 \<Rightarrow> (unit + hub_config option) \<times> 'f"
  store_item :: "'f \<Rightarrow> u32 \<times> u32 \<Rightarrow> u8 \<Rightarrow> hub_config \<Rightarrow> bool \<times> 'f"
  remove_item :: "'f \<Rightarrow> u32 \<times> u32 \<Rightarrow> u8 \<Rightarrow> bool \<times> 'f"

definition CONFIG_KEY :: u8 where "CONFIG_KEY = 0"

definition find_nvs_range :: "('f, 't) flash \<Rightarrow> 'f \<Rightarrow> store_error + u32 \<times> u32" where
  "find_nvs_range F f =
     rbind (ok_or (read_partition_table F f) NoNvsPartition) (\<lambda>t.
       rbind (map_err (\<lambda>_. NoNvsPartition) (find_nvs F t)) (\<lambda>m.
         rbind (ok_or m NoNvsPartition) (\<lambda>(offset, len). Inr (offset, offset + len))))"

text \<open>The store: the range of its map and the flash it owns.\<close>

record 'f config_store =
  cs_range :: "u32 \<times> u32"
  cs_flash :: 'f

definition new_store :: "('f, 't) flash \<Rightarrow> 'f \<Rightarrow> store_error + 'f config_store" where
  "new_store F f =
     rbind (find_nvs_range F f) (\<lambda>r.
       if range_valid F r then Inr \<lparr>cs_range = r, cs_flash = f\<rparr> else Inl BadPartition)"

definition load :: "('f, 't) flash \<Rightarrow> 'f config_store \<Rightarrow> hub_config option \<times> 'f config_store" where
  "load F s =
     (let (r, f) = fetch_item F (cs_flash s) (cs_range s) CONFIG_KEY
      in (case r of Inr (Some c) \<Rightarrow> Some c | _ \<Rightarrow> None, s\<lparr>cs_flash := f\<rparr>))"

definition save :: "('f, 't) flash \<Rightarrow> hub_config \<Rightarrow> 'f config_store \<Rightarrow> (store_error + unit) \<times> 'f config_store" where
  "save F c s =
     (let (ok, f) = store_item F (cs_flash s) (cs_range s) CONFIG_KEY c
      in (if ok then Inr () else Inl FlashFailed, s\<lparr>cs_flash := f\<rparr>))"

definition clear :: "('f, 't) flash \<Rightarrow> 'f config_store \<Rightarrow> (store_error + unit) \<times> 'f config_store" where
  "clear F s =
     (let (ok, f) = remove_item F (cs_flash s) (cs_range s) CONFIG_KEY
      in (if ok then Inr () else Inl FlashFailed, s\<lparr>cs_flash := f\<rparr>))"

text \<open>
  What the store relies on from the map: \<open>A\<close> reads what a flash holds in a range. A fetch that
  succeeds returns it and no fetch changes it; a store or removal that succeeds takes effect, and
  one that fails leaves the old entry, the new one or none.
\<close>

definition flash_ok :: "('f, 't) flash \<Rightarrow> ('f \<Rightarrow> u32 \<times> u32 \<Rightarrow> hub_config option) \<Rightarrow> bool" where
  "flash_ok F A \<longleftrightarrow>
     (\<forall>f r. (\<forall>x. fst (fetch_item F f r CONFIG_KEY) = Inr x \<longrightarrow> x = A f r)
        \<and> A (snd (fetch_item F f r CONFIG_KEY)) r = A f r)
     \<and> (\<forall>f r c. if fst (store_item F f r CONFIG_KEY c) then A (snd (store_item F f r CONFIG_KEY c)) r = Some c
          else A (snd (store_item F f r CONFIG_KEY c)) r \<in> {A f r, Some c, None})
     \<and> (\<forall>f r. if fst (remove_item F f r CONFIG_KEY) then A (snd (remove_item F f r CONFIG_KEY)) r = None
          else A (snd (remove_item F f r CONFIG_KEY)) r \<in> {A f r, None})"

definition stored_config :: "('f \<Rightarrow> u32 \<times> u32 \<Rightarrow> hub_config option) \<Rightarrow> 'f config_store \<Rightarrow> hub_config option" where
  "stored_config A s = A (cs_flash s) (cs_range s)"

lemma load_stored:
  assumes "flash_ok F A"
  shows "stored_config A (snd (load F s)) = stored_config A s \<and> fst (load F s) \<in> {stored_config A s, None}"
proof -
  obtain x f where e: "fetch_item F (cs_flash s) (cs_range s) CONFIG_KEY = (x, f)" by force
  have "(\<forall>y. x = Inr y \<longrightarrow> y = A (cs_flash s) (cs_range s)) \<and> A f (cs_range s) = A (cs_flash s) (cs_range s)"
    using assms e unfolding flash_ok_def by (metis fst_conv snd_conv)
  then show ?thesis by (auto simp: load_def stored_config_def e split: sum.split option.split)
qed

lemma save_stored:
  assumes "flash_ok F A"
  shows "if fst (save F c s) = Inr () then stored_config A (snd (save F c s)) = Some c
    else stored_config A (snd (save F c s)) \<in> {stored_config A s, Some c, None}"
proof -
  obtain ok f where e: "store_item F (cs_flash s) (cs_range s) CONFIG_KEY c = (ok, f)" by force
  have "if fst (ok, f) then A (snd (ok, f)) (cs_range s) = Some c
    else A (snd (ok, f)) (cs_range s) \<in> {A (cs_flash s) (cs_range s), Some c, None}"
    using assms unfolding flash_ok_def e [symmetric] by blast
  then show ?thesis by (simp add: save_def stored_config_def e split: if_splits)
qed

lemma clear_stored:
  assumes "flash_ok F A"
  shows "if fst (clear F s) = Inr () then stored_config A (snd (clear F s)) = None
    else stored_config A (snd (clear F s)) \<in> {stored_config A s, None}"
proof -
  obtain ok f where e: "remove_item F (cs_flash s) (cs_range s) CONFIG_KEY = (ok, f)" by force
  have "if fst (ok, f) then A (snd (ok, f)) (cs_range s) = None
    else A (snd (ok, f)) (cs_range s) \<in> {A (cs_flash s) (cs_range s), None}"
    using assms unfolding flash_ok_def e [symmetric] by blast
  then show ?thesis by (simp add: clear_def stored_config_def e split: if_splits)
qed

end
