(* ===== verification/Mqtt_Task.thy ===== *)
theory Mqtt_Task imports Net_Topics Hub_Config Lora_Traits begin

text \<open>
  The MQTT task (\<open>src/tasks/mqtt.rs\<close>): name resolution, sessions with the broker, and the pump between
  the client and the queues of the bridge. The client library is the parameter record \<open>mqtt_lib\<close>:
  each request to it succeeds or fails and changes its state, and polling it yields a packet, nothing
  of interest or a failure. Resolver and TCP belong to the network stack: a connection attempt
  carries their answers. Requests to the client are recorded in a log with their outcome.
\<close>

subsection \<open>Name resolution\<close>

type_synonym ipv4 = "u8 \<times> u8 \<times> u8 \<times> u8"

text \<open>
  The address literals of the standard library: four decimal numbers of one to three digits without
  leading zeros, separated by dots.
\<close>

fun split_dots :: "rtext \<Rightarrow> rtext list" where
  "split_dots [] = [[]]"
| "split_dots (b # bs) =
     (if b = 0x2E then [] # split_dots bs
      else case split_dots bs of [] \<Rightarrow> [[b]] | p # ps \<Rightarrow> (b # p) # ps)"

definition parse_octet :: "rtext \<Rightarrow> u8 option" where
  "parse_octet s =
     (if s = [] \<or> 3 < length s \<or> (1 < length s \<and> hd s = 0x30) then None
      else case decimal_value 0 s of
          None \<Rightarrow> None
        | Some n \<Rightarrow> if n \<le> 255 then Some (of_nat n) else None)"

definition parse_ipv4 :: "rtext \<Rightarrow> ipv4 option" where
  "parse_ipv4 s =
     (case map parse_octet (split_dots s) of
        [Some a, Some b, Some c, Some d] \<Rightarrow> Some (a, b, c, d)
      | _ \<Rightarrow> None)"

type_synonym dns = "rtext \<Rightarrow> ipv4 list option"

definition resolve_host :: "dns \<Rightarrow> rtext \<Rightarrow> ipv4 option" where
  "resolve_host dns_query host =
     (case parse_ipv4 host of
        Some a \<Rightarrow> Some a
      | None \<Rightarrow>
          (case dns_query host of
             None \<Rightarrow> None
           | Some [] \<Rightarrow> None
           | Some (a # _) \<Rightarrow> Some a))"

subsection \<open>The client\<close>

definition KEEPALIVE_SECS :: u16 where "KEEPALIVE_SECS = 30"

text \<open>A connect request carries the will, which is always retained here, and starts a clean session.\<close>

record connect_options =
  co_client_id :: rtext
  co_keep_alive :: u16
  co_will_topic :: rtext
  co_will_payload :: bytes

datatype mqtt_op =
    OpConnect connect_options
  | OpPublish rtext bytes bool
  | OpSubscribe rtext
  | OpPing
  | OpAbort

datatype poll_result = PollPublish rtext bytes | PollOther | PollFailed

record 'c mqtt_lib =
  client_call :: "mqtt_op \<Rightarrow> 'c \<Rightarrow> bool \<times> 'c"
  client_poll :: "'c \<Rightarrow> poll_result \<times> 'c"
  topic_name_ok :: "rtext \<Rightarrow> bool"
  mqtt_string_ok :: "rtext \<Rightarrow> bool"
  mqtt_binary_ok :: "bytes \<Rightarrow> bool"

definition resolve_client_id :: "hub_config \<Rightarrow> bytes \<Rightarrow> rtext" where
  "resolve_client_id config device_id =
     (if client_id (cfg_mqtt config) \<noteq> [] then client_id (cfg_mqtt config)
      else push_id 32 (push_cap 32 [] (lit ''wt-hub-'')) device_id)"

definition fw_version :: rtext where
  "fw_version = foldl (push_cap 16) []
     [dec (unat VERSION_MAJOR), lit ''.'', dec (unat VERSION_MINOR), lit ''.'', dec (unat VERSION_PATCH)]"

subsection \<open>The state of the task\<close>

text \<open>
  The queues from and to the bridge and the statistics are shared: the queue of publications and the
  statistics are those of the bridge task in \<open>mt_bridge\<close>, the queue of requests is \<open>mt_in\<close>.
  \<open>mt_client\<close> is the client of the session, if there is one. For every request to the client
  \<open>mt_log\<close> has the request and its outcome and \<open>mt_shown\<close> the state of the link that the statistics
  report while the request is awaited.
\<close>

definition MQTT_IN_SIZE :: nat where "MQTT_IN_SIZE = 4"

record 'c mqtt_task =
  mt_client :: "'c option"
  mt_backoff :: backoff
  mt_in :: "bytes list"
  mt_bridge :: bridge_task
  mt_log :: "(mqtt_op \<times> bool) list"
  mt_waits :: "u32 list"
  mt_shown :: "link_state list"

definition reported :: "'c mqtt_task \<Rightarrow> link_state" where
  "reported t = link_or_default (st_mqtt_state (bt_stats (mt_bridge t)))"

definition on_stats :: "(hub_stats \<Rightarrow> hub_stats) \<Rightarrow> 'c mqtt_task \<Rightarrow> 'c mqtt_task" where
  "on_stats f t = t\<lparr>mt_bridge := (mt_bridge t)\<lparr>bt_stats := f (bt_stats (mt_bridge t))\<rparr>\<rparr>"

definition call :: "'c mqtt_lib \<Rightarrow> mqtt_op \<Rightarrow> 'c mqtt_task \<Rightarrow> bool \<times> 'c mqtt_task" where
  "call L op t =
     (case mt_client t of
        None \<Rightarrow> (False, t)
      | Some c \<Rightarrow>
          let (ok, c) = client_call L op c
          in (ok, t\<lparr>mt_client := Some c, mt_log := mt_log t @ [(op, ok)], mt_shown := mt_shown t @ [reported t]\<rparr>))"

definition client_publish :: "'c mqtt_lib \<Rightarrow> 'c mqtt_task publish" where
  "client_publish L topic payload retain t =
     (if topic_name_ok L topic then
        let (ok, t) = call L (OpPublish topic payload retain) t
        in (if ok then Inr () else Inl SinkError, t)
      else (Inl SinkError, t))"

subsection \<open>Sessions\<close>

text \<open>The part of \<open>run_session\<close> before its loop: true when the loop is reached.\<close>

definition open_session ::
  "json_lib \<Rightarrow> 'c mqtt_lib \<Rightarrow> topic_set \<Rightarrow> rtext \<Rightarrow> rtext \<Rightarrow> 'c mqtt_task \<Rightarrow> bool \<times> 'c mqtt_task" where
  "open_session J L topics ident fw t =
     (let offline = status_json J False None
      in if \<not> topic_name_ok L (ts_status topics) then (False, t)
         else if \<not> mqtt_binary_ok L offline then (False, t)
         else if KEEPALIVE_SECS = 0 then (False, t)
         else if \<not> mqtt_string_ok L ident then (False, t)
         else
           let (ok, t) = call L (OpConnect \<lparr>co_client_id = ident, co_keep_alive = KEEPALIVE_SECS,
                 co_will_topic = ts_status topics, co_will_payload = offline\<rparr>) t
           in if \<not> ok then (False, t)
              else
                let t = on_stats (set_mqtt_state Connected) t;
                    t = t\<lparr>mt_backoff := backoff_reset (mt_backoff t)\<rparr>;
                    online = status_json J True (Some fw);
                    (r, t) = client_publish L (ts_status topics) online True t
                in if \<not> is_ok r then (False, t)
                   else if \<not> topic_name_ok L (ts_tx topics) then (False, t)
                   else call L (OpSubscribe (ts_tx topics)) t)"

definition incoming :: "topic_set \<Rightarrow> rtext \<Rightarrow> bytes \<Rightarrow> 'c mqtt_task \<Rightarrow> 'c mqtt_task" where
  "incoming topics topic message t =
     (if topic = ts_tx topics then
        case extend_cap MAX_JSON [] message of
          Some payload \<Rightarrow>
            (case try_send MQTT_IN_SIZE payload (mt_in t) of
               Some q \<Rightarrow> t\<lparr>mt_in := q\<rparr>
             | None \<Rightarrow> on_stats (count_dropped 1) t)
        | None \<Rightarrow> on_stats (count_dropped 1) t
      else t)"

text \<open>One turn of the loop: what it was woken by, and whether the session goes on.\<close>

datatype session_event = Readable | OutboundReady | PingDue

fun session_turn ::
  "'c mqtt_lib \<Rightarrow> topic_set \<Rightarrow> session_event \<Rightarrow> 'c mqtt_task \<Rightarrow> bool \<times> 'c mqtt_task" where
  "session_turn L topics Readable t =
     (case mt_client t of
        None \<Rightarrow> (False, t)
      | Some c \<Rightarrow>
          let (r, c) = client_poll L c; t = t\<lparr>mt_client := Some c\<rparr>
          in case r of
               PollPublish topic message \<Rightarrow> (True, incoming topics topic message t)
             | PollOther \<Rightarrow> (True, t)
             | PollFailed \<Rightarrow> (False, t))"
| "session_turn L topics OutboundReady t =
     (case bt_out (mt_bridge t) of
        [] \<Rightarrow> (True, t)
      | m # ms \<Rightarrow>
          let t = t\<lparr>mt_bridge := (mt_bridge t)\<lparr>bt_out := ms\<rparr>\<rparr>;
              (r, t) = deliver (client_publish L) topics m t
          in (is_ok r, t))"
| "session_turn L topics PingDue t = call L OpPing t"

subsection \<open>The task\<close>

definition wait_backoff :: "'c mqtt_task \<Rightarrow> 'c mqtt_task" where
  "wait_backoff t =
     (let (secs, b) = backoff_next (mt_backoff t)
      in t\<lparr>mt_backoff := b, mt_waits := mt_waits t @ [secs]\<rparr>)"

definition end_session :: "'c mqtt_lib \<Rightarrow> 'c mqtt_task \<Rightarrow> 'c mqtt_task" where
  "end_session L t =
     (let (_, t) = call L OpAbort t;
          t = on_stats (set_mqtt_state Disconnected) (t\<lparr>mt_client := None\<rparr>)
      in wait_backoff t)"

text \<open>
  The events of the task: an attempt to connect, with the answers of the resolver and of TCP (the
  client over the connected socket), and the events of a session.
\<close>

datatype 'c mqtt_event = Attempt dns "ipv4 \<times> u16 \<Rightarrow> 'c option" | Session session_event

definition mqtt_boot :: "hub_config \<Rightarrow> bridge_task \<Rightarrow> 'c mqtt_task" where
  "mqtt_boot config b =
     (let t = \<lparr>mt_client = None, mt_backoff = new_backoff, mt_in = [], mt_bridge = b, mt_log = [], mt_waits = [],
            mt_shown = []\<rparr>
      in if mqtt_host (cfg_mqtt config) = [] then on_stats (set_mqtt_state Unprovisioned) t else t)"

definition attempt ::
  "json_lib \<Rightarrow> 'c mqtt_lib \<Rightarrow> hub_config \<Rightarrow> bytes \<Rightarrow> dns \<Rightarrow> (ipv4 \<times> u16 \<Rightarrow> 'c option) \<Rightarrow> 'c mqtt_task \<Rightarrow> 'c mqtt_task" where
  "attempt J L config device_id dns_query tcp t =
     (let t = on_stats (set_mqtt_state Connecting) t
      in case resolve_host dns_query (mqtt_host (cfg_mqtt config)) of
           None \<Rightarrow> wait_backoff (on_stats (set_mqtt_state Disconnected) t)
         | Some address \<Rightarrow>
             (case tcp (address, mqtt_port (cfg_mqtt config)) of
                None \<Rightarrow> wait_backoff (on_stats (set_mqtt_state Disconnected) t)
              | Some c \<Rightarrow>
                  let (ok, t) = open_session J L (new_topics device_id) (resolve_client_id config device_id)
                        fw_version (t\<lparr>mt_client := Some c\<rparr>)
                  in if ok then t else end_session L t))"

fun mqtt_turn ::
  "json_lib \<Rightarrow> 'c mqtt_lib \<Rightarrow> hub_config \<Rightarrow> bytes \<Rightarrow> 'c mqtt_event \<Rightarrow> 'c mqtt_task \<Rightarrow> 'c mqtt_task" where
  "mqtt_turn J L config device_id (Attempt dns_query tcp) t =
     (if mqtt_host (cfg_mqtt config) = [] \<or> mt_client t \<noteq> None then t
      else attempt J L config device_id dns_query tcp t)"
| "mqtt_turn J L config device_id (Session e) t =
     (if mt_client t = None then t
      else
        let (ok, t) = session_turn L (new_topics device_id) e t
        in if ok then t else end_session L t)"

text \<open>
  The task and the bridge task share their queues; the bridge takes the oldest request.
\<close>

datatype 'c hub_event =
    MqttTurn "'c mqtt_event"
  | RadioLagged u64
  | RadioMessage response_message u64
  | RequestTaken
  | RadioTakesCommand

fun hub_turn ::
  "json_lib \<Rightarrow> lora_tx \<Rightarrow> 'c mqtt_lib \<Rightarrow> hub_config \<Rightarrow> bytes \<Rightarrow> 'c hub_event \<Rightarrow> 'c mqtt_task \<Rightarrow> 'c mqtt_task" where
  "hub_turn J tx L config device_id (MqttTurn e) t = mqtt_turn J L config device_id e t"
| "hub_turn J tx L config device_id (RadioLagged n) t = t\<lparr>mt_bridge := bridge_turn J tx (Lagged n) (mt_bridge t)\<rparr>"
| "hub_turn J tx L config device_id (RadioMessage m uptime) t =
     t\<lparr>mt_bridge := bridge_turn J tx (BusMessage m uptime) (mt_bridge t)\<rparr>"
| "hub_turn J tx L config device_id RequestTaken t =
     (case mt_in t of
        [] \<Rightarrow> t
      | json # q \<Rightarrow> t\<lparr>mt_in := q, mt_bridge := bridge_turn J tx (DownlinkJson json) (mt_bridge t)\<rparr>)"
| "hub_turn J tx L config device_id RadioTakesCommand t =
     t\<lparr>mt_bridge := bridge_turn J tx CommandTaken (mt_bridge t)\<rparr>"

definition hub_run ::
  "json_lib \<Rightarrow> lora_tx \<Rightarrow> 'c mqtt_lib \<Rightarrow> hub_config \<Rightarrow> bytes \<Rightarrow> 'c hub_event list \<Rightarrow> 'c mqtt_task \<Rightarrow> 'c mqtt_task" where
  "hub_run J tx L config device_id es t = foldl (\<lambda>t e. hub_turn J tx L config device_id e t) t es"

subsection \<open>What the client library documents\<close>

text \<open>
  A topic name is a non-empty printable text without wildcards, and strings and binary data are
  limited by their 16-bit length.
\<close>

definition lib_ok :: "'c mqtt_lib \<Rightarrow> bool" where
  "lib_ok L \<longleftrightarrow>
     (\<forall>s. s \<noteq> [] \<longrightarrow> length s \<le> 65535 \<longrightarrow> (\<forall>b \<in> set s. 0x2F \<le> b \<and> b < 0x7F) \<longrightarrow> topic_name_ok L s)
     \<and> (\<forall>b. length b \<le> 65535 \<longrightarrow> mqtt_binary_ok L b)"

lemma topic_usable:
  assumes "lib_ok L" "length device_id = 3"
  shows "topic_name_ok L (ts_rx (new_topics device_id))" "topic_name_ok L (ts_tx (new_topics device_id))"
    "topic_name_ok L (ts_tx_result (new_topics device_id))" "topic_name_ok L (ts_status (new_topics device_id))"
proof -
  define base where "base = lit ''wt/hub/'' @ concat (map hex_byte_upper device_id)"
  have "\<forall>b \<in> set base. 0x2F \<le> b \<and> b < 0x7F" "base \<noteq> []" "length base = 13"
    using hex_id_range [of _ device_id] assms(2) length_hex_upper [of device_id]
    by (simp_all add: base_def ball_Un del: set_concat set_map)
  then have ok: "topic_name_ok L (base @ s)" if "length s \<le> 100" "\<forall>b \<in> set s. 0x2F \<le> b \<and> b < 0x7F" for s
    using assms(1) that by (simp add: lib_ok_def ball_Un)
  show "topic_name_ok L (ts_rx (new_topics device_id))" "topic_name_ok L (ts_tx (new_topics device_id))"
    "topic_name_ok L (ts_tx_result (new_topics device_id))" "topic_name_ok L (ts_status (new_topics device_id))"
    unfolding topics_complete [OF assms(2)] base_def [symmetric] by (simp_all add: Let_def ok)
qed

lemma resolve_usable:
  "lib_ok L \<Longrightarrow> length device_id = 3 \<Longrightarrow> topic_name_ok L (resolve (new_topics device_id) x)"
  by (cases x) (simp_all add: topic_usable)

lemma resolve_not_status:
  "length device_id = 3 \<Longrightarrow> resolve (new_topics device_id) x \<noteq> ts_status (new_topics device_id)"
  using topics_distinct [of device_id] by (cases x) auto

subsection \<open>Calls and frames\<close>

lemma call_client:
  "mt_client t = Some c \<Longrightarrow> call L op t =
     (fst (client_call L op c), t\<lparr>mt_client := Some (snd (client_call L op c)),
        mt_log := mt_log t @ [(op, fst (client_call L op c))], mt_shown := mt_shown t @ [reported t]\<rparr>)"
  by (simp add: call_def case_prod_beta Let_def)

lemma on_stats_shown [simp]: "mt_shown (on_stats f t) = mt_shown t"
  by (simp add: on_stats_def)

lemma on_stats_frame [simp]:
  "mt_client (on_stats f t) = mt_client t" "mt_backoff (on_stats f t) = mt_backoff t"
  "mt_in (on_stats f t) = mt_in t" "mt_log (on_stats f t) = mt_log t" "mt_waits (on_stats f t) = mt_waits t"
  "bt_out (mt_bridge (on_stats f t)) = bt_out (mt_bridge t)"
  "bt_stats (mt_bridge (on_stats f t)) = f (bt_stats (mt_bridge t))"
  by (simp_all add: on_stats_def)

lemma wait_backoff_frame [simp]:
  "mt_client (wait_backoff t) = mt_client t" "mt_in (wait_backoff t) = mt_in t"
  "mt_log (wait_backoff t) = mt_log t" "mt_bridge (wait_backoff t) = mt_bridge t"
  by (simp_all add: wait_backoff_def case_prod_beta Let_def)

lemma reported_frame [simp]:
  "reported (t\<lparr>mt_client := c\<rparr>) = reported t" "reported (t\<lparr>mt_backoff := b\<rparr>) = reported t"
  "reported (t\<lparr>mt_in := q\<rparr>) = reported t" "reported (t\<lparr>mt_log := log\<rparr>) = reported t"
  "reported (t\<lparr>mt_shown := x\<rparr>) = reported t" "reported (t\<lparr>mt_bridge := (mt_bridge t)\<lparr>bt_out := ms\<rparr>\<rparr>) = reported t"
  "reported (wait_backoff t) = reported t" "mt_shown (wait_backoff t) = mt_shown t"
  "reported (on_stats (set_mqtt_state l) t) = l" "reported (on_stats (count_dropped n) t) = reported t"
  by (simp_all add: reported_def wait_backoff_def set_mqtt_state_def count_dropped_def case_prod_beta Let_def)

definition publishes :: "(mqtt_op \<times> bool) list \<Rightarrow> publication list" where
  "publishes log = concat (map (\<lambda>(op, ok). case op of OpPublish t p r \<Rightarrow> [(t, p, r)] | _ \<Rightarrow> []) log)"

interpretation client_sink: mqtt_sink "client_publish L" "\<lambda>t. publishes (mt_log t)" for L
  by unfold_locales
    (auto simp: client_publish_def call_def publishes_def case_prod_beta Let_def
      split: if_splits option.splits)

subsection \<open>Publications in order\<close>

text \<open>
  The publications of the bridge that were handed to the client, and those an event puts in the queue.
\<close>

definition handed_over :: "topic_set \<Rightarrow> (mqtt_op \<times> bool) list \<Rightarrow> publication list" where
  "handed_over topics log = filter (\<lambda>(t, p, r). t \<noteq> ts_status topics) (publishes log)"

definition queued_by :: "'c hub_event \<Rightarrow> 'c mqtt_task \<Rightarrow> 'c mqtt_task \<Rightarrow> mqtt_outbound list" where
  "queued_by e t t' = (case e of MqttTurn _ \<Rightarrow> [] | _ \<Rightarrow> drop (length (bt_out (mt_bridge t))) (bt_out (mt_bridge t')))"

fun queued ::
  "json_lib \<Rightarrow> lora_tx \<Rightarrow> 'c mqtt_lib \<Rightarrow> hub_config \<Rightarrow> bytes \<Rightarrow> 'c hub_event list \<Rightarrow> 'c mqtt_task \<Rightarrow> mqtt_outbound list" where
  "queued J tx L config device_id [] t = []"
| "queued J tx L config device_id (e # es) t =
     (let t' = hub_turn J tx L config device_id e t
      in queued_by e t t' @ queued J tx L config device_id es t')"

lemma publishes_simps [simp]:
  "publishes [] = []" "publishes (xs @ ys) = publishes xs @ publishes ys"
  "publishes [(OpPublish t p r, ok)] = [(t, p, r)]" "publishes [(OpConnect co, ok)] = []"
  "publishes [(OpSubscribe t, ok)] = []" "publishes [(OpPing, ok)] = []" "publishes [(OpAbort, ok)] = []"
  by (simp_all add: publishes_def)

lemma handed_over_append [simp]:
  "handed_over topics (xs @ ys) = handed_over topics xs @ handed_over topics ys"
  by (simp add: handed_over_def)

text \<open>What is on its way: handed to the client, or still in the queue.\<close>

definition flow :: "topic_set \<Rightarrow> 'c mqtt_task \<Rightarrow> publication list" where
  "flow topics t = handed_over topics (mt_log t) @ map (publication_of topics) (bt_out (mt_bridge t))"

lemma flow_frame [simp]:
  "flow topics (on_stats f t) = flow topics t" "flow topics (wait_backoff t) = flow topics t"
  "flow topics (t\<lparr>mt_client := c\<rparr>) = flow topics t" "flow topics (t\<lparr>mt_backoff := b\<rparr>) = flow topics t"
  "flow topics (t\<lparr>mt_in := q\<rparr>) = flow topics t"
  by (simp_all add: flow_def)

lemma flow_call [simp]:
  "flow topics (snd (call L (OpConnect co) t)) = flow topics t"
  "flow topics (snd (call L (OpSubscribe s) t)) = flow topics t"
  "flow topics (snd (call L OpPing t)) = flow topics t"
  "flow topics (snd (call L OpAbort t)) = flow topics t"
  "flow topics (snd (call L (OpPublish (ts_status topics) p r) t)) = flow topics t"
  by (auto simp: flow_def call_def handed_over_def case_prod_beta Let_def split: option.split)

lemma flow_status: "flow topics (snd (client_publish L (ts_status topics) p r t)) = flow topics t"
  by (simp add: client_publish_def case_prod_beta Let_def)

lemma flow_end_session [simp]: "flow topics (end_session L t) = flow topics t"
  by (simp add: end_session_def case_prod_beta Let_def)

lemma flow_open: "flow topics (snd (open_session J L topics ident fw t)) = flow topics t"
  by (simp add: open_session_def case_prod_beta Let_def flow_status)

lemma flow_attempt: "flow (new_topics i) (attempt J L config i dns_query tcp t) = flow (new_topics i) t"
  by (simp add: attempt_def case_prod_beta Let_def flow_open split: option.split)

lemma flow_incoming [simp]: "flow topics (incoming topics' topic message t) = flow topics t"
  by (simp add: incoming_def split: option.split)

lemma flow_deliver:
  assumes "lib_ok L" "length i = 3" "mt_client t = Some c" "bt_out (mt_bridge t) = m # ms"
  shows "flow (new_topics i) (snd (deliver (client_publish L) (new_topics i) m
           (t\<lparr>mt_bridge := (mt_bridge t)\<lparr>bt_out := ms\<rparr>\<rparr>))) = flow (new_topics i) t"
  using assms resolve_usable [OF assms(1,2)] resolve_not_status [OF assms(2)]
  by (simp add: deliver_def client_publish_def call_client flow_def case_prod_beta Let_def
      publication_of_def handed_over_def)

lemma flow_session:
  assumes "lib_ok L" "length i = 3" "mt_client t \<noteq> None"
  shows "flow (new_topics i) (snd (session_turn L (new_topics i) e t)) = flow (new_topics i) t"
proof (cases e)
  case Readable
  then show ?thesis using assms(3) by (auto simp: case_prod_beta Let_def split: poll_result.split)
next
  case OutboundReady
  then show ?thesis using assms flow_deliver [OF assms(1,2)]
    by (auto simp: case_prod_beta Let_def split: list.split)
next
  case PingDue
  then show ?thesis by simp
qed

lemma flow_mqtt_turn:
  assumes "lib_ok L" "length i = 3"
  shows "flow (new_topics i) (mqtt_turn J L config i e t) = flow (new_topics i) t"
  using assms flow_session [OF assms] by (cases e) (auto simp: case_prod_beta Let_def flow_attempt)

lemma enqueue_extends: "\<exists>ms. bt_out (snd (enqueue m b)) = bt_out b @ ms"
  using enqueue_cases [of b m] by auto

lemma message_extends: "\<exists>ms. bt_out (bridge_message J m uptime b) = bt_out b @ ms"
proof (cases "(J, m, uptime, b)" rule: bridge_message.cases)
  case (1 J data rssi snr uptime t)
  then show ?thesis
    using enqueue_extends [of "fst (on_rx_packet J data rssi snr uptime (bt_state t))"
        "t\<lparr>bt_state := snd (on_rx_packet J data rssi snr uptime (bt_state t))\<rparr>"]
    by (simp add: Let_def case_prod_beta)
next
  case (2 J i r uptime t)
  then show ?thesis
    using enqueue_extends [where b = "t\<lparr>bt_state := s, bt_stats := st\<rparr>" for s st]
      enqueue_extends [where b = "t\<lparr>bt_state := s\<rparr>" for s]
    by (auto simp: Let_def case_prod_beta split: option.split)
qed simp_all

lemma downlink_extends: "\<exists>ms. bt_out (bridge_downlink J tx json b) = bt_out b @ ms"
  using enqueue_extends [where b = "b\<lparr>bt_state := s\<rparr>" for s]
  by (auto simp: bridge_downlink_def case_prod_beta Let_def split: downlink_outcome.split option.split)

lemma bridge_extends: "e \<noteq> OutTaken \<Longrightarrow> \<exists>ms. bt_out (bridge_turn J tx e b) = bt_out b @ ms"
  using message_extends downlink_extends by (cases e) auto

text \<open>Every turn moves publications along and adds only what the bridge queues.\<close>

lemma flow_turn:
  assumes "lib_ok L" "length i = 3"
  shows "flow (new_topics i) (hub_turn J tx L config i e t) =
    flow (new_topics i) t @ map (publication_of (new_topics i)) (queued_by e t (hub_turn J tx L config i e t))"
proof -
  have b: "flow topics (t'\<lparr>mt_bridge := bridge_turn J tx e' (mt_bridge t)\<rparr>) = flow topics t
      @ map (publication_of topics) (drop (length (bt_out (mt_bridge t))) (bt_out (bridge_turn J tx e' (mt_bridge t))))"
    if "e' \<noteq> OutTaken" "mt_log t' = mt_log t" for e' t' topics
    using bridge_extends [OF that(1), of J tx "mt_bridge t"] that(2) by (auto simp: flow_def)
  show ?thesis
  proof (cases e)
    case (MqttTurn e')
    then show ?thesis by (simp add: queued_by_def flow_mqtt_turn [OF assms])
  next
    case (RadioLagged n)
    then show ?thesis using b [of "Lagged n" t] by (simp add: queued_by_def)
  next
    case (RadioMessage m uptime)
    then show ?thesis using b [of "BusMessage m uptime" t] by (simp add: queued_by_def)
  next
    case RequestTaken
    then show ?thesis
      using b [of "DownlinkJson (hd (mt_in t))" "t\<lparr>mt_in := tl (mt_in t)\<rparr>"]
      by (cases "mt_in t") (simp_all add: queued_by_def)
  next
    case RadioTakesCommand
    then show ?thesis using b [of CommandTaken t] by (simp add: queued_by_def)
  qed
qed

lemma flow_run:
  assumes "lib_ok L" "length i = 3"
  shows "flow (new_topics i) (hub_run J tx L config i es t) =
    flow (new_topics i) t @ map (publication_of (new_topics i)) (queued J tx L config i es t)"
  by (induction es arbitrary: t) (simp_all add: hub_run_def Let_def flow_turn [OF assms])

subsection \<open>The order of requests in a session\<close>

text \<open>
  What a broker may see, as an automaton over the requests and their outcomes: a clean connect with
  the offline will, the retained online status, the subscription, and only then publications of the
  bridge and pings. After a failed request the only thing left is to abort.
\<close>

definition hello :: "json_lib \<Rightarrow> hub_config \<Rightarrow> bytes \<Rightarrow> connect_options" where
  "hello J config device_id =
     \<lparr>co_client_id = resolve_client_id config device_id, co_keep_alive = KEEPALIVE_SECS,
      co_will_topic = ts_status (new_topics device_id), co_will_payload = status_json J False None\<rparr>"

definition announcement :: "json_lib \<Rightarrow> bytes \<Rightarrow> mqtt_op" where
  "announcement J device_id =
     OpPublish (ts_status (new_topics device_id)) (status_json J True (Some fw_version)) True"

datatype phase = Closed | Accepted | Announced | Live | Broken

definition phase_step :: "json_lib \<Rightarrow> hub_config \<Rightarrow> bytes \<Rightarrow> phase option \<Rightarrow> mqtt_op \<times> bool \<Rightarrow> phase option" where
  "phase_step J config device_id p request =
     (let (op, ok) = request; next_phase = (\<lambda>q. if ok then Some q else Some Broken)
      in if p = None then None
         else if op = OpAbort then Some Closed
         else if p = Some Closed \<and> op = OpConnect (hello J config device_id) then next_phase Accepted
         else if p = Some Accepted \<and> op = announcement J device_id then next_phase Announced
         else if p = Some Announced \<and> op = OpSubscribe (ts_tx (new_topics device_id)) then next_phase Live
         else if p = Some Live \<and> (op = OpPing \<or> (\<exists>x payload retain. op = OpPublish (resolve (new_topics device_id) x) payload retain))
           then next_phase Live
         else None)"

definition log_phase :: "json_lib \<Rightarrow> hub_config \<Rightarrow> bytes \<Rightarrow> (mqtt_op \<times> bool) list \<Rightarrow> phase option" where
  "log_phase J config device_id log = foldl (phase_step J config device_id) (Some Closed) log"

lemma log_phase_append [simp]:
  "log_phase J config i [] = Some Closed"
  "log_phase J config i (log @ rs) = foldl (phase_step J config i) (log_phase J config i log) rs"
  by (simp_all add: log_phase_def)

definition mqtt_connected :: "'c mqtt_task \<Rightarrow> bool" where
  "mqtt_connected t \<longleftrightarrow> st_mqtt_state (bt_stats (mt_bridge t)) = link_state_byte Connected"

definition session_inv :: "json_lib \<Rightarrow> hub_config \<Rightarrow> bytes \<Rightarrow> 'c mqtt_task \<Rightarrow> bool" where
  "session_inv J config i t \<longleftrightarrow>
     (log_phase J config i (mt_log t) = Some (if mt_client t = None then Closed else Live))
     \<and> (mqtt_connected t \<longleftrightarrow> mt_client t \<noteq> None)"

lemma open_session_phase:
  assumes "mt_client t = Some c" "log_phase J config i (mt_log t) = Some Closed"
    and "open_session J L (new_topics i) (resolve_client_id config i) fw_version t = (ok, t')"
  shows "mt_client t' \<noteq> None \<and> log_phase J config i (mt_log t') \<noteq> None
    \<and> (ok \<longrightarrow> log_phase J config i (mt_log t') = Some Live \<and> mqtt_connected t')"
  using assms
  by (auto simp: open_session_def call_client client_publish_def phase_step_def hello_def [symmetric]
      announcement_def mqtt_connected_def set_mqtt_state_def case_prod_beta Let_def split: if_splits)

lemma end_session_inv:
  assumes "mt_client t \<noteq> None" "log_phase J config i (mt_log t) \<noteq> None"
  shows "session_inv J config i (end_session L t)"
  using assms
  by (auto simp: end_session_def session_inv_def call_client phase_step_def mqtt_connected_def
      set_mqtt_state_def case_prod_beta Let_def)

lemma incoming_frame [simp]:
  "mt_client (incoming topics topic m t) = mt_client t" "mt_log (incoming topics topic m t) = mt_log t"
  "mqtt_connected (incoming topics topic m t) = mqtt_connected t"
  by (auto simp: incoming_def mqtt_connected_def count_dropped_def split: option.split)

lemma session_turn_phase:
  assumes "mt_client t \<noteq> None" "session_inv J config i t" "session_turn L (new_topics i) e t = (ok, t')"
  shows "mt_client t' \<noteq> None \<and> log_phase J config i (mt_log t') \<noteq> None \<and> (ok \<longrightarrow> session_inv J config i t')"
proof (cases e)
  case Readable
  then show ?thesis using assms
    by (auto simp: session_inv_def mqtt_connected_def [of "t\<lparr>mt_client := c\<rparr>" for c] mqtt_connected_def [of t]
        case_prod_beta Let_def split: poll_result.splits)
next
  case OutboundReady
  then show ?thesis using assms
    by (auto simp: session_inv_def deliver_def client_publish_def call_client phase_step_def
        mqtt_connected_def announcement_def case_prod_beta Let_def split: list.splits if_splits)
next
  case PingDue
  then show ?thesis using assms
    by (auto simp: session_inv_def call_client phase_step_def mqtt_connected_def announcement_def Let_def)
qed

lemma attempt_inv:
  assumes "mt_client t = None" "session_inv J config i t"
  shows "session_inv J config i (attempt J L config i dns_query tcp t)"
proof -
  let ?t = "on_stats (set_mqtt_state Connecting) t"
  have idle: "session_inv J config i (wait_backoff (on_stats (set_mqtt_state Disconnected) ?t))"
    using assms by (simp add: session_inv_def mqtt_connected_def set_mqtt_state_def)
  have opened: "session_inv J config i (if ok then t' else end_session L t')"
    if "open_session J L (new_topics i) (resolve_client_id config i) fw_version (?t\<lparr>mt_client := Some c\<rparr>) = (ok, t')"
    for ok t' c
    using open_session_phase [OF _ _ that] end_session_inv [of t' J config i L] assms
    by (auto simp: session_inv_def)
  show ?thesis
    using idle opened
    by (simp add: attempt_def Let_def split: option.split prod.split)
qed

lemma mqtt_turn_inv:
  assumes "session_inv J config i t"
  shows "session_inv J config i (mqtt_turn J L config i e t)"
proof (cases e)
  case (Attempt dns_query tcp)
  then show ?thesis using assms attempt_inv by auto
next
  case (Session e')
  obtain ok t' where "session_turn L (new_topics i) e' t = (ok, t')" by (cases "session_turn L (new_topics i) e' t")
  then show ?thesis
    using Session assms session_turn_phase [of t J config i L e' ok t']
      end_session_inv [of t' J config i L] by auto
qed

lemma bridge_mqtt_state: "st_mqtt_state (bt_stats (bridge_turn J tx e b)) = st_mqtt_state (bt_stats b)"
proof -
  have q: "st_mqtt_state (bt_stats (snd (enqueue m b))) = st_mqtt_state (bt_stats b)" for m b
    using enqueue_cases [of b m] by (auto simp: count_dropped_def)
  show ?thesis
  proof (cases e)
    case (BusMessage m uptime)
    then show ?thesis
      by (cases "(J, m, uptime, b)" rule: bridge_message.cases)
        (auto simp: q count_uplink_def count_downlink_def Let_def case_prod_beta split: option.split)
  qed (auto simp: q bridge_downlink_def count_dropped_def case_prod_beta Let_def
      split: downlink_outcome.split option.split)
qed

lemma hub_turn_inv:
  assumes "session_inv J config i t"
  shows "session_inv J config i (hub_turn J tx L config i e t)"
  using assms mqtt_turn_inv [OF assms]
  by (cases e) (auto simp: session_inv_def mqtt_connected_def bridge_mqtt_state simp del: bridge_turn.simps split: list.split)

lemma hub_run_inv: "session_inv J config i t \<Longrightarrow> session_inv J config i (hub_run J tx L config i es t)"
  by (induction es arbitrary: t) (simp_all add: hub_run_def hub_turn_inv)

text \<open>
  The state a log of requests stands for: connected from an accepted connect to the end of the next
  abort. \<open>shown_states\<close> is what is reported at each request of a log.
\<close>

definition brokered :: "(mqtt_op \<times> bool) list \<Rightarrow> bool" where
  "brokered log = foldl (\<lambda>b (op, ok). case op of OpConnect _ \<Rightarrow> ok | OpAbort \<Rightarrow> False | _ \<Rightarrow> b) False log"

definition shown_states :: "(mqtt_op \<times> bool) list \<Rightarrow> link_state list" where
  "shown_states log = map (\<lambda>k. if brokered (take k log) then Connected else Connecting) [0..<length log]"

lemma brokered_simps [simp]:
  "\<not> brokered []" "brokered (log @ [(OpConnect co, ok)]) = ok" "\<not> brokered (log @ [(OpAbort, ok)])"
  "brokered (log @ [(OpPublish topic p retain, ok)]) = brokered log"
  "brokered (log @ [(OpSubscribe topic, ok)]) = brokered log" "brokered (log @ [(OpPing, ok)]) = brokered log"
  by (simp_all add: brokered_def)

lemma shown_states_simps [simp]:
  "shown_states [] = []"
  "shown_states (log @ [x]) = shown_states log @ [if brokered log then Connected else Connecting]"
  by (simp_all add: shown_states_def)

definition shown_ok :: "'c mqtt_task \<Rightarrow> bool" where
  "shown_ok t \<longleftrightarrow> mt_shown t = shown_states (mt_log t) \<and> reported t = (if brokered (mt_log t) then Connected else Connecting)"

definition shown_inv :: "'c mqtt_task \<Rightarrow> bool" where
  "shown_inv t \<longleftrightarrow> mt_shown t = shown_states (mt_log t)
     \<and> (if mt_client t = None then \<not> brokered (mt_log t) \<and> reported t \<noteq> Connected
        else brokered (mt_log t) \<and> reported t = Connected)"

lemma shown_publish:
  "mt_client t \<noteq> None \<Longrightarrow> shown_ok t \<Longrightarrow> shown_ok (snd (client_publish L topic p r t))
     \<and> (brokered (mt_log (snd (client_publish L topic p r t))) \<longleftrightarrow> brokered (mt_log t))
     \<and> mt_client (snd (client_publish L topic p r t)) \<noteq> None"
  by (auto simp: client_publish_def call_client shown_ok_def Let_def)

lemma shown_open:
  assumes "mt_client t \<noteq> None" "shown_ok t" "\<not> brokered (mt_log t)"
    and "open_session J L topics ident fw t = (ok, t')"
  shows "shown_ok t' \<and> mt_client t' \<noteq> None \<and> (ok \<longrightarrow> brokered (mt_log t'))"
  using assms
  by (auto simp: open_session_def call_client client_publish_def shown_ok_def case_prod_beta Let_def
      simp del: append_assoc split: if_splits)

lemma shown_turn:
  assumes "mt_client t \<noteq> None" "shown_ok t" "session_turn L topics e t = (ok, t')"
  shows "shown_ok t' \<and> mt_client t' \<noteq> None \<and> (brokered (mt_log t') \<longleftrightarrow> brokered (mt_log t))"
proof (cases e)
  case Readable
  have "shown_ok (incoming topics topic m t) = shown_ok t" for topic m and t :: "'a mqtt_task"
    by (auto simp: incoming_def shown_ok_def split: option.split)
  then show ?thesis using Readable assms
    by (auto simp: case_prod_beta Let_def shown_ok_def [of "t\<lparr>mt_client := c\<rparr>" for c] shown_ok_def [of t] split: poll_result.splits)
next
  case OutboundReady
  then show ?thesis using assms
    by (auto simp: deliver_def client_publish_def call_client shown_ok_def case_prod_beta Let_def split: list.splits if_splits)
next
  case PingDue
  then show ?thesis using assms by (auto simp: call_client shown_ok_def)
qed

lemma shown_end: "mt_client t \<noteq> None \<Longrightarrow> shown_ok t \<Longrightarrow> shown_inv (end_session L t)"
  by (auto simp: end_session_def call_client shown_ok_def shown_inv_def Let_def)

lemma shown_mqtt_turn:
  assumes "shown_inv t"
  shows "shown_inv (mqtt_turn J L config i e t)"
proof (cases e)
  case (Attempt dns_query tcp)
  show ?thesis
  proof (cases "mqtt_host (cfg_mqtt config) = [] \<or> mt_client t \<noteq> None")
    case True
    then show ?thesis using Attempt assms by auto
  next
    case False
    let ?t = "on_stats (set_mqtt_state Connecting) t"
    have c: "mt_client t = None" using False by simp
    have "shown_inv (if ok then t' else end_session L t')"
      if "open_session J L (new_topics i) (resolve_client_id config i) fw_version (?t\<lparr>mt_client := Some c\<rparr>) = (ok, t')"
      for ok t' c
      using shown_open [OF _ _ _ that] shown_end [of t' L] assms c
      by (auto simp: shown_inv_def shown_ok_def)
    then show ?thesis using Attempt False assms c
      by (auto simp: attempt_def Let_def shown_inv_def [of t] shown_inv_def [of "wait_backoff u" for u] split: option.split prod.split)
  qed
next
  case (Session e')
  obtain ok t' where "session_turn L (new_topics i) e' t = (ok, t')" by (cases "session_turn L (new_topics i) e' t")
  then show ?thesis
    using Session assms shown_turn [of t L "new_topics i" e' ok t'] shown_end [of t' L]
    by (cases "mt_client t = None") (auto simp: shown_inv_def shown_ok_def)
qed

lemma shown_run: "shown_inv t \<Longrightarrow> shown_inv (hub_run J tx L config i es t)"
proof (induction es arbitrary: t)
  case (Cons e es)
  have "shown_inv (hub_turn J tx L config i e t)"
  proof (cases e)
    case (MqttTurn e')
    then show ?thesis using shown_mqtt_turn [OF Cons.prems] by simp
  qed (use Cons.prems in \<open>auto simp: shown_inv_def reported_def bridge_mqtt_state
      simp del: bridge_turn.simps split: list.split\<close>)
  then show ?case using Cons.IH by (simp add: hub_run_def)
qed (simp add: hub_run_def)

text \<open>The two tasks at start-up.\<close>

definition hub_boot :: "hub_config \<Rightarrow> 'c mqtt_task" where
  "hub_boot config =
     mqtt_boot config \<lparr>bt_state = new_bridge, bt_commands = [], bt_out = [], bt_stats = new_stats\<rparr>"

lemma hub_boot_inv: "session_inv J config i (hub_boot config)"
  by (simp add: hub_boot_def mqtt_boot_def session_inv_def mqtt_connected_def new_stats_def set_mqtt_state_def Let_def)

lemma hub_boot_shown: "shown_inv (hub_boot config)"
  by (simp add: hub_boot_def mqtt_boot_def shown_inv_def Let_def)
    (simp add: reported_def new_stats_def link_or_default_Connected)

lemma hub_boot_flow [simp]: "flow topics (hub_boot config) = []"
  by (simp add: hub_boot_def mqtt_boot_def flow_def handed_over_def Let_def)

subsection \<open>Reconnecting\<close>

text \<open>An attempt that the resolver, TCP or the broker refuses.\<close>

definition attempt_fails ::
  "json_lib \<Rightarrow> 'c mqtt_lib \<Rightarrow> hub_config \<Rightarrow> bytes \<Rightarrow> dns \<times> (ipv4 \<times> u16 \<Rightarrow> 'c option) \<Rightarrow> bool" where
  "attempt_fails J L config i a =
     (case resolve_host (fst a) (mqtt_host (cfg_mqtt config)) of
        None \<Rightarrow> True
      | Some address \<Rightarrow>
          (case snd a (address, mqtt_port (cfg_mqtt config)) of
             None \<Rightarrow> True
           | Some c \<Rightarrow> \<not> fst (client_call L (OpConnect (hello J config i)) c)))"

definition attempts ::
  "json_lib \<Rightarrow> 'c mqtt_lib \<Rightarrow> hub_config \<Rightarrow> bytes \<Rightarrow> (dns \<times> (ipv4 \<times> u16 \<Rightarrow> 'c option)) list \<Rightarrow> 'c mqtt_task \<Rightarrow> 'c mqtt_task" where
  "attempts J L config i as t = foldl (\<lambda>t (d, tcp). mqtt_turn J L config i (Attempt d tcp) t) t as"

lemma end_session_frame [simp]:
  "mt_client (end_session L t) = None"
  "mt_waits (end_session L t) = mt_waits t @ [fst (backoff_next (mt_backoff t))]"
  "mt_backoff (end_session L t) = snd (backoff_next (mt_backoff t))"
  "bt_out (mt_bridge (end_session L t)) = bt_out (mt_bridge t)"
  "st_dropped (bt_stats (mt_bridge (end_session L t))) = st_dropped (bt_stats (mt_bridge t))"
  by (auto simp: end_session_def wait_backoff_def call_def set_mqtt_state_def on_stats_def case_prod_beta Let_def
      split: option.split)

lemma failed_attempt:
  assumes "mt_client t = None" "mqtt_host (cfg_mqtt config) \<noteq> []" "attempt_fails J L config i (d, tcp)"
  defines "t' \<equiv> mqtt_turn J L config i (Attempt d tcp) t"
  shows "mt_client t' = None \<and> mt_waits t' = mt_waits t @ [fst (backoff_next (mt_backoff t))]
    \<and> mt_backoff t' = snd (backoff_next (mt_backoff t))"
proof -
  have refused: "\<not> fst (open_session J L (new_topics i) (resolve_client_id config i) fw_version u)
      \<and> mt_backoff (snd (open_session J L (new_topics i) (resolve_client_id config i) fw_version u)) = mt_backoff u
      \<and> mt_waits (snd (open_session J L (new_topics i) (resolve_client_id config i) fw_version u)) = mt_waits u"
    if "mt_client u = Some c" "\<not> fst (client_call L (OpConnect (hello J config i)) c)" for u c
    using that by (simp add: open_session_def call_client hello_def Let_def case_prod_beta)
  show ?thesis
    using assms(1-3) refused [of "(on_stats (set_mqtt_state Connecting) t)\<lparr>mt_client := Some c\<rparr>" c for c]
    by (auto simp: t'_def attempt_def attempt_fails_def Let_def case_prod_beta wait_backoff_def split: option.splits)
qed

lemma failed_attempts:
  assumes "mt_client t = None" "mqtt_host (cfg_mqtt config) \<noteq> []" "backoff_ok (mt_backoff t) n"
    and "\<forall>a \<in> set as. attempt_fails J L config i a"
  shows "mt_client (attempts J L config i as t) = None \<and> map unat (mt_waits (attempts J L config i as t)) =
    map unat (mt_waits t) @ map (\<lambda>k. min (2 ^ (n + k)) 60) [0..<length as]"
  using assms
proof (induction as arbitrary: t n)
  case (Cons a as)
  obtain d tcp where a: "a = (d, tcp)" by (cases a)
  let ?t = "mqtt_turn J L config i (Attempt d tcp) t"
  have t: "mt_client ?t = None" "mt_waits ?t = mt_waits t @ [fst (backoff_next (mt_backoff t))]"
    "mt_backoff ?t = snd (backoff_next (mt_backoff t))"
    using failed_attempt [of t config J L i d tcp] Cons.prems a by simp_all
  have b: "unat (fst (backoff_next (mt_backoff t))) = min (2 ^ n) 60" "backoff_ok (mt_backoff ?t) (Suc n)"
    using backoff_next_ok [OF Cons.prems(3)] t by simp_all
  then show ?case
    using Cons.IH [OF t(1) Cons.prems(2) b(2)] Cons.prems(4) t(2) b(1)
    by (simp add: attempts_def a map_upt_Suc del: upt_Suc mqtt_turn.simps)
qed (simp add: attempts_def)

text \<open>Once the broker has accepted a connection the delay starts again at one second.\<close>

lemma call_backoff [simp]: "mt_backoff (snd (call L op t)) = mt_backoff t"
  by (simp add: call_def case_prod_beta Let_def split: option.split)

lemma publish_backoff [simp]: "mt_backoff (snd (client_publish L topic p r t)) = mt_backoff t"
  by (simp add: client_publish_def case_prod_beta Let_def)

lemma session_turn_backoff: "mt_backoff (snd (session_turn L topics e t)) = mt_backoff t"
  by (cases e) (auto simp: incoming_def deliver_def case_prod_beta Let_def
      split: option.split list.split poll_result.split)

lemma open_session_backoff:
  "fst (open_session J L topics ident fw t) \<Longrightarrow>
   backoff_ok (mt_backoff (snd (open_session J L topics ident fw t))) 0"
  by (auto simp: open_session_def backoff_ok_new case_prod_beta Let_def split: if_splits)

lemma live_backoff_turn:
  assumes "mt_client t \<noteq> None \<longrightarrow> backoff_ok (mt_backoff t) 0"
  shows "mt_client (hub_turn J tx L config i e t) \<noteq> None \<longrightarrow> backoff_ok (mt_backoff (hub_turn J tx L config i e t)) 0"
proof (cases e)
  case (MqttTurn e')
  then show ?thesis
    using assms open_session_backoff
    by (cases e') (auto simp: session_turn_backoff attempt_def case_prod_beta Let_def split: option.split if_splits)
qed (use assms in \<open>auto split: list.splits\<close>)

lemma live_backoff_run:
  "mt_client t \<noteq> None \<longrightarrow> backoff_ok (mt_backoff t) 0 \<Longrightarrow>
   mt_client (hub_run J tx L config i es t) \<noteq> None \<longrightarrow> backoff_ok (mt_backoff (hub_run J tx L config i es t)) 0"
  by (induction es arbitrary: t) (simp_all add: hub_run_def live_backoff_turn del: not_None_eq)

lemma lost_session_wait:
  assumes "mt_client t \<noteq> None" "backoff_ok (mt_backoff t) 0" "mt_client (mqtt_turn J L config i e t) = None"
  shows "map unat (mt_waits (mqtt_turn J L config i e t)) = map unat (mt_waits t) @ [1]
    \<and> backoff_ok (mt_backoff (mqtt_turn J L config i e t)) 1"
proof -
  have w: "mt_waits (snd (session_turn L topics e t)) = mt_waits t" for topics e
    by (cases e) (auto simp: incoming_def deliver_def client_publish_def call_def case_prod_beta Let_def
        split: option.split list.split poll_result.split)
  obtain e' where e: "e = Session e'" using assms by (cases e) auto
  have k: "mt_client (snd (session_turn L topics e' t)) \<noteq> None" for topics
    using assms(1) by (cases e') (auto simp: deliver_def client_publish_def call_def case_prod_beta Let_def
        split: option.split list.split poll_result.split)
  show ?thesis
    using assms e w k [of "new_topics i"] backoff_next_ok [OF assms(2)]
    by (simp add: session_turn_backoff case_prod_beta Let_def del: not_None_eq split: if_splits)
qed

subsection \<open>Properties\<close>

text \<open>A client that accepts every request, and one that rejects publications of the bridge.\<close>

definition sample_client :: "unit mqtt_lib" where
  "sample_client = \<lparr>client_call = (\<lambda>op c. (True, c)), client_poll = (\<lambda>c. (PollOther, c)),
     topic_name_ok = (\<lambda>s. s \<noteq> []), mqtt_string_ok = (\<lambda>_. True), mqtt_binary_ok = (\<lambda>_. True)\<rparr>"

definition sample_config :: hub_config where
  "sample_config = \<lparr>cfg_version = 1, cfg_mode = Bridge, cfg_wifi = \<lparr>ssid = [], password = []\<rparr>,
     cfg_mqtt = \<lparr>mqtt_host = lit ''10.0.0.7'', mqtt_port = 1883, client_id = []\<rparr>, cfg_gateway = default_gateway\<rparr>"

lemma sample_host: "resolve_host dns_query (lit ''10.0.0.7'') = Some (10, 0, 0, 7)"
  by (simp add: resolve_host_def parse_ipv4_def parse_octet_def is_digit_def)

lemma sample_client_ok: "lib_ok sample_client"
  by (simp add: lib_ok_def sample_client_def)

text \<open>
  C26. Publications reach the broker in order and at most once. For any behaviour of the client, the
  network and the radio, the publications handed to the client so far followed by those still in the
  queue are exactly the ones the bridge queued, in order, each under the topic name of its kind. A
  publication is never repeated, also not after the session it failed in.
\<close>

theorem publications_in_order:
  assumes "lib_ok L" "length device_id = 3"
  shows "let t = hub_run J tx L config device_id es (hub_boot config); topics = new_topics device_id
    in handed_over topics (mt_log t) @ map (publication_of topics) (bt_out (mt_bridge t))
       = map (publication_of topics) (queued J tx L config device_id es (hub_boot config))"
  using flow_run [OF assms, of J tx config es "hub_boot config"] by (simp add: flow_def [symmetric] Let_def)

theorem publications_in_order_witness:
  "let es = [MqttTurn (Attempt (\<lambda>_. None) (\<lambda>_. Some ())), RadioMessage (Unsolicited (RxPacket [0x48] (- 50) 5)) 7,
       MqttTurn (Session OutboundReady)];
       t = hub_run sample_json sample_tx sample_client sample_config [1, 2, 3] es (hub_boot sample_config)
   in map fst (handed_over (new_topics [1, 2, 3]) (mt_log t)) = [lit ''wt/hub/010203/rx'']
    \<and> map (publication_of (new_topics [1, 2, 3]))
        (queued sample_json sample_tx sample_client sample_config [1, 2, 3] es (hub_boot sample_config))
      = handed_over (new_topics [1, 2, 3]) (mt_log t)"
proof -
  let ?es = "[MqttTurn (Attempt (\<lambda>_. None) (\<lambda>_. Some ())), RadioMessage (Unsolicited (RxPacket [0x48] (- 50) 5)) 7,
       MqttTurn (Session OutboundReady)]"
  let ?t = "hub_run sample_json sample_tx sample_client sample_config [1, 2, 3] ?es (hub_boot sample_config)"
  have "bt_out (mt_bridge ?t) = [] \<and> map fst (handed_over (new_topics [1, 2, 3]) (mt_log ?t)) = [lit ''wt/hub/010203/rx'']"
    by (simp add: hub_run_def hub_boot_def mqtt_boot_def attempt_def sample_config_def sample_host [simplified] open_session_def
        call_client client_publish_def sample_client_def topics_complete on_stats_def KEEPALIVE_SECS_def new_stats_def
        on_rx_packet_def enqueue_def try_send_def MQTT_OUT_SIZE_def new_bridge_def deliver_def handed_over_def publishes_def
        hex_byte_upper_def high_nibble_def low_nibble_def hex_upper_def Let_def)
  then show ?thesis
    using publications_in_order [OF sample_client_ok, of "[1, 2, 3]" sample_json sample_tx sample_config ?es]
    by (simp add: Let_def)
qed

text \<open>
  C27. Every session is announced, over any client library. The requests to the client always follow
  the protocol: connect with the retained offline will, publish the retained online status,
  subscribe to the downlink topic, and only then publications and pings; after a failed request only
  the abort. The state reported in the statistics follows the broker: while a request is awaited it is
  connected exactly when the broker has accepted the connect of the session (so already during the
  online status and the subscription, and still during the abort that ends an accepted session) and
  connecting otherwise; between the turns of the task it is connected exactly in the loop of a
  session.
\<close>

theorem sessions_follow_the_protocol:
  "let t = hub_run J tx L config device_id es (hub_boot config)
   in log_phase J config device_id (mt_log t) = Some (if mt_client t = None then Closed else Live)
    \<and> mt_shown t = map (\<lambda>k. if brokered (take k (mt_log t)) then Connected else Connecting) [0..<length (mt_log t)]
    \<and> (reported t = Connected \<longleftrightarrow> mt_client t \<noteq> None)"
  using hub_run_inv [OF hub_boot_inv, of J config device_id tx L es] shown_run [OF hub_boot_shown, of J tx L config device_id es config]
  by (simp add: session_inv_def shown_inv_def shown_states_def Let_def split: if_splits)

text \<open>
  Reconnection backs off. However a hub got there, attempts that fail one after the other are
  followed by delays of 1, 2, 4, ... seconds up to a minute, counted from the last session; a session
  that is lost is followed by a delay of one second.
\<close>

theorem reconnects_back_off:
  fixes es :: "'c hub_event list"
  assumes "mqtt_host (cfg_mqtt config) \<noteq> []"
    and t: "t = hub_run J tx L config device_id es (hub_boot config)" and "mt_client t \<noteq> None"
    and lost: "mt_client (mqtt_turn J L config device_id e t) = None"
    and "\<forall>a \<in> set as. attempt_fails J L config device_id a"
  shows "map unat (mt_waits (attempts J L config device_id as (mqtt_turn J L config device_id e t))) =
    map unat (mt_waits t) @ [1] @ map (\<lambda>k. min (2 ^ (1 + k)) 60) [0..<length as]"
proof -
  have "mt_client (hub_boot config :: 'c mqtt_task) = None" by (simp add: hub_boot_def mqtt_boot_def Let_def)
  then have b: "backoff_ok (mt_backoff t) 0" using live_backoff_run assms(3) t by blast
  show ?thesis
    using lost_session_wait [OF assms(3) b lost] failed_attempts [OF lost assms(1) _ assms(5)] by auto
qed

theorem reconnects_back_off_witness:
  "let L = sample_client\<lparr>client_poll := (\<lambda>c. (PollFailed, c))\<rparr>;
       t = hub_run sample_json sample_tx L sample_config [1, 2, 3]
         [MqttTurn (Attempt (\<lambda>_. None) (\<lambda>_. Some ()))] (hub_boot sample_config);
       t = mqtt_turn sample_json L sample_config [1, 2, 3] (Session Readable) t;
       unreachable = (\<lambda>_. None, \<lambda>_. None)
   in map unat (mt_waits (attempts sample_json L sample_config [1, 2, 3] [unreachable, unreachable] t)) = [1, 2, 4]"
proof -
  let ?L = "sample_client\<lparr>client_poll := (\<lambda>c. (PollFailed, c))\<rparr>"
  let ?es = "[MqttTurn (Attempt (\<lambda>_. None) (\<lambda>_. Some ()))]"
  let ?t = "hub_run sample_json sample_tx ?L sample_config [1, 2, 3] ?es (hub_boot sample_config)"
  have t: "mt_client ?t = Some () \<and> mt_waits ?t = []"
    by (simp add: hub_run_def hub_boot_def mqtt_boot_def attempt_def sample_config_def sample_host [simplified]
        open_session_def call_client client_publish_def sample_client_def topics_complete on_stats_def
        KEEPALIVE_SECS_def Let_def)
  have fails: "\<forall>a \<in> set [(\<lambda>_. None, \<lambda>_. None), (\<lambda>_. None, \<lambda>_. None)]. attempt_fails sample_json ?L sample_config [1, 2, 3] a"
    by (simp add: attempt_fails_def sample_config_def sample_host [simplified])
  have lost: "mt_client (mqtt_turn sample_json ?L sample_config [1, 2, 3] (Session Readable) ?t) = None"
    using t by (simp add: sample_client_def Let_def)
  have "mqtt_host (cfg_mqtt sample_config) \<noteq> []" by (simp add: sample_config_def)
  then show ?thesis
    using reconnects_back_off [OF _ refl _ lost fails] t by (simp add: Let_def)
qed

text \<open>
  A publication that fails is lost, and not counted. When the client refuses a publication of
  the bridge, the session ends, the message has left the queue, and the statistic of dropped
  messages does not change.
\<close>

theorem failed_publication_is_lost:
  assumes "mt_client t = Some c" "bt_out (mt_bridge t) = m # ms"
    and "\<not> fst (client_call L (OpPublish (resolve (new_topics device_id) (out_topic m)) (out_payload m) (out_retain m)) c)"
  shows "let t' = mqtt_turn J L config device_id (Session OutboundReady) t
    in bt_out (mt_bridge t') = ms \<and> mt_client t' = None
     \<and> st_dropped (bt_stats (mt_bridge t')) = st_dropped (bt_stats (mt_bridge t))"
  using assms by (simp add: deliver_def client_publish_def call_client case_prod_beta Let_def)

theorem failed_publication_is_lost_witness:
  "let t = (hub_boot sample_config)\<lparr>mt_client := Some (),
         mt_bridge := \<lparr>bt_state = new_bridge, bt_commands = [], bt_out = [tx_result sample_json (lit ''sent'') None None],
           bt_stats = new_stats\<rparr>\<rparr>;
       t' = mqtt_turn sample_json (sample_client\<lparr>client_call := (\<lambda>op c. (False, c))\<rparr>) sample_config [1, 2, 3]
         (Session OutboundReady) t
   in bt_out (mt_bridge t') = [] \<and> st_dropped (bt_stats (mt_bridge t')) = 0"
  using failed_publication_is_lost [of "(hub_boot sample_config)\<lparr>mt_client := Some (),
         mt_bridge := \<lparr>bt_state = new_bridge, bt_commands = [], bt_out = [tx_result sample_json (lit ''sent'') None None],
           bt_stats = new_stats\<rparr>\<rparr>" "()" "tx_result sample_json (lit ''sent'') None None" "[]"
      "sample_client\<lparr>client_call := (\<lambda>op c. (False, c))\<rparr>" "[1, 2, 3]" sample_json sample_config]
  by (simp add: Let_def new_stats_def)

end
