(* ===== verification/Hub_System.thy ===== *)
theory Hub_System imports Lora_Task Mqtt_Task begin

text \<open>
  The hub in bridge mode as a whole: the MQTT task, the bridge task and the radio task, joined by the
  queue of requests, the command queue and the bus of responses (the statics of
  src/src/bridge/mod.rs and src/src/dispatcher/handler.rs). The command queue is the one of the bridge
  task; the radio task is given it for its turns. The bus keeps the last eight messages for a
  subscriber, so a bridge that is further behind misses the older ones and is told how many.
\<close>

subsection \<open>The system\<close>

definition RESPONSE_CHANNEL_SIZE :: nat where "RESPONSE_CHANNEL_SIZE = 8"

record ('c, 'r) hub_system =
  hy_mqtt :: "'c mqtt_task"
  hy_lora :: "'r lora_task"
  hy_seen :: nat
  hy_lagged :: bool

definition commands_of :: "('c, 'r) hub_system \<Rightarrow> command_envelope list" where
  "commands_of s = bt_commands (mt_bridge (hy_mqtt s))"

definition bridge_of :: "('c, 'r) hub_system \<Rightarrow> bridge_state" where
  "bridge_of s = bt_state (mt_bridge (hy_mqtt s))"

definition set_commands :: "command_envelope list \<Rightarrow> 'c mqtt_task \<Rightarrow> 'c mqtt_task" where
  "set_commands q t = t\<lparr>mt_bridge := (mt_bridge t)\<lparr>bt_commands := q\<rparr>\<rparr>"

text \<open>The radio task with the queue it takes its commands from.\<close>

definition radio_of :: "('c, 'r) hub_system \<Rightarrow> 'r lora_task" where
  "radio_of s = (hy_lora s)\<lparr>lt_commands := commands_of s\<rparr>"

definition radio_turn :: "'r lora_radio \<Rightarrow> lora_event \<Rightarrow> ('c, 'r) hub_system \<Rightarrow> ('c, 'r) hub_system" where
  "radio_turn R e s =
     (let l = lora_turn R e (radio_of s)
      in s\<lparr>hy_lora := l, hy_mqtt := set_commands (lt_commands l) (hy_mqtt s)\<rparr>)"

text \<open>The bridge reads the next message of the bus, or learns that it missed some.\<close>

definition bus_turn ::
  "json_lib \<Rightarrow> lora_tx \<Rightarrow> 'c mqtt_lib \<Rightarrow> hub_config \<Rightarrow> bytes \<Rightarrow> u64 \<Rightarrow> ('c, 'r) hub_system \<Rightarrow> ('c, 'r) hub_system" where
  "bus_turn J tx L cfg device_id uptime s =
     (let bus = lt_published (hy_lora s); behind = length bus - hy_seen s
      in if behind = 0 then s
         else if RESPONSE_CHANNEL_SIZE < behind then
           s\<lparr>hy_mqtt := hub_turn J tx L cfg device_id (RadioLagged (of_nat (behind - RESPONSE_CHANNEL_SIZE))) (hy_mqtt s),
             hy_seen := length bus - RESPONSE_CHANNEL_SIZE, hy_lagged := True\<rparr>
         else
           s\<lparr>hy_mqtt := hub_turn J tx L cfg device_id (RadioMessage (bus ! hy_seen s) uptime) (hy_mqtt s),
             hy_seen := hy_seen s + 1\<rparr>)"

text \<open>
  The turns of the tasks, in any order; the serial reader queues commands of the host when there is
  room.
\<close>

datatype 'c system_event =
    MqttSide "'c mqtt_event"
  | TakeRequest
  | RadioSide lora_event
  | BusSide u64
  | HostSide command u16

fun system_turn ::
  "json_lib \<Rightarrow> lora_tx \<Rightarrow> 'c mqtt_lib \<Rightarrow> hub_config \<Rightarrow> bytes \<Rightarrow> 'r lora_radio \<Rightarrow> 'c system_event
   \<Rightarrow> ('c, 'r) hub_system \<Rightarrow> ('c, 'r) hub_system" where
  "system_turn J tx L cfg i R (MqttSide e) s = s\<lparr>hy_mqtt := hub_turn J tx L cfg i (MqttTurn e) (hy_mqtt s)\<rparr>"
| "system_turn J tx L cfg i R TakeRequest s = s\<lparr>hy_mqtt := hub_turn J tx L cfg i RequestTaken (hy_mqtt s)\<rparr>"
| "system_turn J tx L cfg i R (RadioSide e) s = radio_turn R e s"
| "system_turn J tx L cfg i R (BusSide uptime) s = bus_turn J tx L cfg i uptime s"
| "system_turn J tx L cfg i R (HostSide c n) s =
     (case try_send COMMAND_CHANNEL_SIZE \<lparr>env_command = c, env_source = Serial, env_sequence_id = n\<rparr> (commands_of s) of
        Some q \<Rightarrow> s\<lparr>hy_mqtt := set_commands q (hy_mqtt s)\<rparr> | None \<Rightarrow> s)"

definition system_run ::
  "json_lib \<Rightarrow> lora_tx \<Rightarrow> 'c mqtt_lib \<Rightarrow> hub_config \<Rightarrow> bytes \<Rightarrow> 'r lora_radio \<Rightarrow> 'c system_event list
   \<Rightarrow> ('c, 'r) hub_system \<Rightarrow> ('c, 'r) hub_system" where
  "system_run J tx L cfg i R es s = foldl (\<lambda>s e. system_turn J tx L cfg i R e s) s es"

definition system_boot :: "hub_config \<Rightarrow> 'r lora_radio \<Rightarrow> 'r \<Rightarrow> ('c, 'r) hub_system" where
  "system_boot cfg R r =
     \<lparr>hy_mqtt = mqtt_boot cfg \<lparr>bt_state = new_bridge, bt_commands = [], bt_out = [], bt_stats = new_stats\<rparr>,
      hy_lora = lora_start R r, hy_seen = 0, hy_lagged = False\<rparr>"

subsection \<open>What the MQTT task leaves alone\<close>

definition bridge_part :: "'c mqtt_task \<Rightarrow> bridge_state \<times> command_envelope list" where
  "bridge_part t = (bt_state (mt_bridge t), bt_commands (mt_bridge t))"

lemma bridge_part_frame [simp]:
  "bridge_part (on_stats f t) = bridge_part t" "bridge_part (wait_backoff t) = bridge_part t"
  "bridge_part (snd (call L op t)) = bridge_part t" "bridge_part (snd (client_publish L tp p r t)) = bridge_part t"
  "bridge_part (t\<lparr>mt_client := c\<rparr>) = bridge_part t" "bridge_part (t\<lparr>mt_backoff := b\<rparr>) = bridge_part t"
  "bridge_part (t\<lparr>mt_in := q\<rparr>) = bridge_part t"
  by (auto simp: bridge_part_def on_stats_def wait_backoff_def call_def client_publish_def case_prod_beta Let_def
      split: option.split)

lemma bridge_part_open: "bridge_part (snd (open_session J L topics ident fw t)) = bridge_part t"
  by (auto simp: open_session_def case_prod_beta Let_def)

lemma bridge_part_end: "bridge_part (end_session L t) = bridge_part t"
  by (simp add: end_session_def case_prod_beta Let_def)

lemma bridge_part_incoming: "bridge_part (incoming topics tp m t) = bridge_part t"
  by (auto simp: incoming_def split: option.split)

lemma bridge_part_session: "bridge_part (snd (session_turn L topics e t)) = bridge_part t"
proof (cases e)
  case OutboundReady
  have "bridge_part (t\<lparr>mt_bridge := (mt_bridge t)\<lparr>bt_out := ms\<rparr>\<rparr>) = bridge_part t" for ms by (simp add: bridge_part_def)
  then show ?thesis
    by (auto simp: OutboundReady deliver_def case_prod_beta Let_def split: list.split)
qed (auto simp: bridge_part_incoming case_prod_beta Let_def split: option.split poll_result.split)

lemma bridge_part_mqtt_turn: "bridge_part (mqtt_turn J L cfg i e t) = bridge_part t"
  by (cases e) (auto simp: attempt_def case_prod_beta Let_def bridge_part_open bridge_part_end bridge_part_session split: option.split)

subsection \<open>Nothing asked of the radio is lost\<close>

text \<open>
  The answers the bridge still gets: those on the bus it has not read, and those of the commands in
  the queue.
\<close>

definition owed :: "('c, 'r) hub_system \<Rightarrow> (command_source \<times> u16) list" where
  "owed s = concat (map answer_key (drop (hy_seen s) (lt_published (hy_lora s)))) @ requested (radio_of s)"

definition system_inv :: "('c, 'r) hub_system \<Rightarrow> bool" where
  "system_inv s \<longleftrightarrow> bridge_ok (bridge_of s) \<and> hy_seen s \<le> length (lt_published (hy_lora s))
     \<and> length (commands_of s) \<le> COMMAND_CHANNEL_SIZE
     \<and> (hy_lagged s \<or> (\<forall>i. lm_get (in_flight (bridge_of s)) i \<noteq> None \<longrightarrow> (WiFi, i) \<in> set (owed s)))"

lemma set_commands_frame [simp]:
  "bt_state (mt_bridge (set_commands q t)) = bt_state (mt_bridge t)" "bt_commands (mt_bridge (set_commands q t)) = q"
  by (simp_all add: set_commands_def)

lemma radio_of_frame [simp]:
  "lt_commands (radio_of s) = commands_of s" "lt_published (radio_of s) = lt_published (hy_lora s)"
  by (simp_all add: radio_of_def)

lemma requested_commands: "requested (radio_of s) = concat (map request_key (commands_of s))"
  by (simp add: requested_def)

lemma lora_turn_extends: "\<exists>ms. lt_published (lora_turn R e t) = lt_published t @ ms"
proof (cases "\<exists>now env q. e = LoraCommand now \<and> lt_commands t = env # q")
  case True
  then obtain now env q where e: "e = LoraCommand now" "lt_commands t = env # q" by blast
  obtain t1 where t1: "lora_turn R (LoraCommand now) t = handle_command R now env t1" "lt_published t1 = lt_published t"
    using command_turn [OF e(2), of R now] by force
  show ?thesis unfolding e(1) t1(1)
    by (cases rule: handle_command_cases [where e = env and R = R and now = now and t = t1]) (simp_all add: t1(2))
next
  case False
  then have "e = LoraRadioWakes \<or> lt_commands t = []" by (cases e; cases "lt_commands t") auto
  from idle_turn [OF this, of R] show ?thesis by blast
qed

lemma lora_turn_queue:
  "lt_commands (lora_turn R e t) = (case e of LoraRadioWakes \<Rightarrow> lt_commands t | LoraCommand _ \<Rightarrow> drop 1 (lt_commands t))"
proof (cases "\<exists>now env q. e = LoraCommand now \<and> lt_commands t = env # q")
  case True
  then obtain now env q where e: "e = LoraCommand now" "lt_commands t = env # q" by blast
  then show ?thesis using command_turn [OF e(2), of R now] by force
next
  case False
  then have "e = LoraRadioWakes \<or> lt_commands t = []" by (cases e; cases "lt_commands t") auto
  from idle_turn [OF this, of R] this show ?thesis by (cases e) auto
qed

text \<open>A turn of the radio task keeps what is owed.\<close>

lemma radio_turn_frame [simp]:
  "bridge_of (radio_turn R e s) = bridge_of s" "hy_seen (radio_turn R e s) = hy_seen s"
  "hy_lagged (radio_turn R e s) = hy_lagged s" "radio_of (radio_turn R e s) = lora_turn R e (radio_of s)"
  "hy_lora (radio_turn R e s) = lora_turn R e (radio_of s)"
  "commands_of (radio_turn R e s) = lt_commands (lora_turn R e (radio_of s))"
  by (simp_all add: radio_turn_def bridge_of_def commands_of_def radio_of_def Let_def)

lemma radio_turn_owed:
  assumes "hy_seen s \<le> length (lt_published (hy_lora s))"
  shows "owed (radio_turn R e s) = owed s"
proof -
  let ?t = "radio_of s"
  let ?p = "lt_published ?t"
  obtain ms where ms: "lt_published (lora_turn R e ?t) = ?p @ ms" using lora_turn_extends by blast
  have split: "drop (hy_seen s) (?p @ ms) = drop (hy_seen s) ?p @ ms" using assms by simp
  have "answered ?t @ (concat (map answer_key ms) @ requested (lora_turn R e ?t)) = answered ?t @ requested ?t"
    using turn_answers [of R e ?t] by (simp add: answered_def ms)
  then have "concat (map answer_key ms) @ requested (lora_turn R e ?t) = requested ?t" by (simp only: same_append_eq)
  then show ?thesis using ms split by (simp add: owed_def)
qed

lemma bridge_message_ok: "bridge_ok (bt_state b) \<Longrightarrow> bridge_ok (bt_state (bridge_message J m uptime b))"
  using bridge_message_frame [of J m uptime b]
  by (auto simp: bridge_ok_def lm.ok_del split: response_message.splits command_source.splits if_splits)

text \<open>The bridge reads an answer: what is owed shrinks by it, and so do the requests in flight.\<close>

lemma bus_turn_near:
  assumes "hy_seen s < length (lt_published (hy_lora s))" "length (lt_published (hy_lora s)) - hy_seen s \<le> RESPONSE_CHANNEL_SIZE"
  shows "bus_turn J tx L cfg i uptime s = s\<lparr>
    hy_mqtt := (hy_mqtt s)\<lparr>mt_bridge := bridge_message J (lt_published (hy_lora s) ! hy_seen s) uptime (mt_bridge (hy_mqtt s))\<rparr>,
    hy_seen := hy_seen s + 1\<rparr>"
  using assms by (simp add: bus_turn_def Let_def)

lemma bus_turn_frame [simp]:
  "commands_of (bus_turn J tx L cfg i uptime s) = commands_of s" "hy_lora (bus_turn J tx L cfg i uptime s) = hy_lora s"
  "radio_of (bus_turn J tx L cfg i uptime s) = radio_of s"
  by (simp_all add: bus_turn_def commands_of_def radio_of_def bridge_message_frame Let_def)

lemma bus_turn_inv:
  assumes "system_inv s"
  shows "system_inv (bus_turn J tx L cfg i uptime s)"
proof -
  let ?bus = "lt_published (hy_lora s)"
  consider (idle) "length ?bus = hy_seen s" | (lag) "RESPONSE_CHANNEL_SIZE < length ?bus - hy_seen s"
    | (near) "hy_seen s < length ?bus" "length ?bus - hy_seen s \<le> RESPONSE_CHANNEL_SIZE"
    using assms by (fastforce simp: system_inv_def)
  then show ?thesis
  proof cases
    case idle
    then show ?thesis using assms by (simp add: bus_turn_def Let_def)
  next
    case lag
    then show ?thesis using assms
      by (auto simp: bus_turn_def system_inv_def bridge_of_def commands_of_def Let_def)
  next
    case near
    define m where "m = ?bus ! hy_seen s"
    define b where "b = mt_bridge (hy_mqtt s)"
    let ?s = "bus_turn J tx L cfg i uptime s"
    have turn: "?s = s\<lparr>hy_mqtt := (hy_mqtt s)\<lparr>mt_bridge := bridge_message J m uptime b\<rparr>, hy_seen := hy_seen s + 1\<rparr>"
      using bus_turn_near [OF near] by (simp add: m_def b_def)
    have owed: "owed s = answer_key m @ owed ?s"
      using Cons_nth_drop_Suc [OF near(1)]
      by (simp add: owed_def requested_def turn radio_of_def commands_of_def bridge_message_frame b_def m_def [symmetric])
        (metis append_assoc concat.simps(2) list.simps(9))
    have b: "bridge_of ?s = bt_state (bridge_message J m uptime b)" "bt_state b = bridge_of s"
      by (simp_all add: turn bridge_of_def b_def)
    have fl: "in_flight (bridge_of ?s) = (case m of CommandResponse WiFi i r \<Rightarrow>
        if lm_get (in_flight (bridge_of s)) i = None then in_flight (bridge_of s) else lm_remove i (in_flight (bridge_of s))
      | _ \<Rightarrow> in_flight (bridge_of s))"
      using bridge_message_frame [of J m uptime b] unfolding b by simp
    have "(WiFi, k) \<in> set (owed ?s)" if "lm_get (in_flight (bridge_of ?s)) k \<noteq> None" "\<not> hy_lagged s" for k
    proof -
      have "lm_get (in_flight (bridge_of s)) k \<noteq> None \<and> (WiFi, k) \<notin> set (answer_key m)"
        using that(1) by (auto simp: fl lm.get_del split: response_message.splits command_source.splits if_splits)
      then show ?thesis using assms that(2) by (auto simp: system_inv_def owed)
    qed
    moreover have "bridge_ok (bridge_of ?s)" using assms
      by (simp add: b system_inv_def bridge_message_ok)
    moreover have "hy_seen ?s = Suc (hy_seen s)" "hy_lagged ?s = hy_lagged s" by (simp_all add: turn)
    ultimately show ?thesis using assms near(1) by (auto simp: system_inv_def simp del: not_None_eq)
  qed
qed

text \<open>A request is taken: what is sent to the radio is owed, and nothing else is in flight.\<close>

definition tx_only :: "lora_tx \<Rightarrow> bool" where
  "tx_only tx \<longleftrightarrow> (\<forall>p c. tx p = Inr c \<longrightarrow> c = LoraTx p)"

lemma abandon_state: "snd (abandon J i why s) = s\<lparr>in_flight := lm_remove i (in_flight s)\<rparr>"
  by (simp add: abandon_def Let_def)

lemma bridge_downlink_effect:
  assumes "bridge_ok (bt_state b)" "tx_only tx" and b'_def: "b' = bridge_downlink J tx json b"
  shows "bridge_ok (bt_state b') \<and> (\<exists>es. bt_commands b' = bt_commands b @ es
    \<and> (length (bt_commands b) \<le> COMMAND_CHANNEL_SIZE \<longrightarrow> length (bt_commands b') \<le> COMMAND_CHANNEL_SIZE)
    \<and> (\<forall>i. lm_get (in_flight (bt_state b')) i \<noteq> None \<longrightarrow>
         lm_get (in_flight (bt_state b)) i \<noteq> None \<or> (WiFi, i) \<in> set (concat (map request_key es))))"
proof -
  let ?n = "next_sequence (bt_state b)"
  obtain r s' where d: "on_downlink J tx json (bt_state b) = (r, s')" by force
  have ok: "bridge_ok s'" using on_downlink_ok [OF d assms(1)] .
  from d assms(1) show ?thesis
  proof (cases rule: on_downlink_cases)
    case (oversize q)
    then show ?thesis using ok
      by (auto simp: b'_def bridge_downlink_def d lm.get_del lm.other_key [where cap = MAX_IN_FLIGHT] split: if_splits)
  next
    case (sent q c)
    have c: "c = LoraTx (dl_payload q)" using sent(3) assms(2) by (simp add: tx_only_def)
    have other: "lm_get (in_flight s') i = lm_get (in_flight (bt_state b)) i" if "i \<noteq> ?n" for i
      using on_downlink_other [OF d assms(1) that] .
    show ?thesis
    proof (cases "length (bt_commands b) < COMMAND_CHANNEL_SIZE")
      case True
      let ?e = "\<lparr>env_command = c, env_source = WiFi, env_sequence_id = ?n\<rparr>"
      have "bt_state b' = s'" "bt_commands b' = bt_commands b @ [?e]"
        using True sent(4) by (simp_all add: b'_def bridge_downlink_def d try_send_def)
      moreover have "request_key ?e = [(WiFi, ?n)]" by (simp add: request_key_def c)
      ultimately show ?thesis using ok other True by (intro conjI exI [of _ "[?e]"]) auto
    next
      case False
      have "bt_state b' = s'\<lparr>in_flight := lm_remove ?n (in_flight s')\<rparr>" "bt_commands b' = bt_commands b"
        using False sent(4) by (simp_all add: b'_def bridge_downlink_def d try_send_def case_prod_beta abandon_state)
      then show ?thesis using ok other by (auto simp: bridge_ok_def lm.ok_del lm.get_del split: if_splits)
    qed
  qed (use ok in \<open>auto simp: b'_def bridge_downlink_def d\<close>)
qed

lemma system_invI:
  assumes "system_inv s" "bridge_ok (bridge_of s')" "hy_lora s' = hy_lora s" "hy_seen s' = hy_seen s"
    "hy_lagged s' = hy_lagged s" "commands_of s' = commands_of s @ es" "length (commands_of s') \<le> COMMAND_CHANNEL_SIZE"
    "\<And>i. lm_get (in_flight (bridge_of s')) i \<noteq> None \<Longrightarrow>
       lm_get (in_flight (bridge_of s)) i \<noteq> None \<or> (WiFi, i) \<in> set (concat (map request_key es))"
  shows "system_inv s'"
proof -
  have "set (owed s') = set (owed s) \<union> set (concat (map request_key es))"
    using assms(3,4,6) by (auto simp: owed_def requested_commands)
  moreover have "hy_lagged s \<or> (\<forall>i. lm_get (in_flight (bridge_of s)) i \<noteq> None \<longrightarrow> (WiFi, i) \<in> set (owed s))"
    using assms(1) by (simp add: system_inv_def)
  ultimately have "hy_lagged s' \<or> (\<forall>i. lm_get (in_flight (bridge_of s')) i \<noteq> None \<longrightarrow> (WiFi, i) \<in> set (owed s'))"
    using assms(5,8) by blast
  then show ?thesis using assms(1-4,7) by (simp add: system_inv_def)
qed

lemma system_turn_inv:
  assumes "system_inv s" "tx_only tx"
  shows "system_inv (system_turn J tx L cfg i R e s)"
proof (cases e)
  case (MqttSide m)
  have "bridge_part (mqtt_turn J L cfg i m (hy_mqtt s)) = bridge_part (hy_mqtt s)" by (rule bridge_part_mqtt_turn)
  then show ?thesis using assms(1)
    by (intro system_invI [OF assms(1), where es = "[]"])
      (simp_all add: MqttSide bridge_part_def bridge_of_def commands_of_def system_inv_def)
next
  case TakeRequest
  show ?thesis
  proof (cases "mt_in (hy_mqtt s)")
    case (Cons json q)
    have "bridge_ok (bt_state (mt_bridge (hy_mqtt s)))" using assms(1) by (simp add: system_inv_def bridge_of_def)
    from bridge_downlink_effect [OF this assms(2) refl, of J json] obtain es where es:
      "bridge_ok (bt_state (bridge_downlink J tx json (mt_bridge (hy_mqtt s))))"
      "bt_commands (bridge_downlink J tx json (mt_bridge (hy_mqtt s))) = bt_commands (mt_bridge (hy_mqtt s)) @ es"
      "length (bt_commands (mt_bridge (hy_mqtt s))) \<le> COMMAND_CHANNEL_SIZE \<longrightarrow>
        length (bt_commands (bridge_downlink J tx json (mt_bridge (hy_mqtt s)))) \<le> COMMAND_CHANNEL_SIZE"
      "\<forall>i. lm_get (in_flight (bt_state (bridge_downlink J tx json (mt_bridge (hy_mqtt s))))) i \<noteq> None \<longrightarrow>
        lm_get (in_flight (bt_state (mt_bridge (hy_mqtt s)))) i \<noteq> None \<or> (WiFi, i) \<in> set (concat (map request_key es))"
      by blast
    then show ?thesis using assms(1)
      by (intro system_invI [OF assms(1), where es = es])
        (simp_all add: TakeRequest Cons bridge_of_def commands_of_def system_inv_def del: set_concat set_map)
  qed (simp add: TakeRequest assms(1))
next
  case (RadioSide r)
  have seen: "hy_seen s \<le> length (lt_published (hy_lora s))" using assms(1) by (simp add: system_inv_def)
  obtain ms where "lt_published (lora_turn R r (radio_of s)) = lt_published (hy_lora s) @ ms"
    using lora_turn_extends [of R r "radio_of s"] by auto
  then show ?thesis using assms(1) radio_turn_owed [OF seen, of R r] lora_turn_queue [of R r "radio_of s"]
    by (auto simp: RadioSide system_inv_def split: lora_event.splits)
next
  case (BusSide uptime)
  then show ?thesis using bus_turn_inv [OF assms(1)] by simp
next
  case (HostSide c n)
  let ?e = "\<lparr>env_command = c, env_source = Serial, env_sequence_id = n\<rparr>"
  show ?thesis
  proof (cases "length (commands_of s) < COMMAND_CHANNEL_SIZE")
    case True
    then show ?thesis using assms(1)
      by (intro system_invI [OF assms(1), where es = "[?e]"])
        (simp_all add: HostSide try_send_def bridge_of_def commands_of_def system_inv_def)
  qed (simp add: HostSide try_send_def assms(1))
qed

lemma system_run_simps [simp]:
  "system_run J tx L cfg i R [] s = s"
  "system_run J tx L cfg i R (e # es) s = system_run J tx L cfg i R es (system_turn J tx L cfg i R e s)"
  "system_run J tx L cfg i R (es @ fs) s = system_run J tx L cfg i R fs (system_run J tx L cfg i R es s)"
  by (simp_all add: system_run_def)

lemma system_boot_inv: "system_inv (system_boot cfg R r)"
proof -
  have "in_flight new_bridge = []" by (simp add: new_bridge_def)
  then show ?thesis
    by (simp add: system_inv_def system_boot_def mqtt_boot_def bridge_of_def commands_of_def bridge_ok_new on_stats_def
        lora_start_def Let_def)
qed

lemma system_run_inv: "system_inv s \<Longrightarrow> tx_only tx \<Longrightarrow> system_inv (system_run J tx L cfg i R es s)"
  by (induction es arbitrary: s) (simp_all add: system_turn_inv)

subsection \<open>Quiet times\<close>

text \<open>
  The bridge reads the bus, then the radio serves its queue with the bridge reading each answer.
\<close>

definition read_bus :: "u64 list \<Rightarrow> 'c system_event list" where
  "read_bus us = map BusSide us"

definition serve_queue :: "(u64 \<times> u64) list \<Rightarrow> 'c system_event list" where
  "serve_queue ts = concat (map (\<lambda>(now, uptime). [RadioSide (LoraCommand now), BusSide uptime]) ts)"

definition caught_up :: "('c, 'r) hub_system \<Rightarrow> bool" where
  "caught_up s \<longleftrightarrow> hy_seen s = length (lt_published (hy_lora s))"

lemma read_bus_catches_up:
  assumes "hy_seen s \<le> length (lt_published (hy_lora s))"
    "length (lt_published (hy_lora s)) - hy_seen s \<le> RESPONSE_CHANNEL_SIZE"
    "length (lt_published (hy_lora s)) - hy_seen s \<le> length us"
  shows "caught_up (system_run J tx L cfg i R (read_bus us) s)
    \<and> commands_of (system_run J tx L cfg i R (read_bus us) s) = commands_of s
    \<and> hy_lagged (system_run J tx L cfg i R (read_bus us) s) = hy_lagged s"
  using assms
proof (induction us arbitrary: s)
  case Nil
  then show ?case by (simp add: read_bus_def caught_up_def)
next
  case (Cons u us)
  let ?bus = "lt_published (hy_lora s)"
  let ?s = "bus_turn J tx L cfg i u s"
  have step: "hy_seen ?s = (if hy_seen s < length ?bus then hy_seen s + 1 else hy_seen s) \<and> hy_lagged ?s = hy_lagged s"
  proof (cases "hy_seen s < length ?bus")
    case True
    then show ?thesis using bus_turn_near [OF True Cons.prems(2), of J tx L cfg i u] by simp
  qed (simp add: bus_turn_def)
  have "hy_seen ?s \<le> length (lt_published (hy_lora ?s))"
    "length (lt_published (hy_lora ?s)) - hy_seen ?s \<le> RESPONSE_CHANNEL_SIZE"
    "length (lt_published (hy_lora ?s)) - hy_seen ?s \<le> length us"
    using Cons.prems step by (simp_all split: if_splits)
  from Cons.IH [OF this] step show ?case by (simp add: read_bus_def)
qed

lemma command_turn_publishes:
  "length (lt_published (lora_turn R (LoraCommand now) t)) - length (lt_published t) \<le> 1"
proof (cases "lt_commands t")
  case Nil
  then show ?thesis by (simp add: lora_turn_def case_prod_beta Let_def)
next
  case (Cons e q)
  obtain t1 where t1: "lora_turn R (LoraCommand now) t = handle_command R now e t1" "lt_published t1 = lt_published t"
    using command_turn [OF Cons, of R now] by force
  show ?thesis unfolding t1(1)
    by (cases rule: handle_command_cases [where e = e and R = R and now = now and t = t1]) (simp_all add: t1(2))
qed

lemma serve_one:
  assumes "caught_up s" and s'_def: "s' = bus_turn J tx L cfg i uptime (radio_turn R (LoraCommand now) s)"
  shows "caught_up s' \<and> commands_of s' = drop 1 (commands_of s) \<and> hy_lagged s' = hy_lagged s"
proof -
  let ?r = "radio_turn R (LoraCommand now) s"
  obtain ms where ms: "lt_published (lora_turn R (LoraCommand now) (radio_of s)) = lt_published (hy_lora s) @ ms"
    using lora_turn_extends [of R "LoraCommand now" "radio_of s"] by auto
  then have behind: "hy_seen ?r \<le> length (lt_published (hy_lora ?r))"
    "length (lt_published (hy_lora ?r)) - hy_seen ?r \<le> 1"
    using assms(1) command_turn_publishes [of R now "radio_of s"] by (simp_all add: caught_up_def)
  show ?thesis
    using read_bus_catches_up [OF behind(1), of "[uptime]" J tx L cfg i R] behind(2)
    by (simp add: s'_def read_bus_def RESPONSE_CHANNEL_SIZE_def lora_turn_queue)
qed

lemma serve_queue_empties:
  "caught_up s \<Longrightarrow> caught_up (system_run J tx L cfg i R (serve_queue ts) s)
    \<and> commands_of (system_run J tx L cfg i R (serve_queue ts) s) = drop (length ts) (commands_of s)
    \<and> hy_lagged (system_run J tx L cfg i R (serve_queue ts) s) = hy_lagged s"
proof (induction ts arbitrary: s)
  case (Cons p ts)
  obtain now uptime where p: "p = (now, uptime)" by force
  from Cons.IH [of "bus_turn J tx L cfg i uptime (radio_turn R (LoraCommand now) s)"]
    serve_one [OF Cons.prems refl, of J tx L cfg i uptime R now]
  show ?case by (simp add: serve_queue_def p)
qed (simp add: serve_queue_def)

lemma nothing_owed:
  assumes "system_inv s" "caught_up s" "commands_of s = []" "\<not> hy_lagged s"
  shows "in_flight (bridge_of s) = []"
proof -
  have "owed s = []" using assms(2,3) by (simp add: owed_def requested_commands caught_up_def)
  then have "lm_get (in_flight (bridge_of s)) k = None" for k using assms(1,4) by (auto simp: system_inv_def)
  then show ?thesis by (cases "in_flight (bridge_of s)") (auto simp: lm_get_None)
qed

subsection \<open>The charges of a run\<close>

text \<open>What a turn of the system is to the radio task.\<close>

fun radio_steps :: "json_lib \<Rightarrow> lora_tx \<Rightarrow> 'c system_event \<Rightarrow> ('c, 'r) hub_system \<Rightarrow> lora_step list" where
  "radio_steps J tx (RadioSide e) s = [LoraTurn e]"
| "radio_steps J tx (HostSide c n) s = [LoraEnqueue \<lparr>env_command = c, env_source = Serial, env_sequence_id = n\<rparr>]"
| "radio_steps J tx TakeRequest s =
     (case mt_in (hy_mqtt s) of
        [] \<Rightarrow> []
      | json # q \<Rightarrow>
          (case on_downlink J tx json (bridge_of s) of
             (Send i c, _) \<Rightarrow> [LoraEnqueue \<lparr>env_command = c, env_source = WiFi, env_sequence_id = i\<rparr>]
           | (Reject m, _) \<Rightarrow> []))"
| "radio_steps J tx e s = []"

fun system_steps ::
  "json_lib \<Rightarrow> lora_tx \<Rightarrow> 'c mqtt_lib \<Rightarrow> hub_config \<Rightarrow> bytes \<Rightarrow> 'r lora_radio \<Rightarrow> 'c system_event list
   \<Rightarrow> ('c, 'r) hub_system \<Rightarrow> lora_step list" where
  "system_steps J tx L cfg i R [] s = []"
| "system_steps J tx L cfg i R (e # es) s =
     radio_steps J tx e s @ system_steps J tx L cfg i R es (system_turn J tx L cfg i R e s)"

text \<open>The packets the dispatcher charges in a run.\<close>

definition system_charges ::
  "json_lib \<Rightarrow> lora_tx \<Rightarrow> 'c mqtt_lib \<Rightarrow> hub_config \<Rightarrow> bytes \<Rightarrow> 'r lora_radio \<Rightarrow> 'c system_event list
   \<Rightarrow> ('c, 'r) hub_system \<Rightarrow> charge list" where
  "system_charges J tx L cfg i R es s = snd (lora_run R (system_steps J tx L cfg i R es s) (radio_of s) [])"

fun system_clock :: "u64 \<Rightarrow> 'c system_event list \<Rightarrow> bool" where
  "system_clock now [] = True"
| "system_clock now (RadioSide (LoraCommand t) # es) = (now \<le> t \<and> system_clock t es)"
| "system_clock now (e # es) = system_clock now es"

lemma radio_follows:
  "radio_of (system_turn J tx L cfg i R e s) = foldl (\<lambda>t x. lora_do R x t) (radio_of s) (radio_steps J tx e s)"
proof (cases e)
  case (MqttSide m)
  have "bridge_part (mqtt_turn J L cfg i m (hy_mqtt s)) = bridge_part (hy_mqtt s)" by (rule bridge_part_mqtt_turn)
  then show ?thesis by (simp add: MqttSide bridge_part_def radio_of_def commands_of_def)
next
  case TakeRequest
  show ?thesis
  proof (cases "mt_in (hy_mqtt s)")
    case (Cons json q)
    obtain r s' where d: "on_downlink J tx json (bt_state (mt_bridge (hy_mqtt s))) = (r, s')" by force
    then show ?thesis
      by (cases r)
        (simp_all add: TakeRequest Cons radio_of_def commands_of_def bridge_of_def bridge_downlink_def try_send_def case_prod_beta Let_def)
  qed (simp add: TakeRequest)
next
  case (HostSide c n)
  then show ?thesis by (simp add: try_send_def radio_of_def commands_of_def)
qed simp_all

lemma lora_run_append:
  "lora_run R (xs @ ys) t log = (let (t', log') = lora_run R xs t log in lora_run R ys t' log')"
  by (induction xs arbitrary: t log) (simp_all add: case_prod_beta Let_def)

lemma lora_run_state: "fst (lora_run R xs t log) = foldl (\<lambda>t x. lora_do R x t) t xs"
  by (induction xs arbitrary: t log) simp_all

lemma radio_follows_run:
  "radio_of (system_run J tx L cfg i R es s) = fst (lora_run R (system_steps J tx L cfg i R es s) (radio_of s) log)"
proof (induction es arbitrary: s log)
  case (Cons e es)
  then show ?case
    by (simp add: lora_run_append case_prod_beta Let_def lora_run_state radio_follows)
qed simp

lemma lora_clock_wakes: "\<forall>t. r \<noteq> LoraCommand t \<Longrightarrow> lora_clock now (LoraTurn r # ss) = lora_clock now ss"
  by (cases r) auto

lemma system_clock_steps: "system_clock now es \<Longrightarrow> lora_clock now (system_steps J tx L cfg i R es s)"
proof (induction es arbitrary: now s)
  case (Cons e es)
  show ?case
  proof (cases "\<exists>t. e = RadioSide (LoraCommand t)")
    case True
    then show ?thesis using Cons by auto
  next
    case False
    have "system_clock now es"
      using Cons.prems False by (cases e; cases "case e of RadioSide r \<Rightarrow> r | _ \<Rightarrow> LoraRadioWakes") auto
    from Cons.IH [OF this] False show ?thesis
      by (cases "(J, tx, e, s)" rule: radio_steps.cases)
        (auto split: list.split prod.split downlink_outcome.split lora_event.split simp: lora_clock_wakes)
  qed
qed simp

text \<open>The charges are packets that were asked for, in the order of the requests.\<close>

definition tx_payload :: "command_envelope \<Rightarrow> bytes list" where
  "tx_payload e = (case env_command e of LoraTx p \<Rightarrow> [p] | _ \<Rightarrow> [])"

lemma charges_asked: "subseq (map payload (charge_of d (env_command e) now)) (tx_payload e)"
  by (auto simp: charge_of_def tx_payload_def payload_def split: command.split)

lemma run_charges_asked:
  "\<exists>cs. snd (lora_run R ss t log) = log @ cs
     \<and> subseq (map payload cs) (concat (map tx_payload (lt_commands t @ taken R ss t)))"
proof (induction ss arbitrary: t log)
  case (Cons x ss)
  let ?t = "lora_do R x t"
  obtain cs where cs: "snd (lora_run R ss ?t (log @ charges_of x t)) = (log @ charges_of x t) @ cs"
    "subseq (map payload cs) (concat (map tx_payload (lt_commands ?t @ taken R ss ?t)))"
    using Cons.IH by blast
  have "subseq (map payload (charges_of x t) @ map payload cs) (concat (map tx_payload (lt_commands t @ taken R (x # ss) t)))"
  proof (cases x)
    case (LoraEnqueue e)
    then show ?thesis using cs(2) enqueue_step(4) [of R e t] by simp
  next
    case (LoraTurn e)
    show ?thesis
    proof (cases "\<exists>now env q. e = LoraCommand now \<and> lt_commands t = env # q")
      case True
      then obtain now env q where e: "e = LoraCommand now" "lt_commands t = env # q" by blast
      have "lt_commands ?t = q" using lora_turn_queue [of R e t] by (simp add: LoraTurn e)
      then show ?thesis using cs(2) list_emb_append_mono [OF charges_asked [of "lt_disp t" env now]]
        by (simp add: LoraTurn e)
    next
      case False
      then have idle: "e = LoraRadioWakes \<or> lt_commands t = []" by (cases e; cases "lt_commands t") auto
      then have "lt_commands ?t = lt_commands t" "charges_of x t = []"
        using idle_turn [OF idle, of R] by (cases e; auto simp: LoraTurn)+
      then show ?thesis using cs(2) by (simp add: LoraTurn)
    qed
  qed
  then show ?case using cs(1) by (intro exI [of _ "charges_of x t @ cs"]) simp
qed simp

subsection \<open>The properties\<close>

text \<open>
  C6. The whole hub keeps the duty cycle. From boot, whatever the broker, the host, the network and
  the radio hardware do and in whatever order the tasks run, the packets the SX1262 puts on the air
  are a subsequence of the packets charged, which are a subsequence of the packets the command queue
  took from the host and from the broker, and the airtime charged within any 59 minutes is at most
  the 360 seconds of the band.
\<close>

theorem hub_keeps_the_duty_cycle:
  assumes "system_clock 0 es" and "R = Sx1262 (recording h)" and "s = system_boot cfg R (build_driver w)"
    and "log = system_charges J tx L cfg i R es s"
  shows "subseq (air_log (lt_radio (hy_lora (system_run J tx L cfg i R es s)))) (map payload log)
    \<and> subseq (map payload log) (concat (map tx_payload (taken R (system_steps J tx L cfg i R es s) (radio_of s))))
    \<and> granted_within x (x + 3540000) (map charged_airtime log) \<le> 360000"
proof -
  have boot: "radio_of s = lora_start R (build_driver w)"
    by (simp add: assms(3) radio_of_def commands_of_def system_boot_def mqtt_boot_def on_stats_def lora_start_def Let_def)
  let ?ss = "system_steps J tx L cfg i R es s"
  obtain t where t: "lora_run R ?ss (radio_of s) [] = (t, log)" using assms(4) by (simp add: system_charges_def prod_eq_iff)
  have "radio_of (system_run J tx L cfg i R es s) = t" using radio_follows_run [of J tx L cfg i R es s "[]"] t by simp
  then have radio: "lt_radio (hy_lora (system_run J tx L cfg i R es s)) = lt_radio t" by (auto simp: radio_of_def)
  have "subseq (air_log (lt_radio t)) (map payload log)"
    using sx1262.lora_run_airs [where t = "radio_of s" and h = h and ss = ?ss and log = "[]"] t
      started_silent [of h w] by (auto simp: boot assms(2))
  moreover have "subseq (map payload log) (concat (map tx_payload (taken R ?ss (radio_of s))))"
    using run_charges_asked [of R ?ss "radio_of s" "[]"] t by (simp add: boot lora_start_def)
  moreover have "granted_within x (x + 3540000) (map charged_airtime log) \<le> 360000"
  proof -
    have clock: "lora_clock 0 ?ss" by (rule system_clock_steps [OF assms(1)])
    have "log_inv (disp_duty (lt_disp (radio_of s))) 360000 (map charged_airtime [])"
      "head_start_ms (disp_duty (lt_disp (radio_of s))) \<le> 0"
      unfolding boot by (rule lora_start_duty)+
    from lora_run_bounded [OF this(1) clock this(2), of x R] show ?thesis by (simp add: t)
  qed
  ultimately show ?thesis by (simp add: radio)
qed

theorem hub_keeps_the_duty_cycle_witness:
  "granted_within 0 3540000 (map charged_airtime (system_charges sample_json sample_tx sample_client sample_config [1, 2, 3]
     (Sx1262 (recording (host_test_hal 256))) [HostSide (LoraTx [1, 2, 3]) 7, RadioSide (LoraCommand 5), BusSide 9]
     (system_boot sample_config (Sx1262 (recording (host_test_hal 256))) (build_driver ())))) \<le> 360000"
proof -
  have "system_clock 0 [HostSide (LoraTx [1, 2, 3]) 7, RadioSide (LoraCommand 5), BusSide 9]" by simp
  from hub_keeps_the_duty_cycle [OF this refl refl refl, where x = 0, THEN conjunct2, THEN conjunct2]
  show ?thesis by simp
qed

text \<open>
  C7. As long as the bridge misses no message of the bus, every request is settled. Whatever has
  happened since boot, if the bridge is no further behind than the bus holds, then once it has read
  the bus and the radio task has served its queue no request is left in flight, and the next
  request the radio accepts is sent.
\<close>

theorem requests_are_settled:
  assumes "tx_only tx" and "s = system_run J tx L cfg i R es (system_boot cfg R r)" and "\<not> hy_lagged s"
    and "length (lt_published (hy_lora s)) \<le> hy_seen s + 8" and "length us = 8" and "length ts = 8"
  shows "in_flight (bridge_of (system_run J tx L cfg i R (read_bus us @ serve_queue ts) s)) = []
    \<and> (parse_downlink J json = Inr d \<and> tx (dl_payload d) = Inr c \<longrightarrow>
        (\<exists>n. fst (on_downlink J tx json (bridge_of (system_run J tx L cfg i R (read_bus us @ serve_queue ts) s)))
          = Send n c))"
proof -
  let ?u = "system_run J tx L cfg i R (read_bus us) s"
  let ?v = "system_run J tx L cfg i R (serve_queue ts) ?u"
  have s: "system_inv s" unfolding assms(2) by (rule system_run_inv [OF system_boot_inv assms(1)])
  have u: "caught_up ?u \<and> commands_of ?u = commands_of s \<and> hy_lagged ?u = hy_lagged s"
    using s assms(4,5) by (intro read_bus_catches_up) (auto simp: system_inv_def RESPONSE_CHANNEL_SIZE_def)
  have "caught_up ?v \<and> commands_of ?v = [] \<and> \<not> hy_lagged ?v"
    using serve_queue_empties [of ?u J tx L cfg i R ts] u s assms(3,6)
    by (simp add: system_inv_def COMMAND_CHANNEL_SIZE_def)
  moreover have "system_inv ?v" by (intro system_run_inv s assms(1))
  ultimately have "in_flight (bridge_of ?v) = []" by (intro nothing_owed) auto
  then show ?thesis by (auto simp: on_downlink_def MAX_IN_FLIGHT_def Let_def)
qed

text \<open>A broker that has one request to give again and again.\<close>

definition busy_broker :: "unit mqtt_lib" where
  "busy_broker = \<lparr>client_call = (\<lambda>op c. (True, c)),
     client_poll = (\<lambda>c. (PollPublish (ts_tx (new_topics [1, 2, 3])) (lit ''x''), c)),
     topic_name_ok = (\<lambda>s. s \<noteq> []), mqtt_string_ok = (\<lambda>_. True), mqtt_binary_ok = (\<lambda>_. True)\<rparr>"

definition one_request :: "unit system_event list" where
  "one_request = [MqttSide (Attempt (\<lambda>_. None) (\<lambda>_. Some ())), MqttSide (Session Readable), TakeRequest]"

lemma one_request_in_flight:
  defines "s \<equiv> system_run sample_json sample_tx busy_broker sample_config [1, 2, 3] (NullRadio (\<lambda>_ r. r)) one_request
    (system_boot sample_config (NullRadio (\<lambda>_ r. r)) ())"
  shows "lt_published (hy_lora s) = [] \<and> \<not> hy_lagged s \<and> in_flight (bridge_of s) = [(0, Some 42)]"
  unfolding s_def
  by (simp add: one_request_def system_boot_def mqtt_boot_def attempt_def sample_config_def sample_host [simplified] open_session_def
      call_client client_publish_def busy_broker_def topics_complete on_stats_def KEEPALIVE_SECS_def lora_start_def NullRadio_def
      incoming_def extend_cap_def MAX_JSON_def try_send_def MQTT_IN_SIZE_def bridge_downlink_def on_downlink_def
      sample_request [simplified] new_bridge_def MAX_IN_FLIGHT_def sample_tx_def lm_insert_def bridge_of_def
      COMMAND_CHANNEL_SIZE_def Let_def)

theorem requests_are_settled_witness:
  "let s = system_run sample_json sample_tx busy_broker sample_config [1, 2, 3] (NullRadio (\<lambda>_ r. r)) one_request
      (system_boot sample_config (NullRadio (\<lambda>_ r. r)) ())
   in in_flight (bridge_of s) = [(0, Some 42)]
    \<and> in_flight (bridge_of (system_run sample_json sample_tx busy_broker sample_config [1, 2, 3] (NullRadio (\<lambda>_ r. r))
        (read_bus (replicate 8 0) @ serve_queue (replicate 8 (0, 0))) s)) = []"
proof -
  have "tx_only sample_tx" by (simp add: tx_only_def sample_tx_def)
  from requests_are_settled [OF this refl, of sample_json busy_broker sample_config "[1, 2, 3]" "NullRadio (\<lambda>_ r. r)"
      one_request "()" "replicate 8 0" "replicate 8 (0, 0)"]
  show ?thesis using one_request_in_flight by (simp only: Let_def) simp
qed

end
