(* ===== verification/Hub_Codec.thy ===== *)
theory Hub_Codec imports Messages begin

text \<open>
  The frame codec of the hub command block (\<open>hub-protocol/src/codec.rs\<close>): frames with version,
  identifier, length, payload and checksum, and the payloads of every command and response.
  Encoders append to a bounded vector and drop what does not fit; decoders read a payload in
  sequence and stop at the first error. The checksum, the COBS encoding and the frame size come
  from other crates: they are the fields of the record \<open>wire\<close>, a parameter.
\<close>

text \<open>\<open>PROTOCOL_VERSION\<close> as the host-side copy of the protocol in the repository has it.\<close>

definition PROTOCOL_VERSION :: u8 where "PROTOCOL_VERSION = 1"

datatype parse_error = TooShort | InvalidVersion | CrcMismatch | BadPayload | UnknownId u8

record wire =
  crc16 :: "bytes \<Rightarrow> u16"
  cobs_encoder :: "bytes \<Rightarrow> bytes"
  cobs_max_len :: "nat \<Rightarrow> nat"
  MAX_FRAME_SIZE :: nat

subsection \<open>Frames\<close>

definition build_raw :: "wire \<Rightarrow> u8 \<Rightarrow> bytes \<Rightarrow> bytes" where
  "build_raw W i payload =
     (let f = push_cap (MAX_FRAME_SIZE W) [] [PROTOCOL_VERSION];
          f = push_cap (MAX_FRAME_SIZE W) f [i];
          f = push_cap (MAX_FRAME_SIZE W) f (to_le16 (of_nat (length payload)));
          f = push_cap (MAX_FRAME_SIZE W) f payload
      in push_cap (MAX_FRAME_SIZE W) f (to_le16 (crc16 W f)))"

text \<open>The encoder needs a buffer of its maximal length; a shorter one makes it panic (\<open>None\<close>).\<close>

definition cobs_encode :: "wire \<Rightarrow> bytes \<Rightarrow> bytes option" where
  "cobs_encode W raw =
     (if cobs_max_len W (length raw) \<le> MAX_FRAME_SIZE W then Some (cobs_encoder W raw) else None)"

definition parse_raw :: "wire \<Rightarrow> bytes \<Rightarrow> parse_error + u8 \<times> bytes" where
  "parse_raw W data =
     (if length data < 6 then Inl TooShort
      else if data ! 0 \<noteq> PROTOCOL_VERSION then Inl InvalidVersion
      else
        let i = data ! 1; n = unat (from_le16 (data ! 2) (data ! 3))
        in if length data < 4 + n + 2 then Inl TooShort
           else
             let payload = take n (drop 4 data);
                 received = from_le16 (data ! (4 + n)) (data ! (5 + n))
             in if crc16 W (take (4 + n) data) \<noteq> received then Inl CrcMismatch
                else Inr (i, payload))"

subsection \<open>Reading a payload\<close>

record reader =
  r_data :: bytes
  r_pos :: nat

definition new_reader :: "bytes \<Rightarrow> reader" where
  "new_reader bs = \<lparr>r_data = bs, r_pos = 0\<rparr>"

definition r_take :: "nat \<Rightarrow> reader \<Rightarrow> parse_error + bytes \<times> reader" where
  "r_take n r =
     (if length (r_data r) < r_pos r + n then Inl TooShort
      else Inr (take n (drop (r_pos r) (r_data r)), r\<lparr>r_pos := r_pos r + n\<rparr>))"

definition r_u8 :: "reader \<Rightarrow> parse_error + u8 \<times> reader" where
  "r_u8 r = rbind (r_take 1 r) (\<lambda>(b, r). Inr (b ! 0, r))"

definition r_u16_le :: "reader \<Rightarrow> parse_error + u16 \<times> reader" where
  "r_u16_le r = rbind (r_take 2 r) (\<lambda>(b, r). Inr (from_le16 (b ! 0) (b ! 1), r))"

definition r_u32_le :: "reader \<Rightarrow> parse_error + u32 \<times> reader" where
  "r_u32_le r = rbind (r_take 4 r) (\<lambda>(b, r). Inr (from_le32 (b ! 0) (b ! 1) (b ! 2) (b ! 3), r))"

definition r_string :: "nat \<Rightarrow> reader \<Rightarrow> parse_error + rtext \<times> reader" where
  "r_string cap r = rbind (r_u8 r) (\<lambda>(b, r).
     let n = unat b
     in if cap < n then Inl BadPayload
        else rbind (r_take n r) (\<lambda>(bs, r). if utf8_ok bs then Inr (bs, r) else Inl BadPayload))"

definition r_finished :: "reader \<Rightarrow> bool" where
  "r_finished r \<longleftrightarrow> r_pos r = length (r_data r)"

subsection \<open>Payloads\<close>

definition push_string :: "wire \<Rightarrow> bytes \<Rightarrow> rtext \<Rightarrow> bytes" where
  "push_string W p s =
     push_cap (MAX_FRAME_SIZE W) (push_cap (MAX_FRAME_SIZE W) p [of_nat (length s)]) s"

definition encode_gateway_fields :: "wire \<Rightarrow> bytes \<Rightarrow> gateway_settings \<Rightarrow> bytes" where
  "encode_gateway_fields W p g =
     (let p = push_cap (MAX_FRAME_SIZE W) p (to_le32 (gw_frequency_hz g));
          p = push_cap (MAX_FRAME_SIZE W) p [gw_spreading_factor g];
          p = push_cap (MAX_FRAME_SIZE W) p (to_le32 (gw_bandwidth_khz g));
          p = push_cap (MAX_FRAME_SIZE W) p [gw_coding_rate g];
          p = push_cap (MAX_FRAME_SIZE W) p (to_le16 (gw_port g))
      in push_string W p (gw_host g))"

text \<open>The fixed-width gateway fields that precede the strings, and the whole gateway payload.\<close>

definition parse_gateway_prefix ::
  "reader \<Rightarrow> parse_error + (u32 \<times> u8 \<times> u32 \<times> u8 \<times> u16) \<times> reader" where
  "parse_gateway_prefix r =
     rbind (r_u32_le r) (\<lambda>(freq, r). rbind (r_u8 r) (\<lambda>(sf, r). rbind (r_u32_le r) (\<lambda>(bw, r).
       rbind (r_u8 r) (\<lambda>(cr, r). rbind (r_u16_le r) (\<lambda>(port, r). Inr ((freq, sf, bw, cr, port), r))))))"

definition parse_gateway_fields :: "reader \<Rightarrow> parse_error + gateway_settings \<times> reader" where
  "parse_gateway_fields r =
     rbind (r_u32_le r) (\<lambda>(freq, r). rbind (r_u8 r) (\<lambda>(sf, r). rbind (r_u32_le r) (\<lambda>(bw, r).
       rbind (r_u8 r) (\<lambda>(cr, r). rbind (r_u16_le r) (\<lambda>(port, r). rbind (r_string MAX_HOST_LEN r) (\<lambda>(host, r).
         Inr (\<lparr>gw_frequency_hz = freq, gw_spreading_factor = sf, gw_bandwidth_khz = bw,
               gw_coding_rate = cr, gw_host = host, gw_port = port\<rparr>, r)))))))"

fun command_payload :: "wire \<Rightarrow> hub_command \<Rightarrow> bytes" where
  "command_payload W (SetWifiConfig w) = push_string W (push_string W [] (ssid w)) (password w)"
| "command_payload W (SetMqttConfig m) =
     push_string W (push_string W (push_cap (MAX_FRAME_SIZE W) [] (to_le16 (mqtt_port m))) (mqtt_host m))
       (client_id m)"
| "command_payload W GetNetworkConfig = []"
| "command_payload W GetHubStatus = []"
| "command_payload W ClearNetworkConfig = []"
| "command_payload W (SetMode m) = push_cap (MAX_FRAME_SIZE W) [] [hub_mode_byte m]"
| "command_payload W (SetGatewayConfig g) = encode_gateway_fields W [] g"

definition encode_command :: "wire \<Rightarrow> hub_command \<Rightarrow> bytes option" where
  "encode_command W c =
     cobs_encode W (build_raw W (hub_command_byte (hub_command_id_of c)) (command_payload W c))"

fun response_payload :: "wire \<Rightarrow> hub_response \<Rightarrow> bytes" where
  "response_payload W (NetworkConfig m s q g) =
     (let p = push_cap (MAX_FRAME_SIZE W) [] [hub_mode_byte m];
          p = push_cap (MAX_FRAME_SIZE W) p (to_le16 (mqtt_port q));
          p = push_cap (MAX_FRAME_SIZE W) p (to_le32 (gw_frequency_hz g));
          p = push_cap (MAX_FRAME_SIZE W) p [gw_spreading_factor g];
          p = push_cap (MAX_FRAME_SIZE W) p (to_le32 (gw_bandwidth_khz g));
          p = push_cap (MAX_FRAME_SIZE W) p [gw_coding_rate g];
          p = push_cap (MAX_FRAME_SIZE W) p (to_le16 (gw_port g));
          p = push_string W p s; p = push_string W p (mqtt_host q); p = push_string W p (client_id q)
      in push_string W p (gw_host g))"
| "response_payload W (HubStatus s) =
     (let (a, b, c, d) = ip s;
          p = push_cap (MAX_FRAME_SIZE W) [] [link_state_byte (wifi_state s)];
          p = push_cap (MAX_FRAME_SIZE W) p [a, b, c, d];
          p = push_cap (MAX_FRAME_SIZE W) p [link_state_byte (mqtt_state s)];
          p = push_cap (MAX_FRAME_SIZE W) p (to_le32 (uplink_count s));
          p = push_cap (MAX_FRAME_SIZE W) p (to_le32 (downlink_count s));
          p = push_cap (MAX_FRAME_SIZE W) p (to_le32 (dropped_count s))
      in push_cap (MAX_FRAME_SIZE W) p (to_le32 (uptime_secs s)))"
| "response_payload W (ConfigAck a) = push_cap (MAX_FRAME_SIZE W) [] [ack_status_byte a]"

fun hub_response_id_of :: "hub_response \<Rightarrow> hub_response_id" where
  "hub_response_id_of (NetworkConfig _ _ _ _) = RespNetworkConfig"
| "hub_response_id_of (HubStatus _) = RespHubStatus"
| "hub_response_id_of (ConfigAck _) = RespConfigAck"

definition encode_response :: "wire \<Rightarrow> hub_response \<Rightarrow> bytes option" where
  "encode_response W r =
     cobs_encode W (build_raw W (hub_response_byte (hub_response_id_of r)) (response_payload W r))"

subsection \<open>Parsing\<close>

text \<open>The device role: commands in, with the protocol status a rejected frame is answered with.\<close>

definition to_length :: "parse_error + 'a \<Rightarrow> response_status + 'a" where
  "to_length = map_err (\<lambda>_. StInvalidLength)"

fun parse_command_body :: "hub_command_id \<Rightarrow> reader \<Rightarrow> response_status + hub_command \<times> reader" where
  "parse_command_body CmdSetWifiConfig r =
     rbind (to_length (r_string MAX_SSID_LEN r)) (\<lambda>(s, r).
       rbind (to_length (r_string MAX_PASSWORD_LEN r)) (\<lambda>(p, r).
         Inr (SetWifiConfig \<lparr>ssid = s, password = p\<rparr>, r)))"
| "parse_command_body CmdSetMqttConfig r =
     rbind (to_length (r_u16_le r)) (\<lambda>(port, r).
       rbind (to_length (r_string MAX_HOST_LEN r)) (\<lambda>(host, r).
         rbind (to_length (r_string MAX_CLIENT_ID_LEN r)) (\<lambda>(cid, r).
           Inr (SetMqttConfig \<lparr>mqtt_host = host, mqtt_port = port, client_id = cid\<rparr>, r))))"
| "parse_command_body CmdGetNetworkConfig r = Inr (GetNetworkConfig, r)"
| "parse_command_body CmdGetHubStatus r = Inr (GetHubStatus, r)"
| "parse_command_body CmdSetMode r =
     rbind (to_length (r_u8 r)) (\<lambda>(b, r).
       rbind (ok_or (hub_mode_from_byte b) StInvalidParameter) (\<lambda>m. Inr (SetMode m, r)))"
| "parse_command_body CmdClearNetworkConfig r = Inr (ClearNetworkConfig, r)"
| "parse_command_body CmdSetGatewayConfig r =
     rbind (to_length (parse_gateway_fields r)) (\<lambda>(g, r). Inr (SetGatewayConfig g, r))"

definition parse_command :: "wire \<Rightarrow> bytes \<Rightarrow> response_status + hub_command" where
  "parse_command W data =
     (case parse_raw W data of
        Inl InvalidVersion \<Rightarrow> Inl StInvalidVersion
      | Inl CrcMismatch \<Rightarrow> Inl StCrcError
      | Inl _ \<Rightarrow> Inl StInvalidLength
      | Inr (i, payload) \<Rightarrow>
          (case hub_command_from_byte i of
             None \<Rightarrow> Inl StInvalidCommand
           | Some cid \<Rightarrow> rbind (parse_command_body cid (new_reader payload)) (\<lambda>(c, r).
               if r_finished r then Inr c else Inl StInvalidLength)))"

text \<open>The host role: responses in.\<close>

fun parse_response_body :: "hub_response_id \<Rightarrow> reader \<Rightarrow> parse_error + hub_response \<times> reader" where
  "parse_response_body RespNetworkConfig r =
     rbind (r_u8 r) (\<lambda>(b, r). rbind (ok_or (hub_mode_from_byte b) BadPayload) (\<lambda>mode.
       rbind (r_u16_le r) (\<lambda>(mport, r). rbind (parse_gateway_prefix r) (\<lambda>((freq, sf, bw, cr, port), r).
         rbind (r_string MAX_SSID_LEN r) (\<lambda>(s, r). rbind (r_string MAX_HOST_LEN r) (\<lambda>(mhost, r).
           rbind (r_string MAX_CLIENT_ID_LEN r) (\<lambda>(cid, r). rbind (r_string MAX_HOST_LEN r) (\<lambda>(ghost, r).
             Inr (NetworkConfig mode s \<lparr>mqtt_host = mhost, mqtt_port = mport, client_id = cid\<rparr>
               \<lparr>gw_frequency_hz = freq, gw_spreading_factor = sf, gw_bandwidth_khz = bw,
                gw_coding_rate = cr, gw_host = ghost, gw_port = port\<rparr>, r)))))))))"
| "parse_response_body RespHubStatus r =
     rbind (r_u8 r) (\<lambda>(b, r). rbind (ok_or (link_state_from_byte b) BadPayload) (\<lambda>wifi.
       rbind (r_take 4 r) (\<lambda>(a, r). rbind (r_u8 r) (\<lambda>(b, r).
         rbind (ok_or (link_state_from_byte b) BadPayload) (\<lambda>mqtt.
           rbind (r_u32_le r) (\<lambda>(up, r). rbind (r_u32_le r) (\<lambda>(down, r).
             rbind (r_u32_le r) (\<lambda>(dropped, r). rbind (r_u32_le r) (\<lambda>(secs, r).
               Inr (HubStatus \<lparr>wifi_state = wifi, ip = (a ! 0, a ! 1, a ! 2, a ! 3), mqtt_state = mqtt,
                 uplink_count = up, downlink_count = down, dropped_count = dropped,
                 uptime_secs = secs\<rparr>, r))))))))))"
| "parse_response_body RespConfigAck r =
     rbind (r_u8 r) (\<lambda>(b, r). rbind (ok_or (ack_status_from_byte b) BadPayload) (\<lambda>a. Inr (ConfigAck a, r)))"

definition parse_response :: "wire \<Rightarrow> bytes \<Rightarrow> parse_error + hub_response" where
  "parse_response W data =
     rbind (parse_raw W data) (\<lambda>(i, payload).
       case hub_response_from_byte i of
         None \<Rightarrow> Inl (UnknownId i)
       | Some rid \<Rightarrow> rbind (parse_response_body rid (new_reader payload)) (\<lambda>(resp, r).
           if r_finished r then Inr resp else Inl BadPayload))"

subsection \<open>The layout of the payloads\<close>

text \<open>The wire form of a string, and the payloads as plain concatenations of fields.\<close>

definition str_bytes :: "rtext \<Rightarrow> bytes" where
  "str_bytes s = of_nat (length s) # s"

definition gateway_prefix_bytes :: "gateway_settings \<Rightarrow> bytes" where
  "gateway_prefix_bytes g =
     to_le32 (gw_frequency_hz g) @ [gw_spreading_factor g] @ to_le32 (gw_bandwidth_khz g)
       @ [gw_coding_rate g] @ to_le16 (gw_port g)"

fun command_layout :: "hub_command \<Rightarrow> bytes" where
  "command_layout (SetWifiConfig w) = str_bytes (ssid w) @ str_bytes (password w)"
| "command_layout (SetMqttConfig m) =
     to_le16 (mqtt_port m) @ str_bytes (mqtt_host m) @ str_bytes (client_id m)"
| "command_layout GetNetworkConfig = []"
| "command_layout GetHubStatus = []"
| "command_layout ClearNetworkConfig = []"
| "command_layout (SetMode m) = [hub_mode_byte m]"
| "command_layout (SetGatewayConfig g) = gateway_prefix_bytes g @ str_bytes (gw_host g)"

fun response_layout :: "hub_response \<Rightarrow> bytes" where
  "response_layout (NetworkConfig m s q g) =
     [hub_mode_byte m] @ to_le16 (mqtt_port q) @ gateway_prefix_bytes g @ str_bytes s
       @ str_bytes (mqtt_host q) @ str_bytes (client_id q) @ str_bytes (gw_host g)"
| "response_layout (HubStatus s) =
     (let (a, b, c, d) = ip s
      in [link_state_byte (wifi_state s), a, b, c, d, link_state_byte (mqtt_state s)]
         @ to_le32 (uplink_count s) @ to_le32 (downlink_count s) @ to_le32 (dropped_count s)
         @ to_le32 (uptime_secs s))"
| "response_layout (ConfigAck a) = [ack_status_byte a]"

lemma length_str_bytes [simp]: "length (str_bytes s) = Suc (length s)"
  by (simp add: str_bytes_def)

lemma length_gateway_prefix [simp]: "length (gateway_prefix_bytes g) = 12"
  by (simp add: gateway_prefix_bytes_def)

lemma command_layout_length: "hub_command_ok c \<Longrightarrow> length (command_layout c) \<le> 100"
  by (cases c) (auto simp: wifi_ok_def mqtt_ok_def gateway_ok_def text_ok_def text_limits)

lemma response_layout_length: "hub_response_ok r \<Longrightarrow> length (response_layout r) \<le> 211"
  by (cases r) (auto simp: mqtt_ok_def gateway_ok_def text_ok_def text_limits split: prod.split)

lemma push_string_fits [simp]:
  "length p + Suc (length s) \<le> MAX_FRAME_SIZE W \<Longrightarrow> push_string W p s = p @ str_bytes s"
  by (simp add: push_string_def str_bytes_def)

lemma command_payload_layout:
  assumes "hub_command_ok c" "217 \<le> MAX_FRAME_SIZE W"
  shows "command_payload W c = command_layout c"
  using assms
  by (cases c) (auto simp: encode_gateway_fields_def gateway_prefix_bytes_def wifi_ok_def mqtt_ok_def
      gateway_ok_def text_ok_def text_limits)

lemma response_payload_layout:
  assumes "hub_response_ok r" "217 \<le> MAX_FRAME_SIZE W"
  shows "response_payload W r = response_layout r"
  using assms
  by (cases r) (auto simp: gateway_prefix_bytes_def mqtt_ok_def gateway_ok_def text_ok_def text_limits
      Let_def split: prod.split)

subsection \<open>Reading back what was written\<close>

text \<open>A reader that has consumed \<open>pre\<close> and has \<open>post\<close> before it.\<close>

definition reader_at :: "bytes \<Rightarrow> bytes \<Rightarrow> reader" where
  "reader_at pre post = \<lparr>r_data = pre @ post, r_pos = length pre\<rparr>"

lemma new_reader_at: "new_reader bs = reader_at [] bs"
  by (simp add: new_reader_def reader_at_def)

lemma finished_at [simp]: "r_finished (reader_at pre post) \<longleftrightarrow> post = []"
  by (simp add: r_finished_def reader_at_def)

lemma take_at: "length bs = n \<Longrightarrow> r_take n (reader_at pre (bs @ post)) = Inr (bs, reader_at (pre @ bs) post)"
  by (simp add: r_take_def reader_at_def)

lemma u8_at [codec_simps]: "r_u8 (reader_at pre (b # post)) = Inr (b, reader_at (pre @ [b]) post)"
  using take_at [of "[b]" 1 pre post] by (simp add: r_u8_def)

lemma u16_at [codec_simps]:
  "r_u16_le (reader_at pre (to_le16 w @ post)) = Inr (w, reader_at (pre @ to_le16 w) post)"
  by (simp add: r_u16_le_def take_at) (simp add: to_le16_def from_le16_to_le16)

lemma u32_at [codec_simps]:
  "r_u32_le (reader_at pre (to_le32 w @ post)) = Inr (w, reader_at (pre @ to_le32 w) post)"
  by (simp add: r_u32_le_def take_at) (simp add: to_le32_def from_le32_to_le32 numeral_3_eq_3 numeral_2_eq_2)

lemma string_at [codec_simps]:
  "\<lbrakk>text_ok cap s; cap \<le> 255\<rbrakk> \<Longrightarrow>
   r_string cap (reader_at pre (str_bytes s @ post)) = Inr (s, reader_at (pre @ str_bytes s) post)"
  by (simp add: r_string_def str_bytes_def u8_at take_at text_ok_def unsigned_of_nat
      take_bit_nat_eq_self Let_def)

lemma to_length_Inr [simp]: "to_length (Inr x) = Inr x"
  by (simp add: to_length_def)

lemma gateway_prefix_at [codec_simps]:
  "parse_gateway_prefix (reader_at pre (gateway_prefix_bytes g @ post))
   = Inr ((gw_frequency_hz g, gw_spreading_factor g, gw_bandwidth_khz g, gw_coding_rate g, gw_port g),
          reader_at (pre @ gateway_prefix_bytes g) post)"
  by (simp add: parse_gateway_prefix_def gateway_prefix_bytes_def codec_simps)

lemma command_body_at:
  assumes "hub_command_ok c"
  shows "parse_command_body (hub_command_id_of c) (reader_at pre (command_layout c))
    = Inr (c, reader_at (pre @ command_layout c) [])"
  using assms
  by (cases c) (simp_all add: gateway_prefix_bytes_def parse_gateway_fields_def wifi_ok_def mqtt_ok_def
      gateway_ok_def text_limits codec_simps u16_at [where post = "[]", simplified]
      string_at [where post = "[]", simplified])

lemma response_body_at:
  assumes "hub_response_ok r"
  shows "parse_response_body (hub_response_id_of r) (reader_at pre (response_layout r))
    = Inr (r, reader_at (pre @ response_layout r) [])"
proof (cases r)
  case (HubStatus s)
  obtain a b c d where ip: "ip s = (a, b, c, d)" by (metis prod_cases4)
  have four: "r_take 4 (reader_at p (a # b # c # d # post)) = Inr ([a, b, c, d], reader_at (p @ [a, b, c, d]) post)"
    for p post using take_at [of "[a, b, c, d]" 4 p post] by simp
  show ?thesis using HubStatus ip four
    by (cases s) (simp add: codec_simps u32_at [where post = "[]", simplified] numeral_3_eq_3 numeral_2_eq_2)
qed (use assms in \<open>simp_all add: mqtt_ok_def gateway_ok_def text_limits codec_simps
      string_at [where post = "[]", simplified]\<close>)

subsection \<open>Frames read back, and only frames\<close>

definition frame_body :: "u8 \<Rightarrow> bytes \<Rightarrow> bytes" where
  "frame_body i p = PROTOCOL_VERSION # i # to_le16 (of_nat (length p)) @ p"

definition frame :: "wire \<Rightarrow> u8 \<Rightarrow> bytes \<Rightarrow> bytes" where
  "frame W i p = frame_body i p @ to_le16 (crc16 W (frame_body i p))"

lemma length_frame [simp]: "length (frame W i p) = length p + 6"
  by (simp add: frame_def frame_body_def)

lemma build_raw_frame: "length p + 6 \<le> MAX_FRAME_SIZE W \<Longrightarrow> build_raw W i p = frame W i p"
  by (simp add: build_raw_def frame_def frame_body_def Let_def)

lemma parse_raw_frame:
  assumes "length p < 65536"
  shows "parse_raw W (frame W i p @ tail) = Inr (i, p)"
proof -
  let ?n = "of_nat (length p) :: u16"
  have n: "unat ?n = length p" using assms by (simp add: unsigned_of_nat take_bit_nat_eq_self)
  have d: "frame W i p @ tail = PROTOCOL_VERSION # i # ucast ?n # ucast (drop_bit 8 ?n) # p
      @ ucast (crc16 W (frame_body i p)) # ucast (drop_bit 8 (crc16 W (frame_body i p))) # tail"
    by (simp add: frame_def frame_body_def to_le16_def)
  have "length (frame_body i p) = 4 + length p" by (simp add: frame_body_def)
  then have b: "take (4 + length p) (frame W i p @ tail) = frame_body i p"
    by (simp add: frame_def)
  have c: "(frame W i p @ tail) ! (4 + length p) = ucast (crc16 W (frame_body i p))"
    "(frame W i p @ tail) ! (5 + length p) = ucast (drop_bit 8 (crc16 W (frame_body i p)))"
    unfolding d by (simp_all add: nth_append)
  show ?thesis
    unfolding parse_raw_def Let_def
    using b c by (simp add: d from_le16_to_le16 n)
qed

lemma to_le16_from_le16: "to_le16 (from_le16 a b) = [a, b]"
proof -
  have "ucast (from_le16 a b) = a" "ucast (drop_bit 8 (from_le16 a b)) = b"
    by (rule bit_word_eqI; auto simp: from_le16_def bit_simps dest: bit_imp_le_length)+
  then show ?thesis by (simp add: to_le16_def)
qed

lemma parse_raw_inv:
  assumes "parse_raw W d = Inr (i, p)"
  shows "length p < 65536 \<and> (\<exists>tail. d = frame W i p @ tail)"
proof -
  define n where "n = unat (from_le16 (d ! 2) (d ! 3))"
  have len: "6 \<le> length d" "4 + n + 2 \<le> length d" and v: "d ! 0 = PROTOCOL_VERSION" "d ! 1 = i"
    and p: "p = take n (drop 4 d)" and crc: "crc16 W (take (4 + n) d) = from_le16 (d ! (4 + n)) (d ! (5 + n))"
    using assms by (auto simp: parse_raw_def Let_def n_def split: if_splits)
  have n: "n < 65536" "length p = n" using unsigned_less [where 'a = nat, of "from_le16 (d ! 2) (d ! 3)"] len
    by (simp_all add: n_def p)
  then have w: "of_nat (length p) = from_le16 (d ! 2) (d ! 3)" by (simp add: n_def)
  have "take 4 d = [d ! 0, d ! 1, d ! 2, d ! 3]"
    using len(1) by (intro nth_equalityI) (auto simp: nth_Cons' less_Suc_eq numeral_eq_Suc)
  then have head: "take 4 d = PROTOCOL_VERSION # i # to_le16 (of_nat (length p))"
    using v by (simp add: w to_le16_from_le16)
  have body: "take (4 + n) d = frame_body i p"
    unfolding take_add [of 4 n d] head frame_body_def p [symmetric] by simp
  have "take (6 + n) d = take (4 + n) d @ [d ! (4 + n), d ! (5 + n)]"
    using len(2) take_Suc_conv_app_nth [of "4 + n" d] take_Suc_conv_app_nth [of "5 + n" d] by simp
  also have "\<dots> = frame W i p"
    using crc by (simp add: frame_def body to_le16_from_le16)
  finally have "d = frame W i p @ drop (6 + n) d" by (metis append_take_drop_id)
  then show ?thesis using n by blast
qed

text \<open>A successful read consumes exactly the encoding of what it returns.\<close>

lemma take_at_iff [result_iff]:
  "r_take n (reader_at pre bs) = Inr (x, r) \<longleftrightarrow>
   (\<exists>post. bs = x @ post \<and> length x = n \<and> r = reader_at (pre @ x) post)"
proof
  assume a: "r_take n (reader_at pre bs) = Inr (x, r)"
  then have "x = take n bs" "n \<le> length bs" "r = (reader_at pre bs)\<lparr>r_pos := length pre + n\<rparr>"
    by (auto simp: r_take_def reader_at_def split: if_splits)
  then show "\<exists>post. bs = x @ post \<and> length x = n \<and> r = reader_at (pre @ x) post"
    by (intro exI [of _ "drop n bs"]) (simp add: reader_at_def)
qed (auto simp: take_at)

lemma u8_at_iff [result_iff]:
  "r_u8 (reader_at pre bs) = Inr (b, r) \<longleftrightarrow> (\<exists>post. bs = b # post \<and> r = reader_at (pre @ [b]) post)"
proof
  assume "r_u8 (reader_at pre bs) = Inr (b, r)"
  then show "\<exists>post. bs = b # post \<and> r = reader_at (pre @ [b]) post"
    by (auto simp: r_u8_def result_iff length_Suc_conv)
qed (auto simp: u8_at)

lemma u16_at_iff [result_iff]:
  "r_u16_le (reader_at pre bs) = Inr (w, r) \<longleftrightarrow>
   (\<exists>post. bs = to_le16 w @ post \<and> r = reader_at (pre @ to_le16 w) post)"
proof
  assume "r_u16_le (reader_at pre bs) = Inr (w, r)"
  then obtain x post where "bs = x @ post" "length x = 2" "r = reader_at (pre @ x) post" "w = from_le16 (x ! 0) (x ! 1)"
    by (auto simp: r_u16_le_def result_iff)
  then show "\<exists>post. bs = to_le16 w @ post \<and> r = reader_at (pre @ to_le16 w) post"
    by (auto simp: length_Suc_conv numeral_2_eq_2 to_le16_from_le16)
qed (auto simp: u16_at)

lemma to_le32_from_le32: "to_le32 (from_le32 a b c d) = [a, b, c, d]"
proof -
  have "ucast (from_le32 a b c d) = a" "ucast (drop_bit 8 (from_le32 a b c d)) = b"
    "ucast (drop_bit 16 (from_le32 a b c d)) = c" "ucast (drop_bit 24 (from_le32 a b c d)) = d"
    by (rule bit_word_eqI; auto simp: from_le32_def bit_simps dest: bit_imp_le_length)+
  then show ?thesis by (simp add: to_le32_def)
qed

lemma u32_at_iff [result_iff]:
  "r_u32_le (reader_at pre bs) = Inr (w, r) \<longleftrightarrow>
   (\<exists>post. bs = to_le32 w @ post \<and> r = reader_at (pre @ to_le32 w) post)"
proof
  assume "r_u32_le (reader_at pre bs) = Inr (w, r)"
  then obtain x post where "bs = x @ post" "length x = 4" "r = reader_at (pre @ x) post"
    "w = from_le32 (x ! 0) (x ! 1) (x ! 2) (x ! 3)"
    by (auto simp: r_u32_le_def result_iff)
  then show "\<exists>post. bs = to_le32 w @ post \<and> r = reader_at (pre @ to_le32 w) post"
    by (auto simp: length_Suc_conv numeral_eq_Suc to_le32_from_le32)
qed (auto simp: u32_at)

lemma string_at_iff [result_iff]:
  assumes "cap \<le> 255"
  shows "r_string cap (reader_at pre bs) = Inr (s, r) \<longleftrightarrow>
   text_ok cap s \<and> (\<exists>post. bs = str_bytes s @ post \<and> r = reader_at (pre @ str_bytes s) post)"
proof
  assume "r_string cap (reader_at pre bs) = Inr (s, r)"
  then obtain b post where "bs = b # s @ post" "length s = unat b" "unat b \<le> cap" "utf8_ok s"
    "r = reader_at ((pre @ [b]) @ s) post"
    by (auto simp: r_string_def result_iff Let_def split: if_splits)
  then show "text_ok cap s \<and> (\<exists>post. bs = str_bytes s @ post \<and> r = reader_at (pre @ str_bytes s) post)"
    by (simp add: text_ok_def str_bytes_def)
qed (use assms in \<open>auto simp: string_at\<close>)

lemma to_length_Inr_iff [result_iff]: "to_length m = Inr x \<longleftrightarrow> m = Inr x"
  by (simp add: to_length_def result_iff)

lemma gateway_fields_iff [result_iff]:
  "parse_gateway_fields (reader_at pre bs) = Inr (g, r) \<longleftrightarrow>
   gateway_ok g \<and> (\<exists>post. bs = gateway_prefix_bytes g @ str_bytes (gw_host g) @ post
     \<and> r = reader_at (pre @ gateway_prefix_bytes g @ str_bytes (gw_host g)) post)"
  by (cases g) (auto simp: parse_gateway_fields_def result_iff text_limits gateway_ok_def gateway_prefix_bytes_def)

lemma command_body_inv:
  assumes "parse_command_body cid (reader_at pre bs) = Inr (c, r)"
  shows "hub_command_ok c \<and> hub_command_id_of c = cid
    \<and> (\<exists>post. bs = command_layout c @ post \<and> r = reader_at (pre @ command_layout c) post)"
  using assms
  by (cases cid) (auto simp: result_iff text_limits wifi_ok_def mqtt_ok_def)

lemma parse_command_frame:
  assumes "hub_command_ok c"
  shows "parse_command W (frame W (hub_command_byte (hub_command_id_of c)) (command_layout c) @ tail) = Inr c"
proof -
  have "length (command_layout c) < 65536" using command_layout_length [OF assms] by simp
  from parse_raw_frame [OF this, of W] show ?thesis
    by (simp add: parse_command_def new_reader_at command_body_at [OF assms])
qed

lemma parse_response_frame:
  assumes "hub_response_ok r"
  shows "parse_response W (frame W (hub_response_byte (hub_response_id_of r)) (response_layout r) @ tail) = Inr r"
proof -
  have "length (response_layout r) < 65536" using response_layout_length [OF assms] by simp
  from parse_raw_frame [OF this, of W] show ?thesis
    by (simp add: parse_response_def new_reader_at response_body_at [OF assms])
qed

text \<open>
  What the codec relies on from the other crates: the decoder \<open>D\<close> inverts the COBS encoder on every
  payload whose frame fits the frame buffer, the documented maximum of the encoding is one byte per
  254, the leading code byte and the delimiter, and a frame holds at least 219 bytes. Nothing is
  asked for longer frames, which the buffers of the crates cannot hold.
\<close>

definition fits_frame :: "wire \<Rightarrow> bytes \<Rightarrow> bool" where
  "fits_frame W raw \<longleftrightarrow> cobs_max_len W (length raw) \<le> MAX_FRAME_SIZE W"

definition wire_ok :: "wire \<Rightarrow> (bytes \<Rightarrow> bytes option) \<Rightarrow> bool" where
  "wire_ok W D \<longleftrightarrow> 219 \<le> MAX_FRAME_SIZE W \<and> (\<forall>n. cobs_max_len W n \<le> n + n div 254 + 2)
     \<and> (\<forall>raw. fits_frame W raw \<longrightarrow> D (cobs_encoder W raw) = Some raw)"

lemma short_fits:
  assumes "wire_ok W D" "length raw \<le> 217"
  shows "fits_frame W raw"
proof -
  have "cobs_max_len W (length raw) \<le> length raw + length raw div 254 + 2" using assms(1) by (simp add: wire_ok_def)
  also have "\<dots> \<le> 219" using assms(2) by simp
  also have "\<dots> \<le> MAX_FRAME_SIZE W" using assms(1) by (simp add: wire_ok_def)
  finally show ?thesis by (simp add: fits_frame_def)
qed

lemma cobs_fits: "wire_ok W D \<Longrightarrow> length raw \<le> 217 \<Longrightarrow> cobs_encode W raw = Some (cobs_encoder W raw)"
  using short_fits by (simp add: cobs_encode_def fits_frame_def)

lemma wire_decodes: "wire_ok W D \<Longrightarrow> length raw \<le> 217 \<Longrightarrow> D (cobs_encoder W raw) = Some raw"
proof -
  assume W: "wire_ok W D" and "length raw \<le> 217"
  from short_fits [OF this] W show ?thesis unfolding wire_ok_def by blast
qed

lemma frame_length: "length (frame W i p) = length p + 6"
  by (simp add: frame_def frame_body_def to_le16_def)

lemma encode_command_parses:
  assumes "wire_ok W D" and "hub_command_ok c"
  shows "\<exists>e raw. encode_command W c = Some e \<and> D e = Some raw \<and> parse_command W raw = Inr c"
proof -
  let ?raw = "frame W (hub_command_byte (hub_command_id_of c)) (command_layout c)"
  have len: "length (command_layout c) \<le> 100" using assms(2) by (rule command_layout_length)
  have max: "219 \<le> MAX_FRAME_SIZE W" using assms(1) by (simp add: wire_ok_def)
  have "encode_command W c = Some (cobs_encoder W ?raw)"
    using len max assms
    by (simp add: encode_command_def command_payload_layout build_raw_frame cobs_fits [OF assms(1)])
  then show ?thesis
    using parse_command_frame [OF assms(2), of W "[]"] wire_decodes [OF assms(1), of ?raw] len by (simp add: frame_length)
qed

lemma encode_response_parses:
  assumes "wire_ok W D" and "hub_response_ok r"
  shows "\<exists>e raw. encode_response W r = Some e \<and> D e = Some raw \<and> parse_response W raw = Inr r"
proof -
  let ?raw = "frame W (hub_response_byte (hub_response_id_of r)) (response_layout r)"
  have len: "length (response_layout r) \<le> 211" using assms(2) by (rule response_layout_length)
  have max: "219 \<le> MAX_FRAME_SIZE W" using assms(1) by (simp add: wire_ok_def)
  have "encode_response W r = Some (cobs_encoder W ?raw)"
    using len max assms
    by (simp add: encode_response_def response_payload_layout build_raw_frame cobs_fits [OF assms(1)])
  then show ?thesis
    using parse_response_frame [OF assms(2), of W "[]"] wire_decodes [OF assms(1), of ?raw] len by (simp add: frame_length)
qed

lemma parse_command_inv:
  assumes "parse_command W d = Inr c"
  shows "hub_command_ok c
    \<and> (\<exists>tail. d = frame W (hub_command_byte (hub_command_id_of c)) (command_layout c) @ tail)"
proof -
  obtain i p where raw: "parse_raw W d = Inr (i, p)"
    using assms by (auto simp: parse_command_def split: sum.splits parse_error.splits)
  obtain cid r where cid: "hub_command_from_byte i = Some cid"
    and body: "parse_command_body cid (reader_at [] p) = Inr (c, r)" "r_finished r"
    using assms raw by (auto simp: parse_command_def new_reader_at result_iff split: option.splits if_splits)
  from command_body_inv [OF body(1)] body(2)
  have "hub_command_ok c" "hub_command_id_of c = cid" "p = command_layout c" by auto
  moreover have "i = hub_command_byte cid" using cid by (simp add: hub_command_byte_iff)
  ultimately show ?thesis using parse_raw_inv [OF raw] by auto
qed

lemma parse_command_canonical_ok: "parse_command W d = Inr c \<Longrightarrow> hub_command_ok c"
  by (drule parse_command_inv) simp

text \<open>A concrete instance for the witnesses: an additive checksum and a delimiter appended.\<close>

definition sample_wire :: wire where
  "sample_wire = \<lparr>crc16 = (\<lambda>bs. of_nat (sum_list (map unat bs))), cobs_encoder = (\<lambda>bs. bs @ [0]),
     cobs_max_len = Suc, MAX_FRAME_SIZE = 512\<rparr>"

definition sample_decode :: "bytes \<Rightarrow> bytes option" where
  "sample_decode bs = (if bs = [] then None else Some (butlast bs))"

lemma sample_wire_ok: "wire_ok sample_wire sample_decode"
  by (simp add: wire_ok_def sample_wire_def sample_decode_def)

text \<open>
  Consistent overhead byte stuffing as it is documented, for the witnesses that need frames free of
  zeros: groups of up to 254 bytes without a zero, each after a code byte that tells its length, and
  a zero at the end.
\<close>

fun cobs_groups :: "bytes \<Rightarrow> bytes \<Rightarrow> bytes" where
  "cobs_groups run [] = of_nat (length run + 1) # run"
| "cobs_groups run (b # bs) =
     (if b = 0 then of_nat (length run + 1) # run @ cobs_groups [] bs
      else if length run = 253 then 255 # run @ [b] @ (if bs = [] then [] else cobs_groups [] bs)
      else cobs_groups (run @ [b]) bs)"

fun cobs_join :: "bytes \<Rightarrow> bytes option" where
  "cobs_join [] = Some []"
| "cobs_join (c # bs) =
     (if c = 0 then None
      else let n = unat c - 1; rest = drop n bs
           in if length bs < n then None
              else if rest = [] then Some bs
              else map_option (\<lambda>out. take n bs @ (if c = 255 then [] else [0]) @ out) (cobs_join rest))"

definition cobs_frame :: "bytes \<Rightarrow> bytes" where
  "cobs_frame bs = cobs_groups [] bs @ [0]"

definition cobs_read :: "bytes \<Rightarrow> bytes option" where
  "cobs_read bs = (if bs = [] \<or> last bs \<noteq> 0 then None else cobs_join (butlast bs))"

lemma cobs_join_group:
  "c \<noteq> 0 \<Longrightarrow> unat c = length a + 1 \<Longrightarrow>
   cobs_join (c # a @ r) =
     (if r = [] then Some a else map_option (\<lambda>out. a @ (if c = 255 then [] else [0]) @ out) (cobs_join r))"
  by simp

lemma group_code:
  assumes "n \<le> 253"
  shows "(word_of_nat (n + 1) :: u8) \<noteq> 0" "(word_of_nat (n + 1) :: u8) \<noteq> 255" "unat (word_of_nat (n + 1) :: u8) = n + 1"
proof -
  show u: "unat (word_of_nat (n + 1) :: u8) = n + 1" using assms by (subst unat_of_nat) simp
  show "(word_of_nat (n + 1) :: u8) \<noteq> 0" using u by (metis add_is_0 one_neq_zero unsigned_0)
  have "unat (255 :: u8) = 255" by simp
  then show "(word_of_nat (n + 1) :: u8) \<noteq> 255" using u assms by auto
qed

lemma cobs_groups_nonempty: "cobs_groups run bs \<noteq> []"
  by (induction bs arbitrary: run) auto

lemma cobs_groups_join: "length run \<le> 253 \<Longrightarrow> cobs_join (cobs_groups run bs) = Some (run @ bs)"
proof (induction bs arbitrary: run)
  case Nil
  then show ?case using cobs_join_group [of "word_of_nat (length run + 1)" run "[]"] group_code [OF Nil] by simp
next
  case (Cons b bs)
  consider (zero) "b = 0" | (full) "b \<noteq> 0" "length run = 253" | (more) "b \<noteq> 0" "length run < 253"
    using Cons.prems by linarith
  then show ?case
  proof cases
    case zero
    then show ?thesis
      using cobs_join_group [of "word_of_nat (length run + 1)" run "cobs_groups [] bs"] group_code [OF Cons.prems]
        cobs_groups_nonempty [of "[]" bs] Cons.IH [of "[]"] by (simp del: cobs_join.simps)
  next
    case full
    then show ?thesis
      using cobs_join_group [of 255 "run @ [b]" "if bs = [] then [] else cobs_groups [] bs"]
        cobs_groups_nonempty [of "[]" bs] Cons.IH [of "[]"] by (simp del: cobs_join.simps)
  qed (use Cons.IH [of "run @ [b]"] in simp)
qed

lemma cobs_groups_no_zero: "length run \<le> 253 \<Longrightarrow> 0 \<notin> set run \<Longrightarrow> 0 \<notin> set (cobs_groups run bs)"
proof (induction bs arbitrary: run)
  case Nil
  then show ?case using group_code(1) [OF Nil(1)] by (auto simp del: of_nat_Suc of_nat_add)
next
  case (Cons b bs)
  then show ?case using group_code(1) [OF Cons.prems(1)] by (auto simp del: of_nat_Suc of_nat_add)
qed

lemma cobs_groups_length:
  "length run \<le> 253 \<Longrightarrow> length (cobs_groups run bs) \<le> length run + length bs + (length run + length bs) div 254 + 1"
proof (induction bs arbitrary: run)
  case (Cons b bs)
  have step: "n + n div 254 + 1 \<le> m + n + 1 + (m + n + 1) div 254" for m n :: nat
    using div_le_mono [of n "m + n + 1" 254] by linarith
  consider (zero) "b = 0" | (full) "b \<noteq> 0" "length run = 253" | (more) "b \<noteq> 0" "length run < 253"
    using Cons.prems by linarith
  then show ?case
  proof cases
    case zero
    then show ?thesis using Cons.IH [of "[]"] step [of "length bs" "length run"] by simp
  next
    case full
    then show ?thesis using Cons.IH [of "[]"] by (auto simp: div_add_self1)
  next
    case more
    then show ?thesis using Cons.IH [of "run @ [b]"] by simp
  qed
qed simp

lemma cobs_read_frame: "cobs_read (cobs_frame bs) = Some bs"
  using cobs_groups_join [of "[]" bs] by (simp add: cobs_read_def cobs_frame_def)

lemma cobs_framed: "\<exists>body. cobs_frame bs = body @ [0] \<and> 0 \<notin> set body \<and> body \<noteq> []"
  using cobs_groups_no_zero [of "[]" bs] cobs_groups_nonempty [of "[]" bs] by (simp add: cobs_frame_def)

lemma cobs_frame_length: "length (cobs_frame bs) \<le> length bs + length bs div 254 + 2"
  using cobs_groups_length [of "[]" bs] by (simp add: cobs_frame_def)

definition cobs_wire :: wire where
  "cobs_wire = sample_wire\<lparr>cobs_encoder := cobs_frame, cobs_max_len := \<lambda>n. n + n div 254 + 2\<rparr>"

lemma cobs_wire_ok: "wire_ok cobs_wire cobs_read"
  using sample_wire_ok by (simp add: wire_ok_def cobs_wire_def sample_wire_def cobs_read_frame)

lemma cobs_frame_fits: "fits_frame cobs_wire raw \<Longrightarrow> length (cobs_frame raw) \<le> 512"
  using cobs_frame_length [of raw] by (simp add: fits_frame_def cobs_wire_def sample_wire_def)

subsection \<open>The properties\<close>

text \<open>
  C14. Every command the host can build is encoded without loss or panic, and the device parses the
  decoded frame back to exactly that command.
\<close>

theorem command_round_trip:
  assumes "wire_ok W D" and "hub_command_ok c"
  shows "\<exists>e raw. encode_command W c = Some e \<and> D e = Some raw \<and> parse_command W raw = Inr c"
  using assms by (rule encode_command_parses)

definition sample_command :: hub_command where
  "sample_command = SetWifiConfig \<lparr>ssid = lit ''HomeNet'', password = lit ''hunter22secret''\<rparr>"

theorem command_round_trip_witness:
  "\<exists>e raw. encode_command sample_wire sample_command = Some e \<and> sample_decode e = Some raw
     \<and> parse_command sample_wire raw = Inr sample_command"
  by (rule command_round_trip [OF sample_wire_ok])
    (simp add: sample_command_def wifi_ok_def text_ok_def text_limits)

text \<open>
  The same for the responses: what the device encodes, the host parses back unchanged, the
  largest configuration included.
\<close>

theorem response_round_trip:
  assumes "wire_ok W D" and "hub_response_ok r"
  shows "\<exists>e raw. encode_response W r = Some e \<and> D e = Some raw \<and> parse_response W raw = Inr r"
  using assms by (rule encode_response_parses)

theorem response_round_trip_witness:
  "\<exists>e raw. encode_response sample_wire (ConfigAck StorageError) = Some e \<and> sample_decode e = Some raw
     \<and> parse_response sample_wire raw = Inr (ConfigAck StorageError)"
  by (rule response_round_trip [OF sample_wire_ok]) simp

text \<open>
  C15. The device accepts nothing else: a frame that parses to a command starts with the one
  canonical encoding of that command (version, identifier, length, payload and matching checksum,
  with nothing left in the payload), the command satisfies the bounds of its fields, and only
  bytes after the checksum are ignored.
\<close>

theorem parse_command_canonical:
  assumes "parse_command W d = Inr c"
  shows "hub_command_ok c
    \<and> (\<exists>tail. d = frame W (hub_command_byte (hub_command_id_of c)) (command_layout c) @ tail)"
  using assms by (rule parse_command_inv)

theorem parse_command_canonical_witness:
  "hub_command_ok (SetMode LorawanGateway) \<and> (\<exists>tail. frame sample_wire 0x24 [1] @ [0xAA]
     = frame sample_wire (hub_command_byte (hub_command_id_of (SetMode LorawanGateway)))
         (command_layout (SetMode LorawanGateway)) @ tail)"
proof -
  have "parse_command sample_wire (frame sample_wire 0x24 [1] @ [0xAA]) = Inr (SetMode LorawanGateway)"
    using parse_command_frame [of "SetMode LorawanGateway" sample_wire "[0xAA]"] by simp
  from parse_command_canonical [OF this] show ?thesis .
qed

text \<open>
  Rejections carry the documented status: a short frame is an invalid length, a foreign
  version an invalid version, a frame whose checksum does not match a checksum error, and a
  well-formed frame of another command block (every identifier outside 0x20 to 0x26, so all the
  stock commands) an invalid command, which sends the receiver to the other codec.
\<close>

theorem parse_command_rejections:
  "parse_command W d =
     (if length d < 6 then Inl StInvalidLength
      else if d ! 0 \<noteq> PROTOCOL_VERSION then Inl StInvalidVersion
      else if length d < unat (from_le16 (d ! 2) (d ! 3)) + 6 then Inl StInvalidLength
      else if crc16 W (take (4 + unat (from_le16 (d ! 2) (d ! 3))) d)
           \<noteq> from_le16 (d ! (4 + unat (from_le16 (d ! 2) (d ! 3)))) (d ! (5 + unat (from_le16 (d ! 2) (d ! 3))))
        then Inl StCrcError
      else if d ! 1 < 0x20 \<or> 0x26 < d ! 1 then Inl StInvalidCommand
      else rbind (parse_command_body (the (hub_command_from_byte (d ! 1)))
             (new_reader (take (unat (from_le16 (d ! 2) (d ! 3))) (drop 4 d))))
           (\<lambda>(c, r). if r_finished r then Inr c else Inl StInvalidLength))"
proof -
  have id: "hub_command_from_byte b = None \<longleftrightarrow> b < 0x20 \<or> 0x26 < b" for b :: u8
  proof
    assume n: "hub_command_from_byte b = None"
    show "b < 0x20 \<or> 0x26 < b"
    proof (rule ccontr)
      assume "\<not> (b < 0x20 \<or> 0x26 < b)"
      then have "unat b \<in> {32, 33, 34, 35, 36, 37, 38}" by (auto simp: word_less_nat_alt)
      then have "b \<in> {0x20, 0x21, 0x22, 0x23, 0x24, 0x25, 0x26}" by (auto simp: word_unat_eq_iff)
      with n show False by (auto simp: hub_command_from_byte_def)
    qed
  qed (auto simp: hub_command_from_byte_def)
  show ?thesis
    using id [of "d ! 1"]
    by (cases "hub_command_from_byte (d ! 1)") (simp_all add: parse_command_def parse_raw_def Let_def)
qed

end
