(* ===== verification/Hub_Ctrl.thy ===== *)
theory Hub_Ctrl imports Hub_Codec Hub_Config Net_State begin

text \<open>
  The hub control task (\<open>src/tasks/hub_ctrl.rs\<close>) and the boot of the configuration
  (\<open>src/main.rs\<close>): commands from the host link and from the portal on the pending configuration,
  each answered after the change has been persisted. The flash \<open>F\<close>, the build environment \<open>E\<close>, the
  wire \<open>W\<close>, the clock and the statistics are inputs.
\<close>

subsection \<open>The task\<close>

record 'f hub_ctrl =
  hc_store :: "'f config_store option"
  hc_pending :: hub_config

definition persist ::
  "('f, 't) flash \<Rightarrow> hub_config \<Rightarrow> config_action \<Rightarrow> 'f config_store option \<Rightarrow> ack_status \<times> 'f config_store option" where
  "persist F pending action store =
     (case store of
        None \<Rightarrow> (StorageError, None)
      | Some s \<Rightarrow>
          let (r, s) = (case action of
                SaveConfig \<Rightarrow> save F pending s
              | ClearConfig \<Rightarrow> clear F s
              | NoAction \<Rightarrow> (Inr (), s))
          in (case r of Inr u \<Rightarrow> AckOk | Inl e \<Rightarrow> StorageError, Some s))"

definition handle ::
  "('f, 't) flash \<Rightarrow> build_env \<Rightarrow> hub_stats \<Rightarrow> u64 \<Rightarrow> hub_command \<Rightarrow> 'f hub_ctrl \<Rightarrow> hub_response \<times> 'f hub_ctrl" where
  "handle F E stats now_secs c st =
     (case c of
        GetNetworkConfig \<Rightarrow> (network_config_response (hc_pending st), st)
      | GetHubStatus \<Rightarrow> (HubStatus (snapshot (ucast now_secs) stats), st)
      | c \<Rightarrow>
          let (r, p) = apply_command E (hc_pending st) c
          in (case r of
                Inl status \<Rightarrow> (ConfigAck status, st\<lparr>hc_pending := p\<rparr>)
              | Inr action \<Rightarrow>
                  let (status, store) = persist F p action (hc_store st)
                  in (ConfigAck status, \<lparr>hc_store = store, hc_pending = p\<rparr>)))"

text \<open>
  One turn of the loop: a command arrives on one of the two channels and is answered on the
  matching one, a host command by a broadcast message with the encoded frame (\<open>None\<close> when the
  encoder panics).
\<close>

datatype ctrl_input = FromHost hub_command_envelope | FromPortal hub_command

datatype ctrl_output = ToHost response_message | ToPortal hub_response

definition hub_ctrl_turn ::
  "('f, 't) flash \<Rightarrow> build_env \<Rightarrow> wire \<Rightarrow> hub_stats \<Rightarrow> u64 \<Rightarrow> ctrl_input \<Rightarrow> 'f hub_ctrl \<Rightarrow> ctrl_output option \<times> 'f hub_ctrl" where
  "hub_ctrl_turn F E W stats now_secs i st =
     (case i of
        FromHost env \<Rightarrow>
          let (r, st) = handle F E stats now_secs (henv_command env) st
          in (map_option (\<lambda>f. ToHost (HubRaw (henv_source env) f)) (encode_response W r), st)
      | FromPortal c \<Rightarrow> let (r, st) = handle F E stats now_secs c st in (Some (ToPortal r), st))"

subsection \<open>Boot\<close>

definition boot_store :: "('f, 't) flash \<Rightarrow> 'f \<Rightarrow> 'f config_store option" where
  "boot_store F f = (case new_store F f of Inr s \<Rightarrow> Some s | Inl e \<Rightarrow> None)"

definition boot_config ::
  "('f, 't) flash \<Rightarrow> build_env \<Rightarrow> 'f config_store option \<Rightarrow> hub_config \<times> 'f config_store option" where
  "boot_config F E store =
     (let (stored, store) = (case store of
            Some s \<Rightarrow> let (c, s) = load F s in (c, Some s)
          | None \<Rightarrow> (None, None))
      in (select_config E stored, store))"

definition boot :: "('f, 't) flash \<Rightarrow> build_env \<Rightarrow> 'f \<Rightarrow> 'f hub_ctrl" where
  "boot F E f =
     (let (active, store) = boot_config F E (boot_store F f)
      in \<lparr>hc_store = store, hc_pending = active\<rparr>)"

subsection \<open>Answers to a sequence of commands\<close>

text \<open>The clock and the statistics vary from command to command.\<close>

type_synonym ctrl_event = "hub_stats \<times> u64 \<times> hub_command"

fun answers :: "('f, 't) flash \<Rightarrow> build_env \<Rightarrow> ctrl_event list \<Rightarrow> 'f hub_ctrl \<Rightarrow> hub_response list \<times> 'f hub_ctrl" where
  "answers F E [] st = ([], st)"
| "answers F E ((stats, now, c) # evs) st =
     (let (r, st) = handle F E stats now c st; (rs, st) = answers F E evs st in (r # rs, st))"

text \<open>
  The flash agrees with the pending configuration: a boot that can read it selects exactly the
  pending configuration.
\<close>

definition synced :: "build_env \<Rightarrow> ('f \<Rightarrow> u32 \<times> u32 \<Rightarrow> hub_config option) \<Rightarrow> 'f hub_ctrl \<Rightarrow> bool" where
  "synced E A st \<longleftrightarrow>
     (case hc_store st of None \<Rightarrow> False | Some s \<Rightarrow> select_config E (stored_config A s) = hc_pending st)"

text \<open>Whether the flash agrees after an answer, given whether it did before.\<close>

fun sync_after :: "bool \<Rightarrow> hub_response \<Rightarrow> bool" where
  "sync_after b (ConfigAck AckOk) = True"
| "sync_after b (ConfigAck StorageError) = False"
| "sync_after b _ = b"

lemma persist_None: "persist F p action None = (StorageError, None)"
  by (simp add: persist_def)

lemma persist_cases:
  assumes "flash_ok F A" and "persist F p action (Some s) = (status, store)"
  obtains s' where "store = Some s'" and "status = StorageError"
      "stored_config A s' \<in> {stored_config A s, Some p, None}"
  | s' where "store = Some s'" and "status = AckOk"
      "stored_config A s' = (case action of SaveConfig \<Rightarrow> Some p | ClearConfig \<Rightarrow> None | NoAction \<Rightarrow> stored_config A s)"
proof (cases action)
  case NoAction
  then show ?thesis using assms(2) that(2) [of s] by (simp add: persist_def)
next
  case SaveConfig
  obtain r s' where e: "save F p s = (r, s')" by force
  then show ?thesis
    using assms(2) save_stored [OF assms(1), of p s] that(1) [of s'] that(2) [of s'] SaveConfig
    by (cases r) (simp_all add: persist_def e)
next
  case ClearConfig
  obtain r s' where e: "clear F s = (r, s')" by force
  then show ?thesis
    using assms(2) clear_stored [OF assms(1), of s] that(1) [of s'] that(2) [of s'] ClearConfig
    by (cases r) (auto simp: persist_def e)
qed

text \<open>
  A command either only reads, or is rejected without a trace, or changes the pending
  configuration as \<open>apply_command\<close> says and tries to persist it.
\<close>

lemma handle_reads:
  "handle F E stats now GetNetworkConfig st = (network_config_response (hc_pending st), st)"
  "handle F E stats now GetHubStatus st = (HubStatus (snapshot (ucast now) stats), st)"
  by (simp_all add: handle_def)

lemma handle_change:
  assumes "c \<noteq> GetNetworkConfig" "c \<noteq> GetHubStatus" "apply_command E (hc_pending st) c = (res, p)"
  shows "handle F E stats now c st = (case res of
      Inl status \<Rightarrow> (ConfigAck status, st\<lparr>hc_pending := p\<rparr>)
    | Inr action \<Rightarrow> let (status, store) = persist F p action (hc_store st)
        in (ConfigAck status, \<lparr>hc_store = store, hc_pending = p\<rparr>))"
  using assms by (cases c) (simp_all add: handle_def)

lemma apply_command_action:
  "fst (apply_command E p c) = Inr NoAction \<longleftrightarrow> c = GetNetworkConfig \<or> c = GetHubStatus"
  by (cases c) simp_all

lemma handle_cases:
  assumes "handle F E stats now c st = (r, st')"
  obtains (read) "fst (apply_command E (hc_pending st) c) = Inr NoAction" "st' = st"
      "r = network_config_response (hc_pending st) \<or> r = HubStatus (snapshot (ucast now) stats)"
  | (rejected) "fst (apply_command E (hc_pending st) c) = Inl InvalidValue" "st' = st"
      "r = ConfigAck InvalidValue"
  | (changed) action status store where
      "apply_command E (hc_pending st) c = (Inr action, hc_pending st')" "action \<noteq> NoAction"
      "persist F (hc_pending st') action (hc_store st) = (status, store)"
      "hc_store st' = store" "r = ConfigAck status"
proof (cases "c = GetNetworkConfig \<or> c = GetHubStatus")
  case True
  then show ?thesis using assms by (intro read) (auto simp: handle_reads)
next
  case c: False
  obtain res p where a: "apply_command E (hc_pending st) c = (res, p)" by force
  note h = assms [unfolded handle_change [OF c [unfolded de_Morgan_disj, THEN conjunct1]
        c [unfolded de_Morgan_disj, THEN conjunct2] a]]
  show ?thesis
  proof (cases res)
    case (Inl e)
    then have "e = InvalidValue" "p = hc_pending st"
      using a apply_command_rejects_iff [of E "hc_pending st" c e] apply_command_unchanged [of E "hc_pending st" c e]
      by simp_all
    then show ?thesis using a h Inl by (intro rejected) simp_all
  next
    case (Inr action)
    obtain status store where q: "persist F p action (hc_store st) = (status, store)" by force
    have "action \<noteq> NoAction" using c apply_command_action [of E "hc_pending st" c] a Inr by simp
    moreover have "r = ConfigAck status" "st' = \<lparr>hc_store = store, hc_pending = p\<rparr>"
      using h Inr q by simp_all
    ultimately show ?thesis using a Inr q by (intro changed) simp_all
  qed
qed

subsection \<open>What the flash holds\<close>

lemma version_preserved:
  assumes "cfg_version p = CONFIG_SCHEMA_VERSION"
  shows "cfg_version (snd (apply_command E p c)) = CONFIG_SCHEMA_VERSION"
  using assms by (cases c) (simp_all add: default_config_def Let_def)

lemma handle_pending:
  "handle F E stats now c st = (r, st') \<Longrightarrow> hc_pending st' = snd (apply_command E (hc_pending st) c)"
  by (erule handle_cases) (auto dest: apply_command_unchanged [OF disjI1] apply_command_unchanged [OF disjI2])

lemma cleared_config: "apply_command E p c = (Inr ClearConfig, q) \<Longrightarrow> q = default_config E"
  by (cases c) (auto split: if_splits)

lemma handle_synced:
  assumes F: "flash_ok F A" and v: "cfg_version (hc_pending st) = CONFIG_SCHEMA_VERSION"
    and s: "hc_store st = Some s" and h: "handle F E stats now c st = (r, st')"
    and sync: "sync_after (synced E A st) r"
  shows "synced E A st'"
proof -
  from h show ?thesis
  proof (cases rule: handle_cases)
    case read
    then show ?thesis using sync by (auto simp: network_config_response_def)
  next
    case rejected
    then show ?thesis using sync by simp
  next
    case (changed action status store)
    have v': "cfg_version (hc_pending st') = CONFIG_SCHEMA_VERSION"
      using version_preserved [OF v, of E c] changed(1) by simp
    have "status \<noteq> StorageError" using sync changed(5) by (cases status) auto
    then obtain s' where "store = Some s'"
      "stored_config A s' = (case action of SaveConfig \<Rightarrow> Some (hc_pending st') | ClearConfig \<Rightarrow> None | NoAction \<Rightarrow> stored_config A s)"
      using persist_cases [OF F changed(3) [unfolded s]] by metis
    then show ?thesis
      using changed(1,2,4) v'
      by (cases action) (auto simp: synced_def select_config_def dest: cleared_config)
  qed
qed

lemma handle_store:
  assumes "flash_ok F A" "hc_store st = Some s" "handle F E stats now c st = (r, st')"
  shows "\<exists>s'. hc_store st' = Some s'"
  using assms(3)
proof (cases rule: handle_cases)
  case (changed action status store)
  then show ?thesis using persist_cases [OF assms(1) changed(3) [unfolded assms(2)]] by metis
qed (use assms(2) in simp_all)

lemma sync_after_eq: "sync_after b r \<longleftrightarrow> r = ConfigAck AckOk \<or> b \<and> r \<noteq> ConfigAck StorageError"
  by (cases "(b, r)" rule: sync_after.cases) simp_all

lemma sync_mono: "foldl sync_after False l \<Longrightarrow> foldl sync_after b l"
proof (induction l arbitrary: b)
  case (Cons r l)
  show ?case
  proof (cases "r = ConfigAck AckOk")
    case False
    then have "foldl sync_after False l" using Cons.prems by (simp add: sync_after_eq [of False])
    then show ?thesis using Cons.IH by simp
  qed (use Cons.prems in simp)
qed simp

lemma answers_synced:
  "\<lbrakk>flash_ok F A; cfg_version (hc_pending st) = CONFIG_SCHEMA_VERSION; hc_store st = Some s;
    answers F E evs st = (rs, st'); foldl sync_after (synced E A st) rs\<rbrakk>
   \<Longrightarrow> synced E A st'"
proof (induction evs arbitrary: st s rs)
  case (Cons ev evs)
  obtain stats now c where ev: "ev = (stats, now, c)" by (cases ev)
  obtain r st1 where h: "handle F E stats now c st = (r, st1)" by force
  obtain rs' where rs: "rs = r # rs'" "answers F E evs st1 = (rs', st')"
    using Cons.prems(4) h by (auto simp: ev split: prod.splits)
  obtain s1 where s1: "hc_store st1 = Some s1" using handle_store [OF Cons.prems(1,3) h] by blast
  have v1: "cfg_version (hc_pending st1) = CONFIG_SCHEMA_VERSION"
    using version_preserved [OF Cons.prems(2)] handle_pending [OF h] by simp
  have step: "foldl sync_after (sync_after (synced E A st) r) rs'"
    using Cons.prems(5) by (simp only: rs(1) foldl.simps)
  have "foldl sync_after (synced E A st1) rs'"
  proof (cases "sync_after (synced E A st) r")
    case True
    then show ?thesis using handle_synced [OF Cons.prems(1,2,3) h] step by simp
  next
    case False
    then have "foldl sync_after False rs'" using step by simp
    then show ?thesis by (rule sync_mono)
  qed
  then show ?case by (rule Cons.IH [OF Cons.prems(1) v1 s1 rs(2)])
qed simp

lemma answers_pending:
  "answers F E evs st = (rs, st') \<Longrightarrow>
   hc_pending st' = foldl (\<lambda>p (stats, now, c). snd (apply_command E p c)) (hc_pending st) evs"
proof (induction evs arbitrary: st rs)
  case (Cons ev evs)
  obtain stats now c where ev: "ev = (stats, now, c)" by (cases ev)
  obtain r st1 where h: "handle F E stats now c st = (r, st1)" by force
  show ?case using Cons.IH [of st1] Cons.prems handle_pending [OF h] h
    by (auto simp: ev split: prod.splits)
qed simp

subsection \<open>The life of a hub\<close>

definition reboot :: "('f, 't) flash \<Rightarrow> build_env \<Rightarrow> 'f hub_ctrl \<Rightarrow> 'f hub_ctrl" where
  "reboot F E st =
     (let (active, store) = boot_config F E (hc_store st) in \<lparr>hc_store = store, hc_pending = active\<rparr>)"

text \<open>
  From a hub whose store is missing, empty, of another schema version or holds a configuration within
  the limits, by commands within their field bounds and by reboots.
\<close>

inductive hub_life ::
  "('f, 't) flash \<Rightarrow> build_env \<Rightarrow> ('f \<Rightarrow> u32 \<times> u32 \<Rightarrow> hub_config option) \<Rightarrow> 'f hub_ctrl \<Rightarrow> bool"
  for F E A where
  fresh: "(\<And>s c. hc_store st = Some s \<Longrightarrow> stored_config A s = Some c \<Longrightarrow> cfg_version c = CONFIG_SCHEMA_VERSION \<Longrightarrow> usable E c)
    \<Longrightarrow> hub_life F E A (reboot F E st)"
| command: "\<lbrakk>hub_life F E A st; hub_command_ok c\<rbrakk> \<Longrightarrow> hub_life F E A (snd (handle F E stats now c st))"
| again: "hub_life F E A st \<Longrightarrow> hub_life F E A (reboot F E st)"

inductive_cases hub_lifeE: "hub_life F E A st"

definition stored_usable :: "build_env \<Rightarrow> ('f \<Rightarrow> u32 \<times> u32 \<Rightarrow> hub_config option) \<Rightarrow> 'f hub_ctrl \<Rightarrow> bool" where
  "stored_usable E A st \<longleftrightarrow>
     (\<forall>s c. hc_store st = Some s \<longrightarrow> stored_config A s = Some c \<longrightarrow> cfg_version c = CONFIG_SCHEMA_VERSION
        \<longrightarrow> usable E c)"

lemma reboot_usable:
  assumes "flash_ok F A" "env_texts E" "stored_usable E A st"
  shows "usable E (hc_pending (reboot F E st)) \<and> stored_usable E A (reboot F E st)"
proof (cases "hc_store st")
  case None
  then show ?thesis using default_config_usable [OF assms(2)]
    by (simp add: reboot_def boot_config_def stored_usable_def select_config_def)
next
  case (Some s)
  obtain x s' where l: "load F s = (x, s')" by force
  have s': "stored_config A s' = stored_config A s" and x: "x \<in> {stored_config A s, None}"
    using load_stored [OF assms(1), of s] by (simp_all add: l)
  have "usable E (select_config E x)"
    using assms(2,3) Some x by (intro select_config_usable) (auto simp: stored_usable_def)
  then show ?thesis using assms(3) Some s'
    by (simp add: reboot_def boot_config_def stored_usable_def l)
qed

lemma handle_usable:
  assumes F: "flash_ok F A" and "env_texts E" "stored_usable E A st" "usable E (hc_pending st)" "hub_command_ok c"
    and h: "handle F E stats now c st = (r, st')"
  shows "usable E (hc_pending st') \<and> stored_usable E A st'"
proof -
  have v: "usable E (hc_pending st')"
    using apply_command_usable [OF assms(2,4,5)] handle_pending [OF h] by simp
  from h have "stored_usable E A st'"
  proof (cases rule: handle_cases)
    case (changed action status store)
    show ?thesis
    proof (cases "hc_store st")
      case None
      then show ?thesis using changed by (simp add: stored_usable_def persist_None)
    next
      case (Some s)
      show ?thesis
        using assms(3) v Some changed(4)
        by (rule_tac persist_cases [OF F changed(3) [unfolded Some]])
          (auto simp: stored_usable_def split: config_action.splits)
    qed
  qed (use assms(3) in simp_all)
  with v show ?thesis by simp
qed

lemma hub_life_usable:
  assumes "flash_ok F A" "env_texts E" "hub_life F E A st"
  shows "usable E (hc_pending st) \<and> stored_usable E A st"
  using assms(3)
proof (induction rule: hub_life.induct)
  case (fresh st)
  then show ?case by (intro reboot_usable [OF assms(1,2)]) (auto simp: stored_usable_def)
next
  case (command st c stats now)
  then show ?case using handle_usable [OF assms(1,2), of st c stats now] by (metis prod.collapse)
next
  case (again st)
  then show ?case by (intro reboot_usable [OF assms(1,2)]) simp
qed

text \<open>Every answer fits its frame.\<close>

lemma handle_response_ok:
  assumes "config_typed (hc_pending st)"
  shows "hub_response_ok (fst (handle F E stats now c st))"
proof -
  obtain r st' where h: "handle F E stats now c st = (r, st')" by force
  then show ?thesis
    by (cases rule: handle_cases)
      (use assms in \<open>auto simp: h network_config_response_def config_typed_def wifi_ok_def\<close>)
qed

subsection \<open>Witness material\<close>

text \<open>A flash that holds one entry, whose next \<open>n\<close> writes fail, and a plain build.\<close>

definition sample_flash :: "(nat \<times> hub_config option, unit) flash" where
  "sample_flash =
     \<lparr>read_partition_table = (\<lambda>f. Some ()), find_nvs = (\<lambda>t. Inr (Some (0x9000, 0x6000))),
      range_valid = (\<lambda>r. True),
      fetch_item = (\<lambda>(n, c) r k. (Inr c, (n, c))),
      store_item = (\<lambda>(n, c) r k c'. if n = 0 then (True, (0, Some c')) else (False, (n - 1, c))),
      remove_item = (\<lambda>(n, c) r k. if n = 0 then (True, (0, None)) else (False, (n - 1, c)))\<rparr>"

lemma sample_flash_ok: "flash_ok sample_flash (\<lambda>f r. snd f)"
  by (auto simp: flash_ok_def sample_flash_def)

definition sample_env :: build_env where
  "sample_env = \<lparr>HUB_WIFI_SSID = None, HUB_WIFI_PASSWORD = None, HUB_MQTT_HOST = None, HUB_MQTT_PORT = None,
     HUB_MQTT_CLIENT_ID = None, HUB_MODE = None, HUB_GW_HOST = None, HUB_GW_PORT = None\<rparr>"

lemma sample_env_ok: "env_ok sample_env" "env_texts sample_env"
  by (simp_all add: env_ok_def env_texts_def sample_env_def parse_port_def)

definition sample_wifi :: wifi_settings where
  "sample_wifi = \<lparr>ssid = lit ''HomeNet'', password = lit ''hunter22secret''\<rparr>"

subsection \<open>The properties\<close>

text \<open>
  C16. An acknowledged configuration survives the next reboot: over any flash, after any sequence of
  commands that does not end with an unresolved storage error (the last acknowledgement that
  persists is \<open>AckOk\<close>, or none was needed and the flash agreed from the start), a boot that can
  read the flash runs with exactly the configuration the commands add up to, storage errors
  earlier in the sequence included.
\<close>

theorem acked_config_survives_reboot:
  assumes "flash_ok F A" and "cfg_version (hc_pending st) = CONFIG_SCHEMA_VERSION" and "hc_store st = Some s"
    and "answers F E evs st = (rs, st')" and "foldl sync_after (synced E A st) rs"
  shows "\<exists>s'. hc_store st' = Some s' \<and>
    (fst (load F s') = stored_config A s' \<longrightarrow>
       hc_pending (reboot F E st')
         = foldl (\<lambda>p (stats, now, c). snd (apply_command E p c)) (hc_pending st) evs)"
proof -
  have "synced E A st'" by (rule answers_synced [OF assms])
  then show ?thesis using answers_pending [OF assms(4)]
    by (auto simp: synced_def reboot_def boot_config_def split: option.splits prod.splits)
qed

definition sample_events :: "ctrl_event list" where
  "sample_events = [(new_stats, 0, SetWifiConfig sample_wifi), (new_stats, 5, SetMode LorawanGateway)]"

lemmas hub_ctrl_eval = boot_def boot_store_def boot_config_def new_store_def find_nvs_range_def load_def
  select_config_def sample_flash_def default_config_def handle_def persist_def save_def stored_config_def
  sample_events_def Let_def

theorem acked_config_survives_reboot_witness:
  "cfg_wifi (hc_pending (reboot sample_flash sample_env
       (snd (answers sample_flash sample_env sample_events (boot sample_flash sample_env (1, None)))))) = sample_wifi"
proof -
  let ?b = "boot sample_flash sample_env (1, None)"
  obtain rs st' where a: "answers sample_flash sample_env sample_events ?b = (rs, st')" by force
  have "rs = [ConfigAck StorageError, ConfigAck AckOk]" using a by (simp add: hub_ctrl_eval)
  then have sync: "foldl sync_after (synced sample_env (\<lambda>f r. snd f) ?b) rs" by simp
  have v: "cfg_version (hc_pending ?b) = CONFIG_SCHEMA_VERSION" by (simp add: hub_ctrl_eval)
  have s: "hc_store ?b = Some \<lparr>cs_range = (0x9000, 0xF000), cs_flash = (1, None)\<rparr>" by (simp add: hub_ctrl_eval)
  obtain s' where s': "hc_store st' = Some s'"
    and r: "fst (load sample_flash s') = stored_config (\<lambda>f r. snd f) s' \<longrightarrow>
       hc_pending (reboot sample_flash sample_env st')
         = foldl (\<lambda>p (stats, now, c). snd (apply_command sample_env p c)) (hc_pending ?b) sample_events"
    using acked_config_survives_reboot [OF sample_flash_ok v s a sync] by blast
  have "fst (load sample_flash s') = stored_config (\<lambda>f r. snd f) s'"
    by (cases s') (auto simp: load_def stored_config_def sample_flash_def split: prod.split option.split)
  with r show ?thesis unfolding a by (simp add: sample_events_def)
qed

text \<open>
  C17. On every build and every hub whose flash does not already hold a configuration outside them, the
  limits are kept: whatever commands arrive within their field bounds, in whatever order with
  reboots, storage failures and read errors, the active and the pending configuration keep the
  schema version, the string bounds and gateway settings the radio supports (150 to 960 MHz,
  spreading factor 7 to 12, 125, 250 or 500 kHz, coding rate 5 to 8), and a broker or server port is
  zero only where the build variable of the default is written as zero
  (\<open>zero_port_is_baked_in\<close>).
\<close>

theorem configuration_always_valid:
  assumes "flash_ok F A" and "env_texts E" and "hub_life F E A st"
  shows "cfg_version (hc_pending st) = CONFIG_SCHEMA_VERSION \<and> config_typed (hc_pending st)
    \<and> 150000000 \<le> gw_frequency_hz (cfg_gateway (hc_pending st)) \<and> gw_frequency_hz (cfg_gateway (hc_pending st)) \<le> 960000000
    \<and> 7 \<le> gw_spreading_factor (cfg_gateway (hc_pending st)) \<and> gw_spreading_factor (cfg_gateway (hc_pending st)) \<le> 12
    \<and> gw_bandwidth_khz (cfg_gateway (hc_pending st)) \<in> {125, 250, 500}
    \<and> 5 \<le> gw_coding_rate (cfg_gateway (hc_pending st)) \<and> gw_coding_rate (cfg_gateway (hc_pending st)) \<le> 8
    \<and> (mqtt_port (cfg_mqtt (hc_pending st)) = 0 \<longrightarrow> parse_port (HUB_MQTT_PORT E) = Some 0)
    \<and> (gw_port (cfg_gateway (hc_pending st)) = 0 \<longrightarrow> parse_port (HUB_GW_PORT E) = Some 0)"
  using hub_life_usable [OF assms] unfolding usable_def gateway_settings_valid_def by simp

theorem configuration_always_valid_witness:
  "gw_port (cfg_gateway (hc_pending (snd (handle sample_flash sample_env new_stats 0 (SetMode LorawanGateway)
     (reboot sample_flash sample_env (boot sample_flash sample_env (0, None))))))) \<noteq> 0"
proof -
  have "hub_life sample_flash sample_env (\<lambda>f r. snd f) (reboot sample_flash sample_env (boot sample_flash sample_env (0, None)))"
    by (rule hub_life.fresh) (auto simp: hub_ctrl_eval)
  then have "hub_life sample_flash sample_env (\<lambda>f r. snd f) (snd (handle sample_flash sample_env new_stats 0
      (SetMode LorawanGateway) (reboot sample_flash sample_env (boot sample_flash sample_env (0, None)))))"
    by (rule hub_life.command) simp
  from configuration_always_valid [OF sample_flash_ok sample_env_ok(2) this] show ?thesis
    by (simp add: sample_env_def parse_port_def)
qed

text \<open>A port written as zero becomes the default, which the commands would refuse.\<close>

lemma zero_port_is_baked_in:
  "mqtt_port (cfg_mqtt (default_config (sample_env\<lparr>HUB_MQTT_PORT := Some (lit ''0'')\<rparr>))) = 0
 \<and> gw_port (cfg_gateway (default_config (sample_env\<lparr>HUB_GW_PORT := Some (lit ''0'')\<rparr>))) = 0
 \<and> fst (apply_command E p (SetMqttConfig (m\<lparr>mqtt_port := 0\<rparr>))) = Inl InvalidValue"
proof -
  have "parse_uint 65535 (lit ''0'') = Some 0" using parse_uint_dec [of 0 65535] by (simp add: dec.simps lit_def)
  then show ?thesis by (simp add: default_config_def parse_port_def Let_def sample_env_def)
qed

text \<open>
  The provisioning dialogue is complete: on a running hub every frame that parses to a command
  is answered, the answer to a host goes to the host that asked, it is encoded without loss or
  panic, and the host parses it back to exactly the answer given.
\<close>

theorem every_command_is_answered:
  assumes "wire_ok W D" and "flash_ok F A" and "env_texts E" and "hub_life F E A st"
    and "parse_command W d = Inr c"
  shows "hub_life F E A (snd (hub_ctrl_turn F E W stats now (FromHost \<lparr>henv_command = c, henv_source = src, henv_sequence_id = n\<rparr>) st))
    \<and> (\<exists>e raw. fst (hub_ctrl_turn F E W stats now (FromHost \<lparr>henv_command = c, henv_source = src, henv_sequence_id = n\<rparr>) st)
             = Some (ToHost (HubRaw src e))
         \<and> D e = Some raw \<and> parse_response W raw = Inr (fst (handle F E stats now c st)))"
proof -
  have "hub_command_ok c" using parse_command_canonical_ok [OF assms(5)] .
  then have "hub_life F E A (snd (handle F E stats now c st))" by (rule hub_life.command [OF assms(4)])
  moreover have "hub_response_ok (fst (handle F E stats now c st))"
    using hub_life_usable [OF assms(2-4)] by (intro handle_response_ok) (simp add: usable_def)
  then obtain e raw where "encode_response W (fst (handle F E stats now c st)) = Some e" "D e = Some raw"
    "parse_response W raw = Inr (fst (handle F E stats now c st))"
    using encode_response_parses [OF assms(1)] by blast
  ultimately show ?thesis by (auto simp: hub_ctrl_turn_def split: prod.splits)
qed

theorem every_command_is_answered_witness:
  "\<exists>e raw. fst (hub_ctrl_turn sample_flash sample_env sample_wire new_stats 0
        (FromHost \<lparr>henv_command = SetMode LorawanGateway, henv_source = Serial, henv_sequence_id = 7\<rparr>)
        (reboot sample_flash sample_env (boot sample_flash sample_env (3, None))))
      = Some (ToHost (HubRaw Serial e))
    \<and> sample_decode e = Some raw \<and> parse_response sample_wire raw = Inr (ConfigAck StorageError)"
proof -
  let ?st = "reboot sample_flash sample_env (boot sample_flash sample_env (3, None))"
  have life: "hub_life sample_flash sample_env (\<lambda>f r. snd f) ?st"
    by (rule hub_life.fresh) (auto simp: hub_ctrl_eval)
  have p: "parse_command sample_wire (frame sample_wire 0x24 [1]) = Inr (SetMode LorawanGateway)"
    using parse_command_frame [of "SetMode LorawanGateway" sample_wire "[]"] by simp
  have "fst (handle sample_flash sample_env new_stats 0 (SetMode LorawanGateway) ?st) = ConfigAck StorageError"
    by (simp add: hub_ctrl_eval reboot_def)
  then show ?thesis
    using every_command_is_answered [OF sample_wire_ok sample_flash_ok sample_env_ok(2) life p, of new_stats 0 Serial 7]
    by simp
qed

text \<open>
  A refused setting is not forgotten: when persisting a WiFi setting fails, the host is told
  that the setting is not stored, but the hub keeps it pending, and the next setting that is
  persisted, of whatever kind, stores it too.
\<close>

theorem refused_setting_is_stored_later:
  assumes "flash_ok F A" and "hc_store st = Some s"
    and "handle F E stats now (SetWifiConfig w) st = (ConfigAck StorageError, st1)"
    and "handle F E stats' now' (SetMode m) st1 = (ConfigAck AckOk, st2)"
  shows "\<exists>s2 c. hc_store st2 = Some s2 \<and> stored_config A s2 = Some c \<and> cfg_wifi c = w \<and> cfg_mode c = m"
proof -
  obtain s1 where s1: "hc_store st1 = Some s1" using handle_store [OF assms(1-3)] by blast
  have p1: "hc_pending st1 = hc_pending st\<lparr>cfg_wifi := w\<rparr>" using handle_pending [OF assms(3)] by simp
  from assms(4) show ?thesis
  proof (cases rule: handle_cases)
    case (changed action status store)
    then have a: "action = SaveConfig" "hc_pending st2 = hc_pending st1\<lparr>cfg_mode := m\<rparr>" "status = AckOk" by auto
    show ?thesis
      by (rule persist_cases [OF assms(1) changed(3) [unfolded s1]]) (use a changed(4) p1 in auto)
  qed (auto simp: network_config_response_def)
qed

theorem refused_setting_is_stored_later_witness:
  "\<exists>s2 c. hc_store (snd (answers sample_flash sample_env sample_events (boot sample_flash sample_env (1, None)))) = Some s2
     \<and> snd (cs_flash s2) = Some c \<and> cfg_wifi c = sample_wifi \<and> cfg_mode c = LorawanGateway"
proof -
  let ?b = "boot sample_flash sample_env (1, None)"
  obtain r1 st1 where h1: "handle sample_flash sample_env new_stats 0 (SetWifiConfig sample_wifi) ?b = (r1, st1)" by force
  obtain r2 st2 where h2: "handle sample_flash sample_env new_stats 5 (SetMode LorawanGateway) st1 = (r2, st2)" by force
  have "answers sample_flash sample_env sample_events ?b = ([ConfigAck StorageError, ConfigAck AckOk], st2)"
    using h1 h2 by (auto simp: hub_ctrl_eval)
  moreover have r: "r1 = ConfigAck StorageError" "r2 = ConfigAck AckOk"
    using h1 h2 by (auto simp: hub_ctrl_eval)
  have "hc_store ?b = Some \<lparr>cs_range = (0x9000, 0xF000), cs_flash = (1, None)\<rparr>" by (simp add: hub_ctrl_eval)
  from refused_setting_is_stored_later [OF sample_flash_ok this h1 [unfolded r] h2 [unfolded r]]
  have "\<exists>s2 c. hc_store st2 = Some s2 \<and> snd (cs_flash s2) = Some c \<and> cfg_wifi c = sample_wifi \<and> cfg_mode c = LorawanGateway"
    by (simp add: stored_config_def)
  ultimately show ?thesis by simp
qed

end
