(* ===== verification/Serial_Tasks.thy ===== *)
theory Serial_Tasks imports Hub_Ctrl Messages "HOL-Library.Sublist" begin

text \<open>
  The serial side: the reader and writer tasks (\<open>src/tasks/serial.rs\<close>) and the USB endpoint wrapper
  (\<open>src/usb/cdc_io.rs\<close>). The frame accumulator and the codec of the shared protocol crate are the
  record \<open>serial_lib\<close>, the endpoint is the record \<open>endpoint\<close>: both are parameters. What a task does
  to its channels is a list of actions in order; sending to the command queue waits for room, so it
  always succeeds, the hub command queue refuses what does not fit. The accumulator is only asked
  to complete frames that fit the frame buffer of \<open>MAX_FRAME_SIZE\<close> bytes.
\<close>

subsection \<open>The reader\<close>

record 'a serial_lib =
  acc_new :: 'a
  acc_push :: "u8 \<Rightarrow> 'a \<Rightarrow> bytes option \<times> 'a"
  cobs_decode :: "bytes \<Rightarrow> bytes option"
  wt_parse_command :: "bytes \<Rightarrow> response_status + command"
  wt_encode_response :: "response \<Rightarrow> bytes"
  error_raw :: "response_status \<Rightarrow> u8 \<Rightarrow> response"

datatype read_result =
    ReadCommand command
  | ReadHubCommand hub_command
  | ReadParseError response_status u8

definition process_frame :: "'a serial_lib \<Rightarrow> wire \<Rightarrow> bytes \<Rightarrow> read_result option" where
  "process_frame S W encoded =
     (case cobs_decode S encoded of
        None \<Rightarrow> None
      | Some decoded \<Rightarrow>
          if decoded = [] then None
          else
            let command_id = (if 1 < length decoded then decoded ! 1 else 0)
            in Some (case wt_parse_command S decoded of
                 Inr c \<Rightarrow> ReadCommand c
               | Inl StInvalidCommand \<Rightarrow>
                   (case parse_command W decoded of
                      Inr c \<Rightarrow> ReadHubCommand c
                    | Inl status \<Rightarrow> ReadParseError status command_id)
               | Inl status \<Rightarrow> ReadParseError status command_id))"

datatype serial_action =
    SendCommand command_envelope
  | TrySendHub hub_command_envelope
  | Publish response_message

record 'a serial_reader =
  sr_acc :: 'a
  sr_sequence :: u16

definition new_reader_task :: "'a serial_lib \<Rightarrow> 'a serial_reader" where
  "new_reader_task S = \<lparr>sr_acc = acc_new S, sr_sequence = 0\<rparr>"

fun frame_action :: "'a serial_lib \<Rightarrow> u16 \<Rightarrow> read_result option \<Rightarrow> serial_action list" where
  "frame_action S i (Some (ReadCommand c)) =
     [SendCommand \<lparr>env_command = c, env_source = Serial, env_sequence_id = i\<rparr>]"
| "frame_action S i (Some (ReadHubCommand c)) =
     [TrySendHub \<lparr>henv_command = c, henv_source = Serial, henv_sequence_id = i\<rparr>]"
| "frame_action S i (Some (ReadParseError status command_id)) =
     [Publish (CommandResponse Serial i (error_raw S status command_id))]"
| "frame_action S i None = []"

definition read_byte :: "'a serial_lib \<Rightarrow> wire \<Rightarrow> u8 \<Rightarrow> 'a serial_reader \<Rightarrow> serial_action list \<times> 'a serial_reader" where
  "read_byte S W b r =
     (case acc_push S b (sr_acc r) of
        (None, acc) \<Rightarrow> ([], r\<lparr>sr_acc := acc\<rparr>)
      | (Some encoded, acc) \<Rightarrow>
          (frame_action S (sr_sequence r) (process_frame S W encoded),
           r\<lparr>sr_acc := acc, sr_sequence := sr_sequence r + 1\<rparr>))"

fun read_bytes :: "'a serial_lib \<Rightarrow> wire \<Rightarrow> bytes \<Rightarrow> 'a serial_reader \<Rightarrow> serial_action list \<times> 'a serial_reader" where
  "read_bytes S W [] r = ([], r)"
| "read_bytes S W (b # bs) r =
     (let (as, r) = read_byte S W b r; (as', r) = read_bytes S W bs r in (as @ as', r))"

text \<open>
  One turn of the reader: a read returns up to 64 bytes or fails, after which the task waits a
  moment and goes on.
\<close>

fun reader_turn :: "'a serial_lib \<Rightarrow> wire \<Rightarrow> bytes option \<Rightarrow> 'a serial_reader \<Rightarrow> serial_action list \<times> 'a serial_reader" where
  "reader_turn S W None r = ([], r)"
| "reader_turn S W (Some chunk) r = read_bytes S W chunk r"

fun reader_run :: "'a serial_lib \<Rightarrow> wire \<Rightarrow> bytes option list \<Rightarrow> 'a serial_reader \<Rightarrow> serial_action list \<times> 'a serial_reader" where
  "reader_run S W [] r = ([], r)"
| "reader_run S W (c # cs) r =
     (let (as, r) = reader_turn S W c r; (as', r) = reader_run S W cs r in (as @ as', r))"

subsection \<open>The writer\<close>

text \<open>What the writer writes for a message: its own answers and all packets.\<close>

fun writer_frames :: "'a serial_lib \<Rightarrow> response_message \<Rightarrow> bytes list" where
  "writer_frames S (CommandResponse source i r) = (if source = Serial then [wt_encode_response S r] else [])"
| "writer_frames S (Unsolicited r) = [wt_encode_response S r]"
| "writer_frames S (HubRaw source f) = (if source = Serial then [f] else [])"

datatype subscription = SubLagged u64 | SubMessage response_message

fun writer_turn :: "'a serial_lib \<Rightarrow> subscription \<Rightarrow> bytes list" where
  "writer_turn S (SubLagged n) = []"
| "writer_turn S (SubMessage m) = writer_frames S m"

subsection \<open>The USB endpoint\<close>

text \<open>
  The endpoint takes packets of at most \<open>max_packet\<close> bytes and may fail; a read returns a packet or
  fails. Waiting for the host's DTR has no other effect.
\<close>

record 'e endpoint =
  write_packet :: "bytes \<Rightarrow> 'e \<Rightarrow> bool \<times> 'e"
  read_packet_ep :: "'e \<Rightarrow> bytes option \<times> 'e"
  max_packet :: nat

definition cdc_read :: "'e endpoint \<Rightarrow> 'e \<Rightarrow> bytes option \<times> 'e" where
  "cdc_read E e = read_packet_ep E e"

definition cdc_write :: "'e endpoint \<Rightarrow> bytes \<Rightarrow> 'e \<Rightarrow> nat option \<times> 'e" where
  "cdc_write E buf e =
     (let n = min (length buf) (max_packet E - 1)
      in case write_packet E (take n buf) e of
           (True, e) \<Rightarrow> (Some n, e)
         | (False, e) \<Rightarrow> (None, e))"

text \<open>
  \<open>write_all\<close> of the I/O traits, as documented: write what is left until nothing is, stop at an
  error, panic when a write takes nothing.
\<close>

datatype write_result = Written | WriteFailed | WritePanic

function write_all :: "'e endpoint \<Rightarrow> bytes \<Rightarrow> 'e \<Rightarrow> write_result \<times> 'e" where
  "write_all E buf e =
     (if buf = [] then (Written, e)
      else case cdc_write E buf e of
          (None, e) \<Rightarrow> (WriteFailed, e)
        | (Some n, e) \<Rightarrow> if n = 0 then (WritePanic, e) else write_all E (drop n buf) e)"
  by pat_completeness auto

termination
  by (relation "measure (\<lambda>(E, buf, e). length buf)") auto

declare write_all.simps [simp del]

subsection \<open>Reading a stream\<close>

text \<open>The frames the accumulator completes in a stream of bytes.\<close>

fun feed :: "'a serial_lib \<Rightarrow> bytes \<Rightarrow> 'a \<Rightarrow> bytes list \<times> 'a" where
  "feed S [] acc = ([], acc)"
| "feed S (b # bs) acc =
     (let (f, acc) = acc_push S b acc; (fs, acc) = feed S bs acc
      in ((case f of None \<Rightarrow> fs | Some x \<Rightarrow> x # fs), acc))"

definition stream_actions :: "'a serial_lib \<Rightarrow> wire \<Rightarrow> u16 \<Rightarrow> bytes list \<Rightarrow> serial_action list" where
  "stream_actions S W i fs =
     concat (map (\<lambda>(k, f). frame_action S (i + of_nat k) (process_frame S W f)) (enumerate 0 fs))"

lemma stream_actions_Nil [simp]: "stream_actions S W i [] = []"
  by (simp add: stream_actions_def)

lemma stream_actions_Cons [simp]:
  "stream_actions S W i (f # fs) = frame_action S i (process_frame S W f) @ stream_actions S W (i + 1) fs"
proof -
  have "enumerate (Suc 0) fs = map (\<lambda>(k, f). (Suc k, f)) (enumerate 0 fs)"
    by (rule nth_equalityI) (simp_all add: nth_enumerate_eq)
  then show ?thesis
    unfolding stream_actions_def case_prod_beta by (simp add: case_prod_beta comp_def add.assoc)
qed

lemma read_bytes_stream:
  "feed S bs (sr_acc r) = (fs, acc) \<Longrightarrow> read_bytes S W bs r
     = (stream_actions S W (sr_sequence r) fs, r\<lparr>sr_acc := acc, sr_sequence := sr_sequence r + of_nat (length fs)\<rparr>)"
proof (induction bs arbitrary: r fs)
  case (Cons b bs)
  obtain f a where p: "acc_push S b (sr_acc r) = (f, a)" by force
  obtain gs a' where g: "feed S bs a = (gs, a')" by force
  have fs: "fs = (case f of None \<Rightarrow> gs | Some x \<Rightarrow> x # gs)" "acc = a'" using Cons.prems by (simp_all add: p g)
  show ?case
  proof (cases f)
    case None
    then show ?thesis using Cons.IH [of "r\<lparr>sr_acc := a\<rparr>" gs] g fs
      by (simp add: read_byte_def p)
  next
    case (Some x)
    then show ?thesis using Cons.IH [of "r\<lparr>sr_acc := a, sr_sequence := sr_sequence r + 1\<rparr>" gs] g fs
      by (simp add: read_byte_def p add.assoc)
  qed
qed simp

lemma read_bytes_append:
  "read_bytes S W (xs @ ys) r =
     (let (as, r) = read_bytes S W xs r; (as', r) = read_bytes S W ys r in (as @ as', r))"
  by (induction xs arbitrary: r) (simp_all add: case_prod_beta Let_def)

lemma reader_run_concat:
  "reader_run S W cs r = read_bytes S W (concat (map (\<lambda>c. case c of None \<Rightarrow> [] | Some bs \<Rightarrow> bs) cs)) r"
proof (induction cs arbitrary: r)
  case (Cons c cs)
  then show ?case by (cases c) (simp_all add: read_bytes_append case_prod_beta Let_def)
qed simp

subsection \<open>Writing to the endpoint\<close>

text \<open>The endpoint with the packets it took, oldest first.\<close>

definition recorded_ep :: "'e endpoint \<Rightarrow> (bytes list \<times> 'e) endpoint" where
  "recorded_ep E =
     \<lparr>write_packet = (\<lambda>p (ps, e). let (good, e) = write_packet E p e in (good, (if good then ps @ [p] else ps, e))),
      read_packet_ep = (\<lambda>(ps, e). let (r, e) = read_packet_ep E e in (r, (ps, e))),
      max_packet = max_packet E\<rparr>"

lemma cdc_write_recorded:
  assumes "cdc_write (recorded_ep E) buf (ps, e) = (r, (ps', e'))"
  shows "case r of None \<Rightarrow> ps' = ps
    | Some n \<Rightarrow> n = min (length buf) (max_packet E - 1) \<and> ps' = ps @ [take n buf]"
  using assms
  by (auto simp: cdc_write_def recorded_ep_def Let_def split: prod.splits bool.splits if_splits option.splits)

lemma write_all_Nil [simp]: "write_all E [] e = (Written, e)"
  by (simp add: write_all.simps)

lemma write_all_recorded:
  assumes "2 \<le> max_packet E" "write_all (recorded_ep E) buf (ps, e) = (r, (ps', e'))"
  shows "\<exists>qs. ps' = ps @ qs \<and> r \<noteq> WritePanic \<and> prefix (concat qs) buf \<and> (r = Written \<longrightarrow> concat qs = buf)
    \<and> (\<forall>q \<in> set qs. q \<noteq> [] \<and> length q < max_packet E)"
  using assms(2)
proof (induction "length buf" arbitrary: buf ps e rule: less_induct)
  case less
  show ?case
  proof (cases "buf = []")
    case True
    then show ?thesis using less.prems by (simp add: exI [of _ "[]"])
  next
    case False
    obtain w ps1 e1 where w: "cdc_write (recorded_ep E) buf (ps, e) = (w, (ps1, e1))" by (metis prod_cases3)
    note rec = cdc_write_recorded [OF w]
    show ?thesis
    proof (cases w)
      case None
      then show ?thesis using less.prems rec w False by (simp add: write_all.simps [of _ buf] exI [of _ "[]"])
    next
      case (Some n)
      let ?q = "take n buf"
      have n: "n = min (length buf) (max_packet E - 1)" "ps1 = ps @ [?q]" using rec Some by simp_all
      have pos: "0 < n" "n \<le> length buf" "n < max_packet E" using False assms(1) n(1) by auto
      have rest: "write_all (recorded_ep E) (drop n buf) (ps @ [?q], e1) = (r, (ps', e'))"
        using less.prems w Some False n(2) pos by (simp add: write_all.simps [of _ buf])
      have "length (drop n buf) < length buf" using pos False by simp
      from less.hyps [OF this rest] obtain qs where qs: "ps' = (ps @ [?q]) @ qs" "r \<noteq> WritePanic" "prefix (concat qs) (drop n buf)"
        "r = Written \<longrightarrow> concat qs = drop n buf" "\<forall>q \<in> set qs. q \<noteq> [] \<and> length q < max_packet E"
        by blast
      have "prefix (?q @ concat qs) buf"
        using qs(3) by (metis append_take_drop_id same_prefix_prefix)
      moreover have "r = Written \<longrightarrow> ?q @ concat qs = buf" using qs(4) by simp
      moreover have "?q \<noteq> []" "length ?q < max_packet E" using pos False by auto
      ultimately show ?thesis using qs(1,2,5) by (intro exI [of _ "?q # qs"]) simp
    qed
  qed
qed

subsection \<open>The host link\<close>

text \<open>
  What the crates behind the link promise: the accumulator completes an encoded frame that fits the
  frame buffer with its last byte and is then empty again, and the shared protocol parser refuses
  identifiers of the hub's block, in an otherwise well-formed frame that fits, as unknown commands.
\<close>

definition link_ok :: "'a serial_lib \<Rightarrow> wire \<Rightarrow> bool" where
  "link_ok S W \<longleftrightarrow>
     (\<forall>raw. raw \<noteq> [] \<longrightarrow> fits_frame W raw \<longrightarrow> feed S (cobs_encoder W raw) (acc_new S) = ([cobs_encoder W raw], acc_new S))
     \<and> (\<forall>raw i payload. fits_frame W raw \<longrightarrow> parse_raw W raw = Inr (i, payload) \<longrightarrow> hub_command_from_byte i \<noteq> None \<longrightarrow>
          wt_parse_command S raw = Inl StInvalidCommand)"

lemma parsed_command_raw:
  assumes "parse_command W raw = Inr c"
  obtains i payload where "parse_raw W raw = Inr (i, payload)" "hub_command_from_byte i \<noteq> None"
  using assms that by (auto simp: parse_command_def split: sum.splits parse_error.splits option.splits)

lemma process_hub_frame:
  assumes "link_ok S W" "cobs_decode S e = Some raw" "parse_command W raw = Inr c" "fits_frame W raw"
  shows "process_frame S W e = Some (ReadHubCommand c)"
proof -
  obtain i payload where r: "parse_raw W raw = Inr (i, payload)" "hub_command_from_byte i \<noteq> None"
    using parsed_command_raw [OF assms(3)] .
  have "raw \<noteq> []" using r(1) by (auto simp: parse_raw_def)
  moreover have "wt_parse_command S raw = Inl StInvalidCommand" using assms(1,4) r by (auto simp: link_ok_def)
  ultimately show ?thesis using assms(2,3) by (simp add: process_frame_def)
qed

lemma encode_command_fits:
  assumes "wire_ok W D" "hub_command_ok c"
  shows "\<exists>raw. encode_command W c = Some (cobs_encoder W raw) \<and> D (cobs_encoder W raw) = Some raw
    \<and> parse_command W raw = Inr c \<and> fits_frame W raw"
proof -
  obtain e raw where e: "encode_command W c = Some e" "D e = Some raw" "parse_command W raw = Inr c"
    using encode_command_parses [OF assms] by blast
  obtain raw' where r: "e = cobs_encoder W raw'" "fits_frame W raw'"
    using e(1) by (auto simp: encode_command_def cobs_encode_def fits_frame_def split: if_splits option.splits)
  then have "raw' = raw" using assms(1) e(2) by (auto simp: wire_ok_def)
  then show ?thesis using e r by blast
qed

text \<open>The hub's queue of commands after the actions of the reader: what finds no room is dropped.\<close>

fun hub_queue_after :: "serial_action list \<Rightarrow> hub_command_envelope list \<Rightarrow> hub_command_envelope list" where
  "hub_queue_after [] q = q"
| "hub_queue_after (TrySendHub e # acts) q =
     hub_queue_after acts (case try_send HUB_CHANNEL_SIZE e q of Some q' \<Rightarrow> q' | None \<Rightarrow> q)"
| "hub_queue_after (a # acts) q = hub_queue_after acts q"

subsection \<open>The properties\<close>

text \<open>
  The reader does not depend on how the stream is cut into reads: over any sequence of reads, of
  any sizes and with failed reads in between, its actions are those of the frames in the whole
  stream, in order, the frame at position \<open>k\<close> (ignored ones included) with sequence number \<open>k\<close> after
  the first, modulo the wrap.
\<close>

theorem reads_do_not_matter:
  "reader_run S W cs r =
    (case feed S (concat (map (\<lambda>c. case c of None \<Rightarrow> [] | Some bs \<Rightarrow> bs) cs)) (sr_acc r) of (fs, acc) \<Rightarrow>
      (concat (map (\<lambda>(k, f). frame_action S (sr_sequence r + of_nat k) (process_frame S W f)) (enumerate 0 fs)),
       r\<lparr>sr_acc := acc, sr_sequence := sr_sequence r + of_nat (length fs)\<rparr>))"
proof -
  obtain fs acc where f: "feed S (concat (map (\<lambda>c. case c of None \<Rightarrow> [] | Some bs \<Rightarrow> bs) cs)) (sr_acc r) = (fs, acc)"
    by force
  from read_bytes_stream [OF f, of W] show ?thesis by (simp add: reader_run_concat stream_actions_def f)
qed

text \<open>
  C10. Frames of any length get through the USB endpoint: writing always ends, never panics, and
  whatever the endpoint does, the packets it took are a prefix of the frame in order, the whole
  frame when the write succeeds, each packet shorter than the endpoint's packet size, so that each
  ends its transfer.
\<close>

theorem frames_reach_the_host:
  assumes "2 \<le> max_packet E" and "write_all (recorded_ep E) buf ([], e) = (r, (qs, e'))"
  shows "r \<noteq> WritePanic \<and> prefix (concat qs) buf \<and> (r = Written \<longrightarrow> concat qs = buf)
    \<and> (\<forall>q \<in> set qs. q \<noteq> [] \<and> length q < max_packet E)"
  using write_all_recorded [OF assms] by auto

definition good_endpoint :: "unit endpoint" where
  "good_endpoint = \<lparr>write_packet = (\<lambda>p e. (True, e)), read_packet_ep = (\<lambda>e. (None, e)), max_packet = 64\<rparr>"

theorem frames_reach_the_host_witness:
  "\<exists>r qs. write_all (recorded_ep good_endpoint) (replicate 64 7) ([], ()) = (r, (qs, ()))
     \<and> r \<noteq> WritePanic \<and> prefix (concat qs) (replicate 64 7)"
proof -
  obtain r qs e where w: "write_all (recorded_ep good_endpoint) (replicate 64 7) ([], ()) = (r, (qs, e))"
    by (metis prod_cases3)
  have "2 \<le> max_packet good_endpoint" by (simp add: good_endpoint_def)
  from frames_reach_the_host [OF this w] w show ?thesis by auto
qed


text \<open>
  A link for the witness: real stuffing, and an accumulator with a buffer of 512 bytes that drops
  frames that do not fit.
\<close>

definition take_byte :: "u8 \<Rightarrow> bytes \<Rightarrow> bytes option \<times> bytes" where
  "take_byte b acc =
     (if b = 0 then (if length acc < 512 then Some (acc @ [0]) else None, [])
      else (None, if length acc < 512 then acc @ [b] else acc))"

definition sample_link :: "bytes serial_lib" where
  "sample_link =
     \<lparr>acc_new = [], acc_push = take_byte, cobs_decode = cobs_read, wt_parse_command = (\<lambda>raw. Inl StInvalidCommand),
      wt_encode_response = (\<lambda>r. []), error_raw = (\<lambda>s i. TxComplete)\<rparr>"

lemma take_byte_feed:
  "acc_push S = take_byte \<Longrightarrow> 0 \<notin> set body \<Longrightarrow> length acc + length body < 512 \<Longrightarrow>
   feed S (body @ [0]) acc = ([acc @ body @ [0]], [])"
  by (induction body arbitrary: acc) (auto simp: take_byte_def)

lemma cobs_frame_fed:
  assumes "acc_push S = take_byte" "acc_new S = []" "fits_frame cobs_wire raw"
  shows "feed S (cobs_frame raw) (acc_new S) = ([cobs_frame raw], acc_new S)"
proof -
  obtain body where b: "cobs_frame raw = body @ [0]" "0 \<notin> set body" using cobs_framed by blast
  then have "length body < 512" using cobs_frame_fits [OF assms(3)] by simp
  then show ?thesis using take_byte_feed [OF assms(1) b(2), of "[]"] b(1) assms(2) by simp
qed

lemma sample_link_wire_ok: "wire_ok cobs_wire (cobs_decode sample_link)"
  using cobs_wire_ok by (simp add: sample_link_def)

lemma sample_link_ok: "link_ok sample_link cobs_wire"
  using cobs_frame_fed [of sample_link] by (simp add: link_ok_def) (simp add: sample_link_def cobs_wire_def)


end
