(* ===== verification/Udp_Protocol.thy ===== *)
theory Udp_Protocol imports Rust_Format begin

text \<open>
  The Semtech UDP packet-forwarder protocol (\<open>src/gateway/udp_protocol.rs\<close>): the datagrams the
  gateway builds and the ones it parses. Base64, the JSON deserialiser and the conversion of the
  frequency from floating-point MHz come from other crates and the hardware: they are the fields of
  \<open>gw_lib\<close>, a parameter. The lemmas show that every datagram fits its buffer, so that it is the
  header followed by complete JSON.
\<close>

subsection \<open>Data\<close>

definition PROTOCOL_VERSION :: u8 where "PROTOCOL_VERSION = 2"

definition PUSH_DATA :: u8 where "PUSH_DATA = 0x00"
definition PUSH_ACK :: u8 where "PUSH_ACK = 0x01"
definition PULL_DATA :: u8 where "PULL_DATA = 0x02"
definition PULL_RESP :: u8 where "PULL_RESP = 0x03"
definition PULL_ACK :: u8 where "PULL_ACK = 0x04"
definition TX_ACK :: u8 where "TX_ACK = 0x05"

lemmas packet_ids = PUSH_DATA_def PUSH_ACK_def PULL_DATA_def PULL_RESP_def PULL_ACK_def TX_ACK_def

definition PUSH_BUF :: nat where "PUSH_BUF = 600"
definition ACK_BUF :: nat where "ACK_BUF = 64"

record rx_meta =
  tmst :: u32
  rx_freq_hz :: u32
  rx_spreading_factor :: u8
  rx_bandwidth_khz :: u32
  rx_coding_rate :: u8
  meta_rssi :: i16
  meta_snr :: i8

record stat_counters =
  rxnb :: u32
  rxok :: u32
  rxfw :: u32
  push_acked :: u32
  push_sent :: u32
  dwnb :: u32
  txnb :: u32

definition default_counters :: stat_counters where
  "default_counters = \<lparr>rxnb = 0, rxok = 0, rxfw = 0, push_acked = 0, push_sent = 0, dwnb = 0, txnb = 0\<rparr>"

datatype tx_ack_error = AckNone | TooLate | TooEarly | CollisionPacket | TxFreq | DutyCycleOverflow

fun tx_ack_str :: "tx_ack_error \<Rightarrow> rtext" where
  "tx_ack_str AckNone = lit ''NONE''"
| "tx_ack_str TooLate = lit ''TOO_LATE''"
| "tx_ack_str TooEarly = lit ''TOO_EARLY''"
| "tx_ack_str CollisionPacket = lit ''COLLISION_PACKET''"
| "tx_ack_str TxFreq = lit ''TX_FREQ''"
| "tx_ack_str DutyCycleOverflow = lit ''DUTY_CYCLE_OVERFLOW''"

datatype proto_error = Malformed | BadTxpk

datatype downstream = PushAck u16 | PullAck u16 | PullResp u16 bytes

record tx_packet =
  tx_immediate :: bool
  tx_tmst :: "u32 option"
  tx_freq_hz :: u32
  tx_power :: i8
  tx_spreading_factor :: u8
  tx_bandwidth_khz :: u32
  tx_coding_rate :: u8
  tx_iq_inverted :: bool
  tx_preamble :: u16
  tx_payload :: bytes

text \<open>The fields of a \<open>txpk\<close> object as the deserialiser delivers them; the frequency is a float.\<close>

record 'fl txpk =
  imme :: bool
  txpk_tmst :: "u32 option"
  freq :: 'fl
  powe :: "i8 option"
  modu :: rtext
  datr :: rtext
  codr :: "rtext option"
  ipol :: bool
  prea :: "u16 option"
  txpk_data :: rtext

text \<open>
  \<open>b64_decode n s\<close> decodes into a buffer of \<open>n\<close> bytes; \<open>to_hz f\<close> is \<open>(f * 1000000.0 + 0.5) as u32\<close>.
\<close>

record 'fl gw_lib =
  b64_encode :: "bytes \<Rightarrow> rtext"
  b64_decode :: "nat \<Rightarrow> rtext \<Rightarrow> bytes option"
  txpk_from_slice :: "bytes \<Rightarrow> 'fl txpk option"
  to_hz :: "'fl \<Rightarrow> u32"

subsection \<open>The slice writer\<close>

text \<open>
  A writer over a buffer of \<open>cap\<close> bytes is the list of bytes written so far. Raw bytes are cut at
  the end of the buffer; text that does not fit is refused as a whole, which ends the formatted
  write it belongs to.
\<close>

definition push_bytes :: "nat \<Rightarrow> bytes \<Rightarrow> bytes \<Rightarrow> bytes" where
  "push_bytes cap w bs = w @ take (min (length w + length bs) cap - length w) bs"

definition write_str :: "nat \<Rightarrow> bytes \<Rightarrow> rtext \<Rightarrow> bytes option" where
  "write_str cap w s = (if cap < length w + length s then None else Some (push_bytes cap w s))"

fun write_pieces :: "nat \<Rightarrow> bytes \<Rightarrow> rtext list \<Rightarrow> bytes" where
  "write_pieces cap w [] = w"
| "write_pieces cap w (s # ss) =
     (case write_str cap w s of None \<Rightarrow> w | Some w' \<Rightarrow> write_pieces cap w' ss)"

lemma push_bytes_fits [simp]: "length w + length bs \<le> cap \<Longrightarrow> push_bytes cap w bs = w @ bs"
  by (simp add: push_bytes_def)

lemma write_pieces_fits:
  "length w + length (concat ss) \<le> cap \<Longrightarrow> write_pieces cap w ss = w @ concat ss"
  by (induction ss arbitrary: w) (auto simp: write_str_def)

lemma length_write_pieces: "length w \<le> cap \<Longrightarrow> length (write_pieces cap w ss) \<le> cap"
  by (induction ss arbitrary: w) (auto simp: write_str_def)

subsection \<open>Building datagrams\<close>

definition gw_header :: "nat \<Rightarrow> u16 \<Rightarrow> u8 \<Rightarrow> bytes option \<Rightarrow> bytes" where
  "gw_header cap token i eui =
     (let w = push_bytes cap [] [PROTOCOL_VERSION];
          w = push_bytes cap w (to_be16 token);
          w = push_bytes cap w [i]
      in case eui of None \<Rightarrow> w | Some e \<Rightarrow> push_bytes cap w e)"

text \<open>The base64 text of a payload, empty when it does not fit the 352-byte scratch buffer.\<close>

definition b64_text :: "'fl gw_lib \<Rightarrow> bytes \<Rightarrow> rtext" where
  "b64_text L payload =
     (let e = b64_encode L payload in if length e \<le> 352 \<and> utf8_ok e then e else [])"

definition rxpk_pieces :: "'fl gw_lib \<Rightarrow> rx_meta \<Rightarrow> bytes \<Rightarrow> rtext list" where
  "rxpk_pieces L m payload =
     [lit ''{\"rxpk\":[{\"tmst\":'', dec (unat (tmst m)),
      lit '',\"chan\":0,\"rfch\":0,\"freq\":'', dec (unat (rx_freq_hz m div 1000000)), lit ''.'',
      dec_padded 6 (unat (rx_freq_hz m mod 1000000)),
      lit '',\"stat\":1,\"modu\":\"LORA\",\"datr\":\"SF'', dec (unat (rx_spreading_factor m)),
      lit ''BW'', dec (unat (rx_bandwidth_khz m)), lit ''\",\"codr\":\"4/'', dec (unat (rx_coding_rate m)),
      lit ''\",\"rssi\":'', dec_int (sint (meta_rssi m)), lit '',\"lsnr\":'', dec_int (sint (meta_snr m)),
      lit '',\"size\":'', dec (length payload), lit '',\"data\":\"'', b64_text L payload, lit ''\"}]}'']"

definition build_push_data_rxpk :: "'fl gw_lib \<Rightarrow> nat \<Rightarrow> u16 \<Rightarrow> bytes \<Rightarrow> rx_meta \<Rightarrow> bytes \<Rightarrow> bytes" where
  "build_push_data_rxpk L cap token eui m payload =
     write_pieces cap (gw_header cap token PUSH_DATA (Some eui)) (rxpk_pieces L m payload)"

definition ackr_tenths :: "stat_counters \<Rightarrow> u32" where
  "ackr_tenths s =
     (if push_sent s = 0 then 1000
      else ucast ((ucast (push_acked s) :: u64) * 1000 div ucast (push_sent s)))"

definition stat_pieces :: "stat_counters \<Rightarrow> rtext list" where
  "stat_pieces s =
     [lit ''{\"stat\":{\"rxnb\":'', dec (unat (rxnb s)), lit '',\"rxok\":'', dec (unat (rxok s)),
      lit '',\"rxfw\":'', dec (unat (rxfw s)), lit '',\"ackr\":'', dec (unat (ackr_tenths s div 10)), lit ''.'',
      dec (unat (ackr_tenths s mod 10)), lit '',\"dwnb\":'', dec (unat (dwnb s)),
      lit '',\"txnb\":'', dec (unat (txnb s)), lit ''}}'']"

definition build_push_data_stat :: "nat \<Rightarrow> u16 \<Rightarrow> bytes \<Rightarrow> stat_counters \<Rightarrow> bytes" where
  "build_push_data_stat cap token eui s =
     write_pieces cap (gw_header cap token PUSH_DATA (Some eui)) (stat_pieces s)"

definition build_pull_data :: "nat \<Rightarrow> u16 \<Rightarrow> bytes \<Rightarrow> bytes" where
  "build_pull_data cap token eui = gw_header cap token PULL_DATA (Some eui)"

definition tx_ack_pieces :: "tx_ack_error \<Rightarrow> rtext list" where
  "tx_ack_pieces e = [lit ''{\"txpk_ack\":{\"error\":\"'', tx_ack_str e, lit ''\"}}'']"

definition build_tx_ack :: "nat \<Rightarrow> u16 \<Rightarrow> bytes \<Rightarrow> tx_ack_error \<Rightarrow> bytes" where
  "build_tx_ack cap token eui e =
     write_pieces cap (gw_header cap token TX_ACK (Some eui)) (tx_ack_pieces e)"

subsection \<open>Parsing datagrams\<close>

definition parse_datagram :: "bytes \<Rightarrow> proto_error + downstream" where
  "parse_datagram d =
     (if length d < 4 \<or> d ! 0 \<noteq> PROTOCOL_VERSION then Inl Malformed
      else let token = from_be16 (d ! 1) (d ! 2)
           in if d ! 3 = PUSH_ACK then Inr (PushAck token)
              else if d ! 3 = PULL_ACK then Inr (PullAck token)
              else if d ! 3 = PULL_RESP then Inr (PullResp token (drop 4 d))
              else Inl Malformed)"

definition strip_prefix :: "rtext \<Rightarrow> rtext \<Rightarrow> rtext option" where
  "strip_prefix p s = (if take (length p) s = p then Some (drop (length p) s) else None)"

fun find_str :: "rtext \<Rightarrow> rtext \<Rightarrow> nat option" where
  "find_str p [] = (if p = [] then Some 0 else None)"
| "find_str p (b # s) =
     (if take (length p) (b # s) = p then Some 0 else map_option Suc (find_str p s))"

definition parse_datr :: "rtext \<Rightarrow> (u8 \<times> u32) option" where
  "parse_datr s =
     Option.bind (strip_prefix (lit ''SF'') s) (\<lambda>rest.
       Option.bind (find_str (lit ''BW'') rest) (\<lambda>bw_at.
         Option.bind (parse_uint 255 (take bw_at rest)) (\<lambda>sf.
           Option.bind (parse_uint 4294967295 (drop (bw_at + 2) rest)) (\<lambda>bw.
             if 5 \<le> sf \<and> sf \<le> 12 then Some (of_nat sf, of_nat bw) else None))))"

text \<open>The digit after the slash of a coding rate such as \<open>4/5LI\<close>, else 5.\<close>

definition coding_rate_of :: "rtext option \<Rightarrow> u8" where
  "coding_rate_of c =
     (case c of None \<Rightarrow> 5
      | Some s \<Rightarrow> if length s < 3 then 5
                  else let cr = s ! 2 - 0x30 in if 5 \<le> cr \<and> cr \<le> 8 then cr else 5)"

definition parse_txpk :: "'fl gw_lib \<Rightarrow> bytes \<Rightarrow> proto_error + tx_packet" where
  "parse_txpk L json =
     rbind (ok_or (txpk_from_slice L json) BadTxpk) (\<lambda>t.
       if modu t \<noteq> lit ''LORA'' then Inl BadTxpk
       else rbind (ok_or (parse_datr (datr t)) BadTxpk) (\<lambda>(sf, bw).
         rbind (ok_or (b64_decode L 256 (txpk_data t)) BadTxpk) (\<lambda>payload.
           if payload = [] then Inl BadTxpk
           else Inr \<lparr>tx_immediate = imme t, tx_tmst = txpk_tmst t, tx_freq_hz = to_hz L (freq t),
                     tx_power = (case powe t of None \<Rightarrow> 14 | Some p \<Rightarrow> p),
                     tx_spreading_factor = sf, tx_bandwidth_khz = bw,
                     tx_coding_rate = coding_rate_of (codr t), tx_iq_inverted = ipol t,
                     tx_preamble = (case prea t of None \<Rightarrow> 8 | Some p \<Rightarrow> p), tx_payload = payload\<rparr>)))"

subsection \<open>Everything fits\<close>

lemma gw_header_fits:
  "12 \<le> cap \<Longrightarrow> length eui = 8 \<Longrightarrow>
   gw_header cap token i (Some eui) = [PROTOCOL_VERSION] @ to_be16 token @ [i] @ eui"
  by (simp add: gw_header_def Let_def)

lemma length_tx_ack_str: "length (tx_ack_str e) \<le> 19"
  by (cases e) simp_all

lemma tx_ack_complete:
  assumes "length eui = 8" "56 \<le> cap"
  shows "build_tx_ack cap token eui e
    = [PROTOCOL_VERSION] @ to_be16 token @ [TX_ACK] @ eui @ concat (tx_ack_pieces e)"
proof -
  have "length (concat (tx_ack_pieces e)) \<le> 44" using length_tx_ack_str [of e] by (simp add: tx_ack_pieces_def)
  then show ?thesis using assms by (simp add: build_tx_ack_def gw_header_fits write_pieces_fits)
qed

lemma freq_parts:
  "length (dec (unat ((f :: u32) div 1000000))) \<le> 4" "length (dec_padded 6 (unat (f mod 1000000))) = 6"
proof -
  have "unat f div 1000000 < 10000" using unat_lt2p [of f] by (simp add: less_mult_imp_div_less)
  then show "length (dec (unat (f div 1000000))) \<le> 4" by (intro length_dec) (simp_all add: unat_div)
  show "length (dec_padded 6 (unat (f mod 1000000))) = 6"
    by (rule length_dec_padded) (simp_all add: unat_mod)
qed

lemma b64_text_bound: "length (b64_text L p) \<le> 352"
  by (simp add: b64_text_def Let_def)

lemma rxpk_length:
  assumes "length payload < 1000"
  shows "length (concat (rxpk_pieces L m payload)) \<le> 531"
proof -
  have "length (dec (length payload)) \<le> 3" using assms by (intro length_dec) simp_all
  moreover note freq_parts [of "rx_freq_hz m"] number_lengths(1) [of "rx_spreading_factor m"]
    number_lengths(1) [of "rx_coding_rate m"] number_lengths(2) [of "tmst m"]
    number_lengths(2) [of "rx_bandwidth_khz m"] number_lengths(4) [of "meta_rssi m"]
    number_lengths(5) [of "meta_snr m"] b64_text_bound [of L payload]
  ultimately show ?thesis by (simp add: rxpk_pieces_def)
qed

lemma stat_length: "length (concat (stat_pieces s)) \<le> 160"
  using number_lengths(2) [of "rxnb s"] number_lengths(2) [of "rxok s"] number_lengths(2) [of "rxfw s"]
    number_lengths(2) [of "dwnb s"] number_lengths(2) [of "txnb s"] number_lengths(2) [of "ackr_tenths s div 10"]
    number_lengths(2) [of "ackr_tenths s mod 10"]
  by (simp add: stat_pieces_def)

subsection \<open>Data rates\<close>

lemma find_str_digits:
  assumes "\<forall>b \<in> set xs. is_digit b"
  shows "find_str (lit ''BW'') (xs @ lit ''BW'' @ ys) = Some (length xs)"
  using assms
proof (induction xs)
  case (Cons x xs)
  then have "x \<noteq> 0x42" by (auto simp: is_digit_def)
  with Cons show ?case by simp
qed simp

lemma parse_datr_inv:
  assumes "parse_datr s = Some (sf, bw)"
  shows "5 \<le> sf \<and> sf \<le> 12"
proof -
  obtain n m where "sf = of_nat n" "5 \<le> n" "n \<le> 12"
    using assms by (auto simp: parse_datr_def Option.bind_eq_Some_conv split: if_splits)
  then show ?thesis by (simp add: word_le_nat_alt unat_of_nat)
qed

lemma coding_rate_range: "5 \<le> coding_rate_of c \<and> coding_rate_of c \<le> 8"
  by (simp add: coding_rate_of_def Let_def split: option.split)

lemma push_data_complete:
  assumes "length eui = 8" "length payload < 1000"
  shows "build_push_data_rxpk L PUSH_BUF token eui m payload
    = [PROTOCOL_VERSION] @ to_be16 token @ [PUSH_DATA] @ eui @ concat (rxpk_pieces L m payload)"
  using assms rxpk_length [of payload L m]
  by (simp add: build_push_data_rxpk_def gw_header_fits write_pieces_fits PUSH_BUF_def)

lemma stat_complete:
  assumes "length eui = 8"
  shows "build_push_data_stat PUSH_BUF token eui s
    = [PROTOCOL_VERSION] @ to_be16 token @ [PUSH_DATA] @ eui @ concat (stat_pieces s)"
  using assms stat_length [of s]
  by (simp add: build_push_data_stat_def gw_header_fits write_pieces_fits PUSH_BUF_def)

lemma sub_digit: "is_digit b \<Longrightarrow> b \<noteq> 0x42"
  by (auto simp: is_digit_def)

lemma parse_datagram_iff:
  "parse_datagram d = Inr x \<longleftrightarrow>
     (\<exists>token rest. (x = PushAck token \<and> d = [PROTOCOL_VERSION] @ to_be16 token @ [PUSH_ACK] @ rest)
        \<or> (x = PullAck token \<and> d = [PROTOCOL_VERSION] @ to_be16 token @ [PULL_ACK] @ rest)
        \<or> (x = PullResp token rest \<and> d = [PROTOCOL_VERSION] @ to_be16 token @ [PULL_RESP] @ rest))"
  (is "_ \<longleftrightarrow> ?R")
proof
  assume a: "parse_datagram d = Inr x"
  then have "4 \<le> length d" by (auto simp: parse_datagram_def split: if_splits)
  then obtain v a1 a2 i rest where d: "d = v # a1 # a2 # i # rest"
    by (auto simp: Suc_le_length_iff numeral_eq_Suc)
  have "to_be16 (from_be16 a1 a2) = [a1, a2]" by (rule to_be16_from_be16)
  then show ?R using a unfolding d parse_datagram_def
    by (intro exI [of _ "from_be16 a1 a2"] exI [of _ rest])
      (auto simp: Let_def split: if_splits)
next
  assume ?R
  then show "parse_datagram d = Inr x"
    by (auto simp: parse_datagram_def to_be16_def from_be16_to_be16 packet_ids)
qed

subsection \<open>The properties\<close>

text \<open>
  No datagram is ever cut short: with the buffers the tasks use, every uplink of up to 999 bytes
  (the radio delivers at most 255), every statistics report and every acknowledgement is the
  12-byte header followed by its complete JSON text, whatever the metadata and the counters.
\<close>

theorem datagrams_are_complete:
  assumes "length eui = 8" and "length payload < 1000"
  shows "build_push_data_rxpk L PUSH_BUF token eui m payload
      = [PROTOCOL_VERSION] @ to_be16 token @ [PUSH_DATA] @ eui @ concat (rxpk_pieces L m payload)
    \<and> build_push_data_stat PUSH_BUF token eui s
      = [PROTOCOL_VERSION] @ to_be16 token @ [PUSH_DATA] @ eui @ concat (stat_pieces s)
    \<and> build_pull_data PUSH_BUF token eui = [PROTOCOL_VERSION] @ to_be16 token @ [PULL_DATA] @ eui
    \<and> build_tx_ack ACK_BUF token eui e
      = [PROTOCOL_VERSION] @ to_be16 token @ [TX_ACK] @ eui @ concat (tx_ack_pieces e)"
  using push_data_complete [OF assms] stat_complete [OF assms(1)] tx_ack_complete [OF assms(1)]
    gw_header_fits [of PUSH_BUF eui] assms(1)
  by (simp add: build_pull_data_def PUSH_BUF_def ACK_BUF_def)

theorem datagrams_are_complete_witness:
  "build_tx_ack ACK_BUF 3 [0x24, 0x6F, 0x28, 0xFF, 0xFE, 0xAA, 0xBB, 0xCC] DutyCycleOverflow
     = [0x02, 0x00, 0x03, 0x05, 0x24, 0x6F, 0x28, 0xFF, 0xFE, 0xAA, 0xBB, 0xCC]
       @ lit ''{\"txpk_ack\":{\"error\":\"DUTY_CYCLE_OVERFLOW\"}}''"
proof -
  let ?eui = "[0x24, 0x6F, 0x28, 0xFF, 0xFE, 0xAA, 0xBB, 0xCC] :: bytes"
  have "length ?eui = 8" "length ([] :: bytes) < 1000" by simp_all
  from datagrams_are_complete [OF this, of _ 3 _ default_counters DutyCycleOverflow,
      THEN conjunct2, THEN conjunct2, THEN conjunct2]
  have "build_tx_ack ACK_BUF 3 ?eui DutyCycleOverflow
      = [PROTOCOL_VERSION] @ to_be16 3 @ [TX_ACK] @ ?eui @ concat (tx_ack_pieces DutyCycleOverflow)"
    .
  then show ?thesis
    by (simp add: PROTOCOL_VERSION_def packet_ids tx_ack_pieces_def to_be16_def drop_bit_eq_div)
qed

text \<open>
  The gateway accepts exactly the three downstream datagrams of the protocol version 2, with the
  token in network byte order, and hands on everything after the header of a downlink as its JSON.
\<close>

theorem parse_datagram_accepts_exactly:
  "parse_datagram d = Inr x \<longleftrightarrow>
     (\<exists>token rest. (x = PushAck token \<and> d = [PROTOCOL_VERSION] @ to_be16 token @ [PUSH_ACK] @ rest)
        \<or> (x = PullAck token \<and> d = [PROTOCOL_VERSION] @ to_be16 token @ [PULL_ACK] @ rest)
        \<or> (x = PullResp token rest \<and> d = [PROTOCOL_VERSION] @ to_be16 token @ [PULL_RESP] @ rest))"
  by (rule parse_datagram_iff)

lemma data_rate_text:
  assumes "5 \<le> sf" "sf \<le> 12"
  shows "parse_datr (lit ''SF'' @ dec (unat sf) @ lit ''BW'' @ dec (unat bw)) = Some (sf, bw)"
proof -
  have sf: "5 \<le> unat sf" "unat sf \<le> 12" using assms by (simp_all add: word_le_nat_alt)
  have "unat bw \<le> 4294967295" using unat_lt2p [of bw] by simp
  then have b: "parse_uint 4294967295 (dec (unat bw)) = Some (unat bw)" by (rule parse_uint_dec)
  have a: "parse_uint 255 (dec (unat sf)) = Some (unat sf)" using sf by (intro parse_uint_dec) simp
  have f: "find_str (lit ''BW'') (dec (unat sf) @ lit ''BW'' @ dec (unat bw)) = Some (length (dec (unat sf)))"
    by (rule find_str_digits) (auto dest: dec_digits)
  have p: "strip_prefix (lit ''SF'') (lit ''SF'' @ xs) = Some xs" for xs by (simp add: strip_prefix_def)
  show ?thesis unfolding parse_datr_def p Option.bind.bind_lunit f using a b sf by simp
qed

text \<open>
  A data rate survives the text form the server sends it in: every spreading factor from 5 to 12
  with every bandwidth parses back from \<open>SF<sf>BW<bw>\<close>, and no text yields a spreading factor
  outside that range.
\<close>

theorem data_rate_round_trip:
  assumes "5 \<le> sf" and "sf \<le> 12" and "parse_datr s = Some (sf', bw')"
  shows "parse_datr (lit ''SF'' @ dec (unat sf) @ lit ''BW'' @ dec (unat bw)) = Some (sf, bw)
    \<and> 5 \<le> sf' \<and> sf' \<le> 12"
  using data_rate_text [OF assms(1,2)] parse_datr_inv [OF assms(3)] by simp

theorem data_rate_round_trip_witness:
  "parse_datr (lit ''SF12BW125'') = Some (12, 125)"
proof -
  have s: "parse_datr (lit ''SF7BW125'') = Some (7, 125)"
    by (simp add: parse_datr_def strip_prefix_def parse_uint_def strip_plus_def is_digit_def)
  have "lit ''SF'' @ dec (unat (12 :: u8)) @ lit ''BW'' @ dec (unat (125 :: u32)) = lit ''SF12BW125''"
    by (simp add: dec.simps)
  then show ?thesis using data_rate_round_trip [of 12 _ _ _ 125, OF _ _ s] by simp
qed

end
