(* ===== verification/Scheduler.thy ===== *)
theory Scheduler imports Prelude begin

text \<open>
  Downlink timing over the wrapping 32-bit microsecond counter (\<open>src/gateway/scheduler.rs\<close>),
  related to the true time: for two instants less than half a wrap apart the computed distance is
  the true one, on either side of a wrap.
\<close>

definition SETUP_LEAD_US :: u32 where "SETUP_LEAD_US = 20000"
definition TX_START_COMP_US :: u32 where "TX_START_COMP_US = 450"
definition MAX_AHEAD_US :: int where "MAX_AHEAD_US = 30000000"

text \<open>The signed distance; the \<open>i32\<close> is its integer value.\<close>

definition tmst_delta_us :: "u32 \<Rightarrow> u32 \<Rightarrow> int" where
  "tmst_delta_us now target = sint (target - now)"

datatype classification = Immediate | At u32 | ClassTooLate | ClassTooEarly

definition classify :: "u32 \<Rightarrow> bool \<Rightarrow> u32 option \<Rightarrow> classification" where
  "classify now immediate target_tmst =
     (if immediate then Immediate
      else case target_tmst of
          None \<Rightarrow> ClassTooLate
        | Some target \<Rightarrow>
            let delta = tmst_delta_us now target
            in if delta < sint SETUP_LEAD_US then ClassTooLate
               else if MAX_AHEAD_US < delta then ClassTooEarly
               else At (word_of_int delta))"

text \<open>The counter at a true time in microseconds.\<close>

definition tmst_at :: "int \<Rightarrow> u32" where
  "tmst_at t = word_of_int t"

lemma sint_fits: "- (2 ^ 31) \<le> d \<Longrightarrow> d < 2 ^ 31 \<Longrightarrow> sint (word_of_int d :: u32) = d"
  by (simp add: signed_of_int signed_take_bit_int_eq_self)

lemma uint_fits: "0 \<le> d \<Longrightarrow> d < 2 ^ 32 \<Longrightarrow> uint (word_of_int d :: u32) = d"
  by (simp add: unsigned_of_int take_bit_int_eq_self)

lemma tmst_delta_true:
  assumes "- (2 ^ 31) \<le> t' - t" "t' - t < 2 ^ 31"
  shows "tmst_delta_us (tmst_at t) (tmst_at t') = t' - t"
proof -
  have "tmst_at t' - tmst_at t = word_of_int (t' - t)" by (simp add: tmst_at_def)
  then show ?thesis unfolding tmst_delta_us_def by (simp only: sint_fits [OF assms])
qed

text \<open>
  Scheduling is exact across counter wraps: for any true times less than 2^31 microseconds
  apart, a timed downlink is scheduled exactly when its target is between 20 ms and 30 s ahead and
  then for exactly the true distance; closer or past targets are too late, further ones too early,
  an immediate downlink is always sent now and one with neither is never sent.
\<close>

theorem classify_exact:
  assumes "- (2 ^ 31) \<le> t' - t" and "t' - t < 2 ^ 31"
  shows "classify (tmst_at t) False (Some (tmst_at t')) =
      (if t' - t < 20000 then ClassTooLate else if 30000000 < t' - t then ClassTooEarly
       else At (word_of_int (t' - t)))
    \<and> (t' - t \<le> 30000000 \<longrightarrow> 20000 \<le> t' - t \<longrightarrow> uint (word_of_int (t' - t) :: u32) = t' - t)
    \<and> classify (tmst_at t) True x = Immediate \<and> classify (tmst_at t) False None = ClassTooLate"
proof -
  have "sint SETUP_LEAD_US = 20000" by (simp add: SETUP_LEAD_US_def)
  then show ?thesis using tmst_delta_true [OF assms] uint_fits [of "t' - t"]
    by (simp add: classify_def MAX_AHEAD_US_def Let_def del: of_int_diff)
qed

theorem classify_exact_witness:
  "classify (tmst_at 4294867295) False (Some (tmst_at 4296867295)) = At 2000000"
  using classify_exact [of 4296867295 4294867295] by simp

lemma classify_target:
  assumes "classify now imm target = c"
  shows "(c = Immediate \<longrightarrow> imm) \<and> (\<forall>d. c = At d \<longrightarrow> \<not> imm \<and>
    (\<exists>t. target = Some t \<and> 20000 \<le> tmst_delta_us now t \<and> tmst_delta_us now t \<le> 30000000))"
proof -
  have "sint SETUP_LEAD_US = 20000" by (simp add: SETUP_LEAD_US_def)
  then show ?thesis using assms
    by (auto simp: classify_def MAX_AHEAD_US_def Let_def split: if_splits option.splits)
qed

end
