(* ===== verification/Forwarder.thy ===== *)
theory Forwarder imports Airtime Duty_Cycle Lora_Traits Net_State Linear_Map Udp_Protocol Scheduler begin

text \<open>
  The packet-forwarder state machine (\<open>src/gateway/forwarder.rs\<close>): tokens, counters, acknowledgements
  and the acceptance policy for downlinks, with one duty-cycle budget per sub-band kept in a
  bounded map. A log of the accepted downlinks (sub-band, time, airtime) states what the policy
  guarantees.
\<close>

subsection \<open>State\<close>

definition MAX_TX_POWER_DBM :: i8 where "MAX_TX_POWER_DBM = 22"
definition MAX_BANDS :: nat where "MAX_BANDS = 4"

record downlink_job =
  job_target_tmst :: "u32 option"
  job_config :: lora_config
  job_payload :: bytes

datatype datagram_outcome = NoOutcome | Reply bytes | Accepted downlink_job u16

record forwarder =
  fw_eui :: bytes
  fw_token :: u16
  fw_stats :: stat_counters
  fw_duty :: "(u8, duty_limiter) linear_map"

definition new_forwarder :: "bytes \<Rightarrow> forwarder" where
  "new_forwarder mac =
     \<lparr>fw_eui = gateway_eui mac, fw_token = from_be16 (mac ! 4) (mac ! 5), fw_stats = default_counters,
      fw_duty = []\<rparr>"

definition next_token :: "forwarder \<Rightarrow> u16 \<times> forwarder" where
  "next_token fw = (let fw = fw\<lparr>fw_token := fw_token fw + 1\<rparr> in (fw_token fw, fw))"

subsection \<open>Upstream\<close>

definition on_uplink :: "'fl gw_lib \<Rightarrow> nat \<Rightarrow> rx_meta \<Rightarrow> bytes \<Rightarrow> forwarder \<Rightarrow> bytes \<times> forwarder" where
  "on_uplink L cap m payload fw =
     (let s = fw_stats fw;
          s = s\<lparr>rxnb := rxnb s + 1, rxok := rxok s + 1, rxfw := rxfw s + 1, push_sent := push_sent s + 1\<rparr>;
          (token, fw) = next_token (fw\<lparr>fw_stats := s\<rparr>)
      in (build_push_data_rxpk L cap token (fw_eui fw) m payload, fw))"

definition on_keepalive :: "nat \<Rightarrow> forwarder \<Rightarrow> bytes \<times> forwarder" where
  "on_keepalive cap fw =
     (let (token, fw) = next_token fw in (build_pull_data cap token (fw_eui fw), fw))"

definition on_stat :: "nat \<Rightarrow> forwarder \<Rightarrow> bytes \<times> forwarder" where
  "on_stat cap fw =
     (let s = fw_stats fw;
          (token, fw) = next_token (fw\<lparr>fw_stats := s\<lparr>push_sent := push_sent s + 1\<rparr>\<rparr>)
      in (build_push_data_stat cap token (fw_eui fw) (fw_stats fw), fw))"

definition tx_ack :: "nat \<Rightarrow> u16 \<Rightarrow> tx_ack_error \<Rightarrow> forwarder \<Rightarrow> bytes \<times> forwarder" where
  "tx_ack cap token e fw =
     (let s = fw_stats fw;
          fw = (if e = AckNone then fw\<lparr>fw_stats := s\<lparr>txnb := txnb s + 1\<rparr>\<rparr> else fw)
      in (build_tx_ack cap token (fw_eui fw) e, fw))"

subsection \<open>The acceptance policy\<close>

definition clamp_power :: "i8 \<Rightarrow> i8" where
  "clamp_power p = (if sint p \<le> sint MAX_TX_POWER_DBM then p else MAX_TX_POWER_DBM)"

definition downlink_config :: "tx_packet \<Rightarrow> lora_config" where
  "downlink_config p =
     \<lparr>frequency_hz = tx_freq_hz p, spreading_factor = tx_spreading_factor p,
      bandwidth_khz = tx_bandwidth_khz p, coding_rate = tx_coding_rate p,
      tx_power_dbm = clamp_power (tx_power p), config_sync_word = Public,
      iq_inverted = tx_iq_inverted p, crc_on = False, preamble_len = tx_preamble p\<rparr>"

text \<open>The airtime a downlink is charged with.\<close>

definition downlink_airtime :: "tx_packet \<Rightarrow> u32" where
  "downlink_airtime p =
     time_on_air_ms_ext (tx_spreading_factor p) (tx_bandwidth_khz p) (tx_coding_rate p)
       (length (tx_payload p)) (tx_preamble p) False"

text \<open>The claim against the budget of the sub-band, creating the budget when there is room for it.\<close>

definition claim_band :: "u32 \<Rightarrow> u64 \<Rightarrow> u32 \<Rightarrow> (u8, duty_limiter) linear_map \<Rightarrow> bool \<times> (u8, duty_limiter) linear_map" where
  "claim_band freq_hz now_ms airtime duty =
     (let band = eu_band_key freq_hz;
          duty = (if lm_get duty band = None then lm_insert MAX_BANDS band (for_frequency freq_hz) duty else duty)
      in case lm_get duty band of
           None \<Rightarrow> (True, duty)
         | Some d \<Rightarrow> let (r, d') = try_claim d now_ms airtime
                     in (is_ok r, lm_replace band d' duty))"

definition accept :: "u32 \<Rightarrow> u64 \<Rightarrow> tx_packet \<Rightarrow> forwarder \<Rightarrow> (tx_ack_error + downlink_job) \<times> forwarder" where
  "accept now_us now_ms p fw =
     (if \<not> (863000000 \<le> tx_freq_hz p \<and> tx_freq_hz p \<le> 870000000) then (Inl TxFreq, fw)
      else case (case classify now_us (tx_immediate p) (tx_tmst p) of
             Immediate \<Rightarrow> Inr None | At delta_us \<Rightarrow> Inr (tx_tmst p)
           | ClassTooLate \<Rightarrow> Inl TooLate | ClassTooEarly \<Rightarrow> Inl TooEarly) of
          Inl e \<Rightarrow> (Inl e, fw)
        | Inr target_tmst \<Rightarrow>
            let (granted, duty) = claim_band (tx_freq_hz p) now_ms (downlink_airtime p) (fw_duty fw);
                fw = fw\<lparr>fw_duty := duty\<rparr>
            in if \<not> granted then (Inl DutyCycleOverflow, fw)
               else (Inr \<lparr>job_target_tmst = target_tmst, job_config = downlink_config p,
                          job_payload = push_cap 256 [] (tx_payload p)\<rparr>, fw))"

definition on_datagram ::
  "'fl gw_lib \<Rightarrow> u32 \<Rightarrow> u64 \<Rightarrow> nat \<Rightarrow> bytes \<Rightarrow> forwarder \<Rightarrow> datagram_outcome \<times> forwarder" where
  "on_datagram L now_us now_ms ack_cap d fw =
     (case parse_datagram d of
        Inl _ \<Rightarrow> (NoOutcome, fw)
      | Inr (PushAck token) \<Rightarrow>
          (NoOutcome, fw\<lparr>fw_stats := (fw_stats fw)\<lparr>push_acked := push_acked (fw_stats fw) + 1\<rparr>\<rparr>)
      | Inr (PullAck token) \<Rightarrow> (NoOutcome, fw)
      | Inr (PullResp token json) \<Rightarrow>
          let fw = fw\<lparr>fw_stats := (fw_stats fw)\<lparr>dwnb := dwnb (fw_stats fw) + 1\<rparr>\<rparr>
          in case parse_txpk L json of
               Inl _ \<Rightarrow> (NoOutcome, fw)
             | Inr p \<Rightarrow>
                 let (r, fw) = accept now_us now_ms p fw
                 in case r of
                      Inr job \<Rightarrow> (Accepted job token, fw)
                    | Inl e \<Rightarrow> (Reply (build_tx_ack ack_cap token (fw_eui fw) e), fw))"

subsection \<open>The budgets\<close>

text \<open>The hourly allowance of the sub-bands between 863 and 870 MHz, by key.\<close>

definition band_allowance :: "u8 \<Rightarrow> u32" where
  "band_allowance b =
     (if b = 4 then 360000 else if b = 2 \<or> b = 5 then 36000 else 3600)"

lemma band_of_downlink:
  assumes "863000000 \<le> f" "f \<le> (870000000 :: u32)"
  shows "eu_band_key f \<in> {2, 3, 4, 5, 6} \<and> allowance_ms (for_frequency f) = Some (band_allowance (eu_band_key f))"
  using assms
  by (auto simp: eu_band_key_def eu_duty_cycle_permille_def in_band_def for_frequency_def band_allowance_def
      word_le_nat_alt word_less_nat_alt)

text \<open>
  Everything the gateway can be asked to do, and the log of accepted downlinks: sub-band, time and
  airtime of the job as the radio will send it.
\<close>

datatype fw_event =
    EvDatagram u32 u64 bytes
  | EvUplink rx_meta bytes
  | EvKeepalive
  | EvStat
  | EvTxAck u16 tx_ack_error

type_synonym band_log = "(u8 \<times> nat \<times> nat) list"

definition job_airtime :: "downlink_job \<Rightarrow> u32" where
  "job_airtime j =
     (let c = job_config j
      in time_on_air_ms_ext (spreading_factor c) (bandwidth_khz c) (coding_rate c)
           (length (job_payload j)) (preamble_len c) (crc_on c))"

definition log_of :: "datagram_outcome \<Rightarrow> u64 \<Rightarrow> band_log" where
  "log_of r now_ms =
     (case r of Accepted j token \<Rightarrow> [(eu_band_key (frequency_hz (job_config j)), unat now_ms, unat (job_airtime j))]
      | _ \<Rightarrow> [])"

fun fw_step :: "'fl gw_lib \<Rightarrow> fw_event \<Rightarrow> forwarder \<Rightarrow> band_log \<times> forwarder" where
  "fw_step L (EvDatagram now_us now_ms d) fw =
     (let (r, fw) = on_datagram L now_us now_ms ACK_BUF d fw in (log_of r now_ms, fw))"
| "fw_step L (EvUplink m p) fw = ([], snd (on_uplink L PUSH_BUF m p fw))"
| "fw_step L EvKeepalive fw = ([], snd (on_keepalive PUSH_BUF fw))"
| "fw_step L EvStat fw = ([], snd (on_stat PUSH_BUF fw))"
| "fw_step L (EvTxAck token e) fw = ([], snd (tx_ack ACK_BUF token e fw))"

fun fw_run :: "'fl gw_lib \<Rightarrow> fw_event list \<Rightarrow> forwarder \<Rightarrow> band_log \<times> forwarder" where
  "fw_run L [] fw = ([], fw)"
| "fw_run L (e # es) fw =
     (let (l, fw) = fw_step L e fw; (ls, fw) = fw_run L es fw in (l @ ls, fw))"

definition in_band_log :: "u8 \<Rightarrow> band_log \<Rightarrow> (nat \<times> nat) list" where
  "in_band_log b log = map snd (filter (\<lambda>e. fst e = b) log)"

definition duty_inv :: "u64 \<Rightarrow> (u8, duty_limiter) linear_map \<Rightarrow> band_log \<Rightarrow> bool" where
  "duty_inv now duty log \<longleftrightarrow> lm_ok MAX_BANDS duty
     \<and> (\<forall>b d. lm_get duty b = Some d \<longrightarrow> log_inv d (band_allowance b) (in_band_log b log) \<and> head_start_ms d \<le> now)
     \<and> (\<forall>b. lm_get duty b = None \<longrightarrow> in_band_log b log = [] \<or> length duty = MAX_BANDS)"

lemma duty_invI:
  assumes "lm_ok MAX_BANDS duty"
    and "\<And>b d. lm_get duty b = Some d \<Longrightarrow> log_inv d (band_allowance b) (in_band_log b log) \<and> head_start_ms d \<le> now"
    and "\<And>b. lm_get duty b = None \<Longrightarrow> in_band_log b log = [] \<or> length duty = MAX_BANDS"
  shows "duty_inv now duty log"
  using assms unfolding duty_inv_def by blast

lemma duty_invD:
  assumes "duty_inv now duty log"
  shows "lm_ok MAX_BANDS duty"
    and "lm_get duty b = Some d \<Longrightarrow> log_inv d (band_allowance b) (in_band_log b log) \<and> head_start_ms d \<le> now"
    and "lm_get duty b = None \<Longrightarrow> in_band_log b log = [] \<or> length duty = MAX_BANDS"
  using assms unfolding duty_inv_def by blast+

lemma duty_inv_mono: "duty_inv now duty log \<Longrightarrow> now \<le> now' \<Longrightarrow> duty_inv now' duty log"
  by (rule duty_invI) (auto dest: duty_invD intro: order_trans)

text \<open>Base64 never decodes to more than its output buffer.\<close>

definition lib_ok :: "'fl gw_lib \<Rightarrow> bool" where
  "lib_ok L \<longleftrightarrow> (\<forall>n s p. b64_decode L n s = Some p \<longrightarrow> length p \<le> n)"

lemma in_band_log_append [simp]: "in_band_log b (xs @ ys) = in_band_log b xs @ in_band_log b ys"
  by (simp add: in_band_log_def)

lemma in_band_log_Nil [simp]: "in_band_log b [] = []"
  by (simp add: in_band_log_def)

lemma in_band_log_single [simp]: "in_band_log b [(b', e)] = (if b' = b then [e] else [])"
  by (simp add: in_band_log_def)

lemma parse_txpk_payload:
  assumes "lib_ok L" "parse_txpk L json = Inr p"
  shows "length (tx_payload p) \<le> 256 \<and> tx_payload p \<noteq> []"
proof -
  obtain s where "b64_decode L 256 s = Some (tx_payload p)" "tx_payload p \<noteq> []"
    using assms(2) by (auto simp: parse_txpk_def result_iff split: if_splits)
  then show ?thesis using assms(1) unfolding lib_ok_def by blast
qed

text \<open>
  Making room for a budget, and one claim: granted claims are logged, a tracked band stays within
  its allowance.
\<close>

lemma fresh_start [simp]: "head_start_ms (for_frequency f) = 0"
  by (simp add: for_frequency_def)

lemma track_band_inv:
  assumes f: "863000000 \<le> f" "f \<le> 870000000" and inv: "duty_inv now duty log"
    and none: "lm_get duty (eu_band_key f) = None"
  shows "duty_inv now (lm_insert MAX_BANDS (eu_band_key f) (for_frequency f) duty) log"
proof (cases "length duty < MAX_BANDS")
  case False
  then show ?thesis using inv none by (simp add: lm.put_full)
next
  case True
  let ?b = "eu_band_key f"
  have get: "lm_get (lm_insert MAX_BANDS ?b (for_frequency f) duty) b = (if b = ?b then Some (for_frequency f) else lm_get duty b)" for b
    using True none by (simp add: lm.get_put)
  have empty: "lm_get duty b = None \<Longrightarrow> in_band_log b log = []" for b
    using duty_invD(3) [OF inv, of b] True by auto
  have "allowance_ms (for_frequency f) = Some (band_allowance ?b)" using band_of_downlink [OF f] by simp
  then have new: "log_inv (for_frequency f) (band_allowance ?b) (in_band_log ?b log)"
    using log_inv_fresh empty [OF none] by simp
  show ?thesis
  proof (rule duty_invI)
    show "lm_ok MAX_BANDS (lm_insert MAX_BANDS ?b (for_frequency f) duty)"
      using duty_invD(1) [OF inv] by (rule lm.ok_put)
    show "log_inv d (band_allowance b) (in_band_log b log) \<and> head_start_ms d \<le> now"
      if "lm_get (lm_insert MAX_BANDS ?b (for_frequency f) duty) b = Some d" for b d
      using that new duty_invD(2) [OF inv, of b d] by (auto simp: get split: if_splits)
    show "in_band_log b log = [] \<or> length (lm_insert MAX_BANDS ?b (for_frequency f) duty) = MAX_BANDS"
      if "lm_get (lm_insert MAX_BANDS ?b (for_frequency f) duty) b = None" for b
      using that empty [of b] by (auto simp: get split: if_splits)
  qed
qed

lemma charge_band_inv:
  assumes inv: "duty_inv now duty log" and d: "lm_get duty b = Some d" and t: "try_claim d now a = (r, d')"
  shows "duty_inv now (lm_replace b d' duty) (log @ (if is_ok r then [(b, unat now, unat a)] else []))"
proof (rule duty_invI)
  have get: "lm_get (lm_replace b d' duty) b' = (if b' = b then Some d' else lm_get duty b')" for b'
    using d by (simp add: lm_get_replace)
  note D = duty_invD(2) [OF inv d]
  note step = log_inv_claim [OF conjunct1 [OF D] conjunct2 [OF D] t]
  show "lm_ok MAX_BANDS (lm_replace b d' duty)" using duty_invD(1) [OF inv] by (simp add: lm_ok_def)
  show "log_inv d'' (band_allowance b') (in_band_log b' (log @ (if is_ok r then [(b, unat now, unat a)] else [])))
      \<and> head_start_ms d'' \<le> now" if "lm_get (lm_replace b d' duty) b' = Some d''" for b' d''
    using that step duty_invD(2) [OF inv, of b' d''] by (auto simp: get split: if_splits)
  show "in_band_log b' (log @ (if is_ok r then [(b, unat now, unat a)] else [])) = []
      \<or> length (lm_replace b d' duty) = MAX_BANDS" if "lm_get (lm_replace b d' duty) b' = None" for b'
    using that duty_invD(3) [OF inv, of b'] by (auto simp: get split: if_splits)
qed

lemma claim_band_inv:
  assumes f: "863000000 \<le> f" "f \<le> 870000000"
    and inv: "duty_inv now duty log" and c: "claim_band f now a duty = (g, duty')"
  shows "duty_inv now duty' (log @ (if g then [(eu_band_key f, unat now, unat a)] else []))"
proof -
  let ?b = "eu_band_key f"
  define duty1 where "duty1 = (if lm_get duty ?b = None then lm_insert MAX_BANDS ?b (for_frequency f) duty else duty)"
  have mid: "duty_inv now duty1 log"
    using track_band_inv [OF f inv] inv by (simp add: duty1_def)
  show ?thesis
  proof (cases "lm_get duty1 ?b")
    case None
    have full: "length duty1 = MAX_BANDS"
    proof (rule ccontr)
      assume "length duty1 \<noteq> MAX_BANDS"
      with None show False
        using lm.bounded [OF duty_invD(1) [OF inv]]
        by (auto simp: duty1_def lm.get_put lm.size_put split: if_splits)
    qed
    have "g" "duty' = duty1" using c None by (simp_all add: claim_band_def Let_def duty1_def [symmetric])
    moreover have "duty_inv now duty1 (log @ [(?b, unat now, unat a)])"
    proof (rule duty_invI)
      show "log_inv d (band_allowance b) (in_band_log b (log @ [(?b, unat now, unat a)])) \<and> head_start_ms d \<le> now"
        if "lm_get duty1 b = Some d" for b d
        using that None duty_invD(2) [OF mid that] by auto
    qed (use duty_invD(1) [OF mid] full in simp_all)
    ultimately show ?thesis by simp
  next
    case (Some d)
    obtain r d' where t: "try_claim d now a = (r, d')" by force
    have "g = is_ok r" "duty' = lm_replace ?b d' duty1"
      using c Some t by (simp_all add: claim_band_def Let_def duty1_def [symmetric])
    then show ?thesis using charge_band_inv [OF mid Some t] by simp
  qed
qed

text \<open>An accepted downlink is logged with the band and airtime of the job.\<close>

lemma accept_cases:
  assumes "accept now_us now_ms p fw = (r, fw')"
  obtains (refused) e where "r = Inl e" "fw' = fw" "e \<noteq> DutyCycleOverflow"
  | (claimed) g duty target where "863000000 \<le> tx_freq_hz p" "tx_freq_hz p \<le> 870000000"
      "claim_band (tx_freq_hz p) now_ms (downlink_airtime p) (fw_duty fw) = (g, duty)"
      "fw' = fw\<lparr>fw_duty := duty\<rparr>"
      "classify now_us (tx_immediate p) (tx_tmst p) = Immediate \<and> target = None
       \<or> (\<exists>d. classify now_us (tx_immediate p) (tx_tmst p) = At d) \<and> target = tx_tmst p"
      "r = (if g then Inr \<lparr>job_target_tmst = target, job_config = downlink_config p,
              job_payload = push_cap 256 [] (tx_payload p)\<rparr> else Inl DutyCycleOverflow)"
proof (cases "863000000 \<le> tx_freq_hz p \<and> tx_freq_hz p \<le> 870000000")
  case False
  then show ?thesis using assms refused [of TxFreq] by (auto simp: accept_def)
next
  case f: True
  obtain g duty where c: "claim_band (tx_freq_hz p) now_ms (downlink_airtime p) (fw_duty fw) = (g, duty)" by force
  show ?thesis
  proof (cases "classify now_us (tx_immediate p) (tx_tmst p)")
    case Immediate
    then show ?thesis using assms f c by (intro claimed [of g duty None]) (auto simp: accept_def Let_def split: if_splits)
  next
    case (At d)
    then show ?thesis using assms f c by (intro claimed [of g duty "tx_tmst p"]) (auto simp: accept_def Let_def split: if_splits)
  next
    case ClassTooLate
    then show ?thesis using assms f by (intro refused) (auto simp: accept_def)
  next
    case ClassTooEarly
    then show ?thesis using assms f by (intro refused) (auto simp: accept_def)
  qed
qed

lemma job_airtime_charged:
  "length (tx_payload p) \<le> 256 \<Longrightarrow>
   job_airtime \<lparr>job_target_tmst = t, job_config = downlink_config p, job_payload = push_cap 256 [] (tx_payload p)\<rparr>
     = downlink_airtime p"
  by (simp add: job_airtime_def downlink_config_def downlink_airtime_def)

lemma step_inv:
  assumes L: "lib_ok L" and inv: "duty_inv now (fw_duty fw) log"
    and now: "case e of EvDatagram us ms d \<Rightarrow> now \<le> ms \<and> ms = now' | _ \<Rightarrow> now' = now"
    and s: "fw_step L e fw = (l, fw')"
  shows "duty_inv now' (fw_duty fw') (log @ l)"
proof (cases e)
  case (EvDatagram us ms d)
  have both: "now \<le> ms \<and> ms = now'" using now unfolding EvDatagram fw_event.case .
  have ms: "ms = now'" by (rule conjunct2 [OF both])
  have le: "now \<le> now'" by (rule subst [OF ms, of "\<lambda>x. now \<le> x"]) (rule conjunct1 [OF both])
  obtain r where o: "on_datagram L us now' ACK_BUF d fw = (r, fw')" and l: "l = log_of r now'"
    using s EvDatagram ms by (auto simp: Let_def split: prod.splits)
  note inv' = duty_inv_mono [OF inv le]
  show ?thesis
  proof (cases "\<exists>token json p. parse_datagram d = Inr (PullResp token json) \<and> parse_txpk L json = Inr p")
    case False
    then have "fw_duty fw' = fw_duty fw \<and> l = []"
      using o l by (auto simp: on_datagram_def log_of_def Let_def split: sum.splits downstream.splits)
    with inv' show ?thesis by simp
  next
    case True
    then obtain token json p where p: "parse_datagram d = Inr (PullResp token json)" "parse_txpk L json = Inr p" by blast
    let ?fw = "fw\<lparr>fw_stats := (fw_stats fw)\<lparr>dwnb := dwnb (fw_stats fw) + 1\<rparr>\<rparr>"
    obtain r' where a: "accept us now' p ?fw = (r', fw')"
      and r: "r = (case r' of Inr job \<Rightarrow> Accepted job token | Inl e \<Rightarrow> Reply (build_tx_ack ACK_BUF token (fw_eui fw') e))"
      using o p by (auto simp: on_datagram_def Let_def split: prod.splits sum.splits)
    have pay: "length (tx_payload p) \<le> 256" using parse_txpk_payload [OF L p(2)] by simp
    from a show ?thesis
    proof (cases rule: accept_cases)
      case (refused e)
      then show ?thesis using inv' l r by (simp add: log_of_def)
    next
      case (claimed g duty target)
      have "l = (if g then [(eu_band_key (tx_freq_hz p), unat now', unat (downlink_airtime p))] else [])"
        using l r claimed(6) job_airtime_charged [OF pay]
        by (auto simp: log_of_def) (simp_all add: downlink_config_def)
      then show ?thesis
        using claim_band_inv [OF claimed(1,2) inv'] claimed(3,4) by simp
    qed
  qed
qed (use inv s now in \<open>auto simp: on_uplink_def on_keepalive_def on_stat_def tx_ack_def next_token_def Let_def\<close>)

text \<open>The clock of the datagrams never runs backwards.\<close>

fun monotone_from :: "u64 \<Rightarrow> fw_event list \<Rightarrow> bool" where
  "monotone_from now [] = True"
| "monotone_from now (EvDatagram us ms d # es) = (now \<le> ms \<and> monotone_from ms es)"
| "monotone_from now (_ # es) = monotone_from now es"

lemma run_inv:
  "\<lbrakk>lib_ok L; duty_inv now (fw_duty fw) log; monotone_from now es; fw_run L es fw = (l, fw')\<rbrakk>
   \<Longrightarrow> \<exists>now'. duty_inv now' (fw_duty fw') (log @ l)"
proof (induction es arbitrary: now fw log l)
  case (Cons e es)
  obtain l1 fw1 where s: "fw_step L e fw = (l1, fw1)" by force
  obtain l2 where r: "fw_run L es fw1 = (l2, fw')" and l: "l = l1 @ l2"
    using Cons.prems(4) s by (auto simp: Let_def split: prod.splits)
  let ?now = "case e of EvDatagram us ms d \<Rightarrow> ms | _ \<Rightarrow> now"
  have "monotone_from ?now es" using Cons.prems(3) by (cases e) simp_all
  moreover have "duty_inv ?now (fw_duty fw1) (log @ l1)"
    using Cons.prems(3) by (intro step_inv [OF Cons.prems(1,2) _ s]) (cases e; simp)
  ultimately show ?case using Cons.IH [OF Cons.prems(1) _ _ r] l by fastforce
qed auto

lemma new_forwarder_inv: "duty_inv 0 (fw_duty (new_forwarder mac)) []"
  by (rule duty_invI) (simp_all add: new_forwarder_def lm_ok_def)

text \<open>A small library for the witnesses: every text decodes to one byte, one fixed request.\<close>

definition sample_txpk :: "u32 \<Rightarrow> u32 txpk" where
  "sample_txpk f = \<lparr>imme = True, txpk_tmst = None, freq = f, powe = Some 27, modu = lit ''LORA'',
     datr = lit ''SF12BW125'', codr = Some (lit ''4/5''), ipol = True, prea = None, txpk_data = lit ''AQI=''\<rparr>"

definition sample_lib :: "u32 gw_lib" where
  "sample_lib = \<lparr>b64_encode = (\<lambda>bs. bs), b64_decode = (\<lambda>n s. if n = 0 then None else Some [1]),
     txpk_from_slice = (\<lambda>j. Some (sample_txpk 868100000)), to_hz = (\<lambda>f. f)\<rparr>"

lemma sample_lib_ok: "lib_ok sample_lib"
  by (auto simp: lib_ok_def sample_lib_def split: if_splits)

definition sample_packet :: tx_packet where
  "sample_packet = \<lparr>tx_immediate = True, tx_tmst = None, tx_freq_hz = 868100000, tx_power = 27,
     tx_spreading_factor = 12, tx_bandwidth_khz = 125, tx_coding_rate = 5, tx_iq_inverted = True,
     tx_preamble = 8, tx_payload = [1]\<rparr>"

lemma sample_parse: "parse_txpk sample_lib json = Inr sample_packet"
  by (simp add: parse_txpk_def sample_lib_def sample_txpk_def sample_packet_def parse_datr_def strip_prefix_def
      parse_uint_def strip_plus_def is_digit_def coding_rate_of_def)

definition sample_downlink :: bytes where
  "sample_downlink = [0x02, 0x00, 0x2A, 0x03]"

lemma sample_parse_datagram: "parse_datagram sample_downlink = Inr (PullResp 42 [])"
  by (simp add: parse_datagram_def sample_downlink_def PROTOCOL_VERSION_def packet_ids from_be16_def)

text \<open>An accepted downlink is legal and the one that was asked for.\<close>

lemma accepted_legal:
  assumes "lib_ok L" and "on_datagram L now_us now_ms cap d fw = (Accepted job token, fw')"
  shows "863000000 \<le> frequency_hz (job_config job) \<and> frequency_hz (job_config job) \<le> 870000000
    \<and> sint (tx_power_dbm (job_config job)) \<le> 22
    \<and> config_sync_word (job_config job) = Public \<and> \<not> crc_on (job_config job)
    \<and> 5 \<le> spreading_factor (job_config job) \<and> spreading_factor (job_config job) \<le> 12
    \<and> 5 \<le> coding_rate (job_config job) \<and> coding_rate (job_config job) \<le> 8
    \<and> job_payload job \<noteq> [] \<and> length (job_payload job) \<le> 256
    \<and> (case job_target_tmst job of None \<Rightarrow> True
       | Some t \<Rightarrow> 20000 \<le> tmst_delta_us now_us t \<and> tmst_delta_us now_us t \<le> 30000000)
    \<and> (\<exists>json p. d = [Udp_Protocol.PROTOCOL_VERSION] @ to_be16 token @ [PULL_RESP] @ json
         \<and> parse_txpk L json = Inr p \<and> job_payload job = tx_payload p \<and> frequency_hz (job_config job) = tx_freq_hz p)"
proof -
  obtain json p where d: "parse_datagram d = Inr (PullResp token json)" and p: "parse_txpk L json = Inr p"
    and a: "accept now_us now_ms p (fw\<lparr>fw_stats := (fw_stats fw)\<lparr>dwnb := dwnb (fw_stats fw) + 1\<rparr>\<rparr>) = (Inr job, fw')"
    using assms(2)
    by (auto simp: on_datagram_def Let_def split: sum.splits downstream.splits prod.splits)
  have "(\<exists>x. parse_datr x = Some (tx_spreading_factor p, tx_bandwidth_khz p))
      \<and> (\<exists>c. tx_coding_rate p = coding_rate_of c)"
    using p by (auto simp: parse_txpk_def result_iff split: if_splits)
  then obtain x where x: "parse_datr x = Some (tx_spreading_factor p, tx_bandwidth_khz p)"
    and cr: "\<exists>c. tx_coding_rate p = coding_rate_of c" by blast
  have pay: "length (tx_payload p) \<le> 256" "tx_payload p \<noteq> []" using parse_txpk_payload [OF assms(1) p] by simp_all
  from a show ?thesis
  proof (cases rule: accept_cases)
    case (claimed g duty target)
    have j: "job = \<lparr>job_target_tmst = target, job_config = downlink_config p, job_payload = tx_payload p\<rparr>"
      using claimed(6) pay by (simp split: if_splits)
    have "sint (clamp_power (tx_power p)) \<le> 22" by (simp add: clamp_power_def MAX_TX_POWER_DBM_def)
    moreover have "case target of None \<Rightarrow> True
       | Some t \<Rightarrow> 20000 \<le> tmst_delta_us now_us t \<and> tmst_delta_us now_us t \<le> 30000000"
      using claimed(5) classify_target [OF refl, of now_us "tx_immediate p" "tx_tmst p"] by (auto split: option.split)
    moreover have "d = [Udp_Protocol.PROTOCOL_VERSION] @ to_be16 token @ [PULL_RESP] @ json"
      using d unfolding parse_datagram_iff by auto
    ultimately show ?thesis
      using claimed(1,2) parse_datr_inv [OF x] cr coding_rate_range pay p
      by (auto simp: j downlink_config_def)
  qed simp
qed

subsection \<open>The properties\<close>

text \<open>
  C21. The downlinks the gateway accepts keep the duty cycle of their sub-band: from a fresh
  forwarder, for any sequence of datagrams, uplinks, keepalives, reports and acknowledgements with
  a clock that does not run backwards, the airtime accepted in a tracked sub-band within any 59
  minutes is at most the allowance of that band, and a sub-band with accepted downlinks is tracked unless four
  others already are.
\<close>

theorem downlinks_keep_the_duty_cycle:
  assumes "lib_ok L" and "monotone_from 0 es" and "fw_run L es (new_forwarder mac) = (log, fw)"
  shows "(lm_get (fw_duty fw) b \<noteq> None \<longrightarrow>
      granted_within x (x + 3540000) (in_band_log b log) \<le> unat (band_allowance b))
    \<and> (lm_get (fw_duty fw) b = None \<longrightarrow> in_band_log b log \<noteq> [] \<longrightarrow> length (fw_duty fw) = 4)"
proof -
  obtain now where "duty_inv now (fw_duty fw) log"
    using run_inv [OF assms(1) new_forwarder_inv assms(2,3)] by auto
  from duty_invD(2) [OF this, of b] duty_invD(3) [OF this, of b] show ?thesis
    by (auto simp: MAX_BANDS_def dest: log_inv_bound)
qed

theorem downlinks_keep_the_duty_cycle_witness:
  "\<exists>log fw. fw_run sample_lib [EvKeepalive, EvDatagram 0 5 sample_downlink] (new_forwarder [0, 0, 0, 0, 0, 7]) = (log, fw)
     \<and> (lm_get (fw_duty fw) 2 \<noteq> None \<longrightarrow> granted_within 0 3540000 (in_band_log 2 log) \<le> 36000)"
proof -
  obtain log fw where r: "fw_run sample_lib [EvKeepalive, EvDatagram 0 5 sample_downlink] (new_forwarder [0, 0, 0, 0, 0, 7]) = (log, fw)"
    by force
  have "monotone_from 0 [EvKeepalive, EvDatagram 0 5 sample_downlink]" by simp
  from downlinks_keep_the_duty_cycle [OF sample_lib_ok this r, of 2 0] r show ?thesis
    by (simp add: band_allowance_def)
qed

text \<open>
  The fifth sub-band has no limit: once four sub-bands are tracked, a downlink in the fifth is
  accepted whatever its airtime and however often it is repeated, and nothing is charged.
\<close>

theorem fifth_band_has_no_limit:
  assumes "length (fw_duty fw) = 4" and "lm_get (fw_duty fw) (eu_band_key (tx_freq_hz p)) = None"
    and "863000000 \<le> tx_freq_hz p" and "tx_freq_hz p \<le> 870000000" and "tx_immediate p"
  shows "\<exists>job. accept now_us now_ms p fw = (Inr job, fw) \<and> job_config job = downlink_config p"
  using assms
  by (simp add: accept_def classify_def claim_band_def lm_insert_def MAX_BANDS_def Let_def)

theorem fifth_band_has_no_limit_witness:
  "\<exists>fw. (\<forall>b \<in> {3, 4, 5, 6}. lm_get (fw_duty fw) b \<noteq> None) \<and>
     (\<exists>job. accept 0 0 sample_packet fw = (Inr job, fw) \<and> job_config job = downlink_config sample_packet)"
proof -
  let ?fw = "(new_forwarder [0, 0, 0, 0, 0, 0])\<lparr>fw_duty := [(3, for_frequency 869000000), (4, for_frequency 869525000),
    (5, for_frequency 869800000), (6, for_frequency 863500000)]\<rparr>"
  have k: "eu_band_key (tx_freq_hz sample_packet) = 2"
    by (simp add: sample_packet_def eu_band_key_def in_band_def)
  have "\<exists>job. accept 0 0 sample_packet ?fw = (Inr job, ?fw) \<and> job_config job = downlink_config sample_packet"
    using k by (intro fifth_band_has_no_limit) (simp_all add: sample_packet_def)
  then show ?thesis by (intro exI [of _ ?fw]) simp
qed

text \<open>
  A job does what a \<open>txpk\<close> object asks for: at its time stamp unless it is immediate, on its
  frequency, with its spreading factor and bandwidth (\<open>SF<sf>BW<bw>\<close>), coding rate (\<open>4/<cr>\<close>, 4/5
  when absent), IQ setting, preamble (8 when absent), power (14 dBm when absent, at most 22) and
  payload.
\<close>

definition asked_for :: "'fl gw_lib \<Rightarrow> 'fl txpk \<Rightarrow> downlink_job \<Rightarrow> bool" where
  "asked_for L t job \<longleftrightarrow>
     (let c = job_config job
      in job_target_tmst job = (if imme t then None else txpk_tmst t) \<and> (imme t \<or> txpk_tmst t \<noteq> None)
       \<and> frequency_hz c = to_hz L (freq t)
       \<and> parse_datr (datr t) = Some (spreading_factor c, bandwidth_khz c)
       \<and> (\<forall>sf bw. 5 \<le> sf \<longrightarrow> sf \<le> 12 \<longrightarrow> datr t = lit ''SF'' @ dec (unat sf) @ lit ''BW'' @ dec (unat bw) \<longrightarrow>
            spreading_factor c = sf \<and> bandwidth_khz c = bw)
       \<and> (codr t = None \<longrightarrow> coding_rate c = 5)
       \<and> (\<forall>cr rest. 5 \<le> cr \<longrightarrow> cr \<le> 8 \<longrightarrow> codr t = Some (lit ''4/'' @ [0x30 + cr] @ rest) \<longrightarrow> coding_rate c = cr)
       \<and> iq_inverted c = ipol t
       \<and> preamble_len c = (case prea t of None \<Rightarrow> 8 | Some p \<Rightarrow> p)
       \<and> sint (tx_power_dbm c) = min 22 (case powe t of None \<Rightarrow> 14 | Some p \<Rightarrow> sint p)
       \<and> b64_decode L 256 (txpk_data t) = Some (job_payload job))"

lemma coding_rate_text: "5 \<le> cr \<Longrightarrow> cr \<le> 8 \<Longrightarrow> coding_rate_of (Some (lit ''4/'' @ [0x30 + cr] @ rest)) = cr"
  by (simp add: coding_rate_of_def lit_def)

lemma accepted_asked:
  assumes "lib_ok L" and "on_datagram L now_us now_ms cap d fw = (Accepted job token, fw')"
  shows "\<exists>json t. d = [Udp_Protocol.PROTOCOL_VERSION] @ to_be16 token @ [PULL_RESP] @ json
    \<and> txpk_from_slice L json = Some t \<and> modu t = lit ''LORA'' \<and> asked_for L t job"
proof -
  obtain json p where d: "parse_datagram d = Inr (PullResp token json)" and p: "parse_txpk L json = Inr p"
    and a: "accept now_us now_ms p (fw\<lparr>fw_stats := (fw_stats fw)\<lparr>dwnb := dwnb (fw_stats fw) + 1\<rparr>\<rparr>) = (Inr job, fw')"
    using assms(2)
    by (auto simp: on_datagram_def Let_def split: sum.splits downstream.splits prod.splits)
  obtain t sf bw where t: "txpk_from_slice L json = Some t" "modu t = lit ''LORA''" "parse_datr (datr t) = Some (sf, bw)"
    "p = \<lparr>tx_immediate = imme t, tx_tmst = txpk_tmst t, tx_freq_hz = to_hz L (freq t),
       tx_power = (case powe t of None \<Rightarrow> 14 | Some p \<Rightarrow> p), tx_spreading_factor = sf, tx_bandwidth_khz = bw,
       tx_coding_rate = coding_rate_of (codr t), tx_iq_inverted = ipol t,
       tx_preamble = (case prea t of None \<Rightarrow> 8 | Some p \<Rightarrow> p), tx_payload = tx_payload p\<rparr>"
    "b64_decode L 256 (txpk_data t) = Some (tx_payload p)"
    using p by (auto simp: parse_txpk_def result_iff split: if_splits)
  have pay: "length (tx_payload p) \<le> 256" using parse_txpk_payload [OF assms(1) p] by simp
  from a show ?thesis
  proof (cases rule: accept_cases)
    case (claimed g duty target)
    have j: "job = \<lparr>job_target_tmst = target, job_config = downlink_config p, job_payload = tx_payload p\<rparr>"
      using claimed(6) pay by (simp split: if_splits)
    have p': "tx_immediate p = imme t" "tx_tmst p = txpk_tmst t" by (subst t(4), simp)+
    have timing: "target = (if imme t then None else txpk_tmst t) \<and> (imme t \<or> txpk_tmst t \<noteq> None)"
      using claimed(5) p' by (auto simp: classify_def Let_def split: if_splits option.splits)
    have power: "sint (clamp_power (case powe t of None \<Rightarrow> 14 | Some p \<Rightarrow> p)) = min 22 (case powe t of None \<Rightarrow> 14 | Some p \<Rightarrow> sint p)"
      by (auto simp: clamp_power_def MAX_TX_POWER_DBM_def split: option.split)
    have rate: "coding_rate_of None = 5" by (simp add: coding_rate_of_def)
    have c: "downlink_config p = \<lparr>frequency_hz = to_hz L (freq t), spreading_factor = sf, bandwidth_khz = bw,
        coding_rate = coding_rate_of (codr t), tx_power_dbm = clamp_power (case powe t of None \<Rightarrow> 14 | Some p \<Rightarrow> p),
        config_sync_word = Public, iq_inverted = ipol t, crc_on = False,
        preamble_len = (case prea t of None \<Rightarrow> 8 | Some p \<Rightarrow> p)\<rparr>"
      by (subst t(4)) (simp add: downlink_config_def)
    have "asked_for L t job"
      unfolding asked_for_def Let_def j c using timing power rate t(3,5) coding_rate_text
      by (auto simp: data_rate_text simp del: lit_Cons)
    moreover have "d = [Udp_Protocol.PROTOCOL_VERSION] @ to_be16 token @ [PULL_RESP] @ json"
      using d unfolding parse_datagram_iff by auto
    ultimately show ?thesis using t(1,2) by blast
  qed simp
qed



end
