(* ===== verification/Gateway_Task.thy ===== *)
theory Gateway_Task imports Forwarder Sx1262_Driver Hub_Config Board_Tasks begin

text \<open>
  The gateway radio task (\<open>src/tasks/gateway.rs\<close>): it owns the SX1262 driver, listens on the
  configured channel and sends the downlinks the UDP task queues, staged ahead and fired at their
  target time. The clock is the hardware's; an \<open>Instant\<close> is its count of microseconds. One turn of
  the loop touches each queue at most once, so turns of the two gateway tasks can be interleaved as
  whole steps. Debug output is left out.
\<close>

subsection \<open>The task\<close>

definition RX_POLL_INTERVAL_MS :: u32 where "RX_POLL_INTERVAL_MS = 500"
definition GW_UPLINK_CHANNEL_SIZE :: nat where "GW_UPLINK_CHANNEL_SIZE = 4"
definition GW_DOWNLINK_CHANNEL_SIZE :: nat where "GW_DOWNLINK_CHANNEL_SIZE = 2"

definition uplink_config :: "hub_config \<Rightarrow> lora_config" where
  "uplink_config c =
     default_lora_config
       \<lparr>frequency_hz := gw_frequency_hz (cfg_gateway c), spreading_factor := gw_spreading_factor (cfg_gateway c),
        bandwidth_khz := gw_bandwidth_khz (cfg_gateway c), coding_rate := gw_coding_rate (cfg_gateway c),
        config_sync_word := Public, iq_inverted := False, crc_on := True, preamble_len := 8\<rparr>"

record 'w gateway =
  gt_radio :: "'w driver"
  gt_pending :: "downlink_job option"
  gt_uplinks :: "(rx_meta \<times> bytes) list"
  gt_downlinks :: "downlink_job list"
  gt_leds :: "led_flash list"
  gt_stats :: hub_stats

text \<open>The radio is initialised and put on the uplink channel; a failure of either ends the task.\<close>

definition gateway_start :: "'w hal \<Rightarrow> hub_config \<Rightarrow> ('w, unit) io" where
  "gateway_start h c = seqE (driver_init h) (driver_configure h (uplink_config c))"

definition nowE :: "'w hal \<Rightarrow> ('w, u64) io" where
  "nowE h = getE (\<lambda>d. instant_now h (world d))"

text \<open>The sleep until staging starts; false when the window has passed already.\<close>

definition setup_wait :: "'w hal \<Rightarrow> u32 option \<Rightarrow> ('w, bool) io" where
  "setup_wait h target_tmst =
     (case target_tmst of
        None \<Rightarrow> returnE True
      | Some target \<Rightarrow> bindE (nowE h) (\<lambda>now.
          let delta = tmst_delta_us (ucast now) target
          in if delta < sint SETUP_LEAD_US then returnE False
             else seqE (delayE h (unat (word_of_int delta - SETUP_LEAD_US :: u32))) (returnE True)))"

text \<open>The wait for the instant itself, from the clock as it is after staging.\<close>

definition fire_wait :: "'w hal \<Rightarrow> u32 option \<Rightarrow> ('w, unit) io" where
  "fire_wait h target_tmst =
     (case target_tmst of
        None \<Rightarrow> returnE ()
      | Some target \<Rightarrow> bindE (nowE h) (\<lambda>now.
          let remaining = tmst_delta_us (ucast now) target
          in if sint TX_START_COMP_US < remaining
             then delayE h (unat (word_of_int remaining - TX_START_COMP_US :: u32)) else returnE ()))"

text \<open>The result is whether the downlink was sent: false when its window had passed.\<close>

definition execute_downlink :: "'w hal \<Rightarrow> downlink_job \<Rightarrow> ('w, bool) io" where
  "execute_downlink h job = bindE (setup_wait h (job_target_tmst job)) (\<lambda>in_time.
     if \<not> in_time then returnE False
     else seqE (driver_configure h (job_config job)) (seqE (prepare_tx h (job_payload job))
       (seqE (fire_wait h (job_target_tmst job)) (seqE (fire_tx h)
         (seqE (wait_tx_done h) (returnE True))))))"

text \<open>A received packet becomes an uplink with the metadata of the channel, or is counted as dropped.\<close>

definition forward_uplink :: "hub_config \<Rightarrow> u64 \<Rightarrow> rx_packet \<Rightarrow> ('w, 'z) gateway_scheme \<Rightarrow> ('w, 'z) gateway_scheme" where
  "forward_uplink c rx_instant p g =
     (let u = uplink_config c;
          m = \<lparr>tmst = ucast rx_instant, rx_freq_hz = frequency_hz u, rx_spreading_factor = spreading_factor u,
               rx_bandwidth_khz = bandwidth_khz u, rx_coding_rate = coding_rate u,
               meta_rssi = rx_rssi p, meta_snr = rx_snr p\<rparr>;
          g = g\<lparr>gt_leds := flash_led (gt_leds g), gt_stats := count_uplink (gt_stats g)\<rparr>
      in case try_send GW_UPLINK_CHANNEL_SIZE (m, rx_data p) (gt_uplinks g) of
           Some q \<Rightarrow> g\<lparr>gt_uplinks := q\<rparr>
         | None \<Rightarrow> g\<lparr>gt_stats := count_dropped 1 (gt_stats g)\<rparr>)"

definition downlink_sent :: "('w, 'z) gateway_scheme \<Rightarrow> ('w, 'z) gateway_scheme" where
  "downlink_sent g = g\<lparr>gt_leds := flash_led (gt_leds g), gt_stats := count_downlink (gt_stats g)\<rparr>"

text \<open>
  What the task waits for: the radio, or a queued job. When a job wins, the wait on the radio is
  abandoned after it may have taken time.
\<close>

datatype gateway_event = RadioWakes | JobArrives

definition gateway_listen :: "'w hal \<Rightarrow> hub_config \<Rightarrow> gateway_event \<Rightarrow> ('w, 'z) gateway_scheme \<Rightarrow> ('w, 'z) gateway_scheme" where
  "gateway_listen h c e g =
     (case e of
        RadioWakes \<Rightarrow>
          (case driver_wait_rx_event h RX_POLL_INTERVAL_MS (gt_radio g) of
             (Inl _, d) \<Rightarrow> g\<lparr>gt_radio := d\<rparr>
           | (Inr rx_instant, d) \<Rightarrow>
               (case driver_read_packet h d of
                  (Inl _, d) \<Rightarrow> g\<lparr>gt_radio := d\<rparr>
                | (Inr p, d) \<Rightarrow> forward_uplink c rx_instant p (g\<lparr>gt_radio := d\<rparr>)))
      | JobArrives \<Rightarrow>
          (case gt_downlinks g of
             [] \<Rightarrow> g
           | job # q \<Rightarrow>
               g\<lparr>gt_radio := snd (wait_dio1 h RX_POLL_INTERVAL_MS (gt_radio g)),
                 gt_downlinks := q, gt_pending := Some job\<rparr>))"

definition gateway_turn :: "'w hal \<Rightarrow> hub_config \<Rightarrow> gateway_event \<Rightarrow> ('w, 'z) gateway_scheme \<Rightarrow> ('w, 'z) gateway_scheme" where
  "gateway_turn h c e g =
     (case driver_arm_receive h (gt_radio g) of
        (Inl _, d) \<Rightarrow> g\<lparr>gt_radio := snd (delayE h 500000 d)\<rparr>
      | (Inr _, d) \<Rightarrow>
          (case gt_pending g of
             None \<Rightarrow> gateway_listen h c e (g\<lparr>gt_radio := d\<rparr>)
           | Some job \<Rightarrow>
               let (r, d) = execute_downlink h job d;
                   g = g\<lparr>gt_pending := None\<rparr>;
                   g = (if r = Inr True then downlink_sent g else g)
               in g\<lparr>gt_radio := snd (driver_configure h (uplink_config c) d)\<rparr>))"

subsection \<open>What the radio sends, and how\<close>

text \<open>
  Reading the frames the radio acknowledged: the modulation, the power and the packet parameters it
  was last given, and with every \<open>SetTx\<close> a transmission under them. \<open>job_shot\<close> is the transmission
  a job asks for.
\<close>

record shot =
  shot_freq :: bytes
  shot_modulation :: bytes
  shot_power :: bytes
  shot_packet :: bytes
  shot_payload :: bytes

record shot_state =
  ss_shot :: shot
  ss_out :: "shot list"

definition shot_step :: "bytes \<Rightarrow> shot_state \<Rightarrow> shot_state" where
  "shot_step bs s =
     (if bs = [] then s
      else if hd bs = SET_RF_FREQUENCY then s\<lparr>ss_shot := (ss_shot s)\<lparr>shot_freq := tl bs\<rparr>\<rparr>
      else if hd bs = SET_MODULATION_PARAMS then s\<lparr>ss_shot := (ss_shot s)\<lparr>shot_modulation := tl bs\<rparr>\<rparr>
      else if hd bs = SET_TX_PARAMS then s\<lparr>ss_shot := (ss_shot s)\<lparr>shot_power := tl bs\<rparr>\<rparr>
      else if hd bs = SET_PACKET_PARAMS then s\<lparr>ss_shot := (ss_shot s)\<lparr>shot_packet := tl bs\<rparr>\<rparr>
      else if hd bs = WRITE_BUFFER then s\<lparr>ss_shot := (ss_shot s)\<lparr>shot_payload := drop 2 bs\<rparr>\<rparr>
      else if hd bs = SET_TX then
        s\<lparr>ss_out := ss_out s @ [(ss_shot s)\<lparr>shot_payload :=
            take (unat (shot_packet (ss_shot s) ! 3)) (shot_payload (ss_shot s))\<rparr>]\<rparr>
      else s)"

definition shot_of :: "view \<Rightarrow> shot_state" where
  "shot_of v = fold shot_step (v_sent v)
     \<lparr>ss_shot = \<lparr>shot_freq = [], shot_modulation = [], shot_power = [], shot_packet = [0, 0, 0, 0], shot_payload = []\<rparr>,
      ss_out = []\<rparr>"

definition shots :: "view \<Rightarrow> shot list" where
  "shots v = ss_out (shot_of v)"

definition job_shot :: "downlink_job \<Rightarrow> shot" where
  "job_shot job =
     (let c = job_config job
      in \<lparr>shot_freq = freq_bytes (frequency_hz c), shot_modulation = modulation_bytes c,
          shot_power = [tx_power_byte (tx_power_dbm c), 0x04],
          shot_packet = packet_params (Some c) (of_nat (length (job_payload job))),
          shot_payload = job_payload job\<rparr>)"

lemma shot_of_simps [simp]:
  "shot_of (v\<lparr>v_nss := b\<rparr>) = shot_of v" "shot_of (v\<lparr>v_rx := b\<rparr>) = shot_of v"
  "shot_of (v\<lparr>v_init := b\<rparr>) = shot_of v" "shot_of (v\<lparr>v_config := co\<rparr>) = shot_of v"
  "shot_of (sent_frame bs v) = shot_step bs (shot_of v)"
  by (simp_all add: shot_of_def sent_frame_def)

lemma shot_of_sent: "v_sent v' = v_sent v @ fs \<Longrightarrow> shot_of v' = fold shot_step fs (shot_of v)"
  by (simp add: shot_of_def)

lemma quiet_step [simp]: "bs = [] \<or> hd bs \<noteq> SET_TX \<Longrightarrow> ss_out (shot_step bs s) = ss_out s"
  by (auto simp: shot_step_def)

definition quiet_frames :: "bytes list \<Rightarrow> bool" where
  "quiet_frames fs \<longleftrightarrow> (\<forall>bs \<in> set fs. bs = [] \<or> hd bs \<noteq> SET_TX)"

lemma quiet_fold: "quiet_frames fs \<Longrightarrow> ss_out (fold shot_step fs s) = ss_out s"
  by (induction fs arbitrary: s) (simp_all add: quiet_frames_def)

lemma quiet_take: "quiet_frames fs \<Longrightarrow> quiet_frames (take n fs)"
  by (auto simp: quiet_frames_def dest: in_set_takeD)

lemma quiet_prefix: "quiet_frames fs \<Longrightarrow> prefix gs fs \<Longrightarrow> quiet_frames gs"
  by (auto simp: quiet_frames_def dest: set_mono_prefix)

lemma quiet_configure: "quiet_frames (configure_frames c iq)"
  by (simp add: quiet_frames_def configure_frames_def reg_read_frame_def reg_write_frame_def opcodes)

lemma quiet_tx_frames: "quiet_frames (tx_frames co bs)"
  by (simp add: quiet_frames_def tx_frames_def opcodes)

lemma configured_shot:
  "ss_shot (fold shot_step (configure_frames c iq) s) = (ss_shot s)
     \<lparr>shot_freq := freq_bytes (frequency_hz c), shot_modulation := modulation_bytes c,
      shot_power := [tx_power_byte (tx_power_dbm c), 0x04]\<rparr>"
  by (simp add: configure_frames_def reg_read_frame_def reg_write_frame_def shot_step_def opcodes)

lemma staged_shot:
  "ss_shot (fold shot_step (tx_frames co bs) s) = (ss_shot s)
     \<lparr>shot_packet := packet_params co (of_nat (length bs)), shot_payload := bs\<rparr>"
  by (simp add: tx_frames_def shot_step_def opcodes)

text \<open>Configured and staged, the next \<open>SetTx\<close> is the transmission of the job.\<close>

lemma fired_shot:
  assumes "length (job_payload job) \<le> 255"
  shows "ss_out (shot_step fire_frame (fold shot_step (tx_frames (Some (job_config job)) (job_payload job))
      (fold shot_step (configure_frames (job_config job) iq) s))) = ss_out s @ [job_shot job]"
proof -
  have n: "unat (packet_params (Some (job_config job)) (of_nat (length (job_payload job))) ! 3) = length (job_payload job)"
    using assms by (simp add: packet_params_def unsigned_of_nat take_bit_nat_eq_self)
  show ?thesis
    by (simp add: shot_step_def fire_frame_def opcodes)
      (simp add: staged_shot configured_shot quiet_fold quiet_tx_frames quiet_configure n job_shot_def Let_def opcodes [symmetric])
qed

lemma shots_simps [simp]:
  "shots (v\<lparr>v_nss := b\<rparr>) = shots v" "shots (v\<lparr>v_rx := b\<rparr>) = shots v"
  "shots (v\<lparr>v_init := b\<rparr>) = shots v" "shots (v\<lparr>v_config := co\<rparr>) = shots v"
  "c \<noteq> SET_TX \<Longrightarrow> shots (sent_frame (c # bs) v) = shots v"
  by (simp_all add: shots_def)

lemma shots_init: "shots v = A \<Longrightarrow> wpv (driver_init (recording h)) (\<lambda>_ v'. shots v' = A) (\<lambda>_ v'. shots v' = A) v"
  unfolding trait_ops command_ops register_ops by (intro wp_rules) (simp_all add: opcodes)

lemma shots_configure:
  "shots v = A \<Longrightarrow> wpv (driver_configure (recording h) c) (\<lambda>_ v'. shots v' = A) (\<lambda>_ v'. shots v' = A) v"
  unfolding trait_ops command_ops register_ops by (intro wp_rules) (simp_all add: opcodes)

lemma shots_arm:
  "shots v = A \<Longrightarrow> wpv (driver_arm_receive (recording h)) (\<lambda>_ v'. shots v' = A) (\<lambda>_ v'. shots v' = A) v"
  unfolding trait_ops command_ops by (intro wp_rules) (simp_all add: opcodes)

lemma shots_read:
  "shots v = A \<Longrightarrow> wpv (driver_read_packet (recording h)) (\<lambda>_ v'. shots v' = A) (\<lambda>_ v'. shots v' = A) v"
  unfolding trait_ops command_ops case_prod_beta by (intro wp_rules) (simp_all add: opcodes)

lemma shots_wait:
  "shots v = A \<Longrightarrow> wpv (driver_wait_rx_event (recording h) t) (\<lambda>_ v'. shots v' = A) (\<lambda>_ v'. shots v' = A) v"
  unfolding trait_ops by (intro wp_rules) simp_all

lemma shots_dio1:
  "shots v = A \<Longrightarrow> wpv (wait_dio1 (recording h) t) (\<lambda>_ v'. shots v' = A) (\<lambda>_ v'. shots v' = A) v"
  by (intro wp_rules) simp_all

lemma shots_delay:
  "shots v = A \<Longrightarrow> wpv (delayE (recording h) n) (\<lambda>_ v'. shots v' = A) (\<lambda>_ v'. shots v' = A) v"
  by (intro wp_rules) simp_all

lemma wpv_now [wp_rules]: "(\<And>t. Q t v) \<Longrightarrow> wpv (nowE h) Q E v"
  unfolding nowE_def by (rule wpv_get_now)

lemma wpv_setup_wait [wp_rules]: "(\<And>b. Q b v) \<Longrightarrow> wpv (setup_wait (recording h) target) Q E v"
  unfolding setup_wait_def Let_def by (cases target; simp; intro wp_rules; simp)

lemma wpv_fire_wait [wp_rules]: "Q () v \<Longrightarrow> wpv (fire_wait (recording h) target) Q E v"
  unfolding fire_wait_def Let_def by (cases target; simp; intro wp_rules; simp)

text \<open>A job is sent as it asks for, at most once, and exactly once when the task counts it as sent.\<close>

lemma wpv_execute:
  fixes h :: "'w hal"
  shows "wpv (execute_downlink (recording h) job)
     (\<lambda>sent v'. shots v' = shots v @ (if sent then [job_shot job] else []))
     (\<lambda>e v'. shots v' = shots v \<or> shots v' = shots v @ [job_shot job]) v"
proof -
  let ?bs = "job_payload job" and ?c = "job_config job"
  have quiet: "shots v' = shots v" if "v_sent v' = v_sent v @ take n (configure_frames ?c iq)" for v' n iq
    using quiet_fold [OF quiet_take [OF quiet_configure]] shot_of_sent [OF that] by (simp add: shots_def)
  have staged: "shots v2 = shots v"
    if "v_sent v1 = v_sent v @ configure_frames ?c iq" "prefix (v_sent v1) (v_sent v2)"
      "prefix (v_sent v2) (v_sent v1 @ tx_frames (Some ?c) ?bs)" for v1 v2 :: view and iq
  proof -
    note pre = that(2,3)
    obtain fs where fs: "v_sent v2 = v_sent v1 @ fs" "prefix fs (tx_frames (Some ?c) ?bs)"
      using pre by (auto elim!: prefixE simp: prefix_def)
    have "shot_of v2 = fold shot_step fs (shot_of v1)" using fs(1) by (rule shot_of_sent)
    moreover have "shots v1 = shots v"
      using quiet_fold [OF quiet_configure] shot_of_sent [OF that(1)] by (simp add: shots_def)
    ultimately show ?thesis using quiet_fold [OF quiet_prefix [OF quiet_tx_frames fs(2)]] by (simp add: shots_def)
  qed
  have fired: "shots (sent_frame [SET_TX, 0, 0, 0] (v2\<lparr>v_nss := b\<rparr>)) = shots v @ [job_shot job]"
    if "v_sent v2 = v_sent v @ configure_frames ?c iq @ tx_frames (Some ?c) ?bs"
      "length ?bs \<le> unat (HW_MAX_PAYLOAD_LEN h)" for v2 :: view and iq b
  proof -
    have "length ?bs \<le> 255" using that(2) HW_MAX_le [of h] by simp
    then show ?thesis using fired_shot [of job iq "shot_of v"] shot_of_sent [OF that(1)]
      by (simp add: shots_def fire_frame_def)
  qed
  have other: "GET_IRQ_STATUS \<noteq> SET_TX" "CLEAR_IRQ_STATUS \<noteq> SET_TX" by (simp_all add: opcodes)
  show ?thesis
    unfolding execute_downlink_def fire_tx_def wait_tx_done_def wait_for_irq_def clear_irq_def
    by (intro wp_rules) (simp_all add: quiet staged fired other)
qed

text \<open>The jobs that have not been taken up, in order, and what the radio has sent so far.\<close>

definition todo :: "('w, 'z) gateway_scheme \<Rightarrow> downlink_job list" where
  "todo g = (case gt_pending g of None \<Rightarrow> [] | Some job \<Rightarrow> [job]) @ gt_downlinks g"

definition gateway_shots :: "('w recorded, 'z) gateway_scheme \<Rightarrow> shot list" where
  "gateway_shots g = shots (view (gt_radio g))"

lemma shots_after:
  "shots (view (snd (driver_arm_receive (recording h) d))) = shots (view d)"
  "shots (view (snd (driver_configure (recording h) c d))) = shots (view d)"
  "shots (view (snd (driver_read_packet (recording h) d))) = shots (view d)"
  "shots (view (snd (driver_wait_rx_event (recording h) t d))) = shots (view d)"
  "shots (view (snd (wait_dio1 (recording h) t d))) = shots (view d)"
  "shots (view (snd (delayE (recording h) n d))) = shots (view d)"
  "shots (view (snd (driver_init (recording h) d))) = shots (view d)"
  by (rule wpv_snd, rule shots_arm shots_configure shots_read shots_wait shots_dio1 shots_delay shots_init,
      rule refl)+

lemma shots_execute:
  assumes "execute_downlink (recording h) job d = (r, d')"
  shows "shots (view d') = shots (view d) \<or> shots (view d') = shots (view d) @ [job_shot job]"
    and "r = Inr True \<Longrightarrow> shots (view d') = shots (view d) @ [job_shot job]"
  using wpv_run [OF wpv_execute assms] by (auto split: sum.splits if_splits)

lemma forward_uplink_frame [simp]:
  "gt_radio (forward_uplink c t p g) = gt_radio g" "gt_pending (forward_uplink c t p g) = gt_pending g"
  "gt_downlinks (forward_uplink c t p g) = gt_downlinks g"
  by (simp_all add: forward_uplink_def Let_def split: option.split)

lemma listen_shots:
  "gateway_shots (gateway_listen (recording h) c e g) = gateway_shots g"
proof (cases e)
  case RadioWakes
  obtain r d where w: "driver_wait_rx_event (recording h) RX_POLL_INTERVAL_MS (gt_radio g) = (r, d)" by force
  obtain r' d' where p: "driver_read_packet (recording h) d = (r', d')" by force
  have "shots (view d) = gateway_shots g" "shots (view d') = shots (view d)"
    using shots_after(4) [of h RX_POLL_INTERVAL_MS "gt_radio g"] shots_after(3) [of h d]
    by (simp_all add: w p gateway_shots_def)
  then show ?thesis
    by (simp add: gateway_listen_def RadioWakes w p gateway_shots_def split: sum.split)
next
  case JobArrives
  then show ?thesis
    by (simp add: gateway_listen_def gateway_shots_def shots_after split: list.split)
qed

lemma listen_todo:
  "gt_pending g = None \<Longrightarrow> todo (gateway_listen h c e g) = todo g"
  by (auto simp: gateway_listen_def todo_def split: gateway_event.split list.split sum.split prod.split)

text \<open>
  A turn either leaves the jobs alone and sends nothing, or takes up the first one and sends it or
  gives it up.
\<close>

lemma gateway_turn_shots:
  fixes g :: "('w recorded, 'z) gateway_scheme" and h :: "'w hal" and c e
  defines "g' \<equiv> gateway_turn (recording h) c e g"
  shows "todo g' = todo g \<and> gateway_shots g' = gateway_shots g
    \<or> (\<exists>job. todo g = job # todo g' \<and>
        (gateway_shots g' = gateway_shots g \<or> gateway_shots g' = gateway_shots g @ [job_shot job]))"
proof -
  obtain r d where a: "driver_arm_receive (recording h) (gt_radio g) = (r, d)" by force
  have d: "shots (view d) = gateway_shots g"
    using shots_after(1) [of h "gt_radio g"] by (simp add: a gateway_shots_def)
  show ?thesis
  proof (cases r)
    case (Inl err)
    then show ?thesis by (simp add: g'_def gateway_turn_def a d shots_after gateway_shots_def todo_def)
  next
    case (Inr u)
    show ?thesis
    proof (cases "gt_pending g")
      case None
      then have g': "g' = gateway_listen (recording h) c e (g\<lparr>gt_radio := d\<rparr>)"
        by (simp add: g'_def gateway_turn_def a Inr)
      have "todo (g\<lparr>gt_radio := d\<rparr>) = todo g" "gateway_shots (g\<lparr>gt_radio := d\<rparr>) = gateway_shots g"
        by (simp_all add: todo_def gateway_shots_def d [unfolded gateway_shots_def])
      then show ?thesis using listen_shots [of h c e "g\<lparr>gt_radio := d\<rparr>"] listen_todo [of "g\<lparr>gt_radio := d\<rparr>"] None
        by (simp add: g')
    next
      case (Some job)
      obtain q d1 where x: "execute_downlink (recording h) job d = (q, d1)" by force
      have "todo g = job # todo g'" "gateway_shots g' = shots (view d1)"
        by (simp_all add: g'_def gateway_turn_def a Inr Some x Let_def todo_def gateway_shots_def shots_after
            downlink_sent_def)
      then show ?thesis using shots_execute(1) [OF x] d by simp
    qed
  qed
qed

subsection \<open>A glitch on the way back\<close>

text \<open>
  A bus that answers its writes as its script says (and well when the script is over): DIO1 is high,
  and every status read says that a transmission and a reception are done.
\<close>

definition script_hal :: "bool list hal" where
  "script_hal =
     \<lparr>spi_write = (\<lambda>_ s. (s = [] \<or> hd s, tl s)), spi_transfer = (\<lambda>_ s. (Some [0, 0, 0, 3], s)),
      set_nss = (\<lambda>_ w. w), set_nrst = (\<lambda>_ w. w), busy_is_low = (\<lambda>w. (True, w)),
      dio1_wait_high = (\<lambda>_ w. (PinHigh, w)), delay_us = (\<lambda>_ w. w), instant_now = (\<lambda>_. 0),
      max_lora_payload = 256\<rparr>"

definition ran :: "bus_event list \<Rightarrow> nat \<Rightarrow> bool list recorded driver \<Rightarrow> bool list recorded driver" where
  "ran es n d = d\<lparr>world := \<lparr>events = events (world d) @ es, device = drop n (device (world d))\<rparr>\<rparr>"

lemma ran_simps [simp]:
  "ran es n (ran fs m d) = ran (fs @ es) (m + n) d"
  "(ran es n d)\<lparr>in_continuous_rx := b\<rparr> = ran es n (d\<lparr>in_continuous_rx := b\<rparr>)"
  "(ran es n d)\<lparr>config := co\<rparr> = ran es n (d\<lparr>config := co\<rparr>)"
  "device (world (ran es n d)) = drop n (device (world d))"
  "events (world (ran es n d)) = events (world d) @ es"
  "initialised (ran es n d) = initialised d" "in_continuous_rx (ran es n d) = in_continuous_rx d"
  "config (ran es n d) = config d"
  by (simp_all add: ran_def add.commute)

lemma script_pins:
  "wait_not_busy (recording script_hal) d = (Inr (), d)"
  "nssE (recording script_hal) b d = (Inr (), ran [Nss b] 0 d)"
  "wait_dio1 (recording script_hal) t d = (Inr (), d)"
  by (rule idle_wait_not_busy, simp add: script_hal_def)
    (simp_all add: nssE_def worldE_def modifyE_def ran_def recording_def log_event_def script_hal_def wait_dio1_def)

lemma script_spi:
  "spi_writeE (recording script_hal) bs d =
     (if device (world d) = [] \<or> hd (device (world d)) then (Inr (), ran [Frame bs True] 1 d)
      else (Inl SpiError, ran [Frame bs False] 1 d))"
  "spi_transferE (recording script_hal) bs d
     = (Inr (take (length bs) ([0, 0, 0, 3] @ replicate (length bs) 0)), ran [Frame bs True] 0 d)"
  by (auto simp: spi_writeE_def spi_transferE_def ran_def recording_def log_event_def script_hal_def drop_Suc)

text \<open>Running a sequence of successful commands, one at a time.\<close>

lemma run_seq: "m d = (Inr x, d') \<Longrightarrow> k d' = R \<Longrightarrow> seqE m k d = R"
  by (simp add: seqE_def bindE_def)

lemma run_bind: "m d = (Inr x, d') \<Longrightarrow> f x d' = R \<Longrightarrow> bindE m f d = R"
  by (simp add: bindE_def)

lemma run_assoc:
  "seqE (seqE m k) l = seqE m (seqE k l)" "seqE (bindE m f) l = bindE m (\<lambda>x. seqE (f x) l)"
  "bindE (seqE n q) g = seqE n (bindE q g)"
  by (auto simp: seqE_def bindE_def split: prod.split sum.split)

lemma script_commands:
  "length bs \<le> 15 \<Longrightarrow> device (world d) = [] \<or> hd (device (world d)) \<Longrightarrow> write_command (recording script_hal) c bs d
     = (Inr (), ran [Nss False, Frame (c # bs) True, Nss True] 1 d)"
  "length bs \<le> 15 \<Longrightarrow> \<not> (device (world d) = [] \<or> hd (device (world d))) \<Longrightarrow> write_command (recording script_hal) c bs d
     = (Inl SpiError, ran [Nss False, Frame (c # bs) False] 1 d)"
  "read_register (recording script_hal) addr d
     = (Inr 0, ran [Nss False, Frame (reg_read_frame addr) True, Nss True] 0 d)"
  by (simp add: write_command_def seqE_def bindE_def script_pins script_spi)
    (simp add: write_command_def seqE_def bindE_def script_pins script_spi,
     simp add: read_register_def reg_read_frame_def seqE_def bindE_def script_pins script_spi)

lemma script_read_command:
  "read_command (recording script_hal) c n d
     = (Inr (drop 2 (take (Suc (Suc n)) ([0, 0, 0, 3] @ replicate (Suc (Suc n)) 0)) @ replicate (16 - n) 0),
        ran [Nss False, Frame (c # 0 # replicate n 0) True, Nss True] 0 d)"
  by (simp add: read_command_def seqE_def bindE_def returnE_def script_pins script_spi)

lemma script_irq:
  "get_irq_status (recording script_hal) d
     = (Inr 3, ran [Nss False, Frame [GET_IRQ_STATUS, 0, 0, 0] True, Nss True] 0 d)"
proof -
  have r: "read_command (recording script_hal) GET_IRQ_STATUS 2 d
      = (Inr ([0, 3] @ replicate 14 0), ran [Nss False, Frame [GET_IRQ_STATUS, 0, 0, 0] True, Nss True] 0 d)"
    by (simp only: script_read_command) (simp add: numeral_2_eq_2 take_Cons')
  have "push_bit 8 (ucast (0 :: u8)) OR ucast (3 :: u8) = (3 :: u16)" by simp
  then show ?thesis by (simp only: get_irq_status_def bindE_def r returnE_def prod.case sum.case append_Cons
        nth_Cons_0 One_nat_def nth_Cons_Suc)
qed

definition frame_events :: "bytes list \<Rightarrow> bus_event list" where
  "frame_events fs = concat (map (\<lambda>bs. [Nss False, Frame bs True, Nss True]) fs)"

lemma acked_frame_events [simp]: "acked (frame_events fs) = fs"
  by (induction fs) (simp_all add: frame_events_def)

lemma script_configure:
  assumes "device (world d) = [True, True, True, True, True, True, True, True, True, True] @ s"
  shows "driver_configure (recording script_hal) c d
    = (Inr (), ran (frame_events (configure_frames c 0)) 10
        (d\<lparr>in_continuous_rx := False, config := Some c\<rparr>))"
  unfolding driver_configure_def command_ops register_ops run_assoc
  apply (rule run_seq, simp add: modifyE_def)
  apply ((rule run_seq run_bind, simp add: assms script_commands)+)
  apply (simp add: frame_events_def configure_frames_def modifyE_def reg_write_frame_def ocp_140 eval_nat_numeral)
  done

lemma script_write_buffer:
  "device (world d) = [] \<or> hd (device (world d)) \<Longrightarrow> write_buffer (recording script_hal) off bs d
     = (Inr (), ran [Nss False, Frame (WRITE_BUFFER # off # take 256 bs) True, Nss True] 1 d)"
  by (simp add: write_buffer_def seqE_def bindE_def script_pins script_spi take_min_self)

text \<open>An immediate job is sent; the seventeen writes of it are the first of the script.\<close>

lemma script_prepare:
  assumes "device (world d) = [True, True, True, True, True] @ s" "initialised d"
    "bs \<noteq> []" "length bs \<le> 255"
  shows "prepare_tx (recording script_hal) bs d
    = (Inr (), ran (frame_events (tx_frames (config d) bs)) 5 (d\<lparr>in_continuous_rx := False\<rparr>))"
proof -
  have max: "unat (HW_MAX_PAYLOAD_LEN script_hal) = 255" by (simp add: HW_MAX_PAYLOAD_LEN_def script_hal_def)
  have fits: "\<not> 255 < length bs" "take 256 bs = bs" using assms(4) by simp_all
  show ?thesis
    unfolding prepare_tx_def command_ops run_assoc
    apply (rule run_bind, simp add: getE_def)
    apply (simp add: assms(2,3) max fits)
    apply (rule run_seq, simp add: modifyE_def)
    apply ((rule run_seq run_bind, simp add: assms(1) fits script_commands script_write_buffer getE_def)+)
    apply (simp add: assms(1) fits script_commands tx_frames_def frame_events_def eval_nat_numeral)
    done
qed

lemma script_execute:
  assumes "device (world d) = [True, True, True, True, True, True, True, True, True, True]
      @ [True, True, True, True, True] @ [True, True] @ s"
    and "initialised d" "job_target_tmst job = None" "job_payload job \<noteq> []" "length (job_payload job) \<le> 255"
  shows "\<exists>es. execute_downlink (recording script_hal) job d
      = (Inr True, ran es 17 (d\<lparr>in_continuous_rx := False, config := Some (job_config job)\<rparr>))
    \<and> acked es = configure_frames (job_config job) 0 @ tx_frames (Some (job_config job)) (job_payload job)
        @ [fire_frame, [GET_IRQ_STATUS, 0, 0, 0], [CLEAR_IRQ_STATUS, 0, 3]]"
proof -
  let ?d1 = "ran (frame_events (configure_frames (job_config job) 0)) 10
      (d\<lparr>in_continuous_rx := False, config := Some (job_config job)\<rparr>)"
  let ?d2 = "ran (frame_events (tx_frames (Some (job_config job)) (job_payload job))) 5 ?d1"
  have c: "driver_configure (recording script_hal) (job_config job) d = (Inr (), ?d1)"
    using assms(1) by (intro script_configure) simp
  have "prepare_tx (recording script_hal) (job_payload job) ?d1
      = (Inr (), ran (frame_events (tx_frames (config ?d1) (job_payload job))) 5 (?d1\<lparr>in_continuous_rx := False\<rparr>))"
    using assms by (intro script_prepare [where s = "[True, True] @ s"]) simp_all
  then have p: "prepare_tx (recording script_hal) (job_payload job) ?d1 = (Inr (), ?d2)" by simp
  have "execute_downlink (recording script_hal) job d =
      (Inr True, ran (frame_events [fire_frame, [GET_IRQ_STATUS, 0, 0, 0], [CLEAR_IRQ_STATUS, 0, 3]]) 2 ?d2)"
    unfolding execute_downlink_def wait_tx_done_def wait_for_irq_def clear_irq_def fire_tx_def run_assoc
    apply (rule run_bind, simp add: assms(3) setup_wait_def returnE_def, simp)
    apply (rule run_seq, rule c, rule run_seq, rule p)
    apply (rule run_seq, simp add: assms(3) fire_wait_def returnE_def)
    apply ((rule run_seq run_bind, simp add: assms(1) script_commands script_pins script_irq)+)
    apply (simp add: IRQ_TX_DONE_def returnE_def)
    apply (simp add: returnE_def frame_events_def fire_frame_def)
    done
  then show ?thesis by (intro exI conjI) (simp, simp add: acked_append)
qed

lemma script_configure_fails:
  assumes "device (world d) = [True, False]"
  shows "\<exists>es. driver_configure (recording script_hal) c d = (Inl SpiError, ran es 2 (d\<lparr>in_continuous_rx := False\<rparr>))
    \<and> acked es = [[SET_STANDBY, STDBY_RC]]"
proof -
  have "driver_configure (recording script_hal) c d = (Inl SpiError, ran (frame_events [[SET_STANDBY, STDBY_RC]]
      @ [Nss False, Frame (SET_RF_FREQUENCY # freq_bytes (frequency_hz c)) False]) 2 (d\<lparr>in_continuous_rx := False\<rparr>))"
    unfolding driver_configure_def set_standby_internal_def set_frequency_def run_assoc
    apply (rule run_seq, simp add: modifyE_def)
    apply (rule run_seq, simp add: assms script_commands)
    apply (simp add: seqE_def bindE_def assms script_commands frame_events_def eval_nat_numeral)
    done
  then show ?thesis by (intro exI conjI) (simp, simp add: acked_append)
qed

lemma script_arm:
  assumes "device (world d) = []" "initialised d" "\<not> in_continuous_rx d"
  shows "\<exists>es. driver_arm_receive (recording script_hal) d = (Inr (), ran es 5 (d\<lparr>in_continuous_rx := True\<rparr>))
    \<and> acked es = [[SET_STANDBY, STDBY_RC], SET_PACKET_PARAMS # packet_params (config d) (HW_MAX_PAYLOAD_LEN script_hal),
        SET_DIO_IRQ_PARAMS # irq_bytes (IRQ_RX_DONE OR IRQ_TIMEOUT OR IRQ_CRC_ERR), [CLEAR_IRQ_STATUS, 0xFF, 0xFF], rx_frame]"
proof -
  have "driver_arm_receive (recording script_hal) d = (Inr (), ran (frame_events
      [[SET_STANDBY, STDBY_RC], SET_PACKET_PARAMS # packet_params (config d) (HW_MAX_PAYLOAD_LEN script_hal),
        SET_DIO_IRQ_PARAMS # irq_bytes (IRQ_RX_DONE OR IRQ_TIMEOUT OR IRQ_CRC_ERR), [CLEAR_IRQ_STATUS, 0xFF, 0xFF], rx_frame])
      5 (d\<lparr>in_continuous_rx := True\<rparr>))"
    unfolding driver_arm_receive_def start_receive_mode_def set_standby_internal_def set_packet_params_def
      configure_irq_def clear_irq_def run_assoc
    apply (rule run_bind, simp add: getE_def, simp add: assms(2))
    apply (rule run_bind, simp add: getE_def, simp add: assms(3))
    apply (rule run_seq, simp add: modifyE_def)
    apply ((rule run_seq run_bind, simp add: assms(1) script_commands getE_def)+)
    apply (simp add: modifyE_def frame_events_def rx_frame_def eval_nat_numeral)
    done
  then show ?thesis by (intro exI conjI) (simp, simp)
qed

lemma script_read_packet:
  assumes "device (world d) = []"
  shows "\<exists>p es. driver_read_packet (recording script_hal) d = (Inr p, ran es 1 d)
    \<and> acked es = [[GET_IRQ_STATUS, 0, 0, 0], [CLEAR_IRQ_STATUS, 0, 3], [GET_RX_BUFFER_STATUS, 0, 0, 0],
        [READ_BUFFER, 3, 0], [GET_PACKET_STATUS, 0, 0, 0, 0]]"
proof -
  have two: "read_command (recording script_hal) c 2 e
      = (Inr ([0, 3] @ replicate 14 0), ran [Nss False, Frame [c, 0, 0, 0] True, Nss True] 0 e)" for c e
    by (simp only: script_read_command) (simp add: numeral_2_eq_2 take_Cons')
  have three: "read_command (recording script_hal) c 3 e
      = (Inr ([0, 3, 0] @ replicate 13 0), ran [Nss False, Frame [c, 0, 0, 0, 0] True, Nss True] 0 e)" for c e
    by (simp only: script_read_command) (simp add: numeral_3_eq_3 take_Cons')
  have buffer: "read_buffer (recording script_hal) off 0 e
      = (Inr [], ran [Nss False, Frame [READ_BUFFER, off, 0] True, Nss True] 0 e)" for off e
    by (simp add: read_buffer_def seqE_def bindE_def script_pins script_spi extend_cap_def take_Cons')
  have "driver_read_packet (recording script_hal) d = (Inr \<lparr>rx_data = [], rx_rssi = rssi_of 0, rx_snr = snr_of 3\<rparr>,
      ran (frame_events [[GET_IRQ_STATUS, 0, 0, 0], [CLEAR_IRQ_STATUS, 0, 3], [GET_RX_BUFFER_STATUS, 0, 0, 0],
        [READ_BUFFER, 3, 0], [GET_PACKET_STATUS, 0, 0, 0, 0]]) 1 d)"
    unfolding driver_read_packet_def clear_irq_def get_rx_buffer_status_def get_packet_status_def run_assoc
    apply (rule run_bind, rule script_irq)
    apply (rule run_seq, simp add: assms script_commands)
    apply (simp add: IRQ_CRC_ERR_def IRQ_RX_DONE_def)
    apply (simp add: bindE_def two three buffer returnE_def frame_events_def)
    done
  then show ?thesis by (intro exI conjI) (simp, simp)
qed

lemma shot_of_ran [simp]: "shot_of (view (ran es n d)) = fold shot_step (acked es) (shot_of (view d))"
  by (simp add: shot_of_def view_def)

lemma shot_of_flags [simp]:
  "shot_of (view (d\<lparr>in_continuous_rx := b\<rparr>)) = shot_of (view d)" "shot_of (view (d\<lparr>config := co\<rparr>)) = shot_of (view d)"
  by (simp_all add: shot_of_def view_def)

lemma arm_listening: "initialised d \<Longrightarrow> in_continuous_rx d \<Longrightarrow> driver_arm_receive h d = (Inr (), d)"
  by (simp add: driver_arm_receive_def bindE_def getE_def returnE_def)

lemma rx_ready: "driver_wait_rx_event (recording script_hal) t d = (Inr 0, d)"
proof -
  have "instant_now (recording script_hal) w = 0" for w by (simp add: recording_def script_hal_def)
  then show ?thesis by (simp add: driver_wait_rx_event_def seqE_def bindE_def script_pins getE_def)
qed

definition glitch_script :: "bool list" where
  "glitch_script = [True, True, True, True, True, True, True, True, True, True]
     @ [True, True, True, True, True] @ [True, True] @ [True, False]"

subsection \<open>The clock\<close>

text \<open>A timer never ends early, and late by no more than the slack.\<close>

definition timer_ok :: "'w hal \<Rightarrow> nat \<Rightarrow> bool" where
  "timer_ok h slack \<longleftrightarrow>
     (\<forall>n w. \<exists>late \<le> slack. instant_now h (delay_us h n w) = instant_now h w + of_nat (n + late))"

lemma ucast_down_of_int: "ucast (word_of_int i :: u64) = (word_of_int i :: u32)"
  by transfer (simp add: take_bit_take_bit)

lemma ucast_plus_nat: "ucast (now + of_nat n :: u64) = (ucast now + word_of_int (int n) :: u32)"
proof -
  have "now + of_nat n = word_of_int (uint now + int n)" by simp
  then have "ucast (now + of_nat n) = (word_of_int (uint now + int n) :: u32)" by (simp only: ucast_down_of_int)
  also have "\<dots> = word_of_int (uint now) + word_of_int (int n)" by simp
  also have "word_of_int (uint now) = (ucast now :: u32)"
    using ucast_down_of_int [of "uint now"] by simp
  finally show ?thesis .
qed

lemma delta_after:
  assumes "0 \<le> r" "r = tmst_delta_us (ucast now) target" "0 \<le> k" "k \<le> r" "late \<le> 1000000"
  shows "tmst_delta_us (ucast (now + of_nat (nat (r - k) + late) :: u64)) target = k - int late"
proof -
  have r: "r < 2 ^ 31" using assms(2) sint_lt [of "target - ucast now"] by (simp add: tmst_delta_us_def)
  have split: "ucast (now + of_nat (nat (r - k) + late)) = (ucast now + word_of_int (r - k + int late) :: u32)"
  proof -
    have "int (nat (r - k) + late) = r - k + int late" using assms(4) by simp
    then show ?thesis by (simp only: ucast_plus_nat)
  qed
  have "target - ucast now = (word_of_int r :: u32)"
    unfolding assms(2) tmst_delta_us_def by simp
  then have "target - ucast (now + of_nat (nat (r - k) + late)) = (word_of_int (k - int late) :: u32)"
    unfolding split by (simp add: algebra_simps)
  then show ?thesis using assms r unfolding tmst_delta_us_def
    by (subst sint_fits [symmetric, of "k - int late"]) (simp_all)
qed

lemma sint_leads: "sint SETUP_LEAD_US = 20000" "sint TX_START_COMP_US = 450"
  by (simp_all add: SETUP_LEAD_US_def TX_START_COMP_US_def)

lemma wait_length:
  assumes "r = tmst_delta_us now target" "0 \<le> k" "k \<le> r"
  shows "unat (word_of_int r - word_of_int k :: u32) = nat (r - k)"
proof -
  have "r < 2 ^ 31" using assms(1) sint_lt [of "target - now"] by (simp add: tmst_delta_us_def)
  then have "uint (word_of_int (r - k) :: u32) = r - k" using assms by (intro uint_fits) simp_all
  then show ?thesis by (simp add: unat_eq_nat_uint)
qed

lemma delayE_clock:
  assumes "timer_ok h slack"
  shows "\<exists>late \<le> slack. \<exists>d'. delayE h n d = (Inr (), d') \<and>
    instant_now h (world d') = instant_now h (world d) + of_nat (n + late)"
  using assms by (auto simp: timer_ok_def delayE_def worldE_def modifyE_def)

lemma timed_delay:
  assumes t: "timer_ok h slack" "slack \<le> 1000000"
    and r: "r = tmst_delta_us (ucast (instant_now h (world d))) target" "0 \<le> k" "k \<le> r"
  shows "\<exists>d'. delayE h (unat (word_of_int r - word_of_int k :: u32)) d = (Inr (), d')
    \<and> k - int slack \<le> tmst_delta_us (ucast (instant_now h (world d'))) target
    \<and> tmst_delta_us (ucast (instant_now h (world d'))) target \<le> k"
proof -
  obtain late d' where late: "late \<le> slack" and d': "delayE h (nat (r - k)) d = (Inr (), d')"
    "instant_now h (world d') = instant_now h (world d) + of_nat (nat (r - k) + late)"
    using delayE_clock [OF t(1)] by blast
  have "tmst_delta_us (ucast (instant_now h (world d'))) target = k - int late"
    unfolding d'(2) using late t(2) r by (intro delta_after [OF _ r(1)]) simp_all
  then show ?thesis using d'(1) late wait_length [OF r] by simp
qed

subsection \<open>The properties\<close>

text \<open>Everything before \<open>SetTx\<close>, and \<open>SetTx\<close> with the wait for its end.\<close>

definition stage :: "'w hal \<Rightarrow> downlink_job \<Rightarrow> ('w, unit) io" where
  "stage h job = seqE (driver_configure h (job_config job)) (prepare_tx h (job_payload job))"

definition fire :: "'w hal \<Rightarrow> ('w, bool) io" where
  "fire h = seqE (fire_tx h) (seqE (wait_tx_done h) (returnE True))"

lemma execute_staged:
  "execute_downlink h job = bindE (setup_wait h (job_target_tmst job)) (\<lambda>in_time.
     if \<not> in_time then returnE False
     else seqE (stage h job) (seqE (fire_wait h (job_target_tmst job)) (fire h)))"
  unfolding execute_downlink_def stage_def fire_def run_assoc by (rule refl)

text \<open>
  C19. Timed downlinks are on time. A job whose target is less than 20 ms away is dropped without
  touching the radio. Otherwise, with timers that never end early and are at most \<open>slack\<close> late, the
  task sleeps until between 20 ms and 20 ms less the slack before the target and only then stages the
  job; a failure of the staging ends it with nothing fired. When the staging leaves more than 450
  microseconds, \<open>SetTx\<close> is begun between 450 microseconds and 450 microseconds less the slack before
  the target; when the staging took longer, it is begun at once and is late by what the staging
  overran. All this for any value of the wrapping counter. A job without a target is staged and fired
  at once.
\<close>

theorem timed_downlinks_are_on_time:
  assumes "timer_ok h slack" and "slack \<le> 1000000"
    and "left = (\<lambda>target d. tmst_delta_us (ucast (instant_now h (world d))) target)"
  shows "(case job_target_tmst job of
       None \<Rightarrow> execute_downlink h job d = seqE (stage h job) (fire h) d
     | Some target \<Rightarrow>
         if left target d < 20000 then execute_downlink h job d = (Inr False, d)
         else \<exists>sleep d1 staged d2.
             delayE h sleep d = (Inr (), d1) \<and> 20000 - int slack \<le> left target d1 \<and> left target d1 \<le> 20000
           \<and> stage h job d1 = (staged, d2)
           \<and> (case staged of
                Inl e \<Rightarrow> execute_downlink h job d = (Inl e, d2)
              | Inr _ \<Rightarrow>
                  if left target d2 \<le> 450 then execute_downlink h job d = fire h d2
                  else \<exists>pause d3. delayE h pause d2 = (Inr (), d3)
                    \<and> 450 - int slack \<le> left target d3 \<and> left target d3 \<le> 450
                    \<and> execute_downlink h job d = fire h d3))"
proof (cases "job_target_tmst job")
  case None
  then show ?thesis by (simp add: execute_staged setup_wait_def fire_wait_def bindE_def seqE_def returnE_def split: sum.split prod.split)
next
  case (Some target)
  have units: "SETUP_LEAD_US = word_of_int 20000" "TX_START_COMP_US = word_of_int 450"
    by (simp_all add: SETUP_LEAD_US_def TX_START_COMP_US_def)
  have now: "nowE h x = (Inr (instant_now h (world x)), x)" for x by (simp add: nowE_def getE_def)
  have timed: "\<exists>n d'. (\<forall>r. r = left target x \<longrightarrow> n = unat (word_of_int r - word_of_int k :: u32)) \<and> delayE h n x = (Inr (), d')
      \<and> k - int slack \<le> left target d' \<and> left target d' \<le> k" if "0 \<le> k" "k \<le> left target x" for x k
    using timed_delay [OF assms(1,2), of "left target x" x target k] that by (auto simp: assms(3))
  show ?thesis
  proof (cases "left target d < 20000")
    case True
    then show ?thesis
      by (simp add: Some execute_staged setup_wait_def bindE_def returnE_def now assms(3) sint_leads Let_def)
  next
    case False
    obtain d1 where d1: "delayE h (unat (word_of_int (left target d) - SETUP_LEAD_US :: u32)) d = (Inr (), d1)"
      "20000 - int slack \<le> left target d1" "left target d1 \<le> 20000"
      using timed [of 20000 d] False unfolding units by auto
    have slept: "setup_wait h (Some target) d = (Inr True, d1)"
      using d1(1) False by (simp add: setup_wait_def bindE_def seqE_def returnE_def now assms(3) sint_leads Let_def)
    obtain staged d2 where st: "stage h job d1 = (staged, d2)" by force
    have ex: "execute_downlink h job d = (case staged of Inl e \<Rightarrow> (Inl e, d2)
        | Inr _ \<Rightarrow> seqE (fire_wait h (Some target)) (fire h) d2)"
      by (simp add: Some execute_staged bindE_def slept seqE_def st split: sum.split)
    have fired: "if left target d2 \<le> 450 then execute_downlink h job d = fire h d2
        else \<exists>pause d3. delayE h pause d2 = (Inr (), d3) \<and> 450 - int slack \<le> left target d3 \<and> left target d3 \<le> 450
          \<and> execute_downlink h job d = fire h d3" if "staged = Inr u" for u
    proof (cases "left target d2 \<le> 450")
      case True
      then have "fire_wait h (Some target) d2 = (Inr (), d2)"
        by (simp add: fire_wait_def bindE_def returnE_def now assms(3) sint_leads Let_def)
      then show ?thesis using True ex that by (simp add: seqE_def bindE_def)
    next
      case False
      then obtain d3 where d3: "delayE h (unat (word_of_int (left target d2) - TX_START_COMP_US :: u32)) d2 = (Inr (), d3)"
        "450 - int slack \<le> left target d3" "left target d3 \<le> 450"
        using timed [of 450 d2] unfolding units by auto
      then have "fire_wait h (Some target) d2 = (Inr (), d3)"
        using False by (simp add: fire_wait_def bindE_def now assms(3) sint_leads Let_def)
      then show ?thesis using False d3 ex that by (auto simp: seqE_def bindE_def)
    qed
    show ?thesis
      unfolding Some option.case if_not_P [OF False]
      by (intro exI conjI, rule d1(1), rule d1(2), rule d1(3), rule st)
        (use ex fired in \<open>cases staged; simp\<close>)
  qed
qed

definition sample_hub :: hub_config where
  "sample_hub = \<lparr>cfg_version = 1, cfg_mode = LorawanGateway, cfg_wifi = \<lparr>ssid = [], password = []\<rparr>,
     cfg_mqtt = \<lparr>mqtt_host = [], mqtt_port = 0, client_id = []\<rparr>, cfg_gateway = default_gateway\<rparr>"

text \<open>A board with nothing but a clock, whose timers are up to a microsecond late.\<close>

definition clock_hal :: "u64 hal" where
  "clock_hal =
     \<lparr>spi_write = (\<lambda>_ w. (True, w)), spi_transfer = (\<lambda>_ w. (None, w)), set_nss = (\<lambda>_ w. w),
      set_nrst = (\<lambda>_ w. w), busy_is_low = (\<lambda>w. (True, w)), dio1_wait_high = (\<lambda>_ w. (PinTimeout, w)),
      delay_us = (\<lambda>n w. w + of_nat (n + n mod 2)), instant_now = (\<lambda>w. w), max_lora_payload = 255\<rparr>"

lemma clock_timer_ok: "timer_ok clock_hal 1"
proof -
  have "n mod 2 \<le> 1" for n :: nat by linarith
  then show ?thesis unfolding timer_ok_def clock_hal_def hal.simps by blast
qed

definition late_job :: downlink_job where
  "late_job = \<lparr>job_target_tmst = Some 500, job_config = default_lora_config, job_payload = [1, 2]\<rparr>"

theorem timed_downlinks_are_on_time_witness:
  "execute_downlink clock_hal late_job (new_driver 490) = (Inr False, new_driver 490)
 \<and> (\<exists>sleep d1. delayE clock_hal sleep (new_driver 4294937296) = (Inr (), d1)
      \<and> 19999 \<le> tmst_delta_us (ucast (world d1)) 500 \<and> tmst_delta_us (ucast (world d1)) 500 \<le> 20000)"
proof -
  have t: "tmst_delta_us 490 500 = 10" "tmst_delta_us 4294937296 500 = 30500"
    by (simp_all add: tmst_delta_us_def)
  from timed_downlinks_are_on_time [OF clock_timer_ok _ refl, of late_job "new_driver 490"]
    timed_downlinks_are_on_time [OF clock_timer_ok _ refl, of late_job "new_driver 4294937296"] t
  show ?thesis by (auto simp: late_job_def clock_hal_def new_driver_def)
qed

lemma glitch_turns:
  assumes "gt_pending g = Some job" "job_target_tmst job = None" "job_payload job \<noteq> []" "length (job_payload job) \<le> 255"
    and "initialised (gt_radio g)" "in_continuous_rx (gt_radio g)" "device (world (gt_radio g)) = glitch_script"
  shows "\<exists>d p co fs. gateway_turn (recording script_hal) c RadioWakes (gateway_turn (recording script_hal) c e g)
      = forward_uplink c 0 p ((downlink_sent (g\<lparr>gt_pending := None\<rparr>))\<lparr>gt_radio := d\<rparr>)
    \<and> in_continuous_rx d
    \<and> shot_of (view d) = fold shot_step (configure_frames (job_config job) 0
        @ tx_frames (Some (job_config job)) (job_payload job)
        @ [fire_frame, [GET_IRQ_STATUS, 0, 0, 0], [CLEAR_IRQ_STATUS, 0, 3], [SET_STANDBY, STDBY_RC],
           [SET_STANDBY, STDBY_RC], SET_PACKET_PARAMS # co, SET_DIO_IRQ_PARAMS # fs, [CLEAR_IRQ_STATUS, 0xFF, 0xFF],
           rx_frame, [GET_IRQ_STATUS, 0, 0, 0], [CLEAR_IRQ_STATUS, 0, 3], [GET_RX_BUFFER_STATUS, 0, 0, 0],
           [READ_BUFFER, 3, 0], [GET_PACKET_STATUS, 0, 0, 0, 0]]) (shot_of (view (gt_radio g)))"
proof -
  let ?job = "job_config job" and ?d = "gt_radio g"
  obtain es1 d1 where x: "execute_downlink (recording script_hal) job ?d = (Inr True, d1)"
    "d1 = ran es1 17 (?d\<lparr>in_continuous_rx := False, config := Some ?job\<rparr>)"
    "acked es1 = configure_frames ?job 0 @ tx_frames (Some ?job) (job_payload job)
        @ [fire_frame, [GET_IRQ_STATUS, 0, 0, 0], [CLEAR_IRQ_STATUS, 0, 3]]"
    using script_execute [of ?d "[True, False]" job] assms by (auto simp: glitch_script_def)
  have "device (world d1) = [True, False]" using assms(7) by (simp add: x(2) glitch_script_def)
  then obtain es2 d2 where c: "driver_configure (recording script_hal) (uplink_config c) d1 = (Inl SpiError, d2)"
    "d2 = ran es2 2 (d1\<lparr>in_continuous_rx := False\<rparr>)" "acked es2 = [[SET_STANDBY, STDBY_RC]]"
    using script_configure_fails by blast
  have "device (world d2) = []" "initialised d2" "\<not> in_continuous_rx d2"
    using assms(5,7) by (simp_all add: c(2) x(2) glitch_script_def)
  then obtain es3 d3 where a: "driver_arm_receive (recording script_hal) d2 = (Inr (), d3)"
    "d3 = ran es3 5 (d2\<lparr>in_continuous_rx := True\<rparr>)"
    "acked es3 = [[SET_STANDBY, STDBY_RC], SET_PACKET_PARAMS # packet_params (config d2) (HW_MAX_PAYLOAD_LEN script_hal),
        SET_DIO_IRQ_PARAMS # irq_bytes (IRQ_RX_DONE OR IRQ_TIMEOUT OR IRQ_CRC_ERR), [CLEAR_IRQ_STATUS, 0xFF, 0xFF], rx_frame]"
    using script_arm by blast
  have "device (world d3) = []" using assms(7) by (simp add: a(2) c(2) x(2) glitch_script_def)
  then obtain p es4 d4 where r: "driver_read_packet (recording script_hal) d3 = (Inr p, d4)" "d4 = ran es4 1 d3"
    "acked es4 = [[GET_IRQ_STATUS, 0, 0, 0], [CLEAR_IRQ_STATUS, 0, 3], [GET_RX_BUFFER_STATUS, 0, 0, 0],
        [READ_BUFFER, 3, 0], [GET_PACKET_STATUS, 0, 0, 0, 0]]"
    using script_read_packet by blast
  have first: "gateway_turn (recording script_hal) c e g
      = (downlink_sent (g\<lparr>gt_pending := None\<rparr>))\<lparr>gt_radio := d2\<rparr>"
    using assms(1,5,6) by (simp add: gateway_turn_def arm_listening x(1) c(1))
  have "gateway_turn (recording script_hal) c RadioWakes (gateway_turn (recording script_hal) c e g)
      = forward_uplink c 0 p ((downlink_sent (g\<lparr>gt_pending := None\<rparr>))\<lparr>gt_radio := d4\<rparr>)"
    unfolding first
    by (simp add: gateway_turn_def a(1) downlink_sent_def gateway_listen_def rx_ready r(1))
  moreover have "shot_of (view d4) = fold shot_step (acked es1 @ acked es2 @ acked es3 @ acked es4) (shot_of (view ?d))"
    by (simp add: r(2) a(2) c(2) x(2))
  moreover have "in_continuous_rx d4" by (simp add: r(2) a(2))
  ultimately show ?thesis unfolding r(3) a(3) c(3) x(3) append_assoc append_Cons append_Nil by blast
qed

text \<open>
  A glitch on the way back to the uplink channel mislabels uplinks: after an immediate downlink
  is sent, one failed bus write while the uplink configuration is restored leaves the radio
  listening on the channel and modulation of the downlink, and the next packet it receives there is
  reported to the network server as received on the uplink channel.
\<close>

theorem failed_return_mislabels_uplinks:
  assumes "gt_pending g = Some job" "job_target_tmst job = None" "job_payload job \<noteq> []" "length (job_payload job) \<le> 255"
    and "initialised (gt_radio g)" "in_continuous_rx (gt_radio g)" "device (world (gt_radio g)) = glitch_script"
    and "length (gt_uplinks g) < GW_UPLINK_CHANNEL_SIZE"
    and "g' = gateway_turn (recording script_hal) c RadioWakes (gateway_turn (recording script_hal) c e g)"
  shows "in_continuous_rx (gt_radio g')
    \<and> shot_freq (ss_shot (shot_of (view (gt_radio g')))) = freq_bytes (frequency_hz (job_config job))
    \<and> shot_modulation (ss_shot (shot_of (view (gt_radio g')))) = modulation_bytes (job_config job)
    \<and> (\<exists>m p. gt_uplinks g' = gt_uplinks g @ [(m, p)] \<and> rx_freq_hz m = gw_frequency_hz (cfg_gateway c)
         \<and> rx_spreading_factor m = gw_spreading_factor (cfg_gateway c))"
proof -
  obtain d p co fs where g': "g' = forward_uplink c 0 p ((downlink_sent (g\<lparr>gt_pending := None\<rparr>))\<lparr>gt_radio := d\<rparr>)"
    and rx: "in_continuous_rx d"
    and shot: "shot_of (view d) = fold shot_step (configure_frames (job_config job) 0
        @ tx_frames (Some (job_config job)) (job_payload job)
        @ [fire_frame, [GET_IRQ_STATUS, 0, 0, 0], [CLEAR_IRQ_STATUS, 0, 3], [SET_STANDBY, STDBY_RC],
           [SET_STANDBY, STDBY_RC], SET_PACKET_PARAMS # co, SET_DIO_IRQ_PARAMS # fs, [CLEAR_IRQ_STATUS, 0xFF, 0xFF],
           rx_frame, [GET_IRQ_STATUS, 0, 0, 0], [CLEAR_IRQ_STATUS, 0, 3], [GET_RX_BUFFER_STATUS, 0, 0, 0],
           [READ_BUFFER, 3, 0], [GET_PACKET_STATUS, 0, 0, 0, 0]]) (shot_of (view (gt_radio g)))"
    using glitch_turns [OF assms(1-7), of c e] unfolding assms(9) by blast
  have "shot_freq (ss_shot (shot_of (view d))) = freq_bytes (frequency_hz (job_config job))"
    "shot_modulation (ss_shot (shot_of (view d))) = modulation_bytes (job_config job)"
    unfolding shot
    by (simp_all add: shot_step_def rx_frame_def fire_frame_def opcodes)
      (simp_all add: staged_shot configured_shot opcodes [symmetric])
  then show ?thesis
    using rx assms(8) by (simp add: g' forward_uplink_def downlink_sent_def try_send_def uplink_config_def Let_def)
qed

theorem failed_return_mislabels_uplinks_witness:
  "\<exists>(g :: bool list recorded gateway) c. gw_frequency_hz (cfg_gateway c) = 868100000 \<and>
     (let g' = gateway_turn (recording script_hal) c RadioWakes (gateway_turn (recording script_hal) c RadioWakes g)
      in in_continuous_rx (gt_radio g')
        \<and> shot_freq (ss_shot (shot_of (view (gt_radio g')))) = freq_bytes 869525000
        \<and> (\<exists>m p. gt_uplinks g' = [(m, p)] \<and> rx_freq_hz m = 868100000))"
proof -
  let ?job = "\<lparr>job_target_tmst = None, job_config = default_lora_config, job_payload = [1]\<rparr>"
  let ?g = "\<lparr>gt_radio = \<lparr>world = \<lparr>events = [], device = glitch_script\<rparr>, initialised = True, in_continuous_rx = True,
      config = None\<rparr>, gt_pending = Some ?job, gt_uplinks = [], gt_downlinks = [], gt_leds = [], gt_stats = new_stats\<rparr>"
  let ?c = sample_hub
  let ?g' = "gateway_turn (recording script_hal) ?c RadioWakes (gateway_turn (recording script_hal) ?c RadioWakes ?g)"
  have "frequency_hz (job_config ?job) = 869525000" by (simp add: default_lora_config_def FREQUENCY_HZ_def)
  moreover have "gw_frequency_hz (cfg_gateway ?c) = 868100000" by (simp add: sample_hub_def default_gateway_def)
  moreover have "in_continuous_rx (gt_radio ?g')
    \<and> shot_freq (ss_shot (shot_of (view (gt_radio ?g')))) = freq_bytes (frequency_hz (job_config ?job))
    \<and> shot_modulation (ss_shot (shot_of (view (gt_radio ?g')))) = modulation_bytes (job_config ?job)
    \<and> (\<exists>m p. gt_uplinks ?g' = gt_uplinks ?g @ [(m, p)] \<and> rx_freq_hz m = gw_frequency_hz (cfg_gateway ?c)
         \<and> rx_spreading_factor m = gw_spreading_factor (cfg_gateway ?c))"
    by (rule failed_return_mislabels_uplinks [OF _ _ _ _ _ _ _ _ refl, of ?g ?job])
      (simp_all add: GW_UPLINK_CHANNEL_SIZE_def)
  ultimately show ?thesis unfolding Let_def by (intro exI [of _ ?g] exI [of _ ?c]) auto
qed

end
