(* ===== verification/Gateway_Udp.thy ===== *)
theory Gateway_Udp imports Gateway_Task begin

text \<open>
  The gateway UDP task (\<open>src/tasks/gateway_udp.rs\<close>) and its composition with the radio task. The
  task waits for a datagram, an uplink of the radio task or the one-second tick; the two tasks share
  the uplink queue, the downlink queue and the statistics, and their turns interleave in any order.
  The socket and the resolver belong to other crates: what is sent is a list of datagrams, and the
  answers of the resolver are given.
\<close>

subsection \<open>The task\<close>

definition PULL_DATA_INTERVAL_SECS :: u32 where "PULL_DATA_INTERVAL_SECS = 10"
definition STAT_INTERVAL_SECS :: u32 where "STAT_INTERVAL_SECS = 30"
definition LOCAL_PORT :: u16 where "LOCAL_PORT = 1700"

record 'w gateway_net = "'w gateway" +
  un_fw :: forwarder
  un_pull :: u32
  un_stat :: u32
  un_sent :: "bytes list"

text \<open>Resolving the server: the waits between the attempts, and the address if one succeeds.\<close>

fun resolve_server :: "backoff \<Rightarrow> 'ip option list \<Rightarrow> u32 list \<times> 'ip option" where
  "resolve_server b [] = ([], None)"
| "resolve_server b (Some address # rs) = ([], Some address)"
| "resolve_server b (None # rs) =
     (let (secs, b) = backoff_next b; (waits, r) = resolve_server b rs in (secs # waits, r))"

definition udp_start :: "bytes \<Rightarrow> 'w gateway \<Rightarrow> 'w gateway_net" where
  "udp_start mac g =
     gateway.extend g (gateway_net.fields (new_forwarder mac) PULL_DATA_INTERVAL_SECS 0 [])"

datatype udp_event = UdpDatagram u64 bytes | UplinkReady | Tick

definition udp_send :: "bytes \<Rightarrow> 'w gateway_net \<Rightarrow> 'w gateway_net" where
  "udp_send d g = g\<lparr>un_sent := un_sent g @ [d]\<rparr>"

definition udp_datagram :: "'fl gw_lib \<Rightarrow> u64 \<Rightarrow> bytes \<Rightarrow> 'w gateway_net \<Rightarrow> datagram_outcome \<times> 'w gateway_net" where
  "udp_datagram L now datagram g =
     (let (outcome, fw) = on_datagram L (ucast now) (now div 1000) ACK_BUF datagram (un_fw g);
          g = g\<lparr>un_fw := fw\<rparr>
      in (outcome,
          case outcome of
            NoOutcome \<Rightarrow> g
          | Reply ack \<Rightarrow> udp_send ack g
          | Accepted job token \<Rightarrow>
              let (e, g) = (case try_send GW_DOWNLINK_CHANNEL_SIZE job (gt_downlinks g) of
                    Some q \<Rightarrow> (AckNone, g\<lparr>gt_downlinks := q\<rparr>)
                  | None \<Rightarrow> (CollisionPacket, g\<lparr>gt_stats := count_dropped 1 (gt_stats g)\<rparr>));
                  (ack, fw) = tx_ack ACK_BUF token e (un_fw g)
              in udp_send ack (g\<lparr>un_fw := fw\<rparr>)))"

definition udp_tick :: "'w gateway_net \<Rightarrow> 'w gateway_net" where
  "udp_tick g =
     (let g = g\<lparr>un_pull := un_pull g + 1, un_stat := un_stat g + 1\<rparr>;
          g = (if PULL_DATA_INTERVAL_SECS \<le> un_pull g
               then let (d, fw) = on_keepalive PUSH_BUF (un_fw g) in udp_send d (g\<lparr>un_pull := 0, un_fw := fw\<rparr>)
               else g)
      in if STAT_INTERVAL_SECS \<le> un_stat g
         then let (d, fw) = on_stat PUSH_BUF (un_fw g) in udp_send d (g\<lparr>un_stat := 0, un_fw := fw\<rparr>)
         else g)"

fun udp_turn :: "'fl gw_lib \<Rightarrow> udp_event \<Rightarrow> 'w gateway_net \<Rightarrow> datagram_outcome \<times> 'w gateway_net" where
  "udp_turn L (UdpDatagram now packet) g = udp_datagram L now (take 1024 packet) g"
| "udp_turn L UplinkReady g =
     (NoOutcome,
      case gt_uplinks g of
        [] \<Rightarrow> g
      | (m, payload) # q \<Rightarrow>
          let (d, fw) = on_uplink L PUSH_BUF m payload (un_fw g)
          in udp_send d (g\<lparr>gt_uplinks := q, un_fw := fw\<rparr>))"
| "udp_turn L Tick g = (NoOutcome, udp_tick g)"

subsection \<open>The two tasks together\<close>

datatype gateway_step = RadioTurn gateway_event | UdpTurn udp_event

type_synonym accepted_log = "(u64 \<times> downlink_job) list"

fun accepted_of :: "udp_event \<Rightarrow> datagram_outcome \<Rightarrow> accepted_log" where
  "accepted_of (UdpDatagram now packet) (Accepted job token) = [(now, job)]"
| "accepted_of e r = []"

fun net_step :: "'w hal \<Rightarrow> hub_config \<Rightarrow> 'fl gw_lib \<Rightarrow> gateway_step \<Rightarrow> 'w gateway_net \<Rightarrow> accepted_log \<times> 'w gateway_net" where
  "net_step h c L (RadioTurn e) g = ([], gateway_turn h c e g)"
| "net_step h c L (UdpTurn e) g = (let (r, g) = udp_turn L e g in (accepted_of e r, g))"

fun net_run :: "'w hal \<Rightarrow> hub_config \<Rightarrow> 'fl gw_lib \<Rightarrow> gateway_step list \<Rightarrow> 'w gateway_net \<Rightarrow> accepted_log \<times> 'w gateway_net" where
  "net_run h c L [] g = ([], g)"
| "net_run h c L (e # es) g =
     (let (l, g) = net_step h c L e g; (ls, g) = net_run h c L es g in (l @ ls, g))"

text \<open>The gateway as the boot leaves it: radio started, queues empty, a fresh forwarder.\<close>

definition net_boot :: "'w hal \<Rightarrow> hub_config \<Rightarrow> bytes \<Rightarrow> 'w \<Rightarrow> 'w recorded gateway_net" where
  "net_boot h c mac w =
     udp_start mac \<lparr>gt_radio = snd (gateway_start (recording h) c (build_driver w)), gt_pending = None,
       gt_uplinks = [], gt_downlinks = [], gt_leds = [], gt_stats = new_stats\<rparr>"

subsection \<open>The invariant\<close>

text \<open>What the policy of the forwarder promises of a job it accepts.\<close>

definition job_legal :: "downlink_job \<Rightarrow> bool" where
  "job_legal job \<longleftrightarrow>
     863000000 \<le> frequency_hz (job_config job) \<and> frequency_hz (job_config job) \<le> 870000000
     \<and> sint (tx_power_dbm (job_config job)) \<le> 22 \<and> config_sync_word (job_config job) = Public
     \<and> \<not> crc_on (job_config job) \<and> job_payload job \<noteq> [] \<and> length (job_payload job) \<le> 256"

definition accepted_band_log :: "accepted_log \<Rightarrow> band_log" where
  "accepted_band_log acc =
     map (\<lambda>(t, j). (eu_band_key (frequency_hz (job_config j)), unat (t div 1000), unat (job_airtime j))) acc"

definition net_inv :: "u64 \<Rightarrow> 'w recorded gateway_net \<Rightarrow> accepted_log \<Rightarrow> bool" where
  "net_inv now g acc \<longleftrightarrow>
     duty_inv (now div 1000) (fw_duty (un_fw g)) (accepted_band_log acc)
     \<and> subseq (gateway_shots g @ map job_shot (todo g)) (map (\<lambda>(t, j). job_shot j) acc)
     \<and> (\<forall>(t, j) \<in> set acc. job_legal j)"

lemma accepted_band_log_append [simp]:
  "accepted_band_log (xs @ ys) = accepted_band_log xs @ accepted_band_log ys"
  by (simp add: accepted_band_log_def)

lemma gateway_turn_net [simp]: "un_fw (gateway_turn h c e g) = un_fw g"
  by (auto simp: gateway_turn_def gateway_listen_def forward_uplink_def downlink_sent_def Let_def
      split: sum.split prod.split option.split gateway_event.split list.split)

lemma send_frame [simp]:
  "gt_radio (udp_send d g) = gt_radio g" "gt_pending (udp_send d g) = gt_pending g"
  "gt_downlinks (udp_send d g) = gt_downlinks g" "gt_uplinks (udp_send d g) = gt_uplinks g"
  "gt_stats (udp_send d g) = gt_stats g" "un_fw (udp_send d g) = un_fw g"
  "un_pull (udp_send d g) = un_pull g" "un_stat (udp_send d g) = un_stat g"
  "un_sent (udp_send d g) = un_sent g @ [d]"
  by (simp_all add: udp_send_def)

lemma datagram_cases:
  assumes "udp_datagram L now datagram g = (r, g')"
  obtains fw where "on_datagram L (ucast now) (now div 1000) ACK_BUF datagram (un_fw g) = (r, fw)"
    "fw_duty (un_fw g') = fw_duty fw" "gt_radio g' = gt_radio g" "gt_pending g' = gt_pending g"
    "gt_downlinks g' = gt_downlinks g
     \<or> (\<exists>job token. r = Accepted job token \<and> gt_downlinks g' = gt_downlinks g @ [job])"
proof -
  obtain fw where fw: "on_datagram L (ucast now) (now div 1000) ACK_BUF datagram (un_fw g) = (r, fw)"
    using assms by (auto simp: udp_datagram_def Let_def split: prod.splits)
  show thesis
  proof (rule that [OF fw])
  qed (use assms fw in \<open>auto simp: udp_datagram_def Let_def tx_ack_def try_send_def
      split: datagram_outcome.splits option.splits if_splits\<close>)
qed

lemma tick_frame [simp]:
  "gt_radio (udp_tick g) = gt_radio g" "gt_pending (udp_tick g) = gt_pending g"
  "gt_downlinks (udp_tick g) = gt_downlinks g" "fw_duty (un_fw (udp_tick g)) = fw_duty (un_fw g)"
  by (simp_all add: udp_tick_def on_keepalive_def on_stat_def next_token_def Let_def)

text \<open>The turns of either task keep the invariant.\<close>

lemma radio_turn_inv:
  assumes "net_inv now g acc"
  shows "net_inv now (gateway_turn (recording h) c e g) acc"
proof -
  let ?g = "gateway_turn (recording h) c e g" and ?L = "map (\<lambda>(t, j). job_shot j) acc"
  have old: "subseq (gateway_shots g @ map job_shot (todo g)) ?L" using assms by (simp add: net_inv_def)
  have "subseq (gateway_shots ?g @ map job_shot (todo ?g)) (gateway_shots g @ map job_shot (todo g))"
    using gateway_turn_shots [of h c e g] by (auto simp: subseq_append' intro: list_emb_Cons)
  then have "subseq (gateway_shots ?g @ map job_shot (todo ?g)) ?L"
    using old subseq_order.order_trans by blast
  then show ?thesis using assms by (simp add: net_inv_def)
qed

lemma datagram_inv:
  assumes L: "lib_ok L" and inv: "net_inv now g acc" and t: "now \<le> t"
    and u: "udp_datagram L t (take 1024 packet) g = (r, g')"
  shows "net_inv t g' (acc @ accepted_of (UdpDatagram t packet) r)"
proof -
  from u obtain fw where o: "on_datagram L (ucast t) (t div 1000) ACK_BUF (take 1024 packet) (un_fw g) = (r, fw)"
    and f: "fw_duty (un_fw g') = fw_duty fw" "gt_radio g' = gt_radio g" "gt_pending g' = gt_pending g"
      "gt_downlinks g' = gt_downlinks g \<or> (\<exists>job token. r = Accepted job token \<and> gt_downlinks g' = gt_downlinks g @ [job])"
    by (rule datagram_cases)
  let ?acc = "accepted_of (UdpDatagram t packet) r"
  have log: "accepted_band_log ?acc = log_of r (t div 1000)"
    by (cases r) (simp_all add: accepted_band_log_def log_of_def)
  have le: "now div 1000 \<le> t div 1000" using t by (simp add: word_le_nat_alt unat_div div_le_mono)
  have "fw_step L (EvDatagram (ucast t) (t div 1000) (take 1024 packet)) (un_fw g) = (log_of r (t div 1000), fw)"
    by (simp add: o)
  from step_inv [OF L _ _ this, of "now div 1000" "accepted_band_log acc" "t div 1000"] inv le
  have duty: "duty_inv (t div 1000) (fw_duty (un_fw g')) (accepted_band_log (acc @ ?acc))"
    by (simp add: net_inv_def f(1) log)
  have same: "gateway_shots g' = gateway_shots g" by (simp add: gateway_shots_def f(2))
  have old: "subseq (gateway_shots g @ map job_shot (todo g)) (map (\<lambda>(t, j). job_shot j) acc)"
    and legal: "\<forall>(t, j) \<in> set acc. job_legal j" using inv by (simp_all add: net_inv_def)
  have shots: "subseq (gateway_shots g' @ map job_shot (todo g')) (map (\<lambda>(t, j). job_shot j) (acc @ ?acc))"
    using f(4)
  proof
    assume "gt_downlinks g' = gt_downlinks g"
    then have "todo g' = todo g" by (simp add: todo_def f(3))
    then show ?thesis using list_emb_append_mono [OF old list_emb_Nil] by (simp add: same)
  next
    assume "\<exists>job token. r = Accepted job token \<and> gt_downlinks g' = gt_downlinks g @ [job]"
    then obtain job token where "r = Accepted job token" "todo g' = todo g @ [job]"
      by (auto simp: todo_def f(3))
    then show ?thesis using list_emb_append_mono [OF old, of "[job_shot job]" "[job_shot job]"] by (simp add: same)
  qed
  have "job_legal j" if "(t', j) \<in> set ?acc" for t' j
    using that accepted_legal [OF L, of "ucast t" "t div 1000" ACK_BUF "take 1024 packet" "un_fw g" j _ fw] o
    by (cases r) (auto simp: job_legal_def)
  then have "\<forall>(t, j) \<in> set (acc @ ?acc). job_legal j" using legal by auto
  with duty shots show ?thesis unfolding net_inv_def by blast
qed

lemma net_inv_quiet:
  assumes "net_inv now g acc" "gt_radio g' = gt_radio g" "gt_pending g' = gt_pending g"
    "gt_downlinks g' = gt_downlinks g" "fw_duty (un_fw g') = fw_duty (un_fw g)"
  shows "net_inv now g' acc"
  using assms by (simp add: net_inv_def gateway_shots_def todo_def)

fun step_clock :: "u64 \<Rightarrow> gateway_step \<Rightarrow> u64" where
  "step_clock now (UdpTurn (UdpDatagram t packet)) = t"
| "step_clock now _ = now"

fun net_monotone :: "u64 \<Rightarrow> gateway_step list \<Rightarrow> bool" where
  "net_monotone now [] = True"
| "net_monotone now (e # es) = (now \<le> step_clock now e \<and> net_monotone (step_clock now e) es)"

lemma net_step_inv:
  assumes L: "lib_ok L" and inv: "net_inv now g acc" and t: "now \<le> step_clock now e"
    and s: "net_step (recording h) c L e g = (l, g')"
  shows "net_inv (step_clock now e) g' (acc @ l)"
proof (cases e)
  case (RadioTurn r)
  then show ?thesis using radio_turn_inv [OF inv, of h c r] s by auto
next
  case (UdpTurn u)
  show ?thesis
  proof (cases u)
    case (UdpDatagram t packet)
    obtain r where "udp_datagram L t (take 1024 packet) g = (r, g')" "l = accepted_of u r"
      using s UdpTurn UdpDatagram by (auto split: prod.splits)
    with datagram_inv [OF L inv] t show ?thesis by (simp add: UdpTurn UdpDatagram)
  next
    case UplinkReady
    have "fw_duty fw = fw_duty (un_fw g)" if "on_uplink L PUSH_BUF m p (un_fw g) = (d, fw)" for m p d fw
      using that by (auto simp: on_uplink_def next_token_def Let_def)
    then have "net_inv now g' acc \<and> l = []" using s UdpTurn UplinkReady
      by (auto simp: Let_def split: list.splits prod.splits intro!: net_inv_quiet [OF inv])
    then show ?thesis by (simp add: UdpTurn UplinkReady)
  next
    case Tick
    then show ?thesis using s UdpTurn net_inv_quiet [OF inv, of "udp_tick g"] by auto
  qed
qed

lemma net_run_inv:
  "\<lbrakk>lib_ok L; net_inv now g acc; net_monotone now es; net_run (recording h) c L es g = (l, g')\<rbrakk>
   \<Longrightarrow> \<exists>now'. net_inv now' g' (acc @ l)"
proof (induction es arbitrary: now g acc l)
  case (Cons e es)
  obtain l1 g1 where s: "net_step (recording h) c L e g = (l1, g1)" by force
  obtain l2 where r: "net_run (recording h) c L es g1 = (l2, g')" and l: "l = l1 @ l2"
    using Cons.prems(4) s by (auto simp: Let_def split: prod.splits)
  have "net_inv (step_clock now e) g1 (acc @ l1)"
    using Cons.prems by (intro net_step_inv [OF _ _ _ s]) simp_all
  then show ?case using Cons.IH [OF Cons.prems(1) _ _ r] Cons.prems(3) l by fastforce
qed auto

lemma shots_start: "shots (view (snd (gateway_start (recording h) c d))) = shots (view d)"
proof -
  have "wpv (gateway_start (recording h) c) (\<lambda>_ v'. shots v' = shots (view d)) (\<lambda>_ v'. shots v' = shots (view d)) (view d)"
    unfolding gateway_start_def
    by (rule wpv_seq, rule wpv_mono [OF shots_init [OF refl]]) (simp_all add: shots_configure)
  then show ?thesis by (rule wpv_snd)
qed

lemma net_boot_inv: "net_inv 0 (net_boot h c mac w) []"
proof -
  have "gateway_shots (net_boot h c mac w) = []"
    by (simp add: gateway_shots_def net_boot_def udp_start_def gateway.defs gateway_net.defs shots_start)
      (simp add: build_driver_def new_driver_def view_def shots_def shot_of_def)
  moreover have "fw_duty (un_fw (net_boot h c mac w)) = fw_duty (new_forwarder mac)" "todo (net_boot h c mac w) = []"
    by (simp_all add: net_boot_def udp_start_def gateway.defs gateway_net.defs todo_def)
  ultimately show ?thesis using new_forwarder_inv [of mac]
    by (simp add: net_inv_def accepted_band_log_def)
qed

subsection \<open>Keepalives\<close>

text \<open>
  The counters of the tick. A tick sends the datagram of its counter and resets it, or the counter
  grows and stays below the interval; nothing else touches the counters, and the gateway's
  identifier never changes.
\<close>

fun ticks :: "gateway_step list \<Rightarrow> nat" where
  "ticks [] = 0"
| "ticks (UdpTurn Tick # es) = Suc (ticks es)"
| "ticks (e # es) = ticks es"

lemma gateway_turn_more [simp]:
  "un_pull (gateway_turn h c e g) = un_pull g" "un_stat (gateway_turn h c e g) = un_stat g"
  "un_sent (gateway_turn h c e g) = un_sent g"
  by (auto simp: gateway_turn_def gateway_listen_def forward_uplink_def downlink_sent_def Let_def
      split: sum.split prod.split option.split gateway_event.split list.split)

lemma on_datagram_eui: "on_datagram L us ms cap d fw = (r, fw') \<Longrightarrow> fw_eui fw' = fw_eui fw"
  by (auto simp: on_datagram_def accept_def Let_def split: sum.splits downstream.splits prod.splits if_splits
      classification.splits)

lemma net_step_sent:
  assumes "net_step h c L e g = (l, g')"
  shows "prefix (un_sent g) (un_sent g') \<and> fw_eui (un_fw g') = fw_eui (un_fw g)
    \<and> (e \<noteq> UdpTurn Tick \<longrightarrow> un_pull g' = un_pull g \<and> un_stat g' = un_stat g)"
proof (cases e)
  case (UdpTurn u)
  then show ?thesis
  proof (cases u)
    case (UdpDatagram t packet)
    then show ?thesis using assms UdpTurn
      by (auto simp: udp_datagram_def tx_ack_def Let_def dest: on_datagram_eui
          split: prod.splits datagram_outcome.splits option.splits)
  qed (use assms in \<open>auto simp: udp_tick_def on_uplink_def on_keepalive_def on_stat_def next_token_def Let_def
      split: list.splits prod.splits\<close>)
qed (use assms in auto)

lemma interval_next: "unat x \<le> 30 \<Longrightarrow> unat (x + 1) = unat x + 1" for x :: u32
  by (subst unat_add_fits) simp_all

lemma tick_pull:
  assumes "unat (un_pull g) \<le> 10"
  shows "(\<exists>token. build_pull_data PUSH_BUF token (fw_eui (un_fw g)) \<in> set (drop (length (un_sent g)) (un_sent (udp_tick g))))
      \<and> un_pull (udp_tick g) = 0
    \<or> unat (un_pull (udp_tick g)) = unat (un_pull g) + 1 \<and> unat (un_pull (udp_tick g)) < 10"
  using assms interval_next [of "un_pull g"]
  by (auto simp: udp_tick_def on_keepalive_def on_stat_def next_token_def Let_def PULL_DATA_INTERVAL_SECS_def
      word_le_nat_alt)

lemma tick_stat:
  assumes "unat (un_stat g) \<le> 30"
  shows "(\<exists>token c. build_push_data_stat PUSH_BUF token (fw_eui (un_fw g)) c
        \<in> set (drop (length (un_sent g)) (un_sent (udp_tick g))))
      \<and> un_stat (udp_tick g) = 0
    \<or> unat (un_stat (udp_tick g)) = unat (un_stat g) + 1 \<and> unat (un_stat (udp_tick g)) < 30"
  using assms interval_next [of "un_stat g"]
  by (auto simp: udp_tick_def on_keepalive_def on_stat_def next_token_def Let_def STAT_INTERVAL_SECS_def
      word_le_nat_alt)

text \<open>
  A counter that every tick either moves on below its limit or turns into a datagram \<open>P\<close>: within as
  many ticks as are missing to the limit the datagram is sent.
\<close>

lemma net_run_sent:
  "net_run h c L es g = (l, g') \<Longrightarrow> prefix (un_sent g) (un_sent g') \<and> fw_eui (un_fw g') = fw_eui (un_fw g)"
proof (induction es arbitrary: g l)
  case (Cons e es)
  obtain l1 g1 where s: "net_step h c L e g = (l1, g1)" by force
  obtain l2 where r: "net_run h c L es g1 = (l2, g')" using Cons.prems s by (auto simp: Let_def split: prod.splits)
  show ?case using net_step_sent [OF s] Cons.IH [OF r] by auto
qed simp

definition sends :: "(bytes \<Rightarrow> bool) \<Rightarrow> 'w gateway_net \<Rightarrow> 'w gateway_net \<Rightarrow> bool" where
  "sends P g g' \<longleftrightarrow> (\<exists>d \<in> set (drop (length (un_sent g)) (un_sent g')). P d)"

lemma sends_prefix:
  "\<lbrakk>prefix (un_sent g) (un_sent g1); prefix (un_sent g1) (un_sent g2); sends P g g1 \<or> sends P g1 g2\<rbrakk> \<Longrightarrow> sends P g g2"
  by (auto simp: sends_def elim!: prefixE)

lemma ticks_reach:
  assumes tick: "\<And>g. fw_eui (un_fw g) = eui \<Longrightarrow> unat (count g) \<le> limit \<Longrightarrow>
        sends P g (udp_tick g) \<and> unat (count (udp_tick g)) \<le> limit
        \<or> unat (count (udp_tick g)) = unat (count g) + 1 \<and> unat (count (udp_tick g)) < limit"
    and other: "\<And>e g g' l. net_step h c L e g = (l, g') \<Longrightarrow> e \<noteq> UdpTurn Tick \<Longrightarrow> count g' = (count g :: u32)"
  shows "\<lbrakk>fw_eui (un_fw g) = eui; unat (count g) \<le> limit; 0 < ticks es; limit \<le> unat (count g) + ticks es;
      net_run h c L es g = (l, g')\<rbrakk> \<Longrightarrow> sends P g g'"
proof (induction es arbitrary: g l)
  case (Cons e es)
  obtain l1 g1 where s: "net_step h c L e g = (l1, g1)" by force
  obtain l2 where r: "net_run h c L es g1 = (l2, g')" using Cons.prems s by (auto simp: Let_def split: prod.splits)
  note grow = net_step_sent [OF s, THEN conjunct1] net_run_sent [OF r, THEN conjunct1]
  have eui: "fw_eui (un_fw g1) = eui" using net_step_sent [OF s] Cons.prems(1) by simp
  show ?case
  proof (cases "e = UdpTurn Tick")
    case True
    then have g1: "g1 = udp_tick g" using s by simp
    show ?thesis
    proof (cases "sends P g g1")
      case True
      then show ?thesis using sends_prefix [OF grow] by blast
    next
      case False
      then have c: "unat (count g1) = unat (count g) + 1" "unat (count g1) < limit"
        using tick [OF Cons.prems(1,2)] g1 by auto
      have "sends P g1 g'"
        using c Cons.prems(4) True by (intro Cons.IH [OF eui _ _ _ r]) simp_all
      then show ?thesis using sends_prefix [OF grow] by blast
    qed
  next
    case False
    have "ticks (e # es) = ticks es" using False by (cases "e # es" rule: ticks.cases) auto
    then have "sends P g1 g'" using other [OF s False] Cons.prems(2-4) by (intro Cons.IH [OF eui _ _ _ r]) simp_all
    then show ?thesis using sends_prefix [OF grow] by blast
  qed
qed simp

lemma pull_reach:
  "\<lbrakk>fw_eui (un_fw g) = eui; unat (un_pull g) \<le> 10; 0 < ticks es; 10 \<le> unat (un_pull g) + ticks es;
    net_run h c L es g = (l, g')\<rbrakk> \<Longrightarrow> sends (\<lambda>d. \<exists>token. d = build_pull_data PUSH_BUF token eui) g g'"
proof (erule (4) ticks_reach [rotated 2])
  fix g :: "'a gateway_net" assume "fw_eui (un_fw g) = eui" "unat (un_pull g) \<le> 10"
  then show "sends (\<lambda>d. \<exists>token. d = build_pull_data PUSH_BUF token eui) g (udp_tick g) \<and> unat (un_pull (udp_tick g)) \<le> 10
      \<or> unat (un_pull (udp_tick g)) = unat (un_pull g) + 1 \<and> unat (un_pull (udp_tick g)) < 10"
    using tick_pull [of g] by (auto simp: sends_def)
qed (use net_step_sent in blast)

lemma stat_reach:
  "\<lbrakk>fw_eui (un_fw g) = eui; unat (un_stat g) \<le> 30; 0 < ticks es; 30 \<le> unat (un_stat g) + ticks es;
    net_run h c L es g = (l, g')\<rbrakk> \<Longrightarrow> sends (\<lambda>d. \<exists>token s. d = build_push_data_stat PUSH_BUF token eui s) g g'"
proof (erule (4) ticks_reach [rotated 2])
  fix g :: "'a gateway_net" assume "fw_eui (un_fw g) = eui" "unat (un_stat g) \<le> 30"
  then show "sends (\<lambda>d. \<exists>token s. d = build_push_data_stat PUSH_BUF token eui s) g (udp_tick g) \<and> unat (un_stat (udp_tick g)) \<le> 30
      \<or> unat (un_stat (udp_tick g)) = unat (un_stat g) + 1 \<and> unat (un_stat (udp_tick g)) < 30"
    using tick_stat [of g] by (auto simp: sends_def)
qed (use net_step_sent in blast)

subsection \<open>The properties\<close>

text \<open>
  C18. A gateway sends only downlinks it accepted: from boot, over any hardware and for any
  interleaving of the two tasks with a clock that does not run backwards, what the radio transmits
  is a subsequence of the accepted jobs, each sent at most once with exactly the frequency,
  modulation, power, packet format and payload it was accepted with; every accepted job is within
  863 to 870 MHz and 22 dBm; and the airtime of the accepted jobs of a tracked sub-band within any
  59 minutes is at most its allowance.
\<close>

theorem gateway_sends_only_accepted_downlinks:
  assumes "lib_ok L" and "net_monotone 0 es" and "net_run (recording h) c L es (net_boot h c mac w) = (acc, g)"
  shows "subseq (gateway_shots g) (map (\<lambda>(t, j). job_shot j) acc)
    \<and> (\<forall>(t, j) \<in> set acc. job_legal j)
    \<and> (lm_get (fw_duty (un_fw g)) b \<noteq> None \<longrightarrow>
        granted_within x (x + 3540000) (in_band_log b (accepted_band_log acc)) \<le> unat (band_allowance b))"
proof -
  obtain now where inv: "net_inv now g acc"
    using net_run_inv [OF assms(1) net_boot_inv assms(2,3)] by auto
  have "subseq (gateway_shots g @ map job_shot (todo g)) (map (\<lambda>(t, j). job_shot j) acc)"
    and duty: "duty_inv (now div 1000) (fw_duty (un_fw g)) (accepted_band_log acc)"
    and legal: "\<forall>(t, j) \<in> set acc. job_legal j" using inv by (simp_all add: net_inv_def)
  then have "subseq (gateway_shots g) (map (\<lambda>(t, j). job_shot j) acc)"
    by (meson list_emb_prefix subseq_order.order_refl subseq_order.order_trans)
  with legal duty_invD(2) [OF duty, of b] show ?thesis by (auto dest: log_inv_bound)
qed

theorem gateway_sends_only_accepted_downlinks_witness:
  "\<exists>acc g. net_run (recording (host_test_hal 255)) sample_hub sample_lib
        [UdpTurn Tick, UdpTurn (UdpDatagram 5000 sample_downlink), RadioTurn JobArrives, RadioTurn RadioWakes]
        (net_boot (host_test_hal 255) sample_hub [0, 0, 0, 0, 0, 7] ()) = (acc, g)
     \<and> subseq (gateway_shots g) (map (\<lambda>(t, j). job_shot j) acc)"
proof -
  let ?es = "[UdpTurn Tick, UdpTurn (UdpDatagram 5000 sample_downlink), RadioTurn JobArrives, RadioTurn RadioWakes]"
  obtain acc g where r: "net_run (recording (host_test_hal 255)) sample_hub sample_lib ?es
      (net_boot (host_test_hal 255) sample_hub [0, 0, 0, 0, 0, 7] ()) = (acc, g)" by force
  have "net_monotone 0 ?es" by simp
  from gateway_sends_only_accepted_downlinks [OF sample_lib_ok this r] r show ?thesis by blast
qed

text \<open>
  C20. The gateway never goes silent: from any state with its counters in range (as after boot),
  within every ten ticks it sends a keepalive and within every thirty a status report to the
  network server, whatever datagrams, uplinks and radio events come in between.
\<close>

theorem keepalives_and_reports_are_sent:
  assumes "un_pull g \<le> 10" and "un_stat g \<le> 30" and "net_run h c L es g = (l, g')"
  shows "(10 \<le> ticks es \<longrightarrow> (\<exists>token. build_pull_data PUSH_BUF token (fw_eui (un_fw g))
        \<in> set (drop (length (un_sent g)) (un_sent g'))))
    \<and> (30 \<le> ticks es \<longrightarrow> (\<exists>token s. build_push_data_stat PUSH_BUF token (fw_eui (un_fw g)) s
        \<in> set (drop (length (un_sent g)) (un_sent g'))))"
proof (intro conjI impI)
  show "\<exists>token. build_pull_data PUSH_BUF token (fw_eui (un_fw g)) \<in> set (drop (length (un_sent g)) (un_sent g'))"
    if "10 \<le> ticks es"
    using pull_reach [OF refl _ _ _ assms(3)] assms(1) that by (auto simp: sends_def word_le_nat_alt)
  show "\<exists>token s. build_push_data_stat PUSH_BUF token (fw_eui (un_fw g)) s
      \<in> set (drop (length (un_sent g)) (un_sent g'))"
    if "30 \<le> ticks es"
    using stat_reach [OF refl _ _ _ assms(3)] assms(2) that by (auto simp: sends_def word_le_nat_alt)
qed

theorem keepalives_and_reports_are_sent_witness:
  "\<exists>token. build_pull_data PUSH_BUF token (fw_eui (new_forwarder [0, 0, 0, 0, 0, 7]))
     \<in> set (un_sent (snd (net_run (recording (host_test_hal 255)) sample_hub sample_lib (replicate 10 (UdpTurn Tick))
         (net_boot (host_test_hal 255) sample_hub [0, 0, 0, 0, 0, 7] ()))))"
proof -
  let ?g = "net_boot (host_test_hal 255) sample_hub [0, 0, 0, 0, 0, 7] ()"
  have b: "un_pull ?g = 10" "un_stat ?g = 0" "un_sent ?g = []" "un_fw ?g = new_forwarder [0, 0, 0, 0, 0, 7]"
    by (simp_all add: net_boot_def udp_start_def gateway.defs gateway_net.defs PULL_DATA_INTERVAL_SECS_def)
  have t: "ticks (replicate n (UdpTurn Tick)) = n" for n by (induction n) simp_all
  obtain l g' where r: "net_run (recording (host_test_hal 255)) sample_hub sample_lib (replicate 10 (UdpTurn Tick)) ?g = (l, g')"
    by force
  from keepalives_and_reports_are_sent [OF _ _ r] show ?thesis by (simp only: b t r) simp
qed

end
