(* ===== verification/Wifi_Task.thy ===== *)
theory Wifi_Task imports Net_Topics Hub_Config begin

text \<open>
  The WiFi manager and the address watcher (\<open>src/tasks/wifi.rs\<close>) over the station supervisor of
  \<open>Net_State\<close>. The radio driver is the parameter record \<open>wifi_driver\<close>; requests to it are recorded in
  a log with their outcome.
\<close>

subsection \<open>The manager\<close>

text \<open>A station configuration with its authentication switched off or not, and an open access point.\<close>

datatype wifi_request =
    SetStation (station_ssid: rtext) (station_password: rtext) (station_open: bool)
  | ConnectStation
  | SetAccessPoint (ap_ssid: rtext)

record 'w wifi_driver =
  wifi_call :: "wifi_request \<Rightarrow> 'w \<Rightarrow> bool \<times> 'w"

datatype wifi_phase = Trying | Associated | ApRunning | Ended

record 'w wifi_state =
  wt_driver :: 'w
  wt_phase :: wifi_phase
  wt_supervisor :: station
  wt_stats :: hub_stats
  wt_log :: "(wifi_request \<times> bool) list"
  wt_waits :: "u32 list"

definition wifi_do :: "'w wifi_driver \<Rightarrow> wifi_request \<Rightarrow> 'w wifi_state \<Rightarrow> bool \<times> 'w wifi_state" where
  "wifi_do D r t =
     (let (ok, w) = wifi_call D r (wt_driver t)
      in (ok, t\<lparr>wt_driver := w, wt_log := wt_log t @ [(r, ok)]\<rparr>))"

definition set_wifi :: "link_state \<Rightarrow> 'w wifi_state \<Rightarrow> 'w wifi_state" where
  "set_wifi l t = t\<lparr>wt_stats := set_wifi_state l (wt_stats t)\<rparr>"

definition start_station :: "'w wifi_driver \<Rightarrow> hub_config \<Rightarrow> 'w wifi_state \<Rightarrow> bool \<times> 'w wifi_state" where
  "start_station D config t =
     wifi_do D (SetStation (ssid (cfg_wifi config)) (password (cfg_wifi config)) (password (cfg_wifi config) = [])) t"

definition access_point_ssid :: "bytes \<Rightarrow> rtext" where
  "access_point_ssid device_id = push_id 32 (push_cap 32 [] (lit ''LoRaMqttHub-'')) device_id"

text \<open>The access point stays up for good; when it cannot be started the task returns.\<close>

definition run_access_point :: "'w wifi_driver \<Rightarrow> bytes \<Rightarrow> 'w wifi_state \<Rightarrow> 'w wifi_state" where
  "run_access_point D device_id t =
     (let (ok, t) = wifi_do D (SetAccessPoint (access_point_ssid device_id)) t
      in t\<lparr>wt_phase := if ok then ApRunning else Ended\<rparr>)"

definition wifi_failed :: "'w wifi_state \<Rightarrow> 'w wifi_state" where
  "wifi_failed t =
     (let (secs, s) = station_failed (wt_supervisor t)
      in t\<lparr>wt_supervisor := s, wt_waits := wt_waits t @ [secs]\<rparr>)"

definition wifi_boot :: "'w wifi_driver \<Rightarrow> hub_config \<Rightarrow> bytes \<Rightarrow> 'w \<Rightarrow> hub_stats \<Rightarrow> 'w wifi_state" where
  "wifi_boot D config device_id w stats =
     (let t = \<lparr>wt_driver = w, wt_phase = Trying, wt_supervisor = new_station, wt_stats = stats, wt_log = [], wt_waits = []\<rparr>
      in if wifi_provisioned config then t
         else run_access_point D device_id (set_wifi Unprovisioned t))"

text \<open>One turn of the loop, up to the end of its delay or to the association.\<close>

definition wifi_turn :: "'w wifi_driver \<Rightarrow> hub_config \<Rightarrow> bytes \<Rightarrow> 'w wifi_state \<Rightarrow> 'w wifi_state" where
  "wifi_turn D config device_id t =
     (case next_action (wt_supervisor t) of
        FallbackToAccessPoint \<Rightarrow> run_access_point D device_id (set_wifi Unprovisioned t)
      | Start \<Rightarrow>
          (let (ok, t) = start_station D config t
           in if ok then t\<lparr>wt_supervisor := station_started (wt_supervisor t)\<rparr> else wifi_failed t)
      | Connect \<Rightarrow>
          (let (ok, t) = wifi_do D ConnectStation (set_wifi Connecting t)
           in if ok then
                set_wifi Connected (t\<lparr>wt_supervisor := station_connected (wt_supervisor t), wt_phase := Associated\<rparr>)
              else wifi_failed (set_wifi Disconnected t)))"

datatype wifi_event = LoopTurn | LinkLost

fun wifi_step :: "'w wifi_driver \<Rightarrow> hub_config \<Rightarrow> bytes \<Rightarrow> wifi_event \<Rightarrow> 'w wifi_state \<Rightarrow> 'w wifi_state" where
  "wifi_step D config device_id LoopTurn t =
     (if wt_phase t = Trying then wifi_turn D config device_id t else t)"
| "wifi_step D config device_id LinkLost t =
     (if wt_phase t = Associated then set_wifi Disconnected (t\<lparr>wt_phase := Trying\<rparr>) else t)"

definition wifi_run ::
  "'w wifi_driver \<Rightarrow> hub_config \<Rightarrow> bytes \<Rightarrow> wifi_event list \<Rightarrow> 'w wifi_state \<Rightarrow> 'w wifi_state" where
  "wifi_run D config device_id es t = foldl (\<lambda>t e. wifi_step D config device_id e t) t es"

subsection \<open>The address watcher\<close>

text \<open>
  The watcher waits for the configuration to come up or to go down, in turns; \<open>config_v4\<close> is what
  the stack reports then.
\<close>

record watcher =
  nw_up :: bool
  nw_stats :: hub_stats

datatype net_event = ConfigUp "(u8 \<times> u8 \<times> u8 \<times> u8) option" | ConfigDown

fun net_watch_turn :: "net_event \<Rightarrow> watcher \<Rightarrow> watcher" where
  "net_watch_turn (ConfigUp config_v4) n =
     (if nw_up n then n
      else n\<lparr>nw_up := True, nw_stats := (case config_v4 of None \<Rightarrow> nw_stats n | Some address \<Rightarrow> set_ip address (nw_stats n))\<rparr>)"
| "net_watch_turn ConfigDown n =
     (if nw_up n then n\<lparr>nw_up := False, nw_stats := clear_ip (nw_stats n)\<rparr> else n)"

definition net_watch_boot :: "hub_stats \<Rightarrow> watcher" where
  "net_watch_boot stats = \<lparr>nw_up = False, nw_stats = stats\<rparr>"

text \<open>The reported address is the one of the stack, or none.\<close>

fun reported_ip :: "net_event list \<Rightarrow> bool \<times> (u8 \<times> u8 \<times> u8 \<times> u8) \<Rightarrow> bool \<times> (u8 \<times> u8 \<times> u8 \<times> u8)" where
  "reported_ip [] s = s"
| "reported_ip (ConfigUp a # es) (up, v) =
     reported_ip es (if up then (up, v) else (True, case a of None \<Rightarrow> v | Some w \<Rightarrow> w))"
| "reported_ip (ConfigDown # es) (up, v) = reported_ip es (False, if up then (0, 0, 0, 0) else v)"

lemma be_octets_zero: "be_octets 0 = (0, 0, 0, 0)"
  by (simp add: be_octets_def)

lemma watcher_reports:
  "(nw_up (foldl (\<lambda>n e. net_watch_turn e n) n es), be_octets (st_ip (nw_stats (foldl (\<lambda>n e. net_watch_turn e n) n es))))
   = reported_ip es (nw_up n, be_octets (st_ip (nw_stats n)))"
proof (induction es arbitrary: n)
  case (Cons e es)
  then show ?case
    by (cases e) (auto simp: set_ip_def clear_ip_def be_octets_zero split: option.splits prod.splits)
qed simp

subsection \<open>The supervisor in the loop\<close>

text \<open>Failures since the last association, read off the log.\<close>

definition count_failure :: "nat \<Rightarrow> wifi_request \<times> bool \<Rightarrow> nat" where
  "count_failure n r = (if snd r then (if fst r = ConnectStation then 0 else n) else Suc n)"

definition failures :: "(wifi_request \<times> bool) list \<Rightarrow> nat" where
  "failures log = foldl count_failure 0 log"

lemma failures_append [simp]: "failures [] = 0" "failures (log @ [r]) = count_failure (failures log) r"
  by (simp_all add: failures_def)

definition asked_for_ap :: "(wifi_request \<times> bool) list \<Rightarrow> bool" where
  "asked_for_ap log \<longleftrightarrow> (\<exists>s ok. (SetAccessPoint s, ok) \<in> set log)"

lemma asked_for_ap_append [simp]:
  "\<not> asked_for_ap []" "asked_for_ap [(r, ok)] \<longleftrightarrow> (\<exists>s. r = SetAccessPoint s)"
  "asked_for_ap (log @ [(r, ok)]) \<longleftrightarrow> asked_for_ap log \<or> (\<exists>s. r = SetAccessPoint s)"
  by (auto simp: asked_for_ap_def)

definition wifi_inv :: "'w wifi_state \<Rightarrow> bool" where
  "wifi_inv t \<longleftrightarrow>
     (wt_phase t = Trying \<or> wt_phase t = Associated) \<and> \<not> asked_for_ap (wt_log t)
       \<and> station_ok (wt_supervisor t) (failures (wt_log t)) \<and> failures (wt_log t) \<le> 10
       \<and> (wt_phase t = Associated \<longrightarrow> failures (wt_log t) = 0)
       \<and> (wt_phase t = Associated \<longleftrightarrow> st_wifi_state (wt_stats t) = link_state_byte Connected)
     \<or> (wt_phase t = ApRunning \<or> wt_phase t = Ended) \<and> asked_for_ap (wt_log t)
       \<and> st_wifi_state (wt_stats t) = link_state_byte Unprovisioned"

lemmas wifi_defs = run_access_point_def start_station_def wifi_do_def set_wifi_def set_wifi_state_def wifi_failed_def
  case_prod_beta Let_def

lemma next_action_failures:
  assumes "station_ok s n" "n \<le> 10"
  shows "next_action s = (if n = 10 then FallbackToAccessPoint else if sta_started s then Connect else Start)"
  using assms by (auto simp: next_action_def station_ok_def MAX_STA_FAILURES_def word_le_nat_alt)

lemma wifi_turn_inv:
  assumes "wifi_inv t" "wt_phase t = Trying"
  shows "wifi_inv (wifi_turn D config i t)"
proof -
  let ?n = "failures (wt_log t)"
  have ok: "station_ok (wt_supervisor t) ?n" and le: "?n \<le> 10" using assms by (auto simp: wifi_inv_def)
  have f: "station_ok (snd (station_failed (wt_supervisor t))) (Suc ?n)"
    using station_failed_ok [OF ok] le by simp
  have st: "station_ok (station_started (wt_supervisor t)) ?n"
    using ok by (simp add: station_ok_def station_started_def)
  show ?thesis
    using assms le ok f st station_ok_connected [of "wt_supervisor t"]
    by (cases "?n = 10") (auto simp: wifi_turn_def next_action_failures [OF ok le] wifi_inv_def wifi_defs count_failure_def)
qed

lemma wifi_step_inv: "wifi_inv t \<Longrightarrow> wifi_inv (wifi_step D config i e t)"
  by (cases e) (auto simp: wifi_turn_inv, auto simp: wifi_inv_def set_wifi_def set_wifi_state_def)

lemma wifi_run_inv: "wifi_inv t \<Longrightarrow> wifi_inv (wifi_run D config i es t)"
  by (induction es arbitrary: t) (simp_all add: wifi_run_def wifi_step_inv)

lemma wifi_boot_inv: "st_wifi_state stats \<noteq> link_state_byte Connected \<Longrightarrow> wifi_inv (wifi_boot D config i w stats)"
  using station_ok_new by (auto simp: wifi_boot_def wifi_inv_def wifi_defs)

text \<open>How many turns a station without success can still make.\<close>

definition turns_left :: "'w wifi_state \<Rightarrow> nat" where
  "turns_left t = (if sta_started (wt_supervisor t) then 0 else 1) + (11 - failures (wt_log t))"

lemma turn_progress:
  fixes D config i
  assumes "wifi_inv t" "wt_phase t = Trying"
  defines "t' \<equiv> wifi_turn D config i t"
  shows "wt_log t' = wt_log t @ [last (wt_log t')] \<and> (last (wt_log t') = (ConnectStation, True) \<or> asked_for_ap (wt_log t')
       \<or> wt_phase t' = Trying \<and> turns_left t' < turns_left t)"
proof -
  let ?n = "failures (wt_log t)"
  have ok: "station_ok (wt_supervisor t) ?n" and le: "?n \<le> 10" using assms by (auto simp: wifi_inv_def)
  note action = next_action_failures [OF ok le]
  have s: "sta_started (snd (station_failed (wt_supervisor t))) = sta_started (wt_supervisor t)"
    by (simp add: station_failed_def case_prod_beta)
  consider "?n = 10" | "?n < 10" "\<not> sta_started (wt_supervisor t)" | "?n < 10" "sta_started (wt_supervisor t)"
    using le by fastforce
  then show ?thesis
  proof cases
    case 1
    then show ?thesis by (simp add: t'_def wifi_turn_def action wifi_defs)
  next
    case 2
    then show ?thesis
      using assms(2) s by (simp add: t'_def wifi_turn_def action wifi_defs count_failure_def turns_left_def station_started_def)
  next
    case 3
    then show ?thesis
      using assms(2) s by (simp add: t'_def wifi_turn_def action wifi_defs count_failure_def turns_left_def, linarith)
  qed
qed

lemma wifi_run_Cons: "wifi_run D config i (e # es) t = wifi_run D config i es (wifi_step D config i e t)"
  by (simp add: wifi_run_def)

lemma log_grows: "\<exists>rs. wt_log (wifi_run D config i es t) = wt_log t @ rs"
proof (induction es arbitrary: t)
  case (Cons e es)
  have "\<exists>rs. wt_log (wifi_step D config i e t) = wt_log t @ rs"
    by (cases e) (auto simp: wifi_turn_def wifi_defs split: station_action.split)
  then show ?case using Cons [of "wifi_step D config i e t"] by (auto simp: wifi_run_Cons)
qed (simp add: wifi_run_def)

lemma turns_run_out:
  assumes "wifi_inv t" "wt_phase t = Trying" "turns_left t \<le> n"
  shows "\<exists>rs. wt_log (wifi_run D config i (replicate n LoopTurn) t) = wt_log t @ rs
    \<and> ((ConnectStation, True) \<in> set rs \<or> asked_for_ap (wt_log t @ rs))"
  using assms
proof (induction n arbitrary: t)
  case 0
  then have "failures (wt_log t) \<le> 10" by (auto simp: wifi_inv_def)
  then show ?case using 0 by (simp add: turns_left_def)
next
  case (Suc n)
  let ?t = "wifi_turn D config i t"
  have run: "wifi_run D config i (replicate (Suc n) LoopTurn) t = wifi_run D config i (replicate n LoopTurn) ?t"
    using Suc.prems(2) by (simp add: wifi_run_Cons)
  obtain x where l: "wt_log ?t = wt_log t @ [x]"
    and p: "x = (ConnectStation, True) \<or> asked_for_ap (wt_log ?t) \<or> wt_phase ?t = Trying \<and> turns_left ?t < turns_left t"
    using turn_progress [OF Suc.prems(1,2), of D config i] by blast
  show ?case
  proof (cases "x = (ConnectStation, True) \<or> asked_for_ap (wt_log ?t)")
    case True
    obtain rs where "wt_log (wifi_run D config i (replicate n LoopTurn) ?t) = wt_log t @ x # rs"
      using log_grows [of D config i "replicate n LoopTurn" ?t] l by auto
    then show ?thesis using True l unfolding run by (intro exI [of _ "x # rs"]) (auto simp: asked_for_ap_def)
  next
    case False
    then have "turns_left ?t \<le> n" "wt_phase ?t = Trying" using p Suc.prems(3) by auto
    then obtain rs where "wt_log (wifi_run D config i (replicate n LoopTurn) ?t) = wt_log ?t @ rs"
      "(ConnectStation, True) \<in> set rs \<or> asked_for_ap (wt_log ?t @ rs)"
      using Suc.IH [OF wifi_turn_inv [OF Suc.prems(1,2)]] by blast
    then show ?thesis using l unfolding run by (intro exI [of _ "x # rs"]) auto
  qed
qed

subsection \<open>Properties\<close>

text \<open>
  The access point is the last resort: the log of a hub that asked for it ends with that request, after ten
  failures since the last association.
\<close>

definition last_resort :: "bytes \<Rightarrow> (wifi_request \<times> bool) list \<Rightarrow> bool" where
  "last_resort device_id log \<longleftrightarrow>
     (\<exists>before ok. log = before @ [(SetAccessPoint (access_point_ssid device_id), ok)]
        \<and> \<not> asked_for_ap before \<and> failures before = 10)"

lemma turn_last_resort:
  assumes "wifi_inv t" "asked_for_ap (wt_log t) \<longrightarrow> last_resort i (wt_log t)"
  shows "asked_for_ap (wt_log (wifi_step D config i e t)) \<longrightarrow> last_resort i (wt_log (wifi_step D config i e t))"
proof (cases "asked_for_ap (wt_log t)")
  case True
  then have "wt_log (wifi_step D config i e t) = wt_log t"
    using assms(1) by (cases e) (auto simp: wifi_inv_def set_wifi_def)
  then show ?thesis using assms(2) by simp
next
  case False
  then have n: "station_ok (wt_supervisor t) (failures (wt_log t))" "failures (wt_log t) \<le> 10"
    using assms(1) by (auto simp: wifi_inv_def)
  show ?thesis
    using False next_action_failures [OF n]
    by (cases e) (auto simp: wifi_turn_def wifi_defs last_resort_def split: if_splits)
qed

lemma run_last_resort:
  "wifi_inv t \<Longrightarrow> asked_for_ap (wt_log t) \<longrightarrow> last_resort i (wt_log t) \<Longrightarrow>
   asked_for_ap (wt_log (wifi_run D config i es t)) \<longrightarrow> last_resort i (wt_log (wifi_run D config i es t))"
proof (induction es arbitrary: t)
  case (Cons e es)
  show ?case
    unfolding wifi_run_Cons by (rule Cons.IH [OF wifi_step_inv [OF Cons.prems(1)] turn_last_resort [OF Cons.prems]])
qed (simp add: wifi_run_def)

text \<open>A hub without a network name does nothing but offer the access point.\<close>

lemma unprovisioned_run:
  assumes "\<not> wifi_provisioned config"
  shows "wifi_run D config i es (wifi_boot D config i w stats) = wifi_boot D config i w stats
    \<and> (\<exists>ok. wt_log (wifi_boot D config i w stats) = [(SetAccessPoint (access_point_ssid i), ok)])
    \<and> link_or_default (st_wifi_state (wt_stats (wifi_boot D config i w stats))) = Unprovisioned"
proof -
  let ?b = "wifi_boot D config i w stats"
  have p: "wt_phase ?b = ApRunning \<or> wt_phase ?b = Ended" using assms by (simp add: wifi_boot_def wifi_defs)
  have "wifi_step D config i e ?b = ?b" for e using p by (cases e) auto
  then have "wifi_run D config i es ?b = ?b" by (induction es) (simp_all add: wifi_run_def)
  moreover have "\<exists>ok. wt_log ?b = [(SetAccessPoint (access_point_ssid i), ok)]"
    and "link_or_default (st_wifi_state (wt_stats ?b)) = Unprovisioned"
    using assms link_or_default_byte [of Unprovisioned] by (simp_all add: wifi_boot_def wifi_defs)
  ultimately show ?thesis by simp
qed

text \<open>
  C28. The station or the access point, over any driver and any events, from start-up with statistics
  that do not say connected. A hub without a network name asks for the provisioning access point at
  once, and for nothing else ever. A hub with one, whenever it is neither associated nor done with
  the station, needs at most twelve more turns of the loop to be associated or to ask for the access
  point; it asks for it at most once, after exactly ten failures since the last association, and for
  nothing afterwards, whether the driver grants it or not. In both cases the statistics say connected,
  between the turns, exactly while the station is associated.
\<close>

theorem station_or_access_point:
  assumes "st_wifi_state stats \<noteq> link_state_byte Connected"
    and t: "t = wifi_run D config device_id es (wifi_boot D config device_id w stats)"
  shows "(if wifi_provisioned config then
        (wt_phase t = Trying \<longrightarrow> 12 \<le> n \<longrightarrow>
          (\<exists>rs. wt_log (wifi_run D config device_id (replicate n LoopTurn) t) = wt_log t @ rs
             \<and> ((ConnectStation, True) \<in> set rs \<or> asked_for_ap (wt_log t @ rs))))
      \<and> (asked_for_ap (wt_log t) \<longrightarrow>
          (\<exists>before ok. wt_log t = before @ [(SetAccessPoint (access_point_ssid device_id), ok)]
             \<and> \<not> asked_for_ap before \<and> failures before = 10))
      else (\<exists>ok. wt_log t = [(SetAccessPoint (access_point_ssid device_id), ok)])
         \<and> link_or_default (st_wifi_state (wt_stats t)) = Unprovisioned)
    \<and> (link_or_default (st_wifi_state (wt_stats t)) = Connected \<longleftrightarrow> wt_phase t = Associated)"
proof -
  have inv: "wifi_inv t" unfolding t by (rule wifi_run_inv [OF wifi_boot_inv [OF assms(1)]])
  have "turns_left t \<le> 12" by (cases "sta_started (wt_supervisor t)") (simp_all add: turns_left_def trans_le_add1 Suc_diff_le)
  then have turns: "\<exists>rs. wt_log (wifi_run D config device_id (replicate n LoopTurn) t) = wt_log t @ rs
      \<and> ((ConnectStation, True) \<in> set rs \<or> asked_for_ap (wt_log t @ rs))" if "wt_phase t = Trying" "12 \<le> n"
    using turns_run_out [OF inv that(1)] that(2) by auto
  have resort: "asked_for_ap (wt_log t) \<longrightarrow> last_resort device_id (wt_log t)" if "wifi_provisioned config"
    unfolding t by (rule run_last_resort [OF wifi_boot_inv [OF assms(1)]]) (use that in \<open>simp add: wifi_boot_def\<close>)
  have "st_wifi_state (wt_stats t) = link_state_byte Connected \<longleftrightarrow> wt_phase t = Associated"
    using inv by (auto simp: wifi_inv_def)
  then have "link_or_default (st_wifi_state (wt_stats t)) = Connected \<longleftrightarrow> wt_phase t = Associated"
    by (simp only: link_or_default_Connected)
  moreover have "(\<exists>ok. wt_log t = [(SetAccessPoint (access_point_ssid device_id), ok)])
      \<and> link_or_default (st_wifi_state (wt_stats t)) = Unprovisioned" if "\<not> wifi_provisioned config"
    using unprovisioned_run [OF that, of D device_id es w stats] by (simp add: t)
  ultimately show ?thesis using turns resort unfolding last_resort_def by presburger
qed

definition dead_driver :: "unit wifi_driver" where
  "dead_driver = \<lparr>wifi_call = (\<lambda>r w. ((\<forall>s. r \<noteq> SetAccessPoint s) \<and> r \<noteq> ConnectStation, w))\<rparr>"

definition home_config :: hub_config where
  "home_config = \<lparr>cfg_version = 1, cfg_mode = Bridge, cfg_wifi = \<lparr>ssid = lit ''home'', password = []\<rparr>,
     cfg_mqtt = \<lparr>mqtt_host = [], mqtt_port = 1883, client_id = []\<rparr>, cfg_gateway = default_gateway\<rparr>"

theorem station_or_access_point_witness:
  "\<exists>rs. wt_log (wifi_run dead_driver home_config [1, 2, 3] (replicate 12 LoopTurn)
        (wifi_boot dead_driver home_config [1, 2, 3] () new_stats)) = rs
     \<and> ((ConnectStation, True) \<in> set rs \<or> asked_for_ap rs)"
proof -
  have p: "wifi_provisioned home_config" by (simp add: wifi_provisioned_def home_config_def)
  have b: "wt_phase (wifi_boot dead_driver home_config [1, 2, 3] () new_stats) = Trying
      \<and> wt_log (wifi_boot dead_driver home_config [1, 2, 3] () new_stats) = []"
    using p by (simp add: wifi_boot_def)
  have "st_wifi_state new_stats \<noteq> link_state_byte Connected" by (simp add: new_stats_def)
  then show ?thesis
    using station_or_access_point [where stats = new_stats and D = dead_driver and config = home_config
        and device_id = "[1, 2, 3]" and es = "[]" and w = "()" and n = 12, OF _ refl] b p
    by (simp add: wifi_run_def)
qed

text \<open>
  The reported address follows the network stack: after any sequence of changes the status
  shows the address of the last configuration that came up, and none once it has gone down.
\<close>

theorem reported_address_follows:
  "be_octets (st_ip (nw_stats (foldl (\<lambda>n e. net_watch_turn e n) (net_watch_boot new_stats) es)))
   = snd (reported_ip es (False, (0, 0, 0, 0)))"
  using arg_cong [OF watcher_reports [of "net_watch_boot new_stats" es], of snd]
  by (simp add: net_watch_boot_def new_stats_def be_octets_zero)

end
