(* ===== verification/Portal_Net.thy ===== *)
theory Portal_Net imports Prelude begin

text \<open>
  The DNS responder and the DHCP server of the provisioning hotspot (\<open>src/portal/dns.rs\<close>,
  \<open>src/portal/dhcp.rs\<close>, the addresses of \<open>src/portal/mod.rs\<close>). Replies are written into a buffer
  whose old contents are given; a write outside of it would panic, which is \<open>None\<close>.
\<close>

subsection \<open>Addresses and buffers\<close>

definition AP_IP :: bytes where "AP_IP = [192, 168, 4, 1]"
definition CLIENT_IP :: bytes where "CLIENT_IP = [192, 168, 4, 2]"
definition NETMASK :: bytes where "NETMASK = [255, 255, 255, 0]"

lemma length_addresses [simp]: "length AP_IP = 4" "length CLIENT_IP = 4" "length NETMASK = 4"
  by (simp_all add: AP_IP_def CLIENT_IP_def NETMASK_def)

definition write_at :: "nat \<Rightarrow> bytes \<Rightarrow> bytes \<Rightarrow> bytes option" where
  "write_at i bs out =
     (if i + length bs \<le> length out then Some (take i out @ bs @ drop (i + length bs) out) else None)"

fun write_all_at :: "(nat \<times> bytes) list \<Rightarrow> bytes \<Rightarrow> bytes option" where
  "write_all_at [] out = Some out"
| "write_all_at ((i, bs) # ws) out = Option.bind (write_at i bs out) (write_all_at ws)"

subsection \<open>DNS\<close>

text \<open>The offset of the zero byte that ends the name, or beyond the datagram.\<close>

function name_end :: "bytes \<Rightarrow> nat \<Rightarrow> nat" where
  "name_end query at =
     (if at < length query \<and> query ! at \<noteq> 0 then name_end query (at + unat (query ! at) + 1) else at)"
  by pat_completeness auto

termination by (relation "measure (\<lambda>(query, at). length query - at)") auto

declare name_end.simps [simp del]

definition dns_record :: bytes where
  "dns_record = [0xC0, 0x0C, 0x00, 0x01, 0x00, 0x01, 0x00, 0x00, 0x00, 0x3C, 0x00, 0x04] @ AP_IP"

text \<open>The length of the reply, if there is one, and the buffer.\<close>

definition answer :: "bytes \<Rightarrow> bytes \<Rightarrow> (nat option \<times> bytes) option" where
  "answer query out =
     (if length query < 12 \<or> length out - 16 < length query then Some (None, out)
      else
        let is_response = (query ! 2 AND 0x80 \<noteq> 0);
            question_count = from_be16 (query ! 4) (query ! 5)
        in if is_response \<or> question_count = 0 then Some (None, out)
           else
             let question_end = name_end query 12 + 5
             in if length query < question_end then Some (None, out)
                else
                  map_option (\<lambda>out. (Some (question_end + 16), out))
                    (write_all_at
                      [(0, take question_end query), (2, [0x81]), (3, [0x80]), (4, [0]), (5, [1]), (6, [0]), (7, [1]),
                       (8, [0, 0, 0, 0]), (question_end, dns_record)] out))"

subsection \<open>DHCP\<close>

definition MAGIC :: bytes where "MAGIC = [0x63, 0x82, 0x53, 0x63]"
definition OPTIONS_AT :: nat where "OPTIONS_AT = 240"

definition OPT_MESSAGE_TYPE :: u8 where "OPT_MESSAGE_TYPE = 53"
definition OPT_SERVER_ID :: u8 where "OPT_SERVER_ID = 54"
definition OPT_LEASE_TIME :: u8 where "OPT_LEASE_TIME = 51"
definition OPT_SUBNET_MASK :: u8 where "OPT_SUBNET_MASK = 1"
definition OPT_ROUTER :: u8 where "OPT_ROUTER = 3"
definition OPT_DNS :: u8 where "OPT_DNS = 6"
definition OPT_END :: u8 where "OPT_END = 255"

definition DISCOVER :: u8 where "DISCOVER = 1"
definition OFFER :: u8 where "OFFER = 2"
definition REQUEST :: u8 where "REQUEST = 3"
definition ACK :: u8 where "ACK = 5"

lemmas dhcp_constants = MAGIC_def OPTIONS_AT_def OPT_MESSAGE_TYPE_def OPT_SERVER_ID_def OPT_LEASE_TIME_def
  OPT_SUBNET_MASK_def OPT_ROUTER_def OPT_DNS_def OPT_END_def DISCOVER_def OFFER_def REQUEST_def ACK_def

record dhcp_request =
  transaction_id :: bytes
  client_mac :: bytes
  message_type :: u8

function option_type :: "bytes \<Rightarrow> nat \<Rightarrow> u8 option" where
  "option_type data at =
     (if at + 1 < length data then
        if data ! at = OPT_END then None
        else if data ! at = 0 then option_type data (at + 1)
        else
          let len = unat (data ! (at + 1))
          in if data ! at = OPT_MESSAGE_TYPE \<and> len = 1 \<and> at + 2 < length data then
               let t = data ! (at + 2)
               in if t = DISCOVER \<or> t = REQUEST then Some t else None
             else option_type data (at + (2 + len))
      else None)"
  by pat_completeness auto

termination by (relation "measure (\<lambda>(data, at). length data - at)") auto

declare option_type.simps [simp del]

definition parse_request :: "bytes \<Rightarrow> dhcp_request option" where
  "parse_request data =
     (if length data < OPTIONS_AT \<or> data ! 0 \<noteq> 1 \<or> take 4 (drop 236 data) \<noteq> MAGIC then None
      else map_option (\<lambda>t. \<lparr>transaction_id = take 4 (drop 4 data), client_mac = take 16 (drop 28 data), message_type = t\<rparr>)
             (option_type data OPTIONS_AT))"

text \<open>The options of a reply, written one after the other from the given offset, with the offset behind them.\<close>

fun write_options :: "(u8 \<times> bytes) list \<Rightarrow> nat \<Rightarrow> bytes \<Rightarrow> (nat \<times> bytes) option" where
  "write_options [] at out = Some (at, out)"
| "write_options ((code, val) # os) at out =
     Option.bind (write_all_at [(at, [code]), (at + 1, [of_nat (length val)]), (at + 2, val)] out)
       (write_options os (at + (2 + length val)))"

definition reply_options :: "dhcp_request \<Rightarrow> (u8 \<times> bytes) list" where
  "reply_options r =
     (let reply_type = (if message_type r = DISCOVER then OFFER else ACK)
      in [(OPT_MESSAGE_TYPE, [reply_type]), (OPT_SERVER_ID, AP_IP), (OPT_LEASE_TIME, to_be32 3600),
          (OPT_SUBNET_MASK, NETMASK), (OPT_ROUTER, AP_IP), (OPT_DNS, AP_IP)])"

definition build_reply :: "dhcp_request \<Rightarrow> bytes \<Rightarrow> (nat \<times> bytes) option" where
  "build_reply r out =
     Option.bind (write_all_at [(0, replicate (length out) 0), (0, [2]), (1, [1]), (2, [6]), (4, transaction_id r),
         (10, [0x80]), (16, CLIENT_IP), (20, AP_IP), (28, client_mac r), (236, MAGIC)] out) (\<lambda>out.
       Option.bind (write_options (reply_options r) OPTIONS_AT out) (\<lambda>(at, out).
         map_option (\<lambda>out. (at + 1, out)) (write_at at [OPT_END] out)))"

subsection \<open>Writing into a buffer\<close>

lemma write_at_fits:
  "i + length bs \<le> length out \<Longrightarrow> write_at i bs out = Some (take i out @ bs @ drop (i + length bs) out)"
  by (simp add: write_at_def)

lemma write_at_middle:
  "i = length xs \<Longrightarrow> length ys = length bs \<Longrightarrow> write_at i bs (xs @ ys @ zs) = Some (xs @ bs @ zs)"
  by (simp add: write_at_def)

subsection \<open>DNS answers\<close>

lemma name_end_ge: "at \<le> name_end query at"
proof (induction query at rule: name_end.induct)
  case (1 query at)
  then show ?case by (subst name_end.simps) auto
qed

definition label_bytes :: "bytes list \<Rightarrow> bytes" where
  "label_bytes ls = concat (map (\<lambda>l. of_nat (length l) # l) ls)"

text \<open>Labels have 1 to 63 bytes.\<close>

definition label_ok :: "bytes \<Rightarrow> bool" where
  "label_ok l \<longleftrightarrow> l \<noteq> [] \<and> length l < 64"

lemma name_end_labels:
  "\<forall>l \<in> set ls. label_ok l \<Longrightarrow>
   name_end (pre @ label_bytes ls @ 0 # rest) (length pre) = length pre + length (label_bytes ls)"
proof (induction ls arbitrary: pre)
  case Nil
  then show ?case by (subst name_end.simps) (simp add: label_bytes_def)
next
  case (Cons l ls)
  let ?b = "of_nat (length l) :: u8"
  have b: "unat ?b = length l" "?b \<noteq> 0" using Cons.prems by (auto simp: label_ok_def unat_of_nat take_bit_eq_mod word_unat_eq_iff)
  have "name_end ((pre @ ?b # l) @ label_bytes ls @ 0 # rest) (length (pre @ ?b # l)) =
      length (pre @ ?b # l) + length (label_bytes ls)"
    using Cons by (intro Cons.IH) simp
  then show ?case using b by (subst name_end.simps) (simp add: label_bytes_def nth_append)
qed

lemma header_split: "12 \<le> length xs \<Longrightarrow> \<exists>a b c d e f g h i j k l ys. xs = [a, b, c, d, e, f, g, h, i, j, k, l] @ ys"
  by (simp add: numeral_eq_Suc Suc_le_length_iff) blast

lemma write_all_at_append: "write_all_at (xs @ ys) out = Option.bind (write_all_at xs out) (write_all_at ys)"
proof (induction xs arbitrary: out)
  case (Cons w xs)
  then show ?case by (cases w; cases "write_at (fst w) (snd w) out") simp_all
qed simp

lemma header_writes:
  "write_all_at [(2, [0x81]), (3, [0x80]), (4, [0]), (5, [1]), (6, [0]), (7, [1]), (8, [0, 0, 0, 0])]
     ([a, b, c, d, e, f, g, h, i, j, k, l] @ xs) = Some ([a, b, 0x81, 0x80, 0, 1, 0, 1, 0, 0, 0, 0] @ xs)"
  by (simp add: write_at_def)

lemma answer_writes:
  assumes "12 \<le> length q" "length q + 16 \<le> length out"
  shows "\<exists>out'. write_all_at
      [(0, q), (2, [0x81]), (3, [0x80]), (4, [0]), (5, [1]), (6, [0]), (7, [1]), (8, [0, 0, 0, 0]), (length q, dns_record)] out
      = Some out' \<and> length out' = length out
    \<and> take (length q + 16) out' = take 2 q @ [0x81, 0x80, 0, 1, 0, 1, 0, 0, 0, 0] @ drop 12 q @ dns_record"
proof -
  obtain a b c d e f g h i j k l ys where q: "q = [a, b, c, d, e, f, g, h, i, j, k, l] @ ys"
    using header_split [OF assms(1)] by blast
  define zs where "zs = take 16 (drop (length q) out)"
  define ws where "ws = drop (16 + length q) out"
  have out: "drop (length q) out = zs @ ws" "length zs = 16"
    using assms(2) append_take_drop_id [of 16 "drop (length q) out"] by (simp_all add: zs_def ws_def add.commute)
  have first: "write_at 0 q out = Some (q @ zs @ ws)" using assms(2) out by (simp add: write_at_def)
  have r: "length dns_record = 16" by (simp add: dns_record_def)
  let ?h = "[a, b, 0x81, 0x80, 0, 1, 0, 1, 0, 0, 0, 0] @ ys"
  have last: "write_at (length q) dns_record (?h @ zs @ ws) = Some (?h @ dns_record @ ws)"
    using write_at_middle [of "length q" ?h zs dns_record ws] q r out(2) by simp
  have len: "length (?h @ dns_record @ ws) = length out"
    using assms(2) q r by (simp add: ws_def)
  let ?H = "[(2, [0x81]), (3, [0x80]), (4, [0]), (5, [1]), (6, [0]), (7, [1]), (8, [0, 0, 0, 0])] :: (nat \<times> bytes) list"
  have "write_all_at [(0, q)] out = Some (q @ zs @ ws)" using first by simp
  moreover have "write_all_at ?H (q @ zs @ ws) = Some (?h @ zs @ ws)"
    using header_writes [of a b c d e f g h i j k l "ys @ zs @ ws"] unfolding q append_assoc .
  moreover have "write_all_at [(length q, dns_record)] (?h @ zs @ ws) = Some (?h @ dns_record @ ws)"
    using last by simp
  ultimately have "write_all_at ([(0, q)] @ ?H @ [(length q, dns_record)]) out = Some (?h @ dns_record @ ws)"
    unfolding write_all_at_append by (simp only: bind.bind_lunit)
  then have "write_all_at [(0, q), (2, [0x81]), (3, [0x80]), (4, [0]), (5, [1]), (6, [0]), (7, [1]), (8, [0, 0, 0, 0]),
      (length q, dns_record)] out = Some (?h @ dns_record @ ws)"
    by (simp only: append_Cons append_Nil)
  moreover have n: "length q + 16 = length (?h @ dns_record)" using q r by simp
  have "take (length q + 16) ((?h @ dns_record) @ ws) = ?h @ dns_record" unfolding n by (rule append_eq_conv_conj [THEN iffD1, THEN conjunct1, symmetric]) simp
  then have "take (length q + 16) (?h @ dns_record @ ws) = ?h @ dns_record" by (simp only: append_assoc)
  ultimately show ?thesis using len q by simp
qed

text \<open>What the reply to an accepted query is.\<close>

definition dns_reply :: "bytes \<Rightarrow> nat \<Rightarrow> bytes" where
  "dns_reply query question_end =
     take 2 query @ [0x81, 0x80, 0, 1, 0, 1, 0, 0, 0, 0] @ drop 12 (take question_end query) @ dns_record"

lemma answer_cases:
  assumes "length out = 512"
  shows "answer query out = Some (None, out)
    \<or> (\<exists>n out'. answer query out = Some (Some n, out') \<and> length out' = 512 \<and> n = name_end query 12 + 21 \<and> n \<le> 512
        \<and> n \<le> length query + 16 \<and> take n out' = dns_reply query (n - 16))"
proof (cases "length query < 12 \<or> 496 < length query \<or> query ! 2 AND 0x80 \<noteq> 0
    \<or> from_be16 (query ! 4) (query ! 5) = 0 \<or> length query < name_end query 12 + 5")
  case True
  then show ?thesis using assms by (auto simp: answer_def Let_def)
next
  case False
  define e where "e = name_end query 12 + 5"
  have e: "17 \<le> e" "e \<le> length query" "length query \<le> 496"
    using False name_end_ge [of 12 query] by (simp_all add: e_def)
  have q: "length (take e query) = e" using e by simp
  obtain out' where "write_all_at [(0, take e query), (2, [0x81]), (3, [0x80]), (4, [0]), (5, [1]), (6, [0]), (7, [1]),
      (8, [0, 0, 0, 0]), (e, dns_record)] out = Some out'" "length out' = length out"
    "take (e + 16) out' = take 2 (take e query) @ [0x81, 0x80, 0, 1, 0, 1, 0, 0, 0, 0] @ drop 12 (take e query) @ dns_record"
    using answer_writes [of "take e query" out] e assms q by auto
  moreover have "take 2 (take e query) = take 2 query" using e(1) by (simp add: min_def)
  ultimately have "answer query out = Some (Some (e + 16), out')" "take (e + 16) out' = dns_reply query e"
    "length out' = 512"
    using False assms by (simp_all add: answer_def Let_def e_def [symmetric] dns_reply_def del: write_all_at.simps)
  then show ?thesis using e by (auto simp: e_def add.commute)
qed

text \<open>A query for a name: identifier, flags of a query, one question, and the rest after the question.\<close>

definition dns_query :: "bytes \<Rightarrow> u8 \<times> u8 \<Rightarrow> bytes \<Rightarrow> bytes list \<Rightarrow> bytes \<Rightarrow> bytes \<Rightarrow> bytes" where
  "dns_query i flags counts labels tclass rest =
     i @ [fst flags, snd flags, 0, 1] @ counts @ (label_bytes labels @ [0] @ tclass) @ rest"

lemma query_name_end:
  assumes "length i = 2" "length counts = 6" "\<forall>l \<in> set labels. label_ok l" "length tc = 4"
  shows "name_end (dns_query i flags counts labels tc rest) 12 = 12 + length (label_bytes labels)"
  using assms name_end_labels [OF assms(3), of "i @ [fst flags, snd flags, 0, 1] @ counts" "tc @ rest"]
  by (simp add: dns_query_def)

subsection \<open>Leases\<close>

lemma length_write_at: "write_at i bs out = Some out' \<Longrightarrow> length out' = length out"
  by (auto simp: write_at_def split: if_splits)

text \<open>The bytes of options, and a walk over the ones before the message type.\<close>

definition option_bytes :: "(u8 \<times> bytes) list \<Rightarrow> bytes" where
  "option_bytes os = concat (map (\<lambda>(code, val). code # of_nat (length val) # val) os)"

definition plain_option :: "u8 \<times> bytes \<Rightarrow> bool" where
  "plain_option x = (case x of (code, val) \<Rightarrow> code \<notin> {0, OPT_MESSAGE_TYPE, OPT_END} \<and> length val < 256)"

lemma option_type_found:
  assumes "\<forall>x \<in> set os. plain_option x" "t = DISCOVER \<or> t = REQUEST"
  shows "option_type (pre @ option_bytes os @ [OPT_MESSAGE_TYPE, 1, t] @ rest) (length pre) = Some t"
  using assms(1)
proof (induction os arbitrary: pre)
  case Nil
  then show ?case using assms(2) by (subst option_type.simps) (auto simp: option_bytes_def nth_append dhcp_constants Let_def)
next
  case (Cons x os)
  obtain code val where x: "x = (code, val)" by (cases x)
  have v: "unat (of_nat (length val) :: u8) = length val"
    and c: "code \<noteq> 0" "code \<noteq> OPT_MESSAGE_TYPE" "code \<noteq> OPT_END"
    using Cons.prems x by (simp_all add: plain_option_def unat_of_nat take_bit_eq_mod)
  let ?pre = "pre @ code # of_nat (length val) # val"
  have "option_type (?pre @ option_bytes os @ [OPT_MESSAGE_TYPE, 1, t] @ rest) (length ?pre) = Some t"
    using Cons by (intro Cons.IH) simp
  then show ?case using v c
    by (subst option_type.simps) (simp add: x option_bytes_def nth_append Let_def)
qed

lemma write_options_at:
  assumes "length pre = at" "length out = length (option_bytes os)"
  shows "write_options os at (pre @ out @ rest) = Some (at + length (option_bytes os), pre @ option_bytes os @ rest)"
  using assms
proof (induction os arbitrary: pre out at)
  case (Cons x os)
  obtain code val where x: "x = (code, val)" by (cases x)
  define n where "n = length val"
  obtain a b vs ys where out: "out = [a, b] @ vs @ ys" "length vs = n" "length ys = length (option_bytes os)"
  proof -
    have l: "length out = Suc (Suc (n + length (option_bytes os)))"
      using Cons.prems(2) by (simp add: x option_bytes_def n_def)
    then obtain a b zs where "out = a # b # zs" "length zs = n + length (option_bytes os)"
      by (auto simp: length_Suc_conv)
    then show thesis using that [of a b "take n zs" "drop n zs"] by simp
  qed
  let ?pre = "pre @ code # of_nat n # val"
  have "write_all_at [(at, [code]), (at + 1, [of_nat n]), (at + 2, val)] (pre @ out @ rest) = Some (?pre @ ys @ rest)"
    using write_at_middle [of at pre "[a]" "[code]" "b # vs @ ys @ rest"]
      write_at_middle [of "at + 1" "pre @ [code]" "[b]" "[of_nat n]" "vs @ ys @ rest"]
      write_at_middle [of "at + 2" "pre @ [code, of_nat n]" vs val "ys @ rest"] Cons.prems(1) out
    by (simp add: n_def)
  moreover have "write_options os (at + (2 + n)) (?pre @ ys @ rest)
      = Some (at + (2 + n) + length (option_bytes os), ?pre @ option_bytes os @ rest)"
    using Cons.prems out by (intro Cons.IH) (simp_all add: n_def)
  ultimately show ?case by (simp add: x n_def option_bytes_def)
qed (simp add: option_bytes_def)

lemma write_at_skip:
  "length xs \<le> i \<Longrightarrow> write_at i bs (xs @ ys) = map_option (\<lambda>zs. xs @ zs) (write_at (i - length xs) bs ys)"
  by (auto simp: write_at_def)

lemma write_at_here: "length xs = length bs \<Longrightarrow> write_at 0 bs (xs @ ys) = Some (bs @ ys)"
  by (simp add: write_at_def)

text \<open>The reply to a request for the given type: the fixed fields, the options and the end mark.\<close>

definition dhcp_reply :: "dhcp_request \<Rightarrow> bytes" where
  "dhcp_reply r =
     [2, 1, 6, 0] @ transaction_id r @ [0, 0, 0x80, 0, 0, 0, 0, 0] @ CLIENT_IP @ AP_IP @ [0, 0, 0, 0] @ client_mac r
     @ replicate 192 0 @ MAGIC @ option_bytes (reply_options r) @ [OPT_END]"

lemma length_reply_options: "length (option_bytes (reply_options r)) = 33"
  by (simp add: reply_options_def option_bytes_def Let_def)

lemma write_at_Cons: "0 < i \<Longrightarrow> write_at i bs (x # ys) = map_option ((#) x) (write_at (i - 1) bs ys)"
  by (cases i) (simp_all add: write_at_def)

lemma write_at_hd: "write_at 0 [b] (x # ys) = Some (b # ys)"
  by (simp add: write_at_def)

lemma field_writes:
  assumes "length a = 1" "length b = 1" "length c = 1" "length d = 1" "length x = 4" "length xid = 4"
    and "length e = 2" "length f = 1" "length g = 5" "length y = 4" "length s = 4" "length w = 4"
    and "length m = 16" "length mac = 16" "length v = 192" "length z = 4"
  shows "write_all_at [(0, [2]), (1, [1]), (2, [6]), (4, xid), (10, [0x80]), (16, CLIENT_IP), (20, AP_IP), (28, mac),
      (236, MAGIC)] (a @ b @ c @ d @ x @ e @ f @ g @ y @ s @ w @ m @ v @ z @ rest) =
    Some ([2] @ [1] @ [6] @ d @ xid @ e @ [0x80] @ g @ CLIENT_IP @ AP_IP @ w @ mac @ v @ MAGIC @ rest)"
proof -
  have "length MAGIC = 4" by (simp add: MAGIC_def)
  then show ?thesis using assms by (auto simp: length_Suc_conv write_at_skip write_at_here write_at_Cons write_at_hd)
qed

lemma fixed_fields:
  assumes "length (transaction_id r) = 4" "length (client_mac r) = 16" "length out = 300"
  shows "write_all_at [(0, replicate (length out) 0), (0, [2]), (1, [1]), (2, [6]), (4, transaction_id r),
         (10, [0x80]), (16, CLIENT_IP), (20, AP_IP), (28, client_mac r), (236, MAGIC)] out =
    Some (([2, 1, 6, 0] @ transaction_id r @ [0, 0, 0x80, 0, 0, 0, 0, 0] @ CLIENT_IP @ AP_IP @ [0, 0, 0, 0] @ client_mac r
      @ replicate 192 0 @ MAGIC) @ replicate 60 0)"
proof -
  let ?z = "\<lambda>n. replicate n 0 :: bytes"
  have z: "?z 300 = ?z 1 @ ?z 1 @ ?z 1 @ ?z 1 @ ?z 4 @ ?z 2 @ ?z 1 @ ?z 5 @ ?z 4 @ ?z 4 @ ?z 4 @ ?z 16 @ ?z 192 @ ?z 4 @ ?z 60"
    by (simp only: replicate_add [symmetric]) simp
  have small: "?z 1 = [0]" "?z 2 = [0, 0]" "?z 4 = [0, 0, 0, 0]" "?z 5 = [0, 0, 0, 0, 0]"
    by (simp_all add: numeral_eq_Suc)
  have "write_all_at [(0, ?z 300)] out = Some (?z 300)" using assms(3) by (simp add: write_at_def)
  moreover have "write_all_at [(0, [2]), (1, [1]), (2, [6]), (4, transaction_id r), (10, [0x80]), (16, CLIENT_IP),
      (20, AP_IP), (28, client_mac r), (236, MAGIC)] (?z 300) =
    Some ([2] @ [1] @ [6] @ ?z 1 @ transaction_id r @ ?z 2 @ [0x80] @ ?z 5 @ CLIENT_IP @ AP_IP @ ?z 4 @ client_mac r
      @ ?z 192 @ MAGIC @ ?z 60)"
    unfolding z by (rule field_writes) (use assms in simp_all)
  ultimately have "write_all_at ([(0, ?z 300)] @ [(0, [2]), (1, [1]), (2, [6]), (4, transaction_id r), (10, [0x80]),
      (16, CLIENT_IP), (20, AP_IP), (28, client_mac r), (236, MAGIC)]) out =
    Some ([2] @ [1] @ [6] @ ?z 1 @ transaction_id r @ ?z 2 @ [0x80] @ ?z 5 @ CLIENT_IP @ AP_IP @ ?z 4 @ client_mac r
      @ ?z 192 @ MAGIC @ ?z 60)"
    unfolding write_all_at_append by (simp only: bind.bind_lunit)
  then show ?thesis unfolding assms(3) by (simp only: append_Cons append_Nil append_assoc small)
qed

lemma build_reply_eq:
  assumes "length (transaction_id r) = 4" "length (client_mac r) = 16" "length out = 300"
  shows "build_reply r out = Some (274, dhcp_reply r @ replicate 26 0)"
proof -
  let ?f = "[2, 1, 6, 0] @ transaction_id r @ [0, 0, 0x80, 0, 0, 0, 0, 0] @ CLIENT_IP @ AP_IP @ [0, 0, 0, 0] @ client_mac r
      @ replicate 192 0 @ MAGIC"
  have f: "length ?f = 240" using assms by (simp add: MAGIC_def)
  have z: "replicate 60 0 = replicate 33 0 @ replicate 1 0 @ (replicate 26 0 :: bytes)" by (simp only: flip: replicate_add) simp
  have "write_options (reply_options r) 240 (?f @ replicate 60 0) =
      Some (273, ?f @ option_bytes (reply_options r) @ replicate 1 0 @ replicate 26 0)"
    using write_options_at [OF f, of "replicate 33 0" "reply_options r" "replicate 1 0 @ replicate 26 0"]
    unfolding z length_reply_options by simp
  moreover have "write_at 273 [OPT_END] ((?f @ option_bytes (reply_options r)) @ replicate 1 0 @ replicate 26 0) =
      Some ((?f @ option_bytes (reply_options r)) @ [OPT_END] @ replicate 26 0)"
    using f length_reply_options [of r] by (intro write_at_middle) simp_all
  ultimately show ?thesis
    unfolding build_reply_def fixed_fields [OF assms] OPTIONS_AT_def by (simp add: dhcp_reply_def)
qed

subsection \<open>Properties\<close>

text \<open>
  C31. Every name resolves to the portal. A query for any name, with any type and whatever follows
  the question, is answered with its identifier, its question and one address record that points to
  the name and holds the address of the portal; no datagram makes the responder panic.
\<close>

theorem every_name_resolves_to_the_portal:
  assumes "length i = 2" "length counts = 6" "length tclass = 4" "\<forall>l \<in> set labels. label_ok l"
    and "fst flags AND 0x80 = 0" "length out = 512" "length (dns_query i flags counts labels tclass rest) \<le> 496"
  shows "(\<exists>n out'. answer (dns_query i flags counts labels tclass rest) out = Some (Some n, out')
      \<and> take n out' = i @ [0x81, 0x80, 0, 1, 0, 1, 0, 0, 0, 0] @ (label_bytes labels @ [0] @ tclass)
          @ [0xC0, 0x0C, 0, 1, 0, 1, 0, 0, 0, 60, 0, 4, 192, 168, 4, 1])
    \<and> (\<forall>q. answer q out \<noteq> None)"
proof -
  let ?q = "dns_query i flags counts labels tclass rest"
  obtain a b where i: "i = [a, b]" using assms(1) by (auto simp: length_Suc_conv numeral_eq_Suc)
  have e: "name_end ?q 12 = 12 + length (label_bytes labels)"
    by (rule query_name_end [OF assms(1,2,4,3)])
  have "answer ?q out \<noteq> Some (None, out)"
    using assms e i by (auto simp: answer_def Let_def dns_query_def from_be16_def)
  then obtain n out' where a: "answer ?q out = Some (Some n, out')" "n = name_end ?q 12 + 21"
    "take n out' = dns_reply ?q (n - 16)"
    using answer_cases [OF assms(6), of ?q] by blast
  have "drop 12 (take (n - 16) ?q) = label_bytes labels @ [0] @ tclass"
  proof -
    define h qs where "h = i @ [fst flags, snd flags, 0, 1] @ counts" and "qs = label_bytes labels @ [0] @ tclass"
    have "length h = 12" "n - 16 = length h + length qs" using a(2) e assms(1-3) by (simp_all add: h_def qs_def)
    moreover have "?q = h @ qs @ rest" by (simp add: dns_query_def h_def qs_def)
    ultimately have "drop 12 (take (n - 16) ?q) = qs" by simp
    then show ?thesis by (simp only: qs_def)
  qed
  then have "take n out' = i @ [0x81, 0x80, 0, 1, 0, 1, 0, 0, 0, 0] @ (label_bytes labels @ [0] @ tclass) @ dns_record"
    unfolding a(3) dns_reply_def by (simp add: dns_query_def i)
  then show ?thesis using a(1) answer_cases [OF assms(6)] by (fastforce simp: dns_record_def AP_IP_def)
qed

theorem every_name_resolves_to_the_portal_witness:
  "\<exists>n out'. answer (dns_query [7, 7] (1, 0) [0, 0, 0, 0, 0, 0] [[97], [98, 99]] [0, 1, 0, 1] []) (replicate 512 0)
       = Some (Some n, out')
     \<and> take n out' = [7, 7, 0x81, 0x80, 0, 1, 0, 1, 0, 0, 0, 0, 1, 97, 2, 98, 99, 0, 0, 1, 0, 1,
         0xC0, 0x0C, 0, 1, 0, 1, 0, 0, 0, 60, 0, 4, 192, 168, 4, 1]"
  using every_name_resolves_to_the_portal [of "[7, 7]" "[0, 0, 0, 0, 0, 0]" "[0, 1, 0, 1]" "[[97], [98, 99]]" "(1, 0)"
      "replicate 512 0" "[]"]
  by (simp add: label_ok_def label_bytes_def dns_query_def)

text \<open>
  A phone gets its lease. A request with any options before the message type is answered, a
  discover with an offer and a request with an acknowledgement, with the transaction and hardware
  address of the client, the fixed address and the portal as router and name server, whatever the
  reply buffer held before.
\<close>

theorem phones_get_their_lease:
  fixes rest
  assumes "length header = 236" "header ! 0 = 1" "\<forall>x \<in> set os. plain_option x"
    and "t = DISCOVER \<or> t = REQUEST" "length out = 300"
  defines "data \<equiv> header @ MAGIC @ option_bytes os @ [OPT_MESSAGE_TYPE, 1, t] @ rest"
  shows "\<exists>r. parse_request data = Some r \<and> build_reply r out = Some (274, dhcp_reply r @ replicate 26 0)
    \<and> dhcp_reply r = [2, 1, 6, 0] @ take 4 (drop 4 data) @ [0, 0, 0x80, 0, 0, 0, 0, 0] @ CLIENT_IP @ AP_IP @ [0, 0, 0, 0]
        @ take 16 (drop 28 data) @ replicate 192 0 @ MAGIC
        @ option_bytes [(OPT_MESSAGE_TYPE, [if t = DISCOVER then OFFER else ACK]), (OPT_SERVER_ID, AP_IP),
            (OPT_LEASE_TIME, to_be32 3600), (OPT_SUBNET_MASK, NETMASK), (OPT_ROUTER, AP_IP), (OPT_DNS, AP_IP)]
        @ [OPT_END]"
proof -
  let ?r = "\<lparr>transaction_id = take 4 (drop 4 data), client_mac = take 16 (drop 28 data), message_type = t\<rparr>"
  have m: "length MAGIC = 4" by (simp add: MAGIC_def)
  have "option_type data 240 = Some t"
    using option_type_found [OF assms(3,4), of "header @ MAGIC" rest] assms(1) m by (simp add: data_def)
  then have "parse_request data = Some ?r"
    using assms(1,2) m by (simp add: parse_request_def OPTIONS_AT_def data_def nth_append)
  moreover have "build_reply ?r out = Some (274, dhcp_reply ?r @ replicate 26 0)"
    using assms(1,5) m by (intro build_reply_eq) (simp_all add: data_def)
  ultimately show ?thesis by (intro exI [of _ ?r]) (simp add: dhcp_reply_def reply_options_def)
qed

theorem phones_get_their_lease_witness:
  "\<exists>r. parse_request ((1 # replicate 235 0) @ MAGIC @ [OPT_MESSAGE_TYPE, 1, DISCOVER]) = Some r
     \<and> map_option fst (build_reply r (replicate 300 7)) = Some 274"
  using phones_get_their_lease [of "1 # replicate 235 0" "[]" DISCOVER "replicate 300 7" "[]"]
  by (auto simp: option_bytes_def)

end
