(* ===== verification/Portal_Http.thy ===== *)
theory Portal_Http imports Hub_Config Net_State "HOL-Library.Sublist" begin

text \<open>
  Requests, routes and payloads of the provisioning portal (\<open>src/portal/http.rs\<close>). The JSON library is
  the parameter record \<open>portal_lib\<close>; the text operations of the standard library that the parser uses
  are written out on bytes.
\<close>

subsection \<open>Text operations of the standard library\<close>

text \<open>The pieces of \<open>str::split\<close> for a line end and for a space, and \<open>split_once\<close> for a colon.\<close>

fun split_crlf :: "rtext \<Rightarrow> rtext list" where
  "split_crlf (a # b # s) =
     (if a = 0x0D \<and> b = 0x0A then [] # split_crlf s
      else case split_crlf (b # s) of [] \<Rightarrow> [[a]] | p # ps \<Rightarrow> (a # p) # ps)"
| "split_crlf s = [s]"

fun split_space :: "rtext \<Rightarrow> rtext list" where
  "split_space [] = [[]]"
| "split_space (b # s) =
     (if b = 0x20 then [] # split_space s
      else case split_space s of [] \<Rightarrow> [[b]] | p # ps \<Rightarrow> (b # p) # ps)"

fun split_colon :: "rtext \<Rightarrow> (rtext \<times> rtext) option" where
  "split_colon [] = None"
| "split_colon (b # s) =
     (if b = 0x3A then Some ([], s) else map_option (\<lambda>(name, v). (b # name, v)) (split_colon s))"

definition ascii_lower :: "u8 \<Rightarrow> u8" where
  "ascii_lower b = (if byte_in 0x41 0x5A b then b + 0x20 else b)"

definition eq_ignore_ascii_case :: "rtext \<Rightarrow> rtext \<Rightarrow> bool" where
  "eq_ignore_ascii_case s t \<longleftrightarrow> map ascii_lower s = map ascii_lower t"

text \<open>
  \<open>str::trim\<close> removes white space, of which there are 25 code points: the ASCII ones of one byte, two of
  two bytes, and the rest of three.
\<close>

definition white_space :: "rtext list" where
  "white_space =
     map (\<lambda>b. [b]) [0x09, 0x0A, 0x0B, 0x0C, 0x0D, 0x20] @ [[0xC2, 0x85], [0xC2, 0xA0], [0xE1, 0x9A, 0x80]]
     @ map (\<lambda>b. [0xE2, 0x80, b]) [0x80, 0x81, 0x82, 0x83, 0x84, 0x85, 0x86, 0x87, 0x88, 0x89, 0x8A, 0xA8, 0xA9, 0xAF]
     @ [[0xE2, 0x81, 0x9F], [0xE3, 0x80, 0x80]]"

definition strip_one :: "rtext list \<Rightarrow> rtext \<Rightarrow> rtext option" where
  "strip_one ws s = map_option (\<lambda>w. drop (length w) s) (List.find (\<lambda>w. prefix w s) ws)"

function strip_all :: "rtext list \<Rightarrow> rtext \<Rightarrow> rtext" where
  "strip_all ws s =
     (case strip_one ws s of
        None \<Rightarrow> s
      | Some r \<Rightarrow> if length r < length s then strip_all ws r else s)"
  by pat_completeness auto

termination by (relation "measure (\<lambda>(ws, s). length s)") auto

declare strip_all.simps [simp del]

definition trim :: "rtext \<Rightarrow> rtext" where
  "trim s = rev (strip_all (map rev white_space) (rev (strip_all white_space s)))"

text \<open>Sizes have 32 bits on the target.\<close>

definition parse_usize :: "rtext \<Rightarrow> nat option" where
  "parse_usize s = parse_uint 4294967295 s"

text \<open>Formatted output into a bounded string: it stops at the first piece that does not fit.\<close>

fun write_fmt :: "nat \<Rightarrow> rtext \<Rightarrow> rtext list \<Rightarrow> rtext" where
  "write_fmt cap s [] = s"
| "write_fmt cap s (p # ps) = (case extend_cap cap s p of None \<Rightarrow> s | Some t \<Rightarrow> write_fmt cap t ps)"

subsection \<open>Requests\<close>

definition MAX_REQUEST :: nat where "MAX_REQUEST = 2048"
definition MAX_BODY :: nat where "MAX_BODY = 512"

record http_request =
  req_method :: rtext
  req_path :: rtext
  req_body :: bytes

datatype parse_outcome = Complete http_request | Incomplete | Bad

definition header_mark :: rtext where
  "header_mark = [0x0D, 0x0A, 0x0D, 0x0A]"

fun find_headers_end :: "bytes \<Rightarrow> nat option" where
  "find_headers_end [] = None"
| "find_headers_end (b # s) =
     (if take 4 (b # s) = header_mark then Some 0 else map_option Suc (find_headers_end s))"

definition header_length :: "nat \<Rightarrow> rtext \<Rightarrow> nat" where
  "header_length content_length line =
     (case split_colon line of
        None \<Rightarrow> content_length
      | Some (name, v) \<Rightarrow>
          if eq_ignore_ascii_case name (lit ''content-length'')
          then (case parse_usize (trim v) of None \<Rightarrow> 0 | Some n \<Rightarrow> n)
          else content_length)"

definition try_parse :: "bytes \<Rightarrow> parse_outcome" where
  "try_parse buf =
     (case find_headers_end buf of
        None \<Rightarrow> if MAX_REQUEST \<le> length buf then Bad else Incomplete
      | Some headers_end \<Rightarrow>
          if \<not> utf8_ok (take headers_end buf) then Bad
          else
            (case split_crlf (take headers_end buf) of
               [] \<Rightarrow> Bad
             | request_line # lines \<Rightarrow>
                 (case split_space request_line of
                    m # p # _ \<Rightarrow>
                      (let content_length = foldl header_length 0 lines
                       in if MAX_REQUEST - headers_end < content_length then Bad
                          else
                            let body_end = headers_end + 4 + content_length
                            in if length buf < body_end then Incomplete
                               else Complete \<lparr>req_method = m, req_path = p,
                                      req_body = drop (headers_end + 4) (take body_end buf)\<rparr>)
                  | _ \<Rightarrow> Bad)))"

datatype route = Index | ApiConfigGet | ApiConfigPost bytes | ApiStatus | Redirect

definition route_of :: "http_request \<Rightarrow> route" where
  "route_of r =
     (if req_method r = lit ''GET'' \<and> (req_path r = lit ''/'' \<or> req_path r = lit ''/index.html'') then Index
      else if req_method r = lit ''GET'' \<and> req_path r = lit ''/api/config'' then ApiConfigGet
      else if req_method r = lit ''POST'' \<and> req_path r = lit ''/api/config'' then ApiConfigPost (req_body r)
      else if req_method r = lit ''GET'' \<and> req_path r = lit ''/api/status'' then ApiStatus
      else Redirect)"

subsection \<open>Payloads\<close>

record config_view =
  view_mode :: rtext
  view_wifi_ssid :: rtext
  view_mqtt_host :: rtext
  view_mqtt_port :: u16
  view_client_id :: rtext
  view_gw_freq_hz :: u32
  view_gw_sf :: u8
  view_gw_bw_khz :: u32
  view_gw_cr :: u8
  view_gw_host :: rtext
  view_gw_port :: u16

record status_view =
  view_wifi_state :: u8
  view_mqtt_state :: u8
  view_ip :: rtext
  view_uplink :: u32
  view_downlink :: u32
  view_dropped :: u32
  view_uptime_secs :: u32

datatype portal_view = ConfigView config_view | StatusView status_view

record config_update =
  upd_wifi_ssid :: "rtext option"
  upd_wifi_password :: "rtext option"
  upd_mqtt_host :: "rtext option"
  upd_mqtt_port :: "u16 option"
  upd_client_id :: "rtext option"
  upd_mode :: "rtext option"
  upd_gw_freq_hz :: "u32 option"
  upd_gw_sf :: "u8 option"
  upd_gw_bw_khz :: "u32 option"
  upd_gw_cr :: "u8 option"
  upd_gw_host :: "rtext option"
  upd_gw_port :: "u16 option"

record portal_lib =
  view_to_slice :: "nat \<Rightarrow> portal_view \<Rightarrow> bytes option"
  update_from_slice :: "bytes \<Rightarrow> config_update option"

definition portal_json :: "portal_lib \<Rightarrow> portal_view \<Rightarrow> bytes" where
  "portal_json L v = push_cap MAX_BODY [] (case view_to_slice L MAX_BODY v of None \<Rightarrow> [] | Some b \<Rightarrow> b)"

fun mode_text :: "hub_mode \<Rightarrow> rtext" where
  "mode_text Bridge = lit ''bridge''"
| "mode_text LorawanGateway = lit ''gateway''"

definition config_json :: "portal_lib \<Rightarrow> hub_config \<Rightarrow> bytes" where
  "config_json L c =
     portal_json L (ConfigView
       \<lparr>view_mode = mode_text (cfg_mode c), view_wifi_ssid = ssid (cfg_wifi c), view_mqtt_host = mqtt_host (cfg_mqtt c),
        view_mqtt_port = mqtt_port (cfg_mqtt c), view_client_id = client_id (cfg_mqtt c),
        view_gw_freq_hz = gw_frequency_hz (cfg_gateway c), view_gw_sf = gw_spreading_factor (cfg_gateway c),
        view_gw_bw_khz = gw_bandwidth_khz (cfg_gateway c), view_gw_cr = gw_coding_rate (cfg_gateway c),
        view_gw_host = gw_host (cfg_gateway c), view_gw_port = gw_port (cfg_gateway c)\<rparr>)"

definition ip_text :: "u8 \<times> u8 \<times> u8 \<times> u8 \<Rightarrow> rtext" where
  "ip_text address =
     (let (a, b, c, d) = address
      in write_fmt 15 [] [dec (unat a), lit ''.'', dec (unat b), lit ''.'', dec (unat c), lit ''.'', dec (unat d)])"

definition portal_status_json :: "portal_lib \<Rightarrow> hub_status \<Rightarrow> bytes" where
  "portal_status_json L s =
     portal_json L (StatusView
       \<lparr>view_wifi_state = link_state_byte (wifi_state s), view_mqtt_state = link_state_byte (mqtt_state s),
        view_ip = ip_text (ip s), view_uplink = uplink_count s, view_downlink = downlink_count s,
        view_dropped = dropped_count s, view_uptime_secs = uptime_secs s\<rparr>)"

subsection \<open>Updates\<close>

datatype update_error = UpdateBad | UpdateEmpty

definition fit :: "nat \<Rightarrow> rtext \<Rightarrow> update_error + rtext" where
  "fit cap s = (if length s \<le> cap then Inr s else Inl UpdateBad)"

definition fit_or :: "nat \<Rightarrow> rtext option \<Rightarrow> rtext \<Rightarrow> update_error + rtext" where
  "fit_or cap v current = (case v of None \<Rightarrow> Inr current | Some s \<Rightarrow> fit cap s)"

definition unwrap_or :: "'a option \<Rightarrow> 'a \<Rightarrow> 'a" where
  "unwrap_or v d = (case v of None \<Rightarrow> d | Some x \<Rightarrow> x)"

definition wifi_update :: "config_update \<Rightarrow> hub_command list \<Rightarrow> update_error + hub_command list" where
  "wifi_update u commands =
     (case upd_wifi_ssid u of
        None \<Rightarrow> Inr commands
      | Some s \<Rightarrow>
          rbind (fit MAX_SSID_LEN s) (\<lambda>s.
            rbind (fit MAX_PASSWORD_LEN (unwrap_or (upd_wifi_password u) [])) (\<lambda>p.
              Inr (push_cap 4 commands [SetWifiConfig \<lparr>ssid = s, password = p\<rparr>]))))"

definition mqtt_update :: "config_update \<Rightarrow> hub_config \<Rightarrow> hub_command list \<Rightarrow> update_error + hub_command list" where
  "mqtt_update u current commands =
     (if upd_mqtt_host u \<noteq> None \<or> upd_mqtt_port u \<noteq> None \<or> upd_client_id u \<noteq> None then
        rbind (fit_or MAX_HOST_LEN (upd_mqtt_host u) (mqtt_host (cfg_mqtt current))) (\<lambda>host.
          rbind (fit_or MAX_CLIENT_ID_LEN (upd_client_id u) (client_id (cfg_mqtt current))) (\<lambda>ident.
            Inr (push_cap 4 commands
              [SetMqttConfig \<lparr>mqtt_host = host, mqtt_port = unwrap_or (upd_mqtt_port u) (mqtt_port (cfg_mqtt current)),
                 client_id = ident\<rparr>])))
      else Inr commands)"

definition gateway_touched :: "config_update \<Rightarrow> bool" where
  "gateway_touched u \<longleftrightarrow> upd_gw_freq_hz u \<noteq> None \<or> upd_gw_sf u \<noteq> None \<or> upd_gw_bw_khz u \<noteq> None
     \<or> upd_gw_cr u \<noteq> None \<or> upd_gw_host u \<noteq> None \<or> upd_gw_port u \<noteq> None"

definition gateway_update :: "config_update \<Rightarrow> hub_config \<Rightarrow> hub_command list \<Rightarrow> update_error + hub_command list" where
  "gateway_update u current commands =
     (let g = cfg_gateway current
      in if gateway_touched u then
           rbind (fit_or MAX_HOST_LEN (upd_gw_host u) (gw_host g)) (\<lambda>host.
             Inr (push_cap 4 commands
               [SetGatewayConfig \<lparr>gw_frequency_hz = unwrap_or (upd_gw_freq_hz u) (gw_frequency_hz g),
                  gw_spreading_factor = unwrap_or (upd_gw_sf u) (gw_spreading_factor g),
                  gw_bandwidth_khz = unwrap_or (upd_gw_bw_khz u) (gw_bandwidth_khz g),
                  gw_coding_rate = unwrap_or (upd_gw_cr u) (gw_coding_rate g),
                  gw_host = host, gw_port = unwrap_or (upd_gw_port u) (gw_port g)\<rparr>]))
         else Inr commands)"

definition mode_update :: "config_update \<Rightarrow> hub_command list \<Rightarrow> update_error + hub_command list" where
  "mode_update u commands =
     (case upd_mode u of
        None \<Rightarrow> Inr commands
      | Some m \<Rightarrow>
          if m = lit ''bridge'' then Inr (push_cap 4 commands [SetMode Bridge])
          else if m = lit ''gateway'' then Inr (push_cap 4 commands [SetMode LorawanGateway])
          else Inl UpdateBad)"

definition commands_from_update :: "portal_lib \<Rightarrow> bytes \<Rightarrow> hub_config \<Rightarrow> update_error + hub_command list" where
  "commands_from_update L body current =
     rbind (ok_or (update_from_slice L body) UpdateBad) (\<lambda>u.
       rbind (wifi_update u []) (\<lambda>commands.
         rbind (mqtt_update u current commands) (\<lambda>commands.
           rbind (gateway_update u current commands) (\<lambda>commands.
             rbind (mode_update u commands) (\<lambda>commands.
               if commands = [] then Inl UpdateEmpty else Inr commands)))))"

text \<open>
  The update the embedded page posts for the contents of its form: the password only when it is not
  blank, the broker only with a host, the gateway only in gateway mode with a host.
\<close>

record page_form =
  form_ssid :: rtext
  form_password :: rtext
  form_mode :: rtext
  form_mqtt_host :: rtext
  form_mqtt_port :: u16
  form_gw_host :: rtext
  form_gw_port :: u16
  form_gw_freq_hz :: u32
  form_gw_sf :: u8

definition page_update :: "page_form \<Rightarrow> config_update" where
  "page_update f =
     (let broker = form_mqtt_host f \<noteq> [];
          gateway = form_mode f = lit ''gateway'' \<and> form_gw_host f \<noteq> []
      in \<lparr>upd_wifi_ssid = Some (form_ssid f),
          upd_wifi_password = (if form_password f \<noteq> [] then Some (form_password f) else None),
          upd_mqtt_host = (if broker then Some (form_mqtt_host f) else None),
          upd_mqtt_port = (if broker then Some (form_mqtt_port f) else None),
          upd_client_id = None, upd_mode = Some (form_mode f),
          upd_gw_freq_hz = (if gateway then Some (form_gw_freq_hz f) else None),
          upd_gw_sf = (if gateway then Some (form_gw_sf f) else None),
          upd_gw_bw_khz = None, upd_gw_cr = None,
          upd_gw_host = (if gateway then Some (form_gw_host f) else None),
          upd_gw_port = (if gateway then Some (form_gw_port f) else None)\<rparr>)"

subsection \<open>Parsing is decided by the first complete prefix\<close>

lemma mark_length: "take 4 s = header_mark \<Longrightarrow> 4 \<le> length s"
  by (drule arg_cong [where f = length]) (simp add: header_mark_def)

lemma find_headers_end_le: "find_headers_end buf = Some n \<Longrightarrow> n + 4 \<le> length buf"
proof (induction buf arbitrary: n)
  case (Cons b s)
  then show ?case using mark_length [of "b # s"] by (auto split: if_splits)
qed simp

lemma find_headers_end_append:
  "find_headers_end buf = Some n \<Longrightarrow> find_headers_end (buf @ extra) = Some n"
proof (induction buf arbitrary: n)
  case (Cons b s)
  show ?case
  proof (cases "take 4 (b # s) = header_mark")
    case True
    have "4 \<le> length (b # s)" by (rule mark_length [OF True])
    then have "take 4 ((b # s) @ extra) = header_mark" using True by (simp only: take_append) simp
    then show ?thesis using Cons.prems True by simp
  next
    case False
    then obtain m where m: "find_headers_end s = Some m" "n = Suc m" using Cons.prems by auto
    have "4 \<le> length (b # s)" using find_headers_end_le [OF m(1)] by simp
    then have "take 4 ((b # s) @ extra) \<noteq> header_mark" using False by (simp only: take_append) simp
    then show ?thesis using False Cons.IH [OF m(1)] m(2) by simp
  qed
qed simp

lemma try_parse_append:
  assumes "try_parse buf \<noteq> Incomplete" "length (buf @ extra) \<le> MAX_REQUEST"
  shows "try_parse (buf @ extra) = try_parse buf"
proof (cases "find_headers_end buf")
  case None
  then have "MAX_REQUEST \<le> length buf" using assms(1) by (auto simp: try_parse_def split: if_splits)
  then have "extra = []" using assms(2) by (cases extra) auto
  then show ?thesis by simp
next
  case (Some n)
  have n: "take n (buf @ extra) = take n buf" using find_headers_end_le [OF Some] by simp
  show ?thesis
    using assms(1) unfolding try_parse_def find_headers_end_append [OF Some] Some option.case n
    by (auto simp: Let_def split: list.splits if_splits)
qed

subsection \<open>Well-formed requests\<close>

definition crlf :: rtext where "crlf = [0x0D, 0x0A]"

lemma find_headers_end_skip:
  "0x0D \<notin> set xs \<Longrightarrow> find_headers_end (xs @ s) = map_option (\<lambda>n. length xs + n) (find_headers_end s)"
proof (induction xs)
  case (Cons b xs)
  then have "take 4 ((b # xs) @ s) \<noteq> header_mark" by (auto simp: header_mark_def numeral_eq_Suc)
  then show ?case using Cons by (simp add: comp_def option.map_comp)
qed (cases "find_headers_end s"; simp)

lemma split_crlf_skip:
  "0x0D \<notin> set xs \<Longrightarrow> split_crlf (xs @ 0x0D # 0x0A # s) = xs # split_crlf s"
proof (induction xs)
  case (Cons b xs)
  then show ?case by (cases "xs @ 0x0D # 0x0A # s") auto
qed simp

lemma split_crlf_last: "0x0D \<notin> set xs \<Longrightarrow> split_crlf xs = [xs]"
  by (induction xs rule: split_crlf.induct) auto

text \<open>The header lines after the request line.\<close>

definition header_bytes :: "rtext list \<Rightarrow> rtext" where
  "header_bytes lines = concat (map (\<lambda>l. crlf @ l) lines)"

definition line_ok :: "rtext \<Rightarrow> bool" where
  "line_ok l \<longleftrightarrow> l \<noteq> [] \<and> 0x0D \<notin> set l \<and> (\<forall>b \<in> set l. b < 0x80)"

lemma split_head:
  assumes "0x0D \<notin> set first" "\<forall>l \<in> set lines. line_ok l"
  shows "split_crlf (first @ header_bytes lines) = first # lines"
  using assms
proof (induction lines arbitrary: first)
  case Nil
  then show ?case by (simp add: header_bytes_def split_crlf_last)
next
  case (Cons l lines)
  then have "split_crlf (l @ header_bytes lines) = l # lines" by (simp add: line_ok_def)
  then show ?case using split_crlf_skip [OF Cons.prems(1), of "l @ header_bytes lines"]
    by (simp add: header_bytes_def crlf_def)
qed

lemma find_head:
  assumes "0x0D \<notin> set first" "\<forall>l \<in> set lines. line_ok l"
  shows "find_headers_end (first @ header_bytes lines @ header_mark @ body) = Some (length (first @ header_bytes lines))"
  using assms
proof (induction lines arbitrary: first)
  case Nil
  then show ?case by (simp add: header_bytes_def find_headers_end_skip header_mark_def)
next
  case (Cons l lines)
  have l: "l \<noteq> []" "hd l \<noteq> 0x0D" "0x0D \<notin> set l" using Cons.prems by (cases l; auto simp: line_ok_def)+
  have r: "find_headers_end (l @ header_bytes lines @ header_mark @ body) = Some (length (l @ header_bytes lines))"
    using Cons l by simp
  have "find_headers_end (0x0D # 0x0A # l @ x) = map_option (\<lambda>n. n + 2) (find_headers_end (l @ x))" for x
    using l by (cases l) (auto simp: header_mark_def option.map_comp comp_def numeral_eq_Suc)
  then show ?case using r Cons.prems(1)
    by (simp add: header_bytes_def crlf_def find_headers_end_skip del: find_headers_end.simps)
qed

lemma split_space_skip: "0x20 \<notin> set xs \<Longrightarrow> split_space (xs @ 0x20 # s) = xs # split_space s"
  by (induction xs) auto

lemma split_space_nonempty: "\<exists>p ps. split_space s = p # ps"
  by (induction s) (auto split: list.split)

lemma white_space_digits: "\<forall>w \<in> set white_space. w \<noteq> [] \<and> \<not> is_digit (hd w) \<and> \<not> is_digit (last w)"
  by (simp add: white_space_def is_digit_def)

lemma strip_digit:
  assumes "s \<noteq> []" "is_digit (hd s)" "\<forall>w \<in> set ws. w \<noteq> [] \<and> \<not> is_digit (hd w)"
  shows "strip_all ws s = s"
proof -
  have "\<not> prefix w s" if "w \<in> set ws" for w
    using assms bspec [OF assms(3) that] by (cases w; cases s) auto
  then have "List.find (\<lambda>w. prefix w s) ws = None" by (simp add: find_None_iff)
  then show ?thesis by (subst strip_all.simps) (simp add: strip_one_def)
qed

lemma trim_number: "trim (0x20 # dec n) = dec n"
proof -
  have d: "is_digit b" if "b \<in> set (dec n)" for b using dec_digits that .
  have h: "is_digit (hd (dec n))" "is_digit (last (dec n))" using d by simp_all
  have f: "strip_all white_space (dec n) = dec n"
    using strip_digit [OF dec_nonempty h(1)] white_space_digits by blast
  have "strip_one white_space (0x20 # dec n) = Some (dec n)"
    using h(1) by (simp add: strip_one_def white_space_def)
  then have "strip_all white_space (0x20 # dec n) = dec n" using f by (subst strip_all.simps) simp
  moreover have "strip_all (map rev white_space) (rev (dec n)) = rev (dec n)"
    using h(2) white_space_digits by (intro strip_digit) (auto simp: hd_rev)
  ultimately show ?thesis by (simp add: trim_def)
qed

definition length_header :: "nat \<Rightarrow> rtext" where
  "length_header n = lit ''Content-Length: '' @ dec n"

definition other_header :: "rtext \<Rightarrow> bool" where
  "other_header l \<longleftrightarrow>
     (case split_colon l of None \<Rightarrow> True | Some (name, _) \<Rightarrow> \<not> eq_ignore_ascii_case name (lit ''content-length''))"

lemma other_headers_skip: "\<forall>l \<in> set lines. other_header l \<Longrightarrow> foldl header_length n lines = n"
  by (induction lines) (auto simp: header_length_def other_header_def split: option.splits)

lemma header_length_eq:
  assumes "n \<le> 4294967295" shows "header_length k (length_header n) = n"
proof -
  have "split_colon (length_header n) = Some (lit ''Content-Length'', 0x20 # dec n)"
    by (simp add: length_header_def)
  moreover have "eq_ignore_ascii_case (lit ''Content-Length'') (lit ''content-length'')"
    by (simp add: eq_ignore_ascii_case_def ascii_lower_def byte_in_def)
  ultimately show ?thesis
    using assms by (simp add: header_length_def trim_number parse_usize_def parse_uint_dec del: lit_Cons)
qed

text \<open>A request with the given other headers around the length of its body.\<close>

definition request_line :: "rtext \<Rightarrow> rtext \<Rightarrow> rtext" where
  "request_line m p = m @ [0x20] @ p @ lit '' HTTP/1.1''"

definition http_head :: "rtext \<Rightarrow> rtext \<Rightarrow> rtext list \<Rightarrow> rtext list \<Rightarrow> bytes \<Rightarrow> rtext" where
  "http_head m p hs hs' body = request_line m p @ header_bytes (hs @ [length_header (length body)] @ hs')"

definition http_text :: "rtext \<Rightarrow> rtext \<Rightarrow> rtext list \<Rightarrow> rtext list \<Rightarrow> bytes \<Rightarrow> bytes" where
  "http_text m p hs hs' body = http_head m p hs hs' body @ header_mark @ body"

definition word_ok :: "rtext \<Rightarrow> bool" where
  "word_ok s \<longleftrightarrow> 0x20 \<notin> set s \<and> 0x0D \<notin> set s \<and> (\<forall>b \<in> set s. b < 0x80)"

lemma length_header_ok: "line_ok (length_header n)"
proof -
  have "b < 0x80 \<and> b \<noteq> 0x0D" if "b \<in> set (dec n)" for b
    using dec_digits [OF that] by (auto simp: is_digit_def word_less_nat_alt word_le_nat_alt)
  then show ?thesis by (auto simp: line_ok_def length_header_def)
qed

lemma try_parse_text:
  assumes "word_ok m" "word_ok p" "\<forall>l \<in> set (hs @ hs'). line_ok l \<and> other_header l"
    and "length (http_text m p hs hs' body) \<le> MAX_REQUEST"
  shows "try_parse (http_text m p hs hs' body) = Complete \<lparr>req_method = m, req_path = p, req_body = body\<rparr>"
proof -
  let ?lines = "hs @ [length_header (length body)] @ hs'"
  let ?head = "http_head m p hs hs' body"
  have lines: "\<forall>l \<in> set ?lines. line_ok l" using assms(3) length_header_ok by auto
  have first: "0x0D \<notin> set (request_line m p)" "\<forall>b \<in> set (request_line m p). b < 0x80"
    using assms(1,2) by (auto simp: request_line_def word_ok_def)
  have found: "find_headers_end (http_text m p hs hs' body) = Some (length ?head)"
    using find_head [OF first(1) lines, of body] by (simp add: http_text_def http_head_def)
  have head: "take (length ?head) (http_text m p hs hs' body) = ?head" by (simp add: http_text_def)
  have "\<forall>b \<in> set ?head. b < 0x80"
    using first(2) lines by (auto simp: http_head_def header_bytes_def crlf_def line_ok_def)
  then have utf8: "utf8_ok ?head" by (rule utf8_ascii)
  have split: "split_crlf ?head = request_line m p # ?lines"
    unfolding http_head_def by (rule split_head [OF first(1) lines])
  obtain rest where words: "split_space (request_line m p) = m # p # rest"
    using assms(1,2) by (auto simp: request_line_def word_ok_def split_space_skip)
  have l: "length ?head + 4 + length body \<le> 2048"
    using assms(4) by (simp add: http_text_def MAX_REQUEST_def header_mark_def)
  have "foldl header_length 0 ?lines = length body"
    using assms(3) l by (simp add: other_headers_skip header_length_eq)
  moreover have "drop (length ?head + 4) (http_text m p hs hs' body) = body"
    "length (http_text m p hs hs' body) = length ?head + 4 + length body"
    by (simp_all add: http_text_def header_mark_def)
  ultimately show ?thesis
    using l unfolding try_parse_def found option.case head split list.case words
    by (simp add: utf8 Let_def MAX_REQUEST_def)
qed

subsection \<open>What an update means\<close>

text \<open>
  The configuration an update asks for: the given fields changed and the others kept, except that a
  network without a password has none.
\<close>

definition mqtt_touched :: "config_update \<Rightarrow> bool" where
  "mqtt_touched u \<longleftrightarrow> upd_mqtt_host u \<noteq> None \<or> upd_mqtt_port u \<noteq> None \<or> upd_client_id u \<noteq> None"

definition updated_wifi :: "config_update \<Rightarrow> wifi_settings \<Rightarrow> wifi_settings" where
  "updated_wifi u w =
     (case upd_wifi_ssid u of None \<Rightarrow> w | Some s \<Rightarrow> \<lparr>ssid = s, password = unwrap_or (upd_wifi_password u) []\<rparr>)"

definition updated_mqtt :: "config_update \<Rightarrow> mqtt_settings \<Rightarrow> mqtt_settings" where
  "updated_mqtt u m =
     \<lparr>mqtt_host = unwrap_or (upd_mqtt_host u) (mqtt_host m), mqtt_port = unwrap_or (upd_mqtt_port u) (mqtt_port m),
      client_id = unwrap_or (upd_client_id u) (client_id m)\<rparr>"

definition updated_gateway :: "config_update \<Rightarrow> gateway_settings \<Rightarrow> gateway_settings" where
  "updated_gateway u g =
     \<lparr>gw_frequency_hz = unwrap_or (upd_gw_freq_hz u) (gw_frequency_hz g),
      gw_spreading_factor = unwrap_or (upd_gw_sf u) (gw_spreading_factor g),
      gw_bandwidth_khz = unwrap_or (upd_gw_bw_khz u) (gw_bandwidth_khz g),
      gw_coding_rate = unwrap_or (upd_gw_cr u) (gw_coding_rate g),
      gw_host = unwrap_or (upd_gw_host u) (gw_host g), gw_port = unwrap_or (upd_gw_port u) (gw_port g)\<rparr>"

definition updated_mode :: "config_update \<Rightarrow> hub_mode \<Rightarrow> hub_mode" where
  "updated_mode u m = (case upd_mode u of None \<Rightarrow> m | Some t \<Rightarrow> if t = lit ''gateway'' then LorawanGateway else Bridge)"

definition update_config :: "config_update \<Rightarrow> hub_config \<Rightarrow> hub_config" where
  "update_config u c =
     c\<lparr>cfg_wifi := updated_wifi u (cfg_wifi c), cfg_mqtt := updated_mqtt u (cfg_mqtt c),
       cfg_gateway := updated_gateway u (cfg_gateway c), cfg_mode := updated_mode u (cfg_mode c)\<rparr>"

definition fits :: "nat \<Rightarrow> rtext option \<Rightarrow> bool" where
  "fits cap v \<longleftrightarrow> (case v of None \<Rightarrow> True | Some s \<Rightarrow> length s \<le> cap)"

definition update_fits :: "config_update \<Rightarrow> bool" where
  "update_fits u \<longleftrightarrow>
     (upd_wifi_ssid u \<noteq> None \<longrightarrow> fits MAX_SSID_LEN (upd_wifi_ssid u) \<and> fits MAX_PASSWORD_LEN (upd_wifi_password u))
     \<and> fits MAX_HOST_LEN (upd_mqtt_host u) \<and> fits MAX_CLIENT_ID_LEN (upd_client_id u)
     \<and> fits MAX_HOST_LEN (upd_gw_host u)
     \<and> (case upd_mode u of None \<Rightarrow> True | Some t \<Rightarrow> t \<in> {lit ''bridge'', lit ''gateway''})"

text \<open>The commands of an update, group by group.\<close>

definition update_commands :: "config_update \<Rightarrow> hub_config \<Rightarrow> hub_command list" where
  "update_commands u c =
     (if upd_wifi_ssid u = None then [] else [SetWifiConfig (updated_wifi u (cfg_wifi c))])
     @ (if mqtt_touched u then [SetMqttConfig (updated_mqtt u (cfg_mqtt c))] else [])
     @ (if gateway_touched u then [SetGatewayConfig (updated_gateway u (cfg_gateway c))] else [])
     @ (if upd_mode u = None then [] else [SetMode (updated_mode u (cfg_mode c))])"

lemma wifi_update_eq:
  "wifi_update u cs =
     (if upd_wifi_ssid u \<noteq> None \<and> \<not> (fits MAX_SSID_LEN (upd_wifi_ssid u) \<and> fits MAX_PASSWORD_LEN (upd_wifi_password u))
      then Inl UpdateBad
      else Inr (push_cap 4 cs (if upd_wifi_ssid u = None then [] else [SetWifiConfig (updated_wifi u (cfg_wifi c))])))"
  by (auto simp: wifi_update_def updated_wifi_def fit_def fits_def unwrap_or_def push_cap_def extend_cap_def split: option.split)

lemma mqtt_update_eq:
  "mqtt_update u c cs =
     (if \<not> (fits MAX_HOST_LEN (upd_mqtt_host u) \<and> fits MAX_CLIENT_ID_LEN (upd_client_id u)) then Inl UpdateBad
      else Inr (push_cap 4 cs (if mqtt_touched u then [SetMqttConfig (updated_mqtt u (cfg_mqtt c))] else [])))"
  by (auto simp: mqtt_update_def updated_mqtt_def mqtt_touched_def fit_or_def fit_def fits_def unwrap_or_def
      push_cap_def extend_cap_def split: option.split)

lemma gateway_update_eq:
  "gateway_update u c cs =
     (if \<not> fits MAX_HOST_LEN (upd_gw_host u) then Inl UpdateBad
      else Inr (push_cap 4 cs (if gateway_touched u then [SetGatewayConfig (updated_gateway u (cfg_gateway c))] else [])))"
  by (cases "upd_gw_host u") (auto simp: gateway_update_def updated_gateway_def gateway_touched_def fit_or_def fit_def fits_def
      unwrap_or_def push_cap_def extend_cap_def Let_def)

lemma mode_update_eq:
  "mode_update u cs =
     (if upd_mode u \<notin> {None, Some (lit ''bridge''), Some (lit ''gateway'')} then Inl UpdateBad
      else Inr (push_cap 4 cs (if upd_mode u = None then [] else [SetMode (updated_mode u m)])))"
  by (auto simp: mode_update_def updated_mode_def push_cap_def extend_cap_def split: option.split)

text \<open>Exactly the updates that fit and name something become commands.\<close>

lemma commands_from_update_eq:
  assumes "update_from_slice L body = Some u"
  shows "commands_from_update L body c =
    (if \<not> update_fits u then Inl UpdateBad
     else if update_commands u c = [] then Inl UpdateEmpty
     else Inr (update_commands u c))"
proof -
  have m: "(case upd_mode u of None \<Rightarrow> True | Some t \<Rightarrow> t \<in> {lit ''bridge'', lit ''gateway''}) \<longleftrightarrow>
      upd_mode u \<in> {None, Some (lit ''bridge''), Some (lit ''gateway'')}"
    by (auto split: option.split simp del: lit_Cons)
  show ?thesis
    unfolding commands_from_update_def assms ok_or.simps rbind.simps
      wifi_update_eq [where c = c] mqtt_update_eq gateway_update_eq mode_update_eq [where m = "cfg_mode c"]
    by (simp add: update_fits_def update_commands_def m push_cap_def extend_cap_def del: lit_Cons)
qed

fun apply_all :: "build_env \<Rightarrow> hub_command list \<Rightarrow> hub_config \<Rightarrow> ack_status + hub_config" where
  "apply_all E [] p = Inr p"
| "apply_all E (c # cs) p = (case apply_command E p c of (Inl e, _) \<Rightarrow> Inl e | (Inr _, p) \<Rightarrow> apply_all E cs p)"

definition update_valid :: "config_update \<Rightarrow> hub_config \<Rightarrow> bool" where
  "update_valid u c \<longleftrightarrow>
     (mqtt_touched u \<longrightarrow> mqtt_port (updated_mqtt u (cfg_mqtt c)) \<noteq> 0)
     \<and> (gateway_touched u \<longrightarrow> gateway_settings_valid (updated_gateway u (cfg_gateway c)))"

lemma untouched:
  "\<not> mqtt_touched u \<Longrightarrow> updated_mqtt u m = m" "\<not> gateway_touched u \<Longrightarrow> updated_gateway u g = g"
  "upd_wifi_ssid u = None \<Longrightarrow> updated_wifi u w = w" "upd_mode u = None \<Longrightarrow> updated_mode u h = h"
  by (simp_all add: mqtt_touched_def updated_mqtt_def gateway_touched_def updated_gateway_def updated_wifi_def
      updated_mode_def unwrap_or_def)

lemma apply_update_commands:
  "apply_all E (update_commands u c) c = (if update_valid u c then Inr (update_config u c) else Inl InvalidValue)"
  by (auto simp: update_commands_def update_valid_def update_config_def untouched)

end
