(* ===== verification/Portal_Task.thy ===== *)
theory Portal_Task imports Board_Tasks Portal_Net Portal_Http Hub_Ctrl begin

text \<open>
  The tasks of the provisioning portal (\<open>src/tasks/portal.rs\<close>): DHCP, DNS and HTTP on the access
  point, and the way of a posted configuration through the hub control task to the flash. The
  sockets belong to the network stack: datagrams are given, a connection is a stream of bytes with
  the sizes of the reads, and writing is the parameter record \<open>tcp\<close>. The embedded page is the
  argument \<open>page\<close>.
\<close>

subsection \<open>The datagram servers\<close>

text \<open>What a turn sends, and the reply buffer; \<open>None\<close> is a panic.\<close>

definition dhcp_turn :: "bytes \<Rightarrow> bytes \<Rightarrow> (bytes list \<times> bytes) option" where
  "dhcp_turn data reply =
     (case parse_request (take 600 data) of
        None \<Rightarrow> Some ([], reply)
      | Some request \<Rightarrow> map_option (\<lambda>(n, reply). ([take n reply], reply)) (build_reply request reply))"

definition dns_turn :: "bytes \<Rightarrow> bytes \<Rightarrow> (bytes list \<times> bytes) option" where
  "dns_turn data reply =
     map_option (\<lambda>(r, reply). (case r of None \<Rightarrow> [] | Some n \<Rightarrow> [take n reply], reply)) (answer (take 320 data) reply)"

fun serve_datagrams :: "(bytes \<Rightarrow> bytes \<Rightarrow> (bytes list \<times> bytes) option) \<Rightarrow> bytes list \<Rightarrow> bytes \<Rightarrow> bytes list option" where
  "serve_datagrams turn [] reply = Some []"
| "serve_datagrams turn (d # ds) reply =
     Option.bind (turn d reply) (\<lambda>(sent, reply). map_option (\<lambda>rest. sent @ rest) (serve_datagrams turn ds reply))"

definition portal_dhcp_task :: "bytes list \<Rightarrow> bytes list option" where
  "portal_dhcp_task ds = serve_datagrams dhcp_turn ds (replicate 300 0)"

definition portal_dns_task :: "bytes list \<Rightarrow> bytes list option" where
  "portal_dns_task ds = serve_datagrams dns_turn ds (replicate 512 0)"

subsection \<open>Reading a request\<close>

text \<open>
  A read takes at most the given number of bytes, what is left of the buffer and what the client has
  sent; it returns nothing at the end of the stream, and a size of zero stands for an error or a
  timeout.
\<close>

datatype served = NoRequest | GotRequest http_request | WaitingForMore

primrec read_request :: "nat list \<Rightarrow> bytes \<Rightarrow> bytes \<Rightarrow> served" where
  "read_request [] buf stream = WaitingForMore"
| "read_request (n # ns) buf stream =
     (let k = min n (min (MAX_REQUEST - length buf) (length stream))
      in if k = 0 then NoRequest
         else
           let buf = buf @ take k stream; stream = drop k stream
           in case try_parse buf of
                Incomplete \<Rightarrow> if MAX_REQUEST \<le> length buf then NoRequest else read_request ns buf stream
              | Bad \<Rightarrow> NoRequest
              | Complete r \<Rightarrow> GotRequest r)"

subsection \<open>Writing a response\<close>

record 's tcp =
  tcp_write :: "bytes \<Rightarrow> 's \<Rightarrow> nat option \<times> 's"

record ('f, 's) portal =
  pt_ctrl :: "'f hub_ctrl"
  pt_socket :: 's
  pt_sent :: bytes

function write_all_tcp :: "'s tcp \<Rightarrow> bytes \<Rightarrow> ('f, 's) portal \<Rightarrow> bool \<times> ('f, 's) portal" where
  "write_all_tcp T data t =
     (if data = [] then (True, t)
      else
        let (r, s) = tcp_write T data (pt_socket t); t = t\<lparr>pt_socket := s\<rparr>
        in case r of
             None \<Rightarrow> (False, t)
           | Some n \<Rightarrow>
               if n = 0 then (False, t)
               else write_all_tcp T (drop n data) (t\<lparr>pt_sent := pt_sent t @ take n data\<rparr>))"
  by pat_completeness auto

termination by (relation "measure (\<lambda>(T, data, t). length data)") auto

declare write_all_tcp.simps [simp del]

definition response_head :: "rtext \<Rightarrow> rtext \<Rightarrow> nat \<Rightarrow> rtext" where
  "response_head status content_type len =
     write_fmt 128 []
       [lit ''HTTP/1.1 '', status, crlf @ lit ''Content-Type: '', content_type, crlf @ lit ''Content-Length: '', dec len,
        crlf @ lit ''Connection: close'' @ crlf @ crlf]"

definition write_response ::
  "'s tcp \<Rightarrow> rtext \<Rightarrow> rtext \<Rightarrow> bytes \<Rightarrow> ('f, 's) portal \<Rightarrow> bool \<times> ('f, 's) portal" where
  "write_response T status content_type body t =
     (let (ok, t) = write_all_tcp T (response_head status content_type (length body)) t
      in if ok then write_all_tcp T body t else (False, t))"

subsection \<open>Answering a request\<close>

text \<open>What the handlers of a connection share: flash, build environment, wire, clock and statistics.\<close>

record ('f, 't) hub_env =
  he_flash :: "('f, 't) flash"
  he_build :: build_env
  he_wire :: wire
  he_stats :: hub_stats
  he_now :: u64

text \<open>The exchange with the hub control task; the lock admits one at a time.\<close>

definition apply_via_hub_ctrl :: "('f, 't) hub_env \<Rightarrow> hub_command \<Rightarrow> 'f hub_ctrl \<Rightarrow> bool \<times> 'f hub_ctrl" where
  "apply_via_hub_ctrl H c st =
     (let (out, st) = hub_ctrl_turn (he_flash H) (he_build H) (he_wire H) (he_stats H) (he_now H) (FromPortal c) st
      in (out = Some (ToPortal (ConfigAck AckOk)), st))"

fun apply_commands :: "('f, 't) hub_env \<Rightarrow> hub_command list \<Rightarrow> 'f hub_ctrl \<Rightarrow> bool \<times> 'f hub_ctrl" where
  "apply_commands H [] st = (True, st)"
| "apply_commands H (c # cs) st =
     (let (ok, st) = apply_via_hub_ctrl H c st in if ok then apply_commands H cs st else (False, st))"

definition application_json :: rtext where
  "application_json = lit ''application/json''"

definition error_body :: "rtext \<Rightarrow> bytes" where
  "error_body message = lit ''{\"ok\":false,\"error\":\"'' @ message @ lit ''\"}''"

definition redirect_head :: rtext where
  "redirect_head = lit ''HTTP/1.1 302 Found'' @ crlf @ lit ''Location: http://192.168.4.1/'' @ crlf
     @ lit ''Content-Length: 0'' @ crlf @ lit ''Connection: close'' @ crlf @ crlf"

text \<open>A response that could not be written gives \<open>None\<close>, otherwise whether to reboot.\<close>

definition written :: "bool \<Rightarrow> bool \<times> ('f, 's) portal \<Rightarrow> bool option \<times> ('f, 's) portal" where
  "written restart r = (let (ok, t) = r in (if ok then Some restart else None, t))"

definition post_config ::
  "portal_lib \<Rightarrow> 's tcp \<Rightarrow> ('f, 't) hub_env \<Rightarrow> hub_config \<Rightarrow> bytes \<Rightarrow> ('f, 's) portal \<Rightarrow> bool option \<times> ('f, 's) portal" where
  "post_config L T H config body t =
     (case commands_from_update L body config of
        Inl UpdateBad \<Rightarrow>
          written False (write_response T (lit ''400 Bad Request'') application_json (error_body (lit ''invalid values'')) t)
      | Inl UpdateEmpty \<Rightarrow>
          written False (write_response T (lit ''400 Bad Request'') application_json (error_body (lit ''nothing to change'')) t)
      | Inr commands \<Rightarrow>
          let (ok, st) = apply_commands H commands (pt_ctrl t); t = t\<lparr>pt_ctrl := st\<rparr>
          in if \<not> ok then
               written False (write_response T (lit ''422 Unprocessable Entity'') application_json
                 (error_body (lit ''rejected or not stored'')) t)
             else written True (write_response T (lit ''200 OK'') application_json (lit ''{\"ok\":true,\"rebooting\":true}'') t))"

definition respond ::
  "portal_lib \<Rightarrow> 's tcp \<Rightarrow> ('f, 't) hub_env \<Rightarrow> bytes \<Rightarrow> hub_config \<Rightarrow> http_request \<Rightarrow> ('f, 's) portal \<Rightarrow> bool option \<times> ('f, 's) portal" where
  "respond L T H page config request t =
     (case route_of request of
        Index \<Rightarrow> written False (write_response T (lit ''200 OK'') (lit ''text/html'') page t)
      | ApiConfigGet \<Rightarrow> written False (write_response T (lit ''200 OK'') application_json (config_json L config) t)
      | ApiStatus \<Rightarrow>
          written False (write_response T (lit ''200 OK'') application_json
            (portal_status_json L (snapshot (ucast (he_now H)) (he_stats H))) t)
      | ApiConfigPost body \<Rightarrow> post_config L T H config body t
      | Redirect \<Rightarrow> written False (write_all_tcp T redirect_head t))"

definition serve_connection ::
  "portal_lib \<Rightarrow> 's tcp \<Rightarrow> ('f, 't) hub_env \<Rightarrow> bytes \<Rightarrow> hub_config \<Rightarrow> nat list \<Rightarrow> bytes \<Rightarrow> ('f, 's) portal
   \<Rightarrow> bool \<times> ('f, 's) portal" where
  "serve_connection L T H page config sizes stream t =
     (case read_request sizes [] stream of
        GotRequest r \<Rightarrow> (let (b, t) = respond L T H page config r t in (b = Some True, t))
      | _ \<Rightarrow> (False, t))"

text \<open>One turn of the HTTP task: the connection, and the reboot it asks the administrator for.\<close>

definition portal_http_turn ::
  "portal_lib \<Rightarrow> 's tcp \<Rightarrow> ('f, 't) hub_env \<Rightarrow> bytes \<Rightarrow> hub_config \<Rightarrow> nat list \<Rightarrow> bytes
   \<Rightarrow> admin_command list \<Rightarrow> ('f, 's) portal \<Rightarrow> admin_command list \<times> ('f, 's) portal" where
  "portal_http_turn L T H page config sizes stream admin t =
     (let (asked, t) = serve_connection L T H page config sizes stream t
      in (if asked then (case try_send ADMIN_CHANNEL_SIZE AdminReboot admin of Some q \<Rightarrow> q | None \<Rightarrow> admin) else admin, t))"

subsection \<open>The servers never panic\<close>

lemma dhcp_turn_total:
  assumes "length reply = 300"
  shows "\<exists>sent reply'. dhcp_turn data reply = Some (sent, reply') \<and> length reply' = 300 \<and> (\<forall>d \<in> set sent. length d = 274)"
proof (cases "parse_request (take 600 data)")
  case None
  then show ?thesis using assms by (simp add: dhcp_turn_def)
next
  case (Some r)
  then have "length (transaction_id r) = 4" "length (client_mac r) = 16"
    by (auto simp: parse_request_def OPTIONS_AT_def split: if_splits)
  then have "build_reply r reply = Some (274, dhcp_reply r @ replicate 26 0)" "length (dhcp_reply r) = 274"
    using build_reply_eq assms length_reply_options [of r] by (simp_all add: dhcp_reply_def MAGIC_def)
  then show ?thesis using Some by (simp add: dhcp_turn_def)
qed

lemma dns_turn_total:
  assumes "length reply = 512"
  shows "\<exists>sent reply'. dns_turn data reply = Some (sent, reply') \<and> length reply' = 512 \<and> (\<forall>d \<in> set sent. length d \<le> 512)"
  using answer_cases [OF assms, of "take 320 data"] assms by (auto simp: dns_turn_def dns_reply_def dns_record_def)

lemma serve_datagrams_total:
  assumes "\<And>d reply. length reply = n \<Longrightarrow> \<exists>sent reply'. turn d reply = Some (sent, reply') \<and> length reply' = n \<and> (\<forall>x \<in> set sent. P x)"
    and "length reply = n"
  shows "\<exists>sent. serve_datagrams turn ds reply = Some sent \<and> (\<forall>x \<in> set sent. P x)"
  using assms(2)
proof (induction ds arbitrary: reply)
  case (Cons d ds)
  obtain sent reply' where t: "turn d reply = Some (sent, reply')" "length reply' = n" "\<forall>x \<in> set sent. P x"
    using assms(1) [OF Cons.prems] by blast
  obtain rest where "serve_datagrams turn ds reply' = Some rest" "\<forall>x \<in> set rest. P x" using Cons.IH [OF t(2)] by blast
  then show ?case using t by auto
qed simp

subsection \<open>Reads do not matter\<close>

text \<open>The request of a stream: the outcome of the shortest prefix that decides.\<close>

definition decided :: "parse_outcome \<Rightarrow> served" where
  "decided r = (case r of Complete q \<Rightarrow> GotRequest q | _ \<Rightarrow> NoRequest)"

definition first_request :: "bytes \<Rightarrow> served" where
  "first_request stream =
     (case List.find (\<lambda>i. try_parse (take i stream) \<noteq> Incomplete) [0..<Suc (min (length stream) MAX_REQUEST)] of
        None \<Rightarrow> NoRequest
      | Some i \<Rightarrow> decided (try_parse (take i stream)))"

lemma try_parse_take:
  assumes "try_parse (take i s) \<noteq> Incomplete" "i \<le> j" "j \<le> MAX_REQUEST"
  shows "try_parse (take j s) = try_parse (take i s)"
proof -
  have "take j s = take i s @ take (j - i) (drop i s)"
    using assms(2) by (metis le_add_diff_inverse take_add)
  moreover have "length (take i s @ take (j - i) (drop i s)) \<le> MAX_REQUEST"
    using assms(2,3) by simp
  ultimately show ?thesis using try_parse_append [OF assms(1)] by metis
qed

lemma first_request_decided:
  assumes "try_parse (take j s) \<noteq> Incomplete" "j \<le> length s" "j \<le> MAX_REQUEST"
  shows "first_request s = decided (try_parse (take j s))"
proof -
  let ?f = "List.find (\<lambda>i. try_parse (take i s) \<noteq> Incomplete) [0..<Suc (min (length s) MAX_REQUEST)]"
  have "j \<in> set [0..<Suc (min (length s) MAX_REQUEST)]" using assms(2,3) by (simp del: upt_Suc)
  then have "?f \<noteq> None" using assms(1) unfolding find_None_iff by blast
  then obtain i where i: "?f = Some i" by blast
  then obtain k where k: "k < Suc (min (length s) MAX_REQUEST)" "i = k" "try_parse (take k s) \<noteq> Incomplete"
    "\<forall>l < k. try_parse (take l s) = Incomplete"
    by (auto simp: find_Some_iff simp del: upt_Suc)
  have "i \<le> j" using k(2,4) assms(1) by (metis not_le)
  then show ?thesis using i k try_parse_take [of i s j] assms(3) by (simp add: first_request_def)
qed

lemma first_request_none:
  assumes "try_parse (take (min (length s) MAX_REQUEST) s) = Incomplete"
  shows "first_request s = NoRequest"
proof -
  let ?m = "min (length s) MAX_REQUEST"
  have "List.find (\<lambda>i. try_parse (take i s) \<noteq> Incomplete) [0..<Suc ?m] = None"
    using try_parse_take [of _ s ?m] assms by (auto simp: find_None_iff less_Suc_eq_le simp del: upt_Suc)
  then show ?thesis by (simp add: first_request_def)
qed

text \<open>As long as what was read is incomplete, the reads find the request of the whole stream.\<close>

lemma read_request_first:
  assumes "buf = take i s" "stream = drop i s" "i \<le> length s" "i < MAX_REQUEST" "try_parse buf = Incomplete"
    and "\<forall>n \<in> set ns. 0 < n"
  shows "read_request ns buf stream = WaitingForMore \<and> length ns \<le> length stream
    \<or> read_request ns buf stream = first_request s"
  using assms
proof (induction ns arbitrary: buf stream i)
  case (Cons n ns)
  define k where "k = min n (min (MAX_REQUEST - length buf) (length stream))"
  have len: "length buf = i" using Cons.prems by simp
  show ?case
  proof (cases "k = 0")
    case True
    then have "stream = []" using Cons.prems len by (auto simp: k_def min_def split: if_splits)
    then have "take (min (length s) MAX_REQUEST) s = buf" using Cons.prems by (simp add: min_def)
    then have "first_request s = NoRequest" using first_request_none Cons.prems(5) by simp
    then show ?thesis using True by (simp add: k_def [symmetric])
  next
    case False
    have k: "i + k \<le> length s" "i + k \<le> MAX_REQUEST" using Cons.prems len False by (auto simp: k_def)
    have buf: "buf @ take k stream = take (i + k) s" and stream: "drop k stream = drop (i + k) s"
      using Cons.prems(1,2) by (simp_all add: take_add add.commute)
    have step: "read_request (n # ns) buf stream =
        (case try_parse (take (i + k) s) of
           Incomplete \<Rightarrow> if MAX_REQUEST \<le> i + k then NoRequest else read_request ns (take (i + k) s) (drop (i + k) s)
         | Bad \<Rightarrow> NoRequest
         | Complete r \<Rightarrow> GotRequest r)"
      using False k buf stream by (simp add: k_def [symmetric] Let_def)
    show ?thesis
    proof (cases "try_parse (take (i + k) s) = Incomplete")
      case True
      show ?thesis
      proof (cases "MAX_REQUEST \<le> i + k")
        case full: True
        then have "min (length s) MAX_REQUEST = i + k" using k by simp
        then show ?thesis using True full step first_request_none [of s] by simp
      next
        case room: False
        then have "read_request ns (take (i + k) s) (drop (i + k) s) = WaitingForMore \<and> length ns \<le> length (drop (i + k) s)
            \<or> read_request ns (take (i + k) s) (drop (i + k) s) = first_request s"
          using Cons.prems(6) k True room by (intro Cons.IH) (simp_all add: not_le)
        then show ?thesis using True room step Cons.prems(2) False k by auto
      qed
    next
      case False
      then show ?thesis using step first_request_decided [of "i + k" s] k
        by (cases "try_parse (take (i + k) s)") (simp_all add: decided_def)
    qed
  qed
qed simp

subsection \<open>Applying an update\<close>

lemma apply_via_handle:
  "apply_via_hub_ctrl H c st = (ok, st') \<Longrightarrow>
   \<exists>r. handle (he_flash H) (he_build H) (he_stats H) (he_now H) c st = (r, st') \<and> (ok \<longleftrightarrow> r = ConfigAck AckOk)"
  by (auto simp: apply_via_hub_ctrl_def hub_ctrl_turn_def split: prod.splits)

lemma acked_change:
  assumes "handle F E stats now c st = (ConfigAck AckOk, st')"
  shows "\<exists>action. apply_command E (hc_pending st) c = (Inr action, hc_pending st')"
  using assms by (rule handle_cases) (auto simp: network_config_response_def)

lemma apply_commands_acked:
  assumes "flash_ok (he_flash H) A" "apply_commands H cs st = (True, st')"
    and "hc_store st = Some s" "cfg_version (hc_pending st) = CONFIG_SCHEMA_VERSION"
  shows "apply_all (he_build H) cs (hc_pending st) = Inr (hc_pending st')
    \<and> (cs \<noteq> [] \<or> synced (he_build H) A st \<longrightarrow> synced (he_build H) A st')"
  using assms(2-4)
proof (induction cs arbitrary: st s)
  case (Cons c cs)
  obtain ok st1 where a: "apply_via_hub_ctrl H c st = (ok, st1)" by force
  then have ok: "ok" "apply_commands H cs st1 = (True, st')" using Cons.prems(1) by (auto split: if_splits)
  then have h: "handle (he_flash H) (he_build H) (he_stats H) (he_now H) c st = (ConfigAck AckOk, st1)"
    using apply_via_handle [OF a] by auto
  have y: "synced (he_build H) A st1"
    using handle_synced [OF assms(1) Cons.prems(3,2) h] by simp
  obtain s1 where s1: "hc_store st1 = Some s1" using handle_store [OF assms(1) Cons.prems(2) h] by blast
  have v: "cfg_version (hc_pending st1) = CONFIG_SCHEMA_VERSION"
    using version_preserved [OF Cons.prems(3)] handle_pending [OF h] by simp
  show ?case using Cons.IH [OF ok(2) s1 v] y acked_change [OF h] by auto
qed simp

lemma write_all_ctrl [simp]: "pt_ctrl (snd (write_all_tcp T data t)) = pt_ctrl t"
proof (induction T data t rule: write_all_tcp.induct)
  case (1 T data t)
  obtain r s where w: "tcp_write T data (pt_socket t) = (r, s)" by force
  show ?case
    using 1 [OF _ w [symmetric] refl]
    by (subst write_all_tcp.simps) (auto simp: w Let_def split: option.split)
qed

lemma write_response_ctrl [simp]: "pt_ctrl (snd (write_response T a b c t)) = pt_ctrl t"
  by (simp add: write_response_def case_prod_beta Let_def)

lemma written_ctrl: "written restart r = (b, t) \<Longrightarrow> t = snd r \<and> (b = Some True \<longrightarrow> restart)"
  by (auto simp: written_def split: prod.splits if_splits)

lemma post_config_restart:
  assumes "post_config L T H config body t = (Some True, t')"
  shows "\<exists>cs. commands_from_update L body config = Inr cs \<and> apply_commands H cs (pt_ctrl t) = (True, pt_ctrl t')"
proof (cases "commands_from_update L body config")
  case (Inl e)
  then show ?thesis using assms by (cases e) (auto simp: post_config_def dest!: written_ctrl)
next
  case (Inr cs)
  obtain ok st where a: "apply_commands H cs (pt_ctrl t) = (ok, st)" by force
  show ?thesis using assms Inr a by (cases ok) (auto simp: post_config_def dest!: written_ctrl)
qed

lemma written_simps [simp]: "snd (written restart r) = snd r" "fst (written False r) \<noteq> Some True"
  by (simp_all add: written_def case_prod_beta)

lemma post_config_refused:
  assumes "commands_from_update L body config = Inr cs" "apply_commands H cs (pt_ctrl t) = (False, st)"
  shows "fst (post_config L T H config body t) \<noteq> Some True \<and> pt_ctrl (snd (post_config L T H config body t)) = st"
  using assms by (simp add: post_config_def del: lit_Cons)

lemma restart_applies:
  assumes "flash_ok (he_flash H) A" "hc_store (pt_ctrl t) = Some s" "hc_pending (pt_ctrl t) = config"
    and "cfg_version config = CONFIG_SCHEMA_VERSION" "update_from_slice L body = Some u"
    and "post_config L T H config body t = (Some True, t')"
  shows "update_fits u" "update_valid u config" "hc_pending (pt_ctrl t') = update_config u config"
    "synced (he_build H) A (pt_ctrl t')"
proof -
  obtain cs where cs: "commands_from_update L body config = Inr cs"
    "apply_commands H cs (pt_ctrl t) = (True, pt_ctrl t')"
    using post_config_restart [OF assms(6)] by blast
  have u: "update_fits u" "cs = update_commands u config" "cs \<noteq> []"
    using cs(1) commands_from_update_eq [OF assms(5), of config] by (auto split: if_splits)
  have a: "apply_all (he_build H) cs config = Inr (hc_pending (pt_ctrl t'))" "synced (he_build H) A (pt_ctrl t')"
    using apply_commands_acked [OF assms(1) cs(2) assms(2)] assms(3,4) u(3) by simp_all
  then show "update_valid u config" "hc_pending (pt_ctrl t') = update_config u config"
    using apply_update_commands [of "he_build H" u config] u(2) by (auto split: if_splits)
  show "update_fits u" "synced (he_build H) A (pt_ctrl t')" using u(1) a(2) by simp_all
qed

text \<open>The hub then runs what it stored, when the boot can read the flash.\<close>

lemma synced_reboot:
  assumes "synced E A st"
  shows "\<exists>s'. hc_store st = Some s' \<and>
    (fst (load F s') = stored_config A s' \<longrightarrow> hc_pending (Hub_Ctrl.reboot F E st) = hc_pending st)"
proof -
  obtain s' where s': "hc_store st = Some s'" "select_config E (stored_config A s') = hc_pending st"
    using assms by (auto simp: synced_def split: option.splits)
  then have "fst (load F s') = stored_config A s' \<longrightarrow> hc_pending (Hub_Ctrl.reboot F E st) = hc_pending st"
    by (auto simp: Hub_Ctrl.reboot_def boot_config_def split: prod.split)
  then show ?thesis using s'(1) by blast
qed

subsection \<open>Complete responses\<close>

text \<open>A connection that takes something of every write.\<close>

definition accepting :: "'s tcp \<Rightarrow> bool" where
  "accepting T \<longleftrightarrow> (\<forall>data s. data \<noteq> [] \<longrightarrow>
     (case fst (tcp_write T data s) of None \<Rightarrow> False | Some n \<Rightarrow> 0 < n \<and> n \<le> length data))"

lemma write_all_accepting:
  assumes "accepting T"
  shows "fst (write_all_tcp T data t) \<and> pt_sent (snd (write_all_tcp T data t)) = pt_sent t @ data"
  using assms
proof (induction T data t rule: write_all_tcp.induct)
  case (1 T data t)
  show ?case
  proof (cases "data = []")
    case True
    then show ?thesis by (subst (1 2) write_all_tcp.simps) simp
  next
    case False
    then obtain n s where w: "tcp_write T data (pt_socket t) = (Some n, s)" "0 < n"
      using 1(2) by (cases "tcp_write T data (pt_socket t)") (auto simp: accepting_def split: option.splits, metis fst_conv option.case)
    then show ?thesis
      using 1(1) [OF False refl w(1) [symmetric] refl refl _ 1(2)] False
      by (subst (1 2) write_all_tcp.simps) (simp add: Let_def)
  qed
qed

lemma write_fmt_fits: "length s + length (concat ps) \<le> cap \<Longrightarrow> write_fmt cap s ps = s @ concat ps"
  by (induction ps arbitrary: s) (simp_all add: extend_cap_def)

definition full_head :: "rtext \<Rightarrow> rtext \<Rightarrow> nat \<Rightarrow> rtext" where
  "full_head status content_type len =
     lit ''HTTP/1.1 '' @ status @ crlf @ lit ''Content-Type: '' @ content_type @ crlf @ lit ''Content-Length: '' @ dec len @ crlf
     @ lit ''Connection: close'' @ crlf @ crlf"

lemma response_head_full:
  assumes "length status + length content_type \<le> 50" "len < 10 ^ 9"
  shows "response_head status content_type len = full_head status content_type len"
proof -
  have "length (dec len) \<le> 9" using assms(2) by (intro length_dec) simp_all
  then show ?thesis
    using assms(1) unfolding response_head_def by (subst write_fmt_fits) (simp_all add: full_head_def crlf_def)
qed

lemma post_config_applied:
  assumes "accepting T" "commands_from_update L body config = Inr cs" "apply_commands H cs (pt_ctrl t) = (True, st)"
  shows "\<exists>t'. post_config L T H config body t = (Some True, t')"
  using assms write_all_accepting [OF assms(1)]
  by (auto simp: post_config_def written_def write_response_def case_prod_beta Let_def simp del: lit_Cons)

subsection \<open>A sample\<close>

text \<open>A hub with a stored network, and the page posted with the password field left blank.\<close>

definition sample_tcp :: "unit tcp" where
  "sample_tcp = \<lparr>tcp_write = (\<lambda>data s. (Some (length data), s))\<rparr>"

lemma sample_tcp_accepting: "accepting sample_tcp"
  by (simp add: accepting_def sample_tcp_def)

definition home_config :: hub_config where
  "home_config = (default_config sample_env)\<lparr>cfg_wifi := sample_wifi\<rparr>"

definition home_hub :: "(nat \<times> hub_config option, unit) portal" where
  "home_hub = \<lparr>pt_ctrl = boot sample_flash sample_env (0, Some home_config), pt_socket = (), pt_sent = []\<rparr>"

definition home_env :: "(nat \<times> hub_config option, unit) hub_env" where
  "home_env = \<lparr>he_flash = sample_flash, he_build = sample_env, he_wire = sample_wire, he_stats = new_stats, he_now = 0\<rparr>"

definition home_form :: page_form where
  "home_form = \<lparr>form_ssid = lit ''HomeNet'', form_password = [], form_mode = lit ''bridge'', form_mqtt_host = [],
     form_mqtt_port = 1883, form_gw_host = [], form_gw_port = 1700, form_gw_freq_hz = 868100000, form_gw_sf = 7\<rparr>"

definition sample_portal :: "config_update \<Rightarrow> portal_lib" where
  "sample_portal u = \<lparr>view_to_slice = (\<lambda>n v. None), update_from_slice = (\<lambda>body. Some u)\<rparr>"

lemma home_hub_state:
  "hc_store (pt_ctrl home_hub) = Some \<lparr>cs_range = (0x9000, 0xF000), cs_flash = (0, Some home_config)\<rparr>"
  "hc_pending (pt_ctrl home_hub) = home_config" "cfg_version home_config = CONFIG_SCHEMA_VERSION"
  by (simp_all add: home_hub_def home_config_def hub_ctrl_eval)

lemma home_env_flash: "flash_ok (he_flash home_env) (\<lambda>f r. snd f)"
  by (simp add: home_env_def sample_flash_ok)

lemma home_env_load: "fst (load (he_flash home_env) s') = stored_config (\<lambda>f r. snd f) s'"
  by (cases s') (auto simp: home_env_def load_def stored_config_def sample_flash_def split: prod.split option.split)

lemma home_handle:
  assumes "hc_store st = Some \<lparr>cs_range = r, cs_flash = (0, c)\<rparr>"
    and "apply_command sample_env (hc_pending st) cmd = (Inr SaveConfig, p)"
  shows "handle (he_flash home_env) (he_build home_env) (he_stats home_env) (he_now home_env) cmd st =
    (ConfigAck AckOk, \<lparr>hc_store = Some \<lparr>cs_range = r, cs_flash = (0, Some p)\<rparr>, hc_pending = p\<rparr>)"
  using assms by (cases cmd) (auto simp: home_env_def handle_def persist_def save_def sample_flash_def split: if_splits)

lemma home_posted:
  assumes "update_from_slice L body = Some (page_update home_form)"
  shows "\<exists>t'. post_config L sample_tcp home_env home_config body home_hub = (Some True, t')"
proof -
  let ?u = "page_update home_form"
  have u: "update_fits ?u" "update_commands ?u home_config =
      [SetWifiConfig (updated_wifi ?u (cfg_wifi home_config)), SetMode (updated_mode ?u (cfg_mode home_config))]"
    by (simp_all add: update_fits_def update_commands_def page_update_def home_form_def fits_def text_limits
        mqtt_touched_def gateway_touched_def Let_def)
  then have "commands_from_update L body home_config =
      Inr [SetWifiConfig (updated_wifi ?u (cfg_wifi home_config)), SetMode (updated_mode ?u (cfg_mode home_config))]"
    by (subst commands_from_update_eq [OF assms]) simp
  moreover have "\<exists>st. apply_commands home_env [SetWifiConfig (updated_wifi ?u (cfg_wifi home_config)),
      SetMode (updated_mode ?u (cfg_mode home_config))] (pt_ctrl home_hub) = (True, st)"
    by (simp add: apply_via_hub_ctrl_def hub_ctrl_turn_def home_handle home_hub_state)
  ultimately show ?thesis using post_config_applied [OF sample_tcp_accepting] by blast
qed

subsection \<open>Properties\<close>

text \<open>
  The datagram servers of the portal never panic and stay within their buffers, whatever
  datagrams arrive in whatever order: every DHCP reply has 274 bytes, every DNS reply at most 512.
\<close>

theorem portal_servers_never_panic:
  "(\<exists>sent. portal_dhcp_task ds = Some sent \<and> list_all (\<lambda>d. length d = 274) sent)
   \<and> (\<exists>sent. portal_dns_task ds = Some sent \<and> list_all (\<lambda>d. length d \<le> 512) sent)"
  using serve_datagrams_total [where turn = dhcp_turn and P = "\<lambda>d. length d = 274" and n = 300, OF dhcp_turn_total]
    serve_datagrams_total [where turn = dns_turn and P = "\<lambda>d. length d \<le> 512" and n = 512, OF dns_turn_total]
  by (simp add: portal_dhcp_task_def portal_dns_task_def list_all_iff)

text \<open>
  C30. Requests do not depend on how they arrive. However the stream of a connection is cut into
  reads, once there are more reads than bytes the outcome is the one of the shortest prefix that
  decides; and the text of a well-formed request with any other headers, that fits the buffer, is
  that request with its whole body.
\<close>

theorem requests_do_not_depend_on_reads:
  assumes "\<forall>n \<in> set sizes. 0 < n" "length stream < length sizes"
  shows "read_request sizes [] stream = first_request stream
    \<and> (word_ok m \<longrightarrow> word_ok p \<longrightarrow> (\<forall>l \<in> set (hs @ hs'). line_ok l \<and> other_header l) \<longrightarrow>
       length (http_text m p hs hs' body) \<le> MAX_REQUEST \<longrightarrow> stream = http_text m p hs hs' body \<longrightarrow>
       read_request sizes [] stream = GotRequest \<lparr>req_method = m, req_path = p, req_body = body\<rparr>)"
proof -
  have "try_parse [] = Incomplete" by (simp add: try_parse_def MAX_REQUEST_def)
  then have r: "read_request sizes [] stream = first_request stream"
    using read_request_first [of "[]" 0 stream stream sizes] assms by (simp add: MAX_REQUEST_def)
  have "first_request (http_text m p hs hs' body) = GotRequest \<lparr>req_method = m, req_path = p, req_body = body\<rparr>"
    if "word_ok m" "word_ok p" "\<forall>l \<in> set (hs @ hs'). line_ok l \<and> other_header l"
      "length (http_text m p hs hs' body) \<le> MAX_REQUEST"
    using first_request_decided [of "length (http_text m p hs hs' body)" "http_text m p hs hs' body"]
      try_parse_text [OF that] that(4) by (simp add: decided_def)
  then show ?thesis using r by (intro conjI impI) simp_all
qed

theorem requests_do_not_depend_on_reads_witness:
  "read_request (replicate 100 1) [] (http_text (lit ''POST'') (lit ''/api/config'') [lit ''Host: x''] [] (lit ''{}''))
   = GotRequest \<lparr>req_method = lit ''POST'', req_path = lit ''/api/config'', req_body = lit ''{}''\<rparr>"
proof -
  have l: "length (http_text (lit ''POST'') (lit ''/api/config'') [lit ''Host: x''] [] (lit ''{}'')) < 100"
    using length_dec [of "Suc (Suc 0)" 1]
    by (simp add: http_text_def http_head_def request_line_def header_bytes_def length_header_def header_mark_def crlf_def)
  have "\<forall>h \<in> set ([lit ''Host: x''] @ []). line_ok h \<and> other_header h"
    by (simp add: line_ok_def other_header_def eq_ignore_ascii_case_def ascii_lower_def byte_in_def)
  moreover have "word_ok (lit ''POST'')" "word_ok (lit ''/api/config'')" by (simp_all add: word_ok_def)
  moreover have "\<forall>n \<in> set (replicate 100 1). (0 :: nat) < n" by simp
  ultimately show ?thesis
    using requests_do_not_depend_on_reads [of "replicate 100 1" "http_text (lit ''POST'') (lit ''/api/config'')
        [lit ''Host: x''] [] (lit ''{}'')" "lit ''POST''" "lit ''/api/config''" "[lit ''Host: x'']" "[]" "lit ''{}''"] l
    unfolding length_replicate MAX_REQUEST_def by fastforce
qed

text \<open>
  C29. An accepted update takes effect. When the portal restarts the hub after a post, the update fitted
  and was valid, and the hub boots with every posted field of the broker, the gateway and the mode
  changed and the others as they were. The network changes as a whole: a posted name is stored with
  the posted password, and without one the stored password is erased (see
  \<open>blank_password_is_not_kept\<close>), while a password without a name is ignored. The configuration shown
  by the portal is the one the control task holds (nothing else has changed it since the boot), and
  the boot can read the flash.
\<close>

theorem accepted_update_takes_effect:
  assumes "flash_ok (he_flash H) A" "hc_store (pt_ctrl t) = Some s" "hc_pending (pt_ctrl t) = config"
    and "cfg_version config = CONFIG_SCHEMA_VERSION" "update_from_slice L body = Some u"
    and "post_config L T H config body t = (Some True, t')"
  shows "update_fits u \<and> update_valid u config
    \<and> (\<exists>s'. hc_store (pt_ctrl t') = Some s' \<and>
         (fst (load (he_flash H) s') = stored_config A s' \<longrightarrow>
          (let c = hc_pending (Hub_Ctrl.reboot (he_flash H) (he_build H) (pt_ctrl t'));
               m = cfg_mqtt config; g = cfg_gateway config
           in cfg_version c = cfg_version config
            \<and> cfg_mode c = (case upd_mode u of None \<Rightarrow> cfg_mode config
                | Some text \<Rightarrow> if text = lit ''gateway'' then LorawanGateway else Bridge)
            \<and> cfg_wifi c = (case upd_wifi_ssid u of None \<Rightarrow> cfg_wifi config
                | Some name \<Rightarrow> \<lparr>ssid = name, password = (case upd_wifi_password u of None \<Rightarrow> [] | Some secret \<Rightarrow> secret)\<rparr>)
            \<and> mqtt_host (cfg_mqtt c) = unwrap_or (upd_mqtt_host u) (mqtt_host m)
            \<and> mqtt_port (cfg_mqtt c) = unwrap_or (upd_mqtt_port u) (mqtt_port m)
            \<and> client_id (cfg_mqtt c) = unwrap_or (upd_client_id u) (client_id m)
            \<and> gw_frequency_hz (cfg_gateway c) = unwrap_or (upd_gw_freq_hz u) (gw_frequency_hz g)
            \<and> gw_spreading_factor (cfg_gateway c) = unwrap_or (upd_gw_sf u) (gw_spreading_factor g)
            \<and> gw_bandwidth_khz (cfg_gateway c) = unwrap_or (upd_gw_bw_khz u) (gw_bandwidth_khz g)
            \<and> gw_coding_rate (cfg_gateway c) = unwrap_or (upd_gw_cr u) (gw_coding_rate g)
            \<and> gw_host (cfg_gateway c) = unwrap_or (upd_gw_host u) (gw_host g)
            \<and> gw_port (cfg_gateway c) = unwrap_or (upd_gw_port u) (gw_port g))))"
proof -
  note a = restart_applies [OF assms]
  obtain s' where s': "hc_store (pt_ctrl t') = Some s'"
    "fst (load (he_flash H) s') = stored_config A s' \<Longrightarrow>
     hc_pending (Hub_Ctrl.reboot (he_flash H) (he_build H) (pt_ctrl t')) = update_config u config"
    using synced_reboot [OF a(4), of "he_flash H"] a(3) by auto
  show ?thesis
    using a(1,2) s'(1) s'(2)
    by (simp add: update_config_def updated_wifi_def updated_mqtt_def updated_gateway_def updated_mode_def unwrap_or_def
        Let_def split: option.split)
qed

theorem accepted_update_takes_effect_witness:
  "cfg_wifi (hc_pending (Hub_Ctrl.reboot sample_flash sample_env
     (pt_ctrl (snd (post_config (sample_portal (page_update home_form)) sample_tcp home_env home_config [] home_hub)))))
   = \<lparr>ssid = form_ssid home_form, password = []\<rparr>"
proof -
  obtain t' where p: "post_config (sample_portal (page_update home_form)) sample_tcp home_env home_config [] home_hub = (Some True, t')"
    using home_posted [of "sample_portal (page_update home_form)" "[]"] by (auto simp: sample_portal_def)
  have "update_from_slice (sample_portal (page_update home_form)) [] = Some (page_update home_form)"
    by (simp add: sample_portal_def)
  moreover have "upd_wifi_ssid (page_update home_form) = Some (form_ssid home_form)" "upd_wifi_password (page_update home_form) = None"
    by (simp_all add: page_update_def home_form_def)
  ultimately show ?thesis
    using accepted_update_takes_effect [OF home_env_flash home_hub_state _ p] home_env_load unfolding p
    by (auto simp: home_env_def Let_def)
qed

text \<open>
  A blank password field does not keep the password. Whatever password is stored, a post of the
  embedded page with the field left blank and no other change that is refused removes it: the hub
  restarts with an open network of the same name.
\<close>

theorem blank_password_is_not_kept:
  assumes "flash_ok (he_flash H) A" "hc_store (pt_ctrl t) = Some s" "hc_pending (pt_ctrl t) = config"
    and "cfg_version config = CONFIG_SCHEMA_VERSION" "update_from_slice L body = Some (page_update form)"
    and "form_password form = []" "form_ssid form = ssid (cfg_wifi config)"
    and "post_config L T H config body t = (Some True, t')"
  shows "cfg_wifi (hc_pending (pt_ctrl t')) = \<lparr>ssid = ssid (cfg_wifi config), password = []\<rparr>
    \<and> synced (he_build H) A (pt_ctrl t')"
  using restart_applies [OF assms(1-5,8)] assms(6,7)
  by (auto simp: update_config_def updated_wifi_def page_update_def unwrap_or_def Let_def)

theorem blank_password_is_not_kept_witness:
  "password (cfg_wifi home_config) = lit ''hunter22secret''
   \<and> password (cfg_wifi (hc_pending (pt_ctrl (snd (post_config (sample_portal (page_update home_form)) sample_tcp home_env
         home_config [] home_hub))))) = []"
proof -
  obtain t' where p: "post_config (sample_portal (page_update home_form)) sample_tcp home_env home_config [] home_hub = (Some True, t')"
    using home_posted [of "sample_portal (page_update home_form)" "[]"] by (auto simp: sample_portal_def)
  have "update_from_slice (sample_portal (page_update home_form)) [] = Some (page_update home_form)"
    by (simp add: sample_portal_def)
  moreover have "form_password home_form = []" "form_ssid home_form = ssid (cfg_wifi home_config)"
    by (simp_all add: home_form_def home_config_def sample_wifi_def)
  ultimately show ?thesis
    using blank_password_is_not_kept [OF home_env_flash home_hub_state _ _ _ p] unfolding p
    by (simp add: home_config_def sample_wifi_def)
qed

text \<open>
  A refused update can be half stored. When a post names a network and gateway settings outside
  the limits, the portal answers that it was rejected or not stored and does not restart the hub,
  but the network has already been stored and is used from the next boot.
\<close>

theorem refused_update_is_half_stored:
  assumes "flash_ok (he_flash H) A" "hc_store (pt_ctrl t) = Some s"
    and "update_from_slice L body = Some u" "update_fits u" "upd_wifi_ssid u \<noteq> None"
    and "\<not> mqtt_touched u" "gateway_touched u" "\<not> gateway_settings_valid (updated_gateway u (cfg_gateway config))"
    and first: "handle (he_flash H) (he_build H) (he_stats H) (he_now H) (SetWifiConfig (updated_wifi u (cfg_wifi config)))
      (pt_ctrl t) = (ConfigAck AckOk, st1)"
  shows "fst (post_config L T H config body t) \<noteq> Some True
    \<and> (\<exists>s' c. hc_store (pt_ctrl (snd (post_config L T H config body t))) = Some s' \<and> stored_config A s' = Some c
         \<and> cfg_wifi c = updated_wifi u (cfg_wifi config))"
proof -
  let ?w = "updated_wifi u (cfg_wifi config)" and ?g = "updated_gateway u (cfg_gateway config)"
  have cs: "commands_from_update L body config = Inr (update_commands u config)"
    using assms(5) by (auto simp: commands_from_update_eq [OF assms(3)] assms(4) update_commands_def)
  have w: "apply_via_hub_ctrl H (SetWifiConfig ?w) (pt_ctrl t) = (True, st1)"
    using first by (simp add: apply_via_hub_ctrl_def hub_ctrl_turn_def)
  have g: "apply_via_hub_ctrl H (SetGatewayConfig ?g) st1 = (False, st1)"
    using assms(8) by (simp add: apply_via_hub_ctrl_def hub_ctrl_turn_def handle_def)
  have a: "apply_commands H (update_commands u config) (pt_ctrl t) = (False, st1)"
    using assms(5-7) w g by (auto simp: update_commands_def)
  have post: "fst (post_config L T H config body t) \<noteq> Some True" "pt_ctrl (snd (post_config L T H config body t)) = st1"
    using post_config_refused [OF cs a] by simp_all
  from first show ?thesis
  proof (cases rule: handle_cases)
    case (changed action status store)
    then have a': "action = SaveConfig" "hc_pending st1 = hc_pending (pt_ctrl t)\<lparr>cfg_wifi := ?w\<rparr>" "status = AckOk" by auto
    show ?thesis
      by (rule persist_cases [OF assms(1) changed(3) [unfolded assms(2)]]) (use a' changed(4) post in auto)
  qed (auto simp: network_config_response_def)
qed

theorem refused_update_is_half_stored_witness:
  "let u = (page_update home_form)\<lparr>upd_gw_sf := Some 13\<rparr>;
       r = post_config (sample_portal u) sample_tcp home_env home_config [] home_hub
   in fst r \<noteq> Some True
      \<and> (\<exists>s' c. hc_store (pt_ctrl (snd r)) = Some s' \<and> snd (cs_flash s') = Some c \<and> password (cfg_wifi c) = [])"
proof -
  let ?u = "(page_update home_form)\<lparr>upd_gw_sf := Some 13\<rparr>"
  have u: "update_from_slice (sample_portal ?u) [] = Some ?u" "update_fits ?u" "upd_wifi_ssid ?u \<noteq> None"
    "\<not> mqtt_touched ?u" "gateway_touched ?u" "\<not> gateway_settings_valid (updated_gateway ?u (cfg_gateway home_config))"
    by (simp_all add: sample_portal_def update_fits_def page_update_def home_form_def fits_def text_limits mqtt_touched_def
        gateway_touched_def gateway_settings_valid_def updated_gateway_def unwrap_or_def Let_def)
  have w: "password (updated_wifi ?u (cfg_wifi home_config)) = []"
    by (simp add: updated_wifi_def page_update_def home_form_def unwrap_or_def Let_def)
  have h: "handle (he_flash home_env) (he_build home_env) (he_stats home_env) (he_now home_env)
      (SetWifiConfig (updated_wifi ?u (cfg_wifi home_config))) (pt_ctrl home_hub) = (ConfigAck AckOk,
        \<lparr>hc_store = Some \<lparr>cs_range = (0x9000, 0xF000), cs_flash = (0, Some (home_config\<lparr>cfg_wifi := updated_wifi ?u (cfg_wifi home_config)\<rparr>))\<rparr>,
         hc_pending = home_config\<lparr>cfg_wifi := updated_wifi ?u (cfg_wifi home_config)\<rparr>\<rparr>)"
    by (rule home_handle) (simp_all add: home_hub_state)
  show ?thesis
    using refused_update_is_half_stored [OF home_env_flash home_hub_state(1) u h, of sample_tcp] w
    by (auto simp: Let_def stored_config_def)
qed

text \<open>
  Responses are complete. Every status line and content type the portal uses fit the head together
  with the length of any body below a gigabyte, and over a connection that takes something of every
  write the whole response is sent, its length line giving the length of its body.
\<close>

theorem responses_are_complete:
  assumes "accepting T" "status \<in> {lit ''200 OK'', lit ''400 Bad Request'', lit ''422 Unprocessable Entity''}"
    and "content_type \<in> {lit ''text/html'', application_json}" "length body < 10 ^ 9"
  shows "fst (write_response T status content_type body t)
    \<and> pt_sent (snd (write_response T status content_type body t)) =
        pt_sent t @ lit ''HTTP/1.1 '' @ status @ crlf @ lit ''Content-Type: '' @ content_type @ crlf
          @ lit ''Content-Length: '' @ dec (length body) @ crlf @ lit ''Connection: close'' @ crlf @ crlf @ body"
proof -
  have "length status + length content_type \<le> 50" using assms(2,3) by (auto simp: application_json_def)
  then have "response_head status content_type (length body) = full_head status content_type (length body)"
    using assms(4) by (rule response_head_full)
  then show ?thesis
    by (simp add: write_response_def case_prod_beta full_head_def Let_def write_all_accepting [OF assms(1)] del: lit_Cons)
qed

theorem responses_are_complete_witness:
  "fst (write_response sample_tcp (lit ''200 OK'') application_json (lit ''{}'') home_hub)"
  using responses_are_complete [OF sample_tcp_accepting, of "lit ''200 OK''" application_json "lit ''{}''" home_hub]
  by (simp del: lit_Cons)

end
