(* ===== verification/App_Backend.thy ===== *)
theory App_Backend imports Portal_Task begin

text \<open>
  The backend of the setup app (files \<open>models.rs\<close>, \<open>engine.rs\<close>, \<open>client.rs\<close> and \<open>frb_api.rs\<close> under
  src/app/rust_backend/src/): the views of a hub, the validation of updates, the client over HTTP, the
  fake hub of the mock mode, and the exported functions. A hub is a record of three operations on its
  state; the locale \<open>hub_contract\<close> states what the app relies on, and is interpreted by the fake hub
  and by the client that talks to the portal of the firmware. The HTTP agent and its JSON are the
  parameter record \<open>http_agent\<close>; the generated bridge to Dart is not modelled.
\<close>

subsection \<open>Models\<close>

text \<open>The app has structs of its own with the fields of the firmware's payloads.\<close>

type_synonym hub_config_view = config_view
type_synonym hub_status_view = status_view
type_synonym hub_config_update = config_update

record apply_outcome =
  outcome_ok :: bool
  outcome_rebooting :: bool

record hub_snapshot =
  snap_config :: hub_config_view
  snap_status :: hub_status_view

subsection \<open>The interface of a hub\<close>

datatype api_error = Unreachable rtext | Rejected rtext

fun api_error_text :: "api_error \<Rightarrow> rtext" where
  "api_error_text (Unreachable detail) = lit ''hub unreachable: '' @ detail"
| "api_error_text (Rejected detail) = lit ''hub rejected the request: '' @ detail"

record 'h hub_api =
  fetch_config :: "'h \<Rightarrow> (api_error + hub_config_view) \<times> 'h"
  fetch_status :: "'h \<Rightarrow> (api_error + hub_status_view) \<times> 'h"
  apply_config :: "config_update \<Rightarrow> 'h \<Rightarrow> (api_error + apply_outcome) \<times> 'h"

subsection \<open>Orchestration\<close>

definition check_len :: "rtext option \<Rightarrow> nat \<Rightarrow> rtext \<Rightarrow> rtext + unit" where
  "check_len v max_len what =
     (case v of
        Some s \<Rightarrow>
          if max_len < length s then Inl (what @ lit '' is longer than '' @ dec max_len @ lit '' bytes'') else Inr ()
      | None \<Rightarrow> Inr ())"

definition check_that :: "bool \<Rightarrow> rtext \<Rightarrow> rtext + unit" where
  "check_that ok message = (if ok then Inr () else Inl message)"

definition validate_update :: "config_update \<Rightarrow> rtext + unit" where
  "validate_update u =
     rbind (check_len (upd_wifi_ssid u) MAX_SSID_LEN (lit ''WiFi name'')) (\<lambda>_.
     rbind (check_len (upd_wifi_password u) MAX_PASSWORD_LEN (lit ''WiFi password'')) (\<lambda>_.
     rbind (check_len (upd_mqtt_host u) MAX_HOST_LEN (lit ''broker host'')) (\<lambda>_.
     rbind (check_len (upd_client_id u) MAX_CLIENT_ID_LEN (lit ''client id'')) (\<lambda>_.
     rbind (check_len (upd_gw_host u) MAX_HOST_LEN (lit ''network server host'')) (\<lambda>_.
     rbind (check_that (\<not> (upd_mqtt_port u = Some 0 \<or> upd_gw_port u = Some 0)) (lit ''port cannot be 0'')) (\<lambda>_.
     rbind (check_that (case upd_mode u of None \<Rightarrow> True | Some m \<Rightarrow> m = lit ''bridge'' \<or> m = lit ''gateway'')
       (lit ''mode must be bridge or gateway'')) (\<lambda>_.
     rbind (check_that (case upd_gw_sf u of None \<Rightarrow> True | Some sf \<Rightarrow> 7 \<le> sf \<and> sf \<le> 12)
       (lit ''spreading factor must be 7 to 12'')) (\<lambda>_.
     rbind (check_that (case upd_gw_bw_khz u of None \<Rightarrow> True | Some bw \<Rightarrow> bw \<in> {125, 250, 500})
       (lit ''bandwidth must be 125, 250 or 500 kHz'')) (\<lambda>_.
     check_that (case upd_gw_freq_hz u of None \<Rightarrow> True | Some f \<Rightarrow> 150000000 \<le> f \<and> f \<le> 960000000)
       (lit ''frequency out of the radio's range''))))))))))"

definition load_snapshot :: "'h hub_api \<Rightarrow> 'h \<Rightarrow> (rtext + hub_snapshot) \<times> 'h" where
  "load_snapshot api h =
     (case fetch_config api h of
        (Inl e, h) \<Rightarrow> (Inl (api_error_text e), h)
      | (Inr config, h) \<Rightarrow>
          (case fetch_status api h of
             (Inl e, h) \<Rightarrow> (Inl (api_error_text e), h)
           | (Inr status, h) \<Rightarrow> (Inr \<lparr>snap_config = config, snap_status = status\<rparr>, h)))"

definition save_config :: "'h hub_api \<Rightarrow> config_update \<Rightarrow> 'h \<Rightarrow> (rtext + apply_outcome) \<times> 'h" where
  "save_config api u h =
     (case validate_update u of
        Inl e \<Rightarrow> (Inl e, h)
      | Inr _ \<Rightarrow> (let (r, h) = apply_config api u h in (map_err api_error_text r, h)))"

subsection \<open>The client over HTTP\<close>

datatype http_error = StatusCode u16 | OtherError rtext

record 'w http_agent =
  agent_get :: "rtext \<Rightarrow> 'w \<Rightarrow> (http_error + bytes) \<times> 'w"
  agent_post :: "rtext \<Rightarrow> config_update \<Rightarrow> 'w \<Rightarrow> (http_error + bytes) \<times> 'w"
  http_error_text :: "http_error \<Rightarrow> rtext"
  read_config_json :: "bytes \<Rightarrow> rtext + hub_config_view"
  read_status_json :: "bytes \<Rightarrow> rtext + hub_status_view"
  read_outcome_json :: "bytes \<Rightarrow> rtext + apply_outcome"

definition trim_end_slashes :: "rtext \<Rightarrow> rtext" where
  "trim_end_slashes s = rev (dropWhile (\<lambda>b. b = 0x2F) (rev s))"

record http_hub_api =
  base_url :: rtext

definition new_http_api :: "rtext \<Rightarrow> http_hub_api" where
  "new_http_api address = \<lparr>base_url = trim_end_slashes address\<rparr>"

definition url :: "http_hub_api \<Rightarrow> rtext \<Rightarrow> rtext" where
  "url a path = base_url a @ path"

definition fetch_json :: "'w http_agent \<Rightarrow> rtext \<Rightarrow> (bytes \<Rightarrow> rtext + 'v) \<Rightarrow> 'w \<Rightarrow> (api_error + 'v) \<times> 'w" where
  "fetch_json A address reader w =
     (let (r, w) = agent_get A address w
      in (case r of
            Inl e \<Rightarrow> Inl (Unreachable (http_error_text A e))
          | Inr body \<Rightarrow> map_err Rejected (reader body), w))"

fun post_error :: "'w http_agent \<Rightarrow> http_error \<Rightarrow> api_error" where
  "post_error A (StatusCode code) = Rejected (lit ''HTTP '' @ dec (unat code))"
| "post_error A (OtherError other) = Unreachable (http_error_text A (OtherError other))"

definition http_apply_config ::
  "'w http_agent \<Rightarrow> http_hub_api \<Rightarrow> config_update \<Rightarrow> 'w \<Rightarrow> (api_error + apply_outcome) \<times> 'w" where
  "http_apply_config A a u w =
     (let (r, w) = agent_post A (url a (lit ''/api/config'')) u w
      in (rbind (map_err (post_error A) r) (\<lambda>body. map_err Rejected (read_outcome_json A body)), w))"

definition http_api :: "'w http_agent \<Rightarrow> http_hub_api \<Rightarrow> 'w hub_api" where
  "http_api A a =
     \<lparr>fetch_config = fetch_json A (url a (lit ''/api/config'')) (read_config_json A),
      fetch_status = fetch_json A (url a (lit ''/api/status'')) (read_status_json A),
      apply_config = http_apply_config A a\<rparr>"

subsection \<open>The fake hub\<close>

definition fake_new :: hub_config_view where
  "fake_new = \<lparr>view_mode = lit ''bridge'', view_wifi_ssid = [], view_mqtt_host = [], view_mqtt_port = 1883,
     view_client_id = [], view_gw_freq_hz = 868100000, view_gw_sf = 7, view_gw_bw_khz = 125, view_gw_cr = 5,
     view_gw_host = [], view_gw_port = 1700\<rparr>"

definition fake_status :: "hub_config_view \<Rightarrow> hub_status_view" where
  "fake_status s =
     (let provisioned = view_wifi_ssid s \<noteq> []
      in \<lparr>view_wifi_state = (if provisioned then 2 else 0), view_mqtt_state = (if provisioned then 2 else 0),
          view_ip = (if provisioned then lit ''192.168.1.50'' else lit ''0.0.0.0''),
          view_uplink = 12, view_downlink = 3, view_dropped = 0, view_uptime_secs = 4200\<rparr>)"

text \<open>One assignment of the fake: the field is set when the update has it.\<close>

definition assign :: "'a option \<Rightarrow> ('a \<Rightarrow> 's \<Rightarrow> 's) \<Rightarrow> 's \<Rightarrow> 's" where
  "assign v f s = (case v of None \<Rightarrow> s | Some x \<Rightarrow> f x s)"

definition fake_apply_config :: "config_update \<Rightarrow> hub_config_view \<Rightarrow> (api_error + apply_outcome) \<times> hub_config_view" where
  "fake_apply_config u s =
     (let s = assign (upd_wifi_ssid u) (\<lambda>x s. s\<lparr>view_wifi_ssid := x\<rparr>) s;
          s = assign (upd_mqtt_host u) (\<lambda>x s. s\<lparr>view_mqtt_host := x\<rparr>) s;
          s = assign (upd_mqtt_port u) (\<lambda>x s. s\<lparr>view_mqtt_port := x\<rparr>) s;
          s = assign (upd_client_id u) (\<lambda>x s. s\<lparr>view_client_id := x\<rparr>) s;
          s = assign (upd_mode u) (\<lambda>x s. s\<lparr>view_mode := x\<rparr>) s;
          s = assign (upd_gw_freq_hz u) (\<lambda>x s. s\<lparr>view_gw_freq_hz := x\<rparr>) s;
          s = assign (upd_gw_sf u) (\<lambda>x s. s\<lparr>view_gw_sf := x\<rparr>) s;
          s = assign (upd_gw_bw_khz u) (\<lambda>x s. s\<lparr>view_gw_bw_khz := x\<rparr>) s;
          s = assign (upd_gw_cr u) (\<lambda>x s. s\<lparr>view_gw_cr := x\<rparr>) s;
          s = assign (upd_gw_host u) (\<lambda>x s. s\<lparr>view_gw_host := x\<rparr>) s;
          s = assign (upd_gw_port u) (\<lambda>x s. s\<lparr>view_gw_port := x\<rparr>) s
      in (Inr \<lparr>outcome_ok = True, outcome_rebooting = True\<rparr>, s))"

definition fake_hub :: "hub_config_view hub_api" where
  "fake_hub = \<lparr>fetch_config = (\<lambda>s. (Inr s, s)), fetch_status = (\<lambda>s. (Inr (fake_status s), s)),
     apply_config = fake_apply_config\<rparr>"

subsection \<open>The exported functions\<close>

text \<open>The process-wide client, and the calls it dispatches; the fake keeps its state in the client.\<close>

datatype active_api = HttpHub http_hub_api | FakeHub hub_config_view

record 'w app =
  app_api :: "active_api option"
  app_net :: 'w

definition on_active ::
  "('w \<Rightarrow> 'r \<times> 'w) \<Rightarrow> (hub_config_view \<Rightarrow> 'r \<times> hub_config_view) \<Rightarrow> active_api \<times> 'w \<Rightarrow> 'r \<times> (active_api \<times> 'w)" where
  "on_active http fake s =
     (case s of
        (HttpHub a, w) \<Rightarrow> (let (r, w) = http w in (r, HttpHub a, w))
      | (FakeHub v, w) \<Rightarrow> (let (r, v) = fake v in (r, FakeHub v, w)))"

definition http_of :: "active_api \<times> 'w \<Rightarrow> http_hub_api" where
  "http_of s = (case fst s of HttpHub a \<Rightarrow> a | FakeHub v \<Rightarrow> new_http_api [])"

definition active_hub :: "'w http_agent \<Rightarrow> (active_api \<times> 'w) hub_api" where
  "active_hub A =
     \<lparr>fetch_config = (\<lambda>s. on_active (fetch_config (http_api A (http_of s))) (fetch_config fake_hub) s),
      fetch_status = (\<lambda>s. on_active (fetch_status (http_api A (http_of s))) (fetch_status fake_hub) s),
      apply_config = (\<lambda>u s. on_active (apply_config (http_api A (http_of s)) u) (apply_config fake_hub u) s)\<rparr>"

definition not_initialised :: rtext where
  "not_initialised = lit ''Not initialised. Call frbInit first.''"

definition with_api ::
  "'w http_agent \<Rightarrow> ((active_api \<times> 'w) hub_api \<Rightarrow> active_api \<times> 'w \<Rightarrow> (rtext + 'r) \<times> (active_api \<times> 'w))
   \<Rightarrow> 'w app \<Rightarrow> (rtext + 'r) \<times> 'w app" where
  "with_api A f p =
     (case app_api p of
        None \<Rightarrow> (Inl not_initialised, p)
      | Some a \<Rightarrow> (let (r, a, w) = f (active_hub A) (a, app_net p) in (r, \<lparr>app_api = Some a, app_net = w\<rparr>)))"

definition frb_init :: "rtext \<Rightarrow> bool \<Rightarrow> 'w app \<Rightarrow> (rtext + unit) \<times> 'w app" where
  "frb_init address mock p =
     (Inr (), p\<lparr>app_api := Some (if mock then FakeHub fake_new else HttpHub (new_http_api address))\<rparr>)"

definition frb_set_hub_address :: "rtext \<Rightarrow> 'w app \<Rightarrow> (rtext + unit) \<times> 'w app" where
  "frb_set_hub_address address p =
     (case app_api p of
        Some _ \<Rightarrow> (Inr (), p\<lparr>app_api := Some (HttpHub (new_http_api address))\<rparr>)
      | None \<Rightarrow> (Inl not_initialised, p))"

definition frb_load_snapshot :: "'w http_agent \<Rightarrow> 'w app \<Rightarrow> (rtext + hub_snapshot) \<times> 'w app" where
  "frb_load_snapshot A = with_api A load_snapshot"

definition frb_get_status :: "'w http_agent \<Rightarrow> 'w app \<Rightarrow> (rtext + hub_status_view) \<times> 'w app" where
  "frb_get_status A = with_api A (\<lambda>api s. let (r, s) = fetch_status api s in (map_err api_error_text r, s))"

definition frb_save_config :: "'w http_agent \<Rightarrow> config_update \<Rightarrow> 'w app \<Rightarrow> (rtext + apply_outcome) \<times> 'w app" where
  "frb_save_config A u = with_api A (\<lambda>api. save_config api u)"

subsection \<open>The contract of a hub\<close>

text \<open>What an update does to the view: the given fields are changed.\<close>

definition view_update :: "config_update \<Rightarrow> hub_config_view \<Rightarrow> hub_config_view" where
  "view_update u v =
     \<lparr>view_mode = unwrap_or (upd_mode u) (view_mode v), view_wifi_ssid = unwrap_or (upd_wifi_ssid u) (view_wifi_ssid v),
      view_mqtt_host = unwrap_or (upd_mqtt_host u) (view_mqtt_host v),
      view_mqtt_port = unwrap_or (upd_mqtt_port u) (view_mqtt_port v),
      view_client_id = unwrap_or (upd_client_id u) (view_client_id v),
      view_gw_freq_hz = unwrap_or (upd_gw_freq_hz u) (view_gw_freq_hz v), view_gw_sf = unwrap_or (upd_gw_sf u) (view_gw_sf v),
      view_gw_bw_khz = unwrap_or (upd_gw_bw_khz u) (view_gw_bw_khz v), view_gw_cr = unwrap_or (upd_gw_cr u) (view_gw_cr v),
      view_gw_host = unwrap_or (upd_gw_host u) (view_gw_host v), view_gw_port = unwrap_or (upd_gw_port u) (view_gw_port v)\<rparr>"

text \<open>Saving a list of updates, until one fails.\<close>

fun save_all :: "'h hub_api \<Rightarrow> config_update list \<Rightarrow> 'h \<Rightarrow> bool \<times> 'h" where
  "save_all api [] h = (True, h)"
| "save_all api (u # us) h =
     (case save_config api u h of (Inl _, h) \<Rightarrow> (False, h) | (Inr _, h) \<Rightarrow> save_all api us h)"

locale hub_contract =
  fixes api :: "'h hub_api" and shown :: "'h \<Rightarrow> hub_config_view" and good :: "'h \<Rightarrow> bool"
    and sendable :: "config_update \<Rightarrow> bool"
  assumes fetch_config_law: "good h \<Longrightarrow> fetch_config api h = (Inr v, h') \<Longrightarrow> good h' \<and> shown h' = shown h \<and> v = shown h"
    and fetch_status_law: "good h \<Longrightarrow> fetch_status api h = (Inr s, h') \<Longrightarrow> good h' \<and> shown h' = shown h"
    and apply_law: "good h \<Longrightarrow> sendable u \<Longrightarrow> validate_update u = Inr () \<Longrightarrow> apply_config api u h = (Inr x, h') \<Longrightarrow>
      good h' \<and> shown h' = view_update u (shown h)"
begin

lemma load_shows:
  assumes "good h" "load_snapshot api h = (Inr s, h')"
  shows "good h' \<and> shown h' = shown h \<and> snap_config s = shown h"
proof -
  obtain v h1 where f: "fetch_config api h = (Inr v, h1)"
    using assms(2) by (auto simp: load_snapshot_def split: prod.splits sum.splits)
  then obtain t where g: "fetch_status api h1 = (Inr t, h')" and s: "s = \<lparr>snap_config = v, snap_status = t\<rparr>"
    using assms(2) by (auto simp: load_snapshot_def split: prod.splits sum.splits)
  show ?thesis
    using fetch_config_law [OF assms(1) f] fetch_status_law [OF _ g] s by auto
qed

lemma save_updates:
  assumes "good h" "sendable u" "save_config api u h = (Inr x, h')"
  shows "good h' \<and> shown h' = view_update u (shown h)"
proof -
  obtain r where a: "validate_update u = Inr ()" "apply_config api u h = (r, h')" "map_err api_error_text r = Inr x"
    using assms(3) by (auto simp: save_config_def split: sum.splits prod.splits)
  then obtain y where "r = Inr y" by (cases r) auto
  then show ?thesis using apply_law [OF assms(1,2) a(1)] a(2) by blast
qed

lemma saves_accumulate:
  "good h \<Longrightarrow> \<forall>u \<in> set us. sendable u \<Longrightarrow> save_all api us h = (True, h') \<Longrightarrow>
   good h' \<and> shown h' = fold view_update us (shown h)"
proof (induction us arbitrary: h)
  case (Cons u us)
  obtain x h1 where s: "save_config api u h = (Inr x, h1)" "save_all api us h1 = (True, h')"
    using Cons.prems(3) by (auto split: sum.splits prod.splits)
  then show ?case using Cons.IH [of h1] save_updates [OF Cons.prems(1) _ s(1)] Cons.prems(2) by simp
qed simp

lemma saved_is_shown:
  assumes "good h" "\<forall>u \<in> set us. sendable u" "save_all api us h = (True, h1)" "load_snapshot api h1 = (Inr s, h2)"
  shows "snap_config s = fold view_update us (shown h)"
  using saves_accumulate [OF assms(1-3)] load_shows [OF _ assms(4)] by simp

end

subsection \<open>The fake hub keeps the contract\<close>

lemma assign_view:
  "assign v (\<lambda>x s. s\<lparr>view_wifi_ssid := x\<rparr>) s = s\<lparr>view_wifi_ssid := unwrap_or v (view_wifi_ssid s)\<rparr>"
  "assign v (\<lambda>x s. s\<lparr>view_mqtt_host := x\<rparr>) s = s\<lparr>view_mqtt_host := unwrap_or v (view_mqtt_host s)\<rparr>"
  "assign p (\<lambda>x s. s\<lparr>view_mqtt_port := x\<rparr>) s = s\<lparr>view_mqtt_port := unwrap_or p (view_mqtt_port s)\<rparr>"
  "assign v (\<lambda>x s. s\<lparr>view_client_id := x\<rparr>) s = s\<lparr>view_client_id := unwrap_or v (view_client_id s)\<rparr>"
  "assign v (\<lambda>x s. s\<lparr>view_mode := x\<rparr>) s = s\<lparr>view_mode := unwrap_or v (view_mode s)\<rparr>"
  "assign f (\<lambda>x s. s\<lparr>view_gw_freq_hz := x\<rparr>) s = s\<lparr>view_gw_freq_hz := unwrap_or f (view_gw_freq_hz s)\<rparr>"
  "assign b (\<lambda>x s. s\<lparr>view_gw_sf := x\<rparr>) s = s\<lparr>view_gw_sf := unwrap_or b (view_gw_sf s)\<rparr>"
  "assign f (\<lambda>x s. s\<lparr>view_gw_bw_khz := x\<rparr>) s = s\<lparr>view_gw_bw_khz := unwrap_or f (view_gw_bw_khz s)\<rparr>"
  "assign b (\<lambda>x s. s\<lparr>view_gw_cr := x\<rparr>) s = s\<lparr>view_gw_cr := unwrap_or b (view_gw_cr s)\<rparr>"
  "assign v (\<lambda>x s. s\<lparr>view_gw_host := x\<rparr>) s = s\<lparr>view_gw_host := unwrap_or v (view_gw_host s)\<rparr>"
  "assign p (\<lambda>x s. s\<lparr>view_gw_port := x\<rparr>) s = s\<lparr>view_gw_port := unwrap_or p (view_gw_port s)\<rparr>"
  by (cases v; cases p; cases f; cases b; simp add: assign_def unwrap_or_def)+

lemma fake_apply_eq: "fake_apply_config u s = (Inr \<lparr>outcome_ok = True, outcome_rebooting = True\<rparr>, view_update u s)"
  unfolding fake_apply_config_def assign_view Let_def view_update_def by simp

interpretation fake: hub_contract fake_hub "\<lambda>v. v" "\<lambda>_. True" "\<lambda>_. True"
  by unfold_locales (auto simp: fake_hub_def fake_apply_eq)

subsection \<open>The portal of the firmware keeps the contract\<close>

text \<open>
  The hub behind the client: the portal with its control task, and the configuration it runs with. An
  exchange is the answer to one request, and the restart when the portal asks for it.
\<close>

record ('f, 's) hub_world =
  hw_hub :: "('f, 's) portal"
  hw_config :: hub_config

definition restarted :: "('f, 't) hub_env \<Rightarrow> ('f, 's) portal \<Rightarrow> ('f, 's) hub_world" where
  "restarted H t =
     (let c = Hub_Ctrl.reboot (he_flash H) (he_build H) (pt_ctrl t)
      in \<lparr>hw_hub = t\<lparr>pt_ctrl := c\<rparr>, hw_config = hc_pending c\<rparr>)"

definition exchange ::
  "portal_lib \<Rightarrow> 's tcp \<Rightarrow> ('f, 't) hub_env \<Rightarrow> bytes \<Rightarrow> http_request \<Rightarrow> ('f, 's) hub_world \<Rightarrow> bool option \<times> ('f, 's) hub_world" where
  "exchange L T H page q w =
     (let (b, t) = respond L T H page (hw_config w) q (hw_hub w)
      in (b, if b = Some True then restarted H t else w\<lparr>hw_hub := t\<rparr>))"

text \<open>The hub answered a request with a complete response of status 200 and the given body.\<close>

definition answered ::
  "portal_lib \<Rightarrow> 's tcp \<Rightarrow> ('f, 't) hub_env \<Rightarrow> bytes \<Rightarrow> http_request \<Rightarrow> ('f, 's) hub_world \<Rightarrow> bytes \<Rightarrow> ('f, 's) hub_world \<Rightarrow> bool" where
  "answered L T H page q w body w' \<longleftrightarrow>
     (let (b, w1) = exchange L T H page q w
      in b \<noteq> None \<and> w' = w1
         \<and> pt_sent (hw_hub w1) = pt_sent (hw_hub w) @ full_head (lit ''200 OK'') application_json (length body) @ body)"

text \<open>
  The hub reads the texts of a JSON object as they stand, without undoing escapes. A text is plain when JSON
  writes it without escapes, and an update when its texts are.
\<close>

definition plain_text :: "rtext option \<Rightarrow> bool" where
  "plain_text v \<longleftrightarrow> (case v of None \<Rightarrow> True | Some s \<Rightarrow> list_all (\<lambda>b. 0x20 \<le> b \<and> b \<noteq> 0x22 \<and> b \<noteq> 0x5C) s)"

definition plain_update :: "config_update \<Rightarrow> bool" where
  "plain_update u \<longleftrightarrow> list_all plain_text [upd_wifi_ssid u, upd_wifi_password u, upd_mqtt_host u, upd_client_id u,
     upd_mode u, upd_gw_host u]"

text \<open>
  What the client relies on of its agent: a body is only returned when the hub answered the request
  for that path with it, the posted text being the JSON of the update, from which the hub reads a plain update
  back. Lost requests and answers are errors, about which nothing is assumed, nor about updates that
  are not plain.
\<close>

definition reaches_hub ::
  "('f, 's) hub_world http_agent \<Rightarrow> http_hub_api \<Rightarrow> portal_lib \<Rightarrow> 's tcp \<Rightarrow> ('f, 't) hub_env \<Rightarrow> bytes \<Rightarrow> bool" where
  "reaches_hub A a L T H page \<longleftrightarrow>
     (\<forall>w body w' path. path \<in> {lit ''/api/config'', lit ''/api/status''} \<longrightarrow> agent_get A (url a path) w = (Inr body, w') \<longrightarrow>
        answered L T H page \<lparr>req_method = lit ''GET'', req_path = path, req_body = []\<rparr> w body w')
     \<and> (\<forall>u w body w'. plain_update u \<longrightarrow> agent_post A (url a (lit ''/api/config'')) u w = (Inr body, w') \<longrightarrow>
        (\<exists>json. update_from_slice L json = Some u
           \<and> answered L T H page \<lparr>req_method = lit ''POST'', req_path = lit ''/api/config'', req_body = json\<rparr> w body w'))"

definition view_of_config :: "hub_config \<Rightarrow> hub_config_view" where
  "view_of_config c =
     \<lparr>view_mode = mode_text (cfg_mode c), view_wifi_ssid = ssid (cfg_wifi c), view_mqtt_host = mqtt_host (cfg_mqtt c),
      view_mqtt_port = mqtt_port (cfg_mqtt c), view_client_id = client_id (cfg_mqtt c),
      view_gw_freq_hz = gw_frequency_hz (cfg_gateway c), view_gw_sf = gw_spreading_factor (cfg_gateway c),
      view_gw_bw_khz = gw_bandwidth_khz (cfg_gateway c), view_gw_cr = gw_coding_rate (cfg_gateway c),
      view_gw_host = gw_host (cfg_gateway c), view_gw_port = gw_port (cfg_gateway c)\<rparr>"

text \<open>Reading the JSON of a configuration gives its view, when it can be read.\<close>

definition reads_configs :: "'w http_agent \<Rightarrow> portal_lib \<Rightarrow> bool" where
  "reads_configs A L \<longleftrightarrow> (\<forall>c v. read_config_json A (config_json L c) = Inr v \<longrightarrow> v = view_of_config c)"

text \<open>The hub runs what its control task has, with a store, and its boot reads the flash.\<close>

definition hub_good :: "('f, 't) hub_env \<Rightarrow> ('f, 's) hub_world \<Rightarrow> bool" where
  "hub_good H w \<longleftrightarrow> hc_pending (pt_ctrl (hw_hub w)) = hw_config w \<and> cfg_version (hw_config w) = CONFIG_SCHEMA_VERSION
     \<and> hc_store (pt_ctrl (hw_hub w)) \<noteq> None"

lemma view_of_update:
  assumes "upd_mode u \<in> {None, Some (lit ''bridge''), Some (lit ''gateway'')}"
  shows "view_of_config (update_config u c) = view_update u (view_of_config c)"
proof -
  have "mode_text (updated_mode u m) = unwrap_or (upd_mode u) (mode_text m)" for m
    using assms by (auto simp: updated_mode_def unwrap_or_def)
  moreover have "ssid (updated_wifi u x) = unwrap_or (upd_wifi_ssid u) (ssid x)" for x
    by (simp add: updated_wifi_def unwrap_or_def split: option.split)
  ultimately show ?thesis
    by (simp add: view_of_config_def view_update_def update_config_def updated_mqtt_def updated_gateway_def)
qed

lemma head_body_inj:
  assumes "full_head s c m @ x = full_head s c n @ y"
  shows "x = y"
proof -
  have d: "takeWhile (\<lambda>b. b \<noteq> 0x0D) (dec k @ 0x0D # z) = dec k" for k z
  proof -
    have "\<not> is_digit 0x0D" by (simp add: is_digit_def)
    then have "\<forall>b \<in> set (dec k). b \<noteq> 0x0D" using dec_digits by metis
    then show ?thesis by (simp add: takeWhile_append2)
  qed
  have "dec m @ 0x0D # (0x0A # lit ''Connection: close'' @ crlf @ crlf @ x) =
      dec n @ 0x0D # (0x0A # lit ''Connection: close'' @ crlf @ crlf @ y)"
    using assms by (simp add: full_head_def crlf_def)
  then show ?thesis using d [of m] d [of n] by (metis append_same_eq same_append_eq list.inject)
qed

lemma write_all_sent:
  "fst (write_all_tcp T data t) \<Longrightarrow> pt_sent (snd (write_all_tcp T data t)) = pt_sent t @ data"
proof (induction T data t rule: write_all_tcp.induct)
  case (1 T data t)
  obtain r s where w: "tcp_write T data (pt_socket t) = (r, s)" by force
  show ?case
    using 1(1) [OF _ w [symmetric] refl] 1(2)
    by (subst write_all_tcp.simps) (subst (asm) write_all_tcp.simps, auto simp: w Let_def split: option.splits if_splits)
qed

lemma written_sent:
  assumes "written b (write_response T status application_json body t) = (Some b', t')" "length status \<le> 30"
    and "length body < 10 ^ 9"
  shows "pt_sent t' = pt_sent t @ full_head status application_json (length body) @ body"
proof -
  have "length status + length application_json \<le> 50" using assms(2) by (simp add: application_json_def)
  note h = response_head_full [OF this assms(3)]
  show ?thesis
    using assms(1) write_all_sent [of T "full_head status application_json (length body)" t]
      write_all_sent [of T body "snd (write_all_tcp T (full_head status application_json (length body)) t)"]
    by (auto simp: written_def write_response_def h case_prod_beta Let_def split: if_splits simp del: lit_Cons)
qed

lemma length_portal_json: "length (portal_json L v) \<le> 512"
  by (auto simp: portal_json_def push_cap_def extend_cap_def MAX_BODY_def split: option.split)

text \<open>Requests that do not post leave the hub as it is, and return what the portal shows.\<close>

lemma answered_get:
  assumes "answered L T H page \<lparr>req_method = lit ''GET'', req_path = path, req_body = []\<rparr> w body w'"
    and "path = lit ''/api/config'' \<and> x = config_json L (hw_config w)
      \<or> path = lit ''/api/status'' \<and> x = portal_status_json L (snapshot (ucast (he_now H)) (he_stats H))"
  shows "body = x \<and> hw_config w' = hw_config w \<and> pt_ctrl (hw_hub w') = pt_ctrl (hw_hub w)"
proof -
  let ?W = "written False (write_response T (lit ''200 OK'') application_json x (hw_hub w))"
  have r: "respond L T H page (hw_config w) \<lparr>req_method = lit ''GET'', req_path = path, req_body = []\<rparr> (hw_hub w) = ?W"
    using assms(2) by (auto simp: respond_def route_of_def)
  have "length x \<le> 512"
    using assms(2) length_portal_json [of L] by (auto simp only: config_json_def portal_status_json_def)
  then have l: "length x < 10 ^ 9" by simp
  obtain b t where W: "?W = (b, t)" by force
  have "fst ?W \<noteq> Some True" "pt_ctrl (snd ?W) = pt_ctrl (hw_hub w)" by (simp_all del: lit_Cons)
  then have b: "b \<noteq> Some True" "pt_ctrl t = pt_ctrl (hw_hub w)" by (simp_all only: W fst_conv snd_conv not_False_eq_True)
  have a: "b \<noteq> None" "w' = w\<lparr>hw_hub := t\<rparr>"
    "pt_sent t = pt_sent (hw_hub w) @ full_head (lit ''200 OK'') application_json (length body) @ body"
    using assms(1) b(1) by (auto simp: answered_def exchange_def r W Let_def simp del: lit_Cons)
  then obtain b' where "?W = (Some b', t)" using W by auto
  then have "pt_sent t = pt_sent (hw_hub w) @ full_head (lit ''200 OK'') application_json (length x) @ x"
    by (rule written_sent [OF _ _ l]) simp
  then have "full_head (lit ''200 OK'') application_json (length body) @ body =
      full_head (lit ''200 OK'') application_json (length x) @ x"
    using a(3) by (metis append_same_eq same_append_eq)
  then show ?thesis using a(2) b(2) head_body_inj by auto
qed

text \<open>A post that is answered with status 200 has been applied and restarts the hub.\<close>

lemma refused_status:
  assumes "post_config L T H config json t = (Some False, t')"
  shows "\<exists>status body. status \<in> {lit ''400 Bad Request'', lit ''422 Unprocessable Entity''}
    \<and> pt_sent t' = pt_sent t @ full_head status application_json (length body) @ body"
proof -
  have w: "pt_sent t' = pt_sent t0 @ full_head status application_json (length body) @ body"
    if "written b (write_response T status application_json body t0) = (Some False, t')"
      "length status \<le> 30" "length body < 10 ^ 9" for b status body t0
    using that by (rule written_sent)
  have b: "length (error_body m) < 10 ^ 9" if "length m \<le> 100" for m using that by (simp add: error_body_def)
  show ?thesis
  proof (cases "commands_from_update L json config")
    case (Inl e)
    then show ?thesis
      using assms w [OF _ _ b] by (cases e) (auto simp: post_config_def simp del: lit_Cons)
  next
    case (Inr cs)
    obtain ok st where a: "apply_commands H cs (pt_ctrl t) = (ok, st)" by force
    have "\<not> ok" using assms Inr a by (auto simp: post_config_def written_def split: prod.splits if_splits)
    then show ?thesis
      using assms Inr a w [OF _ _ b] by (auto simp: post_config_def simp del: lit_Cons)
  qed
qed

lemma applied_sent:
  assumes "post_config L T H config json t = (Some True, t')"
  shows "pt_sent t' = pt_sent t @ full_head (lit ''200 OK'') application_json (length (lit ''{\"ok\":true,\"rebooting\":true}''))
    @ lit ''{\"ok\":true,\"rebooting\":true}''"
proof -
  obtain cs where cs: "commands_from_update L json config = Inr cs" "apply_commands H cs (pt_ctrl t) = (True, pt_ctrl t')"
    using post_config_restart [OF assms] by blast
  have "written True (write_response T (lit ''200 OK'') application_json (lit ''{\"ok\":true,\"rebooting\":true}'')
      (t\<lparr>pt_ctrl := pt_ctrl t'\<rparr>)) = (Some True, t')"
    using assms by (simp add: post_config_def cs del: lit_Cons)
  from written_sent [OF this] show ?thesis by simp
qed

lemma answered_post:
  assumes "answered L T H page \<lparr>req_method = lit ''POST'', req_path = lit ''/api/config'', req_body = json\<rparr> w body w'"
  shows "\<exists>t'. post_config L T H (hw_config w) json (hw_hub w) = (Some True, t') \<and> w' = restarted H t'"
proof -
  obtain b t where p: "post_config L T H (hw_config w) json (hw_hub w) = (b, t)" by force
  have r: "respond L T H page (hw_config w) \<lparr>req_method = lit ''POST'', req_path = lit ''/api/config'', req_body = json\<rparr> (hw_hub w) = (b, t)"
    using p by (simp add: respond_def route_of_def)
  have "b \<noteq> Some False"
  proof
    assume b: "b = Some False"
    then obtain status x where s: "status \<in> {lit ''400 Bad Request'', lit ''422 Unprocessable Entity''}"
      "pt_sent t = pt_sent (hw_hub w) @ full_head status application_json (length x) @ x"
      using refused_status [OF p [unfolded b]] by blast
    have "pt_sent t = pt_sent (hw_hub w) @ full_head (lit ''200 OK'') application_json (length body) @ body"
      using assms by (auto simp: answered_def exchange_def r b Let_def simp del: lit_Cons)
    then show False using s by (auto simp: full_head_def)
  qed
  moreover have "b \<noteq> None" using assms by (auto simp: answered_def exchange_def r Let_def split: if_splits simp del: lit_Cons)
  ultimately have "b = Some True" by auto
  moreover have "w' = restarted H t"
    using assms by (auto simp: answered_def exchange_def r Let_def \<open>b = Some True\<close> simp del: lit_Cons)
  ultimately show ?thesis using p by blast
qed

text \<open>The law of a post: the update was applied, and the hub restarted with it.\<close>

lemma post_law:
  assumes "flash_ok (he_flash H) M" "\<forall>s. fst (load (he_flash H) s) = stored_config M s"
    and "hub_good H w" "update_from_slice L json = Some u"
    and "answered L T H page \<lparr>req_method = lit ''POST'', req_path = lit ''/api/config'', req_body = json\<rparr> w body w'"
  shows "hub_good H w' \<and> hw_config w' = update_config u (hw_config w) \<and> update_fits u"
proof -
  obtain t' where t': "post_config L T H (hw_config w) json (hw_hub w) = (Some True, t')" "w' = restarted H t'"
    using answered_post [OF assms(5)] by blast
  obtain s where s: "hc_store (pt_ctrl (hw_hub w)) = Some s" using assms(3) by (auto simp: hub_good_def)
  note a = restart_applies [OF assms(1) s _ _ assms(4) t'(1)]
  have g: "update_fits u" "hc_pending (pt_ctrl t') = update_config u (hw_config w)" "synced (he_build H) M (pt_ctrl t')"
    using a assms(3) by (simp_all add: hub_good_def)
  obtain s' where s': "hc_store (pt_ctrl t') = Some s'"
    "hc_pending (Hub_Ctrl.reboot (he_flash H) (he_build H) (pt_ctrl t')) = update_config u (hw_config w)"
    using synced_reboot [OF g(3), of "he_flash H"] assms(2) g(2) by auto
  have "hc_store (Hub_Ctrl.reboot (he_flash H) (he_build H) (pt_ctrl t')) \<noteq> None"
    using s'(1) by (simp add: Hub_Ctrl.reboot_def boot_config_def split: prod.split)
  moreover have "cfg_version (update_config u (hw_config w)) = cfg_version (hw_config w)"
    by (simp add: update_config_def)
  ultimately show ?thesis
    using g(1) s'(2) t'(2) assms(3) by (simp add: restarted_def hub_good_def Let_def)
qed

lemma portal_keeps_contract:
  assumes "flash_ok (he_flash H) M" "\<forall>s. fst (load (he_flash H) s) = stored_config M s"
    and "reaches_hub A a L T H page" "reads_configs A L"
  shows "hub_contract (http_api A a) (\<lambda>w. view_of_config (hw_config w)) (hub_good H) plain_update"
proof
  fix h v h' assume g: "hub_good H h" and "fetch_config (http_api A a) h = (Inr v, h')"
  then obtain body where b: "agent_get A (url a (lit ''/api/config'')) h = (Inr body, h')" "read_config_json A body = Inr v"
    by (auto simp: http_api_def fetch_json_def Let_def split: prod.splits sum.splits simp: map_err_Inr_iff simp del: lit_Cons)
  then have "answered L T H page \<lparr>req_method = lit ''GET'', req_path = lit ''/api/config'', req_body = []\<rparr> h body h'"
    using assms(3) unfolding reaches_hub_def by blast
  from answered_get [OF this] have "body = config_json L (hw_config h)" "hw_config h' = hw_config h"
    "pt_ctrl (hw_hub h') = pt_ctrl (hw_hub h)" by simp_all
  then show "hub_good H h' \<and> view_of_config (hw_config h') = view_of_config (hw_config h) \<and> v = view_of_config (hw_config h)"
    using g b(2) assms(4) by (simp add: hub_good_def reads_configs_def)
next
  fix h s h' assume g: "hub_good H h" and "fetch_status (http_api A a) h = (Inr s, h')"
  then obtain body where b: "agent_get A (url a (lit ''/api/status'')) h = (Inr body, h')"
    by (auto simp: http_api_def fetch_json_def Let_def split: prod.splits sum.splits simp del: lit_Cons)
  then have "answered L T H page \<lparr>req_method = lit ''GET'', req_path = lit ''/api/status'', req_body = []\<rparr> h body h'"
    using assms(3) unfolding reaches_hub_def by blast
  from answered_get [OF this] show "hub_good H h' \<and> view_of_config (hw_config h') = view_of_config (hw_config h)"
    using g by (simp add: hub_good_def)
next
  fix h u x h' assume g: "hub_good H h" and u: "plain_update u" and "apply_config (http_api A a) u h = (Inr x, h')"
  then obtain body where b: "agent_post A (url a (lit ''/api/config'')) u h = (Inr body, h')"
    by (auto simp: http_api_def http_apply_config_def Let_def split: prod.splits simp: rbind_Inr_iff map_err_Inr_iff simp del: lit_Cons)
  then obtain json where j: "update_from_slice L json = Some u"
    "answered L T H page \<lparr>req_method = lit ''POST'', req_path = lit ''/api/config'', req_body = json\<rparr> h body h'"
    using assms(3) u unfolding reaches_hub_def by blast
  note p = post_law [OF assms(1,2) g j]
  then have "upd_mode u \<in> {None, Some (lit ''bridge''), Some (lit ''gateway'')}"
    by (auto simp: update_fits_def split: option.splits simp del: lit_Cons)
  from view_of_update [OF this] show "hub_good H h' \<and> view_of_config (hw_config h') = view_update u (view_of_config (hw_config h))"
    using p by simp
qed

subsection \<open>Validation\<close>

lemma check_len_ok: "check_len v n what = Inr () \<longleftrightarrow> fits n v"
  by (auto simp: check_len_def fits_def split: option.split)

lemma check_that_ok: "check_that b m = Inr () \<longleftrightarrow> b"
  by (simp add: check_that_def)

lemma rbind_unit: "rbind m (\<lambda>_. k) = Inr y \<longleftrightarrow> m = Inr () \<and> k = Inr y"
  by (cases m) auto

lemma validate_ok:
  "validate_update u = Inr () \<longleftrightarrow>
     fits MAX_SSID_LEN (upd_wifi_ssid u) \<and> fits MAX_PASSWORD_LEN (upd_wifi_password u) \<and> fits MAX_HOST_LEN (upd_mqtt_host u)
     \<and> fits MAX_CLIENT_ID_LEN (upd_client_id u) \<and> fits MAX_HOST_LEN (upd_gw_host u)
     \<and> (upd_mqtt_port u \<noteq> Some 0 \<and> upd_gw_port u \<noteq> Some 0)
     \<and> (case upd_mode u of None \<Rightarrow> True | Some t \<Rightarrow> t \<in> {lit ''bridge'', lit ''gateway''})
     \<and> (case upd_gw_sf u of None \<Rightarrow> True | Some sf \<Rightarrow> 7 \<le> sf \<and> sf \<le> 12)
     \<and> (case upd_gw_bw_khz u of None \<Rightarrow> True | Some bw \<Rightarrow> bw \<in> {125, 250, 500})
     \<and> (case upd_gw_freq_hz u of None \<Rightarrow> True | Some f \<Rightarrow> 150000000 \<le> f \<and> f \<le> 960000000)"
  unfolding validate_update_def rbind_unit check_len_ok check_that_ok de_Morgan_disj insert_iff empty_iff simp_thms
  by (rule TrueI)

lemma unwrap_or_iff: "P d \<Longrightarrow> P (unwrap_or v d) \<longleftrightarrow> (case v of None \<Rightarrow> True | Some x \<Rightarrow> P x)"
  by (cases v) (simp_all add: unwrap_or_def)

lemma unwrap_orD: "P (unwrap_or v d) \<Longrightarrow> (case v of None \<Rightarrow> True | Some x \<Rightarrow> P x)"
  by (cases v) (simp_all add: unwrap_or_def)

definition coding_rate_ok :: "config_update \<Rightarrow> bool" where
  "coding_rate_ok u \<longleftrightarrow> (case upd_gw_cr u of None \<Rightarrow> True | Some r \<Rightarrow> 5 \<le> r \<and> r \<le> 8)"

lemma validated_fits: "validate_update u = Inr () \<Longrightarrow> update_fits u"
  unfolding validate_ok update_fits_def by simp

lemma port_given: "upd \<noteq> Some (0 :: u16) \<longleftrightarrow> (case upd of None \<Rightarrow> True | Some p \<Rightarrow> p \<noteq> 0)"
  by (cases upd) simp_all

lemma gateway_valid_iff:
  assumes "gateway_settings_valid g"
  shows "gateway_settings_valid (updated_gateway u g) \<longleftrightarrow>
    (case upd_gw_freq_hz u of None \<Rightarrow> True | Some f \<Rightarrow> 150000000 \<le> f \<and> f \<le> 960000000)
    \<and> (case upd_gw_sf u of None \<Rightarrow> True | Some sf \<Rightarrow> 7 \<le> sf \<and> sf \<le> 12)
    \<and> (case upd_gw_bw_khz u of None \<Rightarrow> True | Some bw \<Rightarrow> bw \<in> {125, 250, 500})
    \<and> coding_rate_ok u \<and> upd_gw_port u \<noteq> Some 0"
proof -
  have g: "150000000 \<le> gw_frequency_hz g \<and> gw_frequency_hz g \<le> 960000000"
    "7 \<le> gw_spreading_factor g \<and> gw_spreading_factor g \<le> 12" "gw_bandwidth_khz g \<in> {125, 250, 500}"
    "5 \<le> gw_coding_rate g \<and> gw_coding_rate g \<le> 8" "gw_port g \<noteq> 0"
    using assms unfolding gateway_settings_valid_def by blast+
  note iffs = unwrap_or_iff [where P = "\<lambda>f. 150000000 \<le> f \<and> f \<le> 960000000", OF g(1), of "upd_gw_freq_hz u"]
    unwrap_or_iff [where P = "\<lambda>f. 7 \<le> f \<and> f \<le> 12", OF g(2), of "upd_gw_sf u"]
    unwrap_or_iff [where P = "\<lambda>f. f \<in> {125, 250, 500}", OF g(3), of "upd_gw_bw_khz u"]
    unwrap_or_iff [where P = "\<lambda>f. 5 \<le> f \<and> f \<le> 8", OF g(4), of "upd_gw_cr u"]
    unwrap_or_iff [where P = "\<lambda>f. f \<noteq> 0", OF g(5), of "upd_gw_port u"]
  show ?thesis
    unfolding gateway_settings_valid_def updated_gateway_def gateway_settings.simps coding_rate_ok_def port_given iffs
    by (rule refl)
qed

lemma validated_valid:
  assumes "config_valid c" "validate_update u = Inr ()"
  shows "update_valid u c \<longleftrightarrow> coding_rate_ok u"
proof -
  have c: "mqtt_port (cfg_mqtt c) \<noteq> 0" "gateway_settings_valid (cfg_gateway c)"
    using assms(1) by (simp_all add: config_valid_def)
  have "mqtt_port (updated_mqtt u (cfg_mqtt c)) \<noteq> 0"
    using assms(2) c(1) by (auto simp: validate_ok updated_mqtt_def unwrap_or_def split: option.split)
  moreover have "gateway_settings_valid (updated_gateway u (cfg_gateway c)) \<longleftrightarrow> coding_rate_ok u"
    using assms(2) unfolding gateway_valid_iff [OF c(2)] validate_ok by blast
  moreover have "\<not> gateway_touched u \<Longrightarrow> coding_rate_ok u" by (simp add: gateway_touched_def coding_rate_ok_def)
  ultimately show ?thesis by (auto simp: update_valid_def)
qed

lemma accepted_validates:
  assumes "config_valid c" "update_fits u" "update_valid u c" "fits MAX_PASSWORD_LEN (upd_wifi_password u)"
  shows "validate_update u = Inr ()"
proof -
  have g: "gateway_settings_valid (updated_gateway u (cfg_gateway c))"
  proof (cases "gateway_touched u")
    case True then show ?thesis using assms(3) by (simp add: update_valid_def)
  next
    case False then show ?thesis using assms(1) by (simp add: untouched config_valid_def)
  qed
  have c: "gateway_settings_valid (cfg_gateway c)" using assms(1) by (simp add: config_valid_def)
  have "upd_mqtt_port u \<noteq> Some 0"
    using assms(3) by (auto simp: update_valid_def mqtt_touched_def updated_mqtt_def unwrap_or_def)
  moreover have "fits MAX_SSID_LEN (upd_wifi_ssid u)" using assms(2) by (auto simp: update_fits_def fits_def)
  ultimately show ?thesis
    using assms(2,4) g unfolding gateway_valid_iff [OF c] validate_ok update_fits_def by blast
qed

subsection \<open>Saving through the portal\<close>

lemma save_all_validated: "save_all api us h = (True, h') \<Longrightarrow> \<forall>u \<in> set us. validate_update u = Inr ()"
proof (induction us arbitrary: h)
  case (Cons u us)
  then show ?case by (auto simp: save_config_def split: sum.splits prod.splits)
qed simp

lemma fake_save_all:
  "\<forall>u \<in> set us. validate_update u = Inr () \<Longrightarrow> save_all fake_hub us v = (True, fold view_update us v)"
  by (induction us arbitrary: v) (simp_all add: save_config_def fake_hub_def fake_apply_eq)

lemma portal_saves:
  assumes "flash_ok (he_flash H) M" "\<forall>s. fst (load (he_flash H) s) = stored_config M s"
    and "reaches_hub A a L T H page"
  shows "hub_good H w \<Longrightarrow> \<forall>u \<in> set us. plain_update u \<Longrightarrow> save_all (http_api A a) us w = (True, w') \<Longrightarrow>
    hw_config w' = fold update_config us (hw_config w)"
proof (induction us arbitrary: w)
  case (Cons u us)
  obtain x w1 where s: "save_config (http_api A a) u w = (Inr x, w1)" "save_all (http_api A a) us w1 = (True, w')"
    using Cons.prems(3) by (auto split: sum.splits prod.splits)
  then obtain body where "agent_post A (url a (lit ''/api/config'')) u w = (Inr body, w1)"
    by (auto simp: save_config_def http_api_def http_apply_config_def Let_def rbind_Inr_iff map_err_Inr_iff
        split: sum.splits prod.splits simp del: lit_Cons)
  then obtain json where "update_from_slice L json = Some u"
    "answered L T H page \<lparr>req_method = lit ''POST'', req_path = lit ''/api/config'', req_body = json\<rparr> w body w1"
    using assms(3) Cons.prems(2) unfolding reaches_hub_def by (meson list.set_intros(1))
  from post_law [OF assms(1,2) Cons.prems(1) this] Cons.IH [OF _ _ s(2)] Cons.prems(2) show ?case by simp
qed simp

subsection \<open>A sample\<close>

text \<open>An agent that delivers the answers of the hub when they are complete.\<close>

definition try_hub ::
  "portal_lib \<Rightarrow> http_request \<Rightarrow> bytes \<Rightarrow> (nat \<times> hub_config option, unit) hub_world
   \<Rightarrow> (http_error + bytes) \<times> (nat \<times> hub_config option, unit) hub_world" where
  "try_hub L q body w =
     (let (b, w1) = exchange L sample_tcp home_env [] q w
      in (if answered L sample_tcp home_env [] q w body w1 then Inr body else Inl (OtherError []), w1))"

definition home_update :: config_update where
  "home_update = page_update home_form"

definition home_view :: hub_config_view where
  "home_view = view_of_config (update_config home_update home_config)"

definition home_portal :: portal_lib where
  "home_portal = \<lparr>view_to_slice = (\<lambda>n v. if v = ConfigView home_view then Some [1] else None),
     update_from_slice = (\<lambda>_. Some home_update)\<rparr>"

definition home_agent :: "(nat \<times> hub_config option, unit) hub_world http_agent" where
  "home_agent =
     \<lparr>agent_get = (\<lambda>address w.
        if address = lit ''http://hub/api/config'' then
          try_hub home_portal \<lparr>req_method = lit ''GET'', req_path = lit ''/api/config'', req_body = []\<rparr>
            (config_json home_portal (hw_config w)) w
        else try_hub home_portal \<lparr>req_method = lit ''GET'', req_path = lit ''/api/status'', req_body = []\<rparr> [] w),
      agent_post = (\<lambda>address u w.
        if u = home_update then
          try_hub home_portal \<lparr>req_method = lit ''POST'', req_path = lit ''/api/config'', req_body = []\<rparr>
            (lit ''{\"ok\":true,\"rebooting\":true}'') w
        else (Inl (StatusCode 500), w)),
      http_error_text = (\<lambda>_. []), read_config_json = (\<lambda>b. if b = [1] then Inr home_view else Inl []),
      read_status_json = (\<lambda>b. Inr (fake_status home_view)),
      read_outcome_json = (\<lambda>b. Inr \<lparr>outcome_ok = True, outcome_rebooting = True\<rparr>)\<rparr>"

definition home_world :: "(nat \<times> hub_config option, unit) hub_world" where
  "home_world = \<lparr>hw_hub = home_hub, hw_config = home_config\<rparr>"

definition home_address :: http_hub_api where
  "home_address = new_http_api (lit ''http://hub/'')"

lemma home_url: "url home_address path = lit ''http://hub'' @ path"
  by (simp add: home_address_def url_def new_http_api_def trim_end_slashes_def)

lemma home_portal_update: "update_from_slice home_portal j = Some home_update"
  by (simp add: home_portal_def)

lemma try_hub_answered: "try_hub L q x w = (Inr body, w') \<Longrightarrow> answered L sample_tcp home_env [] q w body w'"
  by (auto simp: try_hub_def Let_def split: prod.splits if_splits)

lemma home_reaches: "reaches_hub home_agent home_address home_portal sample_tcp home_env []"
  unfolding reaches_hub_def
  by (auto simp: home_agent_def home_url home_portal_update dest: try_hub_answered split: if_splits)

lemma home_reads: "reads_configs home_agent home_portal"
  by (auto simp: reads_configs_def home_agent_def home_portal_def config_json_def portal_json_def view_of_config_def
      push_cap_def extend_cap_def split: if_splits)

lemma written_accepted:
  assumes "length status \<le> 30" "length body < 10 ^ 9"
  shows "\<exists>t'. written b (write_response sample_tcp status application_json body t) = (Some b, t')
    \<and> pt_sent t' = pt_sent t @ full_head status application_json (length body) @ body"
proof -
  obtain b' t' where w: "written b (write_response sample_tcp status application_json body t) = (b', t')" by force
  then have "b' = Some b"
    using write_all_accepting [OF sample_tcp_accepting] by (auto simp: written_def write_response_def case_prod_beta Let_def split: if_splits)
  then show ?thesis using w written_sent [OF _ assms] by blast
qed

lemma home_get:
  assumes "path = lit ''/api/config'' \<and> x = config_json L (hw_config w)
      \<or> path = lit ''/api/status'' \<and> x = portal_status_json L (snapshot (ucast (he_now home_env)) (he_stats home_env))"
  shows "\<exists>t'. try_hub L \<lparr>req_method = lit ''GET'', req_path = path, req_body = []\<rparr> x w = (Inr x, w\<lparr>hw_hub := t'\<rparr>)"
proof -
  have r: "respond L sample_tcp home_env [] (hw_config w) \<lparr>req_method = lit ''GET'', req_path = path, req_body = []\<rparr> (hw_hub w) =
      written False (write_response sample_tcp (lit ''200 OK'') application_json x (hw_hub w))"
    using assms by (auto simp: respond_def route_of_def)
  have "length x \<le> 512"
    using assms length_portal_json [of L] by (auto simp only: config_json_def portal_status_json_def)
  then obtain t' where "written False (write_response sample_tcp (lit ''200 OK'') application_json x (hw_hub w)) = (Some False, t')"
    "pt_sent t' = pt_sent (hw_hub w) @ full_head (lit ''200 OK'') application_json (length x) @ x"
    using written_accepted [of "lit ''200 OK''" x False "hw_hub w"] by (auto simp del: lit_Cons)
  then have "try_hub L \<lparr>req_method = lit ''GET'', req_path = path, req_body = []\<rparr> x w = (Inr x, w\<lparr>hw_hub := t'\<rparr>)"
    by (simp add: try_hub_def answered_def exchange_def r del: lit_Cons not_None_eq)
  then show ?thesis by blast
qed

lemma home_json:
  "config_json home_portal (update_config home_update home_config) = [1]" "portal_status_json home_portal s = []"
  by (simp_all add: config_json_def portal_status_json_def portal_json_def home_portal_def home_view_def view_of_config_def
      push_cap_def extend_cap_def MAX_BODY_def)

lemma home_loads:
  assumes "hw_config w = update_config home_update home_config"
  shows "\<exists>s w'. load_snapshot (http_api home_agent home_address) w = (Inr s, w')"
proof -
  have "agent_get home_agent (url home_address (lit ''/api/config'')) w =
      try_hub home_portal \<lparr>req_method = lit ''GET'', req_path = lit ''/api/config'', req_body = []\<rparr>
        (config_json home_portal (hw_config w)) w"
    by (simp add: home_agent_def home_url)
  then obtain t1 where c: "agent_get home_agent (url home_address (lit ''/api/config'')) w = (Inr [1], w\<lparr>hw_hub := t1\<rparr>)"
    using home_get [where L = home_portal and w = w, OF disjI1, OF conjI, OF refl refl] unfolding assms home_json by metis
  have "agent_get home_agent (url home_address (lit ''/api/status'')) w' =
      try_hub home_portal \<lparr>req_method = lit ''GET'', req_path = lit ''/api/status'', req_body = []\<rparr> [] w'" for w'
    by (simp add: home_agent_def home_url)
  then obtain t2 where s: "agent_get home_agent (url home_address (lit ''/api/status'')) (w\<lparr>hw_hub := t1\<rparr>) = (Inr [], w\<lparr>hw_hub := t1, hw_hub := t2\<rparr>)"
    using home_get [where L = home_portal and w = "w\<lparr>hw_hub := t1\<rparr>", OF disjI2, OF conjI, OF refl refl] unfolding home_json by metis
  have "read_config_json home_agent [1] = Inr home_view" "\<And>b. read_status_json home_agent b = Inr (fake_status home_view)"
    by (simp_all add: home_agent_def)
  then show ?thesis
    by (auto simp: load_snapshot_def http_api_def fetch_json_def c s simp del: lit_Cons)
qed

lemma home_plain: "plain_update home_update"
  by (simp add: plain_update_def plain_text_def home_update_def page_update_def home_form_def)

lemma home_world_good: "hub_good home_env home_world"
  by (simp add: hub_good_def home_world_def home_hub_state)

lemma home_saves:
  "\<exists>w'. save_all (http_api home_agent home_address) [home_update] home_world = (True, w')
    \<and> hw_config w' = update_config home_update home_config"
proof -
  obtain t' where p: "post_config home_portal sample_tcp home_env home_config [] home_hub = (Some True, t')"
    using home_posted [of home_portal "[]"] by (auto simp: home_portal_update home_update_def)
  have v: "validate_update home_update = Inr ()"
    by (simp add: validate_ok home_update_def page_update_def home_form_def fits_def text_limits)
  have "pt_sent t' = pt_sent home_hub @ full_head (lit ''200 OK'') application_json (length (lit ''{\"ok\":true,\"rebooting\":true}''))
      @ lit ''{\"ok\":true,\"rebooting\":true}''"
    using p by (intro applied_sent)
  then have "agent_post home_agent (url home_address (lit ''/api/config'')) home_update home_world =
      (Inr (lit ''{\"ok\":true,\"rebooting\":true}''), restarted home_env t')"
    using p by (simp add: home_agent_def try_hub_def answered_def exchange_def respond_def route_of_def home_world_def
        restarted_def Let_def del: not_None_eq)
  then have s: "save_all (http_api home_agent home_address) [home_update] home_world = (True, restarted home_env t')"
    by (simp add: save_config_def v http_api_def http_apply_config_def home_agent_def del: lit_Cons)
  then have "hw_config (restarted home_env t') = fold update_config [home_update] (hw_config home_world)"
    using portal_saves [OF home_env_flash _ home_reaches home_world_good _ s] home_env_load home_plain by simp
  then show ?thesis using s by (auto simp: home_world_def)
qed

subsection \<open>Dispatch\<close>

lemma save_on_fake:
  "app_api p = Some (FakeHub v) \<Longrightarrow> \<exists>v'. snd (frb_save_config A u p) = p\<lparr>app_api := Some (FakeHub v')\<rparr>"
  by (cases p) (auto simp: frb_save_config_def with_api_def save_config_def active_hub_def on_active_def fake_hub_def
      fake_apply_eq split: sum.split)

lemma load_on_http:
  "load_snapshot (active_hub A) (HttpHub a, w) = (let (r, w) = load_snapshot (http_api A a) w in (r, HttpHub a, w))"
  by (auto simp: load_snapshot_def active_hub_def on_active_def http_of_def Let_def split: prod.split sum.split)

subsection \<open>Properties\<close>

text \<open>
  C32. What the app saves is what the hub runs. When every update of a sequence is saved through the
  portal, the hub then runs its configuration with these updates applied in order, a snapshot shows
  that configuration, and it is the one the fake hub shows after the same updates. A posted field
  replaces the one of the hub, except that a posted network without a password becomes an open one and a
  password without its network is ignored. The texts of the updates are plain (JSON writes them
  without escapes) and the hub can always read its flash.
\<close>

theorem saved_updates_take_effect:
  assumes "flash_ok (he_flash H) M" "\<forall>s. fst (load (he_flash H) s) = stored_config M s"
    and "reaches_hub A a L T H page" "reads_configs A L" "hub_good H w" "\<forall>u \<in> set us. plain_update u"
    and "save_all (http_api A a) us w = (True, w1)" "load_snapshot (http_api A a) w1 = (Inr s, w2)"
  shows "hw_config w1 = fold update_config us (hw_config w)
    \<and> snap_config s = view_of_config (hw_config w1)
    \<and> save_all fake_hub us (view_of_config (hw_config w)) = (True, snap_config s)"
proof -
  note contract = portal_keeps_contract [OF assms(1-4)]
  show ?thesis
    using portal_saves [OF assms(1-3,5-7)] hub_contract.saves_accumulate [OF contract assms(5-7)]
      hub_contract.load_shows [OF contract _ assms(8)] fake_save_all [OF save_all_validated [OF assms(7)]] by simp
qed

theorem saved_updates_take_effect_witness:
  "\<exists>w1 s w2. save_all (http_api home_agent home_address) [home_update] home_world = (True, w1)
     \<and> load_snapshot (http_api home_agent home_address) w1 = (Inr s, w2)
     \<and> save_all fake_hub [home_update] (view_of_config home_config) = (True, snap_config s)"
proof -
  obtain w1 where w1: "save_all (http_api home_agent home_address) [home_update] home_world = (True, w1)"
    "hw_config w1 = update_config home_update home_config"
    using home_saves by blast
  obtain s w2 where l: "load_snapshot (http_api home_agent home_address) w1 = (Inr s, w2)"
    using home_loads [OF w1(2)] by blast
  have "\<forall>s. fst (load (he_flash home_env) s) = stored_config (\<lambda>f r. snd f) s" by (simp add: home_env_load)
  from saved_updates_take_effect [OF home_env_flash this home_reaches home_reads home_world_good _ w1(1) l] w1 l home_plain
  show ?thesis by (auto simp: home_world_def)
qed

text \<open>
  The app validates what the firmware checks, except the coding rate. With a valid current
  configuration, an update that passes the validation becomes commands that the firmware accepts one
  by one exactly when its coding rate is 5 to 8, or it changes nothing; and an update the firmware
  accepts passes, if its password fits.
\<close>

theorem validation_misses_the_coding_rate:
  assumes "config_valid c" "update_from_slice L json = Some u"
  shows "(validate_update u = Inr () \<longrightarrow> commands_from_update L json c = Inl UpdateEmpty
      \<or> (\<exists>cs. commands_from_update L json c = Inr cs
           \<and> apply_all E cs c = (if coding_rate_ok u then Inr (update_config u c) else Inl InvalidValue)))
    \<and> (\<forall>cs. commands_from_update L json c = Inr cs \<longrightarrow> is_ok (apply_all E cs c) \<longrightarrow>
         fits MAX_PASSWORD_LEN (upd_wifi_password u) \<longrightarrow> validate_update u = Inr ())"
proof -
  let ?cs = "update_commands u c"
  have cs: "commands_from_update L json c = (if \<not> update_fits u then Inl UpdateBad
      else if ?cs = [] then Inl UpdateEmpty else Inr ?cs)"
    by (rule commands_from_update_eq [OF assms(2)])
  have "validate_update u = Inr ()"
    if "update_fits u" "is_ok (apply_all E ?cs c)" "fits MAX_PASSWORD_LEN (upd_wifi_password u)"
    using accepted_validates [OF assms(1) that(1) _ that(3)] that(2) by (simp add: apply_update_commands split: if_splits)
  moreover have "apply_all E ?cs c = (if coding_rate_ok u then Inr (update_config u c) else Inl InvalidValue)"
    if "validate_update u = Inr ()"
    using validated_valid [OF assms(1) that] by (simp add: apply_update_commands)
  ultimately show ?thesis
    using validated_fits [of u] by (simp add: cs)
qed

theorem validation_misses_the_coding_rate_witness:
  "let u = home_update\<lparr>upd_gw_cr := Some 9\<rparr>
   in validate_update u = Inr ()
      \<and> (\<exists>cs. commands_from_update (sample_portal u) [] home_config = Inr cs \<and> apply_all sample_env cs home_config = Inl InvalidValue)"
proof -
  let ?u = "home_update\<lparr>upd_gw_cr := Some 9\<rparr>"
  have v: "validate_update ?u = Inr ()" "\<not> coding_rate_ok ?u"
    by (simp_all add: validate_ok home_update_def page_update_def home_form_def fits_def text_limits coding_rate_ok_def)
  have c: "config_valid home_config"
    using default_config_valid [OF sample_env_ok(1)] by (simp add: home_config_def config_valid_def config_typed_def sample_wifi_def wifi_ok_def
        text_ok_def text_limits)
  have u: "update_from_slice (sample_portal ?u) [] = Some ?u" by (simp add: sample_portal_def)
  have "commands_from_update (sample_portal ?u) [] home_config \<noteq> Inl UpdateEmpty"
    using validated_fits [OF v(1)] by (subst commands_from_update_eq [OF u]) (simp add: update_commands_def gateway_touched_def)
  then show ?thesis
    using validation_misses_the_coding_rate [OF c u, of sample_env] v by (auto simp: Let_def)
qed

text \<open>
  Setting an address leaves the mock mode. After an initialisation with the fake hub, setting the
  hub address succeeds and replaces the fake by the HTTP client for that address, so every later call
  goes to the network and what was saved to the fake is lost.
\<close>

theorem mock_mode_is_left:
  "let p = snd (frb_save_config A u (snd (frb_init address True p0)));
       (r, q) = frb_set_hub_address address' p
   in r = Inr () \<and> app_api q = Some (HttpHub (new_http_api address')) \<and> app_net q = app_net p0
      \<and> frb_load_snapshot A q =
          (let (r, w) = load_snapshot (http_api A (new_http_api address')) (app_net p0)
           in (r, \<lparr>app_api = Some (HttpHub (new_http_api address')), app_net = w\<rparr>))"
proof -
  obtain v where "snd (frb_save_config A u (snd (frb_init address True p0))) = p0\<lparr>app_api := Some (FakeHub v)\<rparr>"
    using save_on_fake [of "snd (frb_init address True p0)" fake_new A u] by (auto simp: frb_init_def)
  then show ?thesis
    by (simp add: frb_set_hub_address_def frb_load_snapshot_def with_api_def load_on_http case_prod_beta Let_def)
qed

end
