(* ===== verification/Debug_Output.thy ===== *)
theory Debug_Output imports Serial_Tasks Portal_Http begin

text \<open>
  The debug port (\<open>src/debug.rs\<close>): formatting a message with its time stamp into a bounded string,
  queueing it, and the task that writes queued messages in packets. The endpoint is the record of the
  serial tasks; the arguments of a message are the pieces its formatting produces.
\<close>

subsection \<open>Messages\<close>

definition MAX_DEBUG_MSG_LEN :: nat where "MAX_DEBUG_MSG_LEN = 128"
definition DEBUG_QUEUE_SIZE :: nat where "DEBUG_QUEUE_SIZE = 16"

definition debug_stamp :: "u64 \<Rightarrow> rtext list" where
  "debug_stamp total_ms =
     (let total_secs = total_ms div 1000; mins = total_secs div 60; secs = total_secs mod 60; ms = total_ms mod 1000
      in [lit ''['', dec_padded 2 (unat mins), lit '':'', dec_padded 2 (unat secs), lit ''.'', dec_padded 3 (unat ms),
          lit ''] ''])"

definition debug_text :: "u64 \<Rightarrow> rtext list \<Rightarrow> rtext" where
  "debug_text now args =
     write_fmt MAX_DEBUG_MSG_LEN (write_fmt MAX_DEBUG_MSG_LEN [] (debug_stamp now)) args"

definition debug_print :: "u64 \<Rightarrow> rtext list \<Rightarrow> rtext list \<Rightarrow> rtext list" where
  "debug_print now args queue =
     (case try_send DEBUG_QUEUE_SIZE (debug_text now args) queue of Some q \<Rightarrow> q | None \<Rightarrow> queue)"

subsection \<open>The writer\<close>

function write_chunks :: "'e endpoint \<Rightarrow> bytes \<Rightarrow> 'e \<Rightarrow> 'e" where
  "write_chunks E data e =
     (if data = [] then e
      else let n = max (max_packet E) 1
           in case write_packet E (take n data) e of
                (True, e) \<Rightarrow> write_chunks E (drop n data) e
              | (False, e) \<Rightarrow> e)"
  by pat_completeness auto

termination by (relation "measure (\<lambda>(E, data, e). length data)") auto

declare write_chunks.simps [simp del]

definition debug_writer_turn :: "'e endpoint \<Rightarrow> rtext list \<times> 'e \<Rightarrow> rtext list \<times> 'e" where
  "debug_writer_turn E s =
     (case s of
        ([], e) \<Rightarrow> ([], e)
      | (m # q, e) \<Rightarrow> (q, snd (write_packet E crlf (write_chunks E m e))))"

subsection \<open>Whole lines\<close>

lemma write_fmt_bounded: "length s \<le> cap \<Longrightarrow> length (write_fmt cap s ps) \<le> cap"
  by (induction ps arbitrary: s) (auto simp: extend_cap_def split: option.split)

lemma write_fmt_prefix: "prefix s (write_fmt cap s ps)"
  by (induction ps arbitrary: s) (auto simp: extend_cap_def intro: append_prefixD)

lemma debug_stamp_fits: "length (concat (debug_stamp now)) \<le> 40"
proof -
  have "length (dec_padded 2 (unat (now div 1000 div 60))) \<le> 20"
    using length_dec_u64 [of "now div 1000 div 60"] by (simp add: dec_padded_def)
  moreover have "unat (now mod 1000) < 10 ^ 3"
    using mod_less_divisor [of 1000 "unat now"] by (simp add: unat_mod)
  then have "length (dec_padded 3 (unat (now mod 1000))) \<le> 3"
    using length_dec [of "unat (now mod 1000)" 3] by (simp add: dec_padded_def)
  moreover have "unat (now div 1000 mod 60) < 10 ^ 2"
    using mod_less_divisor [of 60 "unat (now div 1000)"] by (simp add: unat_mod)
  then have "length (dec_padded 2 (unat (now div 1000 mod 60))) \<le> 2"
    using length_dec [of "unat (now div 1000 mod 60)" 2] by (simp add: dec_padded_def)
  ultimately show ?thesis by (simp add: debug_stamp_def Let_def)
qed

text \<open>A message starts with its whole time stamp and fits the queue's string.\<close>

lemma debug_text_stamped:
  "prefix (concat (debug_stamp now)) (debug_text now args) \<and> length (debug_text now args) \<le> 128"
proof -
  have "write_fmt MAX_DEBUG_MSG_LEN [] (debug_stamp now) = concat (debug_stamp now)"
  proof -
    have "write_fmt cap s ps = s @ concat ps" if "length s + length (concat ps) \<le> cap" for cap s and ps :: "rtext list"
      using that by (induction ps arbitrary: s) (simp_all add: extend_cap_def)
    then show ?thesis using debug_stamp_fits [of now] by (simp add: MAX_DEBUG_MSG_LEN_def)
  qed
  then show ?thesis
    using write_fmt_prefix write_fmt_bounded [of _ 128] debug_stamp_fits [of now]
    by (auto simp: debug_text_def MAX_DEBUG_MSG_LEN_def intro: order_trans)
qed

text \<open>
  Over a port that takes every packet up to its size, here recorded, the task writes the whole
  message, in packets no longer than the endpoint takes, and the line end.
\<close>

definition recording_port :: "nat \<Rightarrow> bytes list endpoint" where
  "recording_port n =
     \<lparr>write_packet = (\<lambda>p e. if length p \<le> n then (True, e @ [p]) else (False, e)), read_packet_ep = (\<lambda>e. (None, e)),
      max_packet = n\<rparr>"

lemma write_chunks_whole:
  "0 < n \<Longrightarrow> \<exists>ps. write_chunks (recording_port n) data e = e @ ps \<and> concat ps = data \<and> (\<forall>p \<in> set ps. length p \<le> n)"
proof (induction "recording_port n" data e rule: write_chunks.induct)
  case (1 data e)
  show ?case
  proof (cases "data = []")
    case False
    let ?e = "e @ [take n data]"
    have w: "write_packet (recording_port n) (take n data) e = (True, ?e)" "max (max_packet (recording_port n)) 1 = n"
      using 1(2) by (simp_all add: recording_port_def)
    then obtain ps where "write_chunks (recording_port n) (drop n data) ?e = ?e @ ps" "concat ps = drop n data"
      "\<forall>p \<in> set ps. length p \<le> n"
      using 1(1) [OF False refl] 1(2) by metis
    then show ?thesis
      using False w by (intro exI [of _ "take n data # ps"], subst write_chunks.simps) simp
  qed (subst write_chunks.simps, simp)
qed

lemma debug_lines_are_whole:
  assumes "2 \<le> n"
  shows "\<exists>ps. debug_writer_turn (recording_port n) (m # q, e) = (q, e @ ps) \<and> concat ps = m @ crlf
    \<and> (\<forall>p \<in> set ps. length p \<le> n)"
proof -
  obtain ps where "write_chunks (recording_port n) m e = e @ ps" "concat ps = m" "\<forall>p \<in> set ps. length p \<le> n"
    using write_chunks_whole [of n m e] assms by auto
  then show ?thesis using assms
    by (intro exI [of _ "ps @ [crlf]"]) (simp add: debug_writer_turn_def recording_port_def crlf_def)
qed

end
