(* ===== verification/Startup.thy ===== *)
theory Startup imports Hub_Ctrl Net_Topics begin

text \<open>
  The start of the firmware (\<open>src/main.rs\<close>): the identifiers derived from the hardware address, the
  tasks spawned for the configured mode with the handles each of them is given, and the pools of the
  executor, whose exhaustion would be a panic. Constructing the peripherals is not modelled.
\<close>

subsection \<open>Identifiers\<close>

definition device_id_of :: "bytes \<Rightarrow> bytes" where
  "device_id_of mac = [mac ! 3, mac ! 4, mac ! 5]"

text \<open>The digits of the identifier are written behind the four letters, two for each byte.\<close>

fun write_digits :: "nat \<Rightarrow> bytes \<Rightarrow> bytes \<Rightarrow> bytes" where
  "write_digits i [] buf = buf"
| "write_digits i (b # bs) buf =
     write_digits (i + 1) bs (buf[4 + i * 2 := hex_upper (high_nibble b), 5 + i * 2 := hex_upper (low_nibble b)])"

definition format_usb_serial :: "bytes \<Rightarrow> bytes \<Rightarrow> rtext" where
  "format_usb_serial buf device_id =
     (let buf = write_digits 0 device_id (buf[0 := 0x4C, 1 := 0x4D, 2 := 0x48, 3 := 0x2D])
      in if utf8_ok buf then buf else lit ''LMH-000000'')"

subsection \<open>Tasks\<close>

datatype hub_task =
    UsbDeviceTask | SerialReaderTask | SerialWriterTask | DebugWriterTask | AdminTask | LedTask | HubCtrlTask
  | NetRunnerTask | ApNetRunnerTask | WifiTask | NetWatchTask | PortalDhcpTask | PortalDnsTask | PortalHttpTask
  | LoraTask | BridgeTask | MqttTask | GatewayTask | GatewayUdpTask | NullLoraTask

text \<open>What a task is given: the hardware it owns, the ends of queues, the shared configuration and stacks.\<close>

datatype handle =
    LoraDriver | LedPin | UsbDeviceHandle | DataReader | DataWriter | DebugSender | StoreHandle | WifiController
  | NetRunner | ApNetRunner | CommandReceiver | CommandSender | LedReceiver | LedSender | AdminReceiver
  | Config | StationStack | ApStack | DeviceId | MacAddress

type_synonym spawned = "hub_task \<times> handle list"

definition common_tasks :: "spawned list" where
  "common_tasks =
     [(UsbDeviceTask, [UsbDeviceHandle]), (SerialReaderTask, [DataReader, CommandSender]), (SerialWriterTask, [DataWriter]),
      (DebugWriterTask, [DebugSender]), (AdminTask, [AdminReceiver]), (LedTask, [LedPin, LedReceiver]),
      (HubCtrlTask, [StoreHandle, Config]), (NetRunnerTask, [NetRunner]), (ApNetRunnerTask, [ApNetRunner]),
      (WifiTask, [WifiController, Config, DeviceId]), (NetWatchTask, [StationStack]), (PortalDhcpTask, [ApStack]),
      (PortalDnsTask, [ApStack])] @ replicate 3 (PortalHttpTask, [ApStack, Config])"

fun mode_tasks :: "hub_mode \<Rightarrow> spawned list" where
  "mode_tasks Bridge =
     [(LoraTask, [LoraDriver, CommandReceiver, LedSender]), (BridgeTask, []), (MqttTask, [StationStack, Config, DeviceId])]"
| "mode_tasks LorawanGateway =
     [(GatewayTask, [LoraDriver, Config, LedSender]), (GatewayUdpTask, [StationStack, Config, MacAddress]),
      (NullLoraTask, [CommandReceiver, LedSender])]"

text \<open>The instances a task may have; spawning one more fails, and the unwrap is a panic (\<open>None\<close>).\<close>

fun pool_size :: "hub_task \<Rightarrow> nat" where
  "pool_size PortalHttpTask = 3"
| "pool_size t = 1"

fun spawn_all :: "spawned list \<Rightarrow> spawned list \<Rightarrow> spawned list option" where
  "spawn_all [] running = Some running"
| "spawn_all (t # ts) running =
     (if count_list (map fst running) (fst t) < pool_size (fst t) then spawn_all ts (running @ [t]) else None)"

text \<open>The asynchronous part of the boot: load the configuration, then spawn for its mode.\<close>

definition async_main ::
  "('f, 't) flash \<Rightarrow> build_env \<Rightarrow> 'f config_store option \<Rightarrow> (hub_config \<times> 'f config_store option \<times> spawned list) option" where
  "async_main F E store =
     (let (config, store) = boot_config F E store
      in map_option (\<lambda>ts. (config, store, ts)) (spawn_all (common_tasks @ mode_tasks (cfg_mode config)) []))"

subsection \<open>The serial number\<close>

lemma hex_upper_ascii: "n < 16 \<Longrightarrow> hex_upper n < 0x80"
proof -
  assume "n < 16"
  then have "hex_upper n < 0x7F" using hex_upper_range by blast
  then show "hex_upper n < 0x80" by (rule order.strict_trans) simp
qed

lemma usb_serial_text:
  assumes "length buf = 10" "length device_id = 3"
  shows "format_usb_serial buf device_id = lit ''LMH-'' @ concat (map hex_byte_upper device_id)"
proof -
  obtain a b c where d: "device_id = [a, b, c]" using assms(2) by (auto simp: length_Suc_conv numeral_eq_Suc)
  obtain x0 x1 x2 x3 x4 x5 x6 x7 x8 x9 where b: "buf = [x0, x1, x2, x3, x4, x5, x6, x7, x8, x9]"
    using assms(1) by (auto simp: length_Suc_conv numeral_eq_Suc)
  have w: "write_digits 0 device_id (buf[0 := 0x4C, 1 := 0x4D, 2 := 0x48, 3 := 0x2D]) =
      lit ''LMH-'' @ concat (map hex_byte_upper device_id)"
    by (simp add: d b hex_byte_upper_def numeral_eq_Suc)
  moreover have "utf8_ok (lit ''LMH-'' @ concat (map hex_byte_upper device_id))"
    unfolding d by (intro utf8_ascii) (auto simp: hex_byte_upper_def hex_upper_ascii nibble_range)
  ultimately show ?thesis by (simp add: format_usb_serial_def Let_def)
qed

subsection \<open>Properties\<close>

text \<open>
  The start never panics. Whatever is stored, every task finds a free place in its pool; the radio
  driver, the receiving end of each queue handed out and every other owned device go to exactly one
  task, the host commands to the radio task of the mode; and the serial number names the board by the
  same digits as its topics.
\<close>

theorem startup_never_panics:
  "\<exists>ts. async_main F E store = Some (fst (boot_config F E store), snd (boot_config F E store), ts)
     \<and> map (count_list (concat (map snd ts))) [LoraDriver, LedPin, UsbDeviceHandle, DataReader, DataWriter, DebugSender,
          StoreHandle, WifiController, NetRunner, ApNetRunner, CommandReceiver, LedReceiver, AdminReceiver] = replicate 13 1
     \<and> (\<exists>t \<in> set ts. CommandReceiver \<in> set (snd t) \<and>
          fst t = (if cfg_mode (fst (boot_config F E store)) = Bridge then LoraTask else NullLoraTask))
     \<and> (let i = device_id_of mac
        in format_usb_serial (replicate 10 0) i = lit ''LMH-'' @ concat (map hex_byte_upper i)
           \<and> ts_tx (new_topics i) = lit ''wt/hub/'' @ concat (map hex_byte_upper i) @ lit ''/tx'')"
proof -
  obtain c s where b: "boot_config F E store = (c, s)" by force
  have i: "length (device_id_of mac) = 3" by (simp add: device_id_of_def)
  show ?thesis
    using usb_serial_text [OF _ i, of "replicate 10 0"] topics_complete [OF i]
    by (cases "cfg_mode c") (simp_all add: b async_main_def common_tasks_def numeral_eq_Suc Let_def)
qed

end
