(* ===== verification/Host_Protocol.thy ===== *)
theory Host_Protocol imports Hub_Codec begin

text \<open>
  The host's own implementation of the wire protocol (\<open>src/integration_tests/src/protocol.rs\<close>): command
  frames, the payloads of the provisioning commands, responses and the status payload. It is written
  apart from the shared crate; the lemmas show that both speak the same protocol. Checksum and COBS
  are the parameters of the codec.
\<close>

subsection \<open>Identifiers\<close>

datatype host_command_id = HostGetVersion | HostReboot | HostLoraTx | HostSetSpreadingFactor | HostGetRadioConfig

fun host_command_byte :: "host_command_id \<Rightarrow> u8" where
  "host_command_byte HostGetVersion = 0x01"
| "host_command_byte HostReboot = 0x03"
| "host_command_byte HostLoraTx = 0x10"
| "host_command_byte HostSetSpreadingFactor = 0x11"
| "host_command_byte HostGetRadioConfig = 0x12"

datatype host_hub_command_id =
    HostSetWifiConfig | HostSetMqttConfig | HostGetNetworkConfig | HostGetHubStatus | HostSetMode
  | HostClearNetworkConfig | HostSetGatewayConfig

fun host_hub_command_byte :: "host_hub_command_id \<Rightarrow> u8" where
  "host_hub_command_byte HostSetWifiConfig = 0x20"
| "host_hub_command_byte HostSetMqttConfig = 0x21"
| "host_hub_command_byte HostGetNetworkConfig = 0x22"
| "host_hub_command_byte HostGetHubStatus = 0x23"
| "host_hub_command_byte HostSetMode = 0x24"
| "host_hub_command_byte HostClearNetworkConfig = 0x25"
| "host_hub_command_byte HostSetGatewayConfig = 0x26"

datatype host_response_status =
    HostSuccess | HostInvalidCommand | HostInvalidLength | HostCrcError | HostInvalidVersion | HostInvalidParameter
  | HostLoraError | HostTimeoutStatus

definition host_status_from_byte :: "u8 \<Rightarrow> u8 + host_response_status" where
  "host_status_from_byte b =
     (if b = 0x00 then Inr HostSuccess
      else if b = 0x01 then Inr HostInvalidCommand
      else if b = 0x02 then Inr HostInvalidLength
      else if b = 0x03 then Inr HostCrcError
      else if b = 0x04 then Inr HostInvalidVersion
      else if b = 0x05 then Inr HostInvalidParameter
      else if b = 0x10 then Inr HostLoraError
      else if b = 0x11 then Inr HostTimeoutStatus
      else Inl b)"

datatype host_response_id =
    RVersion | RTxComplete | RRxPacket | RRadioConfig | RTxRefused | RNetworkConfig | RHubStatus | RConfigAck | RError

definition host_response_from_byte :: "u8 \<Rightarrow> u8 + host_response_id" where
  "host_response_from_byte b =
     (if b = 0x01 then Inr RVersion
      else if b = 0x10 then Inr RTxComplete
      else if b = 0x11 then Inr RRxPacket
      else if b = 0x12 then Inr RRadioConfig
      else if b = 0x13 then Inr RTxRefused
      else if b = 0x20 then Inr RNetworkConfig
      else if b = 0x21 then Inr RHubStatus
      else if b = 0x22 then Inr RConfigAck
      else if b = 0xFF then Inr RError
      else Inl b)"

subsection \<open>Building commands\<close>

definition build_command_payload :: "wire \<Rightarrow> u8 \<Rightarrow> bytes \<Rightarrow> bytes" where
  "build_command_payload W cmd_id payload =
     (let data = [PROTOCOL_VERSION] @ [cmd_id] @ to_le16 (of_nat (length payload)) @ payload
      in data @ to_le16 (crc16 W data))"

definition host_cobs_encode :: "wire \<Rightarrow> bytes \<Rightarrow> bytes" where
  "host_cobs_encode W data = cobs_encoder W data"

definition build_command :: "wire \<Rightarrow> host_command_id \<Rightarrow> bytes \<Rightarrow> bytes" where
  "build_command W cmd_id payload = host_cobs_encode W (build_command_payload W (host_command_byte cmd_id) payload)"

definition host_push_string :: "bytes \<Rightarrow> rtext \<Rightarrow> bytes" where
  "host_push_string payload s = (payload @ [of_nat (length s)]) @ s"

definition wifi_config_payload :: "rtext \<Rightarrow> rtext \<Rightarrow> bytes" where
  "wifi_config_payload s p = host_push_string (host_push_string [] s) p"

definition mqtt_config_payload :: "rtext \<Rightarrow> u16 \<Rightarrow> rtext \<Rightarrow> bytes" where
  "mqtt_config_payload host port ident = host_push_string (host_push_string (to_le16 port) host) ident"

definition gateway_config_payload :: "u32 \<Rightarrow> u8 \<Rightarrow> u32 \<Rightarrow> u8 \<Rightarrow> rtext \<Rightarrow> u16 \<Rightarrow> bytes" where
  "gateway_config_payload freq_hz sf bandwidth_khz cr host port =
     host_push_string (to_le32 freq_hz @ [sf] @ to_le32 bandwidth_khz @ [cr] @ to_le16 port) host"

subsection \<open>Reading responses\<close>

datatype host_error =
    ResponseTooShort | PayloadIncomplete | HostCrcMismatch | VersionMismatch u8 | UnknownResponse u8
  | CobsDecodeError | StatusLength nat | ResponseTimeout | PortFailed rtext | NoVersion
  | UnexpectedResponse host_response_id | NotApplied u8 | AckStatus "u8 option" | NoPort | TooFewPorts | BadMode

record host_response =
  hr_version :: u8
  hr_id :: host_response_id
  hr_payload :: bytes

definition host_parse_response :: "wire \<Rightarrow> bytes \<Rightarrow> host_error + host_response" where
  "host_parse_response W data =
     (if length data < 6 then Inl ResponseTooShort
      else
        let version = data ! 0; resp_id_byte = data ! 1; len = unat (from_le16 (data ! 2) (data ! 3))
        in if length data < 4 + len + 2 then Inl PayloadIncomplete
           else
             let payload = drop 4 (take (4 + len) data);
                 received_crc = from_le16 (data ! (4 + len)) (data ! (4 + len + 1))
             in if crc16 W (take (4 + len) data) \<noteq> received_crc then Inl HostCrcMismatch
                else if version \<noteq> PROTOCOL_VERSION then Inl (VersionMismatch version)
                else rbind (map_err UnknownResponse (host_response_from_byte resp_id_byte)) (\<lambda>i.
                  Inr \<lparr>hr_version = version, hr_id = i, hr_payload = payload\<rparr>))"

definition host_cobs_decode :: "(bytes \<Rightarrow> bytes option) \<Rightarrow> bytes \<Rightarrow> host_error + bytes" where
  "host_cobs_decode D data = ok_or (D data) CobsDecodeError"

record host_hub_status =
  hs_wifi_state :: u8
  hs_ip :: bytes
  hs_mqtt_state :: u8
  hs_uplink_count :: u32
  hs_downlink_count :: u32
  hs_dropped_count :: u32
  hs_uptime_secs :: u32

definition le32_at :: "bytes \<Rightarrow> nat \<Rightarrow> u32" where
  "le32_at p i = from_le32 (p ! i) (p ! (i + 1)) (p ! (i + 2)) (p ! (i + 3))"

definition parse_hub_status :: "bytes \<Rightarrow> host_error + host_hub_status" where
  "parse_hub_status p =
     (if length p \<noteq> 22 then Inl (StatusLength (length p))
      else Inr \<lparr>hs_wifi_state = p ! 0, hs_ip = [p ! 1, p ! 2, p ! 3, p ! 4], hs_mqtt_state = p ! 5,
        hs_uplink_count = le32_at p 6, hs_downlink_count = le32_at p 10, hs_dropped_count = le32_at p 14,
        hs_uptime_secs = le32_at p 18\<rparr>)"

subsection \<open>Agreement with the shared codec\<close>

lemma host_frame: "build_command_payload W i p = frame W i p"
  by (simp add: build_command_payload_def frame_def frame_body_def Let_def)

fun host_hub_id :: "hub_command_id \<Rightarrow> host_hub_command_id" where
  "host_hub_id CmdSetWifiConfig = HostSetWifiConfig"
| "host_hub_id CmdSetMqttConfig = HostSetMqttConfig"
| "host_hub_id CmdGetNetworkConfig = HostGetNetworkConfig"
| "host_hub_id CmdGetHubStatus = HostGetHubStatus"
| "host_hub_id CmdSetMode = HostSetMode"
| "host_hub_id CmdClearNetworkConfig = HostClearNetworkConfig"
| "host_hub_id CmdSetGatewayConfig = HostSetGatewayConfig"

fun host_payload :: "hub_command \<Rightarrow> bytes" where
  "host_payload (SetWifiConfig w) = wifi_config_payload (ssid w) (password w)"
| "host_payload (SetMqttConfig m) = mqtt_config_payload (mqtt_host m) (mqtt_port m) (client_id m)"
| "host_payload (SetGatewayConfig g) =
     gateway_config_payload (gw_frequency_hz g) (gw_spreading_factor g) (gw_bandwidth_khz g) (gw_coding_rate g)
       (gw_host g) (gw_port g)"
| "host_payload (SetMode m) = [hub_mode_byte m]"
| "host_payload c = []"

lemma host_payload_layout: "host_payload c = command_layout c"
  by (cases c) (simp_all add: wifi_config_payload_def mqtt_config_payload_def gateway_config_payload_def host_push_string_def
      str_bytes_def gateway_prefix_bytes_def)

lemma host_hub_byte: "host_hub_command_byte (host_hub_id i) = hub_command_byte i"
  by (cases i) simp_all

lemma host_parse_raw:
  "host_parse_response W data = Inr r \<longleftrightarrow>
     hr_version r = PROTOCOL_VERSION \<and> (\<exists>b. parse_raw W data = Inr (b, hr_payload r) \<and> host_response_from_byte b = Inr (hr_id r))"
  by (cases r) (auto simp: host_parse_response_def parse_raw_def Let_def drop_take rbind_Inr_iff map_err_Inr_iff)

fun host_response_id_of :: "hub_response \<Rightarrow> host_response_id" where
  "host_response_id_of (NetworkConfig m s q g) = RNetworkConfig"
| "host_response_id_of (HubStatus s) = RHubStatus"
| "host_response_id_of (ConfigAck a) = RConfigAck"

lemma host_response_byte: "host_response_from_byte (hub_response_byte (hub_response_id_of r)) = Inr (host_response_id_of r)"
  by (cases r) (simp_all add: host_response_from_byte_def)

lemma host_parse_frame:
  assumes "hub_response_ok r"
  shows "host_parse_response W (frame W (hub_response_byte (hub_response_id_of r)) (response_layout r)) =
    Inr \<lparr>hr_version = PROTOCOL_VERSION, hr_id = host_response_id_of r, hr_payload = response_layout r\<rparr>"
proof -
  have "length (response_layout r) < 65536" using response_layout_length [OF assms] by simp
  from parse_raw_frame [OF this, of W _ "[]"] show ?thesis by (simp add: host_parse_raw host_response_byte)
qed

definition host_status_of :: "hub_status \<Rightarrow> host_hub_status" where
  "host_status_of s =
     (let (a, b, c, d) = ip s
      in \<lparr>hs_wifi_state = link_state_byte (wifi_state s), hs_ip = [a, b, c, d], hs_mqtt_state = link_state_byte (mqtt_state s),
          hs_uplink_count = uplink_count s, hs_downlink_count = downlink_count s, hs_dropped_count = dropped_count s,
          hs_uptime_secs = uptime_secs s\<rparr>)"

lemma host_status: "parse_hub_status (response_layout (HubStatus s)) = Inr (host_status_of s)"
proof -
  obtain a b c d where "ip s = (a, b, c, d)" by (metis prod_cases4)
  then show ?thesis
    by (simp add: parse_hub_status_def host_status_of_def le32_at_def to_le32_def from_le32_to_le32)
qed

lemma host_reads_response:
  assumes "wire_ok W D" "hub_response_ok r"
  shows "\<exists>e. encode_response W r = Some e \<and> rbind (host_cobs_decode D e) (host_parse_response W) =
    Inr \<lparr>hr_version = PROTOCOL_VERSION, hr_id = host_response_id_of r, hr_payload = response_layout r\<rparr>"
  using response_layout_length [OF assms(2)] assms
  by (simp add: encode_response_def response_payload_layout build_raw_frame cobs_fits [OF assms(1)] host_cobs_decode_def
      wire_decodes [OF assms(1)] frame_length host_parse_frame wire_ok_def)

subsection \<open>Properties\<close>

text \<open>
  C33. The host and the hub speak the same protocol. Every command of the hub is framed by the host
  byte for byte as the shared codec frames it; every response of the hub is read by the host with its
  identifier and payload; and the status payload is read back as the status.
\<close>

theorem host_and_hub_agree:
  assumes "wire_ok W D"
  shows "(hub_command_ok c \<longrightarrow> encode_command W c = Some (host_cobs_encode W
      (build_command_payload W (host_hub_command_byte (host_hub_id (hub_command_id_of c))) (host_payload c))))
    \<and> (hub_response_ok r \<longrightarrow> (\<exists>e. encode_response W r = Some e \<and>
         rbind (host_cobs_decode D e) (host_parse_response W) =
           Inr \<lparr>hr_version = PROTOCOL_VERSION, hr_id = host_response_id_of r, hr_payload = response_payload W r\<rparr>))
    \<and> parse_hub_status (response_layout (HubStatus s)) = Inr (host_status_of s)"
proof (intro conjI impI)
  have max: "219 \<le> MAX_FRAME_SIZE W" using assms by (simp add: wire_ok_def)
  show "encode_command W c = Some (host_cobs_encode W
      (build_command_payload W (host_hub_command_byte (host_hub_id (hub_command_id_of c))) (host_payload c)))"
    if "hub_command_ok c"
    using command_layout_length [OF that] that max
    by (simp add: encode_command_def command_payload_layout build_raw_frame cobs_fits [OF assms] host_cobs_encode_def host_frame
        host_hub_byte host_payload_layout)
  show "\<exists>e. encode_response W r = Some e \<and> rbind (host_cobs_decode D e) (host_parse_response W) =
      Inr \<lparr>hr_version = PROTOCOL_VERSION, hr_id = host_response_id_of r, hr_payload = response_payload W r\<rparr>"
    if "hub_response_ok r"
    using host_reads_response [OF assms that] response_payload_layout [OF that, of W] max by simp
qed (rule host_status)

theorem host_and_hub_agree_witness:
  "\<exists>e. encode_response sample_wire (ConfigAck AckOk) = Some e
     \<and> rbind (host_cobs_decode sample_decode e) (host_parse_response sample_wire) =
         Inr \<lparr>hr_version = PROTOCOL_VERSION, hr_id = RConfigAck, hr_payload = response_payload sample_wire (ConfigAck AckOk)\<rparr>"
  using host_and_hub_agree [OF sample_wire_ok, of GetHubStatus "ConfigAck AckOk"] by simp

end
