(* ===== verification/Host_Client.thy ===== *)
theory Host_Client imports Host_Protocol begin

text \<open>
  The client of the host (\<open>src/integration_tests/src/device.rs\<close>, with the status tool \<open>hub_status.rs\<close>):
  finding the data ports, framing, the exchange of a command and its reply among unsolicited packets,
  and the retries of the version query. The serial port belongs to another crate: what its reads give
  is a list of timed events, after which nothing more comes; failing writes and control calls are
  given. Times are in milliseconds.
\<close>

subsection \<open>The port\<close>

datatype port_event = PortByte u8 | PortNothing | PortTimedOut | PortError rtext

record client =
  cl_input :: "(nat \<times> port_event) list"
  cl_writes :: "bool list"
  cl_controls :: "bool list"
  cl_sent :: bytes
  cl_now :: nat
  cl_timeout :: nat

text \<open>The result of the next write or control call; a call succeeds when nothing is given.\<close>

definition next_ok :: "bool list \<Rightarrow> bool \<times> bool list" where
  "next_ok rs = (case rs of [] \<Rightarrow> (True, []) | r # rs \<Rightarrow> (r, rs))"

definition control :: "client \<Rightarrow> bool \<times> client" where
  "control c = (let (ok, rs) = next_ok (cl_controls c) in (ok, c\<lparr>cl_controls := rs\<rparr>))"

definition write_port :: "bytes \<Rightarrow> client \<Rightarrow> bool \<times> client" where
  "write_port fr c =
     (let (ok, rs) = next_ok (cl_writes c)
      in (ok, if ok then c\<lparr>cl_writes := rs, cl_sent := cl_sent c @ fr\<rparr> else c\<lparr>cl_writes := rs\<rparr>))"

definition flush_port :: "client \<Rightarrow> bool \<times> client" where
  "flush_port c = (let (ok, rs) = next_ok (cl_writes c) in (ok, c\<lparr>cl_writes := rs\<rparr>))"

definition set_timeout :: "nat \<Rightarrow> client \<Rightarrow> client" where
  "set_timeout t c = snd (control (c\<lparr>cl_timeout := t\<rparr>))"

subsection \<open>Draining\<close>

fun drain_loop :: "nat \<Rightarrow> (nat \<times> port_event) list \<Rightarrow> (host_error + unit) \<times> nat \<times> (nat \<times> port_event) list" where
  "drain_loop now [] = (Inr (), now + 100, [])"
| "drain_loop now ((d, PortByte b) # es) = drain_loop (now + d) es"
| "drain_loop now ((d, PortNothing) # es) = (Inr (), now + d, es)"
| "drain_loop now ((d, PortTimedOut) # es) = (Inr (), now + d, es)"
| "drain_loop now ((d, PortError e) # es) = (Inl (PortFailed e), now + d, es)"

text \<open>
  Clearing the buffers drops bytes that the reads which follow would drop too, so only its result
  matters here.
\<close>

definition drain_buffer :: "client \<Rightarrow> (host_error + unit) \<times> client" where
  "drain_buffer c =
     (let (ok, c) = control c
      in if \<not> ok then (Inl (PortFailed []), c)
         else
           let (ok, c) = control c
           in if \<not> ok then (Inl (PortFailed []), c)
              else
                let (r, now, es) = drain_loop (cl_now c) (cl_input c); c = c\<lparr>cl_now := now, cl_input := es\<rparr>
                in case r of
                     Inl e \<Rightarrow> (Inl e, c)
                   | Inr _ \<Rightarrow> (let (ok, c) = control c in (if ok then Inr () else Inl (PortFailed []), c)))"

text \<open>Clearing alone: the events that had arrived, here the first \<open>n\<close>, are gone.\<close>

definition clear_buffer :: "nat \<Rightarrow> client \<Rightarrow> (host_error + unit) \<times> client" where
  "clear_buffer n c =
     (let (ok, c) = control c
      in if ok then (Inr (), c\<lparr>cl_input := drop n (cl_input c)\<rparr>) else (Inl (PortFailed []), c))"

subsection \<open>Frames\<close>

primrec frame_loop :: "nat \<Rightarrow> (nat \<times> port_event) list \<Rightarrow> nat \<Rightarrow> bytes
    \<Rightarrow> (host_error + bytes) \<times> nat \<times> (nat \<times> port_event) list" where
  "frame_loop deadline [] now data = (Inl ResponseTimeout, max now deadline, [])"
| "frame_loop deadline (e # es) now data =
     (if deadline \<le> now then (Inl ResponseTimeout, now, e # es)
      else
        let now = now + fst e
        in case snd e of
             PortByte b \<Rightarrow>
               if b = 0 then (if data \<noteq> [] then (Inr data, now, es) else frame_loop deadline es now data)
               else frame_loop deadline es now (data @ [b])
           | PortNothing \<Rightarrow> frame_loop deadline es now data
           | PortTimedOut \<Rightarrow> frame_loop deadline es now data
           | PortError t \<Rightarrow> (Inl (PortFailed t), now, es))"

definition read_frame :: "client \<Rightarrow> (host_error + bytes) \<times> client" where
  "read_frame c =
     (let (r, now, es) = frame_loop (cl_now c + cl_timeout c) (cl_input c) (cl_now c) []
      in (r, c\<lparr>cl_now := now, cl_input := es\<rparr>))"

definition decode_frame :: "wire \<Rightarrow> (bytes \<Rightarrow> bytes option) \<Rightarrow> bytes \<Rightarrow> host_error + host_response" where
  "decode_frame W D fr = rbind (host_cobs_decode D (fr @ [0])) (host_parse_response W)"

lemma frame_loop_shorter:
  "frame_loop deadline es now data = (Inr f, now', es') \<Longrightarrow> length es' < length es"
  by (induction es arbitrary: now data) (fastforce simp: Let_def split: if_splits port_event.splits)+

lemma frame_loop_length:
  "frame_loop deadline es now data = (r, now', es') \<Longrightarrow> length es' \<le> length es"
  by (induction es arbitrary: now data) (fastforce simp: Let_def split: if_splits port_event.splits)+

lemma read_frame_shorter: "read_frame c = (Inr f, c') \<Longrightarrow> length (cl_input c') < length (cl_input c)"
  by (auto simp: read_frame_def split: prod.splits dest: frame_loop_shorter)

text \<open>Replies are read until one is not an unsolicited packet.\<close>

function read_command_response ::
  "wire \<Rightarrow> (bytes \<Rightarrow> bytes option) \<Rightarrow> client \<Rightarrow> (host_error + host_response) \<times> client" where
  "read_command_response W D c =
     (case read_frame c of
        (Inl e, c) \<Rightarrow> (Inl e, c)
      | (Inr fr, c) \<Rightarrow>
          (case decode_frame W D fr of
             Inl e \<Rightarrow> (Inl e, c)
           | Inr r \<Rightarrow> if hr_id r = RRxPacket then read_command_response W D c else (Inr r, c)))"
  by pat_completeness auto

termination
  by (relation "measure (\<lambda>(W, D, c). length (cl_input c))") (auto dest: read_frame_shorter [OF sym])

declare read_command_response.simps [simp del]

definition read_command_response_resync ::
  "wire \<Rightarrow> (bytes \<Rightarrow> bytes option) \<Rightarrow> client \<Rightarrow> (host_error + host_response) \<times> client" where
  "read_command_response_resync W D c =
     (case read_command_response W D c of
        (Inl e, c) \<Rightarrow> (Inl e, snd (drain_buffer c))
      | (Inr r, c) \<Rightarrow> (Inr r, c))"

subsection \<open>Commands\<close>

definition exchange_frame ::
  "wire \<Rightarrow> (bytes \<Rightarrow> bytes option) \<Rightarrow> bytes \<Rightarrow> client \<Rightarrow> (host_error + host_response) \<times> client" where
  "exchange_frame W D fr c =
     (let (ok, c) = write_port fr c
      in if \<not> ok then (Inl (PortFailed []), c)
         else
           let (ok, c) = flush_port c
           in if \<not> ok then (Inl (PortFailed []), c) else read_command_response_resync W D c)"

definition send_command ::
  "wire \<Rightarrow> (bytes \<Rightarrow> bytes option) \<Rightarrow> host_command_id \<Rightarrow> bytes \<Rightarrow> client \<Rightarrow> (host_error + host_response) \<times> client" where
  "send_command W D cmd_id payload = exchange_frame W D (build_command W cmd_id payload)"

definition send_raw_command ::
  "wire \<Rightarrow> (bytes \<Rightarrow> bytes option) \<Rightarrow> u8 \<Rightarrow> bytes \<Rightarrow> client \<Rightarrow> (host_error + host_response) \<times> client" where
  "send_raw_command W D cmd_id payload = exchange_frame W D (host_cobs_encode W (build_command_payload W cmd_id payload))"

definition send_hub_command ::
  "wire \<Rightarrow> (bytes \<Rightarrow> bytes option) \<Rightarrow> host_hub_command_id \<Rightarrow> bytes \<Rightarrow> client \<Rightarrow> (host_error + host_response) \<times> client" where
  "send_hub_command W D cmd_id payload =
     exchange_frame W D (host_cobs_encode W (build_command_payload W (host_hub_command_byte cmd_id) payload))"

definition lora_tx :: "wire \<Rightarrow> (bytes \<Rightarrow> bytes option) \<Rightarrow> bytes \<Rightarrow> client \<Rightarrow> (host_error + host_response) \<times> client" where
  "lora_tx W D data = send_command W D HostLoraTx data"

definition set_spreading_factor :: "wire \<Rightarrow> (bytes \<Rightarrow> bytes option) \<Rightarrow> u8 \<Rightarrow> client \<Rightarrow> (host_error + unit) \<times> client" where
  "set_spreading_factor W D sf c =
     (let (r, c) = send_command W D HostSetSpreadingFactor [sf] c
      in (rbind r (\<lambda>r. if hr_id r \<noteq> RRadioConfig then Inl (UnexpectedResponse (hr_id r))
            else if \<not> (4 < length (hr_payload r) \<and> hr_payload r ! 4 = sf) then Inl (NotApplied sf) else Inr ()), c))"

definition expect_config_ack ::
  "wire \<Rightarrow> (bytes \<Rightarrow> bytes option) \<Rightarrow> host_hub_command_id \<Rightarrow> bytes \<Rightarrow> client \<Rightarrow> (host_error + unit) \<times> client" where
  "expect_config_ack W D cmd_id payload c =
     (let (r, c) = send_hub_command W D cmd_id payload c
      in (rbind r (\<lambda>r. if hr_id r \<noteq> RConfigAck then Inl (UnexpectedResponse (hr_id r))
            else case hr_payload r of
                [] \<Rightarrow> Inl (AckStatus None)
              | b # _ \<Rightarrow> if b = 0 then Inr () else Inl (AckStatus (Some b))), c))"

definition reboot_device :: "wire \<Rightarrow> client \<Rightarrow> (host_error + unit) \<times> client" where
  "reboot_device W c =
     (let (ok, c) = write_port (build_command W HostReboot []) c
      in if \<not> ok then (Inl (PortFailed []), c)
         else let (ok, c) = flush_port c in (if ok then Inr () else Inl (PortFailed []), c))"

text \<open>
  The version query is retried until it is answered or the time is over. The bound on the attempts is
  what is left to read or to fail, and the time: every attempt uses up one of them.
\<close>

primrec version_loop ::
  "nat \<Rightarrow> wire \<Rightarrow> (bytes \<Rightarrow> bytes option) \<Rightarrow> nat \<Rightarrow> nat \<Rightarrow> client
   \<Rightarrow> ((host_error + u8 \<times> u8 \<times> u8) \<times> client) option" where
  "version_loop 0 W D previous deadline c = None"
| "version_loop (Suc n) W D previous deadline c =
     (let (r, c) = send_command W D HostGetVersion [] c
      in if (case r of Inr v \<Rightarrow> hr_id v = RVersion \<and> 3 \<le> length (hr_payload v) | Inl _ \<Rightarrow> False) then
           (case r of
              Inr v \<Rightarrow> Some (Inr (hr_payload v ! 0, hr_payload v ! 1, hr_payload v ! 2), set_timeout previous c)
            | Inl e \<Rightarrow> None)
         else
           let last_err = (case r of Inr v \<Rightarrow> UnexpectedResponse (hr_id v) | Inl e \<Rightarrow> e)
           in if deadline \<le> cl_now c then Some (Inl last_err, set_timeout previous c)
              else version_loop n W D previous deadline c)"

definition work :: "client \<Rightarrow> nat" where
  "work c = length (cl_writes c) + length (cl_input c)"

definition get_version ::
  "wire \<Rightarrow> (bytes \<Rightarrow> bytes option) \<Rightarrow> nat \<Rightarrow> client \<Rightarrow> ((host_error + u8 \<times> u8 \<times> u8) \<times> client) option" where
  "get_version W D timeout c =
     (let c = snd (drain_buffer c); previous = cl_timeout c; c = set_timeout (min timeout 1500) c
      in version_loop (work c + timeout + 1) W D previous (cl_now c + timeout) c)"

definition wait_ready ::
  "wire \<Rightarrow> (bytes \<Rightarrow> bytes option) \<Rightarrow> nat \<Rightarrow> client \<Rightarrow> ((host_error + unit) \<times> client) option" where
  "wait_ready W D timeout c =
     map_option (\<lambda>(r, c). (rbind r (\<lambda>_. Inr ()), c)) (get_version W D timeout c)"

subsection \<open>Unsolicited packets\<close>

text \<open>Whether the text of an error contains the word the code looks for.\<close>

fun contains_timeout :: "rtext \<Rightarrow> bool" where
  "contains_timeout [] = False"
| "contains_timeout (b # s) \<longleftrightarrow> take 7 (b # s) = lit ''Timeout'' \<or> contains_timeout s"

fun is_timeout :: "host_error \<Rightarrow> bool" where
  "is_timeout ResponseTimeout = True"
| "is_timeout (PortFailed e) = contains_timeout e"
| "is_timeout e = False"

definition try_read_response ::
  "wire \<Rightarrow> (bytes \<Rightarrow> bytes option) \<Rightarrow> nat \<Rightarrow> client \<Rightarrow> (host_error + host_response option) \<times> client" where
  "try_read_response W D timeout c =
     (let old = cl_timeout c; (r, c) = read_frame (c\<lparr>cl_timeout := timeout\<rparr>); c = c\<lparr>cl_timeout := old\<rparr>
      in (case r of
            Inr data \<Rightarrow> rbind (decode_frame W D data) (\<lambda>r. Inr (Some r))
          | Inl e \<Rightarrow> if is_timeout e then Inr None else Inl e, c))"

text \<open>
  Waiting for a packet, in polls; \<open>wanted\<close> is the test of the response that is waited for, and the
  bound on the polls is again what is left to read and the time.
\<close>

primrec wait_loop ::
  "nat \<Rightarrow> wire \<Rightarrow> (bytes \<Rightarrow> bytes option) \<Rightarrow> nat \<Rightarrow> (host_response \<Rightarrow> bool) \<Rightarrow> nat \<Rightarrow> client
   \<Rightarrow> ((host_error + host_response) \<times> client) option" where
  "wait_loop 0 W D poll wanted deadline c = None"
| "wait_loop (Suc n) W D poll wanted deadline c =
     (if deadline \<le> cl_now c then Some (Inl ResponseTimeout, c)
      else case try_read_response W D poll c of
          (Inl e, c) \<Rightarrow> Some (Inl e, c)
        | (Inr None, c) \<Rightarrow> wait_loop n W D poll wanted deadline c
        | (Inr (Some r), c) \<Rightarrow> if wanted r then Some (Inr r, c) else wait_loop n W D poll wanted deadline c)"

definition wait_for_rx_packet ::
  "wire \<Rightarrow> (bytes \<Rightarrow> bytes option) \<Rightarrow> nat \<Rightarrow> client \<Rightarrow> ((host_error + host_response) \<times> client) option" where
  "wait_for_rx_packet W D timeout c = wait_loop (work c + timeout + 1) W D 100 (\<lambda>r. True) (cl_now c + timeout) c"

definition matching_packet :: "bytes \<Rightarrow> host_response \<Rightarrow> bool" where
  "matching_packet expected r \<longleftrightarrow>
     \<not> (hr_id r \<noteq> RRxPacket \<or> length (hr_payload r) < 3) \<and> take (length (hr_payload r) - 3) (hr_payload r) = expected"

definition wait_for_rx_packet_matching ::
  "wire \<Rightarrow> (bytes \<Rightarrow> bytes option) \<Rightarrow> bytes \<Rightarrow> nat \<Rightarrow> client \<Rightarrow> ((host_error + host_response) \<times> client) option" where
  "wait_for_rx_packet_matching W D expected timeout c =
     wait_loop (work c + timeout + 1) W D 200 (matching_packet expected) (cl_now c + timeout) c"

subsection \<open>Data ports\<close>

definition USB_VID :: u16 where "USB_VID = 0x303A"
definition USB_PID :: u16 where "USB_PID = 0x1001"

record usb_info =
  usb_vid :: u16
  usb_pid :: u16
  usb_interface :: "u8 option"
  usb_serial :: "rtext option"

datatype port_kind = UsbPort usb_info | OtherPort

record port_info =
  port_name :: rtext
  port_type :: port_kind

text \<open>What opening a port gives; a client that opens has the default response window.\<close>

record host_env =
  available_ports :: "port_info list option"
  open_port :: "rtext \<Rightarrow> client option"

definition new_client :: "host_env \<Rightarrow> rtext \<Rightarrow> client option" where
  "new_client H name = map_option (\<lambda>c. c\<lparr>cl_timeout := 3000\<rparr>) (open_port H name)"

definition responds :: "wire \<Rightarrow> (bytes \<Rightarrow> bytes option) \<Rightarrow> host_env \<Rightarrow> rtext \<Rightarrow> bool" where
  "responds W D H name =
     (case new_client H name of
        None \<Rightarrow> False
      | Some c \<Rightarrow> (case wait_ready W D 2000 c of Some (Inr _, _) \<Rightarrow> True | _ \<Rightarrow> False))"

definition data_port :: "usb_info \<Rightarrow> bool" where
  "data_port u \<longleftrightarrow> \<not> (usb_vid u \<noteq> USB_VID \<or> usb_pid u \<noteq> USB_PID) \<and> usb_interface u = Some 0"

text \<open>The order of strings is the one of their bytes.\<close>

fun bytes_le :: "rtext \<Rightarrow> rtext \<Rightarrow> bool" where
  "bytes_le [] t = True"
| "bytes_le (a # s) [] = False"
| "bytes_le (a # s) (b # t) \<longleftrightarrow> a < b \<or> a = b \<and> bytes_le s t"

fun insert_port :: "rtext \<Rightarrow> rtext list \<Rightarrow> rtext list" where
  "insert_port p [] = [p]"
| "insert_port p (q # qs) = (if bytes_le p q then p # q # qs else q # insert_port p qs)"

definition find_data_ports :: "wire \<Rightarrow> (bytes \<Rightarrow> bytes option) \<Rightarrow> host_env \<Rightarrow> host_error + rtext list" where
  "find_data_ports W D H =
     (case available_ports H of
        None \<Rightarrow> Inl (PortFailed [])
      | Some ports \<Rightarrow>
          Inr (foldr insert_port
            (map port_name (filter (\<lambda>p. case port_type p of
                UsbPort u \<Rightarrow> data_port u \<and> responds W D H (port_name p)
              | OtherPort \<Rightarrow> False) ports)) []))"

definition find_data_port :: "wire \<Rightarrow> (bytes \<Rightarrow> bytes option) \<Rightarrow> host_env \<Rightarrow> host_error + rtext" where
  "find_data_port W D H =
     rbind (find_data_ports W D H) (\<lambda>ports. case ports of p # _ \<Rightarrow> Inr p | [] \<Rightarrow> Inl NoPort)"

definition find_two_data_ports :: "wire \<Rightarrow> (bytes \<Rightarrow> bytes option) \<Rightarrow> host_env \<Rightarrow> host_error + rtext \<times> rtext" where
  "find_two_data_ports W D H =
     rbind (find_data_ports W D H) (\<lambda>ports. if length ports < 2 then Inl TooFewPorts else Inr (ports ! 0, ports ! 1))"

definition resolve_port :: "wire \<Rightarrow> (bytes \<Rightarrow> bytes option) \<Rightarrow> host_env \<Rightarrow> rtext \<Rightarrow> host_error + rtext" where
  "resolve_port W D H arg = (if arg = lit ''auto'' then find_data_port W D H else Inr arg)"

primrec first_with_prefix ::
  "wire \<Rightarrow> (bytes \<Rightarrow> bytes option) \<Rightarrow> host_env \<Rightarrow> rtext \<Rightarrow> port_info list \<Rightarrow> host_error + rtext" where
  "first_with_prefix W D H start [] = Inl NoPort"
| "first_with_prefix W D H start (p # ps) =
     (if (case port_type p of
            OtherPort \<Rightarrow> False
          | UsbPort u \<Rightarrow>
              \<not> (usb_vid u \<noteq> USB_VID \<or> usb_pid u \<noteq> USB_PID \<or> usb_interface u \<noteq> Some 0)
              \<and> (case usb_serial u of None \<Rightarrow> False | Some serial \<Rightarrow> take (length start) serial = start))
         \<and> responds W D H (port_name p)
      then Inr (port_name p) else first_with_prefix W D H start ps)"

definition find_data_port_with_serial_prefix ::
  "wire \<Rightarrow> (bytes \<Rightarrow> bytes option) \<Rightarrow> host_env \<Rightarrow> rtext \<Rightarrow> host_error + rtext" where
  "find_data_port_with_serial_prefix W D H start =
     (case available_ports H of
        None \<Rightarrow> Inl (PortFailed [])
      | Some ports \<Rightarrow> first_with_prefix W D H start ports)"

definition resolve_port_with_prefix ::
  "wire \<Rightarrow> (bytes \<Rightarrow> bytes option) \<Rightarrow> host_env \<Rightarrow> rtext \<Rightarrow> rtext \<Rightarrow> host_error + rtext" where
  "resolve_port_with_prefix W D H arg start =
     (if arg = lit ''auto'' then find_data_port_with_serial_prefix W D H start else Inr arg)"

definition resolve_two_ports ::
  "wire \<Rightarrow> (bytes \<Rightarrow> bytes option) \<Rightarrow> host_env \<Rightarrow> rtext \<Rightarrow> rtext \<Rightarrow> host_error + rtext \<times> rtext" where
  "resolve_two_ports W D H a b =
     (if a = lit ''auto'' \<and> b = lit ''auto'' then find_two_data_ports W D H
      else if a = lit ''auto'' then rbind (find_data_port W D H) (\<lambda>a. Inr (a, b))
      else if b = lit ''auto'' then rbind (find_data_port W D H) (\<lambda>b. Inr (a, b))
      else Inr (a, b))"

subsection \<open>The status tool\<close>

text \<open>The steps of the tool share the client; one that fails ends it.\<close>

definition then_do ::
  "(client \<Rightarrow> ((host_error + 'a) \<times> client) option) \<Rightarrow> ('a \<Rightarrow> client \<Rightarrow> ((host_error + 'b) \<times> client) option)
   \<Rightarrow> client \<Rightarrow> ((host_error + 'b) \<times> client) option" where
  "then_do m f c =
     (case m c of
        None \<Rightarrow> None
      | Some (Inl e, c) \<Rightarrow> Some (Inl e, c)
      | Some (Inr x, c) \<Rightarrow> f x c)"

definition total :: "(client \<Rightarrow> (host_error + 'a) \<times> client) \<Rightarrow> client \<Rightarrow> ((host_error + 'a) \<times> client) option" where
  "total m c = Some (m c)"

datatype tool_output = ModeSet "u8 \<times> u8 \<times> u8" | StatusShown "u8 \<times> u8 \<times> u8" host_hub_status bytes

record tool_args =
  arg_port :: rtext
  arg_clear :: bool
  arg_mode :: "rtext option"

definition set_mode_step :: "wire \<Rightarrow> (bytes \<Rightarrow> bytes option) \<Rightarrow> rtext \<Rightarrow> client \<Rightarrow> ((host_error + unit) \<times> client) option" where
  "set_mode_step W D m =
     (if m = lit ''bridge'' \<or> m = lit ''gateway'' then
        then_do (total (expect_config_ack W D HostSetMode [if m = lit ''bridge'' then 0 else 1]))
          (\<lambda>_. total (reboot_device W))
      else total (\<lambda>c. (Inl BadMode, c)))"

definition show_status_step ::
  "wire \<Rightarrow> (bytes \<Rightarrow> bytes option) \<Rightarrow> client \<Rightarrow> ((host_error + host_hub_status \<times> bytes) \<times> client) option" where
  "show_status_step W D =
     then_do (total (send_hub_command W D HostGetHubStatus [])) (\<lambda>response.
       if hr_id response \<noteq> RHubStatus then total (\<lambda>c. (Inl (UnexpectedResponse (hr_id response)), c))
       else
         case parse_hub_status (hr_payload response) of
           Inl e \<Rightarrow> total (\<lambda>c. (Inl e, c))
         | Inr status \<Rightarrow>
             then_do (total (send_hub_command W D HostGetNetworkConfig [])) (\<lambda>network.
               total (\<lambda>c. (Inr (status, hr_payload network), c))))"

definition clear_step :: "wire \<Rightarrow> (bytes \<Rightarrow> bytes option) \<Rightarrow> client \<Rightarrow> ((host_error + unit) \<times> client) option" where
  "clear_step W D =
     then_do (total (expect_config_ack W D HostClearNetworkConfig [])) (\<lambda>_. total (reboot_device W))"

definition hub_status_tool ::
  "wire \<Rightarrow> (bytes \<Rightarrow> bytes option) \<Rightarrow> host_env \<Rightarrow> tool_args \<Rightarrow> ((host_error + tool_output) \<times> client option) option" where
  "hub_status_tool W D H args =
     (case resolve_port_with_prefix W D H (arg_port args) (lit ''LMH-'') of
        Inl e \<Rightarrow> Some (Inl e, None)
      | Inr port \<Rightarrow>
          (case new_client H port of
             None \<Rightarrow> Some (Inl (PortFailed []), None)
           | Some c \<Rightarrow>
               map_option (\<lambda>(r, c). (r, Some c))
                 (then_do (wait_ready W D 5000) (\<lambda>_.
                    then_do (get_version W D 3000) (\<lambda>v.
                      case arg_mode args of
                        Some m \<Rightarrow> then_do (set_mode_step W D m) (\<lambda>_. total (\<lambda>c. (Inr (ModeSet v), c)))
                      | None \<Rightarrow>
                          then_do (show_status_step W D) (\<lambda>(status, network).
                            if arg_clear args
                            then then_do (clear_step W D) (\<lambda>_. total (\<lambda>c. (Inr (StatusShown v status network), c)))
                            else total (\<lambda>c. (Inr (StatusShown v status network), c))))) c)))"

subsection \<open>Every wait ends\<close>

lemma frame_loop_progress:
  "frame_loop deadline es now data = (r, now', es') \<Longrightarrow>
   now \<le> now' \<and> length es' \<le> length es \<and> (length es' < length es \<or> deadline \<le> now')"
proof (induction es arbitrary: now data)
  case (Cons e es)
  show ?case
  proof (cases "deadline \<le> now")
    case False
    have "now + fst e \<le> now' \<and> length es' \<le> length es"
      using Cons.prems False Cons.IH [of "now + fst e"]
      by (auto simp: Let_def split: if_splits port_event.splits)
    then show ?thesis by auto
  qed (use Cons.prems in auto)
qed auto

definition onward :: "client \<Rightarrow> client \<Rightarrow> bool" where
  "onward c c' \<longleftrightarrow> cl_timeout c' = cl_timeout c \<and> cl_now c \<le> cl_now c' \<and> length (cl_writes c') \<le> length (cl_writes c)
     \<and> length (cl_input c') \<le> length (cl_input c)"

lemma onward_trans: "onward a b \<Longrightarrow> onward b c \<Longrightarrow> onward a c"
  by (auto simp: onward_def)

lemma read_frame_progress:
  assumes "read_frame c = (r, c')"
  shows "onward c c' \<and> (work c' < work c \<or> cl_now c + cl_timeout c \<le> cl_now c')"
proof -
  obtain now' es' where f: "frame_loop (cl_now c + cl_timeout c) (cl_input c) (cl_now c) [] = (r, now', es')"
    "c' = c\<lparr>cl_now := now', cl_input := es'\<rparr>"
    using assms by (auto simp: read_frame_def split: prod.splits)
  show ?thesis using frame_loop_progress [OF f(1)] f(2) by (auto simp: onward_def work_def)
qed

lemma read_response_progress:
  "read_command_response W D c = (r, c') \<Longrightarrow> onward c c' \<and> (work c' < work c \<or> cl_now c + cl_timeout c \<le> cl_now c')"
proof (induction W D c rule: read_command_response.induct)
  case (1 W D c)
  obtain x c1 where f: "read_frame c = (x, c1)" by force
  note p = read_frame_progress [OF f]
  show ?case
  proof (cases "\<exists>fr v. x = Inr fr \<and> decode_frame W D fr = Inr v \<and> hr_id v = RRxPacket")
    case True
    then obtain fr v where x: "x = Inr fr" "decode_frame W D fr = Inr v" "hr_id v = RRxPacket" by blast
    have "read_command_response W D c1 = (r, c')"
      using 1(2) f x by (subst (asm) read_command_response.simps) simp
    then have "onward c1 c'" using 1(1) [OF f [unfolded x(1), symmetric] refl x(2,3)] by blast
    moreover have "work c1 < work c" using read_frame_shorter [OF f [unfolded x(1)]] p by (auto simp: onward_def work_def)
    ultimately show ?thesis using p onward_trans [of c c1 c'] by (auto simp: onward_def work_def)
  next
    case False
    then have "c' = c1" using 1(2) f by (subst (asm) read_command_response.simps) (auto split: sum.splits if_splits)
    then show ?thesis using p by simp
  qed
qed

lemma drain_loop_onward: "drain_loop now es = (r, now', es') \<Longrightarrow> now \<le> now' \<and> length es' \<le> length es"
  by (induction now es rule: drain_loop.induct) fastforce+

lemma drain_onward: "onward c (snd (drain_buffer c))"
proof -
  have ctl: "onward c (snd (control c))" for c
    by (auto simp: control_def onward_def split: prod.split)
  obtain r now' es' where "drain_loop (cl_now c) (cl_input c) = (r, now', es')" by (metis prod_cases3)
  then show ?thesis
    using drain_loop_onward [of "cl_now c" "cl_input c"]
    by (auto simp: drain_buffer_def control_def onward_def Let_def split: prod.split sum.split)
qed

lemma next_ok_left: "next_ok rs = (ok, rs') \<Longrightarrow> length rs' \<le> length rs \<and> (\<not> ok \<longrightarrow> length rs' < length rs)"
  by (cases rs) (auto simp: next_ok_def)

lemma exchange_progress:
  assumes "exchange_frame W D f c = (r, c')"
  shows "onward c c' \<and> (work c' < work c \<or> cl_now c + cl_timeout c \<le> cl_now c')"
proof -
  obtain ok rs where w: "next_ok (cl_writes c) = (ok, rs)" by force
  obtain ok' rs' where w': "next_ok rs = (ok', rs')" by force
  show ?thesis
  proof (cases "ok \<and> ok'")
    case True
    define c1 where "c1 = c\<lparr>cl_sent := cl_sent c @ f, cl_writes := rs'\<rparr>"
    have "read_command_response_resync W D c1 = (r, c')"
      using assms True w w' by (simp add: exchange_frame_def write_port_def flush_port_def c1_def)
    then obtain x c2 where x: "read_command_response W D c1 = (x, c2)" "c' = c2 \<or> c' = snd (drain_buffer c2)"
      by (auto simp: read_command_response_resync_def split: prod.splits sum.splits)
    have "onward c c1" using next_ok_left [OF w] next_ok_left [OF w'] by (simp add: c1_def onward_def)
    moreover have "onward c2 c'" using x(2) drain_onward [of c2] by (auto simp: onward_def)
    moreover note read_response_progress [OF x(1)]
    moreover have "cl_now c1 = cl_now c" "cl_timeout c1 = cl_timeout c" by (simp_all add: c1_def)
    ultimately show ?thesis by (auto simp: onward_def work_def)
  next
    case False
    then show ?thesis
      using assms w w' next_ok_left [OF w] next_ok_left [OF w']
      by (cases ok; cases ok') (auto simp: exchange_frame_def write_port_def flush_port_def onward_def work_def)
  qed
qed

lemma version_loop_ends:
  "work c + (deadline - cl_now c) < n \<Longrightarrow> 0 < cl_timeout c \<or> deadline \<le> cl_now c \<Longrightarrow>
   version_loop n W D previous deadline c \<noteq> None"
proof (induction n arbitrary: c)
  case (Suc n)
  obtain r c1 where s: "send_command W D HostGetVersion [] c = (r, c1)" by force
  note p = exchange_progress [OF s [unfolded send_command_def]]
  have "version_loop n W D previous deadline c1 \<noteq> None" if "\<not> deadline \<le> cl_now c1"
    by (rule Suc.IH) (use p Suc.prems that in \<open>auto simp: onward_def work_def\<close>)
  then show ?case by (simp add: s Let_def split: sum.split)
qed simp

lemma wait_loop_ends:
  "0 < poll \<Longrightarrow> work c + (deadline - cl_now c) < n \<Longrightarrow> wait_loop n W D poll wanted deadline c \<noteq> None"
proof (induction n arbitrary: c)
  case (Suc n)
  obtain r c1 where f: "read_frame (c\<lparr>cl_timeout := poll\<rparr>) = (r, c1)" by force
  note p = read_frame_progress [OF f]
  have "wait_loop n W D poll wanted deadline (c1\<lparr>cl_timeout := cl_timeout c\<rparr>) \<noteq> None" if "\<not> deadline \<le> cl_now c"
    by (rule Suc.IH) (use p Suc.prems that in \<open>auto simp: onward_def work_def\<close>)
  then show ?case
    by (auto simp: try_read_response_def f Let_def split: sum.split option.split)
qed simp

lemma set_timeout_simps [simp]:
  "cl_now (set_timeout t c) = cl_now c" "cl_timeout (set_timeout t c) = t" "work (set_timeout t c) = work c"
  by (simp_all add: set_timeout_def control_def work_def split: prod.split)

lemma every_wait_ends:
  "get_version W D timeout c \<noteq> None" "wait_ready W D timeout c \<noteq> None"
  "wait_for_rx_packet W D timeout c \<noteq> None" "wait_for_rx_packet_matching W D expected timeout c \<noteq> None"
proof -
  have "get_version W D timeout c \<noteq> None" for timeout c
    unfolding get_version_def Let_def by (rule version_loop_ends) auto
  then show "get_version W D timeout c \<noteq> None" "wait_ready W D timeout c \<noteq> None"
    by (simp_all add: wait_ready_def del: not_None_eq)
  show "wait_for_rx_packet W D timeout c \<noteq> None" "wait_for_rx_packet_matching W D expected timeout c \<noteq> None"
    unfolding wait_for_rx_packet_def wait_for_rx_packet_matching_def by (rule wait_loop_ends; simp)+
qed

subsection \<open>Frames that arrive\<close>

text \<open>
  Events that deliver a frame: its bytes, without a zero, in any number of reads with pauses between
  them, then the delimiter, before the time is over.
\<close>

definition quiet :: "nat \<times> port_event \<Rightarrow> bool" where
  "quiet e \<longleftrightarrow> (case snd e of PortByte b \<Rightarrow> b \<noteq> 0 | PortError t \<Rightarrow> False | _ \<Rightarrow> True)"

fun bytes_in :: "(nat \<times> port_event) list \<Rightarrow> bytes" where
  "bytes_in [] = []"
| "bytes_in ((d, PortByte b) # es) = b # bytes_in es"
| "bytes_in (e # es) = bytes_in es"

definition delivers :: "nat \<Rightarrow> (nat \<times> port_event) list \<Rightarrow> bytes \<Rightarrow> bool" where
  "delivers t es body \<longleftrightarrow>
     (\<exists>front d. es = front @ [(d, PortByte 0)] \<and> list_all quiet front \<and> bytes_in front = body \<and> body \<noteq> []
        \<and> sum_list (map fst front) < t)"

lemma frame_loop_delivers:
  "list_all quiet front \<Longrightarrow> now + sum_list (map fst front) < deadline \<Longrightarrow> data @ bytes_in front \<noteq> [] \<Longrightarrow>
   frame_loop deadline (front @ (d, PortByte 0) # rest) now data =
     (Inr (data @ bytes_in front), now + sum_list (map fst front) + d, rest)"
proof (induction front arbitrary: now data)
  case (Cons e front)
  obtain k x where e: "e = (k, x)" by force
  show ?case using Cons.prems Cons.IH [of "now + k"] by (cases x) (auto simp: e quiet_def Let_def)
qed simp

lemma read_frame_delivers:
  assumes "delivers (cl_timeout c) es body" "cl_input c = es @ rest"
  shows "\<exists>now'. read_frame c = (Inr body, c\<lparr>cl_now := now', cl_input := rest\<rparr>)"
proof -
  obtain front d where f: "es = front @ [(d, PortByte 0)]" "list_all quiet front" "bytes_in front = body" "body \<noteq> []"
    "sum_list (map fst front) < cl_timeout c" using assms(1) by (auto simp: delivers_def)
  then show ?thesis
    using frame_loop_delivers [of front "cl_now c" "cl_now c + cl_timeout c" "[]" d rest] assms(2)
    by (auto simp: read_frame_def intro!: exI [of _ "cl_now c + sum_list (map fst front) + d"])
qed

text \<open>Packets that arrive before the reply are skipped.\<close>

lemma reply_after_packets:
  assumes "\<forall>(es, body) \<in> set packets. delivers (cl_timeout c) es body \<and>
      (\<exists>r. decode_frame W D body = Inr r \<and> hr_id r = RRxPacket)"
    and "delivers (cl_timeout c) es body" "decode_frame W D body = Inr r" "hr_id r \<noteq> RRxPacket"
    and "cl_input c = concat (map fst packets) @ es @ rest"
  shows "\<exists>now'. read_command_response W D c = (Inr r, c\<lparr>cl_now := now', cl_input := rest\<rparr>)"
  using assms
proof (induction packets arbitrary: c)
  case Nil
  obtain now' where "read_frame c = (Inr body, c\<lparr>cl_now := now', cl_input := rest\<rparr>)"
    using read_frame_delivers [OF Nil(2), of rest] Nil(5) by auto
  then show ?case using Nil(3,4) by (subst read_command_response.simps) auto
next
  case (Cons p ps)
  obtain pes pbody where p: "p = (pes, pbody)" by force
  obtain q where q: "delivers (cl_timeout c) pes pbody" "decode_frame W D pbody = Inr q" "hr_id q = RRxPacket"
    using Cons.prems(1) p by auto
  have "cl_input c = pes @ concat (map fst ps) @ es @ rest" using Cons.prems(5) p by simp
  then obtain now' where f: "read_frame c = (Inr pbody, c\<lparr>cl_now := now', cl_input := concat (map fst ps) @ es @ rest\<rparr>)"
    using read_frame_delivers [OF q(1)] by blast
  define c1 where "c1 = c\<lparr>cl_now := now', cl_input := concat (map fst ps) @ es @ rest\<rparr>"
  have "\<exists>now''. read_command_response W D c1 = (Inr r, c1\<lparr>cl_now := now'', cl_input := rest\<rparr>)"
    by (rule Cons.IH) (use Cons.prems in \<open>auto simp: c1_def\<close>)
  then show ?case using f q(2,3) by (subst read_command_response.simps) (auto simp: c1_def)
qed

text \<open>A frame that is cut by the end of a poll: what came before is dropped.\<close>

definition bytes_now :: "bytes \<Rightarrow> (nat \<times> port_event) list" where
  "bytes_now bs = map (\<lambda>b. (0, PortByte b)) bs"

lemma bytes_now_simps: "bytes_in (bytes_now bs) = bs" "sum_list (map fst (bytes_now bs)) = 0"
  "list_all quiet (bytes_now bs) \<longleftrightarrow> 0 \<notin> set bs"
  by (induction bs) (auto simp: bytes_now_def quiet_def)

lemma bytes_now_append: "bytes_now (bs @ [b]) = bytes_now bs @ [(0, PortByte b)]"
  by (simp add: bytes_now_def)

lemma frame_loop_cut:
  "0 \<notin> set bs \<Longrightarrow> now < deadline \<Longrightarrow> deadline \<le> now + d \<Longrightarrow> rest \<noteq> [] \<Longrightarrow>
   frame_loop deadline (bytes_now bs @ (d, PortTimedOut) # rest) now data = (Inl ResponseTimeout, now + d, rest)"
proof (induction bs arbitrary: data)
  case Nil
  then show ?case by (cases rest) (simp_all add: bytes_now_def Let_def)
qed (auto simp: bytes_now_def Let_def)

subsection \<open>A sample\<close>

definition quick_client :: "(nat \<times> port_event) list \<Rightarrow> client" where
  "quick_client es = \<lparr>cl_input = es, cl_writes = [], cl_controls = [], cl_sent = [], cl_now = 0, cl_timeout = 3000\<rparr>"

subsection \<open>Properties\<close>

text \<open>
  C34. The acknowledgement of the hub reaches the host. When the port works, any unsolicited packets
  and then the hub's acknowledgement arrive, each in time and in any pieces, a set command sends the
  one frame and returns what the hub acknowledged, and what follows stays in the port.
\<close>

theorem hub_acks_reach_the_host:
  assumes "wire_ok W D" "encode_response W (ConfigAck a) = Some (body @ [0])"
    and "\<forall>(es, p) \<in> set packets. delivers (cl_timeout c) es p \<and> (\<exists>r. decode_frame W D p = Inr r \<and> hr_id r = RRxPacket)"
    and "delivers (cl_timeout c) es body" "cl_input c = concat (map fst packets) @ es @ rest" "cl_writes c = []"
  shows "\<exists>c'. expect_config_ack W D i payload c =
      (if a = AckOk then Inr () else Inl (AckStatus (Some (ack_status_byte a))), c')
    \<and> cl_sent c' = cl_sent c @ host_cobs_encode W (build_command_payload W (host_hub_command_byte i) payload)
    \<and> cl_input c' = rest"
proof -
  have "hub_response_ok (ConfigAck a)" by simp
  from host_reads_response [OF assms(1) this] obtain r where d: "decode_frame W D body = Inr r" "hr_id r = RConfigAck"
    "hr_payload r = [ack_status_byte a]" using assms(2) by (auto simp: decode_frame_def)
  let ?f = "host_cobs_encode W (build_command_payload W (host_hub_command_byte i) payload)"
  define c1 where "c1 = c\<lparr>cl_sent := cl_sent c @ ?f\<rparr>"
  have w: "write_port ?f c = (True, c1)" "flush_port c1 = (True, c1)"
    using assms(6) by (cases c; simp add: write_port_def flush_port_def next_ok_def c1_def)+
  obtain now' where "read_command_response W D c1 = (Inr r, c1\<lparr>cl_now := now', cl_input := rest\<rparr>)"
    using reply_after_packets [where c = c1 and packets = packets and es = es and rest = rest, OF _ _ d(1)] d(2) assms(3-5)
    by (auto simp: c1_def)
  then have "send_hub_command W D i payload c = (Inr r, c1\<lparr>cl_now := now', cl_input := rest\<rparr>)"
    by (simp add: send_hub_command_def exchange_frame_def w read_command_response_resync_def)
  then show ?thesis
    using d by (cases a) (simp_all add: expect_config_ack_def c1_def)
qed

theorem hub_acks_reach_the_host_witness:
  "\<exists>e c'. encode_response cobs_wire (ConfigAck AckOk) = Some e
     \<and> expect_config_ack cobs_wire cobs_read HostSetMode [0] (quick_client (bytes_now e)) = (Inr (), c')"
proof -
  obtain raw where raw: "encode_response cobs_wire (ConfigAck AckOk) = Some (cobs_frame raw)" "raw \<noteq> []"
  proof -
    have "hub_response_ok (ConfigAck AckOk)" by simp
    from host_reads_response [OF cobs_wire_ok this] obtain e where
      e: "encode_response cobs_wire (ConfigAck AckOk) = Some e" "cobs_read e \<noteq> None"
        "\<exists>r. rbind (host_cobs_decode cobs_read e) (host_parse_response cobs_wire) = Inr r"
      by (auto simp: rbind_Inr_iff host_cobs_decode_def ok_or_Inr_iff)
    have "\<exists>raw. e = cobs_frame raw" using e(1) by (auto simp: encode_response_def cobs_encode_def cobs_wire_def split: if_splits)
    then obtain raw where "e = cobs_frame raw" by blast
    moreover from this have "raw \<noteq> []"
      using e(3) by (auto simp: rbind_Inr_iff host_cobs_decode_def cobs_read_frame host_parse_raw parse_raw_def)
    ultimately show ?thesis using that e(1) by blast
  qed
  obtain body where b: "cobs_frame raw = body @ [0]" "0 \<notin> set body" "body \<noteq> []" using cobs_framed by blast
  have "delivers (cl_timeout (quick_client (bytes_now (body @ [0])))) (bytes_now (body @ [0])) body"
    unfolding delivers_def
    by (rule exI [of _ "bytes_now body"], rule exI [of _ 0]) (use b in \<open>simp add: bytes_now_simps bytes_now_append quick_client_def\<close>)
  from hub_acks_reach_the_host [OF cobs_wire_ok raw(1) [unfolded b(1)], of "[]", OF _ this, of "[]" HostSetMode "[0]"]
  show ?thesis using raw(1) b(1) by (auto simp: quick_client_def)
qed

text \<open>
  Polling loses a frame that is still arriving. When the window of 100 ms ends between two parts of
  a good frame, what came is dropped: the wait for a packet then takes the second part for a frame and
  fails with its error, although the same bytes in a longer window are the packet.
\<close>

theorem polling_splits_a_frame:
  assumes "a \<noteq> []" "b \<noteq> []" "0 \<notin> set (a @ b)" "decode_frame W D (a @ b) = Inr r" "decode_frame W D b = Inl e"
    and "cl_input c = bytes_now a @ (100, PortTimedOut) # bytes_now b @ (0, PortByte 0) # rest" "100 < timeout"
  shows "(\<exists>c'. wait_for_rx_packet W D timeout c = Some (Inl e, c'))
    \<and> fst (try_read_response W D 101 c) = Inr (Some r)"
proof
  define c1 where "c1 = c\<lparr>cl_now := cl_now c + 100, cl_input := bytes_now b @ (0, PortByte 0) # rest\<rparr>"
  have "frame_loop (cl_now c + 100) (cl_input c) (cl_now c) [] = (Inl ResponseTimeout, cl_now c + 100, bytes_now b @ (0, PortByte 0) # rest)"
    unfolding assms(6) using assms(3) by (intro frame_loop_cut) auto
  then have first: "try_read_response W D 100 c = (Inr None, c1)"
    by (cases c) (simp add: try_read_response_def read_frame_def c1_def Let_def)
  have "delivers 100 (bytes_now b @ [(0, PortByte 0)]) b"
    using assms(2,3) by (auto simp: delivers_def bytes_now_simps)
  then obtain now' where "read_frame (c1\<lparr>cl_timeout := 100\<rparr>) = (Inr b, c1\<lparr>cl_timeout := 100, cl_now := now', cl_input := rest\<rparr>)"
    using read_frame_delivers [of "c1\<lparr>cl_timeout := 100\<rparr>" _ b rest] by (auto simp: c1_def)
  then have second: "\<exists>c'. try_read_response W D 100 c1 = (Inl e, c')"
    using assms(5) by (simp add: try_read_response_def Let_def)
  obtain n where n: "work c + timeout + 1 = Suc (Suc n)" using assms(7) by (metis Suc_eq_plus1 add_Suc_right less_imp_Suc_add)
  show "\<exists>c'. wait_for_rx_packet W D timeout c = Some (Inl e, c')"
    unfolding wait_for_rx_packet_def n using first second assms(7) by (auto simp: c1_def)
  have "delivers 101 (bytes_now a @ (100, PortTimedOut) # bytes_now b @ [(0, PortByte 0)]) (a @ b)"
  proof -
    have "bytes_in (bytes_now a @ (100, PortTimedOut) # bytes_now b) = a @ b"
      by (induction a) (simp_all add: bytes_now_def bytes_now_simps [unfolded bytes_now_def])
    then show ?thesis using assms(1,3)
      by (intro delivers_def [THEN iffD2] exI [of _ "bytes_now a @ (100, PortTimedOut) # bytes_now b"] exI [of _ 0])
        (simp add: bytes_now_simps quiet_def)
  qed
  then have "\<exists>now'. read_frame (c\<lparr>cl_timeout := 101\<rparr>) = (Inr (a @ b), c\<lparr>cl_timeout := 101, cl_now := now', cl_input := rest\<rparr>)"
    using read_frame_delivers [of "c\<lparr>cl_timeout := 101\<rparr>" _ "a @ b" rest] assms(6) by simp
  then show "fst (try_read_response W D 101 c) = Inr (Some r)"
    using assms(4) by (auto simp: try_read_response_def Let_def)
qed

theorem polling_splits_a_frame_witness:
  "\<exists>D r c'. decode_frame sample_wire D [1, 2] = Inr r
     \<and> wait_for_rx_packet sample_wire D 3000
         (quick_client (bytes_now [1] @ (100, PortTimedOut) # bytes_now [2] @ [(0, PortByte 0)])) = Some (Inl CobsDecodeError, c')"
proof -
  let ?D = "\<lambda>bs. if bs = [1, 2, 0] then Some (frame sample_wire 0x11 []) else None"
  have "host_parse_response sample_wire (frame sample_wire 0x11 []) =
      Inr \<lparr>hr_version = PROTOCOL_VERSION, hr_id = RRxPacket, hr_payload = []\<rparr>"
    using parse_raw_frame [where p = "[]" and W = sample_wire and i = "0x11" and tail = "[]"] by (simp add: host_parse_raw host_response_from_byte_def)
  then have d: "decode_frame sample_wire ?D ([1] @ [2]) = Inr \<lparr>hr_version = PROTOCOL_VERSION, hr_id = RRxPacket, hr_payload = []\<rparr>"
    "decode_frame sample_wire ?D [2] = Inl CobsDecodeError"
    by (simp_all add: decode_frame_def host_cobs_decode_def)
  from polling_splits_a_frame [OF _ _ _ d, where rest = "[]" and timeout = 3000 and
      c = "quick_client (bytes_now [1] @ (100, PortTimedOut) # bytes_now [2] @ [(0, PortByte 0)])"] d(1)
  show ?thesis by (auto simp: quick_client_def)
qed

end
