(* ===== verification/Hub_Secrecy.thy ===== *)
theory Hub_Secrecy imports Hub_Ctrl begin

text \<open>
  The WiFi password never leaves the hub. \<open>src/hub-protocol/src/types.rs\<close> has no password in its
  responses and the hardware test \<open>src/integration_tests/src/hub_tests.rs\<close> looks for one in the
  configuration echo; here the property is noninterference: two hubs that differ only in passwords,
  stored in flash, baked into the build or set by commands, give the same outputs on both channels over
  any run with reboots, frames included. The flash library may not let the content decide what fails.
\<close>

subsection \<open>Equal but for passwords\<close>

definition blind_config :: "hub_config \<Rightarrow> hub_config" where
  "blind_config c = c\<lparr>cfg_wifi := (cfg_wifi c)\<lparr>password := []\<rparr>\<rparr>"

fun blind_command :: "hub_command \<Rightarrow> hub_command" where
  "blind_command (SetWifiConfig w) = SetWifiConfig (w\<lparr>password := []\<rparr>)"
| "blind_command c = c"

definition blind_env :: "build_env \<Rightarrow> build_env" where
  "blind_env E = E\<lparr>HUB_WIFI_PASSWORD := None\<rparr>"

fun blind_input :: "ctrl_input \<Rightarrow> ctrl_input" where
  "blind_input (FromHost e) = FromHost (e\<lparr>henv_command := blind_command (henv_command e)\<rparr>)"
| "blind_input (FromPortal c) = FromPortal (blind_command c)"

text \<open>\<open>Q\<close> relates flash contents that differ only in passwords.\<close>

definition oblivious :: "('f, 't) flash \<Rightarrow> ('f \<Rightarrow> 'f \<Rightarrow> bool) \<Rightarrow> bool" where
  "oblivious F Q \<longleftrightarrow> (\<forall>f f'. Q f f' \<longrightarrow>
     read_partition_table F f = read_partition_table F f'
     \<and> (\<forall>r. map_sum id (map_option blind_config) (fst (fetch_item F f r CONFIG_KEY))
              = map_sum id (map_option blind_config) (fst (fetch_item F f' r CONFIG_KEY))
          \<and> Q (snd (fetch_item F f r CONFIG_KEY)) (snd (fetch_item F f' r CONFIG_KEY))
          \<and> fst (remove_item F f r CONFIG_KEY) = fst (remove_item F f' r CONFIG_KEY)
          \<and> Q (snd (remove_item F f r CONFIG_KEY)) (snd (remove_item F f' r CONFIG_KEY))
          \<and> (\<forall>c c'. blind_config c = blind_config c' \<longrightarrow>
               fst (store_item F f r CONFIG_KEY c) = fst (store_item F f' r CONFIG_KEY c')
               \<and> Q (snd (store_item F f r CONFIG_KEY c)) (snd (store_item F f' r CONFIG_KEY c')))))"

subsection \<open>Runs\<close>

datatype hub_event = Turn hub_stats u64 ctrl_input | Restart

fun blind_event :: "hub_event \<Rightarrow> hub_event" where
  "blind_event (Turn stats now i) = Turn stats now (blind_input i)"
| "blind_event Restart = Restart"

fun outputs :: "('f, 't) flash \<Rightarrow> build_env \<Rightarrow> wire \<Rightarrow> hub_event list \<Rightarrow> 'f hub_ctrl \<Rightarrow> ctrl_output option list" where
  "outputs F E W [] st = []"
| "outputs F E W (Restart # evs) st = outputs F E W evs (reboot F E st)"
| "outputs F E W (Turn stats now i # evs) st =
     (let (out, st) = hub_ctrl_turn F E W stats now i st in out # outputs F E W evs st)"

subsection \<open>Steps keep hubs alike\<close>

definition store_alike :: "('f \<Rightarrow> 'f \<Rightarrow> bool) \<Rightarrow> 'f config_store option \<Rightarrow> 'f config_store option \<Rightarrow> bool" where
  "store_alike Q a b \<longleftrightarrow> rel_option (\<lambda>s s'. cs_range s = cs_range s' \<and> Q (cs_flash s) (cs_flash s')) a b"

definition alike :: "('f \<Rightarrow> 'f \<Rightarrow> bool) \<Rightarrow> 'f hub_ctrl \<Rightarrow> 'f hub_ctrl \<Rightarrow> bool" where
  "alike Q st st' \<longleftrightarrow> blind_config (hc_pending st) = blind_config (hc_pending st') \<and> store_alike Q (hc_store st) (hc_store st')"

lemma blind_config_eq:
  "blind_config c = blind_config c' \<longleftrightarrow> cfg_version c = cfg_version c' \<and> cfg_mode c = cfg_mode c'
     \<and> ssid (cfg_wifi c) = ssid (cfg_wifi c') \<and> cfg_mqtt c = cfg_mqtt c' \<and> cfg_gateway c = cfg_gateway c'"
  by (cases c; cases c'; cases "cfg_wifi c"; cases "cfg_wifi c'") (auto simp: blind_config_def)

lemma same_response: "blind_config c = blind_config c' \<Longrightarrow> network_config_response c = network_config_response c'"
  by (simp add: blind_config_eq network_config_response_def)

lemma blind_default: "blind_env E = blind_env E' \<Longrightarrow> blind_config (default_config E) = blind_config (default_config E')"
  by (cases E; cases E') (simp add: blind_env_def blind_config_eq default_config_def Let_def split: option.split)

lemma blind_select:
  assumes "map_option blind_config a = map_option blind_config b" "blind_env E = blind_env E'"
  shows "blind_config (select_config E a) = blind_config (select_config E' b)"
  using assms blind_default [OF assms(2)]
  by (cases a; cases b) (auto simp: select_config_def blind_config_eq)

lemma blind_command_cases:
  assumes "blind_command c = blind_command c'"
  obtains "c = c'" | w w' where "c = SetWifiConfig w" "c' = SetWifiConfig w'" "ssid w = ssid w'"
proof (cases c)
  case (SetWifiConfig w)
  then obtain w' where "c' = SetWifiConfig w'" using assms by (cases c') auto
  then show ?thesis using that(2) SetWifiConfig assms by (cases w; cases w') auto
qed (use assms that(1) in \<open>cases c'; auto\<close>)+

lemma alike_apply:
  assumes "blind_config p = blind_config p'" "blind_command c = blind_command c'" "blind_env E = blind_env E'"
  shows "fst (apply_command E p c) = fst (apply_command E' p' c')
    \<and> blind_config (snd (apply_command E p c)) = blind_config (snd (apply_command E' p' c'))"
  using assms(2)
proof (cases rule: blind_command_cases)
  case 1
  then show ?thesis using assms(1) blind_default [OF assms(3)] by (cases c') (auto simp: blind_config_eq)
next
  case (2 w w')
  then show ?thesis using assms(1) by (simp add: blind_config_eq)
qed

lemma alike_persist:
  assumes "oblivious F Q" "store_alike Q s s'" "blind_config p = blind_config p'"
  shows "fst (persist F p action s) = fst (persist F p' action s')
    \<and> store_alike Q (snd (persist F p action s)) (snd (persist F p' action s'))"
proof (cases s)
  case None
  then show ?thesis using assms(2) by (simp add: store_alike_def persist_def)
next
  case (Some a)
  then obtain b where b: "s' = Some b" "cs_range a = cs_range b" "Q (cs_flash a) (cs_flash b)"
    using assms(2) by (auto simp: store_alike_def option_rel_Some1)
  have f: "fst (remove_item F (cs_flash a) r CONFIG_KEY) = fst (remove_item F (cs_flash b) r CONFIG_KEY)"
    "Q (snd (remove_item F (cs_flash a) r CONFIG_KEY)) (snd (remove_item F (cs_flash b) r CONFIG_KEY))"
    "fst (store_item F (cs_flash a) r CONFIG_KEY p) = fst (store_item F (cs_flash b) r CONFIG_KEY p')"
    "Q (snd (store_item F (cs_flash a) r CONFIG_KEY p)) (snd (store_item F (cs_flash b) r CONFIG_KEY p'))" for r
    using assms(1,3) b(3) unfolding oblivious_def by blast+
  show ?thesis using f [of "cs_range b"] b
    by (cases action) (simp_all add: persist_def save_def clear_def Some store_alike_def case_prod_beta Let_def)
qed

lemma handle_writes:
  "\<not> (c = GetNetworkConfig \<or> c = GetHubStatus) \<Longrightarrow> handle F E stats now c st =
     (case apply_command E (hc_pending st) c of
        (Inl status, p) \<Rightarrow> (ConfigAck status, st\<lparr>hc_pending := p\<rparr>)
      | (Inr action, p) \<Rightarrow>
          (case persist F p action (hc_store st) of (status, store) \<Rightarrow> (ConfigAck status, \<lparr>hc_store = store, hc_pending = p\<rparr>)))"
  by (cases c) (auto simp: handle_def Let_def simp del: apply_command.simps split: prod.split sum.split)

lemma alike_handle:
  assumes "oblivious F Q" "alike Q st st'" "blind_command c = blind_command c'" "blind_env E = blind_env E'"
  shows "fst (handle F E stats now c st) = fst (handle F E' stats now c' st')
    \<and> alike Q (snd (handle F E stats now c st)) (snd (handle F E' stats now c' st'))"
proof -
  have al: "blind_config (hc_pending st) = blind_config (hc_pending st')" "store_alike Q (hc_store st) (hc_store st')"
    using assms(2) by (simp_all add: alike_def)
  obtain x p where xp: "apply_command E (hc_pending st) c = (x, p)" by force
  obtain x' p' where xp': "apply_command E' (hc_pending st') c' = (x', p')" by force
  have a: "x' = x" "blind_config p = blind_config p'" using alike_apply [OF al(1) assms(3,4)] xp xp' by simp_all
  show ?thesis
  proof (cases "c = GetNetworkConfig \<or> c = GetHubStatus")
    case True
    then have "c' = c" using blind_command_cases [OF assms(3)] by auto
    then show ?thesis using True assms(2) by (elim disjE) (simp_all add: handle_reads same_response [OF al(1)])
  next
    case False
    then have c': "\<not> (c' = GetNetworkConfig \<or> c' = GetHubStatus)" using blind_command_cases [OF assms(3)] by auto
    show ?thesis
    proof (cases x)
      case (Inl status)
      then show ?thesis using a al by (simp add: handle_writes [OF False] handle_writes [OF c'] xp xp' alike_def)
    next
      case (Inr action)
      then show ?thesis using a alike_persist [OF assms(1) al(2) a(2), of action]
        by (simp add: handle_writes [OF False] handle_writes [OF c'] xp xp' alike_def case_prod_beta)
    qed
  qed
qed

lemma alike_reboot:
  assumes "oblivious F Q" "alike Q st st'" "blind_env E = blind_env E'"
  shows "alike Q (reboot F E st) (reboot F E' st')"
proof (cases "hc_store st")
  case None
  then have "hc_store st' = None" using assms(2) by (simp add: alike_def store_alike_def)
  then show ?thesis using None blind_select [of None None, OF _ assms(3)]
    by (simp add: reboot_def boot_config_def alike_def store_alike_def)
next
  case (Some a)
  then obtain b where b: "hc_store st' = Some b" "cs_range a = cs_range b" "Q (cs_flash a) (cs_flash b)"
    using assms(2) by (auto simp: alike_def store_alike_def option_rel_Some1)
  obtain x f where x: "fetch_item F (cs_flash a) (cs_range b) CONFIG_KEY = (x, f)" by force
  obtain x' f' where x': "fetch_item F (cs_flash b) (cs_range b) CONFIG_KEY = (x', f')" by force
  have q: "map_sum id (map_option blind_config) x = map_sum id (map_option blind_config) x'" "Q f f'"
  proof -
    have "map_sum id (map_option blind_config) (fst (fetch_item F (cs_flash a) (cs_range b) CONFIG_KEY))
        = map_sum id (map_option blind_config) (fst (fetch_item F (cs_flash b) (cs_range b) CONFIG_KEY))"
      "Q (snd (fetch_item F (cs_flash a) (cs_range b) CONFIG_KEY)) (snd (fetch_item F (cs_flash b) (cs_range b) CONFIG_KEY))"
      using assms(1) b(3) unfolding oblivious_def by blast+
    then show "map_sum id (map_option blind_config) x = map_sum id (map_option blind_config) x'" "Q f f'" by (simp_all add: x x')
  qed
  have "map_option blind_config (fst (load F a)) = map_option blind_config (fst (load F b))"
  proof -
    have l: "map_option blind_config (case y of Inr (Some c) \<Rightarrow> Some c | _ \<Rightarrow> None)
        = (case map_sum id (map_option blind_config) y of Inr (Some c) \<Rightarrow> Some c | _ \<Rightarrow> None)" for y :: "unit + hub_config option"
      by (cases y; cases "projr y") simp_all
    show ?thesis using l [of x] l [of x'] q(1) by (simp add: load_def x x' b(2))
  qed
  from blind_select [OF this assms(3)] show ?thesis
    using q(2) by (simp add: reboot_def boot_config_def alike_def store_alike_def Some b(1,2) case_prod_beta)
      (simp add: load_def x x' b(2))
qed

lemma alike_turn:
  assumes "oblivious F Q" "alike Q st st'" "blind_input i = blind_input i'" "blind_env E = blind_env E'"
  shows "fst (hub_ctrl_turn F E W stats now i st) = fst (hub_ctrl_turn F E' W stats now i' st')
    \<and> alike Q (snd (hub_ctrl_turn F E W stats now i st)) (snd (hub_ctrl_turn F E' W stats now i' st'))"
proof (cases i)
  case (FromHost e)
  then obtain e' where e': "i' = FromHost e'" "blind_command (henv_command e) = blind_command (henv_command e')"
    "henv_source e = henv_source e'"
    using assms(3) by (cases i'; cases e; cases "case i' of FromHost e \<Rightarrow> e") auto
  then show ?thesis using alike_handle [OF assms(1,2) e'(2) assms(4), of stats now]
    by (simp add: FromHost hub_ctrl_turn_def case_prod_beta Let_def)
next
  case (FromPortal c)
  then obtain c' where c': "i' = FromPortal c'" "blind_command c = blind_command c'" using assms(3) by (cases i') auto
  then show ?thesis using alike_handle [OF assms(1,2) c'(2) assms(4), of stats now]
    by (simp add: FromPortal hub_ctrl_turn_def case_prod_beta Let_def)
qed

lemma alike_outputs:
  assumes "oblivious F Q" "blind_env E = blind_env E'"
  shows "alike Q st st' \<Longrightarrow> map blind_event evs = map blind_event evs' \<Longrightarrow> outputs F E W evs st = outputs F E' W evs' st'"
proof (induction evs arbitrary: evs' st st')
  case (Cons ev evs)
  obtain ev' rest where evs': "evs' = ev' # rest" "blind_event ev = blind_event ev'" "map blind_event evs = map blind_event rest"
    using Cons.prems(2) by (cases evs') auto
  show ?case
  proof (cases ev)
    case Restart
    then have "ev' = Restart" using evs'(2) by (cases ev') auto
    then show ?thesis using Cons.IH [OF alike_reboot [OF assms(1) Cons.prems(1) assms(2)] evs'(3)] Restart evs'(1) by simp
  next
    case (Turn stats now i)
    then obtain i' where i': "ev' = Turn stats now i'" "blind_input i = blind_input i'" using evs'(2) by (cases ev') auto
    show ?thesis
      using alike_turn [OF assms(1) Cons.prems(1) i'(2) assms(2), of W stats now] Cons.IH [OF _ evs'(3)] Turn i'(1) evs'(1)
      by (auto simp: case_prod_beta Let_def)
  qed
qed simp

lemma alike_boot:
  assumes "oblivious F Q" "Q f f'" "blind_env E = blind_env E'"
  shows "alike Q (boot F E f) (boot F E' f')"
proof -
  have "read_partition_table F f = read_partition_table F f'" using assms(1,2) unfolding oblivious_def by blast
  then have "find_nvs_range F f = find_nvs_range F f'" by (simp add: find_nvs_range_def)
  then have st: "store_alike Q (boot_store F f) (boot_store F f')"
    using assms(2) by (cases "find_nvs_range F f'") (auto simp: boot_store_def new_store_def store_alike_def)
  define p where "p = default_config E"
  have "alike Q \<lparr>hc_store = boot_store F f, hc_pending = p\<rparr> \<lparr>hc_store = boot_store F f', hc_pending = p\<rparr>"
    using st by (simp add: alike_def)
  from alike_reboot [OF assms(1) this assms(3)] show ?thesis by (simp add: reboot_def boot_def)
qed

subsection \<open>The property\<close>

text \<open>
  C37. The WiFi password never leaves the hub. Two hubs boot from flashes that differ only in passwords,
  with builds that differ only in the baked-in password, and serve commands from host and portal that
  differ only in the passwords they set, with reboots at the same places: their outputs on both channels
  are the same, byte for byte. So no sequence of commands reveals anything about a password, not even
  whether there is one.
\<close>

theorem password_never_leaves_the_hub:
  assumes "oblivious F Q" "Q f f'" "blind_env E = blind_env E'" "map blind_event evs = map blind_event evs'"
  shows "outputs F E W evs (boot F E f) = outputs F E' W evs' (boot F E' f')"
  by (rule alike_outputs [OF assms(1,3) alike_boot [OF assms(1-3)] assms(4)])

text \<open>Two flashes of the sample that differ only in passwords.\<close>

definition sample_alike :: "nat \<times> hub_config option \<Rightarrow> nat \<times> hub_config option \<Rightarrow> bool" where
  "sample_alike f f' \<longleftrightarrow> fst f = fst f' \<and> map_option blind_config (snd f) = map_option blind_config (snd f')"

lemma sample_oblivious: "oblivious sample_flash sample_alike"
  by (auto simp: oblivious_def sample_alike_def sample_flash_def)

definition ask_config :: "rtext \<Rightarrow> hub_event list" where
  "ask_config secret =
     [Turn new_stats 0 (FromPortal (SetWifiConfig \<lparr>ssid = lit ''HomeNet'', password = secret\<rparr>)), Restart,
      Turn new_stats 5 (FromPortal GetNetworkConfig)]"

theorem password_never_leaves_the_hub_witness:
  "outputs sample_flash sample_env sample_wire (ask_config (lit ''hunter22secret'')) (boot sample_flash sample_env (0, None))
   = outputs sample_flash sample_env sample_wire (ask_config []) (boot sample_flash sample_env (0, None))"
  by (rule password_never_leaves_the_hub [OF sample_oblivious]) (simp_all add: sample_alike_def ask_config_def)

end
