(* ===== verification/Ble_Client.thy ===== *)
theory Ble_Client imports Host_Client begin

text \<open>
  The Bluetooth client of the tests (\<open>src/integration_tests/src/ble_client.rs\<close>), which drives boards of
  the family over the Nordic UART service: finding and connecting a board, the buffer the notifications
  are appended to, reading whole frames from it, and the waits with their timeouts. The Bluetooth stack
  belongs to another crate: what scans, connections and writes give and when notifications come is
  given. Times are in milliseconds.
\<close>

subsection \<open>The client\<close>

text \<open>Notifications still to come carry the time they arrive at.\<close>

record ble =
  bl_buffer :: bytes
  bl_coming :: "(nat \<times> bytes) list"
  bl_now :: nat
  bl_writes :: "bool list"
  bl_sent :: bytes

definition arrive :: "ble \<Rightarrow> ble" where
  "arrive s =
     (let here = (\<lambda>n. fst n \<le> bl_now s)
      in s\<lparr>bl_buffer := bl_buffer s @ concat (map snd (takeWhile here (bl_coming s))),
           bl_coming := dropWhile here (bl_coming s)\<rparr>)"

definition stream :: "ble \<Rightarrow> bytes" where
  "stream s = bl_buffer s @ concat (map snd (bl_coming s))"

lemma arrive_simps [simp]: "stream (arrive s) = stream s" "bl_now (arrive s) = bl_now s"
proof -
  have "map snd (bl_coming s) = map snd (takeWhile p (bl_coming s)) @ map snd (dropWhile p (bl_coming s))" for p
    by (simp flip: map_append)
  then show "stream (arrive s) = stream s" by (simp add: stream_def arrive_def Let_def flip: concat_append)
qed (simp add: arrive_def Let_def)

subsection \<open>Reading frames\<close>

lemma stream_skip: "dropWhile p (bl_buffer s) \<noteq> [] \<Longrightarrow> length (stream (s\<lparr>bl_buffer := tl (dropWhile p (bl_buffer s))\<rparr>)) < length (stream s)"
  using length_dropWhile_le [of p "bl_buffer s"] by (cases "dropWhile p (bl_buffer s)") (auto simp: stream_def)

text \<open>
  The next whole frame before a deadline. Without one the client sleeps for 10 ms and looks again; a
  sleep that would pass the deadline is cut short and nothing was read.
\<close>

function read_next_response ::
  "wire \<Rightarrow> (bytes \<Rightarrow> bytes option) \<Rightarrow> nat \<Rightarrow> ble \<Rightarrow> (host_error + host_response) option \<times> ble" where
  "read_next_response W D deadline s =
     (let s = arrive s; front = takeWhile (\<lambda>b. b \<noteq> 0) (bl_buffer s); rest = dropWhile (\<lambda>b. b \<noteq> 0) (bl_buffer s)
      in if rest \<noteq> [] then
           if front \<noteq> [] then (Some (decode_frame W D front), s\<lparr>bl_buffer := tl rest\<rparr>)
           else read_next_response W D deadline (s\<lparr>bl_buffer := tl rest\<rparr>)
         else if deadline < bl_now s + 10 then (None, s\<lparr>bl_now := max (bl_now s) deadline\<rparr>)
         else read_next_response W D deadline (s\<lparr>bl_now := bl_now s + 10\<rparr>))"
  by pat_completeness auto

termination
proof (relation "measures [\<lambda>(W, D, deadline, s). deadline - bl_now s, \<lambda>(W, D, deadline, s). length (stream s)]")
  fix deadline s x front rest
  assume x: "x = arrive s" "front = takeWhile (\<lambda>b. b \<noteq> 0) (bl_buffer x)" "rest = dropWhile (\<lambda>b. b \<noteq> 0) (bl_buffer x)"
  fix W D
  show "rest \<noteq> [] \<Longrightarrow> ((W, D, deadline, x\<lparr>bl_buffer := tl rest\<rparr>), (W, D, deadline, s))
      \<in> measures [\<lambda>(W, D, deadline, s). deadline - bl_now s, \<lambda>(W, D, deadline, s). length (stream s)]"
    using stream_skip [of "\<lambda>b. b \<noteq> 0" x] x by simp
  show "\<not> deadline < bl_now x + 10 \<Longrightarrow> ((W, D, deadline, x\<lparr>bl_now := bl_now x + 10\<rparr>), (W, D, deadline, s))
      \<in> measures [\<lambda>(W, D, deadline, s). deadline - bl_now s, \<lambda>(W, D, deadline, s). length (stream s)]"
    using x by auto
qed simp_all

declare read_next_response.simps [simp del]

text \<open>The frames of a stream: the non-empty parts before its delimiters.\<close>

fun frames_after :: "bytes \<Rightarrow> bytes \<Rightarrow> bytes list" where
  "frames_after front [] = []"
| "frames_after front (b # bs) =
     (if b = 0 then (if front = [] then frames_after [] bs else front # frames_after [] bs)
      else frames_after (front @ [b]) bs)"

abbreviation frames_in :: "bytes \<Rightarrow> bytes list" where
  "frames_in \<equiv> frames_after []"

lemma frames_front: "0 \<notin> set front \<Longrightarrow> frames_after acc (front @ bs) = frames_after (acc @ front) bs"
  by (induction front arbitrary: acc) auto

lemma frames_cut:
  assumes "dropWhile (\<lambda>b. b \<noteq> 0) buf \<noteq> []"
  shows "frames_in (buf @ bs) =
    (if takeWhile (\<lambda>b. b \<noteq> 0) buf = [] then frames_in (tl (dropWhile (\<lambda>b. b \<noteq> 0) buf) @ bs)
     else takeWhile (\<lambda>b. b \<noteq> 0) buf # frames_in (tl (dropWhile (\<lambda>b. b \<noteq> 0) buf) @ bs))"
proof -
  let ?t = "takeWhile (\<lambda>b. b \<noteq> 0) buf" and ?d = "dropWhile (\<lambda>b. b \<noteq> 0) buf"
  have d: "?d = 0 # tl ?d" using hd_dropWhile [OF assms] assms by (metis list.collapse)
  have "0 \<notin> set ?t" by (auto dest: set_takeWhileD)
  from frames_front [OF this, of "[]" "0 # tl ?d @ bs"] show ?thesis
    using d by (metis append.left_neutral append_Cons append_assoc frames_after.simps(2) takeWhile_dropWhile_id)
qed

lemma no_frames: "dropWhile (\<lambda>b. b \<noteq> 0) buf = [] \<Longrightarrow> frames_after acc buf = []"
  by (induction buf arbitrary: acc) (auto split: if_splits)

text \<open>A read takes the first frame, or leaves all of them.\<close>

lemma read_next_frames:
  "read_next_response W D deadline s = (r, s') \<Longrightarrow>
   (case r of
      None \<Rightarrow> frames_in (stream s') = frames_in (stream s)
        \<and> (list_all (\<lambda>n. fst n + 10 \<le> deadline) (bl_coming s) \<longrightarrow> frames_in (stream s) = [])
    | Some x \<Rightarrow> \<exists>f. frames_in (stream s) = f # frames_in (stream s') \<and> x = decode_frame W D f)
   \<and> length (stream s') \<le> length (stream s) \<and> (r \<noteq> None \<longrightarrow> length (stream s') < length (stream s))
   \<and> set (bl_coming s') \<subseteq> set (bl_coming s)"
proof (induction W D deadline s arbitrary: r s' rule: read_next_response.induct)
  case (1 W D deadline s)
  define x where "x = arrive s"
  let ?front = "takeWhile (\<lambda>b. b \<noteq> 0) (bl_buffer x)" and ?rest = "dropWhile (\<lambda>b. b \<noteq> 0) (bl_buffer x)"
  have x: "stream s = stream x" "bl_now s = bl_now x" "set (bl_coming x) \<subseteq> set (bl_coming s)"
    by (simp_all add: x_def) (auto simp: arrive_def Let_def dest: set_dropWhileD)
  have skip: "stream (x\<lparr>bl_buffer := tl ?rest\<rparr>) = tl ?rest @ concat (map snd (bl_coming x))"
    "stream (x\<lparr>bl_now := t\<rparr>) = stream x" for t
    by (simp_all add: stream_def)
  note eq = read_next_response.simps [of W D deadline s, folded x_def, unfolded Let_def]
  consider (frame) "?rest \<noteq> []" "?front \<noteq> []" | (empty) "?rest \<noteq> []" "?front = []"
    | (late) "?rest = []" "deadline < bl_now x + 10" | (sleep) "?rest = []" "\<not> deadline < bl_now x + 10" by blast
  then show ?case
  proof cases
    case frame
    then have "r = Some (decode_frame W D ?front)" "s' = x\<lparr>bl_buffer := tl ?rest\<rparr>" using 1(3) eq by simp_all
    then show ?thesis
      using frames_cut [OF frame(1), of "concat (map snd (bl_coming x))"] frame(2) stream_skip [OF frame(1)] x skip(1)
      by (auto simp: stream_def [of x])
  next
    case empty
    then have "read_next_response W D deadline (x\<lparr>bl_buffer := tl ?rest\<rparr>) = (r, s')" using 1(3) eq by simp
    from 1(1) [OF x_def refl refl empty(1) _ this] empty(2) show ?thesis
      using frames_cut [OF empty(1), of "concat (map snd (bl_coming x))"] stream_skip [OF empty(1)] x skip(1)
      by (auto simp: stream_def [of x] list_all_iff split: option.splits)
  next
    case late
    then have r: "r = None" "s' = x\<lparr>bl_now := max (bl_now x) deadline\<rparr>" using 1(3) eq by simp_all
    have "frames_in (stream x) = []" if "list_all (\<lambda>n. fst n + 10 \<le> deadline) (bl_coming s)"
    proof -
      have "\<forall>n \<in> set (bl_coming s). fst n \<le> bl_now s" using that late(2) x(2) by (fastforce simp: list_all_iff)
      then have "bl_coming x = []" by (simp add: x_def arrive_def Let_def)
      then show ?thesis using no_frames [OF late(1)] by (simp add: stream_def)
    qed
    then show ?thesis using x r by (simp add: skip(2))
  next
    case sleep
    then have "read_next_response W D deadline (x\<lparr>bl_now := bl_now x + 10\<rparr>) = (r, s')" using 1(3) eq by simp
    from 1(2) [OF x_def refl refl _ sleep(2) this] sleep(1) show ?thesis
      using x by (auto simp: skip(2) list_all_iff split: option.splits)
  qed
qed

subsection \<open>Waiting\<close>

text \<open>Frames are read until one is wanted; all the reads share one deadline.\<close>

function wait_response ::
  "wire \<Rightarrow> (bytes \<Rightarrow> bytes option) \<Rightarrow> (host_response \<Rightarrow> bool) \<Rightarrow> nat \<Rightarrow> ble \<Rightarrow> (host_error + host_response) \<times> ble" where
  "wait_response W D wanted deadline s =
     (case read_next_response W D deadline s of
        (None, s) \<Rightarrow> (Inl ResponseTimeout, s)
      | (Some (Inl e), s) \<Rightarrow> (Inl e, s)
      | (Some (Inr r), s) \<Rightarrow> if wanted r then (Inr r, s) else wait_response W D wanted deadline s)"
  by pat_completeness auto

termination
  by (relation "measure (\<lambda>(W, D, wanted, deadline, s). length (stream s))") (auto dest: read_next_frames [OF sym])

declare wait_response.simps [simp del]

definition within :: "(nat \<Rightarrow> ble \<Rightarrow> 'x \<times> ble) \<Rightarrow> nat \<Rightarrow> ble \<Rightarrow> 'x \<times> ble" where
  "within f timeout s = f (bl_now s + timeout) s"

definition wait_for_response ::
  "wire \<Rightarrow> (bytes \<Rightarrow> bytes option) \<Rightarrow> nat \<Rightarrow> ble \<Rightarrow> (host_error + host_response) \<times> ble" where
  "wait_for_response W D = within (wait_response W D (\<lambda>r. hr_id r \<noteq> RRxPacket))"

definition wait_for_response_expecting ::
  "wire \<Rightarrow> (bytes \<Rightarrow> bytes option) \<Rightarrow> host_response_id \<Rightarrow> nat \<Rightarrow> ble \<Rightarrow> (host_error + host_response) \<times> ble" where
  "wait_for_response_expecting W D expected =
     within (wait_response W D (\<lambda>r. \<not> (hr_id r = RRxPacket) \<and> \<not> (hr_id r = RVersion \<and> expected \<noteq> RVersion)))"

definition ble_try_read_response ::
  "wire \<Rightarrow> (bytes \<Rightarrow> bytes option) \<Rightarrow> nat \<Rightarrow> ble \<Rightarrow> (host_error + host_response option) \<times> ble" where
  "ble_try_read_response W D timeout s =
     (case wait_for_response W D timeout s of
        (Inr r, s) \<Rightarrow> (Inr (Some r), s)
      | (Inl e, s) \<Rightarrow> (if is_timeout e then Inr None else Inl e, s))"

definition ble_wait_for_rx_packet ::
  "wire \<Rightarrow> (bytes \<Rightarrow> bytes option) \<Rightarrow> nat \<Rightarrow> ble \<Rightarrow> (host_error + host_response) \<times> ble" where
  "ble_wait_for_rx_packet W D = within (wait_response W D (\<lambda>r. hr_id r = RRxPacket))"

definition ble_wait_for_rx_packet_matching ::
  "wire \<Rightarrow> (bytes \<Rightarrow> bytes option) \<Rightarrow> bytes \<Rightarrow> nat \<Rightarrow> ble \<Rightarrow> (host_error + host_response) \<times> ble" where
  "ble_wait_for_rx_packet_matching W D expected =
     within (wait_response W D (\<lambda>r. hr_id r = RRxPacket \<and> 3 \<le> length (hr_payload r)
       \<and> take (length (hr_payload r) - 3) (hr_payload r) = expected))"

subsection \<open>Commands\<close>

definition ble_clear :: "ble \<Rightarrow> ble" where
  "ble_clear s = (arrive s)\<lparr>bl_buffer := []\<rparr>"

definition ble_write :: "bytes \<Rightarrow> ble \<Rightarrow> bool \<times> ble" where
  "ble_write fr s =
     (let (ok, rs) = next_ok (bl_writes s)
      in (ok, if ok then s\<lparr>bl_writes := rs, bl_sent := bl_sent s @ fr\<rparr> else s\<lparr>bl_writes := rs\<rparr>))"

fun expected_reply :: "host_command_id \<Rightarrow> host_response_id" where
  "expected_reply HostGetVersion = RVersion"
| "expected_reply HostReboot = RVersion"
| "expected_reply HostLoraTx = RTxComplete"
| "expected_reply HostSetSpreadingFactor = RRadioConfig"
| "expected_reply HostGetRadioConfig = RRadioConfig"

definition ble_send_command ::
  "wire \<Rightarrow> (bytes \<Rightarrow> bytes option) \<Rightarrow> host_command_id \<Rightarrow> bytes \<Rightarrow> nat \<Rightarrow> ble \<Rightarrow> (host_error + host_response) \<times> ble" where
  "ble_send_command W D cmd_id payload timeout s =
     (let (ok, s) = ble_write (build_command W cmd_id payload) (ble_clear s)
      in if ok then wait_for_response_expecting W D (expected_reply cmd_id) timeout s else (Inl (PortFailed []), s))"

definition ble_send_raw_command ::
  "wire \<Rightarrow> (bytes \<Rightarrow> bytes option) \<Rightarrow> u8 \<Rightarrow> bytes \<Rightarrow> nat \<Rightarrow> ble \<Rightarrow> (host_error + host_response) \<times> ble" where
  "ble_send_raw_command W D cmd_id payload timeout s =
     (let (ok, s) = ble_write (host_cobs_encode W (build_command_payload W cmd_id payload)) (ble_clear s)
      in if ok then wait_for_response_expecting W D RError timeout s else (Inl (PortFailed []), s))"

definition ble_lora_tx :: "wire \<Rightarrow> (bytes \<Rightarrow> bytes option) \<Rightarrow> bytes \<Rightarrow> nat \<Rightarrow> ble \<Rightarrow> (host_error + host_response) \<times> ble" where
  "ble_lora_tx W D data = ble_send_command W D HostLoraTx data"

definition ble_set_spreading_factor ::
  "wire \<Rightarrow> (bytes \<Rightarrow> bytes option) \<Rightarrow> u8 \<Rightarrow> nat \<Rightarrow> ble \<Rightarrow> (host_error + unit) \<times> ble" where
  "ble_set_spreading_factor W D sf timeout s =
     (let (r, s) = ble_send_command W D HostSetSpreadingFactor [sf] timeout s
      in (rbind r (\<lambda>r. if 4 < length (hr_payload r) \<and> hr_payload r ! 4 = sf then Inr () else Inl (NotApplied sf)), s))"

subsection \<open>Finding a board\<close>

text \<open>
  What a scan sees at a time: the boards with their names, or an error; asking a board for its
  properties may fail too. The first board whose name starts with the given one is taken; between two
  looks the client sleeps for 100 ms.
\<close>

type_synonym peripheral = "(rtext option option) option"

fun first_named :: "rtext \<Rightarrow> nat \<Rightarrow> peripheral list \<Rightarrow> host_error + nat option" where
  "first_named name i [] = Inr None"
| "first_named name i (None # ps) = Inl (PortFailed [])"
| "first_named name i (Some (Some (Some local_name)) # ps) =
     (if take (length name) local_name = name then Inr (Some i) else first_named name (i + 1) ps)"
| "first_named name i (Some p # ps) = first_named name (i + 1) ps"

primrec find_device_loop ::
  "nat \<Rightarrow> (nat \<Rightarrow> peripheral list option) \<Rightarrow> rtext \<Rightarrow> nat \<Rightarrow> nat \<Rightarrow> (host_error + nat) option" where
  "find_device_loop 0 scan name timeout elapsed = None"
| "find_device_loop (Suc n) scan name timeout elapsed =
     (if timeout \<le> elapsed then Some (Inl NoPort)
      else case scan elapsed of
          None \<Rightarrow> Some (Inl (PortFailed []))
        | Some ps \<Rightarrow>
            (case first_named name 0 ps of
               Inl e \<Rightarrow> Some (Inl e)
             | Inr (Some i) \<Rightarrow> Some (Inr i)
             | Inr None \<Rightarrow> find_device_loop n scan name timeout (elapsed + 100)))"

definition find_device_by_name :: "(nat \<Rightarrow> peripheral list option) \<Rightarrow> rtext \<Rightarrow> nat \<Rightarrow> (host_error + nat) option" where
  "find_device_by_name scan name timeout = find_device_loop (timeout div 100 + 2) scan name timeout 0"

lemma find_device_loop_ends: "timeout \<le> elapsed + 100 * n \<Longrightarrow> find_device_loop (Suc n) scan name timeout elapsed \<noteq> None"
proof (induction n arbitrary: elapsed)
  case (Suc n)
  have "find_device_loop (Suc n) scan name timeout (elapsed + 100) \<noteq> None" using Suc by simp
  then show ?case by (subst find_device_loop.simps) (simp split: option.split sum.split del: find_device_loop.simps)
qed simp

lemma find_device_ends: "find_device_by_name scan name timeout \<noteq> None"
proof -
  have "timeout \<le> 0 + 100 * (timeout div 100 + 1)" by (simp add: less_imp_le dividend_less_times_div)
  from find_device_loop_ends [OF this] show ?thesis by (simp add: find_device_by_name_def)
qed

subsection \<open>What the waits read\<close>

text \<open>The results a stream still holds for a wait: the errors, and the responses that are wanted.\<close>

definition wanted_in ::
  "wire \<Rightarrow> (bytes \<Rightarrow> bytes option) \<Rightarrow> (host_response \<Rightarrow> bool) \<Rightarrow> bytes \<Rightarrow> (host_error + host_response) list" where
  "wanted_in W D wanted bs =
     filter (\<lambda>x. case x of Inl e \<Rightarrow> True | Inr r \<Rightarrow> wanted r) (map (decode_frame W D) (frames_in bs))"

lemma decode_no_timeout: "decode_frame W D fr = Inl e \<Longrightarrow> \<not> is_timeout e"
  by (auto simp: decode_frame_def host_cobs_decode_def host_parse_response_def result_iff Let_def split: if_splits)

definition timed_out :: "host_error + 'x \<Rightarrow> bool" where
  "timed_out r \<longleftrightarrow> (case r of Inl e \<Rightarrow> is_timeout e | Inr _ \<Rightarrow> False)"

lemma wait_reads:
  "wait_response W D wanted deadline s = (r, s') \<Longrightarrow>
   set (bl_coming s') \<subseteq> set (bl_coming s) \<and>
   (if timed_out r then wanted_in W D wanted (stream s') = wanted_in W D wanted (stream s)
      \<and> (list_all (\<lambda>n. fst n + 10 \<le> deadline) (bl_coming s) \<longrightarrow> wanted_in W D wanted (stream s) = [])
    else wanted_in W D wanted (stream s) = r # wanted_in W D wanted (stream s'))"
proof (induction W D wanted deadline s arbitrary: r s' rule: wait_response.induct)
  case (1 W D wanted deadline s)
  obtain q s1 where q: "read_next_response W D deadline s = (q, s1)" by force
  note rd = read_next_frames [OF q]
  note eq = wait_response.simps [of W D wanted deadline s, unfolded q]
  show ?case
  proof (cases q)
    case None
    then have "r = Inl ResponseTimeout" "s' = s1" using 1(2) eq by simp_all
    then show ?thesis using rd None by (auto simp: timed_out_def wanted_in_def)
  next
    case (Some x)
    obtain f where f: "frames_in (stream s) = f # frames_in (stream s1)" "x = decode_frame W D f" using rd Some by auto
    show ?thesis
    proof (cases x)
      case (Inl e)
      then have "r = Inl e" "s' = s1" using 1(2) eq Some by simp_all
      moreover have "decode_frame W D f = Inl e" using f(2) Inl by simp
      ultimately show ?thesis using rd Some f(1) decode_no_timeout [of W D f e] by (simp add: timed_out_def wanted_in_def)
    next
      case (Inr resp)
      show ?thesis
      proof (cases "wanted resp")
        case True
        then have "r = Inr resp" "s' = s1" using 1(2) eq Some Inr by simp_all
        moreover have "decode_frame W D f = Inr resp" using f(2) Inr by simp
        ultimately show ?thesis using rd Some f(1) True by (simp add: timed_out_def wanted_in_def)
      next
        case False
        then have "wait_response W D wanted deadline s1 = (r, s')" using 1(2) eq Some Inr by simp
        moreover have "wanted_in W D wanted (stream s) = wanted_in W D wanted (stream s1)"
          using f(1) False f(2) [symmetric, unfolded Inr] by (simp add: wanted_in_def)
        moreover have "set (bl_coming s1) \<subseteq> set (bl_coming s)" using rd by simp
        ultimately show ?thesis using 1(1) [OF q [symmetric] Some Inr False]
          by (auto simp: list_all_iff split: if_splits)
      qed
    qed
  qed
qed

text \<open>Polling: waits with the given timeouts, one after the other, and what they return but timeouts.\<close>

fun ble_polls ::
  "wire \<Rightarrow> (bytes \<Rightarrow> bytes option) \<Rightarrow> (host_response \<Rightarrow> bool) \<Rightarrow> nat list \<Rightarrow> ble \<Rightarrow> (host_error + host_response) list \<times> ble" where
  "ble_polls W D wanted [] s = ([], s)"
| "ble_polls W D wanted (t # ts) s =
     (let (r, s) = within (wait_response W D wanted) t s; (rs, s) = ble_polls W D wanted ts s
      in (if timed_out r then rs else r # rs, s))"

lemma ble_polls_read:
  "ble_polls W D wanted ts s = (rs, s') \<Longrightarrow> wanted_in W D wanted (stream s) = rs @ wanted_in W D wanted (stream s')"
proof (induction ts arbitrary: s rs)
  case (Cons t ts)
  obtain r s1 where r: "wait_response W D wanted (bl_now s + t) s = (r, s1)" by force
  obtain qs where q: "ble_polls W D wanted ts s1 = (qs, s')" "rs = (if timed_out r then qs else r # qs)"
    using Cons.prems by (auto simp: within_def r split: prod.splits)
  show ?case using wait_reads [OF r] Cons.IH [OF q(1)] q(2) by (simp split: if_splits)
qed simp

subsection \<open>Properties\<close>

text \<open>
  C38. Polling over Bluetooth loses nothing. Whatever timeouts a test polls with, and however
  notifications cut the frames, the results are those of the frames of the byte stream, in order and
  each once, and a timeout leaves what was read so far for the next wait: what is left in the stream is
  what was not returned yet. A wait that ends 10 ms after the last notification or later times out only
  if nothing wanted is left. (The polls over the serial port split frames instead.)
\<close>

theorem ble_polling_loses_nothing:
  assumes "ble_polls W D wanted ts s = (rs, s')"
  shows "wanted_in W D wanted (stream s) = rs @ wanted_in W D wanted (stream s')
    \<and> (timed_out (fst (within (wait_response W D wanted) t s')) \<longrightarrow>
         list_all (\<lambda>n. fst n + 10 \<le> bl_now s' + t) (bl_coming s') \<longrightarrow> wanted_in W D wanted (stream s') = [])"
proof -
  obtain r s1 where r: "wait_response W D wanted (bl_now s' + t) s' = (r, s1)" by force
  show ?thesis using ble_polls_read [OF assms] wait_reads [OF r] by (simp add: within_def r)
qed

text \<open>A frame cut by two notifications 150 ms apart, polled every 100 ms.\<close>

definition cut_frame :: ble where
  "cut_frame = \<lparr>bl_buffer = [], bl_coming = [(0, [3, 1]), (150, [2, 0])], bl_now = 0, bl_writes = [], bl_sent = []\<rparr>"

theorem ble_polling_loses_nothing_witness:
  "wanted_in cobs_wire cobs_read (\<lambda>r. True) (stream cut_frame) = [Inl ResponseTooShort]
   \<and> (\<exists>s'. ble_polls cobs_wire cobs_read (\<lambda>r. True) [100, 100] cut_frame = ([Inl ResponseTooShort], s')
        \<and> wanted_in cobs_wire cobs_read (\<lambda>r. True) (stream s') = [])"
proof -
  obtain rs s' where p: "ble_polls cobs_wire cobs_read (\<lambda>r. True) [100, 100] cut_frame = (rs, s')" by force
  have "wanted_in cobs_wire cobs_read (\<lambda>r. True) (stream cut_frame) = [Inl ResponseTooShort]"
    by (simp add: wanted_in_def stream_def cut_frame_def decode_frame_def host_cobs_decode_def cobs_read_def host_parse_response_def)
  moreover have "rs = [Inl ResponseTooShort]"
    using p by (simp add: within_def cut_frame_def wait_response.simps read_next_response.simps arrive_def Let_def timed_out_def
        decode_frame_def host_cobs_decode_def cobs_read_def host_parse_response_def)
  ultimately show ?thesis using ble_polling_loses_nothing [OF p, of 100] p by simp
qed

end
