(* ===== verification/Driver_Tests.thy ===== *)
theory Driver_Tests imports Sx1262_Driver begin

text \<open>
  The host tests of the SX1262 driver (module \<open>host_tests\<close> of \<open>src/lora/driver.rs\<close>) as functions of
  the model: each drives a new driver over the recording bus and checks the frames it sent. A test
  passes when it ends without a failed \<open>expect\<close> or assertion. Proving that they pass ties the model
  to what the repository asserts of the code. The parameter is \<open>MAX_LORA_PAYLOAD\<close> of the protocol crate.
\<close>

subsection \<open>Looking at the recorded writes\<close>

definition writes :: "'w recorded driver \<Rightarrow> bytes list" where
  "writes d = acked (events (world d))"

fun position :: "('a \<Rightarrow> bool) \<Rightarrow> 'a list \<Rightarrow> nat option" where
  "position P [] = None"
| "position P (x # xs) = (if P x then Some 0 else map_option Suc (position P xs))"

definition rposition :: "('a \<Rightarrow> bool) \<Rightarrow> 'a list \<Rightarrow> nat option" where
  "rposition P xs = map_option (\<lambda>i. length xs - 1 - i) (position P (rev xs))"

definition get_at :: "'a list \<Rightarrow> nat \<Rightarrow> 'a option" where
  "get_at xs i = (if i < length xs then Some (xs ! i) else None)"

definition first_index :: "bytes list \<Rightarrow> u8 \<Rightarrow> nat option" where
  "first_index ws opcode = position (\<lambda>w. get_at w 0 = Some opcode) ws"

definition writes_register :: "u16 \<Rightarrow> bytes \<Rightarrow> bool" where
  "writes_register addr w \<longleftrightarrow> get_at w 0 = Some WRITE_REGISTER
     \<and> get_at w 1 = Some (ucast (drop_bit 8 addr)) \<and> get_at w 2 = Some (ucast addr)"

definition first_register_write :: "bytes list \<Rightarrow> u16 \<Rightarrow> nat option" where
  "first_register_write ws addr = position (writes_register addr) ws"

definition last_register_value :: "bytes list \<Rightarrow> u16 \<Rightarrow> u8 option" where
  "last_register_value ws addr =
     (case find (writes_register addr) (rev ws) of None \<Rightarrow> None | Some w \<Rightarrow> get_at w 3)"

text \<open>The write at an index, and an \<open>expect\<close> whose failure ends the test.\<close>

definition byte_at :: "bytes list \<Rightarrow> nat \<Rightarrow> nat \<Rightarrow> u8 option" where
  "byte_at ws i k = (if i < length ws then get_at (ws ! i) k else None)"

definition expect :: "'a option \<Rightarrow> ('a \<Rightarrow> bool) \<Rightarrow> bool" where
  "expect x f = (case x of None \<Rightarrow> False | Some v \<Rightarrow> f v)"

definition expect_ok :: "(lora_error + 'a) \<times> 'd \<Rightarrow> ('d \<Rightarrow> bool) \<Rightarrow> bool" where
  "expect_ok r f = (is_ok (fst r) \<and> f (snd r))"

subsection \<open>The tests\<close>

abbreviation bus :: "nat \<Rightarrow> unit recorded hal" where
  "bus n \<equiv> recording (host_test_hal n)"

definition init_calibrates_after_tcxo_and_image_after_frequency :: "nat \<Rightarrow> bool" where
  "init_calibrates_after_tcxo_and_image_after_frequency n =
     expect_ok (driver_init (bus n) (build_driver ())) (\<lambda>d. let ws = writes d in
       expect (first_index ws SET_DIO3_AS_TCXO_CTRL) (\<lambda>tcxo.
       expect (first_index ws CALIBRATE) (\<lambda>calibrate.
         tcxo < calibrate \<and> byte_at ws calibrate 1 = Some CALIBRATE_ALL \<and>
       expect (first_index ws SET_RF_FREQUENCY) (\<lambda>frequency.
       expect (first_index ws CALIBRATE_IMAGE) (\<lambda>image.
         frequency < image \<and> byte_at ws image 1 = Some 0xD7 \<and> byte_at ws image 2 = Some 0xDB)))))"

definition calibrate_image_emits_band_bytes :: "nat \<Rightarrow> bool" where
  "calibrate_image_emits_band_bytes n =
     expect_ok (calibrate_image (bus n) 915000000 (build_driver ())) (\<lambda>d. let ws = writes d in
       expect (first_index ws CALIBRATE_IMAGE) (\<lambda>image.
         byte_at ws image 1 = Some 0xE1 \<and> byte_at ws image 2 = Some 0xE9))"

definition init_sets_regulator_clamp_errors_and_ocp_order :: "nat \<Rightarrow> bool" where
  "init_sets_regulator_clamp_errors_and_ocp_order n =
     expect_ok (driver_init (bus n) (build_driver ())) (\<lambda>d. let ws = writes d in
       expect (first_index ws SET_STANDBY) (\<lambda>standby.
       expect (first_index ws SET_REGULATOR_MODE) (\<lambda>regulator.
         byte_at ws regulator 1 = Some 0x01 \<and> standby < regulator \<and>
       expect (first_index ws CALIBRATE) (\<lambda>calibrate.
       expect (first_index ws CLEAR_DEVICE_ERRORS) (\<lambda>clear_errors.
         calibrate < clear_errors \<and>
       expect (first_register_write ws TX_CLAMP_CONFIG) (\<lambda>clamp.
       expect (byte_at ws clamp 3) (\<lambda>clamp_value.
         clamp_value AND 0x1E = 0x1E \<and>
       expect (first_index ws SET_PA_CONFIG) (\<lambda>pa_config.
       expect (first_register_write ws OCP_CONFIGURATION) (\<lambda>ocp.
         pa_config < ocp)))))))))"

definition init_applies_sf11_default :: "nat \<Rightarrow> bool" where
  "init_applies_sf11_default n =
     expect_ok (driver_init (bus n) (build_driver ())) (\<lambda>d. let ws = writes d in
       expect (first_index ws SET_MODULATION_PARAMS) (\<lambda>modulation.
         byte_at ws modulation 1 = Some 11 \<and> byte_at ws modulation 2 = Some 0x05
         \<and> byte_at ws modulation 4 = Some 0x00))"

definition transmit_rejects_payload_over_255_bytes :: "nat \<Rightarrow> bool" where
  "transmit_rejects_payload_over_255_bytes n =
     expect_ok (driver_init (bus n) (build_driver ())) (\<lambda>d.
       case driver_transmit (bus n) (replicate 256 0xAA) d of
         (r, d) \<Rightarrow> r = Inl InvalidConfig \<and> first_index (writes d) SET_TX = None)"

definition transmit_accepts_255_byte_payload :: "nat \<Rightarrow> bool" where
  "transmit_accepts_255_byte_payload n =
     expect_ok (driver_init (bus n) (build_driver ())) (\<lambda>d.
       case driver_transmit (bus n) (replicate 255 0x55) d of
         (r, d) \<Rightarrow> r = Inl Timeout \<and> first_index (writes d) SET_TX \<noteq> None \<and>
           expect (rposition (\<lambda>w. get_at w 0 = Some SET_PACKET_PARAMS) (writes d)) (\<lambda>params.
             byte_at (writes d) params 4 = Some 255))"

definition count_of :: "bytes list \<Rightarrow> u8 \<Rightarrow> nat" where
  "count_of ws opcode = length (filter (\<lambda>w. get_at w 0 = Some opcode) ws)"

definition standby_clears_continuous_rx_and_arm_rearms :: "nat \<Rightarrow> bool" where
  "standby_clears_continuous_rx_and_arm_rearms n =
     expect_ok (driver_init (bus n) (build_driver ())) (\<lambda>d. in_continuous_rx d \<and>
       expect_ok (driver_set_standby (bus n) d) (\<lambda>d. \<not> in_continuous_rx d \<and>
         (let rx_before = count_of (writes d) SET_RX in
          expect_ok (driver_arm_receive (bus n) d) (\<lambda>d. in_continuous_rx d
            \<and> count_of (writes d) SET_RX = rx_before + 1))))"

definition wait_rx_event_times_out_without_spi_traffic :: "nat \<Rightarrow> bool" where
  "wait_rx_event_times_out_without_spi_traffic n =
     expect_ok (driver_init (bus n) (build_driver ())) (\<lambda>d.
       case driver_wait_rx_event (bus n) 100 d of
         (r, d') \<Rightarrow> r = Inl Timeout \<and> length (writes d') = length (writes d))"

definition default_config_writes_private_sync_word_and_standard_iq :: "nat \<Rightarrow> bool" where
  "default_config_writes_private_sync_word_and_standard_iq n =
     expect_ok (driver_init (bus n) (build_driver ())) (\<lambda>d. let ws = writes d in
       last_register_value ws LORA_SYNC_WORD_MSB = Some 0x14
       \<and> last_register_value ws LORA_SYNC_WORD_LSB = Some 0x24
       \<and> last_register_value ws IQ_POLARITY = Some 0x04)"

definition packet_params_are :: "bytes list \<Rightarrow> bytes \<Rightarrow> bool" where
  "packet_params_are ws bs =
     expect (rposition (\<lambda>w. get_at w 0 = Some SET_PACKET_PARAMS) ws) (\<lambda>params. tl (ws ! params) = bs)"

definition default_packet_params_are_byte_identical_to_the_original :: "nat \<Rightarrow> bool" where
  "default_packet_params_are_byte_identical_to_the_original n =
     expect_ok (driver_init (bus n) (build_driver ())) (\<lambda>d.
       packet_params_are (writes (snd (driver_transmit (bus n) [0x01, 0x02, 0x03] d)))
         [0x00, 0x08, 0x00, 0x03, 0x01, 0x00])"

definition lorawan_downlink_config_flips_sync_iq_and_crc :: "nat \<Rightarrow> bool" where
  "lorawan_downlink_config_flips_sync_iq_and_crc n =
     expect_ok (driver_init (bus n) (build_driver ())) (\<lambda>d.
       let downlink = default_lora_config\<lparr>config_sync_word := Public, iq_inverted := True, crc_on := False,
             preamble_len := 12\<rparr> in
       expect_ok (driver_configure (bus n) downlink d) (\<lambda>d.
       expect_ok (prepare_tx (bus n) [0xAA, 0xBB] d) (\<lambda>d. let ws = writes d in
         last_register_value ws LORA_SYNC_WORD_MSB = Some 0x34
         \<and> last_register_value ws LORA_SYNC_WORD_LSB = Some 0x44
         \<and> last_register_value ws IQ_POLARITY = Some 0x00
         \<and> packet_params_are ws [0x00, 0x0C, 0x00, 0x02, 0x00, 0x01])))"

definition prepare_without_fire_never_reaches_set_tx :: "nat \<Rightarrow> bool" where
  "prepare_without_fire_never_reaches_set_tx n =
     expect_ok (driver_init (bus n) (build_driver ())) (\<lambda>d.
     expect_ok (prepare_tx (bus n) [0x01] d) (\<lambda>d. first_index (writes d) SET_TX = None \<and>
     expect_ok (fire_tx (bus n) d) (\<lambda>d. first_index (writes d) SET_TX \<noteq> None)))"

subsection \<open>Running them\<close>

text \<open>On the recording bus an initialisation succeeds, and what it sent is known frame by frame.\<close>

definition started :: "nat \<Rightarrow> unit recorded driver" where
  "started n = snd (driver_init (bus n) (build_driver ()))"

lemma init_runs: "driver_init (bus n) (build_driver ()) = (Inr (), started n)"
  by (simp add: started_def trait_ops command_ops register_ops host_simps io_defs)

lemma started_state:
  "initialised (started n)" "in_continuous_rx (started n)" "config (started n) = Some default_lora_config"
  "writes (started n) = init_frames (host_test_hal n) 0 0"
  by (simp_all add: started_def writes_def trait_ops command_ops register_ops host_simps io_defs build_driver_def
      new_driver_def init_frames_def configure_frames_def reg_write_frame_def reg_read_frame_def rx_frame_def ocp_140)

lemmas frame_defs = init_frames_def configure_frames_def reg_write_frame_def reg_read_frame_def rx_frame_def
  READ_REGISTER_def WRITE_REGISTER_def TX_CLAMP_CONFIG_def OCP_CONFIGURATION_def LORA_SYNC_WORD_MSB_def
  LORA_SYNC_WORD_LSB_def IQ_POLARITY_def

lemmas looking = expect_def expect_ok_def first_index_def first_register_write_def last_register_value_def
  writes_register_def byte_at_def get_at_def rposition_def packet_params_are_def count_of_def

lemma writes_logged [simp]: "writes (logged es d) = writes d @ acked es"
  by (simp add: writes_def)

lemma writes_flags [simp]:
  "writes (d\<lparr>in_continuous_rx := b\<rparr>) = writes d" "writes (d\<lparr>config := c\<rparr>) = writes d"
  by (simp_all add: writes_def)

lemma init_order: "init_calibrates_after_tcxo_and_image_after_frequency n"
  by (simp add: init_calibrates_after_tcxo_and_image_after_frequency_def init_runs started_state looking frame_defs opcodes
      image_cal_params_def default_lora_config_def FREQUENCY_HZ_def)

lemma init_clamps: "init_sets_regulator_clamp_errors_and_ocp_order n"
  by (simp add: init_sets_regulator_clamp_errors_and_ocp_order_def init_runs started_state looking frame_defs opcodes)

lemma init_sf11: "init_applies_sf11_default n"
  by (simp add: init_applies_sf11_default_def init_runs started_state looking frame_defs opcodes modulation_bytes_def
    default_lora_config_def SPREADING_FACTOR_def BANDWIDTH_KHZ_def bw_code_def ldro_enabled_def)

lemma image_bytes: "calibrate_image_emits_band_bytes n"
  by (simp add: calibrate_image_emits_band_bytes_def calibrate_image_def image_cal_params_def host_write_command looking
      opcodes writes_def build_driver_def new_driver_def)

lemma sync_word: "default_config_writes_private_sync_word_and_standard_iq n"
  by (simp add: default_config_writes_private_sync_word_and_standard_iq_def init_runs started_state looking frame_defs opcodes
     default_lora_config_def register_bytes.simps iq_fixed_def)

text \<open>Packets of up to 255 bytes are staged and fired, and the missing interrupt ends the wait.\<close>

lemma staged:
  assumes "initialised d" "bs \<noteq> []" "length bs \<le> unat (HW_MAX_PAYLOAD_LEN (host_test_hal n))"
  shows "fst (prepare_tx (bus n) bs d) = Inr ()"
    "writes (snd (prepare_tx (bus n) bs d)) = writes d @ tx_frames (config d) bs"
proof -
  have len: "length bs \<le> 255" using assms(3) HW_MAX_le [of "host_test_hal n"] by simp
  have mk: "tx_frames (config d) bs = acked [Nss False, Frame [SET_STANDBY, STDBY_RC] True, Nss True, Nss False,
      Frame (SET_PACKET_PARAMS # packet_params (config d) (of_nat (length bs))) True, Nss True, Nss False,
      Frame (WRITE_BUFFER # 0x00 # take 256 bs) True, Nss True, Nss False,
      Frame (SET_DIO_IRQ_PARAMS # irq_bytes IRQ_TX_DONE) True, Nss True, Nss False,
      Frame [CLEAR_IRQ_STATUS, 0xFF, 0xFF] True, Nss True]"
    using len by (simp add: tx_frames_def)
  have big: "\<not> unat (HW_MAX_PAYLOAD_LEN (host_test_hal n)) < length bs" using assms(3) by simp
  show "fst (prepare_tx (bus n) bs d) = Inr ()"
    "writes (snd (prepare_tx (bus n) bs d)) = writes d @ tx_frames (config d) bs"
    unfolding mk using assms(1,2) big
    by (simp_all add: prepare_tx_def command_ops host_simps io_defs writes_def)
qed

lemma fired: "fire_tx (bus n) d = (Inr (), logged [Nss False, Frame fire_frame True, Nss True] d)"
  by (simp add: fire_tx_def host_write_command fire_frame_def)

lemma transmit_times_out:
  assumes "initialised d" "bs \<noteq> []" "length bs \<le> unat (HW_MAX_PAYLOAD_LEN (host_test_hal n))"
  shows "fst (driver_transmit (bus n) bs d) = Inl Timeout"
    "writes (snd (driver_transmit (bus n) bs d)) = writes d @ tx_frames (config d) bs @ [fire_frame]"
proof -
  obtain d' where p: "prepare_tx (bus n) bs d = (Inr (), d')" using staged(1) [OF assms] by (metis prod.collapse)
  have "writes d' = writes d @ tx_frames (config d) bs" using staged(2) [OF assms] p by simp
  then show "fst (driver_transmit (bus n) bs d) = Inl Timeout"
    "writes (snd (driver_transmit (bus n) bs d)) = writes d @ tx_frames (config d) bs @ [fire_frame]"
    by (simp_all add: driver_transmit_def p fired wait_tx_done_def wait_for_irq_def host_dio1 io_defs)
qed

lemma max_payload: "255 \<le> n \<Longrightarrow> unat (HW_MAX_PAYLOAD_LEN (host_test_hal n)) = 255"
  by (cases "n = 255") (simp_all add: HW_MAX_PAYLOAD_LEN_def host_test_hal_def)

lemma some_write: "first_index (ws @ vs) c = None \<longleftrightarrow> first_index ws c = None \<and> first_index vs c = None"
  by (induction ws) (simp_all add: first_index_def)

lemma no_set_tx: "first_index (writes (started n)) SET_TX = None"
  by (simp add: started_state looking frame_defs opcodes)

lemma no_set_tx_staged: "first_index (tx_frames co bs) SET_TX = None"
  by (simp add: tx_frames_def looking opcodes)

text \<open>The last packet parameters are those of the staged packet.\<close>

lemma position_first: "\<forall>y \<in> set ys. \<not> P y \<Longrightarrow> P x \<Longrightarrow> position P (ys @ x # xs) = Some (length ys)"
  by (induction ys) simp_all

lemma rposition_last: "\<forall>y \<in> set ys. \<not> P y \<Longrightarrow> P x \<Longrightarrow> rposition P (xs @ x # ys) = Some (length xs)"
  using position_first [of "rev ys" P x "rev xs"] by (simp add: rposition_def)

lemma last_packet_params:
  assumes "\<forall>v \<in> set vs. get_at v 0 \<noteq> Some SET_PACKET_PARAMS"
  shows "rposition (\<lambda>w. get_at w 0 = Some SET_PACKET_PARAMS) (ws @ tx_frames co bs @ vs) = Some (Suc (length ws))
    \<and> (ws @ tx_frames co bs @ vs) ! Suc (length ws) = SET_PACKET_PARAMS # packet_params co (of_nat (length bs))"
proof -
  let ?p = "SET_PACKET_PARAMS # packet_params co (of_nat (length bs))"
  let ?rest = "[WRITE_BUFFER # 0x00 # bs, SET_DIO_IRQ_PARAMS # irq_bytes IRQ_TX_DONE, [CLEAR_IRQ_STATUS, 0xFF, 0xFF]]"
  have split: "ws @ tx_frames co bs @ vs = (ws @ [[SET_STANDBY, STDBY_RC]]) @ ?p # (?rest @ vs)"
    by (simp add: tx_frames_def)
  have "\<forall>v \<in> set (?rest @ vs). get_at v 0 \<noteq> Some SET_PACKET_PARAMS" using assms by (auto simp: get_at_def opcodes)
  from rposition_last [OF this, of ?p "ws @ [[SET_STANDBY, STDBY_RC]]"] show ?thesis
    unfolding split by (simp add: get_at_def nth_append)
qed

lemma packet_params_staged:
  "\<forall>v \<in> set vs. get_at v 0 \<noteq> Some SET_PACKET_PARAMS \<Longrightarrow>
   packet_params_are (ws @ tx_frames co bs @ vs) ps \<longleftrightarrow> packet_params co (of_nat (length bs)) = ps"
  using last_packet_params [of vs ws co bs] by (simp add: packet_params_are_def expect_def)

lemma packet_params_byte:
  assumes "\<forall>v \<in> set vs. get_at v 0 \<noteq> Some SET_PACKET_PARAMS" and "us = ws @ tx_frames co bs @ vs"
  shows "expect (rposition (\<lambda>w. get_at w 0 = Some SET_PACKET_PARAMS) us) (\<lambda>i. byte_at us i k = b)
    \<longleftrightarrow> get_at (SET_PACKET_PARAMS # packet_params co (of_nat (length bs))) k = b"
proof -
  have "Suc (length ws) < length us" by (simp add: assms(2) tx_frames_def)
  then show ?thesis using last_packet_params [OF assms(1), of ws co bs] by (simp add: assms(2) expect_def byte_at_def)
qed

lemma fire_is_no_param: "\<forall>v \<in> set [fire_frame]. get_at v 0 \<noteq> Some SET_PACKET_PARAMS"
  by (simp add: fire_frame_def get_at_def opcodes)

lemma rejects_oversize: "transmit_rejects_payload_over_255_bytes n"
proof -
  have "unat (HW_MAX_PAYLOAD_LEN (host_test_hal n)) < 256" using HW_MAX_le [of "host_test_hal n"] by simp
  then have "driver_transmit (bus n) (replicate 256 0xAA) (started n) = (Inl InvalidConfig, started n)"
    using transmit_refused [where h = "bus n" and bs = "replicate 256 0xAA" and d = "started n"] by (simp add: started_state)
  then show ?thesis
    by (simp add: transmit_rejects_payload_over_255_bytes_def expect_ok_def init_runs no_set_tx)
qed

lemma accepts_255:
  assumes "255 \<le> n" shows "transmit_accepts_255_byte_payload n"
proof -
  let ?bs = "replicate 255 0x55 :: bytes"
  have fits: "length ?bs \<le> unat (HW_MAX_PAYLOAD_LEN (host_test_hal n))" "?bs \<noteq> []" using max_payload [OF assms] by simp_all
  obtain d where t: "driver_transmit (bus n) ?bs (started n) = (Inl Timeout, d)"
    and w: "writes d = writes (started n) @ tx_frames (config (started n)) ?bs @ [fire_frame]"
    using transmit_times_out [OF started_state(1) fits(2,1)] by (metis prod.collapse)
  have "first_index [fire_frame] SET_TX \<noteq> None" by (simp add: fire_frame_def looking opcodes)
  then show ?thesis
    using packet_params_byte [OF fire_is_no_param w, of 4 "Some 255"]
    by (simp add: transmit_accepts_255_byte_payload_def expect_ok_def init_runs t w some_write del: not_None_eq)
      (simp add: get_at_def packet_params_def started_state(3) default_lora_config_def)
qed

lemma staged_params:
  assumes "config d = Some c" "initialised d" "255 \<le> n" "bs \<noteq> []" "length bs \<le> 255"
  shows "packet_params_are (writes (snd (prepare_tx (bus n) bs d))) ps \<longleftrightarrow> packet_params (Some c) (of_nat (length bs)) = ps"
    "packet_params_are (writes (snd (driver_transmit (bus n) bs d))) ps \<longleftrightarrow> packet_params (Some c) (of_nat (length bs)) = ps"
  using assms max_payload [OF assms(3)] packet_params_staged [of "[]" "writes d" "Some c" bs ps]
    packet_params_staged [OF fire_is_no_param, of "writes d" "Some c" bs ps]
  by (simp_all add: staged transmit_times_out)

lemma default_params: "255 \<le> n \<Longrightarrow> default_packet_params_are_byte_identical_to_the_original n"
  using staged_params(2) [OF started_state(3,1), of n "[1, 2, 3]"]
  by (simp add: default_packet_params_are_byte_identical_to_the_original_def expect_ok_def init_runs packet_params_def
      default_lora_config_def)

lemma rearms: "standby_clears_continuous_rx_and_arm_rearms n"
  using started_state(1,2) [of n]
  by (simp add: standby_clears_continuous_rx_and_arm_rearms_def expect_ok_def init_runs driver_set_standby_def driver_arm_receive_def
      start_receive_mode_def command_ops host_simps io_defs count_of_def get_at_def opcodes)

lemma wait_is_quiet: "wait_rx_event_times_out_without_spi_traffic n"
  by (simp add: wait_rx_event_times_out_without_spi_traffic_def expect_ok_def init_runs driver_wait_rx_event_def host_dio1 seqE_def
      bindE_def)

lemma prepared_only: "255 \<le> n \<Longrightarrow> prepare_without_fire_never_reaches_set_tx n"
proof -
  assume n: "255 \<le> n"
  have fits: "length [1 :: u8] \<le> unat (HW_MAX_PAYLOAD_LEN (host_test_hal n))" "[1 :: u8] \<noteq> []"
    using max_payload [OF n] by simp_all
  obtain d where p: "prepare_tx (bus n) [1] (started n) = (Inr (), d)"
    using staged(1) [OF started_state(1) fits(2,1)] by (metis prod.collapse)
  have "writes d = writes (started n) @ tx_frames (config (started n)) [1]"
    using staged(2) [OF started_state(1) fits(2,1), of n] by (simp only: p snd_conv)
  then show ?thesis
    by (simp add: prepare_without_fire_never_reaches_set_tx_def expect_ok_def init_runs p fired some_write no_set_tx
        no_set_tx_staged del: not_None_eq) (simp add: fire_frame_def looking opcodes)
qed

text \<open>A downlink configuration changes the sync word, the polarity and the packet parameters.\<close>

definition downlink :: lora_config where
  "downlink = default_lora_config\<lparr>config_sync_word := Public, iq_inverted := True, crc_on := False, preamble_len := 12\<rparr>"

lemma configured:
  "fst (driver_configure (bus n) c d) = Inr ()"
  "writes (snd (driver_configure (bus n) c d)) = writes d @ configure_frames c 0"
  "initialised (snd (driver_configure (bus n) c d)) = initialised d"
  "config (snd (driver_configure (bus n) c d)) = Some c"
  by (simp_all add: driver_configure_def command_ops register_ops host_simps io_defs writes_def configure_frames_def
      reg_write_frame_def reg_read_frame_def ocp_140)

lemma last_value_append:
  "\<forall>w \<in> set vs. \<not> writes_register a w \<Longrightarrow> last_register_value (ws @ vs) a = last_register_value ws a"
  by (induction vs rule: rev_induct) (auto simp: last_register_value_def simp flip: append_assoc)

lemma downlink_values:
  "last_register_value (ws @ configure_frames downlink 0) LORA_SYNC_WORD_MSB = Some 0x34"
  "last_register_value (ws @ configure_frames downlink 0) LORA_SYNC_WORD_LSB = Some 0x44"
  "last_register_value (ws @ configure_frames downlink 0) IQ_POLARITY = Some 0x00"
  by (simp_all add: looking frame_defs opcodes downlink_def default_lora_config_def register_bytes.simps iq_fixed_def)

lemma no_register_staged: "\<forall>w \<in> set (tx_frames co bs). \<not> writes_register a w"
  by (simp add: tx_frames_def writes_register_def get_at_def opcodes)

lemma downlink_flips: "255 \<le> n \<Longrightarrow> lorawan_downlink_config_flips_sync_iq_and_crc n"
proof -
  assume n: "255 \<le> n"
  obtain d where c: "driver_configure (bus n) downlink (started n) = (Inr (), d)"
    using configured(1) by (metis prod.collapse)
  have d: "writes d = writes (started n) @ configure_frames downlink 0" "initialised d" "config d = Some downlink"
    using configured(2-4) [of n downlink "started n"] by (simp_all add: c started_state(1))
  have fits: "length [0xAA, 0xBB :: u8] \<le> unat (HW_MAX_PAYLOAD_LEN (host_test_hal n))" "[0xAA, 0xBB :: u8] \<noteq> []"
    using max_payload [OF n] by simp_all
  obtain e where p: "prepare_tx (bus n) [0xAA, 0xBB] d = (Inr (), e)"
    using staged(1) [OF d(2) fits(2,1)] by (metis prod.collapse)
  have e: "writes e = (writes (started n) @ configure_frames downlink 0) @ tx_frames (Some downlink) [0xAA, 0xBB]"
    using staged(2) [OF d(2) fits(2,1)] p by (simp add: d)
  have "packet_params_are (writes e) [0x00, 0x0C, 0x00, 0x02, 0x00, 0x01]"
    using staged_params(1) [OF d(3,2) n, of "[0xAA, 0xBB]"]
    by (simp add: p packet_params_def downlink_def)
  moreover have "last_register_value (writes e) a = last_register_value (writes (started n) @ configure_frames downlink 0) a" for a
    unfolding e by (rule last_value_append [OF no_register_staged])
  ultimately show ?thesis
    by (simp add: lorawan_downlink_config_flips_sync_iq_and_crc_def expect_ok_def init_runs downlink_def [symmetric] c p downlink_values)
qed

subsection \<open>The property\<close>

definition host_tests :: "(nat \<Rightarrow> bool) list" where
  "host_tests =
     [init_calibrates_after_tcxo_and_image_after_frequency, calibrate_image_emits_band_bytes,
      init_sets_regulator_clamp_errors_and_ocp_order, init_applies_sf11_default,
      transmit_rejects_payload_over_255_bytes, transmit_accepts_255_byte_payload,
      standby_clears_continuous_rx_and_arm_rearms, wait_rx_event_times_out_without_spi_traffic,
      default_config_writes_private_sync_word_and_standard_iq,
      default_packet_params_are_byte_identical_to_the_original,
      lorawan_downlink_config_flips_sync_iq_and_crc, prepare_without_fire_never_reaches_set_tx]"

text \<open>
  The driver passes its own host tests. Every assertion of the twelve tests of the repository holds
  of the model, for every packet limit of the protocol crate of at least 255 bytes: the order of the
  calibration steps, the register values, the packet parameters byte by byte, the limits of a payload
  and the receive flag.
\<close>

theorem driver_passes_its_host_tests:
  assumes "255 \<le> n"
  shows "list_all (\<lambda>t. t n) host_tests"
  using assms
  by (simp add: host_tests_def init_order image_bytes init_clamps init_sf11 rejects_oversize accepts_255 rearms wait_is_quiet
      sync_word default_params downlink_flips prepared_only)

theorem driver_passes_its_host_tests_witness: "list_all (\<lambda>t. t 256) host_tests"
  by (rule driver_passes_its_host_tests) simp

end
