(* ===== verification/Dispatcher_Tests.thy ===== *)
theory Dispatcher_Tests imports Dispatcher begin

text \<open>
  The unit tests of the command dispatcher (\<open>src/dispatcher/handler.rs\<close>, module \<open>tests\<close>) over the mock
  radio, as functions of the packet limit of the protocol crate, and the proof that the model passes
  them. The budget of the first hour, which the lockout tests spend, has its own lemmas here.
\<close>

subsection \<open>The budget of the first hour\<close>

text \<open>
  In the first 59 minutes no bucket in use leaves the window, so the window holds all that was granted:
  a limiter whose bucket is the \<open>k\<close>-th has used only its last \<open>k + 1\<close> buckets.
\<close>

definition young :: "duty_limiter \<Rightarrow> bool" where
  "young d \<longleftrightarrow> limiter_ok d \<and> allowance_ms d = Some 360000 \<and> unat (head_start_ms d) mod 60000 = 0
     \<and> unat (head_start_ms d) < 3540000 \<and> sum_list (take (59 - unat (head_start_ms d) div 60000) (window d)) = 0"

lemma young_start: "young (disp_duty new_dispatcher)"
proof -
  have "window (for_frequency f) = replicate 60 0" for f
    by (rule nth_equalityI) (simp_all add: nth_window for_frequency_def BUCKET_COUNT_def)
  then show ?thesis
    using limiter_ok_for_frequency default_allowance
    by (simp add: young_def new_dispatcher_def) (simp add: for_frequency_def sum_list_replicate)
qed

lemma start_sum: "sum_list (window (disp_duty new_dispatcher)) = 0"
proof -
  have "window (for_frequency f) = replicate 60 0" for f
    by (rule nth_equalityI) (simp_all add: nth_window for_frequency_def BUCKET_COUNT_def)
  then show ?thesis by (simp add: new_dispatcher_def sum_list_replicate)
qed

lemma sum_zero_take: "sum_list (take n xs) = 0 \<Longrightarrow> m \<le> n \<Longrightarrow> sum_list (take m xs) = (0 :: nat)"
  by (metis le_zero_eq min.absorb_iff2 min.commute sum_take_le take_take)

lemma young_advance:
  assumes "young d" "head_start_ms d \<le> now_ms" "unat now_ms < 3540000"
  shows "young (advance d now_ms)" "sum_list (window (advance d now_ms)) = sum_list (window d)"
proof -
  define h where "h = unat (head_start_ms d)"
  define m where "m = minutes_since d now_ms"
  define n where "n = unat now_ms"
  note y = assms(1) [unfolded young_def, folded h_def]
  note dims = limiter_ok_dims [of d]
  have hn: "h \<le> n" "n < 3540000" using assms(2,3) by (simp_all add: h_def n_def word_le_nat_alt)
  have m: "m = (n - h) div 60000" by (simp add: m_def minutes_since_def h_def n_def)
  obtain k where k: "h = k * 60000" using y by (auto simp: mod_eq_0_iff_dvd dvd_def mult.commute)
  have "n div 60000 = (n - h + k * 60000) div 60000" using hn(1) k by simp
  then have mk: "k + m = n div 60000" unfolding m by simp
  then have small: "k + m < 59" "m < 60" using hn(2) by auto
  have none: "sum_list (take m (window d)) = 0"
    by (rule sum_zero_take [of "59 - k"]) (use y k small in auto)
  have w: "window (advance d now_ms) = drop m (window d) @ replicate m 0"
    using window_advance [OF dims, of now_ms] y small by (simp add: m_def)
  show "sum_list (window (advance d now_ms)) = sum_list (window d)"
    by (simp only: w sum_list_append sum_drop_eq none) (simp add: sum_list_replicate)
  have hs: "unat (head_start_ms (advance d now_ms)) = (k + m) * 60000"
    using advance_head_start [OF dims assms(2)] y small k
    by (simp add: m_def [symmetric] h_def [symmetric])
  have "sum_list (take (59 - (k + m)) (window (advance d now_ms))) = sum_list (drop m (take (59 - k) (window d)))"
    using small by (simp add: w take_drop)
  also have "\<dots> \<le> sum_list (take (59 - k) (window d))" by (rule sum_list_drop_le)
  also have "\<dots> = 0" using y k by simp
  finally show "young (advance d now_ms)"
    using limiter_ok_advance advance_frame(3) [OF dims] y small hs by (simp add: young_def)
qed

text \<open>A claim in that time is granted exactly when all that was granted and the packet fit the allowance.\<close>

lemma young_claim:
  assumes "young d" "head_start_ms d \<le> now_ms" "unat now_ms < 3540000" "unat a \<le> 360000"
  shows "young (snd (try_claim d now_ms a)) \<and> head_start_ms (snd (try_claim d now_ms a)) \<le> now_ms \<and>
    (if sum_list (window d) + unat a \<le> 360000
     then fst (try_claim d now_ms a) = Inr () \<and> sum_list (window (snd (try_claim d now_ms a))) = sum_list (window d) + unat a
     else (\<exists>w. fst (try_claim d now_ms a) = Inl (DutyCycleExceeded (Some w)) \<and> 0 < w \<and> w \<le> 3600000)
       \<and> sum_list (window (snd (try_claim d now_ms a))) = sum_list (window d))"
proof -
  let ?d = "advance d now_ms"
  have ok: "limiter_ok d" "allowance_ms d = Some 360000" using assms(1) by (simp_all add: young_def)
  note y = young_advance [OF assms(1-3)]
  have aA: "a \<le> 360000" using assms(4) by (simp add: word_le_nat_alt)
  have hs: "head_start_ms (snd (try_claim d now_ms a)) = head_start_ms ?d"
    using try_claim_frame(4) [OF ok(1), of now_ms a] ok(2) leD [OF aA] by simp
  have le: "head_start_ms ?d \<le> now_ms" using advance_start_bounds(1) [OF ok(1) assms(2)] by (simp add: word_le_nat_alt)
  note inv = limiter_ok_try_claim [OF ok(1), of now_ms a] try_claim_frame(3) [OF ok(1), of now_ms a] ok(2)
  show ?thesis
  proof (cases "sum_list (window d) + unat a \<le> 360000")
    case True
    then have g: "fst (try_claim d now_ms a) = Inr ()"
      "window (snd (try_claim d now_ms a)) = (window ?d)[59 := window ?d ! 59 + unat a]"
      using try_claim_branches(2) [OF ok aA, of now_ms] y(2) by simp_all
    have "take n (window (snd (try_claim d now_ms a))) = take n (window ?d)" if "n \<le> 59" for n
      using that by (simp add: g(2))
    then have "young (snd (try_claim d now_ms a))" using y(1) inv hs by (simp add: young_def)
    then show ?thesis using True g hs le y(2) by (simp add: sum_list_charge)
  next
    case False
    then have r: "try_claim d now_ms a = (Inl (find_retry ?d now_ms 360000 a (spent_ms ?d) 0 [1..<61]), ?d)"
      using try_claim_branches(3) [OF ok aA, of now_ms] y(2) by simp
    obtain x where x: "find_retry ?d now_ms 360000 a (spent_ms ?d) 0 [1..<61] = DutyCycleExceeded x"
      by (metis duty_cycle_exceeded.exhaust)
    have "now_ms < 2 ^ 63" using assms(3) by (simp add: word_less_nat_alt)
    from try_claim_retry [OF ok assms(2) this r [unfolded x]] aA obtain w where "x = Some w" "0 < w" "w \<le> 3600000"
      by (auto simp: not_less [symmetric])
    then show ?thesis using False r x y le by simp
  qed
qed

subsection \<open>The tests\<close>

text \<open>The largest packet, as the tests send it.\<close>

definition test_payload :: bytes where "test_payload = replicate 255 0xAA"

lemma test_airtimes:
  "unat (packet_airtime (default_lora_config\<lparr>spreading_factor := 11\<rparr>) test_payload) = 3247"
  "unat (packet_airtime (default_lora_config\<lparr>spreading_factor := 7\<rparr>) test_payload) = 314"
  by (simp_all add: packet_airtime_def default_lora_config_def BANDWIDTH_KHZ_def CODING_RATE_def test_payload_def
      time_on_air_ms_def toa_exact toa_spec_def toa_blocks_def ceil_div_def clamp_sf_def ldro_enabled_def
      bandwidth_hz_def cr_index_def PREAMBLE_SYMBOLS_def)

definition test_radio :: "nat \<Rightarrow> mock_radio lora_radio" where
  "test_radio n = MockLoraRadio n 0"

text \<open>The response, with the dispatcher and the radio after it.\<close>

definition dispatched :: "nat \<Rightarrow> command \<Rightarrow> mock_radio \<Rightarrow> response \<times> dispatcher \<times> mock_radio" where
  "dispatched n c m = dispatch (test_radio n) c 0 (new_dispatcher, m)"

definition test_dispatch_get_version :: "nat \<Rightarrow> bool" where
  "test_dispatch_get_version n \<longleftrightarrow>
     (case dispatched n GetVersion new_mock of
        (Version major minor patch, _) \<Rightarrow> major = VERSION_MAJOR \<and> minor = VERSION_MINOR \<and> patch = VERSION_PATCH
      | _ \<Rightarrow> False)"

definition test_dispatch_lora_tx :: "nat \<Rightarrow> bool" where
  "test_dispatch_lora_tx n \<longleftrightarrow>
     (let m = snd (radio_init (test_radio n) new_mock); data = [0x48, 0x65, 0x6C, 0x6C, 0x6F]
      in case dispatched n (LoraTx data) m of
           (response, _, m) \<Rightarrow> response = TxComplete \<and> length (tx_history m) = 1 \<and> tx_history m ! 0 = data)"

definition test_dispatch_lora_tx_error :: "nat \<Rightarrow> bool" where
  "test_dispatch_lora_tx_error n \<longleftrightarrow>
     (case dispatched n (LoraTx [0x01]) (set_next_tx_error TransmitFailed new_mock) of
        (ErrorResponse status _, _) \<Rightarrow> status = StLoraError
      | _ \<Rightarrow> False)"

definition get_radio_config_reports_sf11_default :: "nat \<Rightarrow> bool" where
  "get_radio_config_reports_sf11_default n \<longleftrightarrow>
     (case dispatched n GetRadioConfig new_mock of
        (RadioConfig f sf _ _ _, _) \<Rightarrow> sf = 11 \<and> f = 869525000
      | _ \<Rightarrow> False)"

definition set_spreading_factor_reconfigures_the_radio :: "nat \<Rightarrow> bool" where
  "set_spreading_factor_reconfigures_the_radio n \<longleftrightarrow>
     (case dispatched n (SetSpreadingFactor 7) new_mock of
        (RadioConfig _ sf _ _ _, _, m) \<Rightarrow> sf = 7 \<and>
          (case mock_config m of
             None \<Rightarrow> False
           | Some applied \<Rightarrow> spreading_factor applied = 7 \<and> frequency_hz applied = 869525000 \<and> bandwidth_khz applied = 250)
      | _ \<Rightarrow> False)"

primrec all_rejected :: "nat \<Rightarrow> u8 list \<Rightarrow> dispatcher \<times> mock_radio \<Rightarrow> bool \<times> dispatcher \<times> mock_radio" where
  "all_rejected n [] st = (True, st)"
| "all_rejected n (sf # sfs) st =
     (case dispatch (test_radio n) (SetSpreadingFactor sf) 0 st of
        (ErrorResponse status _, st) \<Rightarrow> if status = StInvalidParameter then all_rejected n sfs st else (False, st)
      | (_, st) \<Rightarrow> (False, st))"

definition out_of_range_spreading_factor_is_rejected :: "nat \<Rightarrow> bool" where
  "out_of_range_spreading_factor_is_rejected n \<longleftrightarrow>
     (case all_rejected n [0, 6, 13, 255] (new_dispatcher, new_mock) of
        (rejected, _, m) \<Rightarrow> rejected \<and> mock_config m = None)"

definition set_spreading_factor_keeps_old_config_on_radio_error :: "nat \<Rightarrow> bool" where
  "set_spreading_factor_keeps_old_config_on_radio_error n \<longleftrightarrow>
     (case dispatched n (SetSpreadingFactor 9) (set_next_configure_error SpiError new_mock) of
        (ErrorResponse _ _, st) \<Rightarrow>
          (case dispatch (test_radio n) GetRadioConfig 0 st of (RadioConfig _ sf _ _ _, _) \<Rightarrow> sf = 11 | _ \<Rightarrow> False)
      | _ \<Rightarrow> False)"

text \<open>
  Sending every 100 ms until the dispatcher refuses: how many packets went out, and at which one the
  refusal came; none on a panic.
\<close>

primrec fill_budget ::
  "nat \<Rightarrow> nat \<Rightarrow> nat \<Rightarrow> nat \<Rightarrow> dispatcher \<times> mock_radio \<Rightarrow> (nat \<times> nat option) option \<times> dispatcher \<times> mock_radio" where
  "fill_budget n 0 i sent st = (Some (sent, None), st)"
| "fill_budget n (Suc left) i sent st =
     (case dispatch (test_radio n) (LoraTx test_payload) (of_nat (i * 100)) st of
        (TxComplete, st) \<Rightarrow> fill_budget n left (i + 1) (sent + 1) st
      | (TxRefused secs, st) \<Rightarrow> (if 0 < secs \<and> secs \<le> 3600 then Some (sent, Some i) else None, st)
      | (_, st) \<Rightarrow> (None, st))"

definition lora_tx_is_refused_once_the_duty_cycle_budget_is_spent :: "nat \<Rightarrow> bool" where
  "lora_tx_is_refused_once_the_duty_cycle_budget_is_spent n \<longleftrightarrow>
     (case fill_budget n 130 0 0 (new_dispatcher, snd (radio_init (test_radio n) new_mock)) of
        (Some (sent, refused_at), st) \<Rightarrow> refused_at = Some sent \<and> 108 \<le> sent \<and> sent \<le> 112
          \<and> fst (dispatch (test_radio n) (LoraTx test_payload) (61 * 60000) st) = TxComplete
      | (None, _) \<Rightarrow> False)"

primrec all_sent :: "nat \<Rightarrow> nat \<Rightarrow> nat \<Rightarrow> dispatcher \<times> mock_radio \<Rightarrow> bool" where
  "all_sent n 0 i st = True"
| "all_sent n (Suc left) i st =
     (case dispatch (test_radio n) (LoraTx test_payload) (of_nat (i * 100)) st of
        (response, st) \<Rightarrow> response = TxComplete \<and> all_sent n left (i + 1) st)"

definition duty_cycle_budget_follows_the_configured_spreading_factor :: "nat \<Rightarrow> bool" where
  "duty_cycle_budget_follows_the_configured_spreading_factor n \<longleftrightarrow>
     all_sent n 60 0 (snd (dispatched n (SetSpreadingFactor 7) (snd (radio_init (test_radio n) new_mock))))"

subsection \<open>The model passes\<close>

lemma radio_simps:
  "configure (test_radio n) = mock_configure" "transmit (test_radio n) = mock_transmit n"
  "radio_init (test_radio n) m = (Inr (), m\<lparr>mock_initialised := True\<rparr>)"
  by (simp_all add: test_radio_def MockLoraRadio_def)

lemma first_claim:
  assumes "unat a \<le> 360000"
  shows "fst (try_claim (disp_duty new_dispatcher) 0 a) = Inr ()"
proof -
  have "head_start_ms (disp_duty new_dispatcher) \<le> 0" by (simp add: new_dispatcher_def for_frequency_def)
  from young_claim [OF young_start this _ assms] start_sum assms show ?thesis by simp
qed

lemma short_airtime: "length bs \<le> 255 \<Longrightarrow> unat (packet_airtime (disp_config new_dispatcher) bs) \<le> 360000"
  using airtime_small [OF dispatcher_ok_new] by (simp add: word_le_nat_alt)

lemma first_packet:
  assumes "length bs \<le> 255"
  shows "\<exists>d. dispatched n (LoraTx bs) m = (case mock_transmit n bs m of
      (Inr _, m) \<Rightarrow> (TxComplete, d, m)
    | (Inl e, m) \<Rightarrow> (lora_error_to_response e IdLoraTx, d, m))"
  using first_claim [OF short_airtime [OF assms]]
  by (auto simp: dispatched_def handle_lora_tx_def radio_simps prod_eq_iff Let_def split: prod.split sum.split)

lemma simple_tests:
  "test_dispatch_get_version n" "get_radio_config_reports_sf11_default n" "set_spreading_factor_reconfigures_the_radio n"
  "out_of_range_spreading_factor_is_rejected n" "set_spreading_factor_keeps_old_config_on_radio_error n"
  by (simp_all add: test_dispatch_get_version_def get_radio_config_reports_sf11_default_def
      set_spreading_factor_reconfigures_the_radio_def out_of_range_spreading_factor_is_rejected_def
      set_spreading_factor_keeps_old_config_on_radio_error_def dispatched_def handle_get_version_def
      radio_config_response_def handle_set_spreading_factor_def radio_simps mock_configure_def set_next_configure_error_def
      new_mock_def new_dispatcher_def default_lora_config_def SPREADING_FACTOR_def FREQUENCY_HZ_def BANDWIDTH_KHZ_def
      lora_error_to_response_def Let_def)

lemma packet_tests:
  assumes "255 \<le> n"
  shows "test_dispatch_lora_tx n" "test_dispatch_lora_tx_error n"
proof -
  let ?bs = "[0x48, 0x65, 0x6C, 0x6C, 0x6F] :: bytes"
  obtain d where "dispatched n (LoraTx ?bs) (new_mock\<lparr>mock_initialised := True\<rparr>)
      = (TxComplete, d, new_mock\<lparr>mock_initialised := True, tx_history := [?bs]\<rparr>)"
    using first_packet [of ?bs n "new_mock\<lparr>mock_initialised := True\<rparr>"] assms
    by (auto simp: mock_transmit_def new_mock_def extend_cap_def push_cap_def)
  then show "test_dispatch_lora_tx n" by (simp add: test_dispatch_lora_tx_def radio_simps)
  show "test_dispatch_lora_tx_error n"
    using first_packet [of "[0x01]" n "set_next_tx_error TransmitFailed new_mock"]
    by (auto simp: test_dispatch_lora_tx_error_def mock_transmit_def set_next_tx_error_def lora_error_to_response_def)
qed

text \<open>The dispatcher after packets sent in the first minutes.\<close>

definition filled :: "nat \<Rightarrow> u8 \<Rightarrow> nat \<Rightarrow> u64 \<Rightarrow> dispatcher \<times> mock_radio \<Rightarrow> bool" where
  "filled n sf spent now_ms = (\<lambda>(d, m). disp_config d = default_lora_config\<lparr>spreading_factor := sf\<rparr> \<and> young (disp_duty d)
     \<and> sum_list (window (disp_duty d)) = spent \<and> head_start_ms (disp_duty d) \<le> now_ms \<and> next_tx_error m = None)"

lemma filled_packet:
  assumes n: "255 \<le> n" and f: "filled n sf spent then_ms st" "then_ms \<le> now_ms" "unat now_ms < 3540000"
    and a: "unat (packet_airtime (default_lora_config\<lparr>spreading_factor := sf\<rparr>) test_payload) = a" "a \<le> 360000"
  shows "\<exists>st'. if spent + a \<le> 360000
    then dispatch (test_radio n) (LoraTx test_payload) now_ms st = (TxComplete, st') \<and> filled n sf (spent + a) now_ms st'
    else (\<exists>secs. dispatch (test_radio n) (LoraTx test_payload) now_ms st = (TxRefused secs, st') \<and> 0 < secs \<and> secs \<le> 3600)
      \<and> filled n sf spent now_ms st'"
proof -
  obtain d m where st: "st = (d, m)" by force
  have d: "disp_config d = default_lora_config\<lparr>spreading_factor := sf\<rparr>" "young (disp_duty d)"
    "sum_list (window (disp_duty d)) = spent" "head_start_ms (disp_duty d) \<le> now_ms" "next_tx_error m = None"
    using f(1,2) by (auto simp: filled_def st)
  have air: "unat (packet_airtime (disp_config d) test_payload) = a" using a(1) d(1) by simp
  obtain q duty where qd: "try_claim (disp_duty d) now_ms (packet_airtime (disp_config d) test_payload) = (q, duty)" by force
  have cl: "young duty" "head_start_ms duty \<le> now_ms" "if spent + a \<le> 360000 then q = Inr () \<and> sum_list (window duty) = spent + a
      else (\<exists>w. q = Inl (DutyCycleExceeded (Some w)) \<and> 0 < w \<and> w \<le> 3600000) \<and> sum_list (window duty) = spent"
    using young_claim [OF d(2,4) f(3), of "packet_airtime (disp_config d) test_payload"] a(2)
    unfolding air d(3) qd fst_conv snd_conv by simp_all
  have keep: "filled n sf s now_ms (d\<lparr>disp_duty := duty\<rparr>, m')" if "sum_list (window duty) = s" "next_tx_error m' = None" for s m'
    using that cl(1,2) d(1) by (simp add: filled_def)
  show ?thesis
  proof (cases "spent + a \<le> 360000")
    case True
    obtain m' where t: "mock_transmit n test_payload m = (Inr (), m')" "next_tx_error m' = None"
      using n d(5) by (simp add: mock_transmit_def extend_cap_def test_payload_def)
    then show ?thesis using cl True keep [OF _ t(2)] by (simp add: st handle_lora_tx_def qd radio_simps)
  next
    case False
    obtain w where w: "q = Inl (DutyCycleExceeded (Some w))" "0 < w" "w \<le> 3600000" "sum_list (window duty) = spent"
      using cl(3) False by auto
    have "0 < retry_secs (Some w) \<and> retry_secs (Some w) \<le> 3600"
      using retry_secs_bounds [OF w(2,3)] by (auto simp: word_less_nat_alt word_le_nat_alt)
    then show ?thesis using False keep [OF w(4) d(5)] by (simp add: st handle_lora_tx_def qd w(1))
  qed
qed

lemma filled_start: "filled n 11 0 0 (new_dispatcher, new_mock\<lparr>mock_initialised := True\<rparr>)"
  using young_start start_sum
  by (simp add: filled_def new_mock_def)
    (simp add: new_dispatcher_def for_frequency_def default_lora_config_def SPREADING_FACTOR_def)

lemma tenths: "i \<le> 1000 \<Longrightarrow> unat (of_nat (i * 100) :: u64) = i * 100"
  by (simp only: unat_of_nat) simp

lemma fill_fills:
  assumes n: "255 \<le> n"
    and a: "unat (packet_airtime (default_lora_config\<lparr>spreading_factor := sf\<rparr>) test_payload) = a" "0 < a" "a \<le> 360000"
  shows "filled n sf spent (of_nat (j * 100)) st \<Longrightarrow> j \<le> i \<Longrightarrow> i + left \<le> 600 \<Longrightarrow> spent \<le> 360000 \<Longrightarrow> (360000 - spent) div a < left \<Longrightarrow>
    \<exists>st' k. fill_budget n left i sent st = (Some (sent + (360000 - spent) div a, Some (i + (360000 - spent) div a)), st')
      \<and> filled n sf (spent + (360000 - spent) div a * a) (of_nat (k * 100)) st' \<and> k \<le> 600"
proof (induction left arbitrary: i j sent spent st)
  case (Suc left)
  have before: "of_nat (j * 100) \<le> (of_nat (i * 100) :: u64)"
    using Suc.prems(2,3) tenths [of i] tenths [of j] by (simp add: word_le_nat_alt)
  have now: "unat (of_nat (i * 100) :: u64) < 3540000" using tenths [of i] Suc.prems(3) by simp
  note step = filled_packet [OF n Suc.prems(1) before now a(1,3)]
  show ?case
  proof (cases "spent + a \<le> 360000")
    case True
    obtain st1 where s1: "dispatch (test_radio n) (LoraTx test_payload) (of_nat (i * 100)) st = (TxComplete, st1)"
      "filled n sf (spent + a) (of_nat (i * 100)) st1" using step True by auto
    have q: "(360000 - spent) div a = Suc ((360000 - (spent + a)) div a)"
      using True a(2) by (simp add: le_div_geq)
    obtain st' k where "fill_budget n left (i + 1) (sent + 1) st1
        = (Some (sent + 1 + (360000 - (spent + a)) div a, Some (i + 1 + (360000 - (spent + a)) div a)), st')"
      "filled n sf (spent + a + (360000 - (spent + a)) div a * a) (of_nat (k * 100)) st'" "k \<le> 600"
      using Suc.IH [OF s1(2), of "i + 1" "sent + 1"] Suc.prems(3,5) True q by auto
    then show ?thesis using q by (auto simp: s1(1) algebra_simps simp del: of_nat_mult)
  next
    case False
    then obtain secs st1 where s1: "dispatch (test_radio n) (LoraTx test_payload) (of_nat (i * 100)) st = (TxRefused secs, st1)"
      "0 < secs" "secs \<le> 3600" "filled n sf spent (of_nat (i * 100)) st1" using step by auto
    moreover have "(360000 - spent) div a = 0" using False Suc.prems(4) by simp
    moreover have "i \<le> 600" using Suc.prems(3) by simp
    ultimately show ?thesis by (auto simp del: of_nat_mult)
  qed
qed simp

text \<open>More than an hour later everything fits again.\<close>

lemma later_packet:
  assumes n: "255 \<le> n" and f: "filled n sf spent then_ms (d, m)" "unat then_ms \<le> 60000"
    and a: "unat (packet_airtime (default_lora_config\<lparr>spreading_factor := sf\<rparr>) test_payload) \<le> 360000"
  shows "fst (dispatch (test_radio n) (LoraTx test_payload) (61 * 60000) (d, m)) = TxComplete"
proof -
  let ?a = "packet_airtime (disp_config d) test_payload"
  have d: "disp_config d = default_lora_config\<lparr>spreading_factor := sf\<rparr>" "limiter_ok (disp_duty d)"
    "allowance_ms (disp_duty d) = Some 360000" "head_start_ms (disp_duty d) \<le> then_ms" "next_tx_error m = None"
    using f(1) by (auto simp: filled_def young_def)
  have "unat (head_start_ms (disp_duty d)) \<le> 60000" using d(4) f(2) by (simp add: word_le_nat_alt)
  then have "60 \<le> minutes_since (disp_duty d) (61 * 60000)"
    by (simp add: minutes_since_def less_eq_div_iff_mult_less_eq)
  moreover have aA: "?a \<le> 360000" using a d(1) by (simp add: word_le_nat_alt)
  ultimately have "is_ok (fst (try_claim (disp_duty d) (61 * 60000) ?a))"
    using granted_iff [OF d(2,3) aA] by (simp add: word_le_nat_alt)
  moreover obtain q duty where qd: "try_claim (disp_duty d) (61 * 60000) ?a = (q, duty)" by force
  ultimately obtain u where "q = Inr u" by (cases q) auto
  moreover obtain m' where "mock_transmit n test_payload m = (Inr (), m')"
    using n d(5) by (simp add: mock_transmit_def extend_cap_def test_payload_def)
  ultimately show ?thesis using qd by (simp add: handle_lora_tx_def radio_simps)
qed

lemma budget_test:
  assumes "255 \<le> n"
  shows "lora_tx_is_refused_once_the_duty_cycle_budget_is_spent n"
proof -
  have start: "filled n 11 0 (of_nat (0 * 100)) (new_dispatcher, new_mock\<lparr>mock_initialised := True\<rparr>)" using filled_start by simp
  obtain d m k where f: "fill_budget n 130 0 0 (new_dispatcher, new_mock\<lparr>mock_initialised := True\<rparr>) = (Some (110, Some 110), (d, m))"
    "filled n 11 357170 (of_nat (k * 100)) (d, m)" "k \<le> 600"
    using fill_fills [OF assms test_airtimes(1) _ _ start, of 0 130 0] by auto
  have "unat (of_nat (k * 100) :: u64) \<le> 60000" using tenths [of k] f(3) by simp
  from later_packet [OF assms f(2) this] show ?thesis
    unfolding lora_tx_is_refused_once_the_duty_cycle_budget_is_spent_def radio_simps snd_conv f(1)
    using test_airtimes(1) by simp
qed

lemma all_sent_fills:
  assumes n: "255 \<le> n"
    and a: "unat (packet_airtime (default_lora_config\<lparr>spreading_factor := sf\<rparr>) test_payload) = a"
  shows "filled n sf spent (of_nat (j * 100)) st \<Longrightarrow> j \<le> i \<Longrightarrow> i + left \<le> 600 \<Longrightarrow> spent + left * a \<le> 360000 \<Longrightarrow> all_sent n left i st"
proof (induction left arbitrary: i j spent st)
  case (Suc left)
  have before: "of_nat (j * 100) \<le> (of_nat (i * 100) :: u64)"
    using Suc.prems(2,3) tenths [of i] tenths [of j] by (simp add: word_le_nat_alt)
  have now: "unat (of_nat (i * 100) :: u64) < 3540000" using tenths [of i] Suc.prems(3) by simp
  have fits: "spent + a \<le> 360000" "a \<le> 360000" using Suc.prems(4) by simp_all
  obtain st1 where s1: "dispatch (test_radio n) (LoraTx test_payload) (of_nat (i * 100)) st = (TxComplete, st1)"
    "filled n sf (spent + a) (of_nat (i * 100)) st1"
    using filled_packet [OF n Suc.prems(1) before now a fits(2)] fits(1) by auto
  show ?case using Suc.IH [OF s1(2), of "i + 1"] Suc.prems(3,4) by (simp add: s1(1) del: of_nat_mult)
qed simp

lemma factor_test:
  assumes "255 \<le> n"
  shows "duty_cycle_budget_follows_the_configured_spreading_factor n"
proof -
  let ?m = "new_mock\<lparr>mock_initialised := True\<rparr>"
  obtain d m where s: "snd (dispatched n (SetSpreadingFactor 7) ?m) = (d, m)" by force
  have "disp_config new_dispatcher = default_lora_config" by (simp add: new_dispatcher_def)
  then have "d = new_dispatcher\<lparr>disp_config := default_lora_config\<lparr>spreading_factor := 7\<rparr>\<rparr>" "next_tx_error m = None"
    using s by (auto simp: dispatched_def handle_set_spreading_factor_def radio_simps mock_configure_def new_mock_def Let_def)
  then have "filled n 7 0 (of_nat (0 * 100)) (d, m)"
    using young_start start_sum by (simp add: filled_def) (simp add: new_dispatcher_def for_frequency_def)
  from all_sent_fills [OF assms test_airtimes(2) this, of 0 60] show ?thesis
    by (simp add: duty_cycle_budget_follows_the_configured_spreading_factor_def radio_simps s)
qed

subsection \<open>The property\<close>

definition dispatcher_tests :: "(nat \<Rightarrow> bool) list" where
  "dispatcher_tests =
     [test_dispatch_get_version, test_dispatch_lora_tx, test_dispatch_lora_tx_error, get_radio_config_reports_sf11_default,
      set_spreading_factor_reconfigures_the_radio, out_of_range_spreading_factor_is_rejected,
      set_spreading_factor_keeps_old_config_on_radio_error, lora_tx_is_refused_once_the_duty_cycle_budget_is_spent,
      duty_cycle_budget_follows_the_configured_spreading_factor]"

text \<open>
  The dispatcher passes its unit tests, for every packet limit of the protocol crate of at least
  255 bytes. The full packet of the last test is on the air for 314 ms, about a tenth of the 3247 ms
  at the default spreading factor.
\<close>

theorem dispatcher_passes_its_unit_tests:
  assumes "255 \<le> n"
  shows "list_all (\<lambda>t. t n) dispatcher_tests
    \<and> unat (packet_airtime (default_lora_config\<lparr>spreading_factor := 7\<rparr>) test_payload) = 314
    \<and> unat (packet_airtime (default_lora_config\<lparr>spreading_factor := 11\<rparr>) test_payload) = 3247"
  using assms
  by (simp add: dispatcher_tests_def simple_tests packet_tests budget_test factor_test test_airtimes)

theorem dispatcher_passes_its_unit_tests_witness: "list_all (\<lambda>t. t 256) dispatcher_tests"
  using dispatcher_passes_its_unit_tests [of 256] by simp

end
