(* ===== verification/Serial_Session.thy ===== *)
theory Serial_Session imports Serial_Tasks Lora_Task Host_Client begin

text \<open>
  The serial link as a whole: the client of the host, the reader, the command queue, the radio task
  with its dispatcher and the writer, joined the way \<open>src/main.rs\<close> joins them. A device is what a
  test program drives: it takes a command and gives the response, with its own next state. The session
  of the hub is such a device; the locale states what it needs of the radio, and its lemmas reduce an
  exchange over the wire to one call of the dispatcher.
\<close>

subsection \<open>The shared protocol\<close>

text \<open>
  What the shared protocol crate promises for the commands and responses of the firmware, as the host's
  programs document it: identifiers and payloads. A frame buffer has room for a received packet of
  256 bytes (268 bytes on the wire); nothing is asked of the crate for frames that do not fit it.
\<close>

fun wt_command_frame :: "command \<Rightarrow> u8 \<times> bytes" where
  "wt_command_frame GetVersion = (0x01, [])"
| "wt_command_frame Reboot = (0x03, [])"
| "wt_command_frame (LoraTx bs) = (0x10, bs)"
| "wt_command_frame (SetSpreadingFactor sf) = (0x11, [sf])"
| "wt_command_frame GetRadioConfig = (0x12, [])"

definition known_commands :: "u8 list" where
  "known_commands = [0x01, 0x03, 0x10, 0x11, 0x12]"

fun wt_command_ok :: "command \<Rightarrow> bool" where
  "wt_command_ok (LoraTx bs) \<longleftrightarrow> bs \<noteq> [] \<and> length bs \<le> 255"
| "wt_command_ok c \<longleftrightarrow> True"

fun wt_status_byte :: "response_status \<Rightarrow> u8" where
  "wt_status_byte StSuccess = 0x00"
| "wt_status_byte StInvalidCommand = 0x01"
| "wt_status_byte StInvalidLength = 0x02"
| "wt_status_byte StCrcError = 0x03"
| "wt_status_byte StInvalidVersion = 0x04"
| "wt_status_byte StInvalidParameter = 0x05"
| "wt_status_byte StLoraError = 0x10"
| "wt_status_byte StTimeout = 0x11"

fun wt_command_byte :: "command_id \<Rightarrow> u8" where
  "wt_command_byte IdGetVersion = 0x01"
| "wt_command_byte IdReboot = 0x03"
| "wt_command_byte IdLoraTx = 0x10"
| "wt_command_byte IdSetSpreadingFactor = 0x11"
| "wt_command_byte IdGetRadioConfig = 0x12"

fun wt_response_frame :: "response \<Rightarrow> host_response_id \<times> bytes" where
  "wt_response_frame (Version a b c) = (RVersion, [a, b, c])"
| "wt_response_frame TxComplete = (RTxComplete, [])"
| "wt_response_frame (TxRefused s) = (RTxRefused, to_le32 s)"
| "wt_response_frame (RxPacket d rssi snr) = (RRxPacket, d @ to_le16 (ucast rssi) @ [ucast snr])"
| "wt_response_frame (RadioConfig f sf bw cr dbm) = (RRadioConfig, to_le32 f @ [sf] @ to_le32 bw @ [cr, ucast dbm])"
| "wt_response_frame (ErrorResponse s c) = (RError, [wt_status_byte s, wt_command_byte c])"

fun wt_response_byte :: "host_response_id \<Rightarrow> u8" where
  "wt_response_byte RVersion = 0x01"
| "wt_response_byte RTxComplete = 0x10"
| "wt_response_byte RRxPacket = 0x11"
| "wt_response_byte RRadioConfig = 0x12"
| "wt_response_byte RTxRefused = 0x13"
| "wt_response_byte RNetworkConfig = 0x20"
| "wt_response_byte RHubStatus = 0x21"
| "wt_response_byte RConfigAck = 0x22"
| "wt_response_byte RError = 0xFF"

definition wt_encoded :: "wire \<Rightarrow> host_response_id \<times> bytes \<Rightarrow> bytes" where
  "wt_encoded W f = cobs_encoder W (frame W (wt_response_byte (fst f)) (snd f))"

fun short_packet :: "response \<Rightarrow> bool" where
  "short_packet (RxPacket d rssi snr) \<longleftrightarrow> length d \<le> 256"
| "short_packet r \<longleftrightarrow> True"

definition serial_stack :: "'a serial_lib \<Rightarrow> wire \<Rightarrow> bool" where
  "serial_stack S W \<longleftrightarrow> wire_ok W (cobs_decode S) \<and> link_ok S W \<and> 268 \<le> MAX_FRAME_SIZE W
     \<and> (\<forall>raw. raw \<noteq> [] \<longrightarrow> fits_frame W raw \<longrightarrow> (\<exists>body. cobs_encoder W raw = body @ [0] \<and> 0 \<notin> set body \<and> body \<noteq> []))
     \<and> (\<forall>c. wt_command_ok c \<longrightarrow>
          wt_parse_command S (frame W (fst (wt_command_frame c)) (snd (wt_command_frame c))) = Inr c)
     \<and> (\<forall>b. b \<notin> set known_commands \<longrightarrow> wt_parse_command S (frame W b []) = Inl StInvalidCommand)
     \<and> (\<forall>r. short_packet r \<longrightarrow> wt_encode_response S r = wt_encoded W (wt_response_frame r))
     \<and> (\<forall>s b. wt_encode_response S (error_raw S s b) = wt_encoded W (RError, [wt_status_byte s, b]))"

subsection \<open>The session\<close>

record ('a, 'r) serial_session =
  ss_reader :: "'a serial_reader"
  ss_task :: "'r lora_task"
  ss_port :: "(nat \<times> port_event) list"
  ss_served :: nat

text \<open>
  The pace of the hub: for the command with a given number, how often the radio wakes the task before
  it, and when it is dispatched.
\<close>

type_synonym pace = "nat \<Rightarrow> nat \<times> u64"

definition session_start :: "'a serial_lib \<Rightarrow> 'r lora_radio \<Rightarrow> 'r \<Rightarrow> ('a, 'r) serial_session" where
  "session_start S R r =
     \<lparr>ss_reader = new_reader_task S, ss_task = lora_start R r, ss_port = [], ss_served = 0\<rparr>"

text \<open>Hub commands go to another task, which this session leaves out.\<close>

fun hub_step :: "'r lora_radio \<Rightarrow> pace \<Rightarrow> serial_action \<Rightarrow> 'r lora_task \<times> nat \<Rightarrow> 'r lora_task \<times> nat" where
  "hub_step R pace (SendCommand e) (t, n) =
     (let (wakes, now_ms) = pace n; t = (lora_turn R LoraRadioWakes ^^ wakes) t
      in (lora_turn R (LoraCommand now_ms) (lora_do R (LoraEnqueue e) t), Suc n))"
| "hub_step R pace (Publish m) (t, n) = (t\<lparr>lt_published := lt_published t @ [m]\<rparr>, n)"
| "hub_step R pace (TrySendHub e) (t, n) = (t, n)"

definition written :: "'a serial_lib \<Rightarrow> response_message list \<Rightarrow> bytes" where
  "written S ms = concat (concat (map (writer_frames S) ms))"

definition hub_answers ::
  "'a serial_lib \<Rightarrow> wire \<Rightarrow> 'r lora_radio \<Rightarrow> pace \<Rightarrow> bytes \<Rightarrow> ('a, 'r) serial_session
   \<Rightarrow> bytes \<times> ('a, 'r) serial_session" where
  "hub_answers S W R pace fr s =
     (let (acts, reader) = reader_run S W [Some fr] (ss_reader s);
          (t, n) = fold (hub_step R pace) acts (ss_task s, ss_served s)
      in (written S (drop (length (lt_published (ss_task s))) (lt_published t)),
          s\<lparr>ss_reader := reader, ss_task := t, ss_served := n\<rparr>))"

text \<open>A device takes a command identifier and its payload.\<close>

type_synonym 'd device = "u8 \<Rightarrow> bytes \<Rightarrow> 'd \<Rightarrow> (host_error + host_response) \<times> 'd"

definition hub_device ::
  "'a serial_lib \<Rightarrow> wire \<Rightarrow> 'r lora_radio \<Rightarrow> pace \<Rightarrow> ('a, 'r) serial_session device" where
  "hub_device S W R pace cmd_id data s =
     (let fr = host_cobs_encode W (build_command_payload W cmd_id data);
          (out, s) = hub_answers S W R pace fr s;
          (r, c) = exchange_frame W (cobs_decode S) fr (quick_client (ss_port s @ bytes_now out))
      in (r, s\<lparr>ss_port := cl_input c\<rparr>))"

subsection \<open>Frames on the wire\<close>

lemma stack_simps:
  assumes "serial_stack S W"
  shows "wire_ok W (cobs_decode S)" "link_ok S W"
    "fits_frame W raw \<Longrightarrow> cobs_decode S (cobs_encoder W raw) = Some raw"
    "wt_command_ok c \<Longrightarrow> wt_parse_command S (frame W (fst (wt_command_frame c)) (snd (wt_command_frame c))) = Inr c"
    "b \<notin> set known_commands \<Longrightarrow> wt_parse_command S (frame W b []) = Inl StInvalidCommand"
    "short_packet r \<Longrightarrow> wt_encode_response S r = wt_encoded W (wt_response_frame r)"
    "wt_encode_response S (error_raw S st b) = wt_encoded W (RError, [wt_status_byte st, b])"
  using assms by (simp_all add: serial_stack_def wire_ok_def)

lemma frame_not_empty [simp]: "frame W b p \<noteq> []"
  by (simp add: frame_def frame_body_def)

lemma frame_id: "frame W b p ! Suc 0 = b" "Suc 0 < length (frame W b p)"
  by (simp_all add: frame_def frame_body_def)

lemma session_fits:
  assumes "serial_stack S W" "length p \<le> 259"
  shows "fits_frame W (frame W b p)"
proof -
  have "cobs_max_len W (length p + 6) \<le> length p + 6 + (length p + 6) div 254 + 2"
    using assms(1) unfolding serial_stack_def wire_ok_def by blast
  also have "\<dots> \<le> 259 + 6 + (259 + 6) div 254 + 2" using assms(2) by (intro add_mono div_le_mono) auto
  also have "\<dots> \<le> MAX_FRAME_SIZE W" using assms(1) by (simp add: serial_stack_def)
  finally show ?thesis by (simp add: fits_frame_def frame_length)
qed

lemma command_short: "wt_command_ok c \<Longrightarrow> length (snd (wt_command_frame c)) \<le> 259"
  by (cases c) simp_all

lemma read_one_frame:
  assumes "serial_stack S W" "sr_acc r = acc_new S" "raw \<noteq> []" "fits_frame W raw"
  shows "reader_run S W [Some (cobs_encoder W raw)] r =
    (frame_action S (sr_sequence r) (process_frame S W (cobs_encoder W raw)), r\<lparr>sr_acc := acc_new S, sr_sequence := sr_sequence r + 1\<rparr>)"
proof -
  have "feed S (cobs_encoder W raw) (sr_acc r) = ([cobs_encoder W raw], acc_new S)"
    using stack_simps(2) [OF assms(1)] assms(2-4) by (simp add: link_ok_def)
  from read_bytes_stream [OF this, of W] show ?thesis by simp
qed

lemma process_known:
  assumes "serial_stack S W" "wt_command_ok c"
  shows "process_frame S W (cobs_encoder W (frame W (fst (wt_command_frame c)) (snd (wt_command_frame c)))) = Some (ReadCommand c)"
  using stack_simps(3,4) [OF assms(1)] session_fits [OF assms(1) command_short [OF assms(2)]] assms(2)
  by (simp add: process_frame_def)

lemma process_unknown:
  assumes "serial_stack S W" "b \<notin> set known_commands" "hub_command_from_byte b = None"
  shows "process_frame S W (cobs_encoder W (frame W b [])) = Some (ReadParseError StInvalidCommand b)"
proof -
  have "parse_raw W (frame W b []) = Inr (b, [])" using parse_raw_frame [of "[]" W b "[]"] by simp
  then show ?thesis
    using stack_simps(3,5) [OF assms(1)] session_fits [OF assms(1), of "[]"] assms(2,3) by (simp add: process_frame_def parse_command_def frame_id)
qed

text \<open>What the host makes of a response.\<close>

definition reading :: "host_response_id \<times> bytes \<Rightarrow> host_response" where
  "reading f = \<lparr>hr_version = PROTOCOL_VERSION, hr_id = fst f, hr_payload = snd f\<rparr>"

lemma wt_byte_read: "host_response_from_byte (wt_response_byte i) = Inr i"
  by (cases i) (simp_all add: host_response_from_byte_def)

lemma wt_encoded_arrives:
  assumes "serial_stack S W" "length (snd f) \<le> 259"
  obtains body where "wt_encoded W f = body @ [0]" "delivers 3000 (bytes_now (wt_encoded W f)) body"
    "decode_frame W (cobs_decode S) body = Inr (reading f)"
proof -
  let ?raw = "frame W (wt_response_byte (fst f)) (snd f)"
  note fits = session_fits [OF assms, of "wt_response_byte (fst f)"]
  obtain body where b: "cobs_encoder W ?raw = body @ [0]" "0 \<notin> set body" "body \<noteq> []"
    using assms(1) frame_not_empty fits unfolding serial_stack_def by blast
  have "length (snd f) < 65536" using assms(2) by simp
  then have "parse_raw W ?raw = Inr (wt_response_byte (fst f), snd f)" using parse_raw_frame [of "snd f" W _ "[]"] by simp
  then have "host_parse_response W ?raw = Inr (reading f)" by (simp add: host_parse_raw reading_def wt_byte_read)
  then have "decode_frame W (cobs_decode S) body = Inr (reading f)"
    using stack_simps(3) [OF assms(1) fits] b(1) by (simp add: decode_frame_def host_cobs_decode_def)
  moreover have "delivers 3000 (bytes_now (body @ [0])) body"
    using b(2,3) by (auto simp: delivers_def bytes_now_append bytes_now_simps intro!: exI [of _ "bytes_now body"])
  ultimately show ?thesis using that b(1) by (simp add: wt_encoded_def)
qed

lemma wt_frame_short: "short_packet r \<Longrightarrow> length (snd (wt_response_frame r)) \<le> 259"
  by (cases r) (simp_all add: to_le32_def to_le16_def)

subsection \<open>A working radio\<close>

text \<open>
  A radio that accepts every configuration and packet it is given and whose packets fit the protocol.
  What it receives, and when, is left open.
\<close>

locale working_radio = radio_contract R aired ok
  for R :: "'r lora_radio" and aired :: "'r \<Rightarrow> bytes list" and ok :: "'r \<Rightarrow> bool" +
  assumes works_start: "ok r \<Longrightarrow> ok (snd (radio_init R r))"
    and works_read: "ok r \<Longrightarrow> read_packet R r = (Inr p, r') \<Longrightarrow> length (rx_data p) \<le> 256"
    and works_configure: "ok r \<Longrightarrow> fst (configure R c r) = Inr ()"
    and works_transmit: "ok r \<Longrightarrow> bs \<noteq> [] \<Longrightarrow> length bs \<le> 255 \<Longrightarrow> fst (transmit R bs r) = Inr ()"

interpretation mock_works: working_radio "MockLoraRadio 256 now" tx_history
  "\<lambda>m. next_tx_error m = None \<and> next_configure_error m = None \<and> list_all (\<lambda>p. length (rx_data p) \<le> 256) (rx_queue m)"
  by unfold_locales
    (auto simp: MockLoraRadio_def mock_transmit_def mock_wait_rx_event_def mock_read_packet_def
      mock_configure_def extend_cap_def push_cap_def split: option.splits list.splits if_splits)

definition task_ok :: "('r \<Rightarrow> bool) \<Rightarrow> 'r lora_task \<Rightarrow> bool" where
  "task_ok ok t \<longleftrightarrow> ok (lt_radio t) \<and> lt_commands t = []"

text \<open>Between two exchanges.\<close>

definition session_ok :: "'a serial_lib \<Rightarrow> ('r \<Rightarrow> bool) \<Rightarrow> ('a, 'r) serial_session \<Rightarrow> bool" where
  "session_ok S ok s \<longleftrightarrow> sr_acc (ss_reader s) = acc_new S \<and> ss_port s = [] \<and> task_ok ok (ss_task s)"

definition unsolicited_packets :: "response_message list \<Rightarrow> bool" where
  "unsolicited_packets ms \<longleftrightarrow> list_all (\<lambda>m. \<exists>d rssi snr. m = Unsolicited (RxPacket d rssi snr) \<and> length d \<le> 256) ms"

context working_radio
begin

lemma wake_keeps:
  assumes "task_ok ok t"
  shows "task_ok ok (lora_turn R LoraRadioWakes t) \<and> lt_disp (lora_turn R LoraRadioWakes t) = lt_disp t
    \<and> aired (lt_radio (lora_turn R LoraRadioWakes t)) = aired (lt_radio t)
    \<and> (\<exists>ms. lt_published (lora_turn R LoraRadioWakes t) = lt_published t @ ms \<and> unsolicited_packets ms)"
proof -
  obtain a r where a: "arm_receive R (lt_radio t) = (a, r)" by force
  obtain w r1 where w: "wait_rx_event R RX_POLL_INTERVAL_MS r = (w, r1)" by force
  obtain p r2 where p: "read_packet R r1 = (p, r2)" by force
  have "ok r" using arm_ok [of "lt_radio t"] a assms by (simp add: task_ok_def)
  then have r1: "ok r1" using wait_ok [of r RX_POLL_INTERVAL_MS] w by simp
  have "\<exists>ms. lt_published (lora_turn R LoraRadioWakes t) = lt_published t @ ms \<and> unsolicited_packets ms"
  proof (cases w)
    case (Inr u)
    then show ?thesis using works_read [OF r1] p
      by (cases p) (auto simp: lora_turn_def a w p unsolicited_packets_def)
  qed (simp add: lora_turn_def a w unsolicited_packets_def)
  then show ?thesis
    using listen_airs [of t LoraRadioWakes] idle_turn [of LoraRadioWakes t R] assms by (simp add: task_ok_def)
qed

lemma wakes_keep:
  assumes "task_ok ok t"
  shows "task_ok ok ((lora_turn R LoraRadioWakes ^^ n) t) \<and> lt_disp ((lora_turn R LoraRadioWakes ^^ n) t) = lt_disp t
    \<and> aired (lt_radio ((lora_turn R LoraRadioWakes ^^ n) t)) = aired (lt_radio t)
    \<and> (\<exists>ms. lt_published ((lora_turn R LoraRadioWakes ^^ n) t) = lt_published t @ ms \<and> unsolicited_packets ms)"
proof (induction n)
  case 0
  then show ?case using assms by (simp add: unsolicited_packets_def)
next
  case (Suc n)
  let ?t = "(lora_turn R LoraRadioWakes ^^ n) t"
  obtain ms where ms: "lt_published ?t = lt_published t @ ms" "unsolicited_packets ms" using Suc by blast
  obtain ns where ns: "lt_published (lora_turn R LoraRadioWakes ?t) = lt_published ?t @ ns" "unsolicited_packets ns"
    using Suc wake_keeps by blast
  show ?case using Suc wake_keeps [of ?t] ms ns
    by (auto simp: unsolicited_packets_def intro!: exI [of _ "ms @ ns"])
qed

text \<open>A command among any packets: they are published before its answer.\<close>

lemma command_served:
  assumes t: "task_ok ok t" and c: "wt_command_ok (env_command e)" "env_command e \<noteq> Reboot"
    and p: "pace n = (k, now_ms)"
  obtains r resp d' r' t' ms where "ok r" "aired r = aired (lt_radio t)" "dispatch R (env_command e) now_ms (lt_disp t, r) = (resp, d', r')"
    "hub_step R pace (SendCommand e) (t, n) = (t', Suc n)" "task_ok ok t'" "lt_disp t' = d'" "lt_radio t' = r'"
    "lt_published t' = lt_published t @ ms @ [CommandResponse (env_source e) (env_sequence_id e) resp]"
    "unsolicited_packets ms"
proof -
  define t1 where "t1 = (lora_turn R LoraRadioWakes ^^ k) t"
  obtain ms where t1: "task_ok ok t1" "lt_disp t1 = lt_disp t" "aired (lt_radio t1) = aired (lt_radio t)" "lt_published t1 = lt_published t @ ms" "unsolicited_packets ms"
    using wakes_keep [OF t, of k] by (auto simp: t1_def)
  define t2 where "t2 = lora_do R (LoraEnqueue e) t1"
  have t2: "lt_commands t2 = [e]" "lt_radio t2 = lt_radio t1" "lt_disp t2 = lt_disp t" "lt_published t2 = lt_published t1"
    using t1 enqueue_step [of R e t1] by (simp_all add: t2_def task_ok_def COMMAND_CHANNEL_SIZE_def)
  define r where "r = snd (wait_rx_event R RX_POLL_INTERVAL_MS (snd (arm_receive R (lt_radio t2))))"
  have r: "ok r" "aired r = aired (lt_radio t)"
    using t1 arm_ok arm_silent wait_ok wait_silent by (simp_all add: r_def t2 task_ok_def)
  obtain u where u: "lora_turn R (LoraCommand now_ms) t2 =
      handle_command R now_ms e (t2\<lparr>lt_arm_failure_logged := u, lt_radio := r, lt_commands := []\<rparr>)"
    using command_turn [of t2 e "[]" R now_ms] t2(1) by (auto simp: r_def)
  obtain resp d' r' where d: "dispatch R (env_command e) now_ms (lt_disp t, r) = (resp, d', r')" by (metis prod_cases3)
  show ?thesis
  proof (rule that [OF r(1,2) d, of "lora_turn R (LoraCommand now_ms) t2" ms])
    show "hub_step R pace (SendCommand e) (t, n) = (lora_turn R (LoraCommand now_ms) t2, Suc n)"
      by (simp add: p t1_def t2_def Let_def)
    show "task_ok ok (lora_turn R (LoraCommand now_ms) t2)"
      using dispatch_airs [OF r(1) d] c(2) by (simp add: u handle_command_def t2 d task_ok_def)
    show "lt_published (lora_turn R (LoraCommand now_ms) t2)
        = lt_published t @ ms @ [CommandResponse (env_source e) (env_sequence_id e) resp]"
      using c(2) t1(4) by (simp add: u handle_command_def t2 d)
  qed (use c(2) t1(5) in \<open>simp_all add: u handle_command_def t2 d\<close>)
qed

end

subsection \<open>Exchanges\<close>

lemma written_append: "written S (ms @ ns) = written S ms @ written S ns"
  by (simp add: written_def)

lemma bytes_now_concat: "bytes_now (xs @ ys) = bytes_now xs @ bytes_now ys"
  by (simp add: bytes_now_def)

lemma packets_arrive:
  assumes "serial_stack S W" "unsolicited_packets ms"
  shows "\<exists>ps. bytes_now (written S ms) = concat (map fst ps) \<and>
    (\<forall>(es, p) \<in> set ps. delivers 3000 es p \<and> (\<exists>r. decode_frame W (cobs_decode S) p = Inr r \<and> hr_id r = RRxPacket))"
  using assms(2)
proof (induction ms)
  case Nil
  then show ?case by (simp add: written_def bytes_now_def exI [of _ "[]"])
next
  case (Cons m ms)
  obtain d rssi snr where m: "m = Unsolicited (RxPacket d rssi snr)" "length d \<le> 256"
    using Cons.prems by (auto simp: unsolicited_packets_def)
  let ?f = "wt_response_frame (RxPacket d rssi snr)"
  have "length (snd ?f) \<le> 259" using wt_frame_short [of "RxPacket d rssi snr"] m(2) by simp
  from wt_encoded_arrives [OF assms(1) this] obtain body where b: "delivers 3000 (bytes_now (wt_encoded W ?f)) body"
    "decode_frame W (cobs_decode S) body = Inr (reading ?f)" by blast
  have "written S [m] = wt_encoded W ?f"
    using stack_simps(6) [OF assms(1), of "RxPacket d rssi snr"] m by (simp add: written_def)
  then have w: "bytes_now (written S (m # ms)) = bytes_now (wt_encoded W ?f) @ bytes_now (written S ms)"
    using written_append [of S "[m]" ms] by (simp add: bytes_now_concat)
  obtain ps where ps: "bytes_now (written S ms) = concat (map fst ps)"
    "\<forall>(es, p) \<in> set ps. delivers 3000 es p \<and> (\<exists>r. decode_frame W (cobs_decode S) p = Inr r \<and> hr_id r = RRxPacket)"
    using Cons by (auto simp: unsolicited_packets_def)
  show ?case
    by (rule exI [of _ "(bytes_now (wt_encoded W ?f), body) # ps"]) (use w ps b in \<open>simp add: reading_def\<close>)
qed

lemma reply_arrives:
  assumes "serial_stack S W" "unsolicited_packets ms" "fst f \<noteq> RRxPacket" "length (snd f) \<le> 259"
  obtains c where "exchange_frame W (cobs_decode S) fr (quick_client (bytes_now (written S ms @ wt_encoded W f)))
    = (Inr (reading f), c)" "cl_input c = []"
proof -
  let ?c = "quick_client (bytes_now (written S ms @ wt_encoded W f))"
  define c1 where "c1 = ?c\<lparr>cl_sent := fr\<rparr>"
  have w: "write_port fr ?c = (True, c1)" "flush_port c1 = (True, c1)"
    by (simp_all add: write_port_def flush_port_def next_ok_def c1_def quick_client_def)
  obtain ps where ps: "bytes_now (written S ms) = concat (map fst ps)"
    "\<forall>(es, p) \<in> set ps. delivers 3000 es p \<and> (\<exists>r. decode_frame W (cobs_decode S) p = Inr r \<and> hr_id r = RRxPacket)"
    using packets_arrive [OF assms(1,2)] by blast
  obtain body where b: "delivers 3000 (bytes_now (wt_encoded W f)) body" "decode_frame W (cobs_decode S) body = Inr (reading f)"
    using wt_encoded_arrives [OF assms(1,4)] by blast
  have "\<exists>now'. read_command_response W (cobs_decode S) c1 = (Inr (reading f), c1\<lparr>cl_now := now', cl_input := []\<rparr>)"
    by (rule reply_after_packets [where packets = ps and es = "bytes_now (wt_encoded W f)" and body = body])
      (use ps b assms(3) in \<open>simp_all add: c1_def quick_client_def bytes_now_concat reading_def\<close>)
  then obtain now' where "read_command_response W (cobs_decode S) c1 = (Inr (reading f), c1\<lparr>cl_now := now', cl_input := []\<rparr>)" ..
  then have "exchange_frame W (cobs_decode S) fr ?c = (Inr (reading f), c1\<lparr>cl_now := now', cl_input := []\<rparr>)"
    by (simp add: exchange_frame_def w read_command_response_resync_def)
  then show ?thesis by (rule that) simp
qed

fun is_packet :: "response \<Rightarrow> bool" where
  "is_packet (RxPacket d rssi snr) = True"
| "is_packet r = False"

lemma dispatch_no_packet: "\<not> is_packet (fst (dispatch R c now_ms (d, r)))"
  by (cases c) (auto simp: handle_lora_tx_def handle_set_spreading_factor_def handle_get_version_def radio_config_response_def
      lora_error_to_response_def Let_def split: prod.split sum.split)

lemma no_packet_frame: "\<not> is_packet r \<Longrightarrow> fst (wt_response_frame r) \<noteq> RRxPacket \<and> short_packet r"
  by (cases r) simp_all

text \<open>An exchange is one call of the dispatcher, whatever the radio receives in between.\<close>

context working_radio
begin

lemma hub_exchange:
  assumes stack: "serial_stack S W" and s: "session_ok S ok s"
    and c: "wt_command_ok c" "c \<noteq> Reboot" and p: "pace (ss_served s) = (k, now_ms)"
  obtains r resp d' r' s' where "ok r" "aired r = aired (lt_radio (ss_task s))" "dispatch R c now_ms (lt_disp (ss_task s), r) = (resp, d', r')"
    "hub_device S W R pace (fst (wt_command_frame c)) (snd (wt_command_frame c)) s = (Inr (reading (wt_response_frame resp)), s')"
    "session_ok S ok s'" "lt_disp (ss_task s') = d'" "lt_radio (ss_task s') = r'" "ss_served s' = Suc (ss_served s)"
proof -
  let ?raw = "frame W (fst (wt_command_frame c)) (snd (wt_command_frame c))"
  let ?rd = "ss_reader s"
  let ?rd' = "?rd\<lparr>sr_acc := acc_new S, sr_sequence := sr_sequence ?rd + 1\<rparr>"
  let ?e = "\<lparr>env_command = c, env_source = Serial, env_sequence_id = sr_sequence ?rd\<rparr>"
  have sk: "sr_acc ?rd = acc_new S" "ss_port s = []" "task_ok ok (ss_task s)" using s by (simp_all add: session_ok_def)
  have rd: "reader_run S W [Some (cobs_encoder W ?raw)] ?rd = ([SendCommand ?e], ?rd')"
    using read_one_frame [OF stack sk(1) frame_not_empty session_fits [OF stack command_short [OF c(1)]]] process_known [OF stack c(1)] by simp
  have e: "wt_command_ok (env_command ?e)" "env_command ?e \<noteq> Reboot" using c by simp_all
  obtain r resp d' r' t' ms where st: "ok r" "aired r = aired (lt_radio (ss_task s))" "lt_radio t' = r'" "dispatch R c now_ms (lt_disp (ss_task s), r) = (resp, d', r')"
    "hub_step R pace (SendCommand ?e) (ss_task s, ss_served s) = (t', Suc (ss_served s))" "task_ok ok t'" "lt_disp t' = d'"
    "lt_published t' = lt_published (ss_task s) @ ms @ [CommandResponse Serial (sr_sequence ?rd) resp]" "unsolicited_packets ms"
    using command_served [where pace = pace and n = "ss_served s", OF sk(3) e p]
    by (simp del: hub_step.simps) metis
  let ?f = "wt_response_frame resp"
  have resp: "fst ?f \<noteq> RRxPacket" "short_packet resp" "length (snd ?f) \<le> 259"
    using dispatch_no_packet [of R c now_ms] st(4) no_packet_frame [of resp] wt_frame_short [of resp] by (metis fst_conv)+
  have w: "written S (drop (length (lt_published (ss_task s))) (lt_published t')) = written S ms @ wt_encoded W ?f"
    using stack_simps(6) [OF stack resp(2)] by (simp add: st(8) written_append) (simp add: written_def)
  have ans: "hub_answers S W R pace (cobs_encoder W ?raw) s
      = (written S ms @ wt_encoded W ?f, s\<lparr>ss_reader := ?rd', ss_task := t', ss_served := Suc (ss_served s)\<rparr>)"
    using st(5) unfolding hub_answers_def rd by (simp add: w del: hub_step.simps)
  obtain cl where cl: "exchange_frame W (cobs_decode S) (cobs_encoder W ?raw) (quick_client (bytes_now (written S ms @ wt_encoded W ?f)))
      = (Inr (reading ?f), cl)" "cl_input cl = []"
    using reply_arrives [OF stack st(9) resp(1,3)] .
  show ?thesis
    by (rule that [OF st(1,2,4), of "s\<lparr>ss_reader := ?rd', ss_task := t', ss_served := Suc (ss_served s), ss_port := []\<rparr>"])
      (use st(3,6,7) sk in \<open>simp_all add: hub_device_def host_cobs_encode_def host_frame ans cl session_ok_def\<close>)
qed

end

text \<open>An unknown command is answered by the reader itself, without the radio task.\<close>

lemma unknown_exchange:
  assumes stack: "serial_stack S W" and s: "session_ok S ok s"
    and b: "b \<notin> set known_commands" "hub_command_from_byte b = None"
  obtains s' where "hub_device S W R pace b [] s = (Inr (reading (RError, [wt_status_byte StInvalidCommand, b])), s')"
    "session_ok S ok s'" "lt_disp (ss_task s') = lt_disp (ss_task s)" "ss_served s' = ss_served s"
proof -
  let ?raw = "frame W b []"
  let ?rd = "ss_reader s"
  let ?rd' = "?rd\<lparr>sr_acc := acc_new S, sr_sequence := sr_sequence ?rd + 1\<rparr>"
  let ?m = "CommandResponse Serial (sr_sequence ?rd) (error_raw S StInvalidCommand b)"
  let ?t = "(ss_task s)\<lparr>lt_published := lt_published (ss_task s) @ [?m]\<rparr>"
  let ?f = "(RError, [0x01, b])"
  have sk: "sr_acc ?rd = acc_new S" "ss_port s = []" "task_ok ok (ss_task s)" using s by (simp_all add: session_ok_def)
  have rd: "reader_run S W [Some (cobs_encoder W ?raw)] ?rd = ([Publish ?m], ?rd')"
    using read_one_frame [OF stack sk(1) frame_not_empty session_fits [OF stack, of "[]"]] process_unknown [OF stack b] by simp
  have ans: "hub_answers S W R pace (cobs_encoder W ?raw) s = (written S [] @ wt_encoded W ?f, s\<lparr>ss_reader := ?rd', ss_task := ?t\<rparr>)"
    using stack_simps(7) [OF stack] unfolding hub_answers_def rd by (simp add: written_def)
  have f: "fst ?f \<noteq> RRxPacket" "length (snd ?f) \<le> 259" "unsolicited_packets []" by (simp_all add: unsolicited_packets_def)
  obtain cl where cl: "exchange_frame W (cobs_decode S) (cobs_encoder W ?raw) (quick_client (bytes_now (written S [] @ wt_encoded W ?f)))
      = (Inr (reading ?f), cl)" "cl_input cl = []"
    using reply_arrives [OF stack f(3,1,2)] .
  show ?thesis
    by (rule that [of "s\<lparr>ss_reader := ?rd', ss_task := ?t, ss_port := []\<rparr>"])
      (use sk in \<open>simp_all add: hub_device_def host_cobs_encode_def host_frame ans cl session_ok_def task_ok_def\<close>)
qed

end
