(* ===== verification/Host_Tests.thy ===== *)
theory Host_Tests imports Serial_Session Dispatcher_Tests begin

text \<open>
  The hardware tests that drive one device over the serial link
  (\<open>src/integration_tests/src/tests.rs\<close> and \<open>duty_cycle_tests.rs\<close>), as functions of a device, and what
  they find on the hub: run against the session of \<open>Serial_Session\<close>, with any working radio, every test
  passes. Of a test result the text for the screen is left out, and so is progress output.
\<close>

subsection \<open>Commands of the tests\<close>

definition ask :: "'d device \<Rightarrow> host_command_id \<Rightarrow> bytes \<Rightarrow> 'd \<Rightarrow> (host_error + host_response) \<times> 'd" where
  "ask V i = V (host_command_byte i)"

text \<open>A check of the response; an error fails it.\<close>

definition passes :: "(host_error + host_response) \<times> 'd \<Rightarrow> (host_response \<Rightarrow> bool) \<Rightarrow> bool \<times> 'd" where
  "passes x check = (case x of (Inr response, d) \<Rightarrow> (check response, d) | (Inl e, d) \<Rightarrow> (False, d))"

text \<open>A loop over inputs; the first failure ends the test.\<close>

primrec for_each :: "('x \<Rightarrow> 'd \<Rightarrow> bool \<times> 'd) \<Rightarrow> 'x list \<Rightarrow> 'd \<Rightarrow> bool \<times> 'd" where
  "for_each f [] d = (True, d)"
| "for_each f (x # xs) d = (case f x d of (True, d) \<Rightarrow> for_each f xs d | (False, d) \<Rightarrow> (False, d))"

subsection \<open>The functional tests\<close>

definition test_get_version :: "'d device \<Rightarrow> 'd \<Rightarrow> bool \<times> 'd" where
  "test_get_version V d =
     passes (ask V HostGetVersion [] d) (\<lambda>response. hr_id response = RVersion \<and> length (hr_payload response) = 3)"

definition test_invalid_command :: "'d device \<Rightarrow> 'd \<Rightarrow> bool \<times> 'd" where
  "test_invalid_command V d =
     passes (V 0xFE [] d) (\<lambda>response. hr_id response = RError \<and>
       (case hr_payload response of [] \<Rightarrow> False | status # _ \<Rightarrow> host_status_from_byte status = Inr HostInvalidCommand))"

definition parse_radio_config :: "bytes \<Rightarrow> (u32 \<times> u8 \<times> u32 \<times> u8 \<times> i8) option" where
  "parse_radio_config p =
     (if length p \<noteq> 11 then None
      else Some (from_le32 (p ! 0) (p ! 1) (p ! 2) (p ! 3), p ! 4, from_le32 (p ! 5) (p ! 6) (p ! 7) (p ! 8),
        p ! 9, ucast (p ! 10)))"

definition reports_sf :: "u8 \<Rightarrow> host_response \<Rightarrow> bool" where
  "reports_sf target response \<longleftrightarrow> hr_id response = RRadioConfig \<and>
     (case parse_radio_config (hr_payload response) of Some (_, sf, _, _, _) \<Rightarrow> sf = target | None \<Rightarrow> False)"

definition test_radio_config_default :: "'d device \<Rightarrow> 'd \<Rightarrow> bool \<times> 'd" where
  "test_radio_config_default V d = passes (ask V HostGetRadioConfig [] d) (reports_sf 11)"

definition test_set_spreading_factor :: "'d device \<Rightarrow> 'd \<Rightarrow> bool \<times> 'd" where
  "test_set_spreading_factor V =
     for_each (\<lambda>target d. passes (ask V HostSetSpreadingFactor [target] d) (reports_sf target)) [9, 11]"

definition test_invalid_spreading_factor :: "'d device \<Rightarrow> 'd \<Rightarrow> bool \<times> 'd" where
  "test_invalid_spreading_factor V =
     for_each (\<lambda>bad_sf d. passes (ask V HostSetSpreadingFactor [bad_sf] d) (\<lambda>response. hr_id response = RError \<and>
       (case hr_payload response of [] \<Rightarrow> False | status # _ \<Rightarrow> host_status_from_byte status = Inr HostInvalidParameter))) [6, 13]"

definition test_multiple_get_version :: "'d device \<Rightarrow> 'd \<Rightarrow> bool \<times> 'd" where
  "test_multiple_get_version V =
     for_each (\<lambda>i d. passes (ask V HostGetVersion [] d) (\<lambda>response. hr_id response = RVersion)) [0..<5]"

definition run_all_tests :: "'d device \<Rightarrow> 'd \<Rightarrow> bool list \<times> 'd" where
  "run_all_tests V d =
     (let (a, d) = test_get_version V d; (b, d) = test_invalid_command V d; (c, d) = test_multiple_get_version V d;
          (e, d) = test_radio_config_default V d; (f, d) = test_set_spreading_factor V d;
          (g, d) = test_invalid_spreading_factor V d
      in ([a, b, c, e, f, g], d))"

subsection \<open>The lockout test\<close>

datatype lockout_failure =
    TestClient host_error | WrongStart u8 | Unexpected host_response_id | NoRefusal | WrongCount nat | BadHint u32
  | WrongFactor u8 | NotShared | ShortPayload | NotRefused host_response_id

definition and_then ::
  "('d \<Rightarrow> ('e + 'a) \<times> 'd) \<Rightarrow> ('a \<Rightarrow> 'd \<Rightarrow> ('e + 'b) \<times> 'd) \<Rightarrow> 'd \<Rightarrow> ('e + 'b) \<times> 'd" where
  "and_then m f d = (case m d of (Inl e, d) \<Rightarrow> (Inl e, d) | (Inr x, d) \<Rightarrow> f x d)"

definition outcome :: "'e + 'a \<Rightarrow> 'd \<Rightarrow> ('e + 'a) \<times> 'd" where
  "outcome r d = (r, d)"

definition call_host :: "('d \<Rightarrow> (host_error + 'a) \<times> 'd) \<Rightarrow> 'd \<Rightarrow> (lockout_failure + 'a) \<times> 'd" where
  "call_host m d = (case m d of (r, d) \<Rightarrow> (map_err TestClient r, d))"

definition require :: "bool \<Rightarrow> lockout_failure \<Rightarrow> lockout_failure + unit" where
  "require b e = (if b then Inr () else Inl e)"

definition MAX_SF11_SENDS :: nat where "MAX_SF11_SENDS = 130"
definition MAX_SF7_DRAIN :: nat where "MAX_SF7_DRAIN = 25"

definition read_spreading_factor :: "'d device \<Rightarrow> 'd \<Rightarrow> (lockout_failure + u8) \<times> 'd" where
  "read_spreading_factor V = and_then (call_host (ask V HostGetRadioConfig [])) (\<lambda>response.
     outcome (if hr_id response \<noteq> RRadioConfig then Inl (Unexpected (hr_id response))
       else if length (hr_payload response) \<le> 4 then Inl ShortPayload else Inr (hr_payload response ! 4)))"

definition parse_retry_secs :: "bytes \<Rightarrow> lockout_failure + u32" where
  "parse_retry_secs p =
     (if length p \<noteq> 4 then Inl ShortPayload else Inr (from_le32 (p ! 0) (p ! 1) (p ! 2) (p ! 3)))"

definition hint_ok :: "u32 \<Rightarrow> bool" where
  "hint_ok secs \<longleftrightarrow> \<not> (secs = 0 \<or> 3600 < secs)"

text \<open>Sending until the device refuses: the number of packets sent, and the hint of the refusal.\<close>

primrec spend_loop :: "nat \<Rightarrow> 'd device \<Rightarrow> nat \<Rightarrow> 'd \<Rightarrow> (lockout_failure + nat \<times> u32 option) \<times> 'd" where
  "spend_loop 0 V sent = outcome (Inr (sent, None))"
| "spend_loop (Suc n) V sent = and_then (call_host (ask V HostLoraTx test_payload)) (\<lambda>response.
     if hr_id response = RTxComplete then spend_loop n V (sent + 1)
     else if hr_id response = RTxRefused then
       outcome (rbind (parse_retry_secs (hr_payload response)) (\<lambda>secs. Inr (sent, Some secs)))
     else outcome (Inl (Unexpected (hr_id response))))"

text \<open>The same with the hint checked at once: whether the device refused at all.\<close>

primrec drain_sends :: "nat \<Rightarrow> 'd device \<Rightarrow> 'd \<Rightarrow> (lockout_failure + bool) \<times> 'd" where
  "drain_sends 0 V = outcome (Inr False)"
| "drain_sends (Suc n) V = and_then (call_host (ask V HostLoraTx test_payload)) (\<lambda>response.
     if hr_id response = RTxComplete then drain_sends n V
     else if hr_id response = RTxRefused then
       outcome (rbind (parse_retry_secs (hr_payload response)) (\<lambda>secs. if hint_ok secs then Inr True else Inl (BadHint secs)))
     else outcome (Inl (Unexpected (hr_id response))))"

definition change_factor :: "'d device \<Rightarrow> u8 \<Rightarrow> 'd \<Rightarrow> (host_error + unit) \<times> 'd" where
  "change_factor V sf d =
     (let (r, d) = ask V HostSetSpreadingFactor [sf] d
      in (rbind r (\<lambda>r. if hr_id r \<noteq> RRadioConfig then Inl (UnexpectedResponse (hr_id r))
            else if \<not> (4 < length (hr_payload r) \<and> hr_payload r ! 4 = sf) then Inl (NotApplied sf) else Inr ()), d))"

text \<open>
  The test, once the client has found the device ready. It gives the number of packets that were sent
  before the lockout. The result of the reboot that ends it is dropped.
\<close>

definition lockout_test :: "'d device \<Rightarrow> 'd \<Rightarrow> (lockout_failure + nat) \<times> 'd" where
  "lockout_test V =
     and_then (read_spreading_factor V) (\<lambda>sf.
     and_then (outcome (require (sf = 11) (WrongStart sf))) (\<lambda>_.
     and_then (spend_loop MAX_SF11_SENDS V 0) (\<lambda>(sent, retry).
     and_then (outcome (case retry of None \<Rightarrow> Inl NoRefusal | Some secs \<Rightarrow> Inr secs)) (\<lambda>retry_secs.
     and_then (outcome (require (100 \<le> sent \<and> sent \<le> 115) (WrongCount sent))) (\<lambda>_.
     and_then (outcome (require (hint_ok retry_secs) (BadHint retry_secs))) (\<lambda>_.
     and_then (call_host (change_factor V 7)) (\<lambda>_.
     and_then (read_spreading_factor V) (\<lambda>sf.
     and_then (outcome (require (sf = 7) (WrongFactor sf))) (\<lambda>_.
     and_then (drain_sends MAX_SF7_DRAIN V) (\<lambda>locked_out.
     and_then (outcome (require locked_out NotShared)) (\<lambda>_.
     and_then (call_host (ask V HostLoraTx test_payload)) (\<lambda>response.
     and_then (outcome (require (hr_id response = RTxRefused) (NotRefused (hr_id response)))) (\<lambda>_.
     and_then (\<lambda>d. case V 0x03 [] d of (_, d) \<Rightarrow> (Inr (), d)) (\<lambda>_. outcome (Inr sent)))))))))))))))"

subsection \<open>The tests on the hub\<close>

text \<open>The hub in the first 59 minutes, with the spreading factor it runs at and the airtime it granted.\<close>

definition hub_at ::
  "'a serial_lib \<Rightarrow> ('r \<Rightarrow> bool) \<Rightarrow> pace \<Rightarrow> u8 \<Rightarrow> nat \<Rightarrow> ('a, 'r) serial_session \<Rightarrow> bool" where
  "hub_at S ok pace sf spent s \<longleftrightarrow> session_ok S ok s
     \<and> disp_config (lt_disp (ss_task s)) = default_lora_config\<lparr>spreading_factor := sf\<rparr>
     \<and> young (disp_duty (lt_disp (ss_task s))) \<and> sum_list (window (disp_duty (lt_disp (ss_task s)))) = spent
     \<and> head_start_ms (disp_duty (lt_disp (ss_task s))) \<le> snd (pace (ss_served s))"

definition steady :: "pace \<Rightarrow> bool" where
  "steady pace \<longleftrightarrow> (\<forall>n. snd (pace n) \<le> snd (pace (Suc n))) \<and> (\<forall>n. unat (snd (pace n)) < 3540000)"

definition config_frame :: "u8 \<Rightarrow> host_response_id \<times> bytes" where
  "config_frame sf = (RRadioConfig, to_le32 FREQUENCY_HZ @ [sf] @ to_le32 BANDWIDTH_KHZ @ [CODING_RATE, ucast TX_POWER_DBM])"

context working_radio
begin

lemma hub_at_start:
  assumes "ok r"
  shows "hub_at S ok pace 11 0 (session_start S R r)"
proof -
  have "head_start_ms (disp_duty new_dispatcher) = 0" by (simp add: new_dispatcher_def for_frequency_def)
  moreover have "disp_config new_dispatcher = default_lora_config\<lparr>spreading_factor := 11\<rparr>"
    by (simp add: new_dispatcher_def default_lora_config_def SPREADING_FACTOR_def)
  ultimately show ?thesis
    using young_start start_sum works_start [OF assms]
    by (simp add: hub_at_def session_start_def session_ok_def task_ok_def lora_start_def new_reader_task_def)
qed

text \<open>A command that leaves the budget alone.\<close>

lemma plain_exchange:
  assumes stack: "serial_stack S W" and p: "steady pace" and s: "hub_at S ok pace sf spent s"
    and c: "wt_command_ok c" "c \<noteq> Reboot" "\<And>bs. c \<noteq> LoraTx bs"
    and eff: "\<And>d r now_ms. ok r \<Longrightarrow> disp_config d = default_lora_config\<lparr>spreading_factor := sf\<rparr> \<Longrightarrow>
      \<exists>r'. dispatch R c now_ms (d, r) = (resp, d\<lparr>disp_config := default_lora_config\<lparr>spreading_factor := sf'\<rparr>\<rparr>, r')"
  shows "\<exists>s'. hub_device S W R pace (fst (wt_command_frame c)) (snd (wt_command_frame c)) s = (Inr (reading (wt_response_frame resp)), s')
    \<and> hub_at S ok pace sf' spent s' \<and> aired (lt_radio (ss_task s')) = aired (lt_radio (ss_task s))"
proof -
  obtain k now_ms where pn: "pace (ss_served s) = (k, now_ms)" by force
  have so: "session_ok S ok s" using s by (simp add: hub_at_def)
  obtain r resp' d' r' s' where x: "ok r" "aired r = aired (lt_radio (ss_task s))" "dispatch R c now_ms (lt_disp (ss_task s), r) = (resp', d', r')"
    "hub_device S W R pace (fst (wt_command_frame c)) (snd (wt_command_frame c)) s = (Inr (reading (wt_response_frame resp')), s')"
    "session_ok S ok s'" "lt_disp (ss_task s') = d'" "lt_radio (ss_task s') = r'" "ss_served s' = Suc (ss_served s)"
    using hub_exchange [where pace = pace and s = s, OF stack so c(1,2) pn] .
  obtain r'' where e: "dispatch R c now_ms (lt_disp (ss_task s), r)
      = (resp, (lt_disp (ss_task s))\<lparr>disp_config := default_lora_config\<lparr>spreading_factor := sf'\<rparr>\<rparr>, r'')"
    using eff [OF x(1), of "lt_disp (ss_task s)" now_ms] s by (auto simp: hub_at_def)
  have d': "resp' = resp" "lt_disp (ss_task s') = (lt_disp (ss_task s))\<lparr>disp_config := default_lora_config\<lparr>spreading_factor := sf'\<rparr>\<rparr>"
    using x(3,6) e by simp_all
  have "snd (pace (ss_served s)) \<le> snd (pace (Suc (ss_served s)))"
    using p by (simp add: steady_def)
  moreover have "aired r' = aired r"
    using dispatch_airs [OF x(1,3)] c(3) by (cases c) (auto simp: charge_of_def)
  ultimately show ?thesis using x(2,4,5,7,8) s by (auto simp: hub_at_def d' intro: order_trans)
qed

lemma version_exchange:
  assumes "serial_stack S W" "steady pace" "hub_at S ok pace sf spent s"
  shows "\<exists>s'. ask (hub_device S W R pace) HostGetVersion [] s = (Inr (reading (RVersion, [VERSION_MAJOR, VERSION_MINOR, VERSION_PATCH])), s')
    \<and> hub_at S ok pace sf spent s'"
  using plain_exchange [OF assms, of GetVersion "Version VERSION_MAJOR VERSION_MINOR VERSION_PATCH" sf]
  by (auto simp: ask_def handle_get_version_def)

lemma config_exchange:
  assumes "serial_stack S W" "steady pace" "hub_at S ok pace sf spent s"
  shows "\<exists>s'. ask (hub_device S W R pace) HostGetRadioConfig [] s = (Inr (reading (config_frame sf)), s')
    \<and> hub_at S ok pace sf spent s'"
  using plain_exchange [OF assms, of GetRadioConfig "RadioConfig FREQUENCY_HZ sf BANDWIDTH_KHZ CODING_RATE TX_POWER_DBM" sf]
  by (auto simp: ask_def radio_config_response_def default_lora_config_def config_frame_def)

lemma factor_exchange:
  assumes "serial_stack S W" "steady pace" "hub_at S ok pace sf spent s"
  shows "\<exists>s'. ask (hub_device S W R pace) HostSetSpreadingFactor [sf'] s
      = (Inr (reading (if 7 \<le> sf' \<and> sf' \<le> 12 then config_frame sf' else (RError, [0x05, 0x11]))), s')
    \<and> hub_at S ok pace (if 7 \<le> sf' \<and> sf' \<le> 12 then sf' else sf) spent s'
    \<and> aired (lt_radio (ss_task s')) = aired (lt_radio (ss_task s))"
proof (cases "7 \<le> sf' \<and> sf' \<le> 12")
  case True
  have "\<exists>r'. dispatch R (SetSpreadingFactor sf') now_ms (d, r) =
      (RadioConfig FREQUENCY_HZ sf' BANDWIDTH_KHZ CODING_RATE TX_POWER_DBM, d\<lparr>disp_config := default_lora_config\<lparr>spreading_factor := sf'\<rparr>\<rparr>, r')"
    if r: "ok r" and d: "disp_config d = default_lora_config\<lparr>spreading_factor := sf\<rparr>" for d r now_ms
  proof -
    obtain r' where r': "configure R (default_lora_config\<lparr>spreading_factor := sf'\<rparr>) r = (Inr (), r')"
      using works_configure [OF r, of "default_lora_config\<lparr>spreading_factor := sf'\<rparr>"] by (metis prod.collapse)
    then show ?thesis using True
      by (simp add: handle_set_spreading_factor_def d radio_config_response_def) (simp add: default_lora_config_def)
  qed
  from plain_exchange [OF assms _ _ _ this] True show ?thesis
    by (auto simp: ask_def config_frame_def)
next
  case False
  from plain_exchange [OF assms, of "SetSpreadingFactor sf'" "ErrorResponse StInvalidParameter IdSetSpreadingFactor" sf] False show ?thesis
    by (auto simp: ask_def handle_set_spreading_factor_def)
qed

lemma unknown_ask:
  assumes "serial_stack S W" "hub_at S ok pace sf spent s"
  shows "\<exists>s'. hub_device S W R pace 0xFE [] s = (Inr (reading (RError, [0x01, 0xFE])), s') \<and> hub_at S ok pace sf spent s'"
proof -
  have s: "session_ok S ok s" using assms(2) by (simp add: hub_at_def)
  have "(0xFE :: u8) \<notin> set known_commands" "hub_command_from_byte 0xFE = None"
    by (simp_all add: known_commands_def hub_command_from_byte_def)
  from unknown_exchange [where R = R and pace = pace, OF assms(1) s this] obtain s' where
    "hub_device S W R pace 0xFE [] s = (Inr (reading (RError, [wt_status_byte StInvalidCommand, 0xFE])), s')"
    "session_ok S ok s'" "lt_disp (ss_task s') = lt_disp (ss_task s)" "ss_served s' = ss_served s" .
  then show ?thesis using assms(2) by (auto simp: hub_at_def)
qed

text \<open>A packet: what it costs, and that it goes on the air when it is granted.\<close>

lemma air_exchange:
  assumes stack: "serial_stack S W" and p: "steady pace" and s: "hub_at S ok pace sf spent s"
    and bs: "bs \<noteq> []" "length bs \<le> 255"
    and a: "unat (packet_airtime (default_lora_config\<lparr>spreading_factor := sf\<rparr>) bs) = a" "a \<le> 360000"
  shows "\<exists>s' r. ok r \<and> aired r = aired (lt_radio (ss_task s)) \<and>
    (if spent + a \<le> 360000
     then ask (hub_device S W R pace) HostLoraTx bs s = (Inr (reading (RTxComplete, [])), s') \<and> hub_at S ok pace sf (spent + a) s'
       \<and> lt_radio (ss_task s') = snd (transmit R bs r)
     else (\<exists>secs. ask (hub_device S W R pace) HostLoraTx bs s = (Inr (reading (RTxRefused, to_le32 secs)), s') \<and> hint_ok secs)
       \<and> hub_at S ok pace sf spent s')"
proof -
  obtain k now_ms where pn: "pace (ss_served s) = (k, now_ms)" by force
  have so: "session_ok S ok s" using s by (simp add: hub_at_def)
  have c: "wt_command_ok (LoraTx bs)" "LoraTx bs \<noteq> Reboot" using bs by simp_all
  obtain r resp d' r' s' where x: "ok r" "aired r = aired (lt_radio (ss_task s))"
    "dispatch R (LoraTx bs) now_ms (lt_disp (ss_task s), r) = (resp, d', r')"
    "hub_device S W R pace (fst (wt_command_frame (LoraTx bs))) (snd (wt_command_frame (LoraTx bs))) s
      = (Inr (reading (wt_response_frame resp)), s')"
    "session_ok S ok s'" "lt_disp (ss_task s') = d'" "lt_radio (ss_task s') = r'" "ss_served s' = Suc (ss_served s)"
    using hub_exchange [where pace = pace and s = s, OF stack so c pn] .
  define d where "d = lt_disp (ss_task s)"
  have d: "disp_config d = default_lora_config\<lparr>spreading_factor := sf\<rparr>" "young (disp_duty d)"
    "sum_list (window (disp_duty d)) = spent" "head_start_ms (disp_duty d) \<le> now_ms" "unat now_ms < 3540000"
    using s p pn by (simp_all add: hub_at_def d_def steady_def) (metis snd_conv)
  have air: "unat (packet_airtime (disp_config d) bs) = a" using a(1) d(1) by simp
  obtain q duty where qd: "try_claim (disp_duty d) now_ms (packet_airtime (disp_config d) bs) = (q, duty)" by force
  have cl: "young duty" "head_start_ms duty \<le> now_ms" "if spent + a \<le> 360000 then q = Inr () \<and> sum_list (window duty) = spent + a
      else (\<exists>w. q = Inl (DutyCycleExceeded (Some w)) \<and> 0 < w \<and> w \<le> 3600000) \<and> sum_list (window duty) = spent"
    using young_claim [OF d(2,4,5), of "packet_airtime (disp_config d) bs"] a(2)
    unfolding air d(3) qd fst_conv snd_conv by simp_all
  have later: "now_ms \<le> snd (pace (Suc (ss_served s)))"
    using p pn unfolding steady_def by (metis snd_conv)
  have at: "hub_at S ok pace sf n s'" if "d' = d\<lparr>disp_duty := duty\<rparr>" "sum_list (window duty) = n" for n
    using x(5,6,8) that cl(1,2) later d(1) by (auto simp: hub_at_def intro: order_trans)
  show ?thesis
  proof (cases "spent + a \<le> 360000")
    case True
    obtain r'' where t: "transmit R bs r = (Inr (), r'')"
      using works_transmit [OF x(1) bs] by (metis prod.collapse)
    have "resp = TxComplete" "d' = d\<lparr>disp_duty := duty\<rparr>" "r' = r''"
      using x(3) cl True by (simp_all add: handle_lora_tx_def d_def [symmetric] qd t)
    then show ?thesis using True x(1,2,4,7) at cl t by (auto simp: ask_def intro!: exI [of _ s'] exI [of _ r])
  next
    case False
    obtain w where w: "q = Inl (DutyCycleExceeded (Some w))" "0 < w" "w \<le> 3600000" "sum_list (window duty) = spent"
      using cl False by auto
    have "resp = TxRefused (retry_secs (Some w))" "d' = d\<lparr>disp_duty := duty\<rparr>"
      using x(3) by (simp_all add: handle_lora_tx_def d_def [symmetric] qd w(1))
    moreover have "hint_ok (retry_secs (Some w))"
      using retry_secs_bounds [OF w(2,3)] by (auto simp: hint_ok_def word_less_nat_alt)
    ultimately show ?thesis using False x(1,2,4) at w(4) by (auto simp: ask_def intro!: exI [of _ s'] exI [of _ r])
  qed
qed

lemma packet_exchange:
  assumes "serial_stack S W" "steady pace" "hub_at S ok pace sf spent s"
    and "unat (packet_airtime (default_lora_config\<lparr>spreading_factor := sf\<rparr>) test_payload) = a" "a \<le> 360000"
  shows "\<exists>s'. if spent + a \<le> 360000
    then ask (hub_device S W R pace) HostLoraTx test_payload s = (Inr (reading (RTxComplete, [])), s') \<and> hub_at S ok pace sf (spent + a) s'
    else (\<exists>secs. ask (hub_device S W R pace) HostLoraTx test_payload s = (Inr (reading (RTxRefused, to_le32 secs)), s') \<and> hint_ok secs)
      \<and> hub_at S ok pace sf spent s'"
  using air_exchange [OF assms(1-3) _ _ assms(4,5)] by (auto simp: test_payload_def split: if_splits)

lemma retry_payload: "parse_retry_secs (to_le32 secs) = Inr secs"
  by (simp add: parse_retry_secs_def to_le32_def from_le32_to_le32)

text \<open>Sending until the refusal fills the allowance up to less than one packet.\<close>

lemma spend_fills:
  assumes stack: "serial_stack S W" and p: "steady pace"
    and a: "unat (packet_airtime (default_lora_config\<lparr>spreading_factor := sf\<rparr>) test_payload) = a" "0 < a" "a \<le> 360000"
  shows "hub_at S ok pace sf spent s \<Longrightarrow> spent \<le> 360000 \<Longrightarrow> (360000 - spent) div a < n \<Longrightarrow>
    \<exists>secs s'. spend_loop n (hub_device S W R pace) sent s = (Inr (sent + (360000 - spent) div a, Some secs), s') \<and> hint_ok secs
      \<and> hub_at S ok pace sf (spent + (360000 - spent) div a * a) s'"
proof (induction n arbitrary: sent spent s)
  case (Suc n)
  show ?case
  proof (cases "spent + a \<le> 360000")
    case True
    obtain s1 where s1: "ask (hub_device S W R pace) HostLoraTx test_payload s = (Inr (reading (RTxComplete, [])), s1)"
      "hub_at S ok pace sf (spent + a) s1"
      using packet_exchange [OF stack p Suc.prems(1) a(1,3)] True by auto
    have q: "(360000 - spent) div a = Suc ((360000 - (spent + a)) div a)"
      using True a(2) by (simp add: le_div_geq)
    obtain secs s' where "spend_loop n (hub_device S W R pace) (sent + 1) s1 =
        (Inr (sent + 1 + (360000 - (spent + a)) div a, Some secs), s')" "hint_ok secs"
      "hub_at S ok pace sf (spent + a + (360000 - (spent + a)) div a * a) s'"
      using Suc.IH [OF s1(2) True, of "sent + 1"] Suc.prems(3) q by auto
    then show ?thesis using q by (auto simp: and_then_def call_host_def s1(1) reading_def algebra_simps)
  next
    case False
    then obtain secs s1 where s1: "ask (hub_device S W R pace) HostLoraTx test_payload s = (Inr (reading (RTxRefused, to_le32 secs)), s1)"
      "hint_ok secs" "hub_at S ok pace sf spent s1"
      using packet_exchange [OF stack p Suc.prems(1) a(1,3)] by auto
    moreover have "(360000 - spent) div a = 0" using False Suc.prems(2) by simp
    ultimately show ?thesis by (auto simp: and_then_def call_host_def outcome_def reading_def retry_payload)
  qed
qed simp

lemma drain_fills:
  assumes stack: "serial_stack S W" and p: "steady pace"
    and a: "unat (packet_airtime (default_lora_config\<lparr>spreading_factor := sf\<rparr>) test_payload) = a" "0 < a" "a \<le> 360000"
  shows "hub_at S ok pace sf spent s \<Longrightarrow> spent \<le> 360000 \<Longrightarrow> (360000 - spent) div a < n \<Longrightarrow>
    \<exists>s'. drain_sends n (hub_device S W R pace) s = (Inr True, s') \<and> hub_at S ok pace sf (spent + (360000 - spent) div a * a) s'"
proof (induction n arbitrary: spent s)
  case (Suc n)
  show ?case
  proof (cases "spent + a \<le> 360000")
    case True
    obtain s1 where s1: "ask (hub_device S W R pace) HostLoraTx test_payload s = (Inr (reading (RTxComplete, [])), s1)"
      "hub_at S ok pace sf (spent + a) s1"
      using packet_exchange [OF stack p Suc.prems(1) a(1,3)] True by auto
    have q: "(360000 - spent) div a = Suc ((360000 - (spent + a)) div a)"
      using True a(2) by (simp add: le_div_geq)
    then show ?thesis using Suc.IH [OF s1(2) True] Suc.prems(3)
      by (auto simp: and_then_def call_host_def s1(1) reading_def algebra_simps)
  next
    case False
    then obtain secs s1 where s1: "ask (hub_device S W R pace) HostLoraTx test_payload s = (Inr (reading (RTxRefused, to_le32 secs)), s1)"
      "hint_ok secs" "hub_at S ok pace sf spent s1"
      using packet_exchange [OF stack p Suc.prems(1) a(1,3)] by auto
    moreover have "(360000 - spent) div a = 0" using False Suc.prems(2) by simp
    ultimately show ?thesis by (auto simp: and_then_def call_host_def outcome_def reading_def retry_payload)
  qed
qed simp

text \<open>The tests, one after the other.\<close>

lemma hub_tests:
  assumes stack: "serial_stack S W" and p: "steady pace" and s: "hub_at S ok pace 11 spent s"
  shows "\<exists>s'. test_get_version (hub_device S W R pace) s = (True, s') \<and> hub_at S ok pace 11 spent s'"
    "\<exists>s'. test_invalid_command (hub_device S W R pace) s = (True, s') \<and> hub_at S ok pace 11 spent s'"
    "\<exists>s'. test_multiple_get_version (hub_device S W R pace) s = (True, s') \<and> hub_at S ok pace 11 spent s'"
    "\<exists>s'. test_radio_config_default (hub_device S W R pace) s = (True, s') \<and> hub_at S ok pace 11 spent s'"
    "\<exists>s'. test_set_spreading_factor (hub_device S W R pace) s = (True, s') \<and> hub_at S ok pace 11 spent s'"
    "\<exists>s'. test_invalid_spreading_factor (hub_device S W R pace) s = (True, s') \<and> hub_at S ok pace 11 spent s'"
proof -
  let ?V = "hub_device S W R pace"
  note version = version_exchange [OF stack p] and factor = factor_exchange [OF stack p]
  have reports: "reports_sf sf (reading (config_frame sf))" for sf
    by (simp add: reports_sf_def reading_def config_frame_def parse_radio_config_def to_le32_def)
  show "\<exists>s'. test_get_version ?V s = (True, s') \<and> hub_at S ok pace 11 spent s'"
    using version [OF s] by (auto simp: test_get_version_def passes_def reading_def)
  show "\<exists>s'. test_invalid_command ?V s = (True, s') \<and> hub_at S ok pace 11 spent s'"
    using unknown_ask [OF stack s] by (auto simp: test_invalid_command_def passes_def reading_def host_status_from_byte_def)
  show "\<exists>s'. test_radio_config_default ?V s = (True, s') \<and> hub_at S ok pace 11 spent s'"
    using config_exchange [OF stack p s] reports by (auto simp: test_radio_config_default_def passes_def)
  have "\<exists>s'. for_each (\<lambda>i d. passes (ask ?V HostGetVersion [] d) (\<lambda>response. hr_id response = RVersion)) xs s = (True, s')
      \<and> hub_at S ok pace 11 spent s'" for xs :: "nat list"
    using s
  proof (induction xs arbitrary: s)
    case (Cons x xs)
    obtain s1 where s1: "ask ?V HostGetVersion [] s = (Inr (reading (RVersion, [VERSION_MAJOR, VERSION_MINOR, VERSION_PATCH])), s1)"
      "hub_at S ok pace 11 spent s1" using version [OF Cons.prems] by blast
    show ?case using Cons.IH [OF s1(2)] by (auto simp: passes_def s1(1) reading_def)
  qed simp
  then show "\<exists>s'. test_multiple_get_version ?V s = (True, s') \<and> hub_at S ok pace 11 spent s'"
    by (simp add: test_multiple_get_version_def)
  obtain s1 where s1: "ask ?V HostSetSpreadingFactor [9] s = (Inr (reading (config_frame 9)), s1)" "hub_at S ok pace 9 spent s1"
    using factor [OF s, of 9] by auto
  obtain s2 where s2: "ask ?V HostSetSpreadingFactor [11] s1 = (Inr (reading (config_frame 11)), s2)" "hub_at S ok pace 11 spent s2"
    using factor [OF s1(2), of 11] by auto
  show "\<exists>s'. test_set_spreading_factor ?V s = (True, s') \<and> hub_at S ok pace 11 spent s'"
    using s2(2) reports by (simp add: test_set_spreading_factor_def passes_def s1(1) s2(1))
  obtain s3 where s3: "ask ?V HostSetSpreadingFactor [6] s = (Inr (reading (RError, [0x05, 0x11])), s3)" "hub_at S ok pace 11 spent s3"
    using factor [OF s, of 6] by auto
  obtain s4 where s4: "ask ?V HostSetSpreadingFactor [13] s3 = (Inr (reading (RError, [0x05, 0x11])), s4)" "hub_at S ok pace 11 spent s4"
    using factor [OF s3(2), of 13] by auto
  show "\<exists>s'. test_invalid_spreading_factor ?V s = (True, s') \<and> hub_at S ok pace 11 spent s'"
    using s4(2) by (simp add: test_invalid_spreading_factor_def passes_def s3(1) s4(1) reading_def host_status_from_byte_def)
qed

lemma hub_suite:
  assumes "serial_stack S W" "steady pace" "hub_at S ok pace 11 spent s"
  shows "\<exists>s'. run_all_tests (hub_device S W R pace) s = (replicate 6 True, s') \<and> hub_at S ok pace 11 spent s'"
proof -
  note t = hub_tests [OF assms(1,2)]
  obtain a where a: "test_get_version (hub_device S W R pace) s = (True, a)" "hub_at S ok pace 11 spent a" using t(1) assms(3) by blast
  obtain b where b: "test_invalid_command (hub_device S W R pace) a = (True, b)" "hub_at S ok pace 11 spent b" using t(2) a(2) by blast
  obtain c where c: "test_multiple_get_version (hub_device S W R pace) b = (True, c)" "hub_at S ok pace 11 spent c" using t(3) b(2) by blast
  obtain d where d: "test_radio_config_default (hub_device S W R pace) c = (True, d)" "hub_at S ok pace 11 spent d" using t(4) c(2) by blast
  obtain e where e: "test_set_spreading_factor (hub_device S W R pace) d = (True, e)" "hub_at S ok pace 11 spent e" using t(5) d(2) by blast
  obtain f where f: "test_invalid_spreading_factor (hub_device S W R pace) e = (True, f)" "hub_at S ok pace 11 spent f" using t(6) e(2) by blast
  show ?thesis using f(2) by (simp add: run_all_tests_def a b c d e f eval_nat_numeral)
qed

lemma factor_read:
  assumes "serial_stack S W" "steady pace" "hub_at S ok pace sf spent s"
  shows "\<exists>s'. read_spreading_factor (hub_device S W R pace) s = (Inr sf, s') \<and> hub_at S ok pace sf spent s'"
  using config_exchange [OF assms]
  by (auto simp: read_spreading_factor_def and_then_def call_host_def outcome_def reading_def config_frame_def to_le32_def)

lemma hub_lockout:
  assumes stack: "serial_stack S W" and p: "steady pace" and s: "hub_at S ok pace 11 0 s"
  shows "fst (lockout_test (hub_device S W R pace) s) = Inr 110"
proof -
  let ?V = "hub_device S W R pace"
  obtain s1 where s1: "read_spreading_factor ?V s = (Inr 11, s1)" "hub_at S ok pace 11 0 s1" using factor_read [OF stack p s] by blast
  obtain secs s2 where s2: "spend_loop MAX_SF11_SENDS ?V 0 s1 = (Inr (110, Some secs), s2)" "hint_ok secs" "hub_at S ok pace 11 357170 s2"
    using spend_fills [OF stack p test_airtimes(1) _ _ s1(2), of MAX_SF11_SENDS 0] by (auto simp: MAX_SF11_SENDS_def)
  obtain s3 where s3: "ask ?V HostSetSpreadingFactor [7] s2 = (Inr (reading (config_frame 7)), s3)" "hub_at S ok pace 7 357170 s3"
    using factor_exchange [OF stack p s2(3), of 7] by auto
  have change: "change_factor ?V 7 s2 = (Inr (), s3)"
    by (simp add: change_factor_def s3(1) reading_def config_frame_def to_le32_def)
  obtain s4 where s4: "read_spreading_factor ?V s3 = (Inr 7, s4)" "hub_at S ok pace 7 357170 s4"
    using factor_read [OF stack p s3(2)] by blast
  obtain s5 where s5: "drain_sends MAX_SF7_DRAIN ?V s4 = (Inr True, s5)" "hub_at S ok pace 7 359996 s5"
    using drain_fills [OF stack p test_airtimes(2) _ _ s4(2), of MAX_SF7_DRAIN] by (auto simp: MAX_SF7_DRAIN_def)
  obtain secs' s6 where s6: "ask ?V HostLoraTx test_payload s5 = (Inr (reading (RTxRefused, to_le32 secs')), s6)"
    using packet_exchange [OF stack p s5(2) test_airtimes(2)] by auto
  show ?thesis using s2(2)
    by (simp add: lockout_test_def and_then_def call_host_def outcome_def require_def s1(1) s2(1) change s4(1) s5(1) s6 reading_def
        split: prod.split)
qed

end

subsection \<open>A sample\<close>

text \<open>
  A codec that keeps the promises: real stuffing, an accumulator with a buffer of 512 bytes that drops
  what does not fit, and the documented payloads. An error about an unknown command is told from a packet by its length.
\<close>

definition sample_parse :: "bytes \<Rightarrow> response_status + command" where
  "sample_parse raw =
     (case parse_raw cobs_wire raw of
        Inl _ \<Rightarrow> Inl StCrcError
      | Inr (i, p) \<Rightarrow>
          if i = 0x01 then Inr GetVersion else if i = 0x03 then Inr Reboot else if i = 0x10 then Inr (LoraTx p)
          else if i = 0x11 then Inr (SetSpreadingFactor (hd p)) else if i = 0x12 then Inr GetRadioConfig
          else Inl StInvalidCommand)"

definition sample_encode :: "response \<Rightarrow> bytes" where
  "sample_encode r = wt_encoded cobs_wire (case r of
       RxPacket d rssi snr \<Rightarrow> if length d = 302 then (RError, drop 300 d) else wt_response_frame r
     | _ \<Rightarrow> wt_response_frame r)"

definition sample_stack :: "bytes serial_lib" where
  "sample_stack =
     \<lparr>acc_new = [], acc_push = take_byte,
      cobs_decode = cobs_read, wt_parse_command = sample_parse, wt_encode_response = sample_encode,
      error_raw = (\<lambda>s b. RxPacket (replicate 300 0 @ [wt_status_byte s, b]) 0 0)\<rparr>"

lemma sample_serial_stack: "serial_stack sample_stack cobs_wire"
proof -
  have wire: "wire_ok cobs_wire (cobs_decode sample_stack)" "268 \<le> MAX_FRAME_SIZE cobs_wire"
    using cobs_wire_ok by (simp_all add: sample_stack_def cobs_wire_def sample_wire_def)
  have enc: "cobs_encoder cobs_wire = cobs_frame" by (simp add: cobs_wire_def)
  have framed: "\<exists>body. cobs_frame raw = body @ [0] \<and> 0 \<notin> set body \<and> body \<noteq> []" for raw by (rule cobs_framed)
  have "feed sample_stack (cobs_frame raw) (acc_new sample_stack) = ([cobs_frame raw], acc_new sample_stack)"
    if "fits_frame cobs_wire raw" for raw
    using cobs_frame_fed [OF _ _ that] by (simp add: sample_stack_def)
  moreover have "wt_parse_command sample_stack raw = Inl StInvalidCommand"
    if "parse_raw cobs_wire raw = Inr (i, p)" "hub_command_from_byte i \<noteq> None" for raw i p
    using that by (auto simp: sample_stack_def sample_parse_def hub_command_from_byte_def split: if_splits)
  ultimately have link: "link_ok sample_stack cobs_wire" by (simp add: link_ok_def enc)
  have parsed: "sample_parse (frame cobs_wire b p) =
      (if b = 0x01 then Inr GetVersion else if b = 0x03 then Inr Reboot else if b = 0x10 then Inr (LoraTx p)
       else if b = 0x11 then Inr (SetSpreadingFactor (hd p)) else if b = 0x12 then Inr GetRadioConfig
       else Inl StInvalidCommand)" if "length p < 65536" for b p
    using parse_raw_frame [OF that, of cobs_wire b "[]"] by (simp add: sample_parse_def)
  have commands: "wt_parse_command sample_stack (frame cobs_wire (fst (wt_command_frame c)) (snd (wt_command_frame c))) = Inr c"
    if "wt_command_ok c" for c
    using that by (cases c) (simp_all add: sample_stack_def parsed)
  have unknown: "wt_parse_command sample_stack (frame cobs_wire b []) = Inl StInvalidCommand" if "b \<notin> set known_commands" for b
    using that by (simp add: sample_stack_def parsed known_commands_def)
  have responses: "wt_encode_response sample_stack r = wt_encoded cobs_wire (wt_response_frame r)" if "short_packet r" for r
    using that by (cases r) (auto simp: sample_stack_def sample_encode_def)
  have errors: "wt_encode_response sample_stack (error_raw sample_stack s b) = wt_encoded cobs_wire (RError, [wt_status_byte s, b])" for s b
    by (simp add: sample_stack_def sample_encode_def)
  show ?thesis
    unfolding serial_stack_def enc using wire link framed commands unknown responses errors by blast
qed

subsection \<open>The property\<close>

text \<open>
  C35. The hub passes its hardware tests over the serial link. On any working radio, whatever it
  receives in between, and at any pace within the first 59 minutes, the six functional tests pass
  after boot, and then the lockout test: exactly 110 packets of 255 bytes go out at spreading factor
  11, the refusals carry a hint of at most an hour, the spreading factor can still be changed, and the
  budget is shared with it.
\<close>

theorem hub_passes_its_hardware_tests:
  assumes "serial_stack S W" "working_radio R on_air ok" "ok r" "steady pace"
  shows "\<exists>s. run_all_tests (hub_device S W R pace) (session_start S R r) = (replicate 6 True, s)
    \<and> fst (lockout_test (hub_device S W R pace) s) = Inr 110"
  using working_radio.hub_suite [OF assms(2,1,4) working_radio.hub_at_start [OF assms(2,3)]]
    working_radio.hub_lockout [OF assms(2,1,4)] by blast

theorem hub_passes_its_hardware_tests_witness:
  "fst (run_all_tests (hub_device sample_stack cobs_wire (MockLoraRadio 256 0) (\<lambda>n. (n mod 2, 5000)))
     (session_start sample_stack (MockLoraRadio 256 0) (queue_rx_packet \<lparr>rx_data = [1, 2], rx_rssi = - 80, rx_snr = 7\<rparr> new_mock)))
   = replicate 6 True"
proof -
  let ?m = "queue_rx_packet \<lparr>rx_data = [1, 2], rx_rssi = - 80, rx_snr = 7\<rparr> new_mock"
  have "next_tx_error ?m = None \<and> next_configure_error ?m = None \<and> list_all (\<lambda>p. length (rx_data p) \<le> 256) (rx_queue ?m)"
    by (simp add: queue_rx_packet_def new_mock_def push_cap_def extend_cap_def)
  then obtain s where "run_all_tests (hub_device sample_stack cobs_wire (MockLoraRadio 256 0) (\<lambda>n. (n mod 2, 5000)))
      (session_start sample_stack (MockLoraRadio 256 0) ?m) = (replicate 6 True, s)"
    using hub_passes_its_hardware_tests [OF sample_serial_stack mock_works.working_radio_axioms, of ?m "\<lambda>n. (n mod 2, 5000)" 0]
    by (auto simp: steady_def)
  then show ?thesis by simp
qed

end
