(* ===== verification/Lora_Tests.thy ===== *)
theory Lora_Tests imports Host_Tests begin

text \<open>
  The tests with two boards (\<open>src/integration_tests/src/lora_tests.rs\<close>): packets go from one host over
  its serial link, hub and radio into the air, and over the radio, hub and serial link of the other
  board to the other host. The tests are functions of what a host program can do with two boards; the
  bench joins two sessions of \<open>Serial_Session\<close> by an air that carries every packet to the other
  board, whose radio hears it only when it is tuned to the same frequency, spreading factor,
  bandwidth and IQ setting. Text for the screen and pauses are left out.
\<close>

subsection \<open>Two boards\<close>

datatype board = BoardA | BoardB

fun other :: "board \<Rightarrow> board" where
  "other BoardA = BoardB"
| "other BoardB = BoardA"

text \<open>What the client of a board offers: an exchange, waiting for a packet, dropping what came.\<close>

record 'w link_ops =
  op_send :: "board \<Rightarrow> u8 \<Rightarrow> bytes \<Rightarrow> 'w \<Rightarrow> (host_error + host_response) \<times> 'w"
  op_wait :: "board \<Rightarrow> bytes \<Rightarrow> nat \<Rightarrow> 'w \<Rightarrow> (host_error + host_response) \<times> 'w"
  op_clear :: "board \<Rightarrow> 'w \<Rightarrow> (host_error + unit) \<times> 'w"
  op_drain :: "board \<Rightarrow> 'w \<Rightarrow> (host_error + unit) \<times> 'w"

definition send_lora :: "'w link_ops \<Rightarrow> board \<Rightarrow> bytes \<Rightarrow> 'w \<Rightarrow> (host_error + host_response) \<times> 'w" where
  "send_lora X i bs = ask (op_send X i) HostLoraTx bs"

subsection \<open>The tests\<close>

definition sent_ok :: "host_response \<Rightarrow> host_error + unit" where
  "sent_ok r = (if hr_id r \<noteq> RTxComplete then Inl (UnexpectedResponse (hr_id r)) else Inr ())"

text \<open>One packet from a board to the other, with and without a look at the response.\<close>

definition hop :: "'w link_ops \<Rightarrow> board \<Rightarrow> bytes \<Rightarrow> 'w \<Rightarrow> (host_error + unit) \<times> 'w" where
  "hop X i msg =
     and_then (send_lora X i msg) (\<lambda>tx.
     and_then (outcome (sent_ok tx)) (\<lambda>_.
     and_then (op_wait X (other i) msg 8000) (\<lambda>_. outcome (Inr ()))))"

definition hop_unchecked :: "'w link_ops \<Rightarrow> board \<Rightarrow> bytes \<Rightarrow> 'w \<Rightarrow> (host_error + unit) \<times> 'w" where
  "hop_unchecked X i msg =
     and_then (send_lora X i msg) (\<lambda>_. and_then (op_wait X (other i) msg 8000) (\<lambda>_. outcome (Inr ())))"

primrec one_by_one :: "('x \<Rightarrow> 'w \<Rightarrow> (host_error + unit) \<times> 'w) \<Rightarrow> 'x list \<Rightarrow> 'w \<Rightarrow> (host_error + unit) \<times> 'w" where
  "one_by_one f [] = outcome (Inr ())"
| "one_by_one f (x # xs) = and_then (f x) (\<lambda>_. one_by_one f xs)"

definition clear_both :: "'w link_ops \<Rightarrow> 'w \<Rightarrow> (host_error + unit) \<times> 'w" where
  "clear_both X = one_by_one (op_clear X) [BoardA, BoardB]"

definition test_a_to_b :: "'w link_ops \<Rightarrow> 'w \<Rightarrow> (host_error + unit) \<times> 'w" where
  "test_a_to_b X = and_then (op_clear X BoardB) (\<lambda>_. hop X BoardA (lit ''Hello from A!''))"

definition test_b_to_a :: "'w link_ops \<Rightarrow> 'w \<Rightarrow> (host_error + unit) \<times> 'w" where
  "test_b_to_a X = and_then (op_clear X BoardA) (\<lambda>_. hop X BoardB (lit ''Hello from B!''))"

definition test_ping_pong :: "'w link_ops \<Rightarrow> 'w \<Rightarrow> (host_error + unit) \<times> 'w" where
  "test_ping_pong X =
     and_then (clear_both X) (\<lambda>_.
     and_then (hop_unchecked X BoardA (lit ''PING'')) (\<lambda>_. hop_unchecked X BoardB (lit ''PONG'')))"

definition test_multiple_messages :: "'w link_ops \<Rightarrow> 'w \<Rightarrow> (host_error + unit) \<times> 'w" where
  "test_multiple_messages X =
     and_then (clear_both X) (\<lambda>_.
     one_by_one (hop X BoardA) [lit ''Message 1'', lit ''Message 2'', lit ''Message 3''])"

text \<open>The two digits of the round are its number, padded with a zero.\<close>

definition round_message :: "string \<Rightarrow> nat \<Rightarrow> bytes" where
  "round_message start i = lit start @ [of_nat (48 + i div 10), of_nat (48 + i mod 10)]"

definition test_reliability :: "'w link_ops \<Rightarrow> 'w \<Rightarrow> (host_error + unit) \<times> 'w" where
  "test_reliability X =
     and_then (clear_both X) (\<lambda>_.
     one_by_one (\<lambda>i. and_then (hop X BoardA (round_message ''A->B:'' i)) (\<lambda>_. hop X BoardB (round_message ''B->A:'' i)))
       [0..<10])"

text \<open>Priming a direction: throwaway packets until one is received, five at most.\<close>

primrec prime_direction :: "nat \<Rightarrow> 'w link_ops \<Rightarrow> board \<Rightarrow> bytes \<Rightarrow> 'w \<Rightarrow> 'w" where
  "prime_direction 0 X i probe w = w"
| "prime_direction (Suc n) X i probe w =
     (let w = snd (op_clear X (other i) w); (tx, w) = send_lora X i probe w
      in if \<not> is_ok tx then prime_direction n X i probe w
         else let (rx, w) = op_wait X (other i) probe 3000 w
              in if is_ok rx then w else prime_direction n X i probe w)"

definition warm_up :: "'w link_ops \<Rightarrow> 'w \<Rightarrow> 'w" where
  "warm_up X w =
     (let probe = lit ''WARMUP''; w = prime_direction 5 X BoardA probe w; w = prime_direction 5 X BoardB probe w;
          w = snd (op_drain X BoardA w)
      in snd (op_drain X BoardB w))"

text \<open>A failed test is counted and the next one runs.\<close>

primrec run_each :: "('w \<Rightarrow> (host_error + unit) \<times> 'w) list \<Rightarrow> 'w \<Rightarrow> bool list \<times> 'w" where
  "run_each [] w = ([], w)"
| "run_each (t # ts) w = (let (r, w) = t w; (rs, w) = run_each ts w in (is_ok r # rs, w))"

text \<open>
  The suite, once both boards have answered: they change to spreading factor 7, the five tests run, and
  the default is restored, whatever comes of that.
\<close>

definition lora_suite :: "'w link_ops \<Rightarrow> 'w \<Rightarrow> (host_error + bool list) \<times> 'w" where
  "lora_suite X =
     and_then (change_factor (op_send X BoardA) 7) (\<lambda>_.
     and_then (change_factor (op_send X BoardB) 7) (\<lambda>_ w.
       let w = warm_up X w;
           (results, w) = run_each [test_a_to_b X, test_b_to_a X, test_ping_pong X, test_multiple_messages X, test_reliability X] w;
           (_, w) = change_factor (op_send X BoardA) 11 w;
           (_, w) = change_factor (op_send X BoardB) 11 w
       in (Inr results, w)))"

subsection \<open>The bench\<close>

text \<open>A radio with the packets it has sent, oldest first.\<close>

definition beside :: "('r \<Rightarrow> 'x \<times> 'r) \<Rightarrow> 'l \<times> 'r \<Rightarrow> 'x \<times> 'l \<times> 'r" where
  "beside f = (\<lambda>(l, r). case f r of (x, r) \<Rightarrow> (x, l, r))"

definition logged_radio :: "'r lora_radio \<Rightarrow> (bytes list \<times> 'r) lora_radio" where
  "logged_radio R =
     \<lparr>radio_init = beside (radio_init R),
      transmit = (\<lambda>bs (l, r). case transmit R bs r of (x, r) \<Rightarrow> (x, if is_ok x then l @ [bs] else l, r)),
      arm_receive = beside (arm_receive R),
      wait_rx_event = (\<lambda>t. beside (wait_rx_event R t)),
      read_packet = beside (read_packet R),
      configure = (\<lambda>c. beside (configure R c)),
      set_standby = beside (set_standby R)\<rparr>"

text \<open>
  A radio with its tuning, the last configuration it accepted, and the packets it has sent, oldest
  first, each with the tuning it went out at. Initialising applies the default configuration
  (\<open>src/lora/driver.rs\<close>, \<open>init\<close>).
\<close>

type_synonym sent_log = "(lora_config \<times> bytes) list"

type_synonym 'r tuned = "(sent_log \<times> lora_config) \<times> 'r"

definition tuned_radio :: "'r lora_radio \<Rightarrow> 'r tuned lora_radio" where
  "tuned_radio R =
     \<lparr>radio_init = (\<lambda>((l, c), r). case radio_init R r of (x, r) \<Rightarrow> (x, (l, default_lora_config), r)),
      transmit = (\<lambda>bs ((l, c), r). case transmit R bs r of (x, r) \<Rightarrow> (x, (if is_ok x then l @ [(c, bs)] else l, c), r)),
      arm_receive = beside (arm_receive R),
      wait_rx_event = (\<lambda>t. beside (wait_rx_event R t)),
      read_packet = beside (read_packet R),
      configure = (\<lambda>c' ((l, c), r). case configure R c' r of (x, r) \<Rightarrow> (x, (l, if is_ok x then c' else c), r)),
      set_standby = beside (set_standby R)\<rparr>"

definition sent_of :: "'r tuned lora_task \<Rightarrow> sent_log" where
  "sent_of t = fst (fst (lt_radio t))"

definition tuning_of :: "'r tuned lora_task \<Rightarrow> lora_config" where
  "tuning_of t = snd (fst (lt_radio t))"

text \<open>What two radios have to agree on to hear each other.\<close>

definition same_channel :: "lora_config \<Rightarrow> lora_config \<Rightarrow> bool" where
  "same_channel c c' \<longleftrightarrow> frequency_hz c = frequency_hz c' \<and> spreading_factor c = spreading_factor c'
     \<and> bandwidth_khz c = bandwidth_khz c' \<and> iq_inverted c = iq_inverted c'"

text \<open>\<open>hear\<close> is what a packet in the air does to the radio of the other board.\<close>

record ('a, 'r) bench =
  codec :: "'a serial_lib"
  cable :: wire
  transceiver :: "'r lora_radio"
  hear :: "bytes \<Rightarrow> 'r \<Rightarrow> 'r"
  pace_of :: "board \<Rightarrow> pace"

type_synonym ('a, 'r) boards = "board \<Rightarrow> ('a, 'r tuned) serial_session"

definition boards_start :: "('a, 'r) bench \<Rightarrow> (board \<Rightarrow> 'r) \<Rightarrow> ('a, 'r) boards" where
  "boards_start K r i = session_start (codec K) (tuned_radio (transceiver K)) (([], default_lora_config), r i)"

text \<open>A packet reaches a radio, which wakes the task; the writer writes what the task publishes.\<close>

definition deliver ::
  "('a, 'r) bench \<Rightarrow> lora_config \<times> bytes \<Rightarrow> ('a, 'r tuned) serial_session \<Rightarrow> ('a, 'r tuned) serial_session" where
  "deliver K e s =
     (let t = ss_task s; (l, r) = lt_radio t;
          t' = lora_turn (tuned_radio (transceiver K)) LoraRadioWakes (t\<lparr>lt_radio := (l, hear K (snd e) r)\<rparr>)
      in if same_channel (fst e) (tuning_of t)
         then s\<lparr>ss_task := t',
                ss_port := ss_port s @ bytes_now (written (codec K) (drop (length (lt_published t)) (lt_published t')))\<rparr>
         else s)"

definition bench_send ::
  "('a, 'r) bench \<Rightarrow> board \<Rightarrow> u8 \<Rightarrow> bytes \<Rightarrow> ('a, 'r) boards \<Rightarrow> (host_error + host_response) \<times> ('a, 'r) boards" where
  "bench_send K i cmd_id data w =
     (let (r, s) = hub_device (codec K) (cable K) (tuned_radio (transceiver K)) (pace_of K i) cmd_id data (w i);
          sent = drop (length (sent_of (ss_task (w i)))) (sent_of (ss_task s))
      in (r, w(i := s, other i := fold (deliver K) sent (w (other i)))))"

definition bench_wait ::
  "('a, 'r) bench \<Rightarrow> board \<Rightarrow> bytes \<Rightarrow> nat \<Rightarrow> ('a, 'r) boards \<Rightarrow> (host_error + host_response) \<times> ('a, 'r) boards" where
  "bench_wait K i expected timeout w =
     (case wait_for_rx_packet_matching (cable K) (cobs_decode (codec K)) expected timeout (quick_client (ss_port (w i))) of
        None \<Rightarrow> (Inl ResponseTimeout, w)
      | Some (r, c) \<Rightarrow> (r, w(i := (w i)\<lparr>ss_port := cl_input c\<rparr>)))"

definition on_port ::
  "(client \<Rightarrow> (host_error + unit) \<times> client) \<Rightarrow> board \<Rightarrow> ('a, 'r) boards \<Rightarrow> (host_error + unit) \<times> ('a, 'r) boards" where
  "on_port f i w = (case f (quick_client (ss_port (w i))) of (r, c) \<Rightarrow> (r, w(i := (w i)\<lparr>ss_port := cl_input c\<rparr>)))"

definition bench_ops :: "('a, 'r) bench \<Rightarrow> ('a, 'r) boards link_ops" where
  "bench_ops K =
     \<lparr>op_send = bench_send K, op_wait = bench_wait K,
      op_clear = on_port (\<lambda>c. clear_buffer (length (cl_input c)) c), op_drain = on_port drain_buffer\<rparr>"

subsection \<open>A radio that hears\<close>

text \<open>
  A working radio at rest, which \<open>ok\<close> says, reads a packet it hears when its task wakes next and is at
  rest again.
\<close>

locale hearing_radio = working_radio R aired ok
  for R :: "'r lora_radio" and aired :: "'r \<Rightarrow> bytes list" and ok :: "'r \<Rightarrow> bool" +
  fixes hears :: "bytes \<Rightarrow> 'r \<Rightarrow> 'r"
  assumes hears_packet: "ok r \<Longrightarrow> length p \<le> 256 \<Longrightarrow>
    \<exists>w r' rssi snr r''. wait_rx_event R t (snd (arm_receive R (hears p r))) = (Inr w, r')
      \<and> read_packet R r' = (Inr \<lparr>rx_data = p, rx_rssi = rssi, rx_snr = snr\<rparr>, r'') \<and> ok r''"

lemma tapped_simps:
  "radio_init (logged_radio R) = beside (radio_init R)" "arm_receive (logged_radio R) = beside (arm_receive R)"
  "wait_rx_event (logged_radio R) t = beside (wait_rx_event R t)" "read_packet (logged_radio R) = beside (read_packet R)"
  "configure (logged_radio R) c = beside (configure R c)"
  "transmit (logged_radio R) bs x = (case transmit R bs (snd x) of (y, r) \<Rightarrow> (y, if is_ok y then fst x @ [bs] else fst x, r))"
  by (simp_all add: logged_radio_def case_prod_beta)

lemma beside_simps [simp]: "fst (beside f x) = fst (f (snd x))" "fst (snd (beside f x)) = fst x" "snd (snd (beside f x)) = snd (f (snd x))"
  "beside f (l, r) = (fst (f r), l, snd (f r))"
  by (simp_all add: beside_def case_prod_beta)

sublocale hearing_radio \<subseteq> logged: working_radio "logged_radio R" fst "\<lambda>x. ok (snd x)"
proof
  fix x :: "bytes list \<times> 'r" and bs c p x' t
  assume x: "ok (snd x)"
  show "fst (snd (transmit (logged_radio R) bs x)) = fst x \<or> fst (snd (transmit (logged_radio R) bs x)) = fst x @ [bs]"
    by (simp add: tapped_simps split: prod.split)
  show "ok (snd (snd (transmit (logged_radio R) bs x)))"
    using transmit_ok [OF x, of bs] by (simp add: tapped_simps case_prod_beta)
  show "bs \<noteq> [] \<Longrightarrow> length bs \<le> 255 \<Longrightarrow> fst (transmit (logged_radio R) bs x) = Inr ()"
    using works_transmit [OF x, of bs] by (simp add: tapped_simps case_prod_beta)
  show "read_packet (logged_radio R) x = (Inr p, x') \<Longrightarrow> length (rx_data p) \<le> 256"
    using works_read [OF x, of p "snd x'"] by (cases x) (auto simp: tapped_simps prod_eq_iff)
qed (simp_all add: tapped_simps configure_ok arm_ok read_ok wait_ok works_start works_configure)

lemma tuned_simps:
  "arm_receive (tuned_radio R) = beside (arm_receive R)" "wait_rx_event (tuned_radio R) t = beside (wait_rx_event R t)"
  "read_packet (tuned_radio R) = beside (read_packet R)"
  "radio_init (tuned_radio R) x = (fst (radio_init R (snd x)), (fst (fst x), default_lora_config), snd (radio_init R (snd x)))"
  "configure (tuned_radio R) c x = (case configure R c (snd x) of (y, r) \<Rightarrow> (y, (fst (fst x), if is_ok y then c else snd (fst x)), r))"
  "transmit (tuned_radio R) bs x = (case transmit R bs (snd x) of
     (y, r) \<Rightarrow> (y, (if is_ok y then fst (fst x) @ [(snd (fst x), bs)] else fst (fst x), snd (fst x)), r))"
  by (simp_all add: tuned_radio_def case_prod_beta)

sublocale hearing_radio \<subseteq> tuned: working_radio "tuned_radio R" "\<lambda>x. map snd (fst (fst x))" "\<lambda>x. ok (snd x)"
proof
  fix x :: "'r tuned" and bs c p x' t
  assume x: "ok (snd x)"
  show "map snd (fst (fst (snd (transmit (tuned_radio R) bs x)))) = map snd (fst (fst x))
      \<or> map snd (fst (fst (snd (transmit (tuned_radio R) bs x)))) = map snd (fst (fst x)) @ [bs]"
    by (simp add: tuned_simps split: prod.split)
  show "ok (snd (snd (transmit (tuned_radio R) bs x)))"
    using transmit_ok [OF x, of bs] by (simp add: tuned_simps case_prod_beta)
  show "ok (snd (snd (configure (tuned_radio R) c x)))"
    using configure_ok [OF x, of c] by (simp add: tuned_simps case_prod_beta)
  show "fst (configure (tuned_radio R) c x) = Inr ()"
    using works_configure [OF x, of c] by (simp add: tuned_simps case_prod_beta)
  show "bs \<noteq> [] \<Longrightarrow> length bs \<le> 255 \<Longrightarrow> fst (transmit (tuned_radio R) bs x) = Inr ()"
    using works_transmit [OF x, of bs] by (simp add: tuned_simps case_prod_beta)
  show "read_packet (tuned_radio R) x = (Inr p, x') \<Longrightarrow> length (rx_data p) \<le> 256"
    using works_read [OF x, of p "snd x'"] by (cases x) (auto simp: tuned_simps prod_eq_iff)
qed (simp_all add: tuned_simps case_prod_beta arm_ok read_ok wait_ok works_start)

interpretation mock_hears: hearing_radio "MockLoraRadio 256 now" tx_history
  "\<lambda>m. next_tx_error m = None \<and> next_rx_error m = None \<and> next_configure_error m = None \<and> rx_queue m = []"
  "\<lambda>p. queue_rx_packet \<lparr>rx_data = p, rx_rssi = - 60, rx_snr = 9\<rparr>"
  by unfold_locales
    (auto simp: MockLoraRadio_def mock_transmit_def mock_wait_rx_event_def mock_read_packet_def queue_rx_packet_def
      mock_configure_def extend_cap_def push_cap_def split: option.splits list.splits if_splits)

subsection \<open>Radio and dispatcher agree on the tuning\<close>

text \<open>
  The radio runs at the configuration the dispatcher reports and charges by, whatever commands come
  and whatever the radio does with them, and what it has sent is never taken back.
\<close>

definition in_tune :: "'r tuned lora_task \<Rightarrow> bool" where
  "in_tune t \<longleftrightarrow> tuning_of t = disp_config (lt_disp t)"

definition stays_tuned :: "'r tuned lora_task \<Rightarrow> 'r tuned lora_task \<Rightarrow> bool" where
  "stays_tuned t t' \<longleftrightarrow> (in_tune t \<longrightarrow> in_tune t') \<and> prefix (sent_of t) (sent_of t')"

lemma stays_tuned_refl [simp]: "stays_tuned t t"
  by (simp add: stays_tuned_def)

lemma stays_tuned_trans: "stays_tuned t t' \<Longrightarrow> stays_tuned t' t'' \<Longrightarrow> stays_tuned t t''"
  by (auto simp: stays_tuned_def)

lemma dispatch_tuned:
  assumes "dispatch (tuned_radio R) c now_ms (d, x) = (resp, d', x')"
  shows "(snd (fst x) = disp_config d \<longrightarrow> snd (fst x') = disp_config d') \<and> prefix (fst (fst x)) (fst (fst x'))"
  using assms
  by (cases c) (auto simp: handle_lora_tx_def handle_set_spreading_factor_def tuned_simps Let_def
      split: prod.splits sum.splits if_splits)

lemma turn_tuned: "stays_tuned t (lora_turn (tuned_radio R) e t)"
proof -
  have command: "stays_tuned t (handle_command (tuned_radio R) now_ms env (t\<lparr>lt_arm_failure_logged := u, lt_radio := x, lt_commands := q\<rparr>))"
    if x: "fst x = fst (lt_radio t)" for now_ms env u x q
  proof -
    let ?t = "t\<lparr>lt_arm_failure_logged := u, lt_radio := x, lt_commands := q\<rparr>"
    show ?thesis
    proof (cases rule: handle_command_cases [where e = env and R = "tuned_radio R" and now = now_ms and t = ?t])
      case reboot
      then show ?thesis using x by (simp add: stays_tuned_def in_tune_def tuning_of_def sent_of_def)
    next
      case (served response d r)
      from dispatch_tuned [OF served(2)] served(3,4) x show ?thesis
        by (simp add: stays_tuned_def in_tune_def tuning_of_def sent_of_def)
    qed
  qed
  show ?thesis
  proof (cases e)
    case LoraRadioWakes
    then show ?thesis
      by (cases "lt_radio t")
        (auto simp: lora_turn_def tuned_simps stays_tuned_def in_tune_def tuning_of_def sent_of_def case_prod_beta Let_def
          split: sum.split)
  next
    case (LoraCommand now_ms)
    show ?thesis
    proof (cases "lt_commands t")
      case Nil
      then show ?thesis using LoraCommand
        by (cases "lt_radio t")
          (auto simp: lora_turn_def tuned_simps stays_tuned_def in_tune_def tuning_of_def sent_of_def case_prod_beta)
    next
      case (Cons env q)
      from command_turn [OF this, of "tuned_radio R" now_ms] obtain u where
        u: "lora_turn (tuned_radio R) (LoraCommand now_ms) t = handle_command (tuned_radio R) now_ms env
          (t\<lparr>lt_arm_failure_logged := u,
             lt_radio := snd (wait_rx_event (tuned_radio R) RX_POLL_INTERVAL_MS (snd (arm_receive (tuned_radio R) (lt_radio t)))),
             lt_commands := q\<rparr>)" by blast
      show ?thesis unfolding LoraCommand u by (rule command) (simp add: tuned_simps)
    qed
  qed
qed

lemma turns_tuned: "stays_tuned t ((lora_turn (tuned_radio R) e ^^ n) t)"
  by (induction n) (auto intro: stays_tuned_trans turn_tuned)

lemma hub_step_tuned: "stays_tuned t (fst (hub_step (tuned_radio R) pace a (t, n)))"
proof (cases a)
  case (SendCommand e)
  obtain k now_ms where p: "pace n = (k, now_ms)" by force
  let ?t = "(lora_turn (tuned_radio R) LoraRadioWakes ^^ k) t"
  have "stays_tuned ?t (lora_do (tuned_radio R) (LoraEnqueue e) ?t)"
    using enqueue_step [of "tuned_radio R" e ?t] by (simp add: stays_tuned_def in_tune_def tuning_of_def sent_of_def)
  from stays_tuned_trans [OF stays_tuned_trans [OF turns_tuned this] turn_tuned [of _ R "LoraCommand now_ms"]]
  show ?thesis using SendCommand p by (simp del: lora_do.simps add: Let_def)
qed (simp_all add: stays_tuned_def in_tune_def tuning_of_def sent_of_def)

lemma hub_steps_tuned: "stays_tuned t (fst (fold (hub_step (tuned_radio R) pace) acts (t, n)))"
proof (induction acts arbitrary: t n)
  case (Cons a acts)
  obtain t' n' where a: "hub_step (tuned_radio R) pace a (t, n) = (t', n')" by force
  then have "stays_tuned t t'" using hub_step_tuned [of t R pace a n] by simp
  then show ?case using Cons [of t' n'] a by (auto intro: stays_tuned_trans)
qed simp

lemma device_tuned:
  assumes "hub_device S W (tuned_radio R) pace i data s = (r, s')"
  shows "stays_tuned (ss_task s) (ss_task s')"
  using assms hub_steps_tuned [of "ss_task s" R pace "fst (reader_run S W [Some (host_cobs_encode W (build_command_payload W i data))] (ss_reader s))" "ss_served s"]
  by (auto simp: hub_device_def hub_answers_def Let_def case_prod_beta)

subsection \<open>What arrives\<close>

lemma and_then_Inr: "m w = (Inr x, w') \<Longrightarrow> and_then m f w = f x w'"
  by (simp add: and_then_def)

lemma delivers_now: "delivers t (bytes_now bs) body \<Longrightarrow> 0 < t' \<Longrightarrow> delivers t' (bytes_now bs) body"
proof -
  assume "delivers t (bytes_now bs) body" "0 < t'"
  then obtain front d where f: "bytes_now bs = front @ [(d, PortByte 0)]" "list_all quiet front" "bytes_in front = body" "body \<noteq> []"
    by (auto simp: delivers_def)
  have "sum_list (map fst (bytes_now bs)) = 0" by (rule bytes_now_simps)
  then have z: "sum_list (map fst front) = 0" by (simp add: f(1))
  show ?thesis
    using f \<open>0 < t'\<close> by (intro delivers_def [THEN iffD2] exI [of _ front] exI [of _ d]) (simp add: z)
qed

definition packet_frame :: "bytes \<Rightarrow> i16 \<Rightarrow> i8 \<Rightarrow> host_response_id \<times> bytes" where
  "packet_frame p rssi snr = wt_response_frame (RxPacket p rssi snr)"

text \<open>A packet in the port ends the wait for it.\<close>

lemma wait_gets:
  assumes "serial_stack S W" "length p \<le> 256" "0 < timeout"
  shows "\<exists>c. wait_for_rx_packet_matching W (cobs_decode S) p timeout (quick_client (bytes_now (wt_encoded W (packet_frame p rssi snr))))
    = Some (Inr (reading (packet_frame p rssi snr)), c) \<and> cl_input c = []"
proof -
  let ?f = "packet_frame p rssi snr"
  let ?c = "quick_client (bytes_now (wt_encoded W ?f))"
  have "length (snd ?f) \<le> 259" using assms(2) by (simp add: packet_frame_def to_le16_def)
  from wt_encoded_arrives [OF assms(1) this] obtain body where
    b: "delivers 3000 (bytes_now (wt_encoded W ?f)) body" "decode_frame W (cobs_decode S) body = Inr (reading ?f)" by blast
  have "delivers (cl_timeout (?c\<lparr>cl_timeout := 200\<rparr>)) (bytes_now (wt_encoded W ?f)) body" using delivers_now [OF b(1)] by simp
  from read_frame_delivers [OF this, of "[]"] obtain now' where
    r: "read_frame (?c\<lparr>cl_timeout := 200\<rparr>) = (Inr body, ?c\<lparr>cl_timeout := 200, cl_now := now', cl_input := []\<rparr>)"
    by (auto simp: quick_client_def)
  have t: "try_read_response W (cobs_decode S) 200 ?c = (Inr (Some (reading ?f)), ?c\<lparr>cl_now := now', cl_input := []\<rparr>)"
    by (simp add: try_read_response_def r b(2))
  have m: "matching_packet p (reading ?f)"
    by (simp add: matching_packet_def reading_def packet_frame_def to_le16_def)
  obtain n where n: "work ?c + timeout + 1 = Suc n" by simp
  show ?thesis
    unfolding wait_for_rx_packet_matching_def n using t m assms(3) by (simp add: quick_client_def [of "bytes_now _"])
qed

lemma lora_airtime: "length bs \<le> 255 \<Longrightarrow> unat (packet_airtime (default_lora_config\<lparr>spreading_factor := 7\<rparr>) bs) \<le> 314"
proof -
  assume "length bs \<le> 255"
  then have "time_on_air_ms 7 250 8 (length bs) \<le> time_on_air_ms 7 250 8 255"
    unfolding time_on_air_ms_def by (simp add: word_le_nat_alt toa_exact toa_spec_mono)
  then show ?thesis using test_airtimes(2)
    by (simp add: packet_airtime_def default_lora_config_def BANDWIDTH_KHZ_def CODING_RATE_def test_payload_def word_le_nat_alt)
qed

definition bench_ok :: "('a, 'r) bench \<Rightarrow> bool" where
  "bench_ok K \<longleftrightarrow> serial_stack (codec K) (cable K) \<and> steady (pace_of K BoardA) \<and> steady (pace_of K BoardB)"

lemma bench_steady: "bench_ok K \<Longrightarrow> steady (pace_of K i)"
  by (cases i) (simp_all add: bench_ok_def)

lemma other_other [simp]: "other (other i) = i" "other i \<noteq> i" "i \<noteq> other i"
  by (cases i; simp)+

text \<open>
  A board between two exchanges: its radio is tuned as its dispatcher reports, and everything it sent
  so far went out at spreading factor 7. Both boards, with at most \<open>n\<close> ms of airtime granted on each.
\<close>

definition board_at :: "('a, 'r) bench \<Rightarrow> ('r \<Rightarrow> bool) \<Rightarrow> pace \<Rightarrow> u8 \<Rightarrow> nat \<Rightarrow> ('a, 'r tuned) serial_session \<Rightarrow> bool" where
  "board_at K ok pace sf spent s \<longleftrightarrow> hub_at (codec K) (\<lambda>x. ok (snd x)) pace sf spent s \<and> in_tune (ss_task s)
     \<and> list_all (\<lambda>e. spreading_factor (fst e) = 7) (sent_of (ss_task s))"

lemma board_tuning: "board_at K ok pace sf spent s \<Longrightarrow> tuning_of (ss_task s) = default_lora_config\<lparr>spreading_factor := sf\<rparr>"
  by (simp add: board_at_def hub_at_def in_tune_def)

definition boards_at :: "('a, 'r) bench \<Rightarrow> ('r \<Rightarrow> bool) \<Rightarrow> u8 \<Rightarrow> nat \<Rightarrow> ('a, 'r) boards \<Rightarrow> bool" where
  "boards_at K ok sf n w \<longleftrightarrow> (\<forall>i. \<exists>spent \<le> n. board_at K ok (pace_of K i) sf spent (w i))"

lemma boards_at_board: "boards_at K ok sf n w \<Longrightarrow> \<exists>spent \<le> n. board_at K ok (pace_of K i) sf spent (w i)"
  by (simp add: boards_at_def)

lemma board_at_port: "board_at K ok pace sf spent s \<Longrightarrow> ss_port s = []"
  by (simp add: board_at_def hub_at_def session_ok_def)

lemma bench_quiet:
  assumes "boards_at K ok sf n w"
  shows "op_clear (bench_ops K) j w = (Inr (), w)" "op_drain (bench_ops K) j w = (Inr (), w)"
proof -
  have p: "ss_port (w j) = []" using boards_at_board [OF assms] board_at_port by blast
  then have "w(j := (w j)\<lparr>ss_port := []\<rparr>) = w" by (intro ext) simp
  then show "op_clear (bench_ops K) j w = (Inr (), w)" "op_drain (bench_ops K) j w = (Inr (), w)"
    by (simp_all add: bench_ops_def on_port_def p quick_client_def clear_buffer_def drain_buffer_def control_def next_ok_def)
qed

lemma wait_hears:
  assumes "bench_ok K" "boards_at K ok sf n w" "length p \<le> 256" "0 < timeout"
  shows "op_wait (bench_ops K) j p timeout (w(j := (w j)\<lparr>ss_port := bytes_now (wt_encoded (cable K) (packet_frame p rssi snr))\<rparr>))
    = (Inr (reading (packet_frame p rssi snr)), w)"
proof -
  have port: "ss_port (w j) = []" using boards_at_board [OF assms(2)] board_at_port by blast
  then have "w(j := (w j)\<lparr>ss_port := []\<rparr>) = w" by (intro ext) simp
  moreover obtain c where "wait_for_rx_packet_matching (cable K) (cobs_decode (codec K)) p timeout
      (quick_client (bytes_now (wt_encoded (cable K) (packet_frame p rssi snr)))) = Some (Inr (reading (packet_frame p rssi snr)), c)"
    "cl_input c = []"
    using wait_gets assms(1,3,4) unfolding bench_ok_def by blast
  ultimately show ?thesis by (simp add: bench_ops_def bench_wait_def)
qed

context hearing_radio
begin

lemma deliver_hears:
  assumes K: "bench_ok K" "transceiver K = R" "hear K = hears"
    and s: "board_at K ok pace sf spent s" and p: "length p \<le> 256"
    and c: "c = default_lora_config\<lparr>spreading_factor := sf\<rparr>"
  shows "\<exists>s' rssi snr. deliver K (c, p) s = s'\<lparr>ss_port := bytes_now (wt_encoded (cable K) (packet_frame p rssi snr))\<rparr>
    \<and> board_at K ok pace sf spent s'"
proof -
  let ?t = "ss_task s"
  obtain l r where lr: "lt_radio ?t = (l, r)" by (rule prod.exhaust)
  have "ok r" using s lr by (simp add: board_at_def hub_at_def session_ok_def task_ok_def)
  from hears_packet [OF this p] obtain w r' rssi snr r'' where
    h: "wait_rx_event R RX_POLL_INTERVAL_MS (snd (arm_receive R (hears p r))) = (Inr w, r')"
      "read_packet R r' = (Inr \<lparr>rx_data = p, rx_rssi = rssi, rx_snr = snr\<rparr>, r'')" "ok r''" by blast
  define t' where "t' = lora_turn (tuned_radio R) LoraRadioWakes (?t\<lparr>lt_radio := (l, hears p r)\<rparr>)"
  have t': "lt_published t' = lt_published ?t @ [Unsolicited (RxPacket p rssi snr)]" "lt_disp t' = lt_disp ?t"
    "lt_commands t' = lt_commands ?t" "lt_radio t' = (l, r'')"
    by (simp_all add: t'_def lora_turn_def tuned_simps h case_prod_beta publish_packet_def)
  have "serial_stack (codec K) (cable K)" using K(1) by (simp add: bench_ok_def)
  from stack_simps(6) [OF this, of "RxPacket p rssi snr"] p
  have w: "written (codec K) [Unsolicited (RxPacket p rssi snr)] = wt_encoded (cable K) (packet_frame p rssi snr)"
    by (simp add: written_def packet_frame_def)
  let ?s' = "s\<lparr>ss_task := t'\<rparr>"
  have "deliver K (c, p) s = ?s'\<lparr>ss_port := bytes_now (wt_encoded (cable K) (packet_frame p rssi snr))\<rparr>"
    using board_at_port [OF s] board_tuning [OF s]
    by (simp add: deliver_def lr K(2,3) t'_def [symmetric] t'(1) w same_channel_def c)
  moreover have "board_at K ok pace sf spent ?s'"
    using s h(3) by (simp add: board_at_def hub_at_def session_ok_def task_ok_def t' in_tune_def tuning_of_def sent_of_def lr)
  ultimately show ?thesis by blast
qed

text \<open>A packet goes out from one board and is in the port of the other.\<close>

lemma send_reaches:
  assumes K: "bench_ok K" "transceiver K = R" "hear K = hears"
    and w: "boards_at K ok 7 n w" "n + 314 \<le> 360000" and p: "p \<noteq> []" "length p \<le> 255"
  shows "\<exists>w' rssi snr. send_lora (bench_ops K) i p w = (Inr (reading (RTxComplete, [])),
      w'(other i := (w' (other i))\<lparr>ss_port := bytes_now (wt_encoded (cable K) (packet_frame p rssi snr))\<rparr>))
    \<and> boards_at K ok 7 (n + 314) w'"
proof -
  obtain spent where at: "spent \<le> n" "board_at K ok (pace_of K i) 7 spent (w i)"
    using boards_at_board [OF w(1)] by blast
  obtain spent' where at': "spent' \<le> n" "board_at K ok (pace_of K (other i)) 7 spent' (w (other i))"
    using boards_at_board [OF w(1)] by blast
  have stack: "serial_stack (codec K) (cable K)" using K(1) by (simp add: bench_ok_def)
  define a where "a = unat (packet_airtime (default_lora_config\<lparr>spreading_factor := 7\<rparr>) p)"
  have a: "a \<le> 314" using lora_airtime [OF p(2)] by (simp add: a_def)
  let ?c = "default_lora_config\<lparr>spreading_factor := 7\<rparr>"
  have hub: "hub_at (codec K) (\<lambda>x. ok (snd x)) (pace_of K i) 7 spent (w i)" using at(2) by (simp add: board_at_def)
  obtain s' r where s': "ok (snd r)" "map snd (fst (fst r)) = map snd (sent_of (ss_task (w i)))"
    "ask (hub_device (codec K) (cable K) (tuned_radio R) (pace_of K i)) HostLoraTx p (w i) = (Inr (reading (RTxComplete, [])), s')"
    "hub_at (codec K) (\<lambda>x. ok (snd x)) (pace_of K i) 7 (spent + a) s'" "lt_radio (ss_task s') = snd (transmit (tuned_radio R) p r)"
    using tuned.air_exchange [OF stack bench_steady [OF K(1)] hub p a_def [symmetric]] a at(1) w(2) by (auto simp: sent_of_def)
  have "stays_tuned (ss_task (w i)) (ss_task s')" using s'(3) device_tuned unfolding ask_def by metis
  then have st: "in_tune (ss_task s')" "prefix (sent_of (ss_task (w i))) (sent_of (ss_task s'))"
    using at(2) by (simp_all add: stays_tuned_def board_at_def)
  have log: "sent_of (ss_task s') = fst (fst r) @ [(tuning_of (ss_task s'), p)]"
    using works_transmit [OF s'(1) p] s'(5) by (simp add: tuned_simps case_prod_beta sent_of_def tuning_of_def)
  have "length (fst (fst r)) = length (sent_of (ss_task (w i)))" using s'(2) by (metis length_map)
  then have "fst (fst r) = sent_of (ss_task (w i))" using st(2) log by (auto simp: prefix_def append_eq_append_conv)
  then have sent: "sent_of (ss_task s') = sent_of (ss_task (w i)) @ [(?c, p)]"
    using log st(1) s'(4) by (simp add: in_tune_def hub_at_def)
  then have at1: "board_at K ok (pace_of K i) 7 (spent + a) s'" using st(1) s'(4) at(2) by (simp add: board_at_def)
  obtain s'' rssi snr where d: "deliver K (?c, p) (w (other i)) = s''\<lparr>ss_port := bytes_now (wt_encoded (cable K) (packet_frame p rssi snr))\<rparr>"
    "board_at K ok (pace_of K (other i)) 7 spent' s''"
    using deliver_hears [OF K at'(2) _ refl, of p] p(2) by auto
  let ?w = "w(i := s', other i := s'')"
  have "boards_at K ok 7 (n + 314) ?w"
    unfolding boards_at_def
  proof
    fix j
    have "j = i \<or> j = other i" by (cases i; cases j) auto
    then show "\<exists>spent \<le> n + 314. board_at K ok (pace_of K j) 7 spent (?w j)"
      using at1 d(2) at(1) at'(1) a by (auto intro: exI [of _ "spent + a"] exI [of _ spent'])
  qed
  moreover have "send_lora (bench_ops K) i p w = (Inr (reading (RTxComplete, [])),
      ?w(other i := (?w (other i))\<lparr>ss_port := bytes_now (wt_encoded (cable K) (packet_frame p rssi snr))\<rparr>))"
    using s'(3) by (simp add: send_lora_def ask_def bench_ops_def bench_send_def K(2) sent d(1))
  ultimately show ?thesis by blast
qed

lemma hop_arrives:
  assumes K: "bench_ok K" "transceiver K = R" "hear K = hears"
    and w: "boards_at K ok 7 n w" "n + 314 \<le> 360000" and p: "p \<noteq> []" "length p \<le> 255"
  shows "\<exists>w'. hop (bench_ops K) i p w = (Inr (), w') \<and> hop_unchecked (bench_ops K) i p w = (Inr (), w')
    \<and> prime_direction 5 (bench_ops K) i p w = w' \<and> boards_at K ok 7 (n + 314) w'"
proof -
  obtain w' rssi snr where s: "send_lora (bench_ops K) i p w = (Inr (reading (RTxComplete, [])),
      w'(other i := (w' (other i))\<lparr>ss_port := bytes_now (wt_encoded (cable K) (packet_frame p rssi snr))\<rparr>))"
    "boards_at K ok 7 (n + 314) w'" using send_reaches [OF K w p] by blast
  have wt: "op_wait (bench_ops K) (other i) p timeout
      (w'(other i := (w' (other i))\<lparr>ss_port := bytes_now (wt_encoded (cable K) (packet_frame p rssi snr))\<rparr>))
      = (Inr (reading (packet_frame p rssi snr)), w')" if "0 < timeout" for timeout
    using wait_hears [OF K(1) s(2) _ that, of p "other i"] p(2) by simp
  have "prime_direction (Suc m) (bench_ops K) i p w = w'" for m
    using bench_quiet(1) [OF w(1)] wt [of 3000] by (simp add: s(1))
  moreover have "(5 :: nat) = Suc 4" by simp
  ultimately have "prime_direction 5 (bench_ops K) i p w = w'" by metis
  then show ?thesis
    using s(2) wt [of 8000] by (simp add: hop_def hop_unchecked_def and_then_def s(1) outcome_def sent_ok_def reading_def)
qed

lemma hops_arrive:
  assumes K: "bench_ok K" "transceiver K = R" "hear K = hears"
  shows "boards_at K ok 7 n w \<Longrightarrow> n + length ps * 314 \<le> 360000 \<Longrightarrow> list_all (\<lambda>p. p \<noteq> [] \<and> length p \<le> 255) ps \<Longrightarrow>
    \<exists>w'. one_by_one (hop (bench_ops K) i) ps w = (Inr (), w') \<and> boards_at K ok 7 (n + length ps * 314) w'"
proof (induction ps arbitrary: n w)
  case Nil
  then show ?case by (simp add: outcome_def)
next
  case (Cons p ps)
  obtain w1 where w1: "hop (bench_ops K) i p w = (Inr (), w1)" "boards_at K ok 7 (n + 314) w1"
    using hop_arrives [OF K Cons.prems(1), of p i] Cons.prems(2,3) by auto
  show ?case using Cons.IH [OF w1(2)] Cons.prems(2,3) by (auto simp: and_then_def w1(1) add.assoc)
qed

lemma rounds_arrive:
  assumes K: "bench_ok K" "transceiver K = R" "hear K = hears"
  shows "boards_at K ok 7 n w \<Longrightarrow> n + length is * 628 \<le> 360000 \<Longrightarrow>
    \<exists>w'. one_by_one (\<lambda>i. and_then (hop (bench_ops K) BoardA (round_message ''A->B:'' i))
        (\<lambda>_. hop (bench_ops K) BoardB (round_message ''B->A:'' i))) is w = (Inr (), w')
      \<and> boards_at K ok 7 (n + length is * 628) w'"
proof (induction "is" arbitrary: n w)
  case Nil
  then show ?case by (simp add: outcome_def)
next
  case (Cons j js)
  have m: "round_message a j \<noteq> []" "length a \<le> 200 \<Longrightarrow> length (round_message a j) \<le> 255" for a
    by (simp_all add: round_message_def lit_def)
  obtain w1 where w1: "hop (bench_ops K) BoardA (round_message ''A->B:'' j) w = (Inr (), w1)" "boards_at K ok 7 (n + 314) w1"
    using hop_arrives [OF K Cons.prems(1), of "round_message ''A->B:'' j" BoardA] Cons.prems(2) m by auto
  obtain w2 where w2: "hop (bench_ops K) BoardB (round_message ''B->A:'' j) w1 = (Inr (), w2)" "boards_at K ok 7 (n + 314 + 314) w2"
    using hop_arrives [OF K w1(2), of "round_message ''B->A:'' j" BoardB] Cons.prems(2) m by auto
  show ?case using Cons.IH [OF w2(2)] Cons.prems(2) by (auto simp: and_then_def w1(1) w2(1) add.assoc)
qed

lemma factor_changes:
  assumes K: "bench_ok K" "transceiver K = R"
    and w: "board_at K ok (pace_of K i) sf spent (w i)" and sf: "7 \<le> sf'" "sf' \<le> 12"
  shows "\<exists>s. change_factor (op_send (bench_ops K) i) sf' w = (Inr (), w(i := s)) \<and> board_at K ok (pace_of K i) sf' spent s"
proof -
  have stack: "serial_stack (codec K) (cable K)" using K(1) by (simp add: bench_ok_def)
  let ?V = "hub_device (codec K) (cable K) (tuned_radio R) (pace_of K i)"
  have hub: "hub_at (codec K) (\<lambda>x. ok (snd x)) (pace_of K i) sf spent (w i)" using w by (simp add: board_at_def)
  obtain s where s: "ask ?V HostSetSpreadingFactor [sf'] (w i) = (Inr (reading (config_frame sf')), s)"
    "hub_at (codec K) (\<lambda>x. ok (snd x)) (pace_of K i) sf' spent s" "map snd (sent_of (ss_task s)) = map snd (sent_of (ss_task (w i)))"
    using tuned.factor_exchange [OF stack bench_steady [OF K(1)] hub, of sf'] sf by (auto simp: sent_of_def)
  have "stays_tuned (ss_task (w i)) (ss_task s)" using s(1) device_tuned unfolding ask_def by metis
  then have st: "in_tune (ss_task s)" "prefix (sent_of (ss_task (w i))) (sent_of (ss_task s))"
    using w by (simp_all add: stays_tuned_def board_at_def)
  have "length (sent_of (ss_task s)) = length (sent_of (ss_task (w i)))" using s(3) by (metis length_map)
  then have same: "sent_of (ss_task s) = sent_of (ss_task (w i))" using st(2) by (auto simp: prefix_def)
  then have at: "board_at K ok (pace_of K i) sf' spent s" using st(1) s(2) w by (simp add: board_at_def)
  have "w(i := s, other i := w (other i)) = w(i := s)" by (intro ext) simp
  then have "ask (op_send (bench_ops K) i) HostSetSpreadingFactor [sf'] w = (Inr (reading (config_frame sf')), w(i := s))"
    using s(1) by (simp add: ask_def bench_ops_def bench_send_def K(2) same)
  then show ?thesis using at by (auto simp: change_factor_def reading_def config_frame_def to_le32_def)
qed

lemma boards_change:
  assumes K: "bench_ok K" "transceiver K = R" and w: "boards_at K ok sf n w" and sf: "7 \<le> sf'" "sf' \<le> 12"
  shows "\<exists>w1 w2. change_factor (op_send (bench_ops K) BoardA) sf' w = (Inr (), w1)
    \<and> change_factor (op_send (bench_ops K) BoardB) sf' w1 = (Inr (), w2) \<and> boards_at K ok sf' n w2"
proof -
  let ?at = "\<lambda>sf i spent s. board_at K ok (pace_of K i) sf spent s"
  obtain a where a: "a \<le> n" "?at sf BoardA a (w BoardA)" using boards_at_board [OF w] by blast
  obtain b where b: "b \<le> n" "?at sf BoardB b (w BoardB)" using boards_at_board [OF w] by blast
  obtain s where s: "change_factor (op_send (bench_ops K) BoardA) sf' w = (Inr (), w(BoardA := s))" "?at sf' BoardA a s"
    using factor_changes [where i = BoardA and w = w, OF K a(2) sf] by blast
  have "?at sf BoardB b ((w(BoardA := s)) BoardB)" using b(2) by simp
  from factor_changes [where i = BoardB and w = "w(BoardA := s)", OF K this sf] obtain t where
    t: "change_factor (op_send (bench_ops K) BoardB) sf' (w(BoardA := s)) = (Inr (), w(BoardA := s, BoardB := t))" "?at sf' BoardB b t"
    by blast
  have "\<exists>spent \<le> n. ?at sf' i spent ((w(BoardA := s, BoardB := t)) i)" for i
    using s(2) t(2) a(1) b(1) by (cases i) auto
  then have "boards_at K ok sf' n (w(BoardA := s, BoardB := t))" by (simp add: boards_at_def)
  then show ?thesis using s(1) t(1) by blast
qed

lemma start_at:
  assumes "\<And>i. ok (r i)" "transceiver K = R"
  shows "boards_at K ok 11 0 (boards_start K r)"
proof -
  have "hub_at (codec K) (\<lambda>x. ok (snd x)) (pace_of K i) 11 0 (boards_start K r i)" for i
    using tuned.hub_at_start [of "(([], default_lora_config), r i)"] assms by (simp add: boards_start_def)
  moreover have "in_tune (ss_task (boards_start K r i))" "sent_of (ss_task (boards_start K r i)) = []" for i
    by (simp_all add: boards_start_def session_start_def lora_start_def in_tune_def tuning_of_def sent_of_def tuned_simps
        new_dispatcher_def)
  ultimately have "board_at K ok (pace_of K i) 11 0 (boards_start K r i)" for i by (simp add: board_at_def)
  then show ?thesis by (simp add: boards_at_def)
qed

lemma suite_passes:
  assumes K: "bench_ok K" "transceiver K = R" "hear K = hears" and r: "\<And>i. ok (r i)"
  shows "\<exists>w. lora_suite (bench_ops K) (boards_start K r) = (Inr (replicate 5 True), w) \<and> boards_at K ok 11 9106 w"
proof -
  let ?X = "bench_ops K"
  obtain u0 u1 where u1: "change_factor (op_send ?X BoardA) 7 (boards_start K r) = (Inr (), u0)"
    "change_factor (op_send ?X BoardB) 7 u0 = (Inr (), u1)" "boards_at K ok 7 0 u1"
    using boards_change [OF K(1,2) start_at [of r, OF r K(2)], of 7] by auto
  note hop = hop_arrives [OF K]
  have lits: "lit ''WARMUP'' \<noteq> []" "lit ''Hello from A!'' \<noteq> []" "lit ''Hello from B!'' \<noteq> []" "lit ''PING'' \<noteq> []" "lit ''PONG'' \<noteq> []"
    "length (lit ''WARMUP'') \<le> 255" "length (lit ''Hello from A!'') \<le> 255" "length (lit ''Hello from B!'') \<le> 255"
    "length (lit ''PING'') \<le> 255" "length (lit ''PONG'') \<le> 255"
    "list_all (\<lambda>p. p \<noteq> [] \<and> length p \<le> 255) [lit ''Message 1'', lit ''Message 2'', lit ''Message 3'']"
    by (simp_all add: lit_def)
  obtain u2 where u2: "prime_direction 5 ?X BoardA (lit ''WARMUP'') u1 = u2" "boards_at K ok 7 314 u2"
    using hop [OF u1(3) _ lits(1,6), of BoardA] by auto
  obtain u3 where u3: "prime_direction 5 ?X BoardB (lit ''WARMUP'') u2 = u3" "boards_at K ok 7 628 u3"
    using hop [OF u2(2) _ lits(1,6), of BoardB] by auto
  have warm: "warm_up ?X u1 = u3" unfolding warm_up_def Let_def u2(1) u3(1) using bench_quiet(2) [OF u3(2)] by simp
  obtain u4 where u4: "hop ?X BoardA (lit ''Hello from A!'') u3 = (Inr (), u4)" "boards_at K ok 7 942 u4"
    using hop [OF u3(2) _ lits(2,7), of BoardA] by auto
  obtain u5 where u5: "hop ?X BoardB (lit ''Hello from B!'') u4 = (Inr (), u5)" "boards_at K ok 7 1256 u5"
    using hop [OF u4(2) _ lits(3,8), of BoardB] by auto
  obtain u6 where u6: "hop_unchecked ?X BoardA (lit ''PING'') u5 = (Inr (), u6)" "boards_at K ok 7 1570 u6"
    using hop [OF u5(2) _ lits(4,9), of BoardA] by auto
  obtain u7 where u7: "hop_unchecked ?X BoardB (lit ''PONG'') u6 = (Inr (), u7)" "boards_at K ok 7 1884 u7"
    using hop [OF u6(2) _ lits(5,10), of BoardB] by auto
  obtain u8 where u8: "one_by_one (hop ?X BoardA) [lit ''Message 1'', lit ''Message 2'', lit ''Message 3''] u7 = (Inr (), u8)"
    "boards_at K ok 7 2826 u8"
    using hops_arrive [OF K u7(2) _ lits(11), of BoardA] by auto
  obtain u9 where u9: "one_by_one (\<lambda>i. and_then (hop ?X BoardA (round_message ''A->B:'' i))
      (\<lambda>_. hop ?X BoardB (round_message ''B->A:'' i))) [0..<10] u8 = (Inr (), u9)"
    "boards_at K ok 7 9106 u9"
    using rounds_arrive [OF K u8(2), of "[0..<10]"] by auto
  obtain u10 u11 where u11: "change_factor (op_send ?X BoardA) 11 u9 = (Inr (), u10)"
    "change_factor (op_send ?X BoardB) 11 u10 = (Inr (), u11)" "boards_at K ok 11 9106 u11"
    using boards_change [OF K(1,2) u9(2), of 11] by auto
  note clear = bench_quiet(1) [OF u3(2), of BoardB] bench_quiet(1) [OF u4(2), of BoardA] bench_quiet(1) [OF u5(2)]
    bench_quiet(1) [OF u7(2)] bench_quiet(1) [OF u8(2)]
  have both: "clear_both ?X u5 = (Inr (), u5)" "clear_both ?X u7 = (Inr (), u7)" "clear_both ?X u8 = (Inr (), u8)"
    by (simp_all add: clear_both_def and_then_def outcome_def clear)
  have tests: "test_a_to_b ?X u3 = (Inr (), u4)" "test_b_to_a ?X u4 = (Inr (), u5)" "test_ping_pong ?X u5 = (Inr (), u7)"
    "test_multiple_messages ?X u7 = (Inr (), u8)" "test_reliability ?X u8 = (Inr (), u9)"
    by (simp_all only: test_a_to_b_def test_b_to_a_def test_ping_pong_def test_multiple_messages_def test_reliability_def
        and_then_Inr [where m = "op_clear ?X BoardB", OF clear(1)] and_then_Inr [where m = "op_clear ?X BoardA", OF clear(2)] and_then_Inr [where m = "clear_both ?X", OF both(1)] and_then_Inr [where m = "clear_both ?X", OF both(2)]
        and_then_Inr [where m = "clear_both ?X", OF both(3)] and_then_Inr [where m = "hop_unchecked ?X BoardA _", OF u6(1)] u4(1) u5(1) u7(1) u8(1) u9(1))
  show ?thesis
    unfolding lora_suite_def and_then_def u1 prod.case sum.case
    using u11 by (simp add: warm tests eval_nat_numeral)
qed

end

subsection \<open>The property\<close>

text \<open>
  C36. The tests with two boards pass. On two hubs with hearing radios in an air that loses nothing but
  carries a packet only between radios on the same channel, at any pace within the first 59 minutes,
  all five tests pass after boot: every message of a host is the one packet the other host waits for,
  in both directions, over both serial links and both dispatchers. The changes of the spreading factor
  reach the radios: everything either board sends goes out at spreading factor 7, and afterwards both
  radios are back at the default configuration. The warm-up and the budget get in no test's way.
\<close>

theorem packets_travel_between_hosts:
  assumes "hearing_radio (transceiver K) sent ok (hear K)" "bench_ok K" "ok (r BoardA)" "ok (r BoardB)"
  shows "\<exists>w. lora_suite (bench_ops K) (boards_start K r) = (Inr (replicate 5 True), w)
    \<and> (\<forall>i. list_all (\<lambda>e. spreading_factor (fst e) = 7) (sent_of (ss_task (w i)))
          \<and> tuning_of (ss_task (w i)) = default_lora_config)"
proof -
  have "ok (r i)" for i using assms(3,4) by (cases i) simp_all
  from hearing_radio.suite_passes [where r = r, OF assms(1,2) refl refl this] obtain w where
    w: "lora_suite (bench_ops K) (boards_start K r) = (Inr (replicate 5 True), w)" "boards_at K ok 11 9106 w" by blast
  have "default_lora_config\<lparr>spreading_factor := 11\<rparr> = default_lora_config"
    by (simp add: default_lora_config_def SPREADING_FACTOR_def)
  then have "list_all (\<lambda>e. spreading_factor (fst e) = 7) (sent_of (ss_task (w i))) \<and> tuning_of (ss_task (w i)) = default_lora_config" for i
    using boards_at_board [OF w(2), of i] by (auto dest: board_tuning) (simp add: board_at_def)
  then show ?thesis using w(1) by blast
qed

definition sample_bench :: "(bytes, mock_radio) bench" where
  "sample_bench =
     \<lparr>codec = sample_stack, cable = cobs_wire, transceiver = MockLoraRadio 256 0,
      hear = (\<lambda>p. queue_rx_packet \<lparr>rx_data = p, rx_rssi = - 60, rx_snr = 9\<rparr>), pace_of = (\<lambda>i n. (1, 5000))\<rparr>"

theorem packets_travel_between_hosts_witness:
  "fst (lora_suite (bench_ops sample_bench) (boards_start sample_bench (\<lambda>i. new_mock))) = Inr (replicate 5 True)"
proof -
  let ?ok = "\<lambda>m :: mock_radio. next_tx_error m = None \<and> next_rx_error m = None \<and> next_configure_error m = None \<and> rx_queue m = []"
  have h: "hearing_radio (transceiver sample_bench) tx_history
      (\<lambda>m. next_tx_error m = None \<and> next_rx_error m = None \<and> next_configure_error m = None \<and> rx_queue m = []) (hear sample_bench)"
    using mock_hears.hearing_radio_axioms [of 0] by (simp add: sample_bench_def)
  have b: "bench_ok sample_bench" by (simp add: bench_ok_def sample_bench_def sample_serial_stack steady_def)
  have n: "?ok new_mock" by (simp add: new_mock_def)
  from packets_travel_between_hosts [where r = "\<lambda>i. new_mock", OF h b n n] obtain w where "lora_suite (bench_ops sample_bench) (boards_start sample_bench (\<lambda>i. new_mock)) = (Inr (replicate 5 True), w)"
    by blast
  then show ?thesis by simp
qed

end
