(* ===== verification/Test_Support.thy ===== *)
theory Test_Support imports Udp_Protocol begin

text \<open>
  What the test programs share: the text functions of the standard library they use on what they
  receive, and steps that end a test when they fail.
\<close>

subsection \<open>Text\<close>

text \<open>\<open>String::from_utf8_lossy\<close>: the longest beginning of a character that does not go on is replaced.\<close>

definition replacement :: rtext where "replacement = [0xEF, 0xBF, 0xBD]"

fun utf8_lossy :: "bytes \<Rightarrow> rtext" where
  "utf8_lossy [] = []"
| "utf8_lossy (a # bs) =
     (if a < 0x80 then a # utf8_lossy bs
      else case bs of
          [] \<Rightarrow> replacement
        | b # cs \<Rightarrow>
            if lead2 a b then a # b # utf8_lossy cs
            else if lead3 a b then
              (case cs of
                 [] \<Rightarrow> replacement
               | c # ds \<Rightarrow> if continuation c then a # b # c # utf8_lossy ds else replacement @ utf8_lossy cs)
            else if lead4 a b then
              (case cs of
                 [] \<Rightarrow> replacement
               | c # ds \<Rightarrow>
                   if \<not> continuation c then replacement @ utf8_lossy cs
                   else case ds of
                       [] \<Rightarrow> replacement
                     | d # es \<Rightarrow> if continuation d then a # b # c # d # utf8_lossy es else replacement @ utf8_lossy ds)
            else replacement @ utf8_lossy bs)"

lemma utf8_lossy_ascii: "list_all (\<lambda>b. b < 0x80) s \<Longrightarrow> utf8_lossy s = s"
  by (induction s) auto

lemma digits_ascii: "list_all (\<lambda>b. b < 0x80) (dec n)"
proof -
  have "b < 0x80" if "is_digit b" for b using that le_less_trans [of b "0x39" "0x80"] by (simp add: is_digit_def)
  then show ?thesis using dec_digits by (auto simp: list_all_iff)
qed

definition str_contains :: "rtext \<Rightarrow> rtext \<Rightarrow> bool" where
  "str_contains s p \<longleftrightarrow> find_str p s \<noteq> None"

lemma find_str_later: "find_str p ys \<noteq> None \<Longrightarrow> find_str p (xs @ ys) \<noteq> None"
  by (induction xs) (auto split: if_splits)

lemma find_str_here: "find_str p (p @ ys) \<noteq> None"
proof (cases "p @ ys")
  case (Cons a zs)
  then have "take (length p) (a # zs) = p" by (metis append_eq_conv_conj)
  then show ?thesis by (simp add: Cons)
qed simp

lemma str_contains_part: "str_contains (xs @ p @ ys) p"
  unfolding str_contains_def by (rule find_str_later [OF find_str_here])

subsection \<open>Steps\<close>

text \<open>Steps that share the state of a test; one that fails ends the test.\<close>

definition followed ::
  "('s \<Rightarrow> (('e + 'x) \<times> 's) option) \<Rightarrow> ('x \<Rightarrow> 's \<Rightarrow> (('e + 'y) \<times> 's) option) \<Rightarrow> 's \<Rightarrow> (('e + 'y) \<times> 's) option" where
  "followed m f s =
     (case m s of
        None \<Rightarrow> None
      | Some (Inl e, s) \<Rightarrow> Some (Inl e, s)
      | Some (Inr x, s) \<Rightarrow> f x s)"

definition ensured :: "bool \<Rightarrow> 'e \<Rightarrow> 's \<Rightarrow> (('e + unit) \<times> 's) option" where
  "ensured b e s = Some (if b then Inr () else Inl e, s)"

lemma followed_Inr: "m s = Some (Inr x, s') \<Longrightarrow> followed m f s = f x s'"
  by (simp add: followed_def)

lemma followed_ensured: "b \<Longrightarrow> followed (ensured b e) f s = f () s"
  by (simp add: followed_def ensured_def)

end
