(* ===== verification/Gateway_Tests.thy ===== *)
theory Gateway_Tests imports Gateway_Udp Host_Client Test_Support begin

text \<open>
  The gateway test (\<open>src/integration_tests/src/gateway_udp_tests.rs\<close>): a network server that waits for
  the gateway's keepalive and report, acknowledging what it receives, and then sends one downlink that
  has to be accepted and one that has to be refused. The test runs over any socket; it is proved to pass
  on a network with a gateway of the model, whatever radio and devices do meanwhile. Times are in
  milliseconds; text for the screen is left out.
\<close>

subsection \<open>The server\<close>

definition SRV_VERSION :: u8 where "SRV_VERSION = 2"
definition SRV_PUSH_DATA :: u8 where "SRV_PUSH_DATA = 0x00"
definition SRV_PUSH_ACK :: u8 where "SRV_PUSH_ACK = 0x01"
definition SRV_PULL_DATA :: u8 where "SRV_PULL_DATA = 0x02"
definition SRV_PULL_RESP :: u8 where "SRV_PULL_RESP = 0x03"
definition SRV_PULL_ACK :: u8 where "SRV_PULL_ACK = 0x04"
definition SRV_TX_ACK :: u8 where "SRV_TX_ACK = 0x05"

lemmas srv_ids = SRV_VERSION_def SRV_PUSH_DATA_def SRV_PUSH_ACK_def SRV_PULL_DATA_def SRV_PULL_RESP_def
  SRV_PULL_ACK_def SRV_TX_ACK_def

text \<open>
  The socket: receiving gives a datagram with its sender, or nothing within the read timeout; sending
  may fail. Receiving cuts a datagram to the 1024 bytes of the buffer.
\<close>

record ('s, 'a) udp_socket =
  recv_from :: "'s \<Rightarrow> (bytes \<times> 'a) option \<times> 's"
  send_to :: "bytes \<Rightarrow> 'a \<Rightarrow> 's \<Rightarrow> bool \<times> 's"
  clock_of :: "'s \<Rightarrow> nat"

datatype gateway_test_error =
    BindFailed | ProvisionFailed host_error | SendFailed | NoPullData | NoStat | NoTxAck u16
  | BadEui bytes | NotAccepted rtext | NotRejected rtext

definition pull_resp :: "u16 \<Rightarrow> rtext \<Rightarrow> bytes" where
  "pull_resp token json = [SRV_VERSION, ucast (drop_bit 8 token), ucast token, SRV_PULL_RESP] @ json"

definition send_ack ::
  "('s, 'a) udp_socket \<Rightarrow> u8 \<Rightarrow> bytes \<Rightarrow> 'a \<Rightarrow> 'r option \<Rightarrow> 's \<Rightarrow> (gateway_test_error + 'r option) \<times> 's" where
  "send_ack U i d addr r s =
     (let (sent, s) = send_to U [SRV_VERSION, d ! 1, d ! 2, i] addr s in (if sent then Inr r else Inl SendFailed, s))"

text \<open>Datagrams are received until one gives a result or the deadline has passed.\<close>

partial_function (option) receive_until ::
  "('s, 'a) udp_socket \<Rightarrow> nat \<Rightarrow> (bytes \<Rightarrow> 'a \<Rightarrow> 's \<Rightarrow> (gateway_test_error + 'r option) \<times> 's) \<Rightarrow> 's
   \<Rightarrow> ((gateway_test_error + 'r option) \<times> 's) option" where
  "receive_until U deadline f s =
     (if \<not> clock_of U s < deadline then Some (Inr None, s)
      else case recv_from U s of
          (None, s) \<Rightarrow> receive_until U deadline f s
        | (Some (d, addr), s) \<Rightarrow>
            (case f (take 1024 d) addr s of
               (Inl e, s) \<Rightarrow> Some (Inl e, s)
             | (Inr (Some r), s) \<Rightarrow> Some (Inr (Some r), s)
             | (Inr None, s) \<Rightarrow> receive_until U deadline f s))"

definition or_bail ::
  "gateway_test_error \<Rightarrow> ((gateway_test_error + 'r option) \<times> 's) option \<Rightarrow> ((gateway_test_error + 'r) \<times> 's) option" where
  "or_bail e x = map_option (\<lambda>(r, s). (rbind r (\<lambda>r. ok_or r e), s)) x"

definition pull_data_step ::
  "('s, 'a) udp_socket \<Rightarrow> bytes \<Rightarrow> 'a \<Rightarrow> 's \<Rightarrow> (gateway_test_error + (bytes \<times> 'a) option) \<times> 's" where
  "pull_data_step U d addr s =
     (if 12 \<le> length d \<and> d ! 0 = SRV_VERSION \<and> d ! 3 = SRV_PULL_DATA
      then send_ack U SRV_PULL_ACK d addr (Some (take 8 (drop 4 d), addr)) s
      else if 12 \<le> length d \<and> d ! 0 = SRV_VERSION \<and> d ! 3 = SRV_PUSH_DATA
      then send_ack U SRV_PUSH_ACK d addr None s
      else (Inr None, s))"

definition wait_pull_data ::
  "('s, 'a) udp_socket \<Rightarrow> nat \<Rightarrow> 's \<Rightarrow> ((gateway_test_error + bytes \<times> 'a) \<times> 's) option" where
  "wait_pull_data U timeout s = or_bail NoPullData (receive_until U (clock_of U s + timeout) (pull_data_step U) s)"

definition stat_step :: "('s, 'a) udp_socket \<Rightarrow> bytes \<Rightarrow> 'a \<Rightarrow> 's \<Rightarrow> (gateway_test_error + rtext option) \<times> 's" where
  "stat_step U d addr s =
     (if length d < 12 \<or> d ! 0 \<noteq> SRV_VERSION then (Inr None, s)
      else if d ! 3 = SRV_PUSH_DATA then
        let json = utf8_lossy (drop 12 d)
        in send_ack U SRV_PUSH_ACK d addr (if str_contains json (lit ''\"stat\"'') then Some json else None) s
      else if d ! 3 = SRV_PULL_DATA then send_ack U SRV_PULL_ACK d addr None s
      else (Inr None, s))"

definition wait_stat :: "('s, 'a) udp_socket \<Rightarrow> nat \<Rightarrow> 's \<Rightarrow> ((gateway_test_error + rtext) \<times> 's) option" where
  "wait_stat U timeout s = or_bail NoStat (receive_until U (clock_of U s + timeout) (stat_step U) s)"

definition tx_ack_step ::
  "('s, 'a) udp_socket \<Rightarrow> u16 \<Rightarrow> bytes \<Rightarrow> 'a \<Rightarrow> 's \<Rightarrow> (gateway_test_error + rtext option) \<times> 's" where
  "tx_ack_step U token d addr s =
     (if length d < 12 \<or> d ! 0 \<noteq> SRV_VERSION then (Inr None, s)
      else if d ! 3 = SRV_TX_ACK \<and> from_be16 (d ! 1) (d ! 2) = token then (Inr (Some (utf8_lossy (drop 12 d))), s)
      else if d ! 3 = SRV_PULL_DATA then send_ack U SRV_PULL_ACK d addr None s
      else if d ! 3 = SRV_PUSH_DATA then send_ack U SRV_PUSH_ACK d addr None s
      else (Inr None, s))"

definition wait_tx_ack :: "('s, 'a) udp_socket \<Rightarrow> u16 \<Rightarrow> nat \<Rightarrow> 's \<Rightarrow> ((gateway_test_error + rtext) \<times> 's) option" where
  "wait_tx_ack U token timeout s =
     or_bail (NoTxAck token) (receive_until U (clock_of U s + timeout) (tx_ack_step U token) s)"

subsection \<open>The test\<close>

definition immediate_json :: rtext where
  "immediate_json = lit ''{\"txpk\":{\"imme\":true,\"freq\":869.525,\"powe\":14,\"modu\":\"LORA\",\"datr\":\"SF9BW125\",\"codr\":\"4/5\",\"ipol\":true,\"data\":\"AQI=\"}}''"

definition stale_json :: rtext where
  "stale_json = lit ''{\"txpk\":{\"imme\":false,\"tmst\":1000,\"freq\":868.1,\"powe\":14,\"modu\":\"LORA\",\"datr\":\"SF7BW125\",\"codr\":\"4/5\",\"ipol\":true,\"data\":\"AQI=\"}}''"

definition downlink_ack ::
  "('s, 'a) udp_socket \<Rightarrow> 'a \<Rightarrow> u16 \<Rightarrow> rtext \<Rightarrow> 's \<Rightarrow> ((gateway_test_error + rtext) \<times> 's) option" where
  "downlink_ack U addr token json s =
     (let (sent, s) = send_to U (pull_resp token json) addr s
      in if sent then wait_tx_ack U token 10000 s else Some (Inl SendFailed, s))"

text \<open>What the test shows at its end: the identifier, the report and the two acknowledgements.\<close>

definition gateway_checks ::
  "('s, 'a) udp_socket \<Rightarrow> 's \<Rightarrow> ((gateway_test_error + bytes \<times> rtext \<times> rtext \<times> rtext) \<times> 's) option" where
  "gateway_checks U =
     followed (wait_pull_data U 120000) (\<lambda>(eui, addr).
       followed (ensured (eui ! 3 = 0xFF \<and> eui ! 4 = 0xFE) (BadEui eui)) (\<lambda>_.
         followed (wait_stat U 90000) (\<lambda>stat.
           followed (downlink_ack U addr 0x1234 immediate_json) (\<lambda>ack.
             followed (ensured (str_contains ack (lit ''NONE'')) (NotAccepted ack)) (\<lambda>_.
               followed (downlink_ack U addr 0x2345 stale_json) (\<lambda>ack'.
                 followed (ensured (str_contains ack' (lit ''TOO_LATE'') \<or> str_contains ack' (lit ''TOO_EARLY''))
                   (NotRejected ack')) (\<lambda>_ s. Some (Inr (eui, stat, ack, ack'), s))))))))"

record gateway_args =
  ga_hub_port :: rtext
  ga_server_host :: rtext
  ga_server_port :: u16
  ga_wifi_ssid :: rtext
  ga_wifi_password :: rtext
  ga_skip_provision :: bool

definition provision_steps ::
  "wire \<Rightarrow> (bytes \<Rightarrow> bytes option) \<Rightarrow> gateway_args \<Rightarrow> client \<Rightarrow> ((host_error + unit) \<times> client) option" where
  "provision_steps W D args =
     then_do (wait_ready W D 5000) (\<lambda>_.
       then_do (total (if ga_wifi_ssid args \<noteq> []
           then expect_config_ack W D HostSetWifiConfig (wifi_config_payload (ga_wifi_ssid args) (ga_wifi_password args))
           else (\<lambda>c. (Inr (), c)))) (\<lambda>_.
         then_do (total (expect_config_ack W D HostSetGatewayConfig
             (gateway_config_payload 868100000 7 125 5 (ga_server_host args) (ga_server_port args)))) (\<lambda>_.
           then_do (total (expect_config_ack W D HostSetMode [1])) (\<lambda>_. total (reboot_device W)))))"

definition provision_gateway ::
  "wire \<Rightarrow> (bytes \<Rightarrow> bytes option) \<Rightarrow> host_env \<Rightarrow> gateway_args \<Rightarrow> (host_error + unit) option" where
  "provision_gateway W D H args =
     (case resolve_port_with_prefix W D H (ga_hub_port args) (lit ''LMH-'') of
        Inl e \<Rightarrow> Some (Inl e)
      | Inr port \<Rightarrow>
          (case new_client H port of
             None \<Rightarrow> Some (Inl (PortFailed []))
           | Some c \<Rightarrow> map_option fst (provision_steps W D args c)))"

definition gateway_udp_test ::
  "wire \<Rightarrow> (bytes \<Rightarrow> bytes option) \<Rightarrow> host_env \<Rightarrow> gateway_args \<Rightarrow> bool \<Rightarrow> ('s, 'a) udp_socket \<Rightarrow> 's
   \<Rightarrow> ((gateway_test_error + bytes \<times> rtext \<times> rtext \<times> rtext) \<times> 's) option" where
  "gateway_udp_test W D H args bound U =
     followed (ensured bound BindFailed) (\<lambda>_.
       followed (\<lambda>s.
           if ga_skip_provision args then Some (Inr (), s)
           else map_option (\<lambda>r. (map_sum ProvisionFailed id r, s)) (provision_gateway W D H args)) (\<lambda>_.
         gateway_checks U))"

subsection \<open>A network with a gateway\<close>

text \<open>
  The server's network: the gateway, how many of its datagrams the server has received, and the time.
  Once a second the gateway's turns of that second are taken, the radio's turns and packets in any
  number and order and the tick last. Datagrams arrive in order and none is lost.
\<close>

record 'w lan =
  ln_gateway :: "'w gateway_net"
  ln_seen :: nat
  ln_now :: nat

text \<open>Within a second the radio has its turns, and uplinks are forwarded if \<open>up\<close>.\<close>

fun quiet_step :: "bool \<Rightarrow> gateway_step \<Rightarrow> bool" where
  "quiet_step up (RadioTurn e) = True"
| "quiet_step up (UdpTurn UplinkReady) = up"
| "quiet_step up (UdpTurn u) = False"

definition next_second ::
  "'w hal \<Rightarrow> hub_config \<Rightarrow> 'fl gw_lib \<Rightarrow> (nat \<Rightarrow> gateway_step list) \<Rightarrow> 'w lan \<Rightarrow> 'w lan" where
  "next_second h c L turns s =
     s\<lparr>ln_gateway := snd (net_run h c L (turns (ln_now s div 1000) @ [UdpTurn Tick]) (ln_gateway s)),
       ln_now := ln_now s + 1000\<rparr>"

definition lan_waiting :: "'w lan \<Rightarrow> bool" where
  "lan_waiting s \<longleftrightarrow> ln_seen s < length (un_sent (ln_gateway s))"

definition lan_pop :: "'w lan \<Rightarrow> (bytes \<times> unit) option \<times> 'w lan" where
  "lan_pop s = (Some (un_sent (ln_gateway s) ! ln_seen s, ()), s\<lparr>ln_seen := ln_seen s + 1\<rparr>)"

definition lan_socket ::
  "'w hal \<Rightarrow> hub_config \<Rightarrow> 'fl gw_lib \<Rightarrow> (nat \<Rightarrow> gateway_step list) \<Rightarrow> ('w lan, unit) udp_socket" where
  "lan_socket h c L turns =
     \<lparr>recv_from = (\<lambda>s.
        if lan_waiting s then lan_pop s
        else let s = next_second h c L turns s
             in if lan_waiting s then lan_pop s
                else let s = next_second h c L turns s in if lan_waiting s then lan_pop s else (None, s)),
      send_to = (\<lambda>d addr s. (True, s\<lparr>ln_gateway :=
        snd (udp_turn L (UdpDatagram (of_nat (ln_now s * 1000)) d) (ln_gateway s))\<rparr>)),
      clock_of = ln_now\<rparr>"

text \<open>The network \<open>k\<close> seconds after the gateway booted; what it sent before is lost.\<close>

definition lan_at ::
  "'w hal \<Rightarrow> hub_config \<Rightarrow> 'fl gw_lib \<Rightarrow> (nat \<Rightarrow> gateway_step list) \<Rightarrow> nat \<Rightarrow> bytes \<Rightarrow> 'w \<Rightarrow> 'w recorded lan" where
  "lan_at h c L turns k mac w =
     (let s = (next_second (recording h) c L turns ^^ k) \<lparr>ln_gateway = net_boot h c mac w, ln_seen = 0, ln_now = 0\<rparr>
      in s\<lparr>ln_seen := length (un_sent (ln_gateway s))\<rparr>)"

subsection \<open>What the gateway sends\<close>

text \<open>
  The datagrams of the gateway with identifier \<open>e\<close>: keepalives, reports, uplinks if \<open>up\<close>, and the
  acknowledgements \<open>acks\<close> of downlinks.
\<close>

definition datagram_is :: "bytes \<Rightarrow> u8 \<Rightarrow> u16 \<Rightarrow> bytes \<Rightarrow> bytes \<Rightarrow> bool" where
  "datagram_is e i token rest d \<longleftrightarrow> d = [SRV_VERSION] @ to_be16 token @ [i] @ e @ rest \<and> length d \<le> 1024"

definition is_keepalive :: "bytes \<Rightarrow> bytes \<Rightarrow> bool" where
  "is_keepalive e d \<longleftrightarrow> (\<exists>token. datagram_is e SRV_PULL_DATA token [] d)"

definition is_report :: "bytes \<Rightarrow> bytes \<Rightarrow> bool" where
  "is_report e d \<longleftrightarrow> (\<exists>token st. datagram_is e SRV_PUSH_DATA token (concat (stat_pieces st)) d)"

definition is_uplink :: "'fl gw_lib \<Rightarrow> bytes \<Rightarrow> bytes \<Rightarrow> bool" where
  "is_uplink L e d \<longleftrightarrow> (\<exists>token m p rest. d = build_push_data_rxpk L PUSH_BUF token e m p
     \<and> datagram_is e SRV_PUSH_DATA token rest d)"

definition is_ack :: "(u16 \<times> rtext) set \<Rightarrow> bytes \<Rightarrow> bytes \<Rightarrow> bool" where
  "is_ack acks e d \<longleftrightarrow> (\<exists>token rest. datagram_is e SRV_TX_ACK token rest d \<and> (token, rest) \<in> acks)"

definition upstream :: "bool \<Rightarrow> 'fl gw_lib \<Rightarrow> (u16 \<times> rtext) set \<Rightarrow> bytes \<Rightarrow> bytes \<Rightarrow> bool" where
  "upstream up L acks e d \<longleftrightarrow> is_keepalive e d \<or> is_report e d \<or> up \<and> is_uplink L e d \<or> is_ack acks e d"

lemma write_pieces_extends: "\<exists>r. write_pieces cap w ps = w @ r"
proof (induction ps arbitrary: w)
  case (Cons p ps)
  show ?case
  proof (cases "cap < length w + length p")
    case True then show ?thesis by (simp add: write_str_def)
  next
    case False
    then show ?thesis using Cons.IH [of "push_bytes cap w p"] by (auto simp: write_str_def push_bytes_def)
  qed
qed simp

lemma version_same: "Udp_Protocol.PROTOCOL_VERSION = SRV_VERSION"
  by (simp add: Udp_Protocol.PROTOCOL_VERSION_def SRV_VERSION_def)

lemma built_is:
  assumes "length e = 8" "12 \<le> cap" "cap \<le> 1024"
  shows "\<exists>rest. datagram_is e i token rest (write_pieces cap (gw_header cap token i (Some e)) ps)"
proof -
  obtain r where r: "write_pieces cap (gw_header cap token i (Some e)) ps = gw_header cap token i (Some e) @ r"
    using write_pieces_extends by blast
  have "length (write_pieces cap (gw_header cap token i (Some e)) ps) \<le> cap"
    using assms by (intro length_write_pieces) (simp add: gw_header_fits)
  then show ?thesis using assms r by (auto simp: datagram_is_def gw_header_fits version_same)
qed

lemma keepalive_is: "length e = 8 \<Longrightarrow> datagram_is e SRV_PULL_DATA token [] (build_pull_data PUSH_BUF token e)"
  by (simp add: datagram_is_def build_pull_data_def gw_header_fits PUSH_BUF_def version_same packet_ids srv_ids)

lemma stat_is: "length e = 8 \<Longrightarrow>
  datagram_is e SRV_PUSH_DATA token (concat (stat_pieces s)) (build_push_data_stat PUSH_BUF token e s)"
  using stat_length [of s] by (simp add: datagram_is_def stat_complete version_same packet_ids srv_ids)

lemma ack_is: "length e = 8 \<Longrightarrow>
  datagram_is e SRV_TX_ACK token (concat (tx_ack_pieces x)) (build_tx_ack ACK_BUF token e x)"
  using length_tx_ack_str [of x]
  by (simp add: datagram_is_def tx_ack_complete ACK_BUF_def version_same packet_ids srv_ids)
    (simp add: tx_ack_pieces_def)

lemma rxpk_is: "length e = 8 \<Longrightarrow> \<exists>rest. datagram_is e SRV_PUSH_DATA token rest (build_push_data_rxpk L PUSH_BUF token e m p)"
  using built_is [of e PUSH_BUF PUSH_DATA token "rxpk_pieces L m p"]
  by (simp add: build_push_data_rxpk_def PUSH_BUF_def packet_ids srv_ids)

lemma upstream_built:
  assumes "length e = 8"
  shows "upstream up L acks e (build_pull_data PUSH_BUF token e)" "upstream up L acks e (build_push_data_stat PUSH_BUF token e s)"
    "up \<Longrightarrow> upstream up L acks e (build_push_data_rxpk L PUSH_BUF token e m p)"
    "(token, concat (tx_ack_pieces x)) \<in> acks \<Longrightarrow> upstream up L acks e (build_tx_ack ACK_BUF token e x)"
  using keepalive_is [OF assms, of token] stat_is [OF assms, of token s] rxpk_is [OF assms, of token L m p]
    ack_is [OF assms, of token x]
  unfolding upstream_def is_keepalive_def is_report_def is_uplink_def is_ack_def by blast+

lemma upstream_datagram:
  assumes "upstream up L acks e d"
  obtains i token rest where "datagram_is e i token rest d" "i = SRV_PULL_DATA \<or> i = SRV_PUSH_DATA \<or> i = SRV_TX_ACK"
  using assms unfolding upstream_def is_keepalive_def is_report_def is_uplink_def is_ack_def by blast

text \<open>The fields of a datagram as the server reads them.\<close>

lemma fields_of:
  assumes "datagram_is e i token rest d" "length e = 8"
  shows "take 1024 d = d" "12 \<le> length d" "d ! 0 = SRV_VERSION" "d ! 3 = i" "from_be16 (d ! 1) (d ! 2) = token"
    "take 8 (drop 4 d) = e" "drop 12 d = rest"
  using assms by (auto simp: datagram_is_def to_be16_def from_be16_to_be16 [unfolded to_be16_def])

text \<open>
  The gateway while the test runs; while it is \<open>fresh\<close> no downlink has been accepted.
\<close>

definition gw_ok :: "bool \<Rightarrow> 'fl gw_lib \<Rightarrow> (u16 \<times> rtext) set \<Rightarrow> bytes \<Rightarrow> bool \<Rightarrow> 'w gateway_net \<Rightarrow> bool" where
  "gw_ok up L acks e fresh g \<longleftrightarrow> length e = 8 \<and> fw_eui (un_fw g) = e \<and> unat (un_pull g) \<le> 10 \<and> unat (un_stat g) \<le> 30
     \<and> list_all (upstream up L acks e) (un_sent g) \<and> (fresh \<longrightarrow> gt_downlinks g = [] \<and> fw_duty (un_fw g) = [])"

lemma gateway_turn_idle: "gt_downlinks g = [] \<Longrightarrow> gt_downlinks (gateway_turn h c e g) = []"
  by (auto simp: gateway_turn_def gateway_listen_def forward_uplink_def downlink_sent_def Let_def
      split: sum.split prod.split option.split gateway_event.split list.split)

lemma quiet_ok:
  assumes "gw_ok up L acks e fresh g" "quiet_step up q" "net_step h c L q g = (l, g')"
  shows "gw_ok up L acks e fresh g' \<and> un_pull g' = un_pull g \<and> un_stat g' = un_stat g \<and> prefix (un_sent g) (un_sent g')"
proof -
  consider (radio) r where "q = RadioTurn r" | (uplink) "q = UdpTurn UplinkReady" up
    using assms(2) by (cases "(up, q)" rule: quiet_step.cases) auto
  then show ?thesis
  proof cases
    case radio
    then show ?thesis using assms(1,3) gateway_turn_idle [of g h c r] by (auto simp: gw_ok_def)
  next
    case uplink
    then show ?thesis using assms(1,3) upstream_built(3) [of e up L acks]
      by (auto simp: gw_ok_def on_uplink_def next_token_def Let_def split: list.splits)
  qed
qed

lemma tick_ok: "gw_ok up L acks e fresh g \<Longrightarrow> gw_ok up L acks e fresh (udp_tick g) \<and> prefix (un_sent g) (un_sent (udp_tick g))"
proof
  assume g: "gw_ok up L acks e fresh g"
  have "unat (un_pull (udp_tick g)) \<le> 10 \<and> unat (un_stat (udp_tick g)) \<le> 30"
    using tick_pull [of g] tick_stat [of g] g by (auto simp: gw_ok_def)
  then show "gw_ok up L acks e fresh (udp_tick g)" using g upstream_built(1,2) [of e up L acks]
    by (auto simp: gw_ok_def udp_tick_def on_keepalive_def on_stat_def next_token_def Let_def)
  show "prefix (un_sent g) (un_sent (udp_tick g))"
    by (auto simp: udp_tick_def on_keepalive_def on_stat_def next_token_def Let_def)
qed

lemma net_run_append:
  "net_run h c L (xs @ ys) g = (let (l, g) = net_run h c L xs g; (l', g) = net_run h c L ys g in (l @ l', g))"
  by (induction xs arbitrary: g) (auto simp: Let_def split: prod.splits)

lemma quiets_ok:
  "\<lbrakk>list_all (quiet_step up) qs; gw_ok up L acks e fresh g; net_run h c L qs g = (l, g')\<rbrakk> \<Longrightarrow>
   gw_ok up L acks e fresh g' \<and> un_pull g' = un_pull g \<and> un_stat g' = un_stat g \<and> prefix (un_sent g) (un_sent g')"
proof (induction qs arbitrary: g l)
  case (Cons q qs)
  obtain l1 g1 where s: "net_step h c L q g = (l1, g1)" by force
  obtain l2 where r: "net_run h c L qs g1 = (l2, g')" using Cons.prems(3) s by (auto simp: Let_def split: prod.splits)
  have "quiet_step up q" "list_all (quiet_step up) qs" using Cons.prems(1) by simp_all
  note q = quiet_ok [OF Cons.prems(2) this(1) s] and IH = Cons.IH [OF this(2) _ r]
  show ?case using q IH by (metis prefix_order.order_trans)
qed simp

text \<open>How many seconds may pass until the next keepalive or report.\<close>

definition pull_need :: "'w gateway_net \<Rightarrow> nat" where
  "pull_need g = max 1 (10 - unat (un_pull g))"

definition stat_need :: "'w gateway_net \<Rightarrow> nat" where
  "stat_need g = max 1 (30 - unat (un_stat g))"

text \<open>A second of the network: it sends the datagram \<open>P\<close> or comes closer to it.\<close>

definition nearing :: "(bytes \<Rightarrow> bool) \<Rightarrow> ('w gateway_net \<Rightarrow> nat) \<Rightarrow> 'w gateway_net \<Rightarrow> 'w gateway_net \<Rightarrow> bool" where
  "nearing P need g g' \<longleftrightarrow> sends P g g' \<or> need g' < need g"

lemma second_ok:
  assumes g: "gw_ok up L acks e fresh (ln_gateway s)" and quiet: "\<And>n. list_all (quiet_step up) (turns n)"
  shows "gw_ok up L acks e fresh (ln_gateway (next_second h c L turns s))
    \<and> prefix (un_sent (ln_gateway s)) (un_sent (ln_gateway (next_second h c L turns s)))
    \<and> nearing (is_keepalive e) pull_need (ln_gateway s) (ln_gateway (next_second h c L turns s))
    \<and> nearing (is_report e) stat_need (ln_gateway s) (ln_gateway (next_second h c L turns s))"
proof -
  obtain l g1 where r: "net_run h c L (turns (ln_now s div 1000)) (ln_gateway s) = (l, g1)" by force
  note q = quiets_ok [OF quiet g r]
  have g': "ln_gateway (next_second h c L turns s) = udp_tick g1" by (simp add: next_second_def net_run_append r)
  have t: "gw_ok up L acks e fresh (udp_tick g1)" "prefix (un_sent g1) (un_sent (udp_tick g1))"
    using tick_ok q by blast+
  have e: "length e = 8" "fw_eui (un_fw g1) = e" "unat (un_pull g1) \<le> 10" "unat (un_stat g1) \<le> 30"
    using conjunct1 [OF q] by (simp_all add: gw_ok_def)
  have sent: "is_keepalive e (build_pull_data PUSH_BUF token e)" "is_report e (build_push_data_stat PUSH_BUF token e st)" for token st
    using keepalive_is [OF e(1)] stat_is [OF e(1)] unfolding is_keepalive_def is_report_def by blast+
  have "sends (is_keepalive e) g1 (udp_tick g1) \<or> pull_need (udp_tick g1) < pull_need g1"
    using tick_pull [OF e(3)] e(2) sent(1) by (auto simp: sends_def pull_need_def)
  moreover have "sends (is_report e) g1 (udp_tick g1) \<or> stat_need (udp_tick g1) < stat_need g1"
    using tick_stat [OF e(4)] e(2) sent(2) by (auto simp: sends_def stat_need_def)
  moreover have "pull_need g1 = pull_need (ln_gateway s)" "stat_need g1 = stat_need (ln_gateway s)"
    using q by (simp_all add: pull_need_def stat_need_def)
  moreover have "prefix (un_sent (ln_gateway s)) (un_sent g1)" using q by blast
  ultimately show ?thesis unfolding g' nearing_def
    using t sends_prefix [of "ln_gateway s" g1 "udp_tick g1"] by (metis prefix_order.order_trans)
qed

subsection \<open>Receiving\<close>

definition lan_ok :: "bool \<Rightarrow> 'fl gw_lib \<Rightarrow> (u16 \<times> rtext) set \<Rightarrow> bytes \<Rightarrow> bool \<Rightarrow> 'w lan \<Rightarrow> bool" where
  "lan_ok up L acks e fresh s \<longleftrightarrow> gw_ok up L acks e fresh (ln_gateway s) \<and> ln_seen s \<le> length (un_sent (ln_gateway s))"

definition waiting_for :: "(bytes \<Rightarrow> bool) \<Rightarrow> 'w lan \<Rightarrow> bool" where
  "waiting_for P s \<longleftrightarrow> (\<exists>d \<in> set (drop (ln_seen s) (un_sent (ln_gateway s))). P d)"

text \<open>A datagram that is due before a deadline: it waits to be received, or is sent in time.\<close>

definition due :: "(bytes \<Rightarrow> bool) \<Rightarrow> ('w gateway_net \<Rightarrow> nat) \<Rightarrow> nat \<Rightarrow> 'w lan \<Rightarrow> bool" where
  "due P need deadline s \<longleftrightarrow> ln_now s < deadline \<and> (waiting_for P s \<or> ln_now s + 1000 * need (ln_gateway s) < deadline)"

text \<open>Two states between which no time passed and no datagram was received or sent.\<close>

definition calm :: "bool \<Rightarrow> 'fl gw_lib \<Rightarrow> (u16 \<times> rtext) set \<Rightarrow> bytes \<Rightarrow> bool \<Rightarrow> 'w lan \<Rightarrow> 'w lan \<Rightarrow> bool" where
  "calm up L acks e fresh s s' \<longleftrightarrow> ln_now s' = ln_now s \<and> ln_seen s' = ln_seen s \<and> un_sent (ln_gateway s') = un_sent (ln_gateway s)
     \<and> un_pull (ln_gateway s') = un_pull (ln_gateway s) \<and> un_stat (ln_gateway s') = un_stat (ln_gateway s)
     \<and> (gw_ok up L acks e fresh (ln_gateway s) \<longrightarrow> gw_ok up L acks e fresh (ln_gateway s'))"

lemma next_second_simps [simp]:
  "ln_now (next_second h c L turns s) = ln_now s + 1000" "ln_seen (next_second h c L turns s) = ln_seen s"
  by (simp_all add: next_second_def)

lemma due_second:
  assumes s: "lan_ok up L acks e fresh s" and quiet: "\<And>n. list_all (quiet_step up) (turns n)"
    and empty: "\<not> lan_waiting s" and due: "due P need deadline s"
    and near: "ln_now s + 1000 * need (ln_gateway s) < deadline \<Longrightarrow> nearing P need (ln_gateway s) (ln_gateway (next_second h c L turns s))"
    and pos: "\<And>g. 0 < need g"
  shows "lan_ok up L acks e fresh (next_second h c L turns s) \<and> due P need deadline (next_second h c L turns s)"
proof
  let ?s = "next_second h c L turns s"
  have g: "gw_ok up L acks e fresh (ln_gateway s)" and seen: "ln_seen s = length (un_sent (ln_gateway s))"
    using s empty by (simp_all add: lan_ok_def lan_waiting_def)
  note sec = second_ok [where turns = turns and h = h and c = c and L = L, OF g quiet]
  show "lan_ok up L acks e fresh ?s" using sec seen by (auto simp: lan_ok_def dest: prefix_length_le)
  have none: "\<not> waiting_for P s" using seen by (simp add: waiting_for_def)
  have due': "ln_now s + 1000 * need (ln_gateway s) < deadline" using due none by (simp add: due_def)
  then have now: "ln_now s + 1000 < deadline" using pos [of "ln_gateway s"] by simp
  show "due P need deadline ?s"
  proof (cases "sends P (ln_gateway s) (ln_gateway ?s)")
    case True
    then have "waiting_for P ?s" using seen by (simp add: waiting_for_def sends_def)
    then show ?thesis using now by (simp add: due_def)
  next
    case False
    then have "need (ln_gateway ?s) < need (ln_gateway s)" using near [OF due'] by (simp add: nearing_def)
    then have "need (ln_gateway ?s) + 1 \<le> need (ln_gateway s)" by simp
    then have "1000 * (need (ln_gateway ?s) + 1) \<le> 1000 * need (ln_gateway s)" by (rule mult_le_mono2)
    then show ?thesis using due' now by (simp add: due_def)
  qed
qed

text \<open>One receive: it takes the oldest waiting datagram, or time passes.\<close>

lemma due_pop:
  assumes s: "lan_ok up L acks e fresh s" and w: "lan_waiting s" and due: "due P need deadline s"
  obtains d where "lan_pop s = (Some (d, ()), s\<lparr>ln_seen := ln_seen s + 1\<rparr>)" "upstream up L acks e d"
    "lan_ok up L acks e fresh (s\<lparr>ln_seen := ln_seen s + 1\<rparr>)" "P d \<or> due P need deadline (s\<lparr>ln_seen := ln_seen s + 1\<rparr>)"
proof -
  let ?ds = "un_sent (ln_gateway s)"
  define d where "d = ?ds ! ln_seen s"
  have lt: "ln_seen s < length ?ds" using w by (simp add: lan_waiting_def)
  then have cut: "drop (ln_seen s) ?ds = d # drop (ln_seen s + 1) ?ds" by (simp add: d_def Cons_nth_drop_Suc)
  have "upstream up L acks e d" using s lt by (simp add: lan_ok_def gw_ok_def list_all_length d_def)
  moreover have "P d \<or> due P need deadline (s\<lparr>ln_seen := ln_seen s + 1\<rparr>)"
    using due cut by (auto simp: due_def waiting_for_def)
  ultimately show thesis using that s lt by (simp add: lan_pop_def d_def lan_ok_def)
qed

lemma receive_step:
  assumes quiet: "\<And>n. list_all (quiet_step up) (turns n)" and pos: "\<And>g. 0 < need g"
    and near: "\<forall>s. lan_ok up L acks e fresh s \<longrightarrow> ln_now s + 1000 * need (ln_gateway s) < deadline
      \<longrightarrow> nearing P need (ln_gateway s) (ln_gateway (next_second h c L turns s))"
    and s: "lan_ok up L acks e fresh s" and due: "due P need deadline s"
  obtains (silence) s' where "recv_from (lan_socket h c L turns) s = (None, s')" "lan_ok up L acks e fresh s'" "due P need deadline s'"
      "ln_now s < ln_now s'"
  | (datagram) d t where "recv_from (lan_socket h c L turns) s = (Some (d, ()), t\<lparr>ln_seen := ln_seen t + 1\<rparr>)"
      "upstream up L acks e d" "lan_ok up L acks e fresh (t\<lparr>ln_seen := ln_seen t + 1\<rparr>)" "ln_now t < deadline"
      "P d \<or> due P need deadline (t\<lparr>ln_seen := ln_seen t + 1\<rparr>)" "ln_now s < ln_now t \<or> t = s \<and> lan_waiting s"
proof -
  define u v where "u = next_second h c L turns s" and "v = next_second h c L turns u"
  note onward = due_second [where turns = turns and h = h and c = c and L = L, OF _ quiet _ _ near [rule_format] pos]
  have now: "ln_now t < deadline" if "due P need deadline t" for t :: "'a lan" using that by (simp add: due_def)
  consider "lan_waiting s" | "\<not> lan_waiting s" "lan_waiting u" | "\<not> lan_waiting s" "\<not> lan_waiting u" "lan_waiting v"
    | "\<not> lan_waiting s" "\<not> lan_waiting u" "\<not> lan_waiting v" by blast
  then show thesis
  proof cases
    case 1
    from due_pop [OF s 1 due] obtain d where "lan_pop s = (Some (d, ()), s\<lparr>ln_seen := ln_seen s + 1\<rparr>)" "upstream up L acks e d"
      "lan_ok up L acks e fresh (s\<lparr>ln_seen := ln_seen s + 1\<rparr>)" "P d \<or> due P need deadline (s\<lparr>ln_seen := ln_seen s + 1\<rparr>)" .
    then show ?thesis using datagram [of d s] 1 now [OF due] by (simp add: lan_socket_def)
  next
    case 2
    then have u: "lan_ok up L acks e fresh u" "due P need deadline u" using onward [OF s 2(1) due s] by (simp_all add: u_def)
    from due_pop [OF u(1) 2(2) u(2)] obtain d where "lan_pop u = (Some (d, ()), u\<lparr>ln_seen := ln_seen u + 1\<rparr>)" "upstream up L acks e d"
      "lan_ok up L acks e fresh (u\<lparr>ln_seen := ln_seen u + 1\<rparr>)" "P d \<or> due P need deadline (u\<lparr>ln_seen := ln_seen u + 1\<rparr>)" .
    then show ?thesis using datagram [of d u] 2 now [OF u(2)] by (simp add: lan_socket_def u_def)
  next
    case 3
    then have u: "lan_ok up L acks e fresh u" "due P need deadline u" using onward [OF s 3(1) due s] by (simp_all add: u_def)
    then have v: "lan_ok up L acks e fresh v" "due P need deadline v" using onward [OF u(1) 3(2) u(2) u(1)] by (simp_all add: v_def)
    from due_pop [OF v(1) 3(3) v(2)] obtain d where "lan_pop v = (Some (d, ()), v\<lparr>ln_seen := ln_seen v + 1\<rparr>)" "upstream up L acks e d"
      "lan_ok up L acks e fresh (v\<lparr>ln_seen := ln_seen v + 1\<rparr>)" "P d \<or> due P need deadline (v\<lparr>ln_seen := ln_seen v + 1\<rparr>)" .
    then show ?thesis using datagram [of d v] 3 now [OF v(2)] by (simp add: lan_socket_def u_def v_def)
  next
    case 4
    then have u: "lan_ok up L acks e fresh u" "due P need deadline u" using onward [OF s 4(1) due s] by (simp_all add: u_def)
    then have v: "lan_ok up L acks e fresh v" "due P need deadline v" using onward [OF u(1) 4(2) u(2) u(1)] by (simp_all add: v_def)
    have "recv_from (lan_socket h c L turns) s = (None, v)" "ln_now s < ln_now v"
      using 4 by (simp_all add: lan_socket_def u_def v_def)
    then show ?thesis using v by (intro silence [of v])
  qed
qed

lemma calm_keeps:
  assumes "calm up L acks e fresh s s'" "\<forall>g g'. un_pull g' = un_pull g \<longrightarrow> un_stat g' = un_stat g \<longrightarrow> need g' = need g"
  shows "lan_ok up L acks e fresh s \<Longrightarrow> lan_ok up L acks e fresh s'" "due P need deadline s \<Longrightarrow> due P need deadline s'"
proof -
  have "need (ln_gateway s') = need (ln_gateway s)" using assms(1) by (intro assms(2) [rule_format]) (simp_all add: calm_def)
  then show "lan_ok up L acks e fresh s \<Longrightarrow> lan_ok up L acks e fresh s'" "due P need deadline s \<Longrightarrow> due P need deadline s'"
    using assms(1) by (auto simp: calm_def lan_ok_def due_def waiting_for_def)
qed

text \<open>
  A wait for a datagram that is due ends with a result. Of a step it is asked that it gives the result
  \<open>res\<close> of the datagram without disturbing the network, and that \<open>res\<close> is one for the datagram due.
\<close>

lemma receive_finds:
  assumes quiet: "\<And>n. list_all (quiet_step up) (turns n)" and pos: "\<And>g. 0 < need g"
    and near: "\<forall>s. lan_ok up L acks e fresh s \<longrightarrow> ln_now s + 1000 * need (ln_gateway s) < deadline
      \<longrightarrow> nearing P need (ln_gateway s) (ln_gateway (next_second h c L turns s))"
    and same: "\<forall>g g'. un_pull g' = un_pull g \<longrightarrow> un_stat g' = un_stat g \<longrightarrow> need g' = need g"
    and f: "\<forall>d s. upstream up L acks e d \<longrightarrow> lan_ok up L acks e fresh s \<longrightarrow> (\<exists>s'. f d () s = (Inr (res d), s') \<and> calm up L acks e fresh s s')"
    and res: "\<forall>d. upstream up L acks e d \<longrightarrow> P d \<longrightarrow> res d \<noteq> None"
  shows "lan_ok up L acks e fresh s \<Longrightarrow> due P need deadline s \<Longrightarrow>
    \<exists>d r s'. receive_until (lan_socket h c L turns) deadline f s = Some (Inr (Some r), s') \<and> res d = Some r
      \<and> upstream up L acks e d \<and> lan_ok up L acks e fresh s' \<and> ln_now s' < deadline"
proof (induction s rule: wf_induct_rule [OF wf_measures [of "[\<lambda>s. deadline - ln_now s, \<lambda>s. length (un_sent (ln_gateway s)) - ln_seen s]"]])
  case (1 s)
  let ?U = "lan_socket h c L turns"
  have early: "clock_of ?U s < deadline" using 1(3) by (simp add: due_def lan_socket_def)
  note eq = receive_until.simps [of ?U deadline f s]
  show ?case
  proof (cases rule: receive_step [where need = need and turns = turns and h = h and c = c and L = L, OF quiet pos near 1(2,3), case_names silence datagram])
    case (silence s')
    have "deadline - ln_now s' < deadline - ln_now s" using silence(4) early by (simp add: lan_socket_def)
    then have "(s', s) \<in> measures [\<lambda>s. deadline - ln_now s, \<lambda>s. length (un_sent (ln_gateway s)) - ln_seen s]" by simp
    from 1(1) [OF this silence(2,3)] show ?thesis using early silence(1) eq by simp
  next
    case (datagram d t)
    let ?t = "t\<lparr>ln_seen := ln_seen t + 1\<rparr>"
    have "length d \<le> 1024" using datagram(2) by (rule upstream_datagram) (unfold datagram_is_def, elim conjE)
    then have cut: "take 1024 d = d" by simp
    obtain s' where s': "f d () ?t = (Inr (res d), s')" "calm up L acks e fresh ?t s'" using f datagram(2,3) by blast
    note kept = calm_keeps [where need = need, OF s'(2) same]
    show ?thesis
    proof (cases "res d")
      case (Some r)
      then have "receive_until ?U deadline f s = Some (Inr (Some r), s')" using early datagram(1) cut s'(1) eq by simp
      moreover have "ln_now s' < deadline" using s'(2) datagram(4) by (simp add: calm_def)
      ultimately show ?thesis using kept(1) datagram(2,3) Some by blast
    next
      case None
      then have due: "due P need deadline s'" using datagram(2,5) res kept(2) by blast
      have "deadline - ln_now t < deadline - ln_now s \<or> t = s \<and> lan_waiting s"
        using datagram(6) early by (auto simp: lan_socket_def)
      moreover have "ln_now s' = ln_now t" "ln_seen s' = ln_seen t + 1" "un_sent (ln_gateway s') = un_sent (ln_gateway t)"
        using s'(2) by (simp_all add: calm_def)
      ultimately have "(s', s) \<in> measures [\<lambda>s. deadline - ln_now s, \<lambda>s. length (un_sent (ln_gateway s)) - ln_seen s]"
        by (auto simp: lan_waiting_def)
      from 1(1) [OF this kept(1) [OF datagram(3)] due] show ?thesis using early datagram(1) cut s'(1) eq None by simp
    qed
  qed
qed

subsection \<open>The waits of the test\<close>

lemma send_to_lan:
  "send_to (lan_socket h c L turns) d addr s =
     (True, s\<lparr>ln_gateway := snd (udp_turn L (UdpDatagram (of_nat (ln_now s * 1000)) d) (ln_gateway s))\<rparr>)"
  by (simp add: lan_socket_def)

text \<open>Acknowledgements disturb nothing: the gateway counts them at most.\<close>

lemma acked_calm:
  assumes "i = SRV_PUSH_ACK \<or> i = SRV_PULL_ACK"
  shows "\<exists>s'. send_ack (lan_socket h c L turns) i d addr r s = (Inr r, s') \<and> calm up L acks e fresh s s'"
proof -
  let ?d = "[SRV_VERSION, d ! 1, d ! 2, i]" and ?g = "ln_gateway s"
  obtain x where x: "parse_datagram ?d = Inr x" "x = PushAck (from_be16 (d ! 1) (d ! 2)) \<or> x = PullAck (from_be16 (d ! 1) (d ! 2))"
    using assms by (auto simp: parse_datagram_def Udp_Protocol.PROTOCOL_VERSION_def packet_ids srv_ids)
  have "fst (on_datagram L us ms cap ?d fw) = NoOutcome \<and> fw_eui (snd (on_datagram L us ms cap ?d fw)) = fw_eui fw
      \<and> fw_duty (snd (on_datagram L us ms cap ?d fw)) = fw_duty fw" for us ms cap fw
    using x by (auto simp: on_datagram_def)
  then show ?thesis
    by (simp add: send_ack_def send_to_lan udp_datagram_def calm_def gw_ok_def case_prod_beta Let_def)
qed

lemmas acks_calm = acked_calm [OF disjI1 [OF refl]] acked_calm [OF disjI2 [OF refl]]

lemma srv_distinct:
  "SRV_PUSH_DATA \<noteq> SRV_PULL_DATA" "SRV_PULL_DATA \<noteq> SRV_PUSH_DATA" "SRV_TX_ACK \<noteq> SRV_PULL_DATA"
  "SRV_TX_ACK \<noteq> SRV_PUSH_DATA" "SRV_PULL_DATA \<noteq> SRV_TX_ACK" "SRV_PUSH_DATA \<noteq> SRV_TX_ACK"
  by (simp_all add: srv_ids)

text \<open>The results of the steps, by the datagram they are given.\<close>

definition pull_result :: "bytes \<Rightarrow> (bytes \<times> unit) option" where
  "pull_result d = (if d ! 3 = SRV_PULL_DATA then Some (take 8 (drop 4 d), ()) else None)"

definition stat_result :: "bytes \<Rightarrow> rtext option" where
  "stat_result d = (if d ! 3 = SRV_PUSH_DATA \<and> str_contains (utf8_lossy (drop 12 d)) (lit ''\"stat\"'')
     then Some (utf8_lossy (drop 12 d)) else None)"

definition ack_result :: "u16 \<Rightarrow> bytes \<Rightarrow> rtext option" where
  "ack_result token d = (if d ! 3 = SRV_TX_ACK \<and> from_be16 (d ! 1) (d ! 2) = token
     then Some (utf8_lossy (drop 12 d)) else None)"

lemma calm_refl: "calm up L acks e fresh s s"
  by (simp add: calm_def)

lemma steps_calm:
  assumes d: "upstream up L acks e d" and s: "lan_ok up L acks e fresh s"
  shows "\<exists>s'. pull_data_step (lan_socket h c L turns) d () s = (Inr (pull_result d), s') \<and> calm up L acks e fresh s s'"
    and "\<exists>s'. stat_step (lan_socket h c L turns) d () s = (Inr (stat_result d), s') \<and> calm up L acks e fresh s s'"
    and "\<exists>s'. tx_ack_step (lan_socket h c L turns) token d () s = (Inr (ack_result token d), s') \<and> calm up L acks e fresh s s'"
proof -
  have e: "length e = 8" using s by (simp add: lan_ok_def gw_ok_def)
  obtain i t rest where i: "datagram_is e i t rest d" "i = SRV_PULL_DATA \<or> i = SRV_PUSH_DATA \<or> i = SRV_TX_ACK"
    using d by (rule upstream_datagram)
  note f = fields_of [OF i(1) e]
  have nd: "\<not> length d < 12" using f(2) by simp
  consider "i = SRV_PULL_DATA" | "i = SRV_PUSH_DATA" | "i = SRV_TX_ACK" using i(2) by blast
  then have "(\<exists>s'. pull_data_step (lan_socket h c L turns) d () s = (Inr (pull_result d), s') \<and> calm up L acks e fresh s s')
    \<and> (\<exists>s'. stat_step (lan_socket h c L turns) d () s = (Inr (stat_result d), s') \<and> calm up L acks e fresh s s')
    \<and> (\<exists>s'. tx_ack_step (lan_socket h c L turns) token d () s = (Inr (ack_result token d), s') \<and> calm up L acks e fresh s s')"
    by cases (use f nd in
      \<open>simp_all add: pull_data_step_def stat_step_def tx_ack_step_def pull_result_def stat_result_def ack_result_def
        acks_calm calm_refl srv_distinct Let_def\<close>)
  then show "\<exists>s'. pull_data_step (lan_socket h c L turns) d () s = (Inr (pull_result d), s') \<and> calm up L acks e fresh s s'"
    and "\<exists>s'. stat_step (lan_socket h c L turns) d () s = (Inr (stat_result d), s') \<and> calm up L acks e fresh s s'"
    and "\<exists>s'. tx_ack_step (lan_socket h c L turns) token d () s = (Inr (ack_result token d), s') \<and> calm up L acks e fresh s s'"
    by blast+
qed

lemma stat_text:
  "utf8_lossy (concat (stat_pieces st)) = concat (stat_pieces st)" "str_contains (concat (stat_pieces st)) (lit ''\"stat\"'')"
proof -
  have "list_all (\<lambda>b. b < 0x80) (concat (stat_pieces st))" by (simp add: stat_pieces_def digits_ascii)
  then show "utf8_lossy (concat (stat_pieces st)) = concat (stat_pieces st)" by (rule utf8_lossy_ascii)
qed (simp add: stat_pieces_def str_contains_def)

text \<open>An uplink contains the key the test looks for as well, as the CRC status of its packet.\<close>

lemma uplink_taken_for_report: "str_contains (concat (rxpk_pieces L m payload)) (lit ''\"stat\"'')"
proof -
  obtain xs ys where xs: "concat (rxpk_pieces L m payload) = xs @ lit '',\"stat\":1,\"modu\":\"LORA\",\"datr\":\"SF'' @ ys"
    unfolding rxpk_pieces_def concat.simps append_assoc [symmetric]
    by (metis append_assoc)
  have "find_str (lit ''\"stat\"'') (lit '',\"stat\":1,\"modu\":\"LORA\",\"datr\":\"SF'' @ ys) \<noteq> None" by simp
  from find_str_later [OF this] show ?thesis unfolding str_contains_def xs .
qed

lemma pull_need_same:
  "0 < pull_need g" "\<forall>g g'. un_pull g' = un_pull g \<longrightarrow> un_stat g' = un_stat g \<longrightarrow> pull_need g' = pull_need g"
  by (simp_all add: pull_need_def)

lemma stat_need_same:
  "0 < stat_need g" "\<forall>g g'. un_pull g' = un_pull g \<longrightarrow> un_stat g' = un_stat g \<longrightarrow> stat_need g' = stat_need g"
  by (simp_all add: stat_need_def)

definition never :: "nat \<Rightarrow> 'w gateway_net \<Rightarrow> nat" where
  "never deadline g = deadline + 1"

lemma never_same:
  "0 < never D g" "\<forall>g g'. un_pull g' = un_pull g \<longrightarrow> un_stat g' = un_stat g \<longrightarrow> never D g' = never D g"
  by (simp_all add: never_def)

lemma wait_pull_ok:
  assumes quiet: "\<And>n. list_all (quiet_step up) (turns n)" and s: "lan_ok up L acks e fresh s"
  shows "\<exists>s'. wait_pull_data (lan_socket h c L turns) 120000 s = Some (Inr (e, ()), s') \<and> lan_ok up L acks e fresh s'
    \<and> ln_now s' < ln_now s + 120000"
proof -
  let ?U = "lan_socket h c L turns" and ?D = "ln_now s + 120000"
  have e: "length e = 8" using s by (simp add: lan_ok_def gw_ok_def)
  have near: "\<forall>s. lan_ok up L acks e fresh s \<longrightarrow> ln_now s + 1000 * pull_need (ln_gateway s) < ?D
      \<longrightarrow> nearing (is_keepalive e) pull_need (ln_gateway s) (ln_gateway (next_second h c L turns s))"
    using second_ok [where turns = turns and h = h and c = c and L = L, OF _ quiet] unfolding lan_ok_def by blast
  note same = pull_need_same
  have due: "due (is_keepalive e) pull_need ?D s" by (simp add: due_def pull_need_def less_imp_diff_less)
  have res: "\<forall>d. upstream up L acks e d \<longrightarrow> is_keepalive e d \<longrightarrow> pull_result d \<noteq> None"
    using fields_of(4) [OF _ e] by (auto simp: is_keepalive_def pull_result_def)
  have step: "\<forall>d s. upstream up L acks e d \<longrightarrow> lan_ok up L acks e fresh s
      \<longrightarrow> (\<exists>s'. pull_data_step ?U d () s = (Inr (pull_result d), s') \<and> calm up L acks e fresh s s')"
    using steps_calm(1) by blast
  obtain d r s' where w: "receive_until ?U ?D (pull_data_step ?U) s = Some (Inr (Some r), s')" "pull_result d = Some r"
    "upstream up L acks e d" "lan_ok up L acks e fresh s'" "ln_now s' < ?D"
    using receive_finds [where turns = turns and L = L and need = "pull_need" and f = "pull_data_step ?U" and deadline = ?D and h = h and c = c,
        OF quiet same(1) near same(2) step res s due] by blast
  obtain i t rest where "datagram_is e i t rest d" using w(3) by (rule upstream_datagram)
  then have "r = (e, ())" using w(2) fields_of(6) [OF _ e] by (auto simp: pull_result_def split: if_splits)
  then show ?thesis using w(1,4,5) by (simp add: wait_pull_data_def or_bail_def) (simp add: lan_socket_def)
qed

lemma wait_stat_ok:
  assumes quiet: "\<And>n. list_all (quiet_step up) (turns n)" and s: "lan_ok up L acks e fresh s"
  shows "\<exists>d s'. wait_stat (lan_socket h c L turns) 90000 s = Some (Inr (utf8_lossy (drop 12 d)), s')
    \<and> (is_report e d \<or> up \<and> is_uplink L e d) \<and> lan_ok up L acks e fresh s' \<and> ln_now s' < ln_now s + 90000"
proof -
  let ?U = "lan_socket h c L turns" and ?D = "ln_now s + 90000"
  have e: "length e = 8" using s by (simp add: lan_ok_def gw_ok_def)
  have near: "\<forall>s. lan_ok up L acks e fresh s \<longrightarrow> ln_now s + 1000 * stat_need (ln_gateway s) < ?D
      \<longrightarrow> nearing (is_report e) stat_need (ln_gateway s) (ln_gateway (next_second h c L turns s))"
    using second_ok [where turns = turns and h = h and c = c and L = L, OF _ quiet] unfolding lan_ok_def by blast
  note same = stat_need_same
  have due: "due (is_report e) stat_need ?D s" by (simp add: due_def stat_need_def less_imp_diff_less)
  have res: "\<forall>d. upstream up L acks e d \<longrightarrow> is_report e d \<longrightarrow> stat_result d \<noteq> None"
    using fields_of(4,7) [OF _ e] stat_text by (auto simp: is_report_def stat_result_def)
  have step: "\<forall>d s. upstream up L acks e d \<longrightarrow> lan_ok up L acks e fresh s
      \<longrightarrow> (\<exists>s'. stat_step ?U d () s = (Inr (stat_result d), s') \<and> calm up L acks e fresh s s')"
    using steps_calm(2) by blast
  obtain d r s' where w: "receive_until ?U ?D (stat_step ?U) s = Some (Inr (Some r), s')" "stat_result d = Some r"
    "upstream up L acks e d" "lan_ok up L acks e fresh s'" "ln_now s' < ?D"
    using receive_finds [where turns = turns and L = L and need = "stat_need" and f = "stat_step ?U" and deadline = ?D and h = h and c = c,
        OF quiet same(1) near same(2) step res s due] by blast
  have "d ! 3 = SRV_PUSH_DATA" using w(2) by (simp add: stat_result_def split: if_splits)
  then have "is_report e d \<or> up \<and> is_uplink L e d"
    using w(3) fields_of(4) [OF _ e] srv_distinct unfolding upstream_def is_keepalive_def is_ack_def by metis
  moreover have "r = utf8_lossy (drop 12 d)" using w(2) by (simp add: stat_result_def split: if_splits)
  moreover have "wait_stat ?U 90000 s = Some (Inr r, s')"
    using w(1) by (simp add: wait_stat_def or_bail_def) (simp add: lan_socket_def)
  ultimately show ?thesis using w(4,5) by blast
qed

text \<open>The acknowledgement of a token waits to be received, and is the only one of that token.\<close>

lemma wait_tx_ack_ok:
  assumes quiet: "\<And>n. list_all (quiet_step up) (turns n)" and s: "lan_ok up L acks e fresh s"
    and sent: "waiting_for (is_ack {(token, rest)} e) s" and one: "\<And>r. (token, r) \<in> acks \<Longrightarrow> r = rest"
  shows "\<exists>s'. wait_tx_ack (lan_socket h c L turns) token 10000 s = Some (Inr (utf8_lossy rest), s')
    \<and> lan_ok up L acks e fresh s' \<and> ln_now s' < ln_now s + 10000"
proof -
  let ?U = "lan_socket h c L turns" and ?D = "ln_now s + 10000" and ?P = "is_ack {(token, rest)} e"
  have e: "length e = 8" using s by (simp add: lan_ok_def gw_ok_def)
  have near: "\<forall>s. lan_ok up L acks e fresh s \<longrightarrow> ln_now s + 1000 * never ?D (ln_gateway s) < ?D
      \<longrightarrow> nearing ?P (never ?D) (ln_gateway s) (ln_gateway (next_second h c L turns s))" by (simp add: never_def)
  note same = never_same [of ?D]
  have due: "due ?P (never ?D) ?D s" using sent by (simp add: due_def)
  have res: "\<forall>d. upstream up L acks e d \<longrightarrow> ?P d \<longrightarrow> ack_result token d \<noteq> None"
    using fields_of(4,5) [OF _ e] by (auto simp: is_ack_def ack_result_def)
  have step: "\<forall>d s. upstream up L acks e d \<longrightarrow> lan_ok up L acks e fresh s
      \<longrightarrow> (\<exists>s'. tx_ack_step ?U token d () s = (Inr (ack_result token d), s') \<and> calm up L acks e fresh s s')"
    using steps_calm(3) by blast
  obtain d r s' where w: "receive_until ?U ?D (tx_ack_step ?U token) s = Some (Inr (Some r), s')" "ack_result token d = Some r"
    "upstream up L acks e d" "lan_ok up L acks e fresh s'" "ln_now s' < ?D"
    using receive_finds [where turns = turns and L = L and need = "never ?D" and f = "tx_ack_step ?U token" and deadline = ?D and h = h and c = c,
        OF quiet same(1) near same(2) step res s due] by blast
  have d: "d ! 3 = SRV_TX_ACK" "from_be16 (d ! 1) (d ! 2) = token" "r = utf8_lossy (drop 12 d)"
    using w(2) by (simp_all add: ack_result_def split: if_splits)
  then have "is_ack acks e d"
    using w(3) fields_of(4) [OF _ e] srv_distinct unfolding upstream_def is_keepalive_def is_report_def is_uplink_def by metis
  then have "drop 12 d = rest" using d(2) fields_of(5,7) [OF _ e] one by (auto simp: is_ack_def)
  moreover have "wait_tx_ack ?U token 10000 s = Some (Inr r, s')"
    using w(1) by (simp add: wait_tx_ack_def or_bail_def) (simp add: lan_socket_def)
  ultimately show ?thesis using w(4,5) d(3) by blast
qed

subsection \<open>The two downlinks\<close>

text \<open>What the JSON and base64 libraries are documented to read from the two requests.\<close>

definition requested :: "bool \<Rightarrow> u32 option \<Rightarrow> 'fl \<Rightarrow> rtext \<Rightarrow> 'fl txpk" where
  "requested immediate t f rate =
     \<lparr>imme = immediate, txpk_tmst = t, freq = f, powe = Some 14, modu = lit ''LORA'', datr = rate,
      codr = Some (lit ''4/5''), ipol = True, prea = None, txpk_data = lit ''AQI=''\<rparr>"

definition reads_downlinks :: "'fl gw_lib \<Rightarrow> bool" where
  "reads_downlinks L \<longleftrightarrow> b64_decode L 256 (lit ''AQI='') = Some [1, 2]
     \<and> (\<exists>f. to_hz L f = 869525000 \<and> txpk_from_slice L immediate_json = Some (requested True None f (lit ''SF9BW125'')))
     \<and> (\<exists>f. to_hz L f = 868100000 \<and> txpk_from_slice L stale_json = Some (requested False (Some 1000) f (lit ''SF7BW125'')))"

lemma pull_resp_read: "parse_datagram (pull_resp token json) = Inr (PullResp token json)"
  unfolding parse_datagram_iff
  by (simp add: pull_resp_def to_be16_def Udp_Protocol.PROTOCOL_VERSION_def packet_ids srv_ids)

definition requested_packet :: "bool \<Rightarrow> u32 option \<Rightarrow> u32 \<Rightarrow> u8 \<Rightarrow> tx_packet" where
  "requested_packet immediate t f sf =
     \<lparr>tx_immediate = immediate, tx_tmst = t, tx_freq_hz = f, tx_power = 14, tx_spreading_factor = sf,
      tx_bandwidth_khz = 125, tx_coding_rate = 5, tx_iq_inverted = True, tx_preamble = 8, tx_payload = [1, 2]\<rparr>"

lemma requests_read:
  assumes "reads_downlinks L"
  shows "parse_txpk L immediate_json = Inr (requested_packet True None 869525000 9)"
    "parse_txpk L stale_json = Inr (requested_packet False (Some 1000) 868100000 7)"
  using assms
  by (auto simp: reads_downlinks_def requested_def requested_packet_def parse_txpk_def parse_datr_def strip_prefix_def
      parse_uint_def strip_plus_def is_digit_def coding_rate_of_def)

lemma fresh_band_grants:
  assumes "863000000 \<le> f" "f \<le> 870000000" "a \<le> band_allowance (eu_band_key f)"
  shows "fst (claim_band f now a [])"
proof -
  have "window (for_frequency f) = replicate 60 0"
    by (rule nth_equalityI) (simp_all add: nth_window for_frequency_def BUCKET_COUNT_def)
  then have "is_ok (fst (try_claim (for_frequency f) now a))"
    using granted_iff [OF limiter_ok_for_frequency, of f "band_allowance (eu_band_key f)" a now] band_of_downlink [OF assms(1,2)] assms(3)
    by (simp add: sum_list_replicate word_le_nat_alt)
  then show ?thesis by (simp add: claim_band_def lm_insert_def MAX_BANDS_def case_prod_beta Let_def)
qed

lemma requested_airtime: "downlink_airtime (requested_packet True None 869525000 9) \<le> band_allowance (eu_band_key 869525000)"
proof -
  have "eu_band_key 869525000 = 4" by (simp add: eu_band_key_def in_band_def)
  then show ?thesis
    by (simp add: downlink_airtime_def requested_packet_def time_on_air_ms_ext_def clamp_sf_def cr_index_def
        ldro_enabled_def bandwidth_hz_def div_ceil_def Let_def push_bit_eq_mult band_allowance_def)
qed

lemma lan_mono:
  assumes "lan_ok up L acks e fresh s" "acks \<subseteq> acks'"
  shows "lan_ok up L acks' e False s"
proof -
  have "upstream up L acks e d \<Longrightarrow> upstream up L acks' e d" for d using assms(2) unfolding upstream_def is_ack_def by blast
  then show ?thesis using assms(1) by (auto simp: lan_ok_def gw_ok_def list_all_iff)
qed

text \<open>An acknowledgement that was just sent is waiting.\<close>

lemma ack_sent:
  assumes "lan_ok up L acks e fresh s" "un_sent g' = un_sent (ln_gateway s) @ [build_tx_ack ACK_BUF token e x]"
    "fw_eui (un_fw g') = e" "un_pull g' = un_pull (ln_gateway s)" "un_stat g' = un_stat (ln_gateway s)"
  shows "lan_ok up L (insert (token, concat (tx_ack_pieces x)) acks) e False (s\<lparr>ln_gateway := g'\<rparr>)
    \<and> waiting_for (is_ack {(token, concat (tx_ack_pieces x))} e) (s\<lparr>ln_gateway := g'\<rparr>)"
proof -
  let ?acks = "insert (token, concat (tx_ack_pieces x)) acks"
  have e: "length e = 8" using assms(1) by (simp add: lan_ok_def gw_ok_def)
  have "lan_ok up L ?acks e False s" using lan_mono [OF assms(1)] by blast
  then have "lan_ok up L ?acks e False (s\<lparr>ln_gateway := g'\<rparr>)"
    using upstream_built(4) [OF e, of token x ?acks up L] assms(2-5) by (simp add: lan_ok_def gw_ok_def)
  moreover have "is_ack {(token, concat (tx_ack_pieces x))} e (build_tx_ack ACK_BUF token e x)"
    using ack_is [OF e] by (auto simp: is_ack_def)
  ultimately show ?thesis using assms(1,2) by (simp add: waiting_for_def lan_ok_def)
qed

lemma immediate_sent:
  assumes s: "lan_ok up L acks e True s" and L: "reads_downlinks L"
  shows "\<exists>s'. send_to (lan_socket h c L turns) (pull_resp token immediate_json) () s = (True, s')
    \<and> lan_ok up L (insert (token, concat (tx_ack_pieces AckNone)) acks) e False s'
    \<and> waiting_for (is_ack {(token, concat (tx_ack_pieces AckNone))} e) s' \<and> ln_now s' = ln_now s"
proof -
  let ?g = "ln_gateway s" and ?p = "requested_packet True None 869525000 9"
  define now :: u64 where "now = of_nat (ln_now s * 1000)"
  have cut: "take 1024 (pull_resp token immediate_json) = pull_resp token immediate_json"
    by (simp add: pull_resp_def immediate_json_def)
  have g: "gt_downlinks ?g = []" "fw_duty (un_fw ?g) = []" "fw_eui (un_fw ?g) = e" using s by (simp_all add: lan_ok_def gw_ok_def)
  obtain duty where d: "claim_band 869525000 (now div 1000) (downlink_airtime ?p) [] = (True, duty)"
    using fresh_band_grants [OF _ _ requested_airtime, of "now div 1000"] by (cases "claim_band 869525000 (now div 1000) (downlink_airtime ?p) []") auto
  have p: "tx_freq_hz ?p = 869525000" "tx_immediate ?p" "tx_tmst ?p = None" by (simp_all add: requested_packet_def)
  obtain job fw where a: "accept (ucast now) (now div 1000) ?p
      ((un_fw ?g)\<lparr>fw_stats := (fw_stats (un_fw ?g))\<lparr>dwnb := dwnb (fw_stats (un_fw ?g)) + 1\<rparr>\<rparr>) = (Inr job, fw)" "fw_eui fw = e"
    using d g p by (simp add: accept_def classify_def)
  have "on_datagram L (ucast now) (now div 1000) ACK_BUF (pull_resp token immediate_json) (un_fw ?g) = (Accepted job token, fw)"
    using a(1) by (simp add: on_datagram_def pull_resp_read requests_read(1) [OF L] Let_def)
  then have "un_sent (snd (udp_turn L (UdpDatagram now (pull_resp token immediate_json)) ?g)) = un_sent ?g @ [build_tx_ack ACK_BUF token e AckNone]
      \<and> fw_eui (un_fw (snd (udp_turn L (UdpDatagram now (pull_resp token immediate_json)) ?g))) = e
      \<and> un_pull (snd (udp_turn L (UdpDatagram now (pull_resp token immediate_json)) ?g)) = un_pull ?g
      \<and> un_stat (snd (udp_turn L (UdpDatagram now (pull_resp token immediate_json)) ?g)) = un_stat ?g"
    using g(1) a(2) by (simp add: cut udp_datagram_def tx_ack_def try_send_def GW_DOWNLINK_CHANNEL_SIZE_def Let_def)
  from ack_sent [OF s] this show ?thesis by (simp add: send_to_lan now_def)
qed

lemma stale_refused:
  assumes s: "lan_ok up L acks e fresh s" and L: "reads_downlinks L" and t: "ln_now s < 2147000"
  shows "\<exists>s'. send_to (lan_socket h c L turns) (pull_resp token stale_json) () s = (True, s')
    \<and> lan_ok up L (insert (token, concat (tx_ack_pieces TooLate)) acks) e False s'
    \<and> waiting_for (is_ack {(token, concat (tx_ack_pieces TooLate))} e) s' \<and> ln_now s' = ln_now s"
proof -
  let ?g = "ln_gateway s" and ?p = "requested_packet False (Some 1000) 868100000 7"
  define now :: u64 where "now = of_nat (ln_now s * 1000)"
  have cut: "take 1024 (pull_resp token stale_json) = pull_resp token stale_json"
    by (simp add: pull_resp_def stale_json_def)
  have e: "fw_eui (un_fw ?g) = e" using s by (simp add: lan_ok_def gw_ok_def)
  have "ucast now = tmst_at (int (ln_now s * 1000))"
    using t by (simp add: now_def tmst_at_def unsigned_of_nat take_bit_nat_eq_self del: of_nat_mult)
  then have "tmst_delta_us (ucast now) 1000 = 1000 - int (ln_now s * 1000)"
    using tmst_delta_true [of 1000 "int (ln_now s * 1000)"] t by (simp add: tmst_at_def)
  then have late: "classify (ucast now) False (Some 1000) = ClassTooLate" by (simp add: classify_def SETUP_LEAD_US_def)
  have "on_datagram L (ucast now) (now div 1000) ACK_BUF (pull_resp token stale_json) (un_fw ?g)
      = (Reply (build_tx_ack ACK_BUF token e TooLate), (un_fw ?g)\<lparr>fw_stats := (fw_stats (un_fw ?g))\<lparr>dwnb := dwnb (fw_stats (un_fw ?g)) + 1\<rparr>\<rparr>)"
    using late e by (simp add: on_datagram_def pull_resp_read requests_read(2) [OF L] Let_def accept_def)
      (simp add: requested_packet_def)
  then have "un_sent (snd (udp_turn L (UdpDatagram now (pull_resp token stale_json)) ?g)) = un_sent ?g @ [build_tx_ack ACK_BUF token e TooLate]
      \<and> fw_eui (un_fw (snd (udp_turn L (UdpDatagram now (pull_resp token stale_json)) ?g))) = e
      \<and> un_pull (snd (udp_turn L (UdpDatagram now (pull_resp token stale_json)) ?g)) = un_pull ?g
      \<and> un_stat (snd (udp_turn L (UdpDatagram now (pull_resp token stale_json)) ?g)) = un_stat ?g"
    using e by (simp add: cut udp_datagram_def Let_def)
  from ack_sent [OF s] this show ?thesis by (simp add: send_to_lan now_def)
qed

subsection \<open>The test passes\<close>

lemma boot_ok: "gw_ok up L {} (gateway_eui mac) True (net_boot h c mac w)"
  by (simp add: gw_ok_def net_boot_def udp_start_def gateway.defs gateway_net.defs new_forwarder_def gateway_eui_def
      PULL_DATA_INTERVAL_SECS_def)

lemma lan_at_ok:
  assumes quiet: "\<And>n. list_all (quiet_step up) (turns n)"
  shows "lan_ok up L {} (gateway_eui mac) True (lan_at h c L turns k mac w) \<and> ln_now (lan_at h c L turns k mac w) = 1000 * k"
proof -
  let ?s = "\<lambda>k. (next_second (recording h) c L turns ^^ k) \<lparr>ln_gateway = net_boot h c mac w, ln_seen = 0, ln_now = 0\<rparr>"
  have "gw_ok up L {} (gateway_eui mac) True (ln_gateway (?s k)) \<and> ln_now (?s k) = 1000 * k"
    by (induction k) (simp_all add: boot_ok second_ok [where turns = turns, OF _ quiet])
  then show ?thesis by (simp add: lan_at_def lan_ok_def Let_def)
qed

lemma ack_texts:
  "utf8_lossy (concat (tx_ack_pieces AckNone)) = lit ''{\"txpk_ack\":{\"error\":\"NONE\"}}''"
  "utf8_lossy (concat (tx_ack_pieces TooLate)) = lit ''{\"txpk_ack\":{\"error\":\"TOO_LATE\"}}''"
  by (simp_all add: tx_ack_pieces_def)

lemma ack_words:
  "str_contains (lit ''{\"txpk_ack\":{\"error\":\"NONE\"}}'') (lit ''NONE'')"
  "str_contains (lit ''{\"txpk_ack\":{\"error\":\"TOO_LATE\"}}'') (lit ''TOO_LATE'')"
  by (simp_all add: str_contains_def)

text \<open>
  C39. The gateway passes its test, run without its provisioning half (\<open>skip_provision\<close>). A gateway
  that booted up to half an hour ago, with any radio, turns of its radio task and uplinks in any number
  and order, is on a network where datagrams arrive in order. Then every wait of the test ends in
  time and it passes: it finds a keepalive with the identifier made of the board's address, takes a
  report, accepts the immediate downlink and refuses the stale one as too late. What it takes for the report
  is one, unless the gateway forwards uplinks: the test takes an uplink for a report as well. Of the
  JSON and base64 libraries it is assumed that they read the two requests.
\<close>

theorem gateway_passes_its_test:
  assumes "reads_downlinks L" and "\<forall>n. list_all (quiet_step True) (turns n)" and "k \<le> 1800" and "ga_skip_provision args"
  shows "\<exists>d s'. gateway_udp_test W D H args True (lan_socket (recording h) c L turns) (lan_at h c L turns k mac w)
      = Some (Inr (gateway_eui mac, utf8_lossy (drop 12 d), lit ''{\"txpk_ack\":{\"error\":\"NONE\"}}'',
          lit ''{\"txpk_ack\":{\"error\":\"TOO_LATE\"}}''), s')
    \<and> (is_report (gateway_eui mac) d
       \<or> is_uplink L (gateway_eui mac) d \<and> (\<exists>n. UdpTurn UplinkReady \<in> set (turns n)))"
proof -
  let ?U = "lan_socket (recording h) c L turns" and ?s = "lan_at h c L turns k mac w" and ?e = "gateway_eui mac"
  define up where "up \<longleftrightarrow> (\<exists>n. UdpTurn UplinkReady \<in> set (turns n))"
  have "quiet_step up q" if "q \<in> set (turns n)" for q n
  proof -
    have "quiet_step True q" using assms(2) that by (auto simp: list_all_iff)
    then show ?thesis using that by (cases "(True, q)" rule: quiet_step.cases) (auto simp: up_def)
  qed
  then have quiet: "list_all (quiet_step up) (turns n)" for n by (simp add: list_all_iff)
  have ok: "lan_ok up L {} ?e True ?s" and now: "ln_now ?s \<le> 1800000"
    using lan_at_ok [where turns = turns and k = k and L = L and mac = mac and h = h and c = c and w = w, OF quiet] assms(3) by simp_all
  obtain s1 where s1: "wait_pull_data ?U 120000 ?s = Some (Inr (?e, ()), s1)" "lan_ok up L {} ?e True s1" "ln_now s1 < ln_now ?s + 120000"
    using wait_pull_ok [where turns = turns, OF quiet ok] by blast
  obtain d s2 where s2: "wait_stat ?U 90000 s1 = Some (Inr (utf8_lossy (drop 12 d)), s2)" "is_report ?e d \<or> up \<and> is_uplink L ?e d"
    "lan_ok up L {} ?e True s2" "ln_now s2 < ln_now s1 + 90000"
    using wait_stat_ok [where turns = turns, OF quiet s1(2)] by blast
  let ?none = "concat (tx_ack_pieces AckNone)" and ?late = "concat (tx_ack_pieces TooLate)"
  obtain s3 where s3: "send_to ?U (pull_resp 0x1234 immediate_json) () s2 = (True, s3)" "lan_ok up L {(0x1234, ?none)} ?e False s3"
    "waiting_for (is_ack {(0x1234, ?none)} ?e) s3" "ln_now s3 = ln_now s2"
    using immediate_sent [OF s2(3) assms(1)] by blast
  obtain s4 where s4: "wait_tx_ack ?U 0x1234 10000 s3 = Some (Inr (utf8_lossy ?none), s4)" "lan_ok up L {(0x1234, ?none)} ?e False s4"
    "ln_now s4 < ln_now s3 + 10000"
    using wait_tx_ack_ok [where turns = turns, OF quiet s3(2,3)] by blast
  have "ln_now s4 < 2147000" using now s1(3) s2(4) s3(4) s4(3) by simp
  from stale_refused [OF s4(2) assms(1) this] obtain s5 where s5: "send_to ?U (pull_resp 0x2345 stale_json) () s4 = (True, s5)"
    "lan_ok up L {(0x2345, ?late), (0x1234, ?none)} ?e False s5" "waiting_for (is_ack {(0x2345, ?late)} ?e) s5" by blast
  obtain s6 where s6: "wait_tx_ack ?U 0x2345 10000 s5 = Some (Inr (utf8_lossy ?late), s6)"
    using wait_tx_ack_ok [where turns = turns, OF quiet s5(2,3)] by auto
  have "?e ! 3 = 0xFF \<and> ?e ! 4 = 0xFE" by (simp add: gateway_eui_def)
  then have "gateway_checks ?U ?s = Some (Inr (?e, utf8_lossy (drop 12 d), utf8_lossy ?none, utf8_lossy ?late), s6)"
    unfolding gateway_checks_def followed_def downlink_ack_def
    by (simp only: s1(1) s2(1) s3(1) s4(1) s5(1) s6 ack_texts ack_words ensured_def option.case sum.case prod.case Let_def if_True
        HOL.simp_thms)
  moreover have "gateway_udp_test W D H args True ?U ?s = gateway_checks ?U ?s"
    using assms(4) by (simp add: gateway_udp_test_def followed_def ensured_def)
  ultimately show ?thesis using s2(2) unfolding ack_texts up_def [symmetric]
    by (intro exI [of _ d] exI [of _ s6] conjI) (simp_all add: conj_commute)
qed

text \<open>A library that reads the two requests, and a network whose gateway hears a device every second.\<close>

definition request_lib :: "u32 gw_lib" where
  "request_lib = \<lparr>b64_encode = (\<lambda>bs. bs), b64_decode = (\<lambda>n s. if s = lit ''AQI='' then Some [1, 2] else None),
     txpk_from_slice = (\<lambda>j. if j = immediate_json then Some (requested True None 869525000 (lit ''SF9BW125''))
       else Some (requested False (Some 1000) 868100000 (lit ''SF7BW125''))), to_hz = (\<lambda>f. f)\<rparr>"

lemma request_lib_reads: "reads_downlinks request_lib"
proof -
  have "length stale_json \<noteq> length immediate_json" by (simp add: stale_json_def immediate_json_def)
  then have "stale_json \<noteq> immediate_json" by metis
  then show ?thesis by (simp add: reads_downlinks_def request_lib_def)
qed

definition skipping :: gateway_args where
  "skipping = \<lparr>ga_hub_port = lit ''auto'', ga_server_host = lit ''192.168.1.2'', ga_server_port = 1700,
     ga_wifi_ssid = [], ga_wifi_password = [], ga_skip_provision = True\<rparr>"

theorem gateway_passes_its_test_witness:
  "\<exists>d s'. gateway_udp_test cobs_wire cobs_read \<lparr>available_ports = None, open_port = (\<lambda>n. None)\<rparr> skipping True
      (lan_socket (recording (host_test_hal 255)) sample_hub request_lib (\<lambda>n. [RadioTurn RadioWakes, UdpTurn UplinkReady]))
      (lan_at (host_test_hal 255) sample_hub request_lib (\<lambda>n. [RadioTurn RadioWakes, UdpTurn UplinkReady]) 20 [0, 0, 0, 0, 0, 7] ())
    = Some (Inr ([0, 0, 0, 0xFF, 0xFE, 0, 0, 7], utf8_lossy (drop 12 d), lit ''{\"txpk_ack\":{\"error\":\"NONE\"}}'',
          lit ''{\"txpk_ack\":{\"error\":\"TOO_LATE\"}}''), s')"
proof -
  let ?turns = "\<lambda>n :: nat. [RadioTurn RadioWakes, UdpTurn UplinkReady]"
  have q: "\<forall>n. list_all (quiet_step True) (?turns n)" by simp
  have s: "ga_skip_provision skipping" by (simp add: skipping_def)
  have e: "gateway_eui [0, 0, 0, 0, 0, 7] = [0, 0, 0, 0xFF, 0xFE, 0, 0, 7]" by (simp add: gateway_eui_def)
  from gateway_passes_its_test [OF request_lib_reads q _ s, of 20 cobs_wire cobs_read "\<lparr>available_ports = None, open_port = (\<lambda>n. None)\<rparr>"
      "host_test_hal 255" sample_hub "[0, 0, 0, 0, 0, 7]" "()"]
  show ?thesis unfolding e by simp blast
qed

end
