(* ===== verification/Bridge_Tests.thy ===== *)
theory Bridge_Tests imports Hub_System Lora_Tests Hub_Ctrl Host_Client Test_Support begin

text \<open>
  The bridge-mode test (\<open>src/integration_tests/src/hub_tests.rs\<close>): a hub is provisioned and has to come
  online; then a packet of a node board has to reach the broker, and a request published at the broker
  has to reach the node and be answered. The test runs over any bench; it is proved to pass on one made
  of the hub of Hub_System, a broker and a node that hears what the hub's radio sends. Times are in
  milliseconds; text for the screen is left out.
\<close>

subsection \<open>The bench of the test\<close>

datatype notification = Incoming rtext bytes | OtherNotification

text \<open>
  What the test works with: the hub's serial client (opening it and the node's port, commands, the restart
  after provisioning), the node's client, the MQTT client and the list of USB ports.
\<close>

record 'x hub_ops =
  open_hub :: "'x \<Rightarrow> (host_error + unit) \<times> 'x"
  ask_hub :: "host_hub_command_id \<Rightarrow> bytes \<Rightarrow> 'x \<Rightarrow> (host_error + host_response) \<times> 'x"
  restart_hub :: "'x \<Rightarrow> (host_error + unit) \<times> 'x"
  open_node :: "'x \<Rightarrow> (host_error + unit) \<times> 'x"
  send_node :: "bytes \<Rightarrow> 'x \<Rightarrow> (host_error + host_response) \<times> 'x"
  hear_node :: "bytes \<Rightarrow> nat \<Rightarrow> 'x \<Rightarrow> (host_error + host_response) \<times> 'x"
  subscribe :: "rtext \<Rightarrow> 'x \<Rightarrow> bool \<times> 'x"
  publish_at :: "rtext \<Rightarrow> bytes \<Rightarrow> 'x \<Rightarrow> bool \<times> 'x"
  next_note :: "'x \<Rightarrow> notification option \<times> 'x"
  usb_list :: "port_info list option"
  time_of :: "'x \<Rightarrow> nat"
  pause :: "nat \<Rightarrow> 'x \<Rightarrow> 'x"

datatype hub_test_error =
    HostFailed host_error | ClientFailed | NotOnline | NoHubId | NoMessage rtext | StatusOffline rtext
  | NodeTxFailed host_response_id | RxWithoutPayload rtext | RxWithoutRssi rtext | WrongResult rtext
  | NoNetworkConfig host_response_id | PasswordLeaked

definition host_step :: "('x \<Rightarrow> (host_error + 'y) \<times> 'x) \<Rightarrow> 'x \<Rightarrow> ((hub_test_error + 'y) \<times> 'x) option" where
  "host_step m s = (let (r, s) = m s in Some (map_err HostFailed r, s))"

definition client_step :: "('x \<Rightarrow> bool \<times> 'x) \<Rightarrow> 'x \<Rightarrow> ((hub_test_error + unit) \<times> 'x) option" where
  "client_step m s = (let (done, s) = m s in Some (if done then Inr () else Inl ClientFailed, s))"

subsection \<open>Waiting\<close>

definition CONNECTED :: u8 where "CONNECTED = 2"

definition both_connected :: "host_hub_status \<Rightarrow> bool" where
  "both_connected status \<longleftrightarrow> hs_wifi_state status = CONNECTED \<and> hs_mqtt_state status = CONNECTED"

text \<open>The status is asked for every two seconds until it is online, for 90 seconds.\<close>

partial_function (option) online_loop :: "'x hub_ops \<Rightarrow> nat \<Rightarrow> 'x \<Rightarrow> ((hub_test_error + unit) \<times> 'x) option" where
  "online_loop B deadline s =
     (case ask_hub B HostGetHubStatus [] s of
        (Inl e, s) \<Rightarrow> Some (Inl (HostFailed e), s)
      | (Inr response, s) \<Rightarrow>
          (case (if hr_id response = RHubStatus then parse_hub_status (hr_payload response)
                 else Inr \<lparr>hs_wifi_state = 0, hs_ip = [], hs_mqtt_state = 0, hs_uplink_count = 0,
                   hs_downlink_count = 0, hs_dropped_count = 0, hs_uptime_secs = 0\<rparr>) of
             Inl e \<Rightarrow> Some (Inl (HostFailed e), s)
           | Inr status \<Rightarrow>
               if both_connected status then Some (Inr (), s)
               else if \<not> time_of B s < deadline then Some (Inl NotOnline, s)
               else online_loop B deadline (pause B 2000 s)))"

text \<open>The identifier of the hub is the end of its USB serial number.\<close>

fun hub_id_of :: "port_info list \<Rightarrow> rtext option" where
  "hub_id_of [] = None"
| "hub_id_of (p # ps) =
     (case port_type p of
        UsbPort usb \<Rightarrow>
          (case usb_serial usb of
             Some serial \<Rightarrow> (case strip_prefix (lit ''LMH-'') serial of Some i \<Rightarrow> Some i | None \<Rightarrow> hub_id_of ps)
           | None \<Rightarrow> hub_id_of ps)
      | OtherPort \<Rightarrow> hub_id_of ps)"

definition wait_online :: "'x hub_ops \<Rightarrow> 'x \<Rightarrow> ((hub_test_error + rtext) \<times> 'x) option" where
  "wait_online B s =
     followed (online_loop B (time_of B s + 90000)) (\<lambda>_ s.
       Some (case usb_list B of
          None \<Rightarrow> Inl (HostFailed (PortFailed []))
        | Some ports \<Rightarrow> ok_or (hub_id_of ports) NoHubId, s)) s"

text \<open>Notifications are taken until one carries the topic, the time is over or there are no more.\<close>

partial_function (option) message_loop :: "'x hub_ops \<Rightarrow> rtext \<Rightarrow> nat \<Rightarrow> 'x \<Rightarrow> (rtext option \<times> 'x) option" where
  "message_loop B topic deadline s =
     (case next_note B s of
        (None, s) \<Rightarrow> Some (None, s)
      | (Some note, s) \<Rightarrow>
          (case (case note of Incoming t p \<Rightarrow> if t = topic then Some p else None | OtherNotification \<Rightarrow> None) of
             Some p \<Rightarrow> Some (Some (utf8_lossy p), s)
           | None \<Rightarrow> if deadline < time_of B s then Some (None, s) else message_loop B topic deadline s))"

definition wait_for_message :: "'x hub_ops \<Rightarrow> rtext \<Rightarrow> nat \<Rightarrow> 'x \<Rightarrow> ((hub_test_error + rtext) \<times> 'x) option" where
  "wait_for_message B topic timeout_secs s =
     map_option (\<lambda>(r, s). (ok_or r (NoMessage topic), s)) (message_loop B topic (time_of B s + timeout_secs * 1000) s)"

subsection \<open>The test\<close>

definition hub_hex :: "bytes \<Rightarrow> rtext" where
  "hub_hex data = concat (map hex_byte_lower data)"

definition ping :: bytes where "ping = lit ''hub-test-ping''"
definition pong :: bytes where "pong = lit ''hub-test-pong''"

definition pong_request :: rtext where
  "pong_request = lit ''{\"payload_hex\":\"'' @ hub_hex pong @ lit ''\",\"id\":7}''"

definition hub_topic :: "rtext \<Rightarrow> rtext \<Rightarrow> rtext" where
  "hub_topic hub_id rest = lit ''wt/hub/'' @ hub_id @ rest"

text \<open>The packet of the node reaches the broker.\<close>

definition uplink_checks :: "'x hub_ops \<Rightarrow> rtext \<Rightarrow> 'x \<Rightarrow> ((hub_test_error + unit) \<times> 'x) option" where
  "uplink_checks B hub_id =
     followed (host_step (open_node B)) (\<lambda>_.
       followed (host_step (send_node B ping)) (\<lambda>response.
         followed (ensured (hr_id response = RTxComplete) (NodeTxFailed (hr_id response))) (\<lambda>_.
           followed (wait_for_message B (hub_topic hub_id (lit ''/rx'')) 30) (\<lambda>rx.
             followed (ensured (str_contains rx (lit ''\"payload_hex\":\"'' @ hub_hex ping @ lit ''\"'')) (RxWithoutPayload rx)) (\<lambda>_.
               ensured (str_contains rx (lit ''\"rssi\":'')) (RxWithoutRssi rx))))))"

text \<open>The request at the broker reaches the node and is answered.\<close>

definition downlink_checks :: "'x hub_ops \<Rightarrow> rtext \<Rightarrow> 'x \<Rightarrow> ((hub_test_error + unit) \<times> 'x) option" where
  "downlink_checks B hub_id =
     followed (client_step (publish_at B (hub_topic hub_id (lit ''/tx'')) pong_request)) (\<lambda>_.
       followed (host_step (hear_node B pong 30000)) (\<lambda>_.
         followed (wait_for_message B (hub_topic hub_id (lit ''/tx/result'')) 10) (\<lambda>outcome.
           ensured (str_contains outcome (lit ''\"result\":\"sent\"'') \<and> str_contains outcome (lit ''\"id\":7''))
             (WrongResult outcome))))"

text \<open>The configuration the hub shows does not contain the password.\<close>

definition password_check :: "'x hub_ops \<Rightarrow> rtext \<Rightarrow> 'x \<Rightarrow> ((hub_test_error + unit) \<times> 'x) option" where
  "password_check B secret =
     followed (host_step (ask_hub B HostGetNetworkConfig [])) (\<lambda>network.
       followed (ensured (hr_id network = RNetworkConfig) (NoNetworkConfig (hr_id network))) (\<lambda>_.
         ensured (secret = [] \<or> \<not> str_contains (hr_payload network) secret) PasswordLeaked))"

definition hub_checks :: "'x hub_ops \<Rightarrow> rtext \<Rightarrow> 'x \<Rightarrow> ((hub_test_error + unit) \<times> 'x) option" where
  "hub_checks B secret =
     followed (wait_online B) (\<lambda>hub_id.
       followed (client_step (subscribe B (hub_topic hub_id (lit ''/#'')))) (\<lambda>_.
         followed (wait_for_message B (hub_topic hub_id (lit ''/status'')) 10) (\<lambda>status.
           followed (ensured (str_contains status (lit ''\"online\":true'')) (StatusOffline status)) (\<lambda>_.
             followed (uplink_checks B hub_id) (\<lambda>_.
               followed (downlink_checks B hub_id) (\<lambda>_.
                 password_check B secret))))))"

record hub_args =
  ha_wifi_ssid :: rtext
  ha_wifi_password :: rtext
  ha_broker_host :: rtext
  ha_broker_port :: u16
  ha_skip_provision :: bool

text \<open>As \<open>expect_config_ack\<close> of the client, over the bench.\<close>

definition config_ack :: "'x hub_ops \<Rightarrow> host_hub_command_id \<Rightarrow> bytes \<Rightarrow> 'x \<Rightarrow> (host_error + unit) \<times> 'x" where
  "config_ack B cmd_id body s =
     (let (r, s) = ask_hub B cmd_id body s
      in (rbind r (\<lambda>r. if hr_id r \<noteq> RConfigAck then Inl (UnexpectedResponse (hr_id r))
            else case hr_payload r of
                [] \<Rightarrow> Inl (AckStatus None)
              | b # _ \<Rightarrow> if b = 0 then Inr () else Inl (AckStatus (Some b))), s))"

definition provision_hub :: "'x hub_ops \<Rightarrow> hub_args \<Rightarrow> 'x \<Rightarrow> ((hub_test_error + unit) \<times> 'x) option" where
  "provision_hub B args =
     followed (host_step (config_ack B HostSetWifiConfig (wifi_config_payload (ha_wifi_ssid args) (ha_wifi_password args)))) (\<lambda>_.
       followed (host_step (config_ack B HostSetMqttConfig
           (mqtt_config_payload (ha_broker_host args) (ha_broker_port args) []))) (\<lambda>_.
         host_step (config_ack B HostSetMode [0])))"

definition hub_test :: "'x hub_ops \<Rightarrow> hub_args \<Rightarrow> 'x \<Rightarrow> ((hub_test_error + unit) \<times> 'x) option" where
  "hub_test B args =
     followed (host_step (open_hub B)) (\<lambda>_.
       followed (if ha_skip_provision args then ensured True NotOnline
           else followed (provision_hub B args) (\<lambda>_. host_step (restart_hub B))) (\<lambda>_.
         hub_checks B (ha_wifi_password args)))"

subsection \<open>A bench around the hub\<close>

text \<open>
  What the bench is made of: the libraries of the hub, its radio with what hearing a packet does to it,
  the WiFi network in reach, and what a message of the broker does to the hub's MQTT client.
\<close>

record ('c, 'r, 'f, 't) bridge_setup =
  su_json :: json_lib
  su_lora_tx :: lora_tx
  su_broker :: "'c mqtt_lib"
  su_inform :: "rtext \<Rightarrow> bytes \<Rightarrow> 'c \<Rightarrow> 'c"
  su_wifi :: wifi_settings
  su_device :: bytes
  su_radio :: "'r lora_radio"
  su_hear :: "bytes \<Rightarrow> 'r \<Rightarrow> 'r"
  su_dns :: dns
  su_tcp :: "ipv4 \<times> u16 \<Rightarrow> 'c option"
  su_flash :: "('f, 't) flash"
  su_env :: build_env

text \<open>
  Its state: the hub, the configuration it has booted with and its control task; of the test's MQTT client the subscription, how many
  publications of the hub it was given and those it has not read; how many packets the node heard; the time since the hub has booted.
\<close>

record ('c, 'r, 'f) bridge_world =
  bw_hub :: "('c, bytes list \<times> 'r) hub_system"
  bw_config :: hub_config
  bw_ctrl :: "'f hub_ctrl"
  bw_filter :: "rtext option"
  bw_given :: nat
  bw_inbox :: "(rtext \<times> bytes) list"
  bw_heard :: nat
  bw_now :: nat

definition hub_publications :: "('c, 'r, 'f) bridge_world \<Rightarrow> publication list" where
  "hub_publications s = publishes (mt_log (hy_mqtt (bw_hub s)))"

definition under :: "rtext \<Rightarrow> rtext \<Rightarrow> bool" where
  "under f topic \<longleftrightarrow> take (length f) topic = f"

text \<open>The broker passes on what the hub published since the last time.\<close>

definition collect :: "('c, 'r, 'f) bridge_world \<Rightarrow> ('c, 'r, 'f) bridge_world" where
  "collect s =
     (case bw_filter s of
        None \<Rightarrow> s
      | Some f \<Rightarrow> s\<lparr>bw_inbox := bw_inbox s @ filter (\<lambda>(t, p). under f t)
            (map (\<lambda>(t, p, r). (t, p)) (drop (bw_given s) (hub_publications s))),
          bw_given := length (hub_publications s)\<rparr>)"

text \<open>In a second every task of the hub gets a turn; the MQTT task tries to connect when the WiFi is up.\<close>

definition turns_of_second :: "('c, 'r, 'f, 't) bridge_setup \<Rightarrow> hub_config \<Rightarrow> u64 \<Rightarrow> 'c system_event list" where
  "turns_of_second K cfg now =
     (if cfg_wifi cfg = su_wifi K then [MqttSide (Attempt (su_dns K) (su_tcp K))] else [])
     @ [MqttSide (Session Readable), TakeRequest, RadioSide (LoraCommand now), BusSide now, MqttSide (Session OutboundReady)]"

definition hub_second ::
  "('c, 'r, 'f, 't) bridge_setup \<Rightarrow> hub_config \<Rightarrow> u64 \<Rightarrow> ('c, bytes list \<times> 'r) hub_system \<Rightarrow> ('c, bytes list \<times> 'r) hub_system" where
  "hub_second K cfg now = system_run (su_json K) (su_lora_tx K) (su_broker K) cfg (su_device K)
     (logged_radio (su_radio K)) (turns_of_second K cfg now)"

definition second :: "('c, 'r, 'f, 't) bridge_setup \<Rightarrow> ('c, 'r, 'f) bridge_world \<Rightarrow> ('c, 'r, 'f) bridge_world" where
  "second K s = collect (s\<lparr>bw_hub := hub_second K (bw_config s) (of_nat (bw_now s)) (bw_hub s), bw_now := bw_now s + 1000\<rparr>)"

text \<open>Subscribing brings the last retained publication of each topic.\<close>

fun retained :: "publication list \<Rightarrow> (rtext \<times> bytes) list" where
  "retained [] = []"
| "retained ((t, p, r) # ps) =
     (if r \<and> \<not> list_ex (\<lambda>(t', p', r'). r' \<and> t' = t) ps then (t, p) # retained ps else retained ps)"

definition bench_subscribe :: "rtext \<Rightarrow> ('c, 'r, 'f) bridge_world \<Rightarrow> bool \<times> ('c, 'r, 'f) bridge_world" where
  "bench_subscribe topic s =
     (let f = butlast topic
      in (True, s\<lparr>bw_filter := Some f, bw_inbox := filter (\<lambda>(t, p). under f t) (retained (hub_publications s)),
            bw_given := length (hub_publications s)\<rparr>))"

text \<open>A publication of the test goes to the hub, if it is subscribed to the topic, and back to the test.\<close>

definition bench_publish ::
  "('c, 'r, 'f, 't) bridge_setup \<Rightarrow> rtext \<Rightarrow> bytes \<Rightarrow> ('c, 'r, 'f) bridge_world \<Rightarrow> bool \<times> ('c, 'r, 'f) bridge_world" where
  "bench_publish K topic body s =
     (let hub = bw_hub s; m = hy_mqtt hub;
          m = (if topic = ts_tx (new_topics (su_device K)) then m\<lparr>mt_client := map_option (su_inform K topic body) (mt_client m)\<rparr> else m)
      in (True, s\<lparr>bw_hub := hub\<lparr>hy_mqtt := m\<rparr>,
            bw_inbox := bw_inbox s @ (case bw_filter s of Some f \<Rightarrow> if under f topic then [(topic, body)] else [] | None \<Rightarrow> [])\<rparr>))"

definition bench_next ::
  "('c, 'r, 'f, 't) bridge_setup \<Rightarrow> ('c, 'r, 'f) bridge_world \<Rightarrow> notification option \<times> ('c, 'r, 'f) bridge_world" where
  "bench_next K s =
     (let s = (if bw_inbox s = [] then second K s else s)
      in case bw_inbox s of
           [] \<Rightarrow> (Some OtherNotification, s)
         | (t, p) # q \<Rightarrow> (Some (Incoming t p), s\<lparr>bw_inbox := q\<rparr>))"

text \<open>A packet of the node is heard by the hub's radio, whose task wakes.\<close>

definition node_sends ::
  "('c, 'r, 'f, 't) bridge_setup \<Rightarrow> bytes \<Rightarrow> ('c, 'r, 'f) bridge_world \<Rightarrow> (host_error + host_response) \<times> ('c, 'r, 'f) bridge_world" where
  "node_sends K data s =
     (let hub = bw_hub s; (l, r) = lt_radio (hy_lora hub);
          hub = radio_turn (logged_radio (su_radio K)) LoraRadioWakes
            (hub\<lparr>hy_lora := (hy_lora hub)\<lparr>lt_radio := (l, su_hear K data r)\<rparr>\<rparr>)
      in (Inr \<lparr>hr_version = PROTOCOL_VERSION, hr_id = RTxComplete, hr_payload = []\<rparr>, s\<lparr>bw_hub := hub\<rparr>))"

definition on_air :: "('c, 'r, 'f) bridge_world \<Rightarrow> bytes list" where
  "on_air s = fst (lt_radio (hy_lora (bw_hub s)))"

text \<open>The node waits for a packet of the hub, at most so many seconds.\<close>

primrec hear_loop ::
  "nat \<Rightarrow> ('c, 'r, 'f, 't) bridge_setup \<Rightarrow> bytes \<Rightarrow> ('c, 'r, 'f) bridge_world \<Rightarrow> (host_error + host_response) \<times> ('c, 'r, 'f) bridge_world" where
  "hear_loop 0 K expected s = (Inl ResponseTimeout, s)"
| "hear_loop (Suc n) K expected s =
     (if expected \<in> set (drop (bw_heard s) (on_air s))
      then (Inr \<lparr>hr_version = PROTOCOL_VERSION, hr_id = RRxPacket, hr_payload = expected @ [0, 0, 0]\<rparr>,
        s\<lparr>bw_heard := length (on_air s)\<rparr>)
      else hear_loop n K expected (second K s))"

text \<open>A command over the serial link reaches the control task, which sees the shared statistics.\<close>

definition bench_ask ::
  "('c, 'r, 'f, 't) bridge_setup \<Rightarrow> host_hub_command_id \<Rightarrow> bytes \<Rightarrow> ('c, 'r, 'f) bridge_world
   \<Rightarrow> (host_error + host_response) \<times> ('c, 'r, 'f) bridge_world" where
  "bench_ask K cmd_id body s =
     (case Option.bind (hub_command_from_byte (host_hub_command_byte cmd_id)) (\<lambda>i.
         case parse_command_body i (new_reader body) of Inr (c, r) \<Rightarrow> if r_finished r then Some c else None | Inl e \<Rightarrow> None) of
        None \<Rightarrow> (Inr \<lparr>hr_version = PROTOCOL_VERSION, hr_id = RError, hr_payload = []\<rparr>, s)
      | Some c \<Rightarrow>
          let (r, st) = handle (su_flash K) (su_env K) (bt_stats (mt_bridge (hy_mqtt (bw_hub s)))) (of_nat (bw_now s div 1000)) c (bw_ctrl s)
          in (Inr \<lparr>hr_version = PROTOCOL_VERSION, hr_id = host_response_id_of r, hr_payload = response_layout r\<rparr>, s\<lparr>bw_ctrl := st\<rparr>))"

definition hub_port :: "bytes \<Rightarrow> port_info" where
  "hub_port device_id = \<lparr>port_name = lit ''/dev/ttyACM0'', port_type = UsbPort \<lparr>usb_vid = USB_VID, usb_pid = USB_PID,
     usb_interface = Some 0, usb_serial = Some (lit ''LMH-'' @ concat (map hex_byte_upper device_id))\<rparr>\<rparr>"

text \<open>The hub at boot; its WiFi is up when it is configured for the network in reach.\<close>

definition bench_boot :: "('c, 'r, 'f, 't) bridge_setup \<Rightarrow> hub_config \<Rightarrow> bytes list \<times> 'r \<Rightarrow> ('c, bytes list \<times> 'r) hub_system" where
  "bench_boot K cfg x =
     (let hub = system_boot cfg (logged_radio (su_radio K)) x
      in if cfg_wifi cfg = su_wifi K then hub\<lparr>hy_mqtt := on_stats (set_wifi_state Connected) (hy_mqtt hub)\<rparr> else hub)"

definition bench_restart ::
  "('c, 'r, 'f, 't) bridge_setup \<Rightarrow> ('c, 'r, 'f) bridge_world \<Rightarrow> (host_error + unit) \<times> ('c, 'r, 'f) bridge_world" where
  "bench_restart K s =
     (let st = reboot (su_flash K) (su_env K) (bw_ctrl s); cfg = hc_pending st
      in (Inr (), s\<lparr>bw_hub := bench_boot K cfg (lt_radio (hy_lora (bw_hub s))), bw_config := cfg, bw_ctrl := st, bw_given := 0,
            bw_now := 0\<rparr>))"

definition bridge_bench :: "('c, 'r, 'f, 't) bridge_setup \<Rightarrow> ('c, 'r, 'f) bridge_world hub_ops" where
  "bridge_bench K =
     \<lparr>open_hub = (\<lambda>s. (Inr (), s)), ask_hub = bench_ask K, restart_hub = bench_restart K, open_node = (\<lambda>s. (Inr (), s)),
      send_node = node_sends K, hear_node = (\<lambda>expected timeout. hear_loop (timeout div 1000) K expected),
      subscribe = bench_subscribe, publish_at = bench_publish K, next_note = bench_next K,
      usb_list = Some [hub_port (su_device K)], time_of = bw_now, pause = (\<lambda>ms. second K ^^ (ms div 1000))\<rparr>"

text \<open>The bench at the start, with the configuration the hub has found.\<close>

definition bench_start :: "('c, 'r, 'f, 't) bridge_setup \<Rightarrow> 'r \<Rightarrow> 'f hub_ctrl \<Rightarrow> ('c, 'r, 'f) bridge_world" where
  "bench_start K r st =
     \<lparr>bw_hub = bench_boot K (hc_pending st) ([], r), bw_config = hc_pending st, bw_ctrl = st, bw_filter = None, bw_given = 0,
      bw_inbox = [], bw_heard = 0, bw_now = 0\<rparr>"

subsection \<open>A broker that works\<close>

text \<open>
  Every request to the client succeeds, and the client receives in order what the broker sends it;
  \<open>pending\<close> is what it has not received yet.
\<close>

locale working_broker =
  fixes L :: "'c mqtt_lib" and pending :: "'c \<Rightarrow> (rtext \<times> bytes) list" and inform :: "rtext \<Rightarrow> bytes \<Rightarrow> 'c \<Rightarrow> 'c"
  assumes call_works: "fst (client_call L op c)" and call_keeps: "pending (snd (client_call L op c)) = pending c"
    and informed: "pending (inform t m c) = pending c @ [(t, m)]"
    and poll_next: "pending c = (t, m) # q \<Longrightarrow> \<exists>c'. client_poll L c = (PollPublish t m, c') \<and> pending c' = q"
    and poll_none: "pending c = [] \<Longrightarrow> \<exists>c'. client_poll L c = (PollOther, c') \<and> pending c' = []"
    and names_ok: "Mqtt_Task.lib_ok L" and strings_ok: "length s \<le> 65535 \<Longrightarrow> mqtt_string_ok L s"

definition queue_broker :: "(rtext \<times> bytes) list mqtt_lib" where
  "queue_broker = \<lparr>client_call = (\<lambda>op c. (True, c)),
     client_poll = (\<lambda>c. case c of [] \<Rightarrow> (PollOther, []) | (t, m) # q \<Rightarrow> (PollPublish t m, q)),
     topic_name_ok = (\<lambda>s. s \<noteq> []), mqtt_string_ok = (\<lambda>s. length s \<le> 65535), mqtt_binary_ok = (\<lambda>b. length b \<le> 65535)\<rparr>"

interpretation queue_works: working_broker queue_broker "\<lambda>c. c" "\<lambda>t m c. c @ [(t, m)]"
  by unfold_locales (auto simp: queue_broker_def Mqtt_Task.lib_ok_def)

subsection \<open>The texts\<close>

lemma hub_hex_texts: "hub_hex ping = lit ''6875622d746573742d70696e67''" "hub_hex pong = lit ''6875622d746573742d706f6e67''"
  by (simp_all add: hub_hex_def ping_def pong_def hex_byte_lower_def hex_lower_def high_nibble_def low_nibble_def drop_bit_eq_div)

lemma fw_text: "fw_version = lit ''0.1.0''"
  by (simp add: fw_version_def push_cap_def extend_cap_def dec.simps VERSION_MAJOR_def VERSION_MINOR_def VERSION_PATCH_def)

lemma status_text:
  assumes "json_ok J"
  shows "utf8_lossy (status_json J True (Some fw_version)) = status_json J True (Some fw_version)"
    "str_contains (status_json J True (Some fw_version)) (lit ''\"online\":true'')"
proof -
  have t: "status_json J True (Some fw_version) = json_text (StatusMsg \<lparr>status_online = True, status_fw = Some fw_version\<rparr>)"
    unfolding status_json_def by (rule to_json_fits [OF assms]) (simp_all add: fw_text plain_char_def json_object_def json_field_def quoted_def)
  show "utf8_lossy (status_json J True (Some fw_version)) = status_json J True (Some fw_version)" unfolding t
    by (rule utf8_lossy_ascii) (simp add: fw_text json_object_def json_field_def quoted_def)
  show "str_contains (status_json J True (Some fw_version)) (lit ''\"online\":true'')" unfolding t
    by (simp add: str_contains_def fw_text json_object_def json_field_def quoted_def)
qed

lemma result_text:
  assumes "json_ok J"
  shows "utf8_lossy (tx_result_json J (lit ''sent'') (Some 7) None) = lit ''{\"result\":\"sent\",\"id\":7}''"
proof -
  have t: "tx_result_json J (lit ''sent'') (Some 7) None
      = json_text (TxResultMsg \<lparr>res_result = lit ''sent'', res_id = Some 7, res_retry_after_secs = None\<rparr>)"
    unfolding tx_result_json_def by (rule to_json_fits [OF assms]) (simp_all add: plain_char_def json_object_def json_field_def quoted_def opt_field_def dec.simps)
  have "utf8_lossy (tx_result_json J (lit ''sent'') (Some 7) None) = tx_result_json J (lit ''sent'') (Some 7) None" unfolding t
    by (rule utf8_lossy_ascii) (simp add: json_object_def json_field_def quoted_def opt_field_def dec.simps)
  then show ?thesis unfolding t by (simp add: json_object_def json_field_def quoted_def opt_field_def dec.simps)
qed

lemma signed_ascii: "list_all (\<lambda>b. b < 0x80) (dec_int i)"
  by (simp add: dec_int_def digits_ascii)

lemma packet_text:
  assumes "json_ok J" "13 \<le> max_payload J"
  shows "utf8_lossy (uplink_json J ping rssi snr n u) = uplink_json J ping rssi snr n u"
    "str_contains (uplink_json J ping rssi snr n u) (lit ''\"payload_hex\":\"'' @ hub_hex ping @ lit ''\"'')"
    "str_contains (uplink_json J ping rssi snr n u) (lit ''\"rssi\":'')"
proof -
  let ?rest = "dec_int (sint rssi) @ lit '',\"snr\":'' @ dec_int (sint snr) @ lit '',\"seq\":'' @ dec (unat n)
    @ lit '',\"uptime_ms\":'' @ dec (unat u) @ lit ''}''"
  have "take (max_payload J) ping = ping" using assms(2) by (simp add: ping_def)
  then have t: "uplink_json J ping rssi snr n u = lit ''{\"payload_hex\":\"'' @ hub_hex ping @ lit ''\",\"rssi\":'' @ ?rest"
    by (simp add: uplink_json_text [OF assms(1)] hub_hex_def json_object_def json_field_def quoted_def)
  show "utf8_lossy (uplink_json J ping rssi snr n u) = uplink_json J ping rssi snr n u" unfolding t hub_hex_texts
    by (rule utf8_lossy_ascii) (simp add: digits_ascii signed_ascii)
  have "uplink_json J ping rssi snr n u = lit ''{'' @ (lit ''\"payload_hex\":\"'' @ hub_hex ping @ lit ''\"'') @ lit '',\"rssi\":'' @ ?rest"
    "uplink_json J ping rssi snr n u = (lit ''{\"payload_hex\":\"'' @ hub_hex ping @ lit ''\",'') @ lit ''\"rssi\":'' @ ?rest"
    by (simp_all add: t)
  then show "str_contains (uplink_json J ping rssi snr n u) (lit ''\"payload_hex\":\"'' @ hub_hex ping @ lit ''\"'')"
    "str_contains (uplink_json J ping rssi snr n u) (lit ''\"rssi\":'')" by (metis str_contains_part)+
qed

subsection \<open>Waiting on the bench\<close>

lemma wait_found:
  "next_note B s = (Some (Incoming topic p), s') \<Longrightarrow> wait_for_message B topic n s = Some (Inr (utf8_lossy p), s')"
  by (simp add: wait_for_message_def message_loop.simps)

lemma wait_skips:
  "next_note B s = (Some (Incoming t p), s') \<Longrightarrow> t \<noteq> topic \<Longrightarrow> time_of B s' \<le> time_of B s + n * 1000 \<Longrightarrow>
   next_note B s' = (Some (Incoming topic q), s'') \<Longrightarrow> wait_for_message B topic n s = Some (Inr (utf8_lossy q), s'')"
  by (simp add: wait_for_message_def message_loop.simps [where s = s] message_loop.simps [where s = s'])

lemma note_waits: "bw_inbox s = (t, p) # q \<Longrightarrow> bench_next K s = (Some (Incoming t p), s\<lparr>bw_inbox := q\<rparr>)"
  by (simp add: bench_next_def)

lemma note_comes:
  "bw_inbox s = [] \<Longrightarrow> bw_inbox (second K s) = (t, p) # q \<Longrightarrow>
   bench_next K s = (Some (Incoming t p), (second K s)\<lparr>bw_inbox := q\<rparr>)"
  by (simp add: bench_next_def)

lemma second_frame:
  "bw_hub (second K s) = hub_second K (bw_config s) (of_nat (bw_now s)) (bw_hub s)" "bw_config (second K s) = bw_config s" "bw_ctrl (second K s) = bw_ctrl s"
  "bw_filter (second K s) = bw_filter s" "bw_heard (second K s) = bw_heard s" "bw_now (second K s) = bw_now s + 1000"
  by (simp_all add: second_def collect_def split: option.split)

lemma second_inbox:
  assumes "bw_filter s = Some f" "bw_given s = length (hub_publications s)"
    and "publishes (mt_log (hy_mqtt (hub_second K (bw_config s) (of_nat (bw_now s)) (bw_hub s)))) = hub_publications s @ [(t, p, r)]" "under f t"
  shows "bw_inbox (second K s) = bw_inbox s @ [(t, p)] \<and> bw_given (second K s) = length (hub_publications (second K s))"
  using assms by (simp add: second_def collect_def hub_publications_def)

text \<open>The topics of the hub.\<close>

definition id_of :: "bytes \<Rightarrow> rtext" where
  "id_of device_id = concat (map hex_byte_upper device_id)"

lemma bench_topics:
  assumes "length i = 3"
  shows "ts_status (new_topics i) = hub_topic (id_of i) (lit ''/status'')" "ts_rx (new_topics i) = hub_topic (id_of i) (lit ''/rx'')"
    "ts_tx (new_topics i) = hub_topic (id_of i) (lit ''/tx'')" "ts_tx_result (new_topics i) = hub_topic (id_of i) (lit ''/tx/result'')"
  by (simp_all add: topics_complete [OF assms] hub_topic_def id_of_def Let_def)

lemma under_topics:
  "under (hub_topic i (lit ''/'')) (hub_topic i (lit ''/status''))" "under (hub_topic i (lit ''/'')) (hub_topic i (lit ''/rx''))"
  "under (hub_topic i (lit ''/'')) (hub_topic i (lit ''/tx''))" "under (hub_topic i (lit ''/'')) (hub_topic i (lit ''/tx/result''))"
  by (simp_all add: under_def hub_topic_def)

lemma usb_names_hub: "hub_id_of [hub_port i] = Some (id_of i)"
  by (simp add: hub_port_def id_of_def strip_prefix_def)

text \<open>What the control task answers.\<close>

definition links :: "('c, 'r, 'f) bridge_world \<Rightarrow> u8 \<times> u8" where
  "links s = (let t = bt_stats (mt_bridge (hy_mqtt (bw_hub s))) in (st_wifi_state t, st_mqtt_state t))"

lemma link_byte: "link_state_byte (link_or_default b) = CONNECTED \<longleftrightarrow> b = CONNECTED"
  by (auto simp: link_or_default_def link_state_from_byte_def CONNECTED_def split: if_splits)

lemma ask_status:
  "\<exists>r h. bench_ask K HostGetHubStatus [] s = (Inr r, s) \<and> hr_id r = RHubStatus \<and> parse_hub_status (hr_payload r) = Inr h
    \<and> (both_connected h \<longleftrightarrow> links s = (CONNECTED, CONNECTED))"
proof -
  let ?t = "snapshot (ucast (of_nat (bw_now s div 1000) :: u64)) (bt_stats (mt_bridge (hy_mqtt (bw_hub s))))"
  have "bench_ask K HostGetHubStatus [] s = (Inr \<lparr>hr_version = PROTOCOL_VERSION, hr_id = RHubStatus, hr_payload = response_layout (HubStatus ?t)\<rparr>, s)"
    by (simp add: bench_ask_def hub_command_from_byte_def new_reader_def r_finished_def handle_def)
  moreover have "both_connected (host_status_of ?t) \<longleftrightarrow> links s = (CONNECTED, CONNECTED)"
    by (simp add: both_connected_def host_status_of_def case_prod_beta links_def Let_def snapshot_def link_byte)
  ultimately show ?thesis using host_status by fastforce
qed

lemma ask_network:
  "bench_ask K HostGetNetworkConfig [] s = (Inr \<lparr>hr_version = PROTOCOL_VERSION, hr_id = RNetworkConfig,
     hr_payload = response_layout (network_config_response (hc_pending (bw_ctrl s)))\<rparr>, s)"
  by (simp add: bench_ask_def hub_command_from_byte_def new_reader_def r_finished_def handle_def network_config_response_def)

lemma bridge_ops:
  "open_hub (bridge_bench K) s = (Inr (), s)" "ask_hub (bridge_bench K) = bench_ask K" "restart_hub (bridge_bench K) = bench_restart K" "open_node (bridge_bench K) s = (Inr (), s)"
  "send_node (bridge_bench K) = node_sends K" "hear_node (bridge_bench K) bs ms = hear_loop (ms div 1000) K bs"
  "subscribe (bridge_bench K) = bench_subscribe" "publish_at (bridge_bench K) = bench_publish K" "next_note (bridge_bench K) = bench_next K"
  "usb_list (bridge_bench K) = Some [hub_port (su_device K)]" "time_of (bridge_bench K) = bw_now"
  by (simp_all add: bridge_bench_def)

lemma online_now: "links s = (CONNECTED, CONNECTED) \<Longrightarrow> online_loop (bridge_bench K) d s = Some (Inr (), s)"
  using ask_status [of K s] by (auto simp: online_loop.simps [where s = s] bridge_bench_def)

lemma online_later:
  "links s \<noteq> (CONNECTED, CONNECTED) \<Longrightarrow> bw_now s < d \<Longrightarrow>
   online_loop (bridge_bench K) d s = online_loop (bridge_bench K) d (second K (second K s))"
  using ask_status [of K s] by (auto simp: online_loop.simps [where s = s] bridge_bench_def numeral_2_eq_2)

subsection \<open>Provisioning on the bench\<close>

text \<open>A flash whose operations succeed.\<close>

definition flash_works :: "('f, 't) flash \<Rightarrow> ('f \<Rightarrow> u32 \<times> u32 \<Rightarrow> hub_config option) \<Rightarrow> bool" where
  "flash_works F A \<longleftrightarrow> flash_ok F A \<and> (\<forall>f r c. fst (store_item F f r CONFIG_KEY c)) \<and> (\<forall>f r. is_ok (fst (fetch_item F f r CONFIG_KEY)))"

lemma save_works:
  assumes "flash_works F A"
  shows "\<exists>s'. save F c s = (Inr (), s') \<and> stored_config A s' = Some c"
proof -
  have F: "flash_ok F A" "fst (store_item F (cs_flash s) (cs_range s) CONFIG_KEY c)" using assms unfolding flash_works_def by blast+
  then have "fst (save F c s) = Inr ()" by (simp add: save_def case_prod_beta)
  then show ?thesis using save_stored [OF F(1), of c s] by (metis prod.collapse)
qed

lemma load_works:
  assumes "flash_works F A"
  shows "fst (load F s) = stored_config A s"
proof -
  obtain r f where e: "fetch_item F (cs_flash s) (cs_range s) CONFIG_KEY = (r, f)" by force
  have "is_ok (fst (fetch_item F (cs_flash s) (cs_range s) CONFIG_KEY))" "flash_ok F A" using assms unfolding flash_works_def by blast+
  moreover have "\<forall>x. fst (fetch_item F (cs_flash s) (cs_range s) CONFIG_KEY) = Inr x \<longrightarrow> x = A (cs_flash s) (cs_range s)"
    using calculation(2) unfolding flash_ok_def by blast
  ultimately show ?thesis by (cases r) (auto simp: load_def e stored_config_def split: option.split)
qed

text \<open>A setting is taken over, stored and acknowledged.\<close>

lemma set_acked:
  assumes "flash_works (su_flash K) A" "hc_store (bw_ctrl s) = Some x" "hub_command_ok c"
    and "apply_command (su_env K) (hc_pending (bw_ctrl s)) c = (Inr SaveConfig, p)"
  shows "\<exists>y. config_ack (bridge_bench K) (host_hub_id (hub_command_id_of c)) (host_payload c) s
      = (Inr (), s\<lparr>bw_ctrl := \<lparr>hc_store = Some y, hc_pending = p\<rparr>\<rparr>) \<and> stored_config A y = Some p"
proof -
  obtain y where y: "save (su_flash K) p x = (Inr (), y)" "stored_config A y = Some p" using save_works [OF assms(1)] by blast
  have "c \<noteq> GetNetworkConfig" "c \<noteq> GetHubStatus" using assms(4) by auto
  then have "handle (su_flash K) (su_env K) (bt_stats (mt_bridge (hy_mqtt (bw_hub s)))) (of_nat (bw_now s div 1000)) c (bw_ctrl s)
      = (ConfigAck AckOk, \<lparr>hc_store = Some y, hc_pending = p\<rparr>)"
    using assms(2,4) y by (cases c) (auto simp: handle_def persist_def)
  moreover have "parse_command_body (hub_command_id_of c) (new_reader (host_payload c)) = Inr (c, reader_at (command_layout c) [])"
    using command_body_at [OF assms(3), of "[]"] by (simp add: host_payload_layout reader_at_def new_reader_def)
  ultimately have "config_ack (bridge_bench K) (host_hub_id (hub_command_id_of c)) (host_payload c) s
      = (Inr (), s\<lparr>bw_ctrl := \<lparr>hc_store = Some y, hc_pending = p\<rparr>\<rparr>)"
    by (simp add: config_ack_def bridge_ops bench_ask_def host_hub_byte reader_at_def r_finished_def)
  then show ?thesis using y(2) by blast
qed

text \<open>The configuration the test sends.\<close>

definition provisioned :: "hub_args \<Rightarrow> hub_config \<Rightarrow> hub_config" where
  "provisioned args c = c\<lparr>cfg_wifi := \<lparr>ssid = ha_wifi_ssid args, password = ha_wifi_password args\<rparr>,
     cfg_mqtt := \<lparr>mqtt_host = ha_broker_host args, mqtt_port = ha_broker_port args, client_id = []\<rparr>, cfg_mode := Bridge\<rparr>"

definition args_ok :: "hub_args \<Rightarrow> bool" where
  "args_ok args \<longleftrightarrow> hub_command_ok (SetWifiConfig \<lparr>ssid = ha_wifi_ssid args, password = ha_wifi_password args\<rparr>)
     \<and> hub_command_ok (SetMqttConfig \<lparr>mqtt_host = ha_broker_host args, mqtt_port = ha_broker_port args, client_id = []\<rparr>)
     \<and> ha_broker_port args \<noteq> 0"

lemma provision_stores:
  assumes F: "flash_works (su_flash K) A" and x: "hc_store (bw_ctrl s) = Some x" and args: "args_ok args"
  shows "\<exists>y. provision_hub (bridge_bench K) args s
      = Some (Inr (), s\<lparr>bw_ctrl := \<lparr>hc_store = Some y, hc_pending = provisioned args (hc_pending (bw_ctrl s))\<rparr>\<rparr>)
    \<and> stored_config A y = Some (provisioned args (hc_pending (bw_ctrl s)))"
proof -
  let ?w = "SetWifiConfig \<lparr>ssid = ha_wifi_ssid args, password = ha_wifi_password args\<rparr>"
  let ?m = "SetMqttConfig \<lparr>mqtt_host = ha_broker_host args, mqtt_port = ha_broker_port args, client_id = []\<rparr>"
  let ?B = "bridge_bench K" and ?p = "hc_pending (bw_ctrl s)"
  define p1 where "p1 = ?p\<lparr>cfg_wifi := \<lparr>ssid = ha_wifi_ssid args, password = ha_wifi_password args\<rparr>\<rparr>"
  define p2 where "p2 = p1\<lparr>cfg_mqtt := \<lparr>mqtt_host = ha_broker_host args, mqtt_port = ha_broker_port args, client_id = []\<rparr>\<rparr>"
  obtain a where a: "config_ack ?B HostSetWifiConfig (host_payload ?w) s = (Inr (), s\<lparr>bw_ctrl := \<lparr>hc_store = Some a, hc_pending = p1\<rparr>\<rparr>)"
    using set_acked [OF F x, of ?w p1] args by (auto simp: args_ok_def p1_def)
  let ?s1 = "s\<lparr>bw_ctrl := \<lparr>hc_store = Some a, hc_pending = p1\<rparr>\<rparr>"
  obtain b where b: "config_ack ?B HostSetMqttConfig (host_payload ?m) ?s1 = (Inr (), s\<lparr>bw_ctrl := \<lparr>hc_store = Some b, hc_pending = p2\<rparr>\<rparr>)"
    using set_acked [OF F, of ?s1 a ?m p2] args by (auto simp: args_ok_def p2_def)
  let ?s2 = "s\<lparr>bw_ctrl := \<lparr>hc_store = Some b, hc_pending = p2\<rparr>\<rparr>"
  obtain y where y: "config_ack ?B HostSetMode (host_payload (SetMode Bridge)) ?s2
      = (Inr (), s\<lparr>bw_ctrl := \<lparr>hc_store = Some y, hc_pending = p2\<lparr>cfg_mode := Bridge\<rparr>\<rparr>\<rparr>)"
    "stored_config A y = Some (p2\<lparr>cfg_mode := Bridge\<rparr>)"
    using set_acked [OF F, of ?s2 b "SetMode Bridge" "p2\<lparr>cfg_mode := Bridge\<rparr>"] by auto
  have p: "p2\<lparr>cfg_mode := Bridge\<rparr> = provisioned args ?p" by (simp add: p2_def p1_def provisioned_def)
  have "provision_hub ?B args s = Some (Inr (), s\<lparr>bw_ctrl := \<lparr>hc_store = Some y, hc_pending = p2\<lparr>cfg_mode := Bridge\<rparr>\<rparr>\<rparr>)"
    using a b y(1) by (simp add: provision_hub_def followed_def host_step_def)
  then show ?thesis using y(2) unfolding p by blast
qed

lemma restart_loads:
  assumes "flash_works (su_flash K) A" "hc_store (bw_ctrl s) = Some y" "stored_config A y = Some c" "cfg_version c = CONFIG_SCHEMA_VERSION"
  shows "\<exists>z. bench_restart K s = (Inr (), s\<lparr>bw_hub := bench_boot K c (lt_radio (hy_lora (bw_hub s))), bw_config := c,
      bw_ctrl := \<lparr>hc_store = Some z, hc_pending = c\<rparr>, bw_given := 0, bw_now := 0\<rparr>)"
  using load_works [OF assms(1), of y] assms(2-4)
  by (cases "load (su_flash K) y") (auto simp: bench_restart_def reboot_def boot_config_def select_config_def Let_def)

subsection \<open>What the turns do\<close>

text \<open>What of the hub matters to the test.\<close>

record hub_view =
  hv_pending :: "(rtext \<times> bytes) list option"
  hv_in :: "bytes list"
  hv_out :: "mqtt_outbound list"
  hv_commands :: "command_envelope list"
  hv_flight :: "(u16, u32 option) linear_map"
  hv_unread :: "response_message list"
  hv_air :: "bytes list"
  hv_pubs :: "publication list"
  hv_links :: "u8 \<times> u8"

definition view_hub :: "('c \<Rightarrow> (rtext \<times> bytes) list) \<Rightarrow> ('c, bytes list \<times> 'r) hub_system \<Rightarrow> hub_view" where
  "view_hub pending s =
     (let m = hy_mqtt s; b = mt_bridge m; l = hy_lora s
      in \<lparr>hv_pending = map_option pending (mt_client m), hv_in = mt_in m, hv_out = bt_out b, hv_commands = bt_commands b,
          hv_flight = in_flight (bt_state b), hv_unread = drop (hy_seen s) (lt_published l), hv_air = fst (lt_radio l),
          hv_pubs = publishes (mt_log m), hv_links = (st_wifi_state (bt_stats b), st_mqtt_state (bt_stats b))\<rparr>)"

text \<open>The radio is in order and the dispatcher as at boot; no message of the bus is lost.\<close>

definition hub_fit :: "('r \<Rightarrow> bool) \<Rightarrow> ('c, bytes list \<times> 'r) hub_system \<Rightarrow> bool" where
  "hub_fit ok s \<longleftrightarrow> ok (snd (lt_radio (hy_lora s))) \<and> lt_disp (hy_lora s) = new_dispatcher
     \<and> hy_seen s \<le> length (lt_published (hy_lora s)) \<and> length (lt_published (hy_lora s)) \<le> hy_seen s + 1"

text \<open>
  What the bench needs: the JSON library does what it documents and reads the request of the test, the
  protocol accepts the payload of it, and the configured broker is found and takes the connection.
\<close>

definition bench_ready :: "('c \<Rightarrow> (rtext \<times> bytes) list) \<Rightarrow> ('c, 'r, 'f, 't) bridge_setup \<Rightarrow> hub_config \<Rightarrow> bool" where
  "bench_ready pending K cfg \<longleftrightarrow> json_ok (su_json K) \<and> length ping \<le> max_payload (su_json K)
     \<and> downlink_from_slice (su_json K) pong_request = Some \<lparr>down_payload_hex = hub_hex pong, down_id = Some 7\<rparr>
     \<and> su_lora_tx K pong = Inr (LoraTx pong) \<and> length (su_device K) = 3 \<and> mqtt_host (cfg_mqtt cfg) \<noteq> []
     \<and> length (resolve_client_id cfg (su_device K)) \<le> 65535
     \<and> (case resolve_host (su_dns K) (mqtt_host (cfg_mqtt cfg)) of
           None \<Rightarrow> False
         | Some a \<Rightarrow> (case su_tcp K (a, mqtt_port (cfg_mqtt cfg)) of None \<Rightarrow> False | Some c \<Rightarrow> pending c = []))"

lemma pong_requested: "bench_ready pending K cfg \<Longrightarrow> parse_downlink (su_json K) pong_request = Inr \<lparr>dl_payload = pong, dl_id = Some 7\<rparr>"
  using hex_round [of pong "max_payload (su_json K)"]
  by (simp add: bench_ready_def parse_downlink_def hub_hex_def hex_encode_eq pong_def ping_def)

locale bridge_parts = hearing_radio R aired ok hears + working_broker L pending inform
  for R :: "'r lora_radio" and aired :: "'r \<Rightarrow> bytes list" and ok :: "'r \<Rightarrow> bool" and hears :: "bytes \<Rightarrow> 'r \<Rightarrow> 'r"
    and L :: "'c mqtt_lib" and pending :: "'c \<Rightarrow> (rtext \<times> bytes) list" and inform :: "rtext \<Rightarrow> bytes \<Rightarrow> 'c \<Rightarrow> 'c"
begin

lemma attempt_idle: "hv_pending (view_hub pending s) \<noteq> None \<Longrightarrow>
  system_turn J tx L cfg i Q (MqttSide (Attempt d t)) s = s"
  by (simp add: view_hub_def Let_def)

lemma readable_idle:
  assumes "hv_pending (view_hub pending s) = Some []"
  shows "view_hub pending (system_turn J tx L cfg i Q (MqttSide (Session Readable)) s) = view_hub pending s
    \<and> hub_fit ok (system_turn J tx L cfg i Q (MqttSide (Session Readable)) s) = hub_fit ok s"
proof -
  obtain c where c: "mt_client (hy_mqtt s) = Some c" "pending c = []" using assms by (auto simp: view_hub_def Let_def)
  obtain c' where "client_poll L c = (PollOther, c')" "pending c' = []" using poll_none [OF c(2)] by blast
  then show ?thesis using c by (simp add: view_hub_def hub_fit_def Let_def)
qed

lemma readable_request:
  assumes "hv_pending (view_hub pending s) = Some [(ts_tx (new_topics i), m)]" "hv_in (view_hub pending s) = []" "length m \<le> MAX_JSON"
  shows "view_hub pending (system_turn J tx L cfg i Q (MqttSide (Session Readable)) s) = (view_hub pending s)\<lparr>hv_pending := Some [], hv_in := [m]\<rparr>
    \<and> hub_fit ok (system_turn J tx L cfg i Q (MqttSide (Session Readable)) s) = hub_fit ok s"
proof -
  obtain c where c: "mt_client (hy_mqtt s) = Some c" "pending c = [(ts_tx (new_topics i), m)]" using assms by (auto simp: view_hub_def Let_def)
  obtain c' where "client_poll L c = (PollPublish (ts_tx (new_topics i)) m, c')" "pending c' = []" using poll_next [OF c(2)] by blast
  moreover have "extend_cap MAX_JSON [] m = Some m" using assms(3) by (simp add: extend_cap_def)
  ultimately show ?thesis using c assms(2)
    by (simp add: view_hub_def hub_fit_def Let_def incoming_def try_send_def MQTT_IN_SIZE_def)
qed

lemma take_idle: "hv_in (view_hub pending s) = [] \<Longrightarrow> system_turn J tx L cfg i Q TakeRequest s = s"
  by (simp add: view_hub_def Let_def)

lemma bus_idle: "hv_unread (view_hub pending s) = [] \<Longrightarrow> system_turn J tx L cfg i Q (BusSide u) s = s"
  by (simp add: view_hub_def bus_turn_def Let_def)

lemma out_idle:
  "hv_pending (view_hub pending s) \<noteq> None \<Longrightarrow> hv_out (view_hub pending s) = [] \<Longrightarrow>
   system_turn J tx L cfg i Q (MqttSide (Session OutboundReady)) s = s"
  by (simp add: view_hub_def Let_def)

lemma radio_idle:
  assumes "hv_commands (view_hub pending s) = []" "hub_fit ok s"
  shows "view_hub pending (system_turn J tx L cfg i (logged_radio R) (RadioSide (LoraCommand now)) s) = view_hub pending s
    \<and> hub_fit ok (system_turn J tx L cfg i (logged_radio R) (RadioSide (LoraCommand now)) s)"
  using assms arm_ok
  by (cases "lt_radio (hy_lora s)")
    (simp add: view_hub_def hub_fit_def Let_def radio_turn_def lora_turn_def radio_of_def commands_of_def set_commands_def
      tapped_simps case_prod_beta)

lemma out_delivers:
  assumes "hv_pending (view_hub pending s) = Some []" "hv_out (view_hub pending s) = [m]" "length i = 3"
  shows "view_hub pending (system_turn J tx L cfg i Q (MqttSide (Session OutboundReady)) s)
      = (view_hub pending s)\<lparr>hv_out := [], hv_pubs := hv_pubs (view_hub pending s) @ [publication_of (new_topics i) m]\<rparr>
    \<and> hub_fit ok (system_turn J tx L cfg i Q (MqttSide (Session OutboundReady)) s) = hub_fit ok s"
proof -
  obtain c where c: "mt_client (hy_mqtt s) = Some c" "pending c = []" using assms by (auto simp: view_hub_def Let_def)
  obtain w c' where w: "client_call L (OpPublish (resolve (new_topics i) (out_topic m)) (out_payload m) (out_retain m)) c = (w, c')" by force
  have "w" "pending c' = []" using call_works call_keeps w c(2) by (metis fst_conv, metis snd_conv)
  moreover have "topic_name_ok L (resolve (new_topics i) (out_topic m))" using resolve_usable [OF names_ok assms(3)] .
  ultimately show ?thesis using c assms(2) w
    by (simp add: view_hub_def hub_fit_def Let_def Net_Topics.deliver_def client_publish_def call_def publication_of_def)
qed

lemma bus_packet:
  assumes "hv_unread (view_hub pending s) = [Unsolicited (RxPacket d rssi snr)]" "hv_out (view_hub pending s) = []" "hub_fit ok s"
  shows "\<exists>n. view_hub pending (system_turn J tx L cfg i Q (BusSide u) s) = (view_hub pending s)
      \<lparr>hv_unread := [], hv_out := [\<lparr>out_topic = Rx, out_payload = uplink_json J d rssi snr n u, out_retain = False\<rparr>]\<rparr>
    \<and> hub_fit ok (system_turn J tx L cfg i Q (BusSide u) s)"
proof -
  let ?bus = "lt_published (hy_lora s)"
  have u: "drop (hy_seen s) ?bus = [Unsolicited (RxPacket d rssi snr)]" using assms(1) by (simp add: view_hub_def Let_def)
  then have "length ?bus - hy_seen s = 1" "?bus ! hy_seen s = Unsolicited (RxPacket d rssi snr)" "drop (Suc (hy_seen s)) ?bus = []"
    by (metis length_Cons length_drop list.size(3) One_nat_def, metis hd_drop_conv_nth list.sel(1) drop_eq_Nil not_le list.distinct(1),
        metis drop_Suc drop_drop drop_0 list.sel(3) plus_1_eq_Suc tl_drop)
  then show ?thesis using assms(2,3) u
    by (auto simp: view_hub_def hub_fit_def Let_def bus_turn_def RESPONSE_CHANNEL_SIZE_def on_rx_packet_def enqueue_def try_send_def
        MQTT_OUT_SIZE_def count_uplink_def)
qed

lemma bus_answer:
  assumes "hv_unread (view_hub pending s) = [CommandResponse WiFi n TxComplete]" "hv_out (view_hub pending s) = []"
    and "lm_get (hv_flight (view_hub pending s)) n = Some ident"
  shows "view_hub pending (system_turn J tx L cfg i Q (BusSide u) s) = (view_hub pending s)
      \<lparr>hv_unread := [], hv_flight := lm_remove n (hv_flight (view_hub pending s)), hv_out := [tx_result J (lit ''sent'') ident None]\<rparr>"
proof -
  let ?bus = "lt_published (hy_lora s)"
  have u: "drop (hy_seen s) ?bus = [CommandResponse WiFi n TxComplete]" using assms(1) by (simp add: view_hub_def Let_def)
  then have "length ?bus - hy_seen s = 1" "?bus ! hy_seen s = CommandResponse WiFi n TxComplete" "drop (Suc (hy_seen s)) ?bus = []"
    by (metis length_Cons length_drop list.size(3) One_nat_def, metis hd_drop_conv_nth list.sel(1) drop_eq_Nil not_le list.distinct(1),
        metis drop_Suc drop_drop drop_0 list.sel(3) plus_1_eq_Suc tl_drop)
  then show ?thesis using assms(2,3) u
    by (auto simp: view_hub_def Let_def bus_turn_def RESPONSE_CHANNEL_SIZE_def on_command_response_def enqueue_def try_send_def
        MQTT_OUT_SIZE_def count_downlink_def)
qed

lemma take_request:
  assumes "hv_in (view_hub pending s) = [m]" "hv_flight (view_hub pending s) = []" "hv_commands (view_hub pending s) = []"
    and "parse_downlink J m = Inr d" "tx (dl_payload d) = Inr q"
  shows "\<exists>n. view_hub pending (system_turn J tx L cfg i Q TakeRequest s) = (view_hub pending s)
      \<lparr>hv_in := [], hv_flight := [(n, dl_id d)], hv_commands := [\<lparr>env_command = q, env_source = WiFi, env_sequence_id = n\<rparr>]\<rparr>
    \<and> hub_fit ok (system_turn J tx L cfg i Q TakeRequest s) = hub_fit ok s"
  using assms
  by (auto simp: view_hub_def hub_fit_def Let_def bridge_downlink_def on_downlink_def MAX_IN_FLIGHT_def lm_insert_def try_send_def
      COMMAND_CHANNEL_SIZE_def)

lemma packet_sent:
  assumes "ok r" "bs \<noteq> []" "length bs \<le> 255" "unat now < 3540000"
  shows "\<exists>d r'. dispatch (logged_radio R) (LoraTx bs) now (new_dispatcher, l, r) = (TxComplete, d, l @ [bs], r')"
proof -
  have "head_start_ms (disp_duty new_dispatcher) \<le> now" by (simp add: new_dispatcher_def for_frequency_def)
  from young_claim [OF young_start this assms(4) short_airtime [OF assms(3)]] start_sum short_airtime [OF assms(3)]
  have "fst (try_claim (disp_duty new_dispatcher) now (packet_airtime (disp_config new_dispatcher) bs)) = Inr ()" by simp
  then obtain duty where duty: "try_claim (disp_duty new_dispatcher) now (packet_airtime (disp_config new_dispatcher) bs) = (Inr (), duty)"
    by (metis prod.collapse)
  obtain r' where "transmit R bs r = (Inr (), r')" using works_transmit [OF assms(1-3)] by (metis prod.collapse)
  then show ?thesis using duty by (simp add: handle_lora_tx_def tapped_simps)
qed

lemma radio_request:
  assumes "hv_commands (view_hub pending s) = [\<lparr>env_command = LoraTx bs, env_source = WiFi, env_sequence_id = n\<rparr>]"
    and "hub_fit ok s" "hv_unread (view_hub pending s) = []" "bs \<noteq> []" "length bs \<le> 255" "unat now < 3540000"
  shows "view_hub pending (system_turn J tx L cfg i (logged_radio R) (RadioSide (LoraCommand now)) s) = (view_hub pending s)
      \<lparr>hv_commands := [], hv_air := hv_air (view_hub pending s) @ [bs], hv_unread := [CommandResponse WiFi n TxComplete]\<rparr>"
proof -
  obtain l r where r: "lt_radio (hy_lora s) = (l, r)" by force
  define r1 where "r1 = snd (wait_rx_event R RX_POLL_INTERVAL_MS (snd (arm_receive R r)))"
  have "ok r1" using assms(2) r arm_ok wait_ok by (simp add: hub_fit_def r1_def)
  from packet_sent [OF this assms(4-6)] obtain d r2 where
    "dispatch (logged_radio R) (LoraTx bs) now (new_dispatcher, l, r1) = (TxComplete, d, l @ [bs], r2)" by blast
  then show ?thesis using assms(1-3) r
    by (simp add: view_hub_def hub_fit_def Let_def radio_turn_def lora_turn_def radio_of_def commands_of_def set_commands_def
        tapped_simps case_prod_beta handle_command_def r1_def)
qed

lemma attempt_opens:
  assumes "mt_client (hy_mqtt s) = None" "mqtt_host (cfg_mqtt cfg) \<noteq> []" "resolve_host d (mqtt_host (cfg_mqtt cfg)) = Some a"
    and "t (a, mqtt_port (cfg_mqtt cfg)) = Some c" "pending c = []" "length i = 3" "length (resolve_client_id cfg i) \<le> 65535"
  shows "view_hub pending (system_turn J tx L cfg i Q (MqttSide (Attempt d t)) s) = (view_hub pending s)
      \<lparr>hv_pending := Some [], hv_pubs := hv_pubs (view_hub pending s) @ [(ts_status (new_topics i), status_json J True (Some fw_version), True)],
       hv_links := (fst (hv_links (view_hub pending s)), link_state_byte Connected)\<rparr>
    \<and> hub_fit ok (system_turn J tx L cfg i Q (MqttSide (Attempt d t)) s) = hub_fit ok s"
proof -
  have call: "fst (client_call L op x) = True" for op x using call_works by simp
  have "length (status_json J False None) \<le> MAX_JSON" unfolding status_json_def to_json_def by (rule length_push_cap) simp
  then have "mqtt_binary_ok L (status_json J False None)" using names_ok by (simp add: Mqtt_Task.lib_ok_def MAX_JSON_def)
  moreover note topic_usable [OF names_ok assms(6)] strings_ok [OF assms(7)]
  moreover have "pending (snd (client_call L op x)) = pending x" for op x by (rule call_keeps)
  ultimately show ?thesis using assms(1-5) call
    by (simp add: view_hub_def hub_fit_def Let_def attempt_def open_session_def client_publish_def call_def on_stats_def
        set_mqtt_state_def KEEPALIVE_SECS_def case_prod_beta publishes_def)
qed

text \<open>Seconds of the hub: nothing to do, a packet to forward, a request to serve.\<close>

definition hub_idle :: "hub_view \<Rightarrow> bool" where
  "hub_idle v \<longleftrightarrow> hv_pending v = Some [] \<and> hv_in v = [] \<and> hv_out v = [] \<and> hv_commands v = [] \<and> hv_flight v = [] \<and> hv_unread v = []"

definition bench_fits :: "('c, 'r, 'f, 't) bridge_setup \<Rightarrow> hub_config \<Rightarrow> bool" where
  "bench_fits K cfg \<longleftrightarrow> cfg_wifi cfg = su_wifi K \<and> su_radio K = R \<and> su_broker K = L \<and> su_inform K = inform \<and> su_hear K = hears \<and> length (su_device K) = 3"

lemma hub_second_turns:
  "bench_fits K cfg \<Longrightarrow> hub_second K cfg now s = system_run (su_json K) (su_lora_tx K) (su_broker K) cfg (su_device K) (logged_radio (su_radio K))
     [MqttSide (Session Readable), TakeRequest, RadioSide (LoraCommand now), BusSide now, MqttSide (Session OutboundReady)]
     (system_turn (su_json K) (su_lora_tx K) (su_broker K) cfg (su_device K) (logged_radio (su_radio K))
       (MqttSide (Attempt (su_dns K) (su_tcp K))) s)"
  by (simp add: hub_second_def turns_of_second_def system_run_def bench_fits_def del: system_turn.simps)

lemma rest_of_second:
  assumes K: "bench_fits K cfg" and v: "hub_idle (view_hub pending s)" "hub_fit ok s"
  shows "view_hub pending (system_run (su_json K) (su_lora_tx K) (su_broker K) cfg (su_device K) (logged_radio (su_radio K))
      [MqttSide (Session Readable), TakeRequest, RadioSide (LoraCommand now), BusSide now, MqttSide (Session OutboundReady)] s) = view_hub pending s
    \<and> hub_fit ok (system_run (su_json K) (su_lora_tx K) (su_broker K) cfg (su_device K) (logged_radio (su_radio K))
      [MqttSide (Session Readable), TakeRequest, RadioSide (LoraCommand now), BusSide now, MqttSide (Session OutboundReady)] s)"
proof -
  let ?t = "system_turn (su_json K) (su_lora_tx K) L cfg (su_device K) (logged_radio R)"
  define s1 where "s1 = ?t (MqttSide (Session Readable)) s"
  define s2 where "s2 = ?t (RadioSide (LoraCommand now)) s1"
  have s1: "view_hub pending s1 = view_hub pending s" "hub_fit ok s1"
    using readable_idle [of s "su_json K"] v by (simp_all add: s1_def hub_idle_def del: system_turn.simps)
  have s2: "view_hub pending s2 = view_hub pending s" "hub_fit ok s2"
    using radio_idle [of s1] s1 v by (simp_all add: s2_def hub_idle_def del: system_turn.simps)
  have "?t TakeRequest s1 = s1" by (rule take_idle) (use s1 v in \<open>simp add: hub_idle_def\<close>)
  moreover have "?t (BusSide now) s2 = s2" by (rule bus_idle) (use s2 v in \<open>simp add: hub_idle_def\<close>)
  moreover have "?t (MqttSide (Session OutboundReady)) s2 = s2" by (rule out_idle) (use s2 v in \<open>simp_all add: hub_idle_def\<close>)
  ultimately show ?thesis using K s2 by (simp add: bench_fits_def system_run_def s1_def [symmetric] s2_def [symmetric] del: system_turn.simps)
qed

lemma second_idle:
  assumes "bench_fits K cfg" "hub_idle (view_hub pending s)" "hub_fit ok s"
  shows "view_hub pending (hub_second K cfg now s) = view_hub pending s \<and> hub_fit ok (hub_second K cfg now s)"
proof -
  have "system_turn (su_json K) (su_lora_tx K) L cfg (su_device K) (logged_radio R) (MqttSide (Attempt (su_dns K) (su_tcp K))) s = s"
    by (rule attempt_idle) (use assms(2) in \<open>simp add: hub_idle_def\<close>)
  then show ?thesis using rest_of_second [OF assms, of now] assms(1) by (simp only: hub_second_turns) (simp only: bench_fits_def)
qed

lemma second_uplink:
  assumes K: "bench_fits K cfg" and v: "hub_idle ((view_hub pending s)\<lparr>hv_unread := []\<rparr>)" "hub_fit ok s"
    and p: "hv_unread (view_hub pending s) = [Unsolicited (RxPacket d rssi snr)]"
  shows "\<exists>n. view_hub pending (hub_second K cfg now s) = (view_hub pending s)\<lparr>hv_unread := [],
      hv_pubs := hv_pubs (view_hub pending s) @ [(ts_rx (new_topics (su_device K)), uplink_json (su_json K) d rssi snr n now, False)]\<rparr>
    \<and> hub_fit ok (hub_second K cfg now s)"
proof -
  let ?t = "system_turn (su_json K) (su_lora_tx K) L cfg (su_device K) (logged_radio R)"
  define s1 where "s1 = ?t (MqttSide (Session Readable)) s"
  define s2 where "s2 = ?t (RadioSide (LoraCommand now)) s1"
  define s3 where "s3 = ?t (BusSide now) s2"
  define s4 where "s4 = ?t (MqttSide (Session OutboundReady)) s3"
  have s1: "view_hub pending s1 = view_hub pending s" "hub_fit ok s1"
    using readable_idle [of s "su_json K"] v by (simp_all add: s1_def hub_idle_def del: system_turn.simps)
  have s2: "view_hub pending s2 = view_hub pending s" "hub_fit ok s2"
    using radio_idle [of s1] s1 v by (simp_all add: s2_def hub_idle_def del: system_turn.simps)
  obtain n where s3: "view_hub pending s3 = (view_hub pending s)
      \<lparr>hv_unread := [], hv_out := [\<lparr>out_topic = Rx, out_payload = uplink_json (su_json K) d rssi snr n now, out_retain = False\<rparr>]\<rparr>"
    "hub_fit ok s3"
    using bus_packet [OF _ _ s2(2), of d rssi snr "su_json K" "su_lora_tx K" cfg "su_device K" "logged_radio R" now, folded s3_def] s2(1) v(1) p
    by (auto simp: hub_idle_def)
  have s4: "view_hub pending s4 = (view_hub pending s)\<lparr>hv_unread := [],
      hv_pubs := hv_pubs (view_hub pending s) @ [(ts_rx (new_topics (su_device K)), uplink_json (su_json K) d rssi snr n now, False)]\<rparr>"
    "hub_fit ok s4"
    using out_delivers [of s3 _ "su_device K"] s3 v K
    by (simp_all add: s4_def hub_idle_def publication_of_def bench_fits_def del: system_turn.simps)
  have "?t TakeRequest s1 = s1" by (rule take_idle) (use s1 v in \<open>simp add: hub_idle_def\<close>)
  moreover have "?t (MqttSide (Attempt (su_dns K) (su_tcp K))) s = s" by (rule attempt_idle) (use v in \<open>simp add: hub_idle_def\<close>)
  ultimately have "hub_second K cfg now s = s4"
    using K by (simp add: hub_second_turns bench_fits_def system_run_def s1_def [symmetric] s2_def [symmetric] s3_def [symmetric]
        s4_def [symmetric] del: system_turn.simps)
  then show ?thesis using s4 by blast
qed

lemma second_request:
  assumes K: "bench_fits K cfg" and v: "hub_idle ((view_hub pending s)\<lparr>hv_pending := Some []\<rparr>)" "hub_fit ok s"
    and m: "hv_pending (view_hub pending s) = Some [(ts_tx (new_topics (su_device K)), m)]" "length m \<le> MAX_JSON"
    and d: "parse_downlink (su_json K) m = Inr d" "su_lora_tx K (dl_payload d) = Inr (LoraTx bs)"
    and bs: "bs \<noteq> []" "length bs \<le> 255" "unat now < 3540000"
  shows "view_hub pending (hub_second K cfg now s) = (view_hub pending s)\<lparr>hv_pending := Some [], hv_air := hv_air (view_hub pending s) @ [bs],
      hv_pubs := hv_pubs (view_hub pending s) @
        [(ts_tx_result (new_topics (su_device K)), tx_result_json (su_json K) (lit ''sent'') (dl_id d) None, False)]\<rparr>"
proof -
  let ?t = "system_turn (su_json K) (su_lora_tx K) L cfg (su_device K) (logged_radio R)" and ?v = "view_hub pending s"
  define s1 where "s1 = ?t (MqttSide (Session Readable)) s"
  define s2 where "s2 = ?t TakeRequest s1"
  define s3 where "s3 = ?t (RadioSide (LoraCommand now)) s2"
  define s4 where "s4 = ?t (BusSide now) s3"
  define s5 where "s5 = ?t (MqttSide (Session OutboundReady)) s4"
  have idle: "hv_in ?v = []" "hv_out ?v = []" "hv_commands ?v = []" "hv_flight ?v = []" "hv_unread ?v = []"
    using v(1) by (simp_all add: hub_idle_def)
  have s1: "view_hub pending s1 = ?v\<lparr>hv_pending := Some [], hv_in := [m]\<rparr>" "hub_fit ok s1"
    using readable_request [OF m(1) idle(1) m(2)] v(2) by (simp_all add: s1_def del: system_turn.simps)
  have tidy: "?v\<lparr>hv_pending := Some [], hv_in := []\<rparr> = ?v\<lparr>hv_pending := Some []\<rparr>" by (rule hub_view.equality) (use idle(1) in simp_all)
  obtain n where s2: "view_hub pending s2 = ?v\<lparr>hv_pending := Some [], hv_in := []\<rparr>\<lparr>hv_flight := [(n, dl_id d)],
      hv_commands := [\<lparr>env_command = LoraTx bs, env_source = WiFi, env_sequence_id = n\<rparr>]\<rparr>" "hub_fit ok s2"
    using take_request [where s = s1 and m = m and J = "su_json K" and tx = "su_lora_tx K" and d = d and q = "LoraTx bs" and cfg = cfg and i = "su_device K" and Q = "logged_radio R", OF _ _ _ d, folded s2_def] s1 idle by auto
  note s2 = s2 [unfolded tidy]
  have s3: "view_hub pending s3 = ?v\<lparr>hv_pending := Some [], hv_flight := [(n, dl_id d)], hv_commands := [],
      hv_air := hv_air ?v @ [bs], hv_unread := [CommandResponse WiFi n TxComplete]\<rparr>"
    using radio_request [of s2 bs n now] s2 idle bs by (simp add: s3_def del: system_turn.simps)
  have s4: "view_hub pending s4 = ?v\<lparr>hv_pending := Some [], hv_air := hv_air ?v @ [bs], hv_out := [tx_result (su_json K) (lit ''sent'') (dl_id d) None]\<rparr>"
    using bus_answer [of s3 n "dl_id d" "su_json K"] s3 idle by (simp add: s4_def lm_remove_def del: system_turn.simps)
  have s5: "view_hub pending s5 = ?v\<lparr>hv_pending := Some [], hv_air := hv_air ?v @ [bs], hv_pubs := hv_pubs ?v @
      [(ts_tx_result (new_topics (su_device K)), tx_result_json (su_json K) (lit ''sent'') (dl_id d) None, False)]\<rparr>"
    using out_delivers [of s4 _ "su_device K"] s4 idle K
    by (simp add: s5_def publication_of_def tx_result_def bench_fits_def del: system_turn.simps)
  have "?t (MqttSide (Attempt (su_dns K) (su_tcp K))) s = s" by (rule attempt_idle) (use m(1) in simp)
  then have "hub_second K cfg now s = s5"
    using K by (simp add: hub_second_turns bench_fits_def system_run_def s1_def [symmetric] s2_def [symmetric] s3_def [symmetric]
        s4_def [symmetric] s5_def [symmetric] del: system_turn.simps)
  then show ?thesis using s5 by simp
qed

text \<open>The packet of the node is on the bus when the radio task has had its turn.\<close>

lemma node_is_heard:
  assumes "bench_fits K cfg" "hub_idle (view_hub pending (bw_hub s))" "hub_fit ok (bw_hub s)" "length p \<le> 256"
  shows "\<exists>h rssi snr. node_sends K p s = (Inr \<lparr>hr_version = PROTOCOL_VERSION, hr_id = RTxComplete, hr_payload = []\<rparr>, s\<lparr>bw_hub := h\<rparr>)
    \<and> view_hub pending h = (view_hub pending (bw_hub s))\<lparr>hv_unread := [Unsolicited (RxPacket p rssi snr)]\<rparr> \<and> hub_fit ok h"
proof -
  obtain l r where r: "lt_radio (hy_lora (bw_hub s)) = (l, r)" by force
  then have "ok r" using assms(3) by (simp add: hub_fit_def)
  from hears_packet [OF this assms(4), of RX_POLL_INTERVAL_MS] obtain w r' rssi snr r'' where
    h: "wait_rx_event R RX_POLL_INTERVAL_MS (snd (arm_receive R (hears p r))) = (Inr w, r')"
      "read_packet R r' = (Inr \<lparr>rx_data = p, rx_rssi = rssi, rx_snr = snr\<rparr>, r'')" "ok r''" by blast
  have "hv_unread (view_hub pending (bw_hub s)) = []" using assms(2) by (simp add: hub_idle_def)
  then show ?thesis using assms(1,3) r h
    by (auto simp: node_sends_def bench_fits_def hub_idle_def view_hub_def hub_fit_def Let_def radio_turn_def lora_turn_def radio_of_def
        commands_of_def set_commands_def tapped_simps case_prod_beta publish_packet_def intro!: exI [of _ rssi] exI [of _ snr])
qed

lemma first_second:
  assumes "bench_fits K cfg" "mqtt_host (cfg_mqtt cfg) \<noteq> []" "resolve_host (su_dns K) (mqtt_host (cfg_mqtt cfg)) = Some a"
    and "su_tcp K (a, mqtt_port (cfg_mqtt cfg)) = Some c" "pending c = []" "length (resolve_client_id cfg (su_device K)) \<le> 65535"
    and v: "hv_pending (view_hub pending s) = None" "hub_idle ((view_hub pending s)\<lparr>hv_pending := Some []\<rparr>)" "hub_fit ok s"
  shows "view_hub pending (hub_second K cfg now s) = (view_hub pending s)\<lparr>hv_pending := Some [],
      hv_pubs := hv_pubs (view_hub pending s) @ [(ts_status (new_topics (su_device K)), status_json (su_json K) True (Some fw_version), True)],
      hv_links := (fst (hv_links (view_hub pending s)), link_state_byte Connected)\<rparr>
    \<and> hub_fit ok (hub_second K cfg now s)"
proof -
  define s1 where "s1 = system_turn (su_json K) (su_lora_tx K) L cfg (su_device K) (logged_radio R) (MqttSide (Attempt (su_dns K) (su_tcp K))) s"
  have "mt_client (hy_mqtt s) = None" using v(1) by (simp add: view_hub_def Let_def)
  from attempt_opens [where cfg = cfg and d = "su_dns K" and t = "su_tcp K" and i = "su_device K",
      OF this assms(2-5) _ assms(6)] assms(1) v(3)
  have s1: "view_hub pending s1 = (view_hub pending s)\<lparr>hv_pending := Some [],
      hv_pubs := hv_pubs (view_hub pending s) @ [(ts_status (new_topics (su_device K)), status_json (su_json K) True (Some fw_version), True)],
      hv_links := (fst (hv_links (view_hub pending s)), link_state_byte Connected)\<rparr>" "hub_fit ok s1"
    unfolding s1_def by (simp_all add: bench_fits_def del: system_turn.simps)
  moreover have "hub_idle (view_hub pending s1)" using s1(1) v(2) by (simp add: hub_idle_def)
  ultimately show ?thesis using rest_of_second [OF assms(1), of s1 now] assms(1)
    by (simp add: hub_second_turns bench_fits_def s1_def [symmetric] del: system_turn.simps)
qed

text \<open>The test, part by part.\<close>

definition stage_ready :: "('c, 'r, 'f, 't) bridge_setup \<Rightarrow> hub_config \<Rightarrow> 'f hub_ctrl \<Rightarrow> nat \<Rightarrow> ('c, 'r, 'f) bridge_world \<Rightarrow> bool" where
  "stage_ready K cfg st now s \<longleftrightarrow> bw_filter s = Some (hub_topic (id_of (su_device K)) (lit ''/'')) \<and> bw_given s = length (hub_publications s)
     \<and> bw_inbox s = [] \<and> bw_heard s = 0 \<and> bw_now s = now \<and> bw_config s = cfg \<and> bw_ctrl s = st
     \<and> hub_idle (view_hub pending (bw_hub s)) \<and> hub_fit ok (bw_hub s) \<and> on_air s = []"

definition booted :: "('c, 'r, 'f, 't) bridge_setup \<Rightarrow> hub_config \<Rightarrow> 'f hub_ctrl \<Rightarrow> ('c, 'r, 'f) bridge_world \<Rightarrow> bool" where
  "booted K cfg st s \<longleftrightarrow> (\<exists>r. ok r \<and> bw_hub s = bench_boot K cfg ([], r)) \<and> bw_config s = cfg \<and> bw_ctrl s = st
     \<and> bw_heard s = 0 \<and> bw_now s = 0"

lemma seen_in_view:
  "hub_publications s = hv_pubs (view_hub pending (bw_hub s))" "on_air s = hv_air (view_hub pending (bw_hub s))"
  "links s = hv_links (view_hub pending (bw_hub s))"
  by (simp_all add: hub_publications_def on_air_def links_def view_hub_def Let_def)

lemma boot_view:
  assumes "bench_fits K cfg" "mqtt_host (cfg_mqtt cfg) \<noteq> []" "booted K cfg st s"
  shows "hv_pending (view_hub pending (bw_hub s)) = None" "hub_idle ((view_hub pending (bw_hub s))\<lparr>hv_pending := Some []\<rparr>)"
    "hub_fit ok (bw_hub s)" "hv_pubs (view_hub pending (bw_hub s)) = []" "hv_air (view_hub pending (bw_hub s)) = []"
    "hv_links (view_hub pending (bw_hub s)) = (CONNECTED, 0)"
  using assms works_start
  by (auto simp: booted_def bench_boot_def system_boot_def mqtt_boot_def lora_start_def view_hub_def hub_idle_def hub_fit_def on_stats_def
      Let_def bench_fits_def tapped_simps new_bridge_def set_wifi_state_def new_stats_def CONNECTED_def)

lemma comes_online:
  assumes "bench_fits K cfg" "bench_ready pending K cfg" "booted K cfg st s"
  shows "\<exists>s'. wait_online (bridge_bench K) s = Some (Inr (id_of (su_device K)), s')
    \<and> hub_publications s' = [(ts_status (new_topics (su_device K)), status_json (su_json K) True (Some fw_version), True)]
    \<and> hub_idle (view_hub pending (bw_hub s')) \<and> hub_fit ok (bw_hub s') \<and> on_air s' = [] \<and> bw_heard s' = 0 \<and> bw_now s' = 2000
    \<and> bw_config s' = cfg \<and> bw_ctrl s' = st"
proof -
  have host: "mqtt_host (cfg_mqtt cfg) \<noteq> []" using assms(2) by (simp add: bench_ready_def)
  obtain a c where net: "resolve_host (su_dns K) (mqtt_host (cfg_mqtt cfg)) = Some a"
    "su_tcp K (a, mqtt_port (cfg_mqtt cfg)) = Some c" "pending c = []"
    "length (resolve_client_id cfg (su_device K)) \<le> 65535"
    using assms(2) by (auto simp: bench_ready_def split: option.splits)
  note boot = boot_view [OF assms(1) host assms(3)]
  define s1 where "s1 = second K s"
  define s2 where "s2 = second K s1"
  have now: "bw_now s = 0" "bw_ctrl s = st" "bw_heard s = 0" "bw_config s = cfg" using assms(3) by (simp_all add: booted_def)
  from first_second [OF assms(1) host net(1-4) boot(1-3), of 0] boot now(1,4)
  have s1: "hub_publications s1 = [(ts_status (new_topics (su_device K)), status_json (su_json K) True (Some fw_version), True)]"
    "hub_idle (view_hub pending (bw_hub s1))" "hub_fit ok (bw_hub s1)" "on_air s1 = []" "links s1 = (CONNECTED, CONNECTED)"
    by (simp_all add: s1_def second_frame seen_in_view hub_idle_def CONNECTED_def)
  from second_idle [OF assms(1) s1(2,3), of "of_nat (bw_now s1)"]
  have v: "view_hub pending (bw_hub s2) = view_hub pending (bw_hub s1)" "hub_fit ok (bw_hub s2)"
    using now(4) by (simp_all add: s2_def s1_def second_frame)
  have "online_loop (bridge_bench K) 90000 s = online_loop (bridge_bench K) 90000 s2" unfolding s2_def s1_def
    by (rule online_later) (simp_all add: seen_in_view boot(6) now CONNECTED_def)
  also have "\<dots> = Some (Inr (), s2)" by (rule online_now) (use s1(5) v in \<open>simp add: seen_in_view\<close>)
  finally have "wait_online (bridge_bench K) s = Some (Inr (id_of (su_device K)), s2)"
    by (simp add: wait_online_def followed_def bridge_ops now usb_names_hub del: hub_id_of.simps)
  then show ?thesis using s1 v now by (simp add: seen_in_view second_frame s2_def s1_def)
qed

lemma stage_set:
  assumes "bench_fits K cfg" "bench_ready pending K cfg"
    and "hub_publications s = [(ts_status (new_topics (su_device K)), status_json (su_json K) True (Some fw_version), True)]"
    and "hub_idle (view_hub pending (bw_hub s))" "hub_fit ok (bw_hub s)" "on_air s = []" "bw_heard s = 0" "bw_now s = now" "bw_config s = cfg" "bw_ctrl s = st"
  shows "\<exists>s1 s2. client_step (subscribe (bridge_bench K) (hub_topic (id_of (su_device K)) (lit ''/#''))) s = Some (Inr (), s1)
    \<and> wait_for_message (bridge_bench K) (hub_topic (id_of (su_device K)) (lit ''/status'')) 10 s1 = Some (Inr (status_json (su_json K) True (Some fw_version)), s2)
    \<and> stage_ready K cfg st now s2"
proof -
  let ?i = "id_of (su_device K)" and ?j = "status_json (su_json K) True (Some fw_version)"
  have t: "ts_status (new_topics (su_device K)) = hub_topic ?i (lit ''/status'')" "json_ok (su_json K)"
    using bench_topics assms(2) by (auto simp: bench_ready_def)
  define s1 where "s1 = s\<lparr>bw_filter := Some (hub_topic ?i (lit ''/'')), bw_inbox := [(hub_topic ?i (lit ''/status''), ?j)], bw_given := 1\<rparr>"
  have "client_step (subscribe (bridge_bench K) (hub_topic ?i (lit ''/#''))) s = Some (Inr (), s1)"
    by (simp add: client_step_def bridge_bench_def bench_subscribe_def assms(3) t under_def s1_def hub_topic_def butlast_append Let_def)
  moreover have "bench_next K s1 = (Some (Incoming (hub_topic ?i (lit ''/status'')) ?j), s1\<lparr>bw_inbox := []\<rparr>)"
    by (rule note_waits) (simp add: s1_def)
  then have "wait_for_message (bridge_bench K) (hub_topic ?i (lit ''/status'')) 10 s1 = Some (Inr (utf8_lossy ?j), s1\<lparr>bw_inbox := []\<rparr>)"
    by (intro wait_found) (simp add: bridge_bench_def)
  moreover have "stage_ready K cfg st now (s1\<lparr>bw_inbox := []\<rparr>)"
    using assms by (simp add: stage_ready_def s1_def hub_publications_def on_air_def)
  ultimately show ?thesis using status_text(1) [OF t(2)] by metis
qed

lemma uplink_part:
  assumes K: "bench_fits K cfg" "bench_ready pending K cfg" and st: "stage_ready K cfg st now s"
  shows "\<exists>s'. uplink_checks (bridge_bench K) (id_of (su_device K)) s = Some (Inr (), s') \<and> stage_ready K cfg st (now + 1000) s'"
proof -
  let ?i = "id_of (su_device K)" and ?B = "bridge_bench K" and ?v = "view_hub pending (bw_hub s)"
  have ready: "json_ok (su_json K)" "13 \<le> max_payload (su_json K)" "length (su_device K) = 3"
    using K(2) by (simp_all add: bench_ready_def ping_def)
  have idle: "hub_idle ?v" "hub_fit ok (bw_hub s)" using st by (simp_all add: stage_ready_def)
  obtain h rssi snr where sent: "node_sends K ping s = (Inr \<lparr>hr_version = PROTOCOL_VERSION, hr_id = RTxComplete, hr_payload = []\<rparr>, s\<lparr>bw_hub := h\<rparr>)"
    and h: "view_hub pending h = ?v\<lparr>hv_unread := [Unsolicited (RxPacket ping rssi snr)]\<rparr>" "hub_fit ok h"
    using node_is_heard [OF K(1) idle, of ping] by (auto simp: ping_def)
  have "hub_idle ((view_hub pending h)\<lparr>hv_unread := []\<rparr>)" using idle(1) h(1) by (simp add: hub_idle_def)
  from second_uplink [OF K(1) this h(2), of ping rssi snr "of_nat now"] obtain n where
    n: "view_hub pending (hub_second K cfg (of_nat now) h) = (view_hub pending h)\<lparr>hv_unread := [], hv_pubs := hv_pubs (view_hub pending h) @
        [(hub_topic ?i (lit ''/rx''), uplink_json (su_json K) ping rssi snr n (of_nat now), False)]\<rparr>"
      "hub_fit ok (hub_second K cfg (of_nat now) h)"
    using h(1) bench_topics [OF ready(3)] by auto
  let ?j = "uplink_json (su_json K) ping rssi snr n (of_nat now)"
  define s1 where "s1 = s\<lparr>bw_hub := h\<rparr>"
  define s2 where "s2 = (second K s1)\<lparr>bw_inbox := []\<rparr>"
  have s1: "bw_filter s1 = Some (hub_topic ?i (lit ''/''))" "bw_given s1 = length (hub_publications s1)" "bw_inbox s1 = []" "bw_now s1 = now" "bw_config s1 = cfg"
    using st h(1) by (simp_all add: s1_def stage_ready_def seen_in_view)
  have "publishes (mt_log (hy_mqtt (hub_second K (bw_config s1) (of_nat (bw_now s1)) (bw_hub s1)))) = hub_publications s1 @ [(hub_topic ?i (lit ''/rx''), ?j, False)]"
    using n(1) s1(4,5) by (simp add: s1_def seen_in_view view_hub_def Let_def)
  from second_inbox [OF s1(1,2) this under_topics(2)] s1(3)
  have box: "bw_inbox (second K s1) = [(hub_topic ?i (lit ''/rx''), ?j)]" "bw_given (second K s1) = length (hub_publications (second K s1))"
    by simp_all
  have "bench_next K s1 = (Some (Incoming (hub_topic ?i (lit ''/rx'')) ?j), s2)" unfolding s2_def by (rule note_comes) (use s1(3) box(1) in simp_all)
  then have heard: "wait_for_message ?B (hub_topic ?i (lit ''/rx'')) 30 s1 = Some (Inr ?j, s2)"
    using wait_found [where B = ?B] packet_text(1) [OF ready(1,2)] by (metis bridge_ops(9))
  obtain x where x: "host_step (send_node ?B ping) s = Some (Inr x, s1)" "hr_id x = RTxComplete"
    using sent by (simp add: host_step_def bridge_ops s1_def)
  have "host_step (open_node ?B) s = Some (Inr (), s)" by (simp add: host_step_def bridge_ops)
  note opened = followed_Inr [where m = "host_step (open_node ?B)" and s = s, OF this]
  note pinged = followed_Inr [where m = "host_step (send_node ?B ping)" and s = s, OF x(1)]
  note came = followed_Inr [where m = "wait_for_message ?B (hub_topic ?i (lit ''/rx'')) 30" and s = s1, OF heard]
  have "uplink_checks ?B ?i s = Some (Inr (), s2)"
    unfolding uplink_checks_def
    by (simp only: opened pinged came followed_ensured [OF x(2)] followed_ensured [OF packet_text(2) [OF ready(1,2)]])
      (simp only: ensured_def packet_text(3) [OF ready(1,2)] if_True)
  moreover have "stage_ready K cfg st (now + 1000) s2"
    using st s1 h n idle(1) box(2)
    by (simp add: stage_ready_def s2_def second_frame seen_in_view) (simp add: s1_def hub_idle_def)
  ultimately show ?thesis by blast
qed

lemma publish_reaches_hub:
  assumes K: "bench_fits K cfg" and st: "stage_ready K cfg st now s"
  shows "\<exists>s'. bench_publish K (hub_topic (id_of (su_device K)) (lit ''/tx'')) m s = (True, s')
    \<and> view_hub pending (bw_hub s') = (view_hub pending (bw_hub s))\<lparr>hv_pending := Some [(ts_tx (new_topics (su_device K)), m)]\<rparr>
    \<and> hub_fit ok (bw_hub s') \<and> bw_inbox s' = [(hub_topic (id_of (su_device K)) (lit ''/tx''), m)] \<and> bw_filter s' = bw_filter s
    \<and> bw_given s' = bw_given s \<and> bw_now s' = now \<and> bw_config s' = cfg \<and> bw_ctrl s' = st \<and> bw_heard s' = 0"
proof -
  have t: "hub_topic (id_of (su_device K)) (lit ''/tx'') = ts_tx (new_topics (su_device K))"
    using K by (simp only: bench_fits_def bench_topics)
  obtain c where "mt_client (hy_mqtt (bw_hub s)) = Some c" "pending c = []"
    using st by (auto simp: stage_ready_def hub_idle_def view_hub_def Let_def)
  moreover have "under (hub_topic (id_of (su_device K)) (lit ''/'')) (ts_tx (new_topics (su_device K)))"
    unfolding t [symmetric] by (rule under_topics)
  ultimately show ?thesis using K st unfolding t
    by (simp add: bench_publish_def Let_def stage_ready_def informed bench_fits_def view_hub_def hub_fit_def)
qed

lemma downlink_part:
  assumes K: "bench_fits K cfg" "bench_ready pending K cfg" and st: "stage_ready K cfg st now s" and time: "now < 3540000"
  shows "\<exists>s'. downlink_checks (bridge_bench K) (id_of (su_device K)) s = Some (Inr (), s') \<and> bw_ctrl s' = st"
proof -
  let ?i = "id_of (su_device K)" and ?B = "bridge_bench K" and ?v = "view_hub pending (bw_hub s)"
  let ?j = "tx_result_json (su_json K) (lit ''sent'') (Some 7) None"
  have ready: "json_ok (su_json K)" "length (su_device K) = 3" "su_lora_tx K pong = Inr (LoraTx pong)" using K(2) by (simp_all add: bench_ready_def)
  obtain s1 where s1: "bench_publish K (hub_topic ?i (lit ''/tx'')) pong_request s = (True, s1)"
    "view_hub pending (bw_hub s1) = ?v\<lparr>hv_pending := Some [(ts_tx (new_topics (su_device K)), pong_request)]\<rparr>" "hub_fit ok (bw_hub s1)"
    "bw_inbox s1 = [(hub_topic ?i (lit ''/tx''), pong_request)]" "bw_filter s1 = bw_filter s" "bw_given s1 = bw_given s"
    "bw_now s1 = now" "bw_ctrl s1 = st" "bw_heard s1 = 0" "bw_config s1 = cfg"
    using publish_reaches_hub [OF K(1) st, of pong_request] by blast
  have "hub_idle ((view_hub pending (bw_hub s1))\<lparr>hv_pending := Some []\<rparr>)" using st s1(2) by (simp add: stage_ready_def hub_idle_def)
  moreover have "hv_pending (view_hub pending (bw_hub s1)) = Some [(ts_tx (new_topics (su_device K)), pong_request)]" by (simp add: s1(2))
  moreover have "length pong_request \<le> MAX_JSON" by (simp add: pong_request_def hub_hex_texts MAX_JSON_def)
  moreover have "su_lora_tx K (dl_payload \<lparr>dl_payload = pong, dl_id = Some 7\<rparr>) = Inr (LoraTx pong)" using ready(3) by simp
  moreover have "pong \<noteq> []" "length pong \<le> 255" by (simp_all add: pong_def)
  moreover have "unat (of_nat now :: u64) < 3540000" using time by (simp add: unat_of_nat)
  ultimately have v: "view_hub pending (hub_second K cfg (of_nat now) (bw_hub s1)) = (view_hub pending (bw_hub s1))
      \<lparr>hv_pending := Some [], hv_air := hv_air (view_hub pending (bw_hub s1)) @ [pong], hv_pubs := hv_pubs (view_hub pending (bw_hub s1)) @
        [(hub_topic ?i (lit ''/tx/result''), ?j, False)]\<rparr>"
    using second_request [OF K(1) _ s1(3) _ _ pong_requested [OF K(2)], of pong "of_nat now"] bench_topics [OF ready(2)] by simp
  have air: "on_air s1 = []" "on_air (second K s1) = [pong]" using st s1 v by (simp_all add: seen_in_view second_frame stage_ready_def)
  have "publishes (mt_log (hy_mqtt (hub_second K (bw_config s1) (of_nat (bw_now s1)) (bw_hub s1)))) = hub_publications s1 @ [(hub_topic ?i (lit ''/tx/result''), ?j, False)]"
    using v s1(7,10) by (simp add: seen_in_view view_hub_def Let_def)
  from second_inbox [OF _ _ this under_topics(4)] st s1
  have box: "bw_inbox (second K s1) = [(hub_topic ?i (lit ''/tx''), pong_request), (hub_topic ?i (lit ''/tx/result''), ?j)]"
    by (simp add: stage_ready_def seen_in_view)
  define s2 where "s2 = (second K s1)\<lparr>bw_heard := 1\<rparr>"
  define s3 where "s3 = s2\<lparr>bw_inbox := [(hub_topic ?i (lit ''/tx/result''), ?j)]\<rparr>"
  define s4 where "s4 = s3\<lparr>bw_inbox := []\<rparr>"
  have "hear_loop 30 K pong s1 = (Inr \<lparr>hr_version = PROTOCOL_VERSION, hr_id = RRxPacket, hr_payload = pong @ [0, 0, 0]\<rparr>, s2)"
    using air s1(9) by (simp add: numeral_eq_Suc second_frame s2_def)
  then obtain x where heard: "host_step (hear_node ?B pong 30000) s1 = Some (Inr x, s2)" by (simp add: host_step_def bridge_ops)
  have asked: "client_step (publish_at ?B (hub_topic ?i (lit ''/tx'')) pong_request) s = Some (Inr (), s1)"
    by (simp only: client_step_def bridge_ops s1(1) Let_def prod.case if_True)
  have "bench_next K s2 = (Some (Incoming (hub_topic ?i (lit ''/tx'')) pong_request), s3)"
    unfolding s3_def by (rule note_waits) (use box in \<open>simp add: s2_def\<close>)
  moreover have "bench_next K s3 = (Some (Incoming (hub_topic ?i (lit ''/tx/result'')) ?j), s4)"
    unfolding s4_def by (rule note_waits) (simp add: s3_def)
  moreover have "hub_topic ?i (lit ''/tx'') \<noteq> hub_topic ?i (lit ''/tx/result'')" by (simp add: hub_topic_def)
  moreover have "bw_now s3 \<le> bw_now s2 + 10 * 1000" by (simp add: s3_def)
  ultimately have came: "wait_for_message ?B (hub_topic ?i (lit ''/tx/result'')) 10 s2 = Some (Inr (utf8_lossy ?j), s4)"
    using wait_skips [where B = ?B] by (metis bridge_ops(9,11))
  have "str_contains (utf8_lossy ?j) (lit ''\"result\":\"sent\"'') \<and> str_contains (utf8_lossy ?j) (lit ''\"id\":7'')"
    unfolding result_text [OF ready(1)] by (simp add: str_contains_def)
  note good = this
  note steps = followed_Inr [where m = "client_step (publish_at ?B (hub_topic ?i (lit ''/tx'')) pong_request)" and s = s, OF asked]
    followed_Inr [where m = "host_step (hear_node ?B pong 30000)" and s = s1, OF heard]
    followed_Inr [where m = "wait_for_message ?B (hub_topic ?i (lit ''/tx/result'')) 10" and s = s2, OF came]
  have "downlink_checks ?B ?i s = Some (Inr (), s4)"
    unfolding downlink_checks_def by (simp only: steps) (simp only: ensured_def good simp_thms if_True)
  moreover have "bw_ctrl s4 = st" using s1(8) by (simp add: s4_def s3_def s2_def second_frame)
  ultimately show ?thesis by blast
qed

text \<open>All of the checks, on a hub that has booted.\<close>

lemma checks_pass:
  assumes K: "bench_fits K cfg" "bench_ready pending K cfg" "booted K cfg st s"
  shows "\<exists>s'. hub_checks (bridge_bench K) secret s = Some
    (if secret = [] \<or> \<not> str_contains (response_layout (network_config_response (hc_pending st))) secret then Inr () else Inl PasswordLeaked, s')"
proof -
  let ?B = "bridge_bench K" and ?i = "id_of (su_device K)" and ?j = "status_json (su_json K) True (Some fw_version)"
  have J: "json_ok (su_json K)" using K(2) by (simp add: bench_ready_def)
  obtain s1 where online: "wait_online ?B s = Some (Inr ?i, s1)"
    and s1: "hub_publications s1 = [(ts_status (new_topics (su_device K)), ?j, True)]" "hub_idle (view_hub pending (bw_hub s1))"
      "hub_fit ok (bw_hub s1)" "on_air s1 = []" "bw_heard s1 = 0" "bw_now s1 = 2000" "bw_config s1 = cfg" "bw_ctrl s1 = st"
    using comes_online [OF K] by blast
  obtain s2 s3 where subscribed: "client_step (subscribe ?B (hub_topic ?i (lit ''/#''))) s1 = Some (Inr (), s2)"
    and status: "wait_for_message ?B (hub_topic ?i (lit ''/status'')) 10 s2 = Some (Inr ?j, s3)" and s3: "stage_ready K cfg st 2000 s3"
    using stage_set [OF K(1,2) s1] by blast
  obtain s4 where up: "uplink_checks ?B ?i s3 = Some (Inr (), s4)" and s4: "stage_ready K cfg st (2000 + 1000) s4"
    using uplink_part [OF K(1,2) s3] by blast
  obtain s5 where down: "downlink_checks ?B ?i s4 = Some (Inr (), s5)" and s5: "bw_ctrl s5 = st"
    using downlink_part [OF K(1,2) s4] by auto
  note steps = followed_Inr [where m = "wait_online ?B" and s = s, OF online]
    followed_Inr [where m = "client_step (subscribe ?B (hub_topic ?i (lit ''/#'')))" and s = s1, OF subscribed]
    followed_Inr [where m = "wait_for_message ?B (hub_topic ?i (lit ''/status'')) 10" and s = s2, OF status]
    followed_ensured [OF status_text(2) [OF J]]
    followed_Inr [where m = "uplink_checks ?B ?i" and s = s3, OF up] followed_Inr [where m = "downlink_checks ?B ?i" and s = s4, OF down]
  have "hub_checks ?B secret s = password_check ?B secret s5" unfolding hub_checks_def by (simp only: steps)
  also have "\<dots> = Some (if secret = [] \<or> \<not> str_contains (response_layout (network_config_response (hc_pending st))) secret
      then Inr () else Inl PasswordLeaked, s5)"
    by (simp add: password_check_def followed_def host_step_def bridge_ops ask_network ensured_def s5)
  finally show ?thesis by blast
qed

lemma test_outcome:
  assumes K: "su_radio K = R" "su_broker K = L" "su_inform K = inform" "su_hear K = hears" "ok r"
    and F: "flash_works (su_flash K) A" "hc_store st = Some x" "cfg_version (hc_pending st) = CONFIG_SCHEMA_VERSION"
    and args: "args_ok args" "\<not> ha_skip_provision args" "su_wifi K = \<lparr>ssid = ha_wifi_ssid args, password = ha_wifi_password args\<rparr>"
    and ready: "bench_ready pending K (provisioned args (hc_pending st))"
  shows "map_option fst (hub_test (bridge_bench K) args (bench_start K r st)) = Some
    (if ha_wifi_password args = [] \<or> \<not> str_contains (response_layout (network_config_response (provisioned args (hc_pending st)))) (ha_wifi_password args)
     then Inr () else Inl PasswordLeaked)"
proof -
  let ?B = "bridge_bench K" and ?s = "bench_start K r st" and ?c = "provisioned args (hc_pending st)"
  have st: "bw_ctrl ?s = st" by (simp add: bench_start_def)
  obtain y where y: "provision_hub ?B args ?s = Some (Inr (), ?s\<lparr>bw_ctrl := \<lparr>hc_store = Some y, hc_pending = ?c\<rparr>\<rparr>)"
    "stored_config A y = Some ?c"
    using provision_stores [OF F(1) _ args(1), of ?s] F(2) by (auto simp: st)
  define s1 where "s1 = ?s\<lparr>bw_ctrl := \<lparr>hc_store = Some y, hc_pending = ?c\<rparr>\<rparr>"
  have "cfg_version ?c = CONFIG_SCHEMA_VERSION" using F(3) by (simp add: provisioned_def)
  from restart_loads [OF F(1) _ y(2) this, of s1] obtain z where z: "bench_restart K s1 = (Inr (), s1\<lparr>
      bw_hub := bench_boot K ?c (lt_radio (hy_lora (bw_hub s1))), bw_config := ?c, bw_ctrl := \<lparr>hc_store = Some z, hc_pending = ?c\<rparr>,
      bw_given := 0, bw_now := 0\<rparr>)"
    by (auto simp: s1_def)
  define s2 where "s2 = snd (bench_restart K s1)"
  have "lt_radio (hy_lora (bw_hub s1)) = ([], snd (radio_init R r))"
    using K(1) by (simp add: s1_def bench_start_def bench_boot_def system_boot_def lora_start_def tapped_simps Let_def)
  moreover have "bw_heard s1 = 0" by (simp add: s1_def bench_start_def)
  ultimately have "booted K ?c \<lparr>hc_store = Some z, hc_pending = ?c\<rparr> s2"
    using works_start [OF K(5)] by (auto simp: booted_def s2_def z)
  moreover have "bench_fits K ?c" using K args(3) ready by (simp add: bench_fits_def bench_ready_def provisioned_def)
  ultimately obtain s3 where s3: "hub_checks ?B (ha_wifi_password args) s2 = Some (if ha_wifi_password args = []
      \<or> \<not> str_contains (response_layout (network_config_response ?c)) (ha_wifi_password args) then Inr () else Inl PasswordLeaked, s3)"
    using checks_pass [OF _ ready] by fastforce
  have restart: "host_step (restart_hub ?B) s1 = Some (Inr (), s2)" by (simp add: host_step_def bridge_ops z s2_def)
  have "hub_test ?B args ?s = hub_checks ?B (ha_wifi_password args) s2"
    using args(2) y(1) restart by (simp add: hub_test_def followed_def host_step_def [of "open_hub ?B"] bridge_ops s1_def)
  then show ?thesis by (simp add: s3)
qed

end

interpretation mock_bridge: bridge_parts "MockLoraRadio 256 now" tx_history
  "\<lambda>m. next_tx_error m = None \<and> next_rx_error m = None \<and> next_configure_error m = None \<and> rx_queue m = []"
  "\<lambda>p. queue_rx_packet \<lparr>rx_data = p, rx_rssi = - 60, rx_snr = 9\<rparr>" queue_broker "\<lambda>c. c" "\<lambda>t m c. c @ [(t, m)]"
  by (intro bridge_parts.intro mock_hears.hearing_radio_axioms queue_works.working_broker_axioms)

subsection \<open>The property\<close>

text \<open>
  C40. The bridge passes its test, from the settings typed on the host to packets and messages in both
  directions. On a bench whose radio, broker and flash work, with the network and the broker of the
  arguments in reach, the settings are stored, the hub restarts with them and comes online; its status is
  retained, the packet of the node is published with its payload, the request at the broker goes on the air
  and is answered with its identifier. The test ends without an error exactly when the password does
  not occur in the bytes of the configuration the hub shows.
\<close>

theorem bridge_passes_its_test:
  assumes "bridge_parts (su_radio K) sent ok (su_hear K) (su_broker K) pending (su_inform K)" and "ok r"
    and "flash_works (su_flash K) A" and "hc_store st = Some x" and "cfg_version (hc_pending st) = CONFIG_SCHEMA_VERSION"
    and "args_ok args" and "\<not> ha_skip_provision args"
    and "su_wifi K = \<lparr>ssid = ha_wifi_ssid args, password = ha_wifi_password args\<rparr>"
    and "bench_ready pending K (provisioned args (hc_pending st))"
  shows "map_option fst (hub_test (bridge_bench K) args (bench_start K r st)) = Some
    (if ha_wifi_password args = [] \<or> \<not> str_contains (response_layout (network_config_response (provisioned args (hc_pending st)))) (ha_wifi_password args)
     then Inr () else Inl PasswordLeaked)"
  by (rule bridge_parts.test_outcome [OF assms(1) refl refl refl refl assms(2-9)])

text \<open>A bench of the mock radio, a broker at 10.0.0.7 and a flash that holds one configuration.\<close>

definition steady_flash :: "(hub_config option, unit) flash" where
  "steady_flash =
     \<lparr>read_partition_table = (\<lambda>f. Some ()), find_nvs = (\<lambda>t. Inr (Some (0x9000, 0x6000))), range_valid = (\<lambda>r. True),
      fetch_item = (\<lambda>f r k. (Inr f, f)), store_item = (\<lambda>f r k c. (True, Some c)), remove_item = (\<lambda>f r k. (True, None))\<rparr>"

definition sample_args :: "rtext \<Rightarrow> hub_args" where
  "sample_args secret = \<lparr>ha_wifi_ssid = lit ''hunter22home'', ha_wifi_password = secret, ha_broker_host = lit ''10.0.0.7'',
     ha_broker_port = 1883, ha_skip_provision = False\<rparr>"

definition sample_setup :: "rtext \<Rightarrow> ((rtext \<times> bytes) list, mock_radio, hub_config option, unit) bridge_setup" where
  "sample_setup secret =
     \<lparr>su_json = sample_json\<lparr>downlink_from_slice := (\<lambda>b. if b = pong_request then Some \<lparr>down_payload_hex = hub_hex pong, down_id = Some 7\<rparr> else None)\<rparr>,
      su_lora_tx = (\<lambda>bs. Inr (LoraTx bs)), su_broker = queue_broker, su_inform = (\<lambda>t m c. c @ [(t, m)]),
      su_wifi = \<lparr>ssid = lit ''hunter22home'', password = secret\<rparr>, su_device = [0xA1, 0xB2, 0xC3], su_radio = MockLoraRadio 256 0,
      su_hear = (\<lambda>p. queue_rx_packet \<lparr>rx_data = p, rx_rssi = - 60, rx_snr = 9\<rparr>), su_dns = (\<lambda>_. None), su_tcp = (\<lambda>_. Some []),
      su_flash = steady_flash, su_env = sample_env\<rparr>"

definition sample_board :: "hub_config option hub_ctrl" where
  "sample_board = \<lparr>hc_store = Some \<lparr>cs_range = (0x9000, 0xF000), cs_flash = None\<rparr>, hc_pending = sample_config\<rparr>"

lemma sample_setup_ready:
  "flash_works steady_flash (\<lambda>f r. f)" "bench_ready (\<lambda>c. c) (sample_setup secret) (provisioned (sample_args secret) c)"
  by (simp_all add: flash_works_def flash_ok_def steady_flash_def bench_ready_def sample_setup_def sample_args_def provisioned_def
      ping_def sample_json_def json_ok_def sample_host [simplified] resolve_client_id_def push_cap_def extend_cap_def)

theorem bridge_passes_its_test_witness:
  "map_option fst (hub_test (bridge_bench (sample_setup (lit ''hunter22''))) (sample_args (lit ''hunter22'')) (bench_start (sample_setup (lit ''hunter22'')) new_mock sample_board))
     = Some (Inl PasswordLeaked)
   \<and> map_option fst (hub_test (bridge_bench (sample_setup (lit ''wonderland''))) (sample_args (lit ''wonderland''))
       (bench_start (sample_setup (lit ''wonderland'')) new_mock sample_board)) = Some (Inr ())"
proof -
  have run: "map_option fst (hub_test (bridge_bench (sample_setup p)) (sample_args p) (bench_start (sample_setup p) new_mock sample_board)) = Some
      (if p = [] \<or> \<not> str_contains (response_layout (network_config_response (provisioned (sample_args p) (hc_pending sample_board)))) p
       then Inr () else Inl PasswordLeaked)" if p: "text_ok MAX_PASSWORD_LEN p" for p
  proof -
    have "bridge_parts (su_radio (sample_setup p)) tx_history
        (\<lambda>m. next_tx_error m = None \<and> next_rx_error m = None \<and> next_configure_error m = None \<and> rx_queue m = [])
        (su_hear (sample_setup p)) (su_broker (sample_setup p)) (\<lambda>c. c) (su_inform (sample_setup p))"
      using mock_bridge.bridge_parts_axioms [of 0] by (simp add: sample_setup_def)
    from bridge_passes_its_test [OF this, where r = new_mock and A = "\<lambda>f r. f" and st = sample_board and args = "sample_args p"
        and x = "\<lparr>cs_range = (0x9000, 0xF000), cs_flash = None\<rparr>"]
    show ?thesis using sample_setup_ready p
      by (simp add: new_mock_def sample_board_def sample_config_def CONFIG_SCHEMA_VERSION_def sample_args_def args_ok_def wifi_ok_def mqtt_ok_def text_ok_def
          text_limits sample_setup_def)
  qed
  show ?thesis
    using run [of "lit ''hunter22''"] run [of "lit ''wonderland''"]
    by (simp add: str_contains_def text_ok_def text_limits sample_board_def sample_config_def sample_args_def provisioned_def
        network_config_response_def str_bytes_def gateway_prefix_bytes_def default_gateway_def to_le16_def to_le32_def)
qed

end
