(* ===== verification/Radio_Unit_Tests.thy ===== *)
theory Radio_Unit_Tests imports Lora_Traits Duty_Cycle Airtime begin

text \<open>
  The unit tests of the duty-cycle limiter (\<open>src/lora/duty_cycle.rs\<close>), the airtime
  (\<open>src/lora/airtime.rs\<close>), the calibration tables (\<open>src/lora/calibration.rs\<close>) and the mock radio
  (\<open>src/lora/traits.rs\<close>), as booleans, and that the model passes them. Runs of claims are computed on the
  window the limiter refines.
\<close>

subsection \<open>Duty cycle\<close>

definition ten_percent_limiter :: duty_limiter where
  "ten_percent_limiter = for_frequency 869525000"

text \<open>Which claims of a sequence are granted, and the limiter after them.\<close>

fun claims :: "duty_limiter \<Rightarrow> (u64 \<times> u32) list \<Rightarrow> bool list \<times> duty_limiter" where
  "claims d [] = ([], d)"
| "claims d ((now_ms, a) # cs) =
     (let (r, d) = try_claim d now_ms a; (rs, d) = claims d cs in (is_ok r # rs, d))"

definition hint :: "duty_limiter \<Rightarrow> u64 \<Rightarrow> u32 \<Rightarrow> u64 option option" where
  "hint d now_ms a = (case fst (try_claim d now_ms a) of Inl e \<Rightarrow> Some (retry_after_ms e) | Inr _ \<Rightarrow> None)"

definition sub_band_limits_match_erc_70_03 :: bool where
  "sub_band_limits_match_erc_70_03 \<longleftrightarrow>
     eu_duty_cycle_permille 869525000 = Some 100 \<and> eu_duty_cycle_permille 868100000 = Some 10
   \<and> eu_duty_cycle_permille 868900000 = Some 1 \<and> eu_duty_cycle_permille 869850000 = Some 10
   \<and> eu_duty_cycle_permille 864000000 = Some 1 \<and> eu_duty_cycle_permille 433500000 = Some 100
   \<and> eu_duty_cycle_permille 915000000 = None"

definition default_frequency_allows_360_seconds_per_hour :: bool where
  "default_frequency_allows_360_seconds_per_hour \<longleftrightarrow>
     (let (rs, d) = claims ten_percent_limiter [(0, 360000)] in rs = [True] \<and> spent_ms d = 360000)"

definition claim_beyond_allowance_is_refused_and_not_charged :: bool where
  "claim_beyond_allowance_is_refused_and_not_charged \<longleftrightarrow>
     (let (rs, d) = claims ten_percent_limiter [(0, 350000)]
      in rs = [True] \<and> hint d 1000 20000 \<notin> {None, Some None} \<and> spent_ms (snd (try_claim d 1000 20000)) = 350000)"

definition budget_frees_after_the_window_passes :: bool where
  "budget_frees_after_the_window_passes \<longleftrightarrow>
     fst (claims ten_percent_limiter [(0, 360000), (1000, 1), (61 * 60000, 360000)]) = [True, False, True]"

definition retry_hint_points_at_budget_release :: bool where
  "retry_hint_points_at_budget_release \<longleftrightarrow>
     (let (rs, d) = claims ten_percent_limiter [(0, 360000)]
      in rs = [True] \<and> hint d (30 * 60000) 7000 = Some (Some (30 * 60000)))"

definition spending_spread_over_time_expires_incrementally :: bool where
  "spending_spread_over_time_expires_incrementally \<longleftrightarrow>
     fst (claims ten_percent_limiter [(0, 180000), (30 * 60000, 180000), (31 * 60000, 5000), (61 * 60000, 5000),
       (62 * 60000, 180000), (91 * 60000, 175000)]) = [True, True, False, True, False, True]"

definition packet_larger_than_hourly_allowance_is_never_sendable :: bool where
  "packet_larger_than_hourly_allowance_is_never_sendable \<longleftrightarrow> hint (for_frequency 868900000) 0 7000 = Some None"

definition non_eu_band_is_unlimited :: bool where
  "non_eu_band_is_unlimited \<longleftrightarrow>
     fst (claims (for_frequency 915000000) (map (\<lambda>i. (of_nat i * 1000, 360000)) [0..<100])) = replicate 100 True"

definition long_idle_resets_the_window :: bool where
  "long_idle_resets_the_window \<longleftrightarrow>
     fst (claims ten_percent_limiter [(0, 360000), (72 * 3600000, 360000)]) = [True, True]"

text \<open>The same runs on the window: its buckets, and the start of the current one.\<close>

fun window_claims :: "nat list \<Rightarrow> nat \<Rightarrow> (nat \<times> nat) list \<Rightarrow> bool list" where
  "window_claims w h [] = []"
| "window_claims w h ((t, a) # cs) =
     (let m = (t - h) div 60000; (granted, w) = spec_claim 360000 w m a
      in granted # window_claims w (if 60 \<le> m then t else h + m * 60000) cs)"

fun ordered_from :: "nat \<Rightarrow> (nat \<times> nat) list \<Rightarrow> bool" where
  "ordered_from h [] = True"
| "ordered_from h ((t, a) # cs) = (h \<le> t \<and> a \<le> 360000 \<and> ordered_from t cs)"

lemma ordered_weaken: "ordered_from t cs \<Longrightarrow> h \<le> t \<Longrightarrow> ordered_from h cs"
  by (cases cs) auto

lemma claims_refine:
  assumes "limiter_ok d" "allowance_ms d = Some 360000" "ordered_from (unat (head_start_ms d)) (map (\<lambda>(t, a). (unat t, unat a)) cs)"
  shows "fst (claims d cs) = window_claims (window d) (unat (head_start_ms d)) (map (\<lambda>(t, a). (unat t, unat a)) cs)"
  using assms
proof (induction cs arbitrary: d)
  case (Cons c cs)
  obtain t a where c: "c = (t, a)" by force
  obtain r d' where d': "try_claim d t a = (r, d')" by force
  let ?m = "minutes_since d t"
  have le: "head_start_ms d \<le> t" and a: "unat a \<le> 360000" using Cons.prems(3) by (simp_all add: c word_le_nat_alt)
  have sp: "(is_ok r, window d') = spec_claim 360000 (window d) ?m (unat a)"
    using try_claim_spec [OF Cons.prems(1,2), of t a] by (simp add: d')
  have ok: "limiter_ok d'" "allowance_ms d' = Some 360000"
    using limiter_ok_try_claim [OF Cons.prems(1), of t a] try_claim_frame(3) [OF Cons.prems(1), of t a] Cons.prems(2) by (simp_all add: d')
  have "\<not> (360000 :: u32) < a" using a by (simp add: word_less_nat_alt)
  then have h: "unat (head_start_ms d') = (if 60 \<le> ?m then unat t else unat (head_start_ms d) + ?m * 60000)"
    using try_claim_frame(4) [OF Cons.prems(1), of t a] Cons.prems(2) advance_head_start [OF limiter_ok_dims [OF Cons.prems(1)] le]
    by (simp add: d')
  have "unat (head_start_ms d') \<le> unat t"
    using try_claim_start [OF Cons.prems(1) le, of a] by (simp add: d' word_le_nat_alt)
  then have "ordered_from (unat (head_start_ms d')) (map (\<lambda>(t, a). (unat t, unat a)) cs)"
    using Cons.prems(3) ordered_weaken by (auto simp: c)
  from Cons.IH [OF ok this] show ?case
    using sp h by (simp add: c d' case_prod_beta minutes_since_def Let_def prod_eq_iff)
qed simp

lemma fresh_claims:
  assumes "ordered_from 0 (map (\<lambda>(t, a). (unat t, unat a)) cs)"
  shows "fst (claims ten_percent_limiter cs) = window_claims (replicate 60 0) 0 (map (\<lambda>(t, a). (unat t, unat a)) cs)"
proof -
  have "window (for_frequency f) = replicate 60 0" for f
    by (rule nth_equalityI) (simp_all add: nth_window for_frequency_def BUCKET_COUNT_def)
  moreover have "allowance_ms ten_percent_limiter = Some 360000" "head_start_ms ten_percent_limiter = 0"
    by (simp_all add: ten_percent_limiter_def for_frequency_def eu_duty_cycle_permille_def in_band_def)
  ultimately show ?thesis using claims_refine [of ten_percent_limiter cs] assms limiter_ok_for_frequency
    by (simp add: ten_percent_limiter_def)
qed

lemma limiter_tests:
  "sub_band_limits_match_erc_70_03" "default_frequency_allows_360_seconds_per_hour"
  "claim_beyond_allowance_is_refused_and_not_charged" "packet_larger_than_hourly_allowance_is_never_sendable"
  by code_simp+

lemma update_last:
  assumes "Suc n = m"
  shows "(replicate m c)[n := x] = replicate n c @ [x]"
proof -
  have "replicate m c = replicate n c @ [c]" using assms by (metis replicate_Suc replicate_append_same)
  then show ?thesis by (simp add: list_update_append)
qed

lemmas window_simps = spec_claim_def slide_def update_last list_update_append nth_append sum_list_replicate Let_def

text \<open>The window of the run with two large packets half an hour apart, claim by claim.\<close>

lemma spread_run:
  "spec_claim 360000 (replicate 60 0) 0 180000 = (True, replicate 59 0 @ [180000])"
  "spec_claim 360000 (replicate 59 0 @ [180000]) 30 180000 = (True, replicate 29 0 @ 180000 # replicate 29 0 @ [180000])"
  "spec_claim 360000 (replicate 29 0 @ 180000 # replicate 29 0 @ [180000]) (Suc 0) 5000
     = (False, replicate 28 0 @ 180000 # replicate 29 0 @ [180000, 0])"
  "spec_claim 360000 (replicate 28 0 @ 180000 # replicate 29 0 @ [180000, 0]) 30 5000
     = (True, replicate 28 0 @ 180000 # 0 # replicate 29 0 @ [5000])"
  "spec_claim 360000 (replicate 28 0 @ 180000 # 0 # replicate 29 0 @ [5000]) (Suc 0) 180000
     = (False, replicate 27 0 @ 180000 # 0 # replicate 29 0 @ [5000, 0])"
  "spec_claim 360000 (replicate 27 0 @ 180000 # 0 # replicate 29 0 @ [5000, 0]) 29 175000
     = (True, replicate 29 0 @ 5000 # 0 # replicate 28 0 @ [175000])"
  by (simp_all add: window_simps)

lemma window_run:
  assumes "spec_claim 360000 w m a = (granted, w')" "(t - h) div 60000 = m" "m < 60" "window_claims w' (h + m * 60000) cs = rs"
  shows "window_claims w h ((t, a) # cs) = granted # rs"
  using assms by simp

lemma limiter_runs:
  "budget_frees_after_the_window_passes" "long_idle_resets_the_window" "spending_spread_over_time_expires_incrementally"
proof -
  note runs = fresh_claims budget_frees_after_the_window_passes_def long_idle_resets_the_window_def
    spending_spread_over_time_expires_incrementally_def
  show "budget_frees_after_the_window_passes" "long_idle_resets_the_window"
    by (simp_all add: runs del: claims.simps window_claims.simps) (simp_all add: window_simps)
  have "window_claims (replicate 60 0) 0 [(0, 180000), (1800000, 180000), (1860000, 5000), (3660000, 5000), (3720000, 180000), (5460000, 175000)]
      = [True, True, False, True, False, True]"
    by (intro spread_run [THEN window_run] window_claims.simps(1)) simp_all
  then show "spending_spread_over_time_expires_incrementally"
    by (simp add: runs del: claims.simps window_claims.simps)
qed

lemma unlimited_claims: "allowance_ms d = None \<Longrightarrow> fst (claims d cs) = replicate (length cs) True"
  by (induction cs) (auto simp: try_claim_def case_prod_beta Let_def)

lemma limiter_unlimited: "non_eu_band_is_unlimited"
  unfolding non_eu_band_is_unlimited_def
  by (subst unlimited_claims) (simp_all add: for_frequency_def eu_duty_cycle_permille_def in_band_def)

text \<open>The hint is the time at which the claim is granted, and no earlier one: the end of the hour of the first minute.\<close>

lemma limiter_hint: "retry_hint_points_at_budget_release"
proof -
  define d where "d = snd (try_claim ten_percent_limiter 0 360000)"
  have al: "allowance_ms ten_percent_limiter = Some 360000" "head_start_ms ten_percent_limiter = 0"
    "limiter_ok ten_percent_limiter" "window ten_percent_limiter = replicate 60 0"
  proof -
    show "window ten_percent_limiter = replicate 60 0" unfolding ten_percent_limiter_def
      by (rule nth_equalityI) (simp_all add: nth_window for_frequency_def BUCKET_COUNT_def)
  qed (simp_all add: ten_percent_limiter_def limiter_ok_for_frequency, simp_all add: for_frequency_def eu_duty_cycle_permille_def in_band_def)
  have first: "fst (try_claim ten_percent_limiter 0 360000) = Inr ()" "head_start_ms d = 0"
    unfolding d_def ten_percent_limiter_def by code_simp+
  have m0: "minutes_since ten_percent_limiter 0 = 0" by (simp add: minutes_since_def)
  have d: "limiter_ok d" "allowance_ms d = Some 360000" "window d = replicate 59 0 @ [360000]"
    using limiter_ok_try_claim [OF al(3), of 0 360000] try_claim_frame(3) [OF al(3), of 0 360000] al(1)
      try_claim_spec [OF al(3,1), of 0 360000] by (simp_all add: d_def m0 al(4) window_simps)
  obtain x d' where x: "try_claim d 1800000 7000 = (Inl (DutyCycleExceeded x), d')"
  proof -
    have "minutes_since d 1800000 = 30" by (simp add: minutes_since_def first(2))
    then have "\<not> is_ok (fst (try_claim d 1800000 7000))"
      using try_claim_spec [OF d(1,2), of 1800000 7000] d(3) by (simp add: window_simps)
    then show ?thesis using that by (metis duty_cycle_exceeded.exhaust is_ok.elims(3) prod.collapse)
  qed
  have x': "allowance_ms d' = Some 360000" "limiter_ok d'"
    using try_claim_frame(3) [OF d(1), of 1800000 7000] limiter_ok_try_claim [OF d(1), of 1800000 7000] d(2) by (simp_all add: x)
  have w': "window d' = replicate 29 0 @ 360000 # replicate 30 0" and h': "unat (head_start_ms d') = 1800000"
  proof -
    have m: "minutes_since d 1800000 = 30" by (simp add: minutes_since_def first(2))
    show "window d' = replicate 29 0 @ 360000 # replicate 30 0"
      using try_claim_spec [OF d(1,2), of 1800000 7000] d(3) by (simp add: m x window_simps)
    have "\<not> (360000 :: u32) < 7000" by simp
    then show "unat (head_start_ms d') = 1800000"
      using try_claim_frame(4) [OF d(1), of 1800000 7000] d(2) advance_head_start [OF limiter_ok_dims [OF d(1)], of 1800000]
      by (simp add: x first(2) m)
  qed
  have later: "is_ok (fst (try_claim d' t 7000)) \<longleftrightarrow> 30 \<le> (unat t - 1800000) div 60000" for t
  proof -
    have "is_ok (fst (try_claim d' t 7000)) = fst (spec_claim 360000 (replicate 29 0 @ 360000 # replicate 30 0) ((unat t - 1800000) div 60000) 7000)"
      using try_claim_spec [OF x'(2,1), of t 7000] by (simp add: w' h' minutes_since_def prod_eq_iff)
    moreover have "fst (spec_claim 360000 (replicate 29 0 @ 360000 # replicate 30 0) m 7000) \<longleftrightarrow> 30 \<le> m" for m
    proof (cases "30 \<le> m")
      case True
      then obtain k where "m = 30 + k" by (metis le_Suc_ex)
      then show ?thesis by (auto simp: spec_claim_def slide_def Let_def sum_list_replicate drop_Cons split: nat.split)
    qed (auto simp: spec_claim_def slide_def Let_def sum_list_replicate)
    ultimately show ?thesis by simp
  qed
  from try_claim_retry [OF d(1,2) _ _ x] first(2) obtain w where
    w: "x = Some w" "0 < w" "w \<le> 3600000" "is_ok (fst (try_claim d' (1800000 + w) 7000))" "\<forall>t < w. \<not> is_ok (fst (try_claim d' (1800000 + t) 7000))"
    by auto
  have "w = 1800000"
  proof (rule antisym)
    show "w \<le> 1800000" using w(5) later [of "1800000 + 1800000"] by (force simp: not_less [symmetric])
    have "unat (1800000 + w) = 1800000 + unat w" using w(3) by (simp add: unat_word_ariths word_le_nat_alt)
    then show "1800000 \<le> w" using w(4) later [of "1800000 + w"] by (simp add: word_le_nat_alt)
  qed
  then show ?thesis using first(1) x w(1)
    by (simp add: retry_hint_points_at_budget_release_def hint_def d_def case_prod_beta Let_def)
qed

subsection \<open>Airtime\<close>

definition matches_known_sf7_value :: bool where
  "matches_known_sf7_value \<longleftrightarrow> time_on_air_ms 7 125 5 13 = 47"

definition matches_known_sf12_value :: bool where
  "matches_known_sf12_value \<longleftrightarrow> time_on_air_ms 12 250 8 20 = 857"

definition max_payload_at_sf12_is_about_seven_seconds :: bool where
  "max_payload_at_sf12_is_about_seven_seconds \<longleftrightarrow>
     (let ms = time_on_air_ms 12 250 8 255 in 6900 \<le> ms \<and> ms < 7100)"

definition max_payload_at_sf11_default_is_about_three_seconds :: bool where
  "max_payload_at_sf11_default_is_about_three_seconds \<longleftrightarrow> time_on_air_ms 11 250 8 255 = 3247"

fun increasing :: "u32 \<Rightarrow> u32 list \<Rightarrow> bool" where
  "increasing previous [] = True"
| "increasing previous (ms # rest) = (previous < ms \<and> increasing ms rest)"

definition airtime_grows_with_spreading_factor :: bool where
  "airtime_grows_with_spreading_factor \<longleftrightarrow>
     increasing 0 (map (\<lambda>sf. time_on_air_ms sf 250 8 100) [7, 8, 9, 10, 11, 12])"

definition empty_payload_still_costs_preamble_and_header :: bool where
  "empty_payload_still_costs_preamble_and_header \<longleftrightarrow> time_on_air_ms 7 250 5 0 = 13"

definition out_of_range_inputs_fall_back_safely :: bool where
  "out_of_range_inputs_fall_back_safely \<longleftrightarrow>
     time_on_air_ms 0 250 0 10 = time_on_air_ms 7 250 5 10 \<and> time_on_air_ms 200 250 8 10 = time_on_air_ms 12 250 8 10"

definition ext_with_defaults_matches_the_plain_function :: bool where
  "ext_with_defaults_matches_the_plain_function \<longleftrightarrow>
     list_all (\<lambda>(sf, bw, cr, len). time_on_air_ms sf bw cr len = time_on_air_ms_ext sf bw cr len 8 True)
       [(7, 125, 5, 13), (11, 250, 8, 255), (12, 250, 8, 20)]"

definition crc_off_downlink_matches_known_value :: bool where
  "crc_off_downlink_matches_known_value \<longleftrightarrow> time_on_air_ms_ext 12 125 5 17 8 False = 1156"

definition crc_off_never_exceeds_crc_on :: bool where
  "crc_off_never_exceeds_crc_on \<longleftrightarrow>
     list_all (\<lambda>len. time_on_air_ms_ext 9 125 5 len 8 False \<le> time_on_air_ms_ext 9 125 5 len 8 True) [0, 12, 51, 255]"

definition longer_preamble_costs_more :: bool where
  "longer_preamble_costs_more \<longleftrightarrow> time_on_air_ms_ext 7 125 5 20 16 True - time_on_air_ms_ext 7 125 5 20 8 True = 8"

lemma airtime_tests:
  "matches_known_sf7_value" "matches_known_sf12_value" "max_payload_at_sf12_is_about_seven_seconds"
  "max_payload_at_sf11_default_is_about_three_seconds" "airtime_grows_with_spreading_factor"
  "empty_payload_still_costs_preamble_and_header" "out_of_range_inputs_fall_back_safely"
  "ext_with_defaults_matches_the_plain_function" "crc_off_downlink_matches_known_value" "crc_off_never_exceeds_crc_on"
  "longer_preamble_costs_more"
  by code_simp+

subsection \<open>Calibration\<close>

definition default_frequency_maps_to_eu868_band :: bool where
  "default_frequency_maps_to_eu868_band \<longleftrightarrow> image_cal_params 869525000 = (0xD7, 0xDB)"

definition each_band_maps_to_datasheet_bytes :: bool where
  "each_band_maps_to_datasheet_bytes \<longleftrightarrow>
     image_cal_params 434000000 = (0x6B, 0x6F) \<and> image_cal_params 490000000 = (0x75, 0x81)
   \<and> image_cal_params 783000000 = (0xC1, 0xC5) \<and> image_cal_params 868000000 = (0xD7, 0xDB)
   \<and> image_cal_params 915000000 = (0xE1, 0xE9)"

definition band_edges_are_inclusive :: bool where
  "band_edges_are_inclusive \<longleftrightarrow> image_cal_params 863000000 = (0xD7, 0xDB) \<and> image_cal_params 870000000 = (0xD7, 0xDB)"

definition out_of_band_falls_back_to_eu868 :: bool where
  "out_of_band_falls_back_to_eu868 \<longleftrightarrow> image_cal_params 100000000 = (0xD7, 0xDB)"

definition ldro_matches_datasheet_combinations :: bool where
  "ldro_matches_datasheet_combinations \<longleftrightarrow>
     ldro_enabled 11 125 \<and> ldro_enabled 12 125 \<and> ldro_enabled 12 250 \<and> \<not> ldro_enabled 11 250
   \<and> \<not> ldro_enabled 12 500 \<and> \<not> ldro_enabled 7 125 \<and> ldro_enabled 9 8"

lemma calibration_tests:
  "default_frequency_maps_to_eu868_band" "each_band_maps_to_datasheet_bytes" "band_edges_are_inclusive"
  "out_of_band_falls_back_to_eu868" "ldro_matches_datasheet_combinations"
  by code_simp+

subsection \<open>The mock radio\<close>

text \<open>The radio is a function of the packet limit of the protocol crate.\<close>

definition mock_of :: "nat \<Rightarrow> mock_radio lora_radio" where
  "mock_of n = MockLoraRadio n 0"

definition test_mock_transmit :: "nat \<Rightarrow> bool" where
  "test_mock_transmit n \<longleftrightarrow>
     (let (r, m) = radio_init (mock_of n) new_mock; (r', m) = transmit (mock_of n) [1, 2, 3] m
      in is_ok r \<and> is_ok r' \<and> tx_history m = [[1, 2, 3]])"

definition test_mock_receive_queued :: "nat \<Rightarrow> bool" where
  "test_mock_receive_queued n \<longleftrightarrow>
     (let p = \<lparr>rx_data = [0x48, 0x65, 0x6C, 0x6C, 0x6F], rx_rssi = - 50, rx_snr = 10\<rparr>;
          (r, m) = arm_receive (mock_of n) (queue_rx_packet p new_mock); (r', m) = wait_rx_event (mock_of n) 1000 m
      in is_ok r \<and> is_ok r' \<and> fst (read_packet (mock_of n) m) = Inr p)"

definition test_mock_receive_timeout :: "nat \<Rightarrow> bool" where
  "test_mock_receive_timeout n \<longleftrightarrow> fst (wait_rx_event (mock_of n) 1000 new_mock) = Inl Timeout"

definition test_mock_tx_error :: "nat \<Rightarrow> bool" where
  "test_mock_tx_error n \<longleftrightarrow>
     (let (r, m) = transmit (mock_of n) [1] (set_next_tx_error TransmitFailed new_mock)
      in r = Inl TransmitFailed \<and> is_ok (fst (transmit (mock_of n) [2] m)))"

lemma mock_tests:
  assumes "3 \<le> n"
  shows "test_mock_transmit n" "test_mock_receive_queued n" "test_mock_receive_timeout n" "test_mock_tx_error n"
  using assms
  by (simp_all add: test_mock_transmit_def test_mock_receive_queued_def test_mock_receive_timeout_def test_mock_tx_error_def
      mock_of_def MockLoraRadio_def mock_transmit_def mock_wait_rx_event_def mock_read_packet_def queue_rx_packet_def
      set_next_tx_error_def new_mock_def extend_cap_def push_cap_def)

end
