(* ===== verification/Data_Sheet.thy ===== *)
theory Data_Sheet imports Complex_Main Airtime begin

text \<open>
  The airtime of the SX1262 data sheet, stated over the rationals and without any step of the
  code, and how close \<open>src/lora/airtime.rs\<close> comes to it: exact (rounded up to milliseconds) at the
  bandwidths whose symbol time is a whole number of microseconds, and elsewhere never more than
  the formula and short of it by less than a microsecond per symbol and one more.
\<close>

subsection \<open>The airtime of the data sheet\<close>

text \<open>
  The bandwidths of the radio with the labels in kHz the configuration names them by (the list
  in \<open>src/lora/traits.rs\<close>), the symbol time, the rule that the low-data-rate optimisation is on
  from a symbol time of 16.38 ms, the number of symbols and the airtime. The labels 8, 16 and 63,
  by which the code also accepts the bandwidths of 7.8, 15.6 and 62.5 kHz, are the subject of
  \<open>rounded_labels_miss_the_rule\<close>.
\<close>

definition lora_bandwidths :: "(u32 \<times> nat) list" where
  "lora_bandwidths =
     [(7, 7800), (10, 10400), (15, 15600), (20, 20800), (21, 20800), (31, 31250), (41, 41700),
      (42, 41700), (62, 62500), (125, 125000), (250, 250000), (500, 500000)]"

definition symbol_ms :: "nat \<Rightarrow> nat \<Rightarrow> rat" where
  "symbol_ms sf hz = 2 ^ sf * 1000 / of_nat hz"

definition low_data_rate :: "nat \<Rightarrow> nat \<Rightarrow> bool" where
  "low_data_rate sf hz \<longleftrightarrow> 1638 / 100 \<le> symbol_ms sf hz"

definition packet_symbols :: "nat \<Rightarrow> nat \<Rightarrow> nat \<Rightarrow> nat \<Rightarrow> nat \<Rightarrow> bool \<Rightarrow> rat" where
  "packet_symbols sf hz cr len preamble crc =
     of_nat preamble + 17 / 4 + 8
     + of_int (max 0 \<lceil>(8 * of_nat len - 4 * of_nat sf + 28 + (if crc then 16 else 0))
                      / (4 * (of_nat sf - (if low_data_rate sf hz then 2 else 0)) :: rat)\<rceil>)
       * of_nat cr"

definition data_sheet_ms :: "nat \<Rightarrow> nat \<Rightarrow> nat \<Rightarrow> nat \<Rightarrow> nat \<Rightarrow> bool \<Rightarrow> rat" where
  "data_sheet_ms sf hz cr len preamble crc =
     packet_symbols sf hz cr len preamble crc * symbol_ms sf hz"

subsection \<open>The code against the data sheet\<close>

lemma ceiling_div_int: "0 < b \<Longrightarrow> \<lceil>of_int a / of_int b :: rat\<rceil> = (a + (b - 1)) div b"
proof -
  assume b: "0 < b"
  define q r where "q = (a + (b - 1)) div b" and "r = (a + (b - 1)) mod b"
  have a: "a + (b - 1) = q * b + r" by (simp add: q_def r_def)
  have r: "0 \<le> r" "r < b" using b by (simp_all add: r_def)
  have "\<lceil>of_int a / of_int b :: rat\<rceil> = q"
  proof (rule ceiling_unique)
    have "(q - 1) * b < a" using a r by (simp add: algebra_simps)
    then have "(of_int (q - 1) * of_int b :: rat) < of_int a" by (metis of_int_less_iff of_int_mult)
    then show "(of_int q - 1 :: rat) < of_int a / of_int b" using b by (simp add: field_simps)
    have "a \<le> q * b" using a r by (simp add: algebra_simps)
    then have "(of_int a :: rat) \<le> of_int q * of_int b" by (metis of_int_le_iff of_int_mult)
    then show "(of_int a / of_int b :: rat) \<le> of_int q" using b by (simp add: field_simps)
  qed
  then show ?thesis by (simp add: q_def)
qed

text \<open>The tables of the code give the bandwidth and the rule of every label of the list.\<close>

lemma low_data_rate_of_label:
  assumes "(bw, hz) \<in> set lora_bandwidths" "7 \<le> sf" "sf \<le> 12"
  shows "ldro_enabled sf bw \<longleftrightarrow> low_data_rate (unat sf) hz"
  using assms(1) word_sf_cases [OF assms(2,3)] unfolding lora_bandwidths_def
  by (elim insertE) (auto simp: ldro_enabled_def low_data_rate_def symbol_ms_def)

lemma bandwidth_of_label: "(bw, hz) \<in> set lora_bandwidths \<Longrightarrow> unat (bandwidth_hz bw) = hz"
  by (auto simp: lora_bandwidths_def bandwidth_hz_def)

lemma toa_blocks_ceiling:
  assumes "3 \<le> sf"
  shows "of_nat (toa_blocks sf ldro len crc)
       = (of_int (max 0 \<lceil>(8 * of_nat len - 4 * of_nat sf + 28 + (if crc then 16 else 0))
                      / (4 * (of_nat sf - (if ldro then 2 else 0)) :: rat)\<rceil>) :: rat)"
proof -
  define a where "a = 8 * int len - 4 * int sf + 28 + int (if crc then 16 else 0)"
  define d where "d = 4 * (sf - (if ldro then 2 else 0))"
  have d: "0 < d" using assms by (simp add: d_def)
  have num: "(8 * of_nat len - 4 * of_nat sf + 28 + (if crc then 16 else 0) :: rat) = of_int a"
    by (simp add: a_def)
  have den: "(4 * (of_nat sf - (if ldro then 2 else 0)) :: rat) = of_int (int d)"
    using assms by (simp add: d_def of_nat_diff)
  have "int (toa_blocks sf ldro len crc) = (if a > 0 then (a + int d - 1) div int d else 0)"
    unfolding toa_blocks_def using toa_blocks_int [OF d, of len sf "if crc then 16 else 0"]
    by (simp only: a_def d_def)
  also have "\<dots> = max 0 ((a + (int d - 1)) div int d)"
  proof (cases "a > 0")
    case True
    then have "0 \<le> (a + (int d - 1)) div int d" using d by (intro pos_imp_zdiv_nonneg_iff [THEN iffD2]) auto
    then show ?thesis using True by (simp add: algebra_simps)
  next
    case False
    have "(a + (int d - 1)) div int d \<le> (int d - 1) div int d" using False d by (intro zdiv_mono1) auto
    then show ?thesis using False d by simp
  qed
  finally show ?thesis unfolding num den using ceiling_div_int [of "int d" a] d
    by (metis of_int_of_nat_eq of_nat_0_less_iff)
qed

text \<open>
  The computation over the naturals truncates twice, once per symbol and once per packet; it is
  exact where the symbol time is a multiple of four microseconds.
\<close>

lemma toa_spec_close:
  fixes pre sf len cr hz :: nat and ldro crc :: bool
  assumes hz: "0 < hz"
  defines "E \<equiv> rat_of_nat (4 * (pre + 8 + toa_blocks sf ldro len crc * (cr + 4)) + 17) / 4 * symbol_ms sf hz"
  shows "int (toa_spec sf ldro hz cr len pre crc) \<le> \<lceil>E\<rceil>"
    and "E < of_nat (toa_spec sf ldro hz cr len pre crc)
          + (rat_of_nat (4 * (pre + 8 + toa_blocks sf ldro len crc * (cr + 4)) + 17) / 4 + 1) / 1000"
    and "4 * hz dvd 2 ^ sf * 1000000 \<Longrightarrow> int (toa_spec sf ldro hz cr len pre crc) = \<lceil>E\<rceil>"
proof -
  define Q where "Q = 4 * (pre + 8 + toa_blocks sf ldro len crc * (cr + 4)) + 17"
  define N where "N = (2 ^ sf * 1000000 :: nat)"
  define T where "T = N div hz"
  define U where "U = Q * T div 4"
  define t where "t = ceil_div U 1000"
  have spec: "toa_spec sf ldro hz cr len pre crc = t"
    by (simp only: toa_spec_def t_def U_def T_def N_def Q_def)
  have "symbol_ms sf hz = rat_of_nat N / (1000 * rat_of_nat hz)"
    using hz by (simp add: symbol_ms_def N_def field_simps)
  moreover have "E = rat_of_nat Q / 4 * symbol_ms sf hz" by (simp only: E_def Q_def)
  ultimately have E: "E = rat_of_nat Q * rat_of_nat N / (4000 * rat_of_nat hz)"
    by simp
  have t: "int t = \<lceil>rat_of_nat U / 1000\<rceil>"
    using ceiling_div_int [of 1000 "int U"] by (simp add: t_def ceil_div_def zdiv_int)
  have Tlo: "rat_of_nat T * of_nat hz \<le> of_nat N"
    by (metis T_def of_nat_mult of_nat_le_iff div_times_less_eq_dividend)
  have "N < (T + 1) * hz" unfolding T_def using hz
    by (metis Suc_eq_plus1 dividend_less_div_times mult.commute mult_Suc_right add.commute)
  then have Thi: "rat_of_nat N < (of_nat T + 1) * of_nat hz"
    by (metis of_nat_1 of_nat_add of_nat_less_iff of_nat_mult)
  have "4 * U \<le> Q * T" by (simp add: U_def)
  then have "rat_of_nat (4 * U) \<le> rat_of_nat (Q * T)" by (simp only: of_nat_le_iff)
  then have Ulo: "4 * rat_of_nat U \<le> of_nat Q * of_nat T"
    by (simp only: of_nat_mult of_nat_numeral)
  have "Q * T < 4 * (U + 1)" by (simp add: U_def)
  then have "rat_of_nat (Q * T) < rat_of_nat (4 * (U + 1))" by (simp only: of_nat_less_iff)
  then have Uhi: "rat_of_nat Q * of_nat T < 4 * (of_nat U + 1)"
    by (simp only: of_nat_mult of_nat_add of_nat_numeral of_nat_1)
  have QT: "rat_of_nat Q * of_nat T * of_nat hz \<le> of_nat Q * of_nat N"
    using mult_left_mono [OF Tlo, of "rat_of_nat Q"] by (simp add: mult.assoc)
  have "4 * rat_of_nat U * of_nat hz \<le> of_nat Q * of_nat N"
    using mult_right_mono [OF Ulo, of "rat_of_nat hz"] QT by simp
  then have UE: "rat_of_nat U / 1000 \<le> E" unfolding E using hz
    by (subst pos_le_divide_eq) (simp_all add: mult.assoc)
  show "int (toa_spec sf ldro hz cr len pre crc) \<le> \<lceil>E\<rceil>"
    unfolding spec t using UE by (rule ceiling_mono)
  have "0 < Q" by (simp add: Q_def)
  then have Qpos: "0 < rat_of_nat Q" by (simp only: of_nat_0_less_iff)
  have "E < rat_of_nat Q * (of_nat T + 1) / 4000"
    unfolding E using mult_strict_left_mono [OF Thi Qpos] hz
    by (subst pos_divide_less_eq) (simp_all add: mult.assoc)
  also have "\<dots> < (of_nat U + 1 + rat_of_nat Q / 4) / 1000"
    using Uhi by (simp add: field_simps)
  also have "rat_of_nat U / 1000 \<le> of_nat t"
    using t by (metis le_of_int_ceiling of_int_of_nat_eq)
  then have "(of_nat U + 1 + rat_of_nat Q / 4) / 1000 \<le> of_nat t + (rat_of_nat Q / 4 + 1) / 1000"
    by (simp add: field_simps)
  finally show "E < of_nat (toa_spec sf ldro hz cr len pre crc)
      + (rat_of_nat (4 * (pre + 8 + toa_blocks sf ldro len crc * (cr + 4)) + 17) / 4 + 1) / 1000"
    by (simp only: spec Q_def [symmetric])
  assume d: "4 * hz dvd 2 ^ sf * 1000000"
  then obtain k where k: "N = 4 * hz * k" by (auto simp: N_def dvd_def)
  have "T = 4 * k" using hz by (simp add: T_def k)
  then have "U = Q * k" by (simp add: U_def)
  then have "E = rat_of_nat U / 1000" using hz by (simp add: E k)
  then show "int (toa_spec sf ldro hz cr len pre crc) = \<lceil>E\<rceil>" by (simp only: spec t)
qed

lemma packet_symbols_nat:
  assumes "3 \<le> sf"
  shows "packet_symbols sf hz cr len pre crc
       = rat_of_nat (4 * (pre + 8 + toa_blocks sf (low_data_rate sf hz) len crc * cr) + 17) / 4"
  unfolding packet_symbols_def using toa_blocks_ceiling [OF assms, of "low_data_rate sf hz" len crc]
  by (simp add: field_simps)

lemma whole_symbol_time:
  assumes "hz \<in> {31250, 62500, 125000, 250000, 500000}" "7 \<le> sf"
  shows "4 * hz dvd 2 ^ sf * (1000000 :: nat)"
proof -
  obtain k where "sf = 7 + k" using assms(2) le_Suc_ex by blast
  then have "2 ^ sf * 1000000 = (128000000 :: nat) * 2 ^ k" by (simp add: power_add)
  moreover have "4 * hz dvd 128000000" using assms(1) by (elim insertE) simp_all
  ultimately show ?thesis by (simp only: dvd_mult2)
qed

lemma effective_rate: "unat (cr_index cr) + 4 = (if 5 \<le> cr \<and> cr \<le> 8 then unat cr else 5)"
  by (simp add: cr_index_def unat_sub word_le_nat_alt)

lemma effective_factor: "unat (clamp_sf sf) = max 7 (min 12 (unat sf))"
  by (auto simp: clamp_sf_def min_def max_def word_le_nat_alt)

lemma ceiling_of_numerals:
  "\<lceil>numeral a / numeral b :: rat\<rceil> = (numeral a + (numeral b - 1)) div numeral b"
  using ceiling_div_int [of "numeral b" "numeral a"] by simp

text \<open>
  C4. For every packet the firmware can hold (up to 65535 bytes, any preamble, spreading factor and
  coding rate, with the documented clamping) and every bandwidth of the radio, the
  \<open>u32\<close>/\<open>i64\<close>/\<open>u64\<close> computation of \<open>time_on_air_ms_ext\<close> gives the exact airtime of the data sheet
  rounded up to milliseconds where the bandwidth is 31.25, 62.5, 125, 250 or 500 kHz. At the other
  five bandwidths it is at most that, and below the exact airtime by less than a microsecond per
  symbol and one more.
\<close>

theorem time_on_air_exact:
  assumes "payload_len \<le> 65535" and "(bw, hz) \<in> set lora_bandwidths"
  shows "let t = time_on_air_ms_ext sf bw cr payload_len pre crc;
             factor = max 7 (min 12 (unat sf));
             rate = (if 5 \<le> cr \<and> cr \<le> 8 then unat cr else 5);
             exact = data_sheet_ms factor hz rate payload_len (unat pre) crc;
             symbols = packet_symbols factor hz rate payload_len (unat pre) crc
         in (hz \<in> {31250, 62500, 125000, 250000, 500000} \<longrightarrow> uint t = \<lceil>exact\<rceil>)
          \<and> uint t \<le> \<lceil>exact\<rceil> \<and> exact < of_nat (unat t) + (symbols + 1) / 1000"
proof -
  define s where "s = clamp_sf sf"
  have sf: "7 \<le> s" "s \<le> 12" "3 \<le> unat s" "7 \<le> unat s" and hz: "0 < hz"
    using clamp_sf_range [of sf] assms(2) by (auto simp: s_def word_le_nat_alt lora_bandwidths_def)
  note t = toa_exact [OF assms(1), of sf bw cr pre crc, folded s_def, unfolded
      bandwidth_of_label [OF assms(2)] low_data_rate_of_label [OF assms(2) sf(1,2)]]
  note sym = packet_symbols_nat [OF sf(3), of hz "unat (cr_index cr) + 4" payload_len "unat pre" crc]
  note close = toa_spec_close [OF hz, where sf = "unat s" and ldro = "low_data_rate (unat s) hz"
      and cr = "unat (cr_index cr)" and len = payload_len and pre = "unat pre" and crc = crc,
      folded sym t, folded data_sheet_ms_def, unfolded effective_rate s_def effective_factor]
  have whole: "hz \<in> {31250, 62500, 125000, 250000, 500000}
      \<Longrightarrow> 4 * hz dvd 2 ^ max 7 (min 12 (unat sf)) * 1000000"
    using whole_symbol_time [OF _ sf(4)] by (simp only: s_def effective_factor)
  show ?thesis unfolding Let_def uint_nat using close(1,2) close(3) [OF whole] by blast
qed

theorem time_on_air_exact_witness:
  "uint (time_on_air_ms_ext 7 125 5 13 8 True) = 47 \<and> uint (time_on_air_ms_ext 12 250 8 20 8 True) = 857
 \<and> uint (time_on_air_ms_ext 7 41 5 44 8 True) \<le> 278"
  using time_on_air_exact [of 13 125 125000 7 5 8 True] time_on_air_exact [of 20 250 250000 12 8 8 True]
    time_on_air_exact [of 44 41 41700 7 5 8 True]
  by (simp add: Let_def lora_bandwidths_def data_sheet_ms_def packet_symbols_def symbol_ms_def low_data_rate_def
      ceiling_of_numerals)

text \<open>The truncation shows: a packet of 277.03 ms is charged 277 ms.\<close>

lemma truncation_undercharges:
  "uint (time_on_air_ms_ext 7 41 5 44 8 True) = 277 \<and> 277 < data_sheet_ms 7 41700 5 44 8 True"
  by (simp add: uint_nat toa_exact toa_spec_def toa_blocks_def ceil_div_def clamp_sf_def ldro_enabled_def
      bandwidth_hz_def cr_index_def data_sheet_ms_def packet_symbols_def symbol_ms_def low_data_rate_def
      ceiling_of_numerals)

text \<open>
  The rule is computed from the label, not the bandwidth: for a label that was rounded up the
  symbol time comes out too short, and the optimisation stays off where the data sheet asks for it.
\<close>

lemma rounded_labels_miss_the_rule:
  "bandwidth_hz 8 = bandwidth_hz 7 \<and> ldro_enabled 7 7 \<and> \<not> ldro_enabled 7 8 \<and> low_data_rate 7 7800
 \<and> bandwidth_hz 16 = bandwidth_hz 15 \<and> ldro_enabled 8 15 \<and> \<not> ldro_enabled 8 16 \<and> low_data_rate 8 15600
 \<and> bandwidth_hz 63 = bandwidth_hz 62 \<and> ldro_enabled 10 62 \<and> \<not> ldro_enabled 10 63 \<and> low_data_rate 10 62500"
  by (simp add: ldro_enabled_def bandwidth_hz_def low_data_rate_def symbol_ms_def)

end
