(* ===== verification/Spec2Isabelle.thy ===== *)
theory Spec2Isabelle
imports Hub_System Serial_Tasks Gateway_Udp Wifi_Task Portal_Task App_Backend Debug_Output Startup Host_Client
  Hub_Secrecy Ble_Client Driver_Tests Dispatcher_Tests Lora_Tests Gateway_Tests Bridge_Tests
  Radio_Unit_Tests Data_Sheet
begin

text \<open>
  Walkie-textie hub firmware: a verification development

  The program. The hub is a microcontroller with an SX1262 LoRa radio, a WiFi radio and a USB serial
  port. Its firmware (src/src/) runs one of two modes over that radio: a bridge between LoRa and an
  MQTT broker, or a single-channel LoRaWAN gateway for the Semtech UDP protocol. In both it is set up
  over the serial port or over a hotspot with a web page, and keeps its settings in flash. An app
  (src/app/rust_backend/) and a host client with a status tool (src/integration_tests/) talk to it; the
  provisioning protocol has a crate of its own (src/hub-protocol/). The tasks of the firmware are
  asynchronous and meet in bounded queues, a publish-subscribe bus and shared counters.

  Theories and sources, in the order of the calls (paths below src/src/ unless they start elsewhere).

  Foundations
    Prelude          bounded vectors, results, folds over words, bounded queues (try_send)
    Rust_Text, Rust_Format   texts as bytes, decimal and hexadecimal formatting and parsing
    Linear_Map       heapless::LinearMap, with the locale bounded_map of its laws

  Radio
    Airtime          lora/airtime.rs, lora/calibration.rs
    Data_Sheet       the airtime formula of the radio's data sheet over the rationals, against Airtime
    Duty_Cycle       lora/duty_cycle.rs: the ring of sixty buckets, refined to a sliding list of minutes;
                     locale airtime_budget
    Lora_Traits      lora/traits.rs, config.rs: the trait as a record of operations, NullRadio,
                     MockLoraRadio; locales radio_contract and atomic_radio
    Sx1262_Driver    lora/driver.rs over an arbitrary hardware layer; interprets radio_contract

  Commands and settings
    Messages, Dispatcher     dispatcher/handler.rs
    Hub_Types, Hub_Codec     src/hub-protocol/src/{types,lib,codec}.rs
    Hub_Config, Hub_Ctrl     hub_config/{mod,store}.rs, tasks/hub_ctrl.rs and the boot in main.rs
    Serial_Tasks, Board_Tasks, Debug_Output   tasks/serial.rs, usb/cdc_io.rs, tasks/{led,admin}.rs, debug.rs
    Startup          main.rs: identifiers, configuration load, tasks, handles and pools

  Bridge mode
    Net_State        net/{stats,backoff,station}.rs, gateway/eui.rs
    Net_Topics       net/traits.rs; locale mqtt_sink
    Bridge_Codec, Bridge     bridge/codec.rs, bridge/mod.rs, tasks/bridge.rs
    Lora_Task        tasks/lora.rs
    Mqtt_Task        tasks/mqtt.rs, together with the bridge task; interprets mqtt_sink
    Hub_System       the MQTT, bridge and radio tasks with their queues and the response bus

  Gateway mode
    Udp_Protocol     gateway/udp_protocol.rs
    Scheduler, Forwarder     gateway/{scheduler,forwarder}.rs
    Gateway_Task     tasks/gateway.rs
    Gateway_Udp      tasks/gateway_udp.rs, together with the radio task

  Networks and setup
    Wifi_Task        tasks/wifi.rs
    Portal_Net       portal/{dns,dhcp,mod}.rs
    Portal_Http      portal/http.rs
    Portal_Task      tasks/portal.rs, together with the hub control task
    App_Backend      src/app/rust_backend/src/{models,engine,client,frb_api}.rs; locale hub_contract,
                     interpreted by the fake hub; the firmware's portal is shown to keep it as well
    Hub_Secrecy      two runs of Hub_Ctrl side by side
    Host_Protocol, Host_Client   src/integration_tests/src/{protocol,device,hub_status}.rs
    Ble_Client       src/integration_tests/src/ble_client.rs

  Tests of the repository, run in the model
    Driver_Tests, Dispatcher_Tests   the unit tests of lora/driver.rs and dispatcher/handler.rs
    Radio_Unit_Tests the unit tests of lora/{duty_cycle,airtime,calibration,traits}.rs
    Serial_Session   host client, serial tasks and radio task joined: locale working_radio
    Host_Tests       src/integration_tests/src/{tests,duty_cycle_tests}.rs against that hub
    Lora_Tests       src/integration_tests/src/lora_tests.rs with two such hubs that hear each other on
                     the same channel only: locale hearing_radio
    Gateway_Tests    src/integration_tests/src/gateway_udp_tests.rs, a network server against the gateway
    Bridge_Tests     src/integration_tests/src/hub_tests.rs, a broker and a node against the whole hub:
                     locales working_broker, bridge_parts
    Test_Support     text functions and steps the test programs share

  How the model corresponds to the code. A struct is a record, an enum a datatype, an integer a word of
  its width with the operations of the code written out (wrapping, saturating, checked). A function is
  a definition of the same name; methods take and return the state. Result and Option are a sum with
  the error on the left and an option. Where the code would panic the model says None, so that the
  absence of panics is a lemma. One turn of a task's loop is one function of the event that woke it; a
  run is a list of events, and tasks that share queues take their turns in any order, so a theorem over
  all event lists holds for every schedule. A turn reads its own queue when it is
  woken and writes to the queues of others as its last steps, which is why whole turns can be interleaved.
  The statistics are read at any time: where a turn changes a reported state between two awaited
  requests (Mqtt_Task), the log has what was reported at each of them.

  What the lemmas show, part by part.
    Radio. The airtime formula never wraps and is the one of the data sheet, exactly at the bandwidths in
      use and to less than a microsecond per symbol at the others; the limiter refines a sliding window, its retry hint is
      exact and the time granted in any 59 minutes is bounded; a call of transmit puts its packet on
      the air once or not at all; the receive flag of the driver tells the truth.
    Commands and settings. Frames round-trip and parsing is canonical; every command is answered once
      and in order; an acknowledged setting survives a reboot and the configuration stays within its
      limits; a setting typed on the host reaches the queue of the control task, when there is room, and
      the answer the host.
    Bridge mode. Answers reach their request, publications stay in order, sessions follow the protocol
      of the broker; in the composed system the duty cycle holds for all that host and broker ask for,
      and every request is settled as long as the bridge misses no message of the bus.
    Gateway mode. A downlink is accepted as it was requested, within legal limits and the duty cycle of
      the sub-bands; only accepted downlinks are sent, as they were accepted, and a timed one is fired at
      its time unless staging it overruns; keepalives and reports go out.
    Setup. The portal resolves every name and leases its address, does not depend on how a request is
      split over reads, and an accepted update is what the hub boots with, also through the app.
    Host. The host's own copy of the protocol agrees with the hub's; acknowledgements are found among
      unsolicited packets; polling over Bluetooth loses no frame. No answer of the hub depends on a
      password.
    Tests. The model passes the unit tests of src/lora/ and the dispatcher, and the hub built from the model
      passes the serial suite, the duty-cycle lockout and the two-board suite: from the bytes the host
      writes to the packet the other host reads; the gateway passes the test of its network server, and
      the hub in bridge mode that of its broker: settings typed on the host are stored, the hub restarts
      with them, comes online and carries packets and requests both ways. This ties the definitions to
      what the authors expect of the code, and it composes protocol, tasks, dispatcher, limiter and radio.
  Lemmas named in the findings of the manifest show where the code does not do what its comments say.

  Parameters. Code of other crates is an argument: the hardware layer (record hal), the USB endpoint,
  COBS and checksum (wire), the flash and its partition table (flash), the JSON libraries (json_lib,
  gw_lib, portal_lib, http_agent), the MQTT client (mqtt_lib), resolvers, sockets, the command
  constructors of the shared protocol crate. What a theorem relies on of them is a hypothesis in its
  statement (for instance lib_ok, tx_only), and its witness instantiates it. Of the framing crate it
  is only assumed that frames that fit MAX_FRAME_SIZE, the capacity of the frame buffer, are completed and
  decoded (link_ok, wire_ok); a sample of both with a bounded buffer is in Hub_Codec and Serial_Tasks.

  Bounds and fuel. The queues and buffers have the capacities of the code. Loops are structural or
  have a measure (length of the input, bytes left to write, time left); the few loops the hardware can
  keep busy take their bound from the code's own timeout or attempt count. No fuel is chosen.
  The bus of Hub_System keeps eight messages for each subscriber, as its type says. The test suites on
  boards run within the first 59 minutes after boot, and the gateway's test starts within the first
  half hour, since the tests themselves rely on a fresh budget and clock.

  Not modelled, and why.
    - src/app/rust_backend/src/frb_generated.rs is generated marshalling.
    - Of the test suites of src/integration_tests/, the one that needs a Bluetooth board
      (ble_e2e_tests) and main.rs, which reads arguments and prints; of ble_client.rs the connection
      set-up, calls of another crate. The unit tests outside src/lora/ and the dispatcher.
    - Construction of peripherals, USB descriptors and network stacks in main.rs is a sequence of calls
      into other crates; Startup models what the firmware itself decides there.
    - Calls of debug! inside the other components are left out: they can only queue or drop a text.
    - The Dart side of the app, scripts and the embedded page's layout; of the page's script the update
      it posts is modelled.
    - In Portal_Task, commands of the serial host between the commands of one post are not interleaved;
      in Hub_System the serial writer reads the bus on its own and takes no part.
\<close>

end
